(* ===== verification/Xw_Prelude.thy ===== *)
theory Xw_Prelude
  imports Main "HOL-Library.Word" "HOL-Library.Monad_Syntax"
begin

text \<open>
  Shared vocabulary of the development: the machine types of the C sources, C strings as
  lists of bytes or characters, the collections of rewrite rules the component theories
  add to, and generic facts on lists and words that several components use.
\<close>

section \<open>Machine types\<close>

type_synonym u8 = "8 word"
type_synonym u16 = "16 word"
type_synonym u32 = "32 word"
type_synonym u64 = "64 word"

text \<open>A pointer is \<^theory_text>\<open>None\<close> for the null pointer, an address otherwise.\<close>

type_synonym addr = nat
type_synonym ptr = "addr option"

section \<open>Collections of rewrite rules\<close>

named_theorems xw_defs \<open>definitions unfolded by evaluation proofs\<close>
named_theorems xw_len \<open>lengths of the byte sequences the components build\<close>
named_theorems xw_abs \<open>effect of the operations on the abstract view\<close>
named_theorems xw_inv \<open>operations keep the invariants\<close>

section \<open>Characters as bytes\<close>

definition byte_of :: "char \<Rightarrow> u8" where
  "byte_of c = of_nat (of_char c)"

definition bytes_of :: "string \<Rightarrow> u8 list" where
  "bytes_of s = map byte_of s"

lemma length_bytes_of [simp, xw_len]: "length (bytes_of s) = length s"
  by (simp add: bytes_of_def)

lemma bytes_of_append [simp]: "bytes_of (s @ t) = bytes_of s @ bytes_of t"
  by (simp add: bytes_of_def)

lemma bytes_of_Cons [simp]: "bytes_of (c # s) = byte_of c # bytes_of s"
  by (simp add: bytes_of_def)

lemma bytes_of_Nil [simp]: "bytes_of [] = []"
  by (simp add: bytes_of_def)

lemma inj_byte_of: "inj byte_of"
proof (rule injI)
  fix c d assume "byte_of c = byte_of d"
  then have "unat (byte_of c) = unat (byte_of d)" by simp
  then have "(of_char c :: nat) = of_char d"
    by (simp add: byte_of_def unat_of_nat)
  then show "c = d" by simp
qed

lemma byte_of_eq_iff [simp]: "byte_of c = byte_of d \<longleftrightarrow> c = d"
  by (simp add: inj_byte_of inj_eq)

lemma distinct_bytes_of [simp]: "distinct (bytes_of s) = distinct s"
  using inj_byte_of by (simp add: bytes_of_def distinct_map inj_on_def)

section \<open>Words\<close>

unbundle bit_operations_syntax

lemma xor_cancel_right [simp]: "a XOR c = b XOR c \<longleftrightarrow> a = b" for a b c :: "'a::len word"
proof
  assume "a XOR c = b XOR c"
  then have "(a XOR c) XOR c = (b XOR c) XOR c" by simp
  then show "a = b" by (simp add: xor.assoc)
qed simp

lemma xor_cancel_left [simp]: "c XOR a = c XOR b \<longleftrightarrow> a = b" for a b c :: "'a::len word"
  by (metis xor_cancel_right xor.commute)

lemma unat_u8_lt [simp]: "unat (b :: u8) < 256"
  using unsigned_less [of b] by simp

lemma unat_drop_bit_u32: "unat (drop_bit n w) = unat w div 2 ^ n" for w :: u32
proof -
  have "take_bit LENGTH(32) (unat w) = unat w"
    using unsigned_less [of w] by (intro take_bit_nat_eq_self) simp
  then show ?thesis by (simp only: unsigned_drop_bit_eq drop_bit_eq_div [of n "_ :: nat"])
qed

lemma unat_of_nat_u16: "x < 65536 \<Longrightarrow> unat (of_nat x :: u16) = x"
  by (simp add: unat_of_nat)

lemma unat_of_nat_u32: "x < 4294967296 \<Longrightarrow> unat (of_nat x :: u32) = x"
  by (simp add: unat_of_nat)

lemma unat_ucast_u8_u64: "unat (ucast b :: u64) = unat (b :: u8)"
proof -
  have "unat b < 2 ^ 64" by (rule less_trans [OF unat_u8_lt]) simp
  then show ?thesis by (simp add: unsigned_ucast_eq take_bit_nat_eq_self)
qed

lemma ucast_u32_down [simp]: "ucast (ucast c :: u64) = (c :: u32)"
  by (rule bit_word_eqI) (auto simp: bit_simps)

lemma ucast_u8_down [simp]: "ucast (ucast b :: u32) = (b :: u8)"
  by (rule bit_word_eqI) (auto simp: bit_simps)

lemma ucast_u8_u32_inj [simp]: "(ucast a :: u32) = ucast b \<longleftrightarrow> a = b" for a b :: u8
  by (metis ucast_u8_down)

lemma u8_bit_high [simp]: "8 \<le> n \<Longrightarrow> \<not> bit (b :: u8) n"
  using bit_imp_le_length [of b n] by auto

lemma u32_bit_high [simp]: "32 \<le> n \<Longrightarrow> \<not> bit (b :: u32) n"
  using bit_imp_le_length [of b n] by auto

text \<open>Bytes are equal when their eight bits are; the bit positions are numerals, so that \<open>bit_simps\<close> decides them.\<close>

lemma u8_eqI:
  fixes a b :: u8
  assumes "bit a 0 = bit b 0" "bit a 1 = bit b 1" "bit a 2 = bit b 2" "bit a 3 = bit b 3"
    "bit a 4 = bit b 4" "bit a 5 = bit b 5" "bit a 6 = bit b 6" "bit a 7 = bit b 7"
  shows "a = b"
proof (rule bit_word_eqI)
  fix n assume "n < LENGTH(8)"
  then have "n = 0 \<or> n = 1 \<or> n = 2 \<or> n = 3 \<or> n = 4 \<or> n = 5 \<or> n = 6 \<or> n = 7" by auto
  with assms show "bit a n = bit b n" by (elim disjE) simp_all
qed

lemma ucast_drop_bit_of_nat:
  "k \<le> 24 \<Longrightarrow> (ucast (drop_bit k (of_nat x :: u32)) :: u8) = of_nat (x div 2 ^ k)"
  by (intro bit_word_eqI) (auto simp: bit_simps simp flip: drop_bit_eq_div)

section \<open>Lists\<close>

lemma map_upt_eqI:
  assumes "length xs = n" and "\<And>i. i < n \<Longrightarrow> xs ! i = f i"
  shows "xs = map f [0..<n]"
  using assms by (simp add: list_eq_iff_nth_eq)

lemma split3:
  assumes "length xs = a + b + c"
  obtains x1 x2 x3 where "xs = x1 @ x2 @ x3" "length x1 = a" "length x2 = b" "length x3 = c"
proof (rule that)
  show "xs = take a xs @ take b (drop a xs) @ drop b (drop a xs)"
    by (simp only: append_take_drop_id)
qed (use assms in simp_all)

lemma length3_conv: "length xs = 3 \<longleftrightarrow> (\<exists>a b c. xs = [a, b, c])"
  by (auto simp: length_Suc_conv eval_nat_numeral)

lemma length4_conv: "length xs = 4 \<longleftrightarrow> (\<exists>a b c d. xs = [a, b, c, d])"
  by (auto simp: length_Suc_conv eval_nat_numeral)

lemma length8_conv: "length xs = 8 \<longleftrightarrow> (\<exists>a b c d e f g h. xs = [a, b, c, d, e, f, g, h])"
  by (auto simp: length_Suc_conv eval_nat_numeral)

section \<open>Writing into a fixed buffer\<close>

text \<open>\<^verbatim>\<open>memcpy(buf + off, xs, n)\<close> where the copied range lies inside \<^verbatim>\<open>buf\<close>.\<close>

definition buf_put :: "'a list \<Rightarrow> nat \<Rightarrow> 'a list \<Rightarrow> 'a list" where
  "buf_put buf off xs = take off buf @ xs @ drop (off + length xs) buf"

lemma length_buf_put [simp, xw_len]:
  "off + length xs \<le> length buf \<Longrightarrow> length (buf_put buf off xs) = length buf"
  by (simp add: buf_put_def)

lemma nth_buf_put:
  "off + length xs \<le> length buf \<Longrightarrow> j < length buf \<Longrightarrow>
     buf_put buf off xs ! j = (if off \<le> j \<and> j < off + length xs then xs ! (j - off) else buf ! j)"
  by (auto simp: buf_put_def nth_append min_def)

lemma take_buf_put:
  "off \<le> length buf \<Longrightarrow> take (off + length xs) (buf_put buf off xs) = take off buf @ xs"
  by (simp add: buf_put_def)

section \<open>Memory blocks\<close>

text \<open>
  A block of memory is the list of its cells. Access outside the block is undefined
  behaviour in C and \<^theory_text>\<open>None\<close> here. \<open>mem_resize\<close> is \<^verbatim>\<open>realloc\<close>; fresh cells have the
  contents \<open>junk\<close>, an argument of every operation that allocates.
\<close>

definition mem_write :: "'a list \<Rightarrow> nat \<Rightarrow> 'a list \<Rightarrow> 'a list option" where
  "mem_write buf off xs = (if off + length xs \<le> length buf then Some (buf_put buf off xs) else None)"

definition mem_read :: "'a list \<Rightarrow> nat \<Rightarrow> nat \<Rightarrow> 'a list option" where
  "mem_read buf off n = (if off + n \<le> length buf then Some (take n (drop off buf)) else None)"

definition mem_resize :: "(nat \<Rightarrow> 'a) \<Rightarrow> 'a list \<Rightarrow> nat \<Rightarrow> 'a list" where
  "mem_resize junk buf n = take n buf @ map junk [length buf..<n]"

lemma length_mem_resize [simp, xw_len]: "length (mem_resize junk buf n) = n"
  by (simp add: mem_resize_def)

lemma mem_write_Some: "off + length xs \<le> length buf \<Longrightarrow> mem_write buf off xs = Some (buf_put buf off xs)"
  by (simp add: mem_write_def)

lemma mem_write_SomeD: "mem_write buf off xs = Some buf' \<Longrightarrow> length buf' = length buf"
  by (auto simp: mem_write_def split: if_splits)

lemma mem_read_Some: "off + n \<le> length buf \<Longrightarrow> mem_read buf off n = Some (take n (drop off buf))"
  by (simp add: mem_read_def)

end
