(* ===== verification/Crypt_Base64.thy ===== *)
theory Crypt_Base64
  imports Xw_Prelude
begin

text \<open>
  Model of \<^verbatim>\<open>plugins/crypt/base64.c\<close>: the base64 encoder and decoder and the
  conversions between binary buffers and hexadecimal strings. A buffer is the list of its
  bytes; a returned C string carries its terminating zero byte.
\<close>

unbundle bit_operations_syntax

section \<open>Tables\<close>

definition b64dict :: "u8 list" where
  "b64dict = bytes_of ''ABCDEFGHIJKLMNOPQRSTUVWXYZabcdefghijklmnopqrstuvwxyz0123456789+/''"

definition nbytes :: "nat list" where
  "nbytes = [3, 1, 1, 2]"

definition hexcmap :: "u8 list" where
  "hexcmap = bytes_of ''0123456789abcdef''"

section \<open>Decoder\<close>

text \<open>
  \<^verbatim>\<open>strchr(s, c) - s\<close>: the search includes the terminating zero of \<^verbatim>\<open>s\<close>.
\<close>

fun strchr_ix :: "u8 list \<Rightarrow> u8 \<Rightarrow> nat option" where
  "strchr_ix [] c = (if c = 0 then Some 0 else None)"
| "strchr_ix (x # xs) c = (if x = c then Some 0 else map_option Suc (strchr_ix xs c))"

text \<open>
  \<^verbatim>\<open>xlate\<close>: three output bytes from four sextets; only the first
  \<^verbatim>\<open>nbytes[phase]\<close> of them are used by the caller. The shifts are computed in \<^verbatim>\<open>int\<close>
  and stored in an \<^verbatim>\<open>unsigned char\<close>, which is the shift on 8-bit words.
\<close>

definition xlate :: "u8 list \<Rightarrow> nat \<Rightarrow> u8 list \<times> nat" where
  "xlate inb phase =
     ([push_bit 2 (inb ! 0) OR drop_bit 4 (inb ! 1),
       push_bit 4 (inb ! 1) OR drop_bit 2 (inb ! 2),
       push_bit 6 (inb ! 2) OR inb ! 3],
      nbytes ! phase)"

text \<open>
  The loop of \<^verbatim>\<open>base64_decode\<close>. The local array \<^verbatim>\<open>in\<close> is not initialised before the
  first complete group, so its initial contents are an argument.
\<close>

fun base64_decode_loop :: "u8 list \<Rightarrow> u8 list \<Rightarrow> nat \<Rightarrow> u8 list \<Rightarrow> u8 list" where
  "base64_decode_loop [] inb phase ret = ret"
| "base64_decode_loop (c # cs) inb phase ret =
     (if c = 0x3D
      then (let (buf, bytes) = xlate inb phase in ret @ take bytes buf)
      else case strchr_ix b64dict c of
             None \<Rightarrow> base64_decode_loop cs inb phase ret
           | Some p \<Rightarrow>
               (let inb' = inb[phase := of_nat p]; phase' = (phase + 1) mod 4
                in if phase' = 0
                   then (let (buf, bytes) = xlate inb' phase'
                         in base64_decode_loop cs [0, 0, 0, 0] phase' (ret @ take bytes buf))
                   else base64_decode_loop cs inb' phase' ret))"

definition base64_decode :: "u8 list \<Rightarrow> u8 list \<Rightarrow> u8 list \<times> nat" where
  "base64_decode garbage str =
     (let ret = base64_decode_loop str garbage 0 [] in (ret @ [0], length ret))"

section \<open>Encoder\<close>

definition b64_sextet :: "u32 \<Rightarrow> u8" where
  "b64_sextet w = b64dict ! unat (w AND 0x3F)"

definition b64_c0 :: "u8 list \<Rightarrow> u8" where
  "b64_c0 inb = b64_sextet (drop_bit 2 (ucast (inb ! 0)))"

definition b64_c1 :: "u8 list \<Rightarrow> u8" where
  "b64_c1 inb = b64_sextet (push_bit 4 (ucast (inb ! 0)) OR drop_bit 4 (ucast (inb ! 1)))"

definition b64_c2 :: "u8 list \<Rightarrow> u8" where
  "b64_c2 inb = b64_sextet (push_bit 2 (ucast (inb ! 1)) OR drop_bit 6 (ucast (inb ! 2)))"

definition b64_c3 :: "u8 list \<Rightarrow> u8" where
  "b64_c3 inb = b64_sextet (ucast (inb ! 2))"

fun base64_encode_loop :: "u8 list \<Rightarrow> u8 list \<Rightarrow> nat \<Rightarrow> u8 list \<Rightarrow> u8 list \<times> nat \<times> u8 list" where
  "base64_encode_loop [] inb j ret = (inb, j, ret)"
| "base64_encode_loop (c # cs) inb j ret =
     (let inb' = inb[j := c]; j' = Suc j
      in if j' = 3
         then base64_encode_loop cs [0, 0, 0] 0
                (ret @ [b64_c0 inb', b64_c1 inb', b64_c2 inb', b64_c3 inb'])
         else base64_encode_loop cs inb' j' ret)"

definition x_base64_encode :: "u8 list \<Rightarrow> u8 list" where
  "x_base64_encode str =
     (let (inb, j, ret) = base64_encode_loop str [0, 0, 0] 0 [];
          ret' = (if j \<noteq> 0
                  then ret @ [b64_c0 inb, b64_c1 inb, if j = 2 then b64_c2 inb else 0x3D, 0x3D]
                  else ret)
      in ret' @ [0])"

text \<open>The number of bytes the encoder allocates for an input of \<^verbatim>\<open>len\<close> bytes.\<close>

definition x_base64_alloc :: "nat \<Rightarrow> nat" where
  "x_base64_alloc len =
     (let l = (len + 2 - (len + 2) mod 3) div 3 * 4;
          l' = (l + 3) div 4 * 4
      in l' + 1)"

section \<open>Hexadecimal\<close>

definition bin2hex :: "u8 list \<Rightarrow> u8 list" where
  "bin2hex buf =
     concat (map (\<lambda>b. [hexcmap ! unat (drop_bit 4 b AND 0xF), hexcmap ! unat (b AND 0xF)]) buf) @ [0]"

definition hexval :: "u8 \<Rightarrow> u8 option" where
  "hexval c =
     (if 0x61 \<le> c \<and> c \<le> 0x66 then Some (10 + (c - 0x61))
      else if 0x41 \<le> c \<and> c \<le> 0x46 then Some (10 + (c - 0x41))
      else if 0x30 \<le> c \<and> c \<le> 0x39 then Some (c - 0x30)
      else None)"

fun hex2bin_loop :: "u8 list \<Rightarrow> u8 list option" where
  "hex2bin_loop (c1 # c2 # cs) =
     (case hexval c1 of None \<Rightarrow> None
      | Some v1 \<Rightarrow> (case hexval c2 of None \<Rightarrow> None
                    | Some v2 \<Rightarrow> map_option (\<lambda>r. (v1 * 16 + v2) # r) (hex2bin_loop cs)))"
| "hex2bin_loop _ = Some []"

text \<open>
  The second component is the value stored through \<^verbatim>\<open>len\<close>: nothing on the early
  returns, and the expected length even where a digit is invalid and the result is null.
\<close>

definition hex2bin :: "u8 list option \<Rightarrow> u8 list option \<times> nat option" where
  "hex2bin hex =
     (case hex of None \<Rightarrow> (None, None)
      | Some s \<Rightarrow> (if length s = 0 \<or> length s mod 2 \<noteq> 0 then (None, None)
                   else (hex2bin_loop s, Some (length s div 2))))"

section \<open>Properties of the tables\<close>

lemma length_b64dict [simp]: "length b64dict = 64"
  by (simp add: b64dict_def)

lemma strchr_ix_nth: "distinct xs \<Longrightarrow> n < length xs \<Longrightarrow> strchr_ix xs (xs ! n) = Some n"
  by (induction xs arbitrary: n) (auto simp: nth_Cons split: nat.splits)

lemma distinct_b64dict: "distinct b64dict"
  by (simp add: b64dict_def)

lemma pad_notin_b64dict: "0x3D \<notin> set b64dict"
  by (simp add: b64dict_def bytes_of_def byte_of_def)

lemma unat_and_sextet: "unat ((w :: u32) AND 0x3F) < 64"
proof -
  have "w AND 0x3F \<le> 0x3F" by (rule word_and_le1)
  then show ?thesis by (simp add: word_le_nat_alt)
qed

lemma strchr_ix_sextet: "strchr_ix b64dict (b64_sextet w) = Some (unat (w AND 0x3F))"
  by (simp add: b64_sextet_def strchr_ix_nth distinct_b64dict unat_and_sextet)

lemma sextet_not_pad: "b64_sextet w \<noteq> 0x3D"
  by (metis b64_sextet_def length_b64dict nth_mem pad_notin_b64dict unat_and_sextet)

section \<open>One group of three bytes\<close>

lemma mask_6: "(0x3F :: u32) = mask 6"
  by (simp add: mask_eq_exp_minus_1)

lemma group_byte_0:
  "push_bit 2 (ucast (drop_bit 2 (ucast a :: u32) AND 0x3F)) OR
   drop_bit 4 (ucast ((push_bit 4 (ucast a :: u32) OR drop_bit 4 (ucast (b :: u8))) AND 0x3F)) = (a :: u8)"
  unfolding mask_6 by (rule u8_eqI) (simp_all add: bit_simps)

lemma group_byte_1:
  "push_bit 4 (ucast ((push_bit 4 (ucast a :: u32) OR drop_bit 4 (ucast (b :: u8))) AND 0x3F)) OR
   drop_bit 2 (ucast ((push_bit 2 (ucast b :: u32) OR drop_bit 6 (ucast (c :: u8))) AND 0x3F)) = (b :: u8)"
  unfolding mask_6 by (rule u8_eqI) (simp_all add: bit_simps)

lemma group_byte_2:
  "push_bit 6 (ucast ((push_bit 2 (ucast b :: u32) OR drop_bit 6 (ucast (c :: u8))) AND 0x3F)) OR
   ucast (ucast c AND (0x3F :: u32)) = (c :: u8)"
  unfolding mask_6 by (rule u8_eqI) (simp_all add: bit_simps)

lemmas group_bytes = group_byte_0 group_byte_1 group_byte_2
lemmas sextet_simps = strchr_ix_sextet sextet_not_pad
lemmas b64_chars = b64_c0_def b64_c1_def b64_c2_def b64_c3_def

lemma decode_full_group:
  assumes "length inb = 4"
  shows "base64_decode_loop (b64_c0 [a, b, c] # b64_c1 [a, b, c] # b64_c2 [a, b, c] # b64_c3 [a, b, c] # cs) inb 0 ret
    = base64_decode_loop cs [0, 0, 0, 0] 0 (ret @ [a, b, c])"
proof -
  from assms obtain x0 x1 x2 x3 where "inb = [x0, x1, x2, x3]" by (auto simp: length4_conv)
  then show ?thesis
    by (simp add: b64_chars sextet_simps xlate_def nbytes_def of_nat_unat group_bytes)
qed

lemma decode_tail_1:
  assumes "length inb = 4"
  shows "base64_decode_loop [b64_c0 [a, 0, 0], b64_c1 [a, 0, 0], 0x3D, 0x3D] inb 0 ret = ret @ [a]"
proof -
  from assms obtain x0 x1 x2 x3 where "inb = [x0, x1, x2, x3]" by (auto simp: length4_conv)
  then show ?thesis using group_byte_0 [of a 0]
    by (simp add: b64_chars sextet_simps xlate_def nbytes_def of_nat_unat)
qed

lemma decode_tail_2:
  assumes "length inb = 4"
  shows "base64_decode_loop [b64_c0 [a, b, 0], b64_c1 [a, b, 0], b64_c2 [a, b, 0], 0x3D] inb 0 ret = ret @ [a, b]"
proof -
  from assms obtain x0 x1 x2 x3 where "inb = [x0, x1, x2, x3]" by (auto simp: length4_conv)
  then show ?thesis using group_byte_0 [of a b] group_byte_1 [of a b 0]
    by (simp add: b64_chars sextet_simps xlate_def nbytes_def of_nat_unat)
qed

section \<open>Reference encoder, three bytes at a time\<close>

fun b64_ref :: "u8 list \<Rightarrow> u8 list" where
  "b64_ref [] = []"
| "b64_ref [a] = [b64_c0 [a, 0, 0], b64_c1 [a, 0, 0], 0x3D, 0x3D]"
| "b64_ref [a, b] = [b64_c0 [a, b, 0], b64_c1 [a, b, 0], b64_c2 [a, b, 0], 0x3D]"
| "b64_ref (a # b # c # cs) =
     b64_c0 [a, b, c] # b64_c1 [a, b, c] # b64_c2 [a, b, c] # b64_c3 [a, b, c] # b64_ref cs"

lemma encode_loop_ref:
  "(case base64_encode_loop str [0, 0, 0] 0 ret of (inb, j, ret') \<Rightarrow>
      if j \<noteq> 0 then ret' @ [b64_c0 inb, b64_c1 inb, if j = 2 then b64_c2 inb else 0x3D, 0x3D] else ret')
   = ret @ b64_ref str"
  by (induction str arbitrary: ret rule: b64_ref.induct) (simp_all add: Let_def)

lemma encode_is_ref: "x_base64_encode str = b64_ref str @ [0]"
  using encode_loop_ref [of str "[]"]
  by (auto simp: x_base64_encode_def Let_def split: prod.splits)

lemma length_b64_ref: "length (b64_ref str) = (length str + 2) div 3 * 4"
proof (induction str rule: b64_ref.induct)
  case (4 a b c cs)
  have "(n + 5) div 3 = Suc ((n + 2) div 3)" for n :: nat by presburger
  with 4 show ?case by (simp add: add.commute)
qed simp_all

lemma decode_ref:
  "length inb = 4 \<Longrightarrow> base64_decode_loop (b64_ref str) inb 0 ret = ret @ str"
  by (induction str arbitrary: inb ret rule: b64_ref.induct)
     (simp_all add: decode_full_group decode_tail_1 decode_tail_2 del: base64_decode_loop.simps(2))

section \<open>Hexadecimal round trip\<close>

lemma nibbles: "\<forall>n \<in> set [0..<16]. hexval (hexcmap ! n) = Some (of_nat n)"
  by (simp add: upt_rec hexcmap_def bytes_of_def byte_of_def hexval_def)

lemma unat_and_nibble: "unat ((w :: u8) AND 0xF) < 16"
proof -
  have "w AND 0xF \<le> 0xF" by (rule word_and_le1)
  then show ?thesis by (simp add: word_le_nat_alt)
qed

lemma hexval_hexcmap: "hexval (hexcmap ! unat (w AND 0xF)) = Some (w AND 0xF)"
  using nibbles unat_and_nibble [of w] by (simp add: of_nat_unat)

lemma nibbles_join: "(drop_bit 4 b AND 0xF) * 16 + (b AND 0xF) = (b :: u8)"
proof -
  have m: "(0xF :: u8) = mask 4" by (simp add: mask_eq_exp_minus_1)
  have "drop_bit 4 b AND 0xF = drop_bit 4 b"
    unfolding m by (rule u8_eqI) (simp_all add: bit_simps)
  moreover have "drop_bit 4 b = b div 16" by (simp add: drop_bit_eq_div)
  moreover have "b AND 0xF = b mod 16" unfolding m by (simp add: take_bit_eq_mod flip: take_bit_eq_mask)
  ultimately show ?thesis using div_mult_mod_eq [of b 16] by simp
qed

lemma hex2bin_loop_bin2hex: "hex2bin_loop (butlast (bin2hex buf)) = Some buf"
  by (induction buf)
     (simp_all add: bin2hex_def butlast_append hexval_hexcmap nibbles_join)

lemma length_bin2hex: "length (bin2hex buf) = 2 * length buf + 1"
  by (induction buf) (simp_all add: bin2hex_def)

lemma hex2bin_loop_accepts:
  "even (length s) \<Longrightarrow> hex2bin_loop s \<noteq> None \<longleftrightarrow> (\<forall>c \<in> set s. hexval c \<noteq> None)"
  by (induction s rule: hex2bin_loop.induct) (auto split: option.splits)

lemma hex2bin_loop_length: "hex2bin_loop s = Some r \<Longrightarrow> length r = length s div 2"
  by (induction s arbitrary: r rule: hex2bin_loop.induct) (auto split: option.splits)

section \<open>Claims\<close>

text \<open>
  C38. Decoding the encoder's output, whatever the decoder's uninitialised scratch array
  held, returns exactly the encoded bytes and their number.
\<close>

theorem base64_roundtrip:
  assumes "length garbage = 4"
  shows "base64_decode garbage (butlast (x_base64_encode str)) = (str @ [0], length str)"
  by (simp add: base64_decode_def encode_is_ref decode_ref assms)

theorem base64_roundtrip_witness:
  "base64_decode [7, 7, 7, 7] (butlast (x_base64_encode [1, 2, 3, 4])) = ([1, 2, 3, 4, 0], 4)"
  using base64_roundtrip [of "[7, 7, 7, 7]" "[1, 2, 3, 4]"] by simp

text \<open>
  The encoder writes exactly the number of bytes it allocates, terminator included:
  the output buffer is neither overrun nor left partly unwritten.
\<close>

theorem base64_encode_fills_buffer: "length (x_base64_encode str) = x_base64_alloc (length str)"
proof -
  have "(n + 2 - (n + 2) mod 3) div 3 = (n + 2) div 3" for n :: nat
    by (metis minus_mod_eq_mult_div nonzero_mult_div_cancel_left zero_neq_numeral)
  then show ?thesis
    by (simp add: encode_is_ref length_b64_ref x_base64_alloc_def Let_def)
qed

text \<open>
  A non-empty buffer survives the trip through its hexadecimal string, and the length
  reported is the buffer's.
\<close>

theorem hex_roundtrip:
  assumes "buf \<noteq> []"
  shows "hex2bin (Some (butlast (bin2hex buf))) = (Some buf, Some (length buf))"
  using assms by (simp add: hex2bin_def hex2bin_loop_bin2hex length_bin2hex)

theorem hex_roundtrip_witness:
  "hex2bin (Some (butlast (bin2hex [0xAB, 0x01]))) = (Some [0xAB, 0x01], Some 2)"
  using hex_roundtrip [of "[0xAB, 0x01]"] by simp

text \<open>
  The parser of hexadecimal strings accepts exactly the non-empty strings of even
  length whose characters are all hexadecimal digits, and returns half as many bytes.
\<close>

theorem hex2bin_accepts:
  "(\<exists>r. fst (hex2bin (Some s)) = Some r \<and> length r = length s div 2)
     \<longleftrightarrow> s \<noteq> [] \<and> even (length s) \<and> list_all (\<lambda>c. hexval c \<noteq> None) s"
proof (cases "s \<noteq> [] \<and> even (length s)")
  case True
  then have "fst (hex2bin (Some s)) = hex2bin_loop s"
    by (simp add: hex2bin_def even_iff_mod_2_eq_zero)
  with True hex2bin_loop_accepts [of s] show ?thesis
    by (auto simp: list_all_iff dest: hex2bin_loop_length)
next
  case False
  then show ?thesis by (auto simp: hex2bin_def odd_iff_mod_2_eq_one)
qed

text \<open>
  A pad character where no group is open makes the decoder emit three bytes of its
  scratch array; as the first character these are uninitialised memory.
\<close>

lemma base64_decode_stray_pad:
  "base64_decode [g0, g1, g2, g3] (bytes_of ''='') =
     ([push_bit 2 g0 OR drop_bit 4 g1, push_bit 4 g1 OR drop_bit 2 g2, push_bit 6 g2 OR g3, 0], 3)"
  by (simp add: base64_decode_def byte_of_def xlate_def nbytes_def)

end
