(* ===== verification/Crypt_Crc32.thy ===== *)
theory Crypt_Crc32
  imports Xw_Prelude
begin

text \<open>
  Model of \<^verbatim>\<open>plugins/crypt/crc32.c\<close>: the table-driven CRC-32 that fingerprints STUN
  packets. The locals of type \<^verbatim>\<open>unsigned long\<close> are 64 bits wide (LP64); the global
  \<^verbatim>\<open>crc_tab\<close> is an argument of the checksum, because its value depends on whether the
  generator has run before.
\<close>

unbundle bit_operations_syntax

section \<open>The table generator and the checksum\<close>

definition crc_poly :: u64 where
  "crc_poly = 0xEDB88320"

definition crc_shift :: "u64 \<Rightarrow> u64" where
  "crc_shift crc = (if crc AND 1 \<noteq> 0 then drop_bit 1 crc XOR crc_poly else drop_bit 1 crc)"

definition chksum_crc32gentab :: "u32 list" where
  "chksum_crc32gentab = map (\<lambda>i. ucast ((crc_shift ^^ 8) (of_nat i))) [0..<256]"

definition crc_step :: "u32 list \<Rightarrow> u64 \<Rightarrow> u8 \<Rightarrow> u64" where
  "crc_step tab crc b =
     (drop_bit 8 crc AND 0x00FFFFFF) XOR ucast (tab ! unat ((crc XOR ucast b) AND 0xFF))"

definition chksum_crc32 :: "u32 list \<Rightarrow> u8 list \<Rightarrow> u32" where
  "chksum_crc32 tab block = ucast (foldl (crc_step tab) 0xFFFFFFFF block XOR 0xFFFFFFFF)"

section \<open>Reference: the bit-serial CRC-32 on a 32-bit register\<close>

definition crc_bit :: "u32 \<Rightarrow> u32" where
  "crc_bit c = (if odd c then drop_bit 1 c XOR 0xEDB88320 else drop_bit 1 c)"

definition crc_byte :: "u32 \<Rightarrow> u8 \<Rightarrow> u32" where
  "crc_byte c b = (crc_bit ^^ 8) (c XOR ucast b)"

definition crc32_ref :: "u8 list \<Rightarrow> u32" where
  "crc32_ref block = NOT (foldl crc_byte 0xFFFFFFFF block)"

section \<open>The shift register is linear and injective\<close>

lemma bit_crc_poly_32: "bit (0xEDB88320 :: u32) 31"
  by (simp add: bit_iff_odd drop_bit_eq_div)

lemma crc_bit_xor: "crc_bit (a XOR b) = crc_bit a XOR crc_bit b"
  by (auto simp: crc_bit_def even_xor_iff xor.assoc xor.left_commute xor.commute)

lemma crc_bits_xor: "(crc_bit ^^ n) (a XOR b) = (crc_bit ^^ n) a XOR (crc_bit ^^ n) b"
  by (induction n) (simp_all add: crc_bit_xor)

lemma crc_bit_top: "bit (crc_bit c) 31 = odd c"
  by (auto simp: crc_bit_def bit_simps bit_crc_poly_32)

lemma crc_bit_inj: "crc_bit a = crc_bit b \<Longrightarrow> a = b"
proof -
  assume eq: "crc_bit a = crc_bit b"
  then have odd: "odd a = odd b" by (metis crc_bit_top)
  with eq have "drop_bit 1 a = drop_bit 1 b"
    by (auto simp: crc_bit_def split: if_splits)
  moreover have "take_bit 1 a = take_bit 1 b"
    using odd by (simp add: take_bit_Suc mod_2_eq_odd)
  ultimately show "a = b" by (metis bits_ident)
qed

lemma crc_bits_inj: "(crc_bit ^^ n) a = (crc_bit ^^ n) b \<Longrightarrow> a = b"
  by (induction n arbitrary: a b) (auto dest: crc_bit_inj simp: funpow_swap1)

lemma crc_byte_inj_state: "crc_byte a x = crc_byte b x \<Longrightarrow> a = b"
  unfolding crc_byte_def by (drule crc_bits_inj) simp

lemma crc_byte_inj_byte: "crc_byte c x = crc_byte c y \<Longrightarrow> x = y"
proof -
  assume "crc_byte c x = crc_byte c y"
  then have "c XOR ucast x = c XOR (ucast y :: u32)"
    unfolding crc_byte_def by (rule crc_bits_inj)
  then show "x = y" by simp
qed

lemma crc_bytes_inj: "foldl crc_byte a xs = foldl crc_byte b xs \<Longrightarrow> a = b"
  by (induction xs arbitrary: a b) (auto dest: crc_byte_inj_state)


section \<open>The table agrees with the shift register\<close>

lemma crc_shift_ucast: "crc_shift (ucast (c :: u32)) = ucast (crc_bit c)"
proof -
  have odd: "(ucast c :: u64) AND 1 \<noteq> 0 \<longleftrightarrow> odd c"
    by (simp add: and_one_eq mod_2_eq_odd bit_simps flip: bit_0)
  have sh: "drop_bit 1 (ucast c :: u64) = ucast (drop_bit 1 c)"
    by (rule bit_word_eqI) (auto simp: bit_simps dest: bit_imp_le_length)
  have po: "crc_poly = ucast (0xEDB88320 :: u32)" by (simp add: crc_poly_def)
  have xo: "ucast a XOR ucast b = (ucast (a XOR b) :: u64)" for a b :: u32
    by (rule bit_word_eqI) (auto simp: bit_simps)
  show ?thesis by (simp only: crc_shift_def crc_bit_def odd sh po xo split: if_split) simp
qed

lemma crc_shifts_ucast: "(crc_shift ^^ n) (ucast (c :: u32)) = ucast ((crc_bit ^^ n) c)"
  by (induction n) (simp_all add: crc_shift_ucast)

lemma crc_tab_nth: "chksum_crc32gentab ! unat b = (crc_bit ^^ 8) (ucast (b :: u8))"
proof -
  have "unat b < 256" by simp
  moreover have "(of_nat (unat b) :: u64) = ucast (ucast b :: u32)"
    by (rule bit_word_eqI) (auto simp: of_nat_unat bit_simps dest: bit_imp_le_length)
  ultimately show ?thesis
    by (simp add: chksum_crc32gentab_def crc_shifts_ucast del: funpow.simps)
qed

lemma crc_bits_shift: "(\<And>i. i < n \<Longrightarrow> \<not> bit y i) \<Longrightarrow> (crc_bit ^^ n) y = drop_bit n y"
proof (induction n arbitrary: y)
  case (Suc n)
  from Suc.prems [of 0] have "crc_bit y = drop_bit 1 y" by (simp add: crc_bit_def bit_0)
  moreover have "(crc_bit ^^ n) (drop_bit 1 y) = drop_bit n (drop_bit 1 y)"
    using Suc.prems by (intro Suc.IH) (auto simp: bit_simps)
  ultimately show ?case by (simp add: funpow_Suc_right del: funpow.simps)
qed simp

lemma crc_byte_split:
  "crc_byte c b = drop_bit 8 c XOR (crc_bit ^^ 8) (ucast (ucast (c XOR ucast b) :: u8))"
proof -
  let ?x = "c XOR ucast b"
  have m: "(0xFF :: u32) = mask 8" by (simp add: mask_eq_exp_minus_1)
  have x: "?x = (?x AND NOT 0xFF) XOR ucast (ucast ?x :: u8)"
  proof (rule bit_word_eqI)
    fix n
    show "bit ?x n = bit ((?x AND NOT 0xFF) XOR ucast (ucast ?x :: u8)) n" if "n < LENGTH(32)"
      unfolding m using that by (auto simp: bit_simps)
  qed
  have hi: "(crc_bit ^^ 8) (?x AND NOT 0xFF) = drop_bit 8 (?x AND NOT 0xFF)"
    unfolding m by (rule crc_bits_shift) (auto simp: bit_simps)
  have "drop_bit 8 (?x AND NOT 0xFF) = drop_bit 8 c"
    unfolding m by (rule bit_word_eqI) (auto simp: bit_simps dest: bit_imp_le_length)
  with x hi show ?thesis by (metis crc_byte_def crc_bits_xor)
qed

lemma crc_step_ucast: "crc_step chksum_crc32gentab (ucast c) b = ucast (crc_byte c b)"
proof -
  have m: "(0xFFFFFF :: u64) = mask 24" "(0xFF :: u64) = mask 8"
    by (simp_all add: mask_eq_exp_minus_1)
  have "((ucast c :: u64) XOR ucast b) AND 0xFF = ucast (ucast (c XOR ucast b) :: u8)"
    unfolding m by (rule bit_word_eqI) (auto simp: bit_simps)
  then have "unat (((ucast c :: u64) XOR ucast b) AND 0xFF) = unat (ucast (c XOR ucast b) :: u8)"
    by (metis unat_ucast_u8_u64)
  moreover have "drop_bit 8 (ucast c :: u64) AND 0x00FFFFFF = ucast (drop_bit 8 c)"
    unfolding m by (rule bit_word_eqI) (auto simp: bit_simps dest: bit_imp_le_length)
  moreover have "ucast x XOR ucast y = (ucast (x XOR y) :: u64)" for x y :: u32
    by (rule bit_word_eqI) (auto simp: bit_simps)
  ultimately show ?thesis by (simp add: crc_step_def crc_tab_nth crc_byte_split)
qed

lemma crc_steps_ucast:
  "foldl (crc_step chksum_crc32gentab) (ucast c) block = ucast (foldl crc_byte c block)"
  by (induction block arbitrary: c) (simp_all add: crc_step_ucast)

section \<open>Claims\<close>

text \<open>
  With the generated table the checksum is the bit-serial CRC-32 (reflected polynomial
  EDB88320, all-ones preset, inverted result) of the block, for every block.
\<close>

theorem crc32_table_correct: "chksum_crc32 chksum_crc32gentab block = crc32_ref block"
proof -
  have start: "(0xFFFFFFFF :: u64) = ucast (0xFFFFFFFF :: u32)" by simp
  have fin: "(ucast ((ucast c :: u64) XOR 0xFFFFFFFF) :: u32) = NOT c" for c :: u32
  proof (rule bit_word_eqI)
    fix n assume n: "n < LENGTH(32)"
    have m: "(0xFFFFFFFF :: u64) = mask 32" by (simp add: mask_eq_exp_minus_1)
    show "bit (ucast ((ucast c :: u64) XOR 0xFFFFFFFF) :: u32) n = bit (NOT c) n"
      unfolding m using n by (auto simp: bit_simps)
  qed
  show ?thesis
    by (simp only: chksum_crc32_def crc32_ref_def start crc_steps_ucast) (simp only: fin flip: start)
qed

text \<open>
  Any change confined to one byte changes the checksum: two messages that differ in
  exactly one byte never have the same CRC.
\<close>

theorem crc32_detects_byte_error:
  assumes "a \<noteq> b"
  shows "chksum_crc32 chksum_crc32gentab (xs @ [a] @ ys) \<noteq> chksum_crc32 chksum_crc32gentab (xs @ [b] @ ys)"
proof
  assume "chksum_crc32 chksum_crc32gentab (xs @ [a] @ ys) = chksum_crc32 chksum_crc32gentab (xs @ [b] @ ys)"
  then have "foldl crc_byte (crc_byte (foldl crc_byte 0xFFFFFFFF xs) a) ys
    = foldl crc_byte (crc_byte (foldl crc_byte 0xFFFFFFFF xs) b) ys"
    by (simp add: crc32_table_correct crc32_ref_def)
  with assms show False by (blast dest: crc_bytes_inj crc_byte_inj_byte)
qed

theorem crc32_detects_byte_error_witness:
  "chksum_crc32 chksum_crc32gentab [9, 1, 7] \<noteq> chksum_crc32 chksum_crc32gentab [9, 2, 7]"
  using crc32_detects_byte_error [of 1 2 "[9]" "[7]"] by simp

end
