(* ===== verification/Crypt_Blocks.thy ===== *)
theory Crypt_Blocks
  imports Xw_Prelude
begin

text \<open>
  What the two digests of \<^verbatim>\<open>plugins/crypt\<close> have in common: a compression function
  applied to consecutive 64-byte blocks, the Merkle-Damgard padding, and the contract of a
  digest that is fed in pieces. The contract is the locale
  \<open>streaming_digest\<close>; the theories of MD5 and SHA-1 interpret it on the models of the C code.
\<close>

section \<open>Folding a compression function over full blocks\<close>

fun fold_blocks :: "('h \<Rightarrow> 'b list \<Rightarrow> 'h) \<Rightarrow> 'h \<Rightarrow> 'b list \<Rightarrow> 'h" where
  "fold_blocks f h xs = (if length xs < 64 then h else fold_blocks f (f h (take 64 xs)) (drop 64 xs))"

declare fold_blocks.simps [simp del]

definition full_part :: "'b list \<Rightarrow> 'b list" where
  "full_part xs = take (length xs div 64 * 64) xs"

definition rest_part :: "'b list \<Rightarrow> 'b list" where
  "rest_part xs = drop (length xs div 64 * 64) xs"

lemma full_rest [simp]: "full_part xs @ rest_part xs = xs"
  by (simp add: full_part_def rest_part_def)

lemma length_rest_part: "length (rest_part xs) = length xs mod 64"
  by (simp add: rest_part_def minus_div_mult_eq_mod)

lemma rest_part_short: "length xs < 64 \<Longrightarrow> rest_part xs = xs"
  by (simp add: rest_part_def)

lemma rest_part_Nil [simp]: "rest_part [] = []"
  by (simp add: rest_part_def)

lemma fold_blocks_short [simp]: "length xs < 64 \<Longrightarrow> fold_blocks f h xs = h"
  by (simp add: fold_blocks.simps)

lemma fold_blocks_step: "64 \<le> length xs \<Longrightarrow> fold_blocks f h xs = fold_blocks f (f h (take 64 xs)) (drop 64 xs)"
  by (subst fold_blocks.simps) simp

lemma rest_part_step: "64 \<le> length xs \<Longrightarrow> rest_part (drop 64 xs) = rest_part xs"
proof -
  assume "64 \<le> length xs"
  then have len: "length (take 64 xs) = 64" by simp
  have "rest_part (ys @ zs) = rest_part zs" if "length ys = 64" for ys zs :: "'a list"
  proof -
    have "(64 + n) div 64 = Suc (n div 64)" for n :: nat by presburger
    with that show ?thesis by (simp add: rest_part_def)
  qed
  from this [OF len, of "drop 64 xs"] show ?thesis by simp
qed

lemma fold_blocks_first: "length b = 64 \<Longrightarrow> fold_blocks f h (b @ xs) = fold_blocks f (f h b) xs"
  by (simp add: fold_blocks_step)

lemma rest_part_first: "length b = 64 \<Longrightarrow> rest_part (b @ xs) = rest_part xs"
  using rest_part_step [of "b @ xs"] by simp

lemma fold_blocks_append:
  "fold_blocks f h (xs @ ys) = fold_blocks f (fold_blocks f h xs) (rest_part xs @ ys)"
proof (induction f h xs rule: fold_blocks.induct)
  case (1 f h xs)
  show ?case
  proof (cases "length xs < 64")
    case True
    then show ?thesis by (simp add: rest_part_short)
  next
    case False
    then have "fold_blocks f h (xs @ ys) = fold_blocks f (f h (take 64 xs)) (drop 64 xs @ ys)"
      by (simp add: fold_blocks_step)
    with 1 False show ?thesis by (simp add: fold_blocks_step rest_part_step)
  qed
qed

lemma rest_part_append: "rest_part (xs @ ys) = rest_part (rest_part xs @ ys)"
proof (induction xs rule: measure_induct_rule [where f = length])
  case (less xs)
  show ?case
  proof (cases "length xs < 64")
    case False
    then have "rest_part (xs @ ys) = rest_part (drop 64 xs @ ys)"
      using rest_part_step [of "xs @ ys"] by simp
    also have "\<dots> = rest_part (rest_part (drop 64 xs) @ ys)"
      using False by (intro less.IH) simp
    finally show ?thesis using False by (simp add: rest_part_step)
  qed (simp add: rest_part_short)
qed

section \<open>Padding\<close>

text \<open>One byte \<open>80\<close>, then zeros up to 56 bytes modulo 64; the length field follows.\<close>

definition pad_zeros :: "nat \<Rightarrow> nat" where
  "pad_zeros n = nat ((55 - int n) mod 64)"

lemma pad_zeros_total: "(n + 1 + pad_zeros n + 8) mod 64 = 0"
proof -
  have "int (n + 1 + pad_zeros n + 8) = (int n + 9) + (55 - int n) mod 64"
    by (simp add: pad_zeros_def)
  then have "int (n + 1 + pad_zeros n + 8) mod 64 = ((int n + 9) + (55 - int n)) mod 64"
    by (simp only: mod_add_right_eq)
  then have "int (n + 1 + pad_zeros n + 8) mod 64 = 0" by simp
  then show ?thesis by presburger
qed

lemma pad_zeros_cases: "pad_zeros n = (if n mod 64 \<le> 55 then 55 - n mod 64 else 119 - n mod 64)"
proof -
  let ?r = "n mod 64"
  have r: "?r < 64" by simp
  have "(55 - int n) mod 64 = (55 - int ?r) mod 64"
    by (simp add: zmod_int mod_diff_right_eq)
  also have "\<dots> = (if ?r \<le> 55 then 55 - int ?r else 119 - int ?r)"
  proof (cases "?r \<le> 55")
    case False
    have "(55 - int ?r) mod 64 = (55 - int ?r + 64) mod 64" by (simp only: mod_add_self2)
    also have "\<dots> = 119 - int ?r" using r False by (subst mod_pos_pos_trivial) simp_all
    finally show ?thesis using False by simp
  qed (simp add: mod_pos_pos_trivial)
  finally show ?thesis using r by (simp add: pad_zeros_def nat_diff_distrib split: if_splits)
qed

lemma pad_zeros_less: "pad_zeros n < 64"
  by (simp add: pad_zeros_def nat_less_iff)

section \<open>The contract of a digest fed in pieces\<close>

text \<open>
  \<open>rep m s\<close>: the state \<open>s\<close> has absorbed the message \<open>m\<close>. \<open>ok\<close> bounds the messages the
  digest is specified for.
\<close>

locale streaming_digest =
  fixes ok :: "'b list \<Rightarrow> bool"
    and rep :: "'b list \<Rightarrow> 's \<Rightarrow> bool"
    and update :: "'s \<Rightarrow> 'b list \<Rightarrow> 's"
    and finish :: "'s \<Rightarrow> 'd"
    and digest :: "'b list \<Rightarrow> 'd"
  assumes ok_prefix: "ok (m @ d) \<Longrightarrow> ok m"
    and rep_update: "ok (m @ d) \<Longrightarrow> rep m s \<Longrightarrow> rep (m @ d) (update s d)"
    and rep_finish: "ok m \<Longrightarrow> rep m s \<Longrightarrow> finish s = digest m"
begin

lemma rep_updates:
  "ok (m @ concat ds) \<Longrightarrow> rep m s \<Longrightarrow> rep (m @ concat ds) (foldl update s ds)"
proof (induction ds arbitrary: m s)
  case (Cons d ds)
  from Cons.prems have "ok ((m @ d) @ concat ds)" by simp
  then have "ok (m @ d)" by (rule ok_prefix)
  with Cons.prems have "rep (m @ d) (update s d)" by (simp add: rep_update)
  with Cons.prems Cons.IH [of "m @ d" "update s d"] show ?case by simp
qed simp

lemma finish_updates:
  "ok (concat ds) \<Longrightarrow> rep [] s \<Longrightarrow> finish (foldl update s ds) = digest (concat ds)"
  using rep_updates [of "[]" ds s] rep_finish by simp

lemma finish_regroup:
  "ok (concat ds) \<Longrightarrow> concat ds = concat es \<Longrightarrow> rep [] s \<Longrightarrow> rep [] t
    \<Longrightarrow> finish (foldl update s ds) = finish (foldl update t es)"
  by (simp add: finish_updates)

end

end
