(* ===== verification/Crypt_Md5.thy ===== *)
theory Crypt_Md5
  imports Crypt_Blocks
begin

text \<open>
  Model of \<^verbatim>\<open>plugins/crypt/md5.c\<close>: the state \<^verbatim>\<open>md5_state_t\<close>, the block transformation,
  and the init / append / finish operations, followed by the proof that any sequence of
  appends computes the padded Merkle-Damgard digest of the concatenated input.
\<close>

unbundle bit_operations_syntax

section \<open>State and constants\<close>

record md5_state =
  md5_count :: "u32 list" \<comment> \<open>\<^verbatim>\<open>count[2]\<close>, low word first\<close>
  md5_abcd :: "u32 list"  \<comment> \<open>\<^verbatim>\<open>abcd[4]\<close>\<close>
  md5_buf :: "u8 list"    \<comment> \<open>\<^verbatim>\<open>buf[64]\<close>\<close>

definition T_MASK :: u32 where
  "T_MASK = NOT 0"

text \<open>
  The steps of the four rounds: the word index \<open>k\<close>, the rotation \<open>s\<close> and the additive
  constant of each \<^verbatim>\<open>SET(a, b, c, d, k, s, Ti)\<close>, in program order.
\<close>

definition md5_round1 :: "(nat \<times> nat \<times> u32) list" where
  "md5_round1 =
    [(0, 7, T_MASK XOR 0x28955b87), (1, 12, T_MASK XOR 0x173848a9), (2, 17, 0x242070db), (3, 22, T_MASK XOR 0x3e423111),
     (4, 7, T_MASK XOR 0x0a83f050), (5, 12, 0x4787c62a), (6, 17, T_MASK XOR 0x57cfb9ec), (7, 22, T_MASK XOR 0x02b96afe),
     (8, 7, 0x698098d8), (9, 12, T_MASK XOR 0x74bb0850), (10, 17, T_MASK XOR 0x0000a44e), (11, 22, T_MASK XOR 0x76a32841),
     (12, 7, 0x6b901122), (13, 12, T_MASK XOR 0x02678e6c), (14, 17, T_MASK XOR 0x5986bc71), (15, 22, 0x49b40821)]"

definition md5_round2 :: "(nat \<times> nat \<times> u32) list" where
  "md5_round2 =
    [(1, 5, T_MASK XOR 0x09e1da9d), (6, 9, T_MASK XOR 0x3fbf4cbf), (11, 14, 0x265e5a51), (0, 20, T_MASK XOR 0x16493855),
     (5, 5, T_MASK XOR 0x29d0efa2), (10, 9, 0x02441453), (15, 14, T_MASK XOR 0x275e197e), (4, 20, T_MASK XOR 0x182c0437),
     (9, 5, 0x21e1cde6), (14, 9, T_MASK XOR 0x3cc8f829), (3, 14, T_MASK XOR 0x0b2af278), (8, 20, 0x455a14ed),
     (13, 5, T_MASK XOR 0x561c16fa), (2, 9, T_MASK XOR 0x03105c07), (7, 14, 0x676f02d9), (12, 20, T_MASK XOR 0x72d5b375)]"

definition md5_round3 :: "(nat \<times> nat \<times> u32) list" where
  "md5_round3 =
    [(5, 4, T_MASK XOR 0x0005c6bd), (8, 11, T_MASK XOR 0x788e097e), (11, 16, 0x6d9d6122), (14, 23, T_MASK XOR 0x021ac7f3),
     (1, 4, T_MASK XOR 0x5b4115bb), (4, 11, 0x4bdecfa9), (7, 16, T_MASK XOR 0x0944b49f), (10, 23, T_MASK XOR 0x4140438f),
     (13, 4, 0x289b7ec6), (0, 11, T_MASK XOR 0x155ed805), (3, 16, T_MASK XOR 0x2b10cf7a), (6, 23, 0x04881d05),
     (9, 4, T_MASK XOR 0x262b2fc6), (12, 11, T_MASK XOR 0x1924661a), (15, 16, 0x1fa27cf8), (2, 23, T_MASK XOR 0x3b53a99a)]"

definition md5_round4 :: "(nat \<times> nat \<times> u32) list" where
  "md5_round4 =
    [(0, 6, T_MASK XOR 0x0bd6ddbb), (7, 10, 0x432aff97), (14, 15, T_MASK XOR 0x546bdc58), (5, 21, T_MASK XOR 0x036c5fc6),
     (12, 6, 0x655b59c3), (3, 10, T_MASK XOR 0x70f3336d), (10, 15, T_MASK XOR 0x00100b82), (1, 21, T_MASK XOR 0x7a7ba22e),
     (8, 6, 0x6fa87e4f), (15, 10, T_MASK XOR 0x01d3191f), (6, 15, T_MASK XOR 0x5cfebceb), (13, 21, 0x4e0811a1),
     (4, 6, T_MASK XOR 0x08ac817d), (11, 10, T_MASK XOR 0x42c50dca), (2, 15, 0x2ad7d2bb), (9, 21, T_MASK XOR 0x14792c6e)]"

section \<open>The block transformation\<close>

definition ROTATE_LEFT :: "u32 \<Rightarrow> nat \<Rightarrow> u32" where
  "ROTATE_LEFT x n = push_bit n x OR drop_bit (32 - n) x"

definition md5_F :: "u32 \<Rightarrow> u32 \<Rightarrow> u32 \<Rightarrow> u32" where
  "md5_F x y z = (x AND y) OR (NOT x AND z)"

definition md5_G :: "u32 \<Rightarrow> u32 \<Rightarrow> u32 \<Rightarrow> u32" where
  "md5_G x y z = (x AND z) OR (y AND NOT z)"

definition md5_H :: "u32 \<Rightarrow> u32 \<Rightarrow> u32 \<Rightarrow> u32" where
  "md5_H x y z = x XOR y XOR z"

definition md5_I :: "u32 \<Rightarrow> u32 \<Rightarrow> u32 \<Rightarrow> u32" where
  "md5_I x y z = y XOR (x OR NOT z)"

text \<open>The sixteen little-endian words of a block.\<close>

definition md5_X :: "u8 list \<Rightarrow> nat \<Rightarrow> u32" where
  "md5_X xp i = ucast (xp ! (4 * i)) + push_bit 8 (ucast (xp ! (4 * i + 1)))
     + push_bit 16 (ucast (xp ! (4 * i + 2))) + push_bit 24 (ucast (xp ! (4 * i + 3)))"

text \<open>
  One \<^verbatim>\<open>SET(a, b, c, d, ...)\<close>. The following statement of the source names the registers
  \<open>(d, a, b, c)\<close>, so the step returns them in that order.
\<close>

fun md5_SET :: "(u32 \<Rightarrow> u32 \<Rightarrow> u32 \<Rightarrow> u32) \<Rightarrow> (nat \<Rightarrow> u32)
    \<Rightarrow> u32 \<times> u32 \<times> u32 \<times> u32 \<Rightarrow> nat \<times> nat \<times> u32 \<Rightarrow> u32 \<times> u32 \<times> u32 \<times> u32" where
  "md5_SET fn X (a, b, c, d) (k, s, Ti) =
     (let t = a + fn b c d + X k + Ti in (d, ROTATE_LEFT t s + b, b, c))"

definition md5_transform :: "u32 list \<Rightarrow> u8 list \<Rightarrow> u32 list" where
  "md5_transform abcd data =
     (let X = md5_X data;
          r0 = (abcd ! 0, abcd ! 1, abcd ! 2, abcd ! 3);
          r1 = foldl (md5_SET md5_F X) r0 md5_round1;
          r2 = foldl (md5_SET md5_G X) r1 md5_round2;
          r3 = foldl (md5_SET md5_H X) r2 md5_round3;
          (a, b, c, d) = foldl (md5_SET md5_I X) r3 md5_round4
      in [abcd ! 0 + a, abcd ! 1 + b, abcd ! 2 + c, abcd ! 3 + d])"

definition md5_process :: "md5_state \<Rightarrow> u8 list \<Rightarrow> md5_state" where
  "md5_process pms data = pms\<lparr>md5_abcd := md5_transform (md5_abcd pms) data\<rparr>"

section \<open>Operations\<close>

definition md5_iv :: "u32 list" where
  "md5_iv = [0x67452301, T_MASK XOR 0x10325476, T_MASK XOR 0x67452301, 0x10325476]"

definition md5_init :: "md5_state \<Rightarrow> md5_state" where
  "md5_init pms = pms\<lparr>md5_count := [0, 0], md5_abcd := md5_iv\<rparr>"

text \<open>The loop over full blocks of \<^verbatim>\<open>md5_append\<close>; it returns the bytes left over.\<close>

fun md5_full_blocks :: "md5_state \<Rightarrow> u8 list \<Rightarrow> md5_state \<times> u8 list" where
  "md5_full_blocks pms p =
     (if 64 \<le> length p then md5_full_blocks (md5_process pms (take 64 p)) (drop 64 p) else (pms, p))"

declare md5_full_blocks.simps [simp del]

definition md5_count_add :: "u32 list \<Rightarrow> nat \<Rightarrow> u32 list" where
  "md5_count_add count nb =
     (let nbits = of_nat (nb * 8);
          c1 = count ! 1 + of_nat (nb div 2 ^ 29);
          c0 = count ! 0 + nbits
      in [c0, if c0 < nbits then c1 + 1 else c1])"

definition md5_append :: "md5_state \<Rightarrow> u8 list \<Rightarrow> md5_state" where
  "md5_append pms data =
     (let nb = length data;
          offset = unat (drop_bit 3 (md5_count pms ! 0) AND 63)
      in if nb = 0 then pms
         else
           let pms1 = pms\<lparr>md5_count := md5_count_add (md5_count pms) nb\<rparr>;
               copy = (if offset + nb > 64 then 64 - offset else nb)
           in if offset \<noteq> 0 \<and> offset + copy < 64
              then pms1\<lparr>md5_buf := buf_put (md5_buf pms1) offset (take copy data)\<rparr>
              else
                let (pms2, p) =
                      (if offset \<noteq> 0
                       then (let pms' = pms1\<lparr>md5_buf := buf_put (md5_buf pms1) offset (take copy data)\<rparr>
                             in (md5_process pms' (md5_buf pms'), drop copy data))
                       else (pms1, data));
                    (pms3, left) = md5_full_blocks pms2 p
                in if left \<noteq> [] then pms3\<lparr>md5_buf := buf_put (md5_buf pms3) 0 left\<rparr> else pms3)"

text \<open>The little-endian bytes of an array of words, as the two copying loops of \<^verbatim>\<open>md5_finish\<close> write them.\<close>

definition md5_le_bytes :: "u32 list \<Rightarrow> nat \<Rightarrow> u8 list" where
  "md5_le_bytes ws n = map (\<lambda>i. ucast (drop_bit ((i mod 4) * 8) (ws ! (i div 4)))) [0..<n]"

definition md5_pad :: "u8 list" where
  "md5_pad = 0x80 # replicate 63 0"

definition md5_finish :: "md5_state \<Rightarrow> md5_state \<times> u8 list" where
  "md5_finish pms =
     (let data = md5_le_bytes (md5_count pms) 8;
          npad = unat ((55 - drop_bit 3 (md5_count pms ! 0)) AND 63) + 1;
          pms1 = md5_append pms (take npad md5_pad);
          pms2 = md5_append pms1 data
      in (pms2, md5_le_bytes (md5_abcd pms2) 16))"

section \<open>Reference digest\<close>

text \<open>The little-endian 64-bit length field: byte \<open>i\<close> of the message length in bits.\<close>

definition md5_length_field :: "nat \<Rightarrow> u8 list" where
  "md5_length_field n = map (\<lambda>i. of_nat (8 * n div 2 ^ (8 * i))) [0..<8]"

definition md5_padded :: "u8 list \<Rightarrow> u8 list" where
  "md5_padded m = m @ [0x80] @ replicate (pad_zeros (length m)) 0 @ md5_length_field (length m)"

definition md5_digest :: "u8 list \<Rightarrow> u8 list" where
  "md5_digest m = md5_le_bytes (fold_blocks md5_transform md5_iv (md5_padded m)) 16"

section \<open>Arithmetic of the bit counter\<close>

lemma mod_sum_wrap:
  assumes "(a :: nat) < M" "b < M"
  shows "(a + b) mod M = (if a + b < M then a + b else a + b - M)"
    and "(a + b) div M = (if a + b < M then 0 else 1)"
proof -
  have "(a + b) mod M = a + b - M \<and> (a + b) div M = 1" if "\<not> a + b < M"
  proof -
    have "a + b - M < M" using assms by simp
    with that assms show ?thesis by (simp add: le_mod_geq le_div_geq)
  qed
  then show "(a + b) mod M = (if a + b < M then a + b else a + b - M)"
    and "(a + b) div M = (if a + b < M then 0 else 1)" by auto
qed

lemma carry_iff: "0 < (M :: nat) \<Longrightarrow> (N + K) mod M < K mod M \<longleftrightarrow> M \<le> N mod M + K mod M"
proof -
  assume M: "0 < M"
  have lt: "N mod M < M" "K mod M < M" using M by simp_all
  have "(N + K) mod M = (N mod M + K mod M) mod M" by (simp add: mod_add_eq)
  moreover have "(if a + b < M then a + b else a + b - M) < b \<longleftrightarrow> M \<le> a + b" if "a < M" "b < M" for a b
    using that by auto
  ultimately show ?thesis using mod_sum_wrap(1) [OF lt] lt by presburger
qed

lemma div_add_carry:
  "0 < (M :: nat) \<Longrightarrow> (N + K) div M = N div M + K div M + (if M \<le> N mod M + K mod M then 1 else 0)"
  using mod_sum_wrap(2) [of "N mod M" M "K mod M"] by (simp add: div_add1_eq [of N K M])

definition md5_bits :: "nat \<Rightarrow> u32 list" where
  "md5_bits n = [of_nat (8 * n), of_nat (8 * n div 2 ^ 32)]"

lemma md5_count_add_bits: "md5_count_add (md5_bits n) k = md5_bits (n + k)"
proof -
  let ?M = "2 ^ 32 :: nat"
  have lt: "(of_nat (8 * n) + of_nat (k * 8) :: u32) < of_nat (k * 8)
      \<longleftrightarrow> ?M \<le> (8 * n) mod ?M + (8 * k) mod ?M"
    using carry_iff [of ?M "8 * n" "8 * k"]
    by (simp only: word_less_nat_alt unat_of_nat mult.commute [of k] flip: of_nat_add) simp
  have q: "k div 2 ^ 29 = 8 * k div ?M"
    by (simp add: div_mult2_eq)
  have "8 * (n + k) div ?M = 8 * n div ?M + 8 * k div ?M
      + (if ?M \<le> (8 * n) mod ?M + (8 * k) mod ?M then 1 else 0)"
    using div_add_carry [of ?M "8 * n" "8 * k"] by (simp only: distrib_left) simp
  then show ?thesis
    using lt by (simp add: md5_count_add_def md5_bits_def Let_def q distrib_left mult.commute)
qed

lemma low_bits_offset: "(8 * n mod 2 ^ 32) div 8 = n mod 2 ^ 29" for n :: nat
proof -
  have "8 * n mod (8 * 2 ^ 29) = 8 * (n mod 2 ^ 29)" by (rule mult_mod_right [symmetric])
  then show ?thesis by simp
qed

lemma unat_bits_bytes: "unat (drop_bit 3 (md5_bits n ! 0)) = n mod 2 ^ 29"
proof -
  have "unat (of_nat (8 * n) :: u32) = 8 * n mod 2 ^ 32"
    by (simp only: unat_of_nat) simp
  then have "unat (drop_bit 3 (of_nat (8 * n) :: u32)) = n mod 2 ^ 29"
    using low_bits_offset [of n] by (simp only: unat_drop_bit_u32) simp
  then show ?thesis by (simp only: md5_bits_def nth_Cons_0)
qed

lemma unat_and_63: "unat (w AND 63 :: u32) = unat w mod 64"
proof -
  have "w AND 63 = take_bit 6 w" by (simp add: take_bit_eq_mask mask_eq_exp_minus_1)
  then show ?thesis by (simp only: unsigned_take_bit_eq take_bit_eq_mod [of 6 "_ :: nat"]) simp
qed

lemma md5_offset: "unat (drop_bit 3 (md5_bits n ! 0) AND 63) = n mod 64"
  by (simp add: unat_and_63 unat_bits_bytes mod_mod_cancel)

section \<open>The state represents the absorbed message\<close>

definition md5_rep :: "u8 list \<Rightarrow> md5_state \<Rightarrow> bool" where
  "md5_rep m st \<longleftrightarrow>
     md5_count st = md5_bits (length m)
     \<and> md5_abcd st = fold_blocks md5_transform md5_iv m
     \<and> length (md5_buf st) = 64
     \<and> take (length m mod 64) (md5_buf st) = rest_part m"

lemma md5_rep_init: "length (md5_buf st) = 64 \<Longrightarrow> md5_rep [] (md5_init st)"
  by (simp add: md5_rep_def md5_init_def md5_bits_def)

lemma md5_full_blocks_eq:
  "md5_full_blocks pms p
    = (pms\<lparr>md5_abcd := fold_blocks md5_transform (md5_abcd pms) p\<rparr>, rest_part p)"
proof (induction pms p rule: md5_full_blocks.induct)
  case (1 pms p)
  show ?case
  proof (cases "64 \<le> length p")
    case True
    with 1 show ?thesis
      by (subst md5_full_blocks.simps) (simp add: md5_process_def fold_blocks_step rest_part_step)
  next
    case False
    then show ?thesis by (subst md5_full_blocks.simps) (simp add: rest_part_short)
  qed
qed

text \<open>The three ways through \<^verbatim>\<open>md5_append\<close> for a non-empty input.\<close>

lemma md5_append_buffers:
  assumes rep: "md5_rep m st" and off: "length m mod 64 \<noteq> 0" and short: "length m mod 64 + length d < 64"
    and d: "d \<noteq> []"
  shows "md5_rep (m @ d) (md5_append st d)"
proof -
  let ?off = "length m mod 64"
  have buf: "length (md5_buf st) = 64" "take ?off (md5_buf st) = rest_part m"
    and cnt: "md5_count st = md5_bits (length m)"
    using rep by (simp_all add: md5_rep_def)
  have app: "md5_append st d = st\<lparr>md5_count := md5_bits (length m + length d),
      md5_buf := buf_put (md5_buf st) ?off d\<rparr>"
    using off short d by (simp add: md5_append_def Let_def cnt md5_offset md5_count_add_bits)
  have "(length m + length d) mod 64 = (?off + length d) mod 64"
    by (rule mod_add_left_eq [symmetric])
  then have len: "(length m + length d) mod 64 = ?off + length d" using short by simp
  have rest: "rest_part (m @ d) = rest_part m @ d"
    using short by (simp add: rest_part_append [of m d] rest_part_short length_rest_part)
  have fold: "fold_blocks md5_transform md5_iv (m @ d) = md5_abcd st"
    using rep short by (simp add: md5_rep_def fold_blocks_append [of _ _ m d] length_rest_part)
  have take: "take (?off + length d) (buf_put (md5_buf st) ?off d) = rest_part m @ d"
    using buf by (subst take_buf_put) simp_all
  show ?thesis
    unfolding app md5_rep_def length_append len rest fold
    using buf(1) short take by simp
qed

lemma md5_store_rest:
  assumes "md5_count st = md5_bits (length m)" "md5_abcd st = fold_blocks md5_transform md5_iv m"
    "length (md5_buf st) = 64" "left = rest_part m"
  shows "md5_rep m (if left \<noteq> [] then st\<lparr>md5_buf := buf_put (md5_buf st) 0 left\<rparr> else st)"
proof (cases "left = []")
  case True
  then have "length m mod 64 = 0" using assms(4) length_rest_part [of m] by simp
  then show ?thesis using True assms by (simp add: md5_rep_def)
next
  case False
  have len: "length (rest_part m) = length m mod 64" by (rule length_rest_part)
  have "take (0 + length (rest_part m)) (buf_put (md5_buf st) 0 (rest_part m)) = rest_part m"
    by (subst take_buf_put) simp_all
  then have "take (length m mod 64) (buf_put (md5_buf st) 0 (rest_part m)) = rest_part m"
    by (simp only: len add_0)
  moreover have "length (buf_put (md5_buf st) 0 (rest_part m)) = 64"
    using assms(3) len by (simp add: length_buf_put)
  ultimately show ?thesis using False assms by (simp add: md5_rep_def)
qed

lemma md5_append_aligned:
  assumes rep: "md5_rep m st" and off: "length m mod 64 = 0" and d: "d \<noteq> []"
  shows "md5_rep (m @ d) (md5_append st d)"
proof -
  let ?st = "st\<lparr>md5_count := md5_bits (length m + length d),
      md5_abcd := fold_blocks md5_transform (md5_abcd st) d\<rparr>"
  have rest: "rest_part m = []"
    using off length_rest_part [of m] by simp
  have app: "md5_append st d
      = (if rest_part d \<noteq> [] then ?st\<lparr>md5_buf := buf_put (md5_buf ?st) 0 (rest_part d)\<rparr> else ?st)"
    using rep off d
    by (simp add: md5_rep_def md5_append_def Let_def md5_offset md5_count_add_bits md5_full_blocks_eq)
  show ?thesis unfolding app
    using rep rest
    by (intro md5_store_rest) (simp_all add: md5_rep_def fold_blocks_append [of _ _ m d] rest_part_append [of m d])
qed

lemma md5_append_completes:
  assumes rep: "md5_rep m st" and off: "length m mod 64 \<noteq> 0" and long: "64 \<le> length m mod 64 + length d"
  shows "md5_rep (m @ d) (md5_append st d)"
proof -
  let ?off = "length m mod 64"
  let ?c = "64 - ?off"
  define block where "block = rest_part m @ take ?c d"
  define more where "more = drop ?c d"
  let ?st = "st\<lparr>md5_count := md5_bits (length m + length d), md5_buf := block,
      md5_abcd := fold_blocks md5_transform (md5_transform (md5_abcd st) block) more\<rparr>"
  have buf: "length (md5_buf st) = 64" "take ?off (md5_buf st) = rest_part m"
    using rep by (simp_all add: md5_rep_def)
  have c: "?c \<le> length d" using long by simp
  have d: "d \<noteq> []" using long by (auto simp: not_less)
  have block: "length block = 64" using c by (simp add: block_def length_rest_part)
  have put: "buf_put (md5_buf st) ?off (take ?c d) = block"
    using buf c by (simp add: buf_put_def block_def)
  have copy: "(if ?off + length d > 64 then 64 - ?off else length d) = ?c"
    using long by auto
  have app: "md5_append st d
      = (if rest_part more \<noteq> [] then ?st\<lparr>md5_buf := buf_put (md5_buf ?st) 0 (rest_part more)\<rparr> else ?st)"
    using rep off d long
    by (simp add: md5_rep_def md5_append_def Let_def md5_offset md5_count_add_bits copy put
        md5_process_def md5_full_blocks_eq more_def)
  have split: "rest_part m @ d = block @ more" by (simp add: block_def more_def)
  have "fold_blocks md5_transform md5_iv (m @ d)
      = fold_blocks md5_transform (md5_transform (md5_abcd st) block) more"
    using rep block by (simp add: md5_rep_def fold_blocks_append [of _ _ m d] split fold_blocks_first)
  moreover have "rest_part (m @ d) = rest_part more"
    using block by (simp add: rest_part_append [of m d] split rest_part_first)
  ultimately show ?thesis unfolding app
    using block by (intro md5_store_rest) simp_all
qed

lemma md5_rep_append: "md5_rep m st \<Longrightarrow> md5_rep (m @ d) (md5_append st d)"
proof (cases "d = []")
  case True
  then show "md5_rep m st \<Longrightarrow> ?thesis" by (simp add: md5_append_def Let_def)
next
  case False
  then show "md5_rep m st \<Longrightarrow> ?thesis"
    using md5_append_buffers md5_append_aligned md5_append_completes by (metis not_le)
qed

section \<open>Finishing\<close>

lemma md5_npad: "unat ((55 - drop_bit 3 (md5_bits n ! 0)) AND 63) = pad_zeros n"
proof -
  let ?w = "drop_bit 3 (md5_bits n ! 0) :: u32"
  have "?w = of_nat (n mod 2 ^ 29)"
    using unat_bits_bytes [of n] by (metis of_nat_unat ucast_id)
  then have "int (unat (55 - ?w)) = (55 - int (n mod 2 ^ 29)) mod 2 ^ 32"
    using uint_word_of_int [of "55 - int (n mod 2 ^ 29)", where 'a = 32] by simp
  moreover have "(55 - int (n mod 2 ^ 29)) mod 2 ^ 32 mod 64 = (55 - int n) mod 64"
  proof -
    have "(55 - int (n mod 2 ^ 29)) mod 2 ^ 32 mod 64 = (55 - int (n mod 2 ^ 29) mod 64) mod 64"
      by (simp add: mod_mod_cancel mod_diff_right_eq)
    also have "int (n mod 2 ^ 29) mod 64 = int n mod 64"
      by (simp add: zmod_int mod_mod_cancel)
    finally show ?thesis by (simp only: mod_diff_right_eq)
  qed
  ultimately have "int (unat (55 - ?w) mod 64) = (55 - int n) mod 64"
    by (simp only: zmod_int of_nat_numeral)
  then show ?thesis by (simp add: unat_and_63 pad_zeros_def)
qed

lemma take_md5_pad: "k < 64 \<Longrightarrow> take (k + 1) md5_pad = 0x80 # replicate k 0"
  by (simp add: md5_pad_def)

lemma md5_length_byte:
  assumes "i < 8"
  shows "ucast (drop_bit ((i mod 4) * 8) (md5_bits n ! (i div 4))) = (of_nat (8 * n div 2 ^ (8 * i)) :: u8)"
proof -
  note byte = ucast_drop_bit_of_nat
  show ?thesis
  proof (cases "i < 4")
    case True
    then have "i mod 4 = i" "i div 4 = 0" "i * 8 \<le> 24" by simp_all
    then show ?thesis using byte [of "i * 8" "8 * n"]
      by (simp only: md5_bits_def nth_Cons_0 mult.commute [of 8 i])
  next
    case False
    then obtain j where i: "i = 4 + j" "j < 4"
      using assms by (metis add_less_cancel_left le_add_diff_inverse not_less numeral_Bit0)
    then have ix: "i mod 4 = j" "i div 4 = 1" by simp_all
    have "8 * n div 2 ^ (8 * i) = 8 * n div 2 ^ 32 div 2 ^ (8 * j)"
      by (simp add: i div_mult2_eq [symmetric] power_add)
    then show ?thesis
      using byte [of "j * 8" "8 * n div 2 ^ 32"] i(2)
      by (simp only: md5_bits_def ix nth_Cons_0 nth_Cons_Suc One_nat_def mult.commute [of 8 j])
  qed
qed

lemma md5_length_bytes: "md5_le_bytes (md5_bits n) 8 = md5_length_field n"
  unfolding md5_le_bytes_def md5_length_field_def by (intro map_cong refl md5_length_byte) simp

lemma length_md5_padded: "length (md5_padded m) mod 64 = 0"
  using pad_zeros_total [of "length m"] by (simp add: md5_padded_def md5_length_field_def ac_simps)

lemma md5_finish_digest: "md5_rep m st \<Longrightarrow> snd (md5_finish st) = md5_digest m"
proof -
  assume rep: "md5_rep m st"
  then have cnt: "md5_count st = md5_bits (length m)" by (simp add: md5_rep_def)
  let ?p1 = "take (pad_zeros (length m) + 1) md5_pad"
  have "md5_rep ((m @ ?p1) @ md5_length_field (length m))
      (md5_append (md5_append st ?p1) (md5_length_field (length m)))"
    using rep by (intro md5_rep_append)
  moreover have "(m @ ?p1) @ md5_length_field (length m) = md5_padded m"
    using take_md5_pad [OF pad_zeros_less] by (simp add: md5_padded_def)
  ultimately show ?thesis
    by (simp add: md5_finish_def Let_def cnt md5_npad md5_length_bytes md5_rep_def md5_digest_def)
qed

interpretation md5: streaming_digest "\<lambda>_. True" md5_rep md5_append "\<lambda>st. snd (md5_finish st)" md5_digest
  by unfold_locales (simp_all add: md5_rep_append md5_finish_digest)

section \<open>Claims\<close>

text \<open>
  Hashing a message in any pieces: after \<^verbatim>\<open>md5_init\<close> on a context with a 64-byte buffer
  (whatever it contained), any sequence of \<^verbatim>\<open>md5_append\<close> calls followed by \<^verbatim>\<open>md5_finish\<close>
  yields the digest of the padded concatenation, with no bound on the message length
  (the 64-bit bit counter wraps, as in the reference).
\<close>

theorem md5_streaming:
  "length (md5_buf ctx) = 64 \<Longrightarrow>
     snd (md5_finish (foldl md5_append (md5_init ctx) chunks)) = md5_digest (concat chunks)"
  by (rule md5.finish_updates [OF TrueI md5_rep_init])

theorem md5_streaming_witness:
  "snd (md5_finish (foldl md5_append (md5_init \<lparr>md5_count = [7, 7], md5_abcd = [], md5_buf = replicate 64 1\<rparr>)
     [[97], [], [98, 99]])) = md5_digest [97, 98, 99]"
  using md5_streaming [of "\<lparr>md5_count = [7, 7], md5_abcd = [], md5_buf = replicate 64 1\<rparr>" "[[97], [], [98, 99]]"]
  by simp

end
