(* ===== verification/Crypt_Sha1.thy ===== *)
theory Crypt_Sha1
  imports Crypt_Blocks
begin

text \<open>
  Model of \<^verbatim>\<open>plugins/crypt/sha1_rfc3174.c\<close>: the context with its byte-wise input loop, the
  block function, the padding and the error states, with the proofs that the block function
  is the one of FIPS 180-1, that hashing in pieces computes the padded digest, and that the
  context refuses input after the digest was taken.
\<close>

unbundle bit_operations_syntax

section \<open>Context and result codes\<close>

definition shaSuccess :: int where "shaSuccess = 0"
definition shaNull :: int where "shaNull = 1"
definition shaInputTooLong :: int where "shaInputTooLong = 2"
definition shaStateError :: int where "shaStateError = 3"

lemmas sha_codes = shaSuccess_def shaNull_def shaInputTooLong_def shaStateError_def

record SHA1Context =
  Intermediate_Hash :: "u32 list"
  Length_Low :: u32
  Length_High :: u32
  Message_Block_Index :: nat
  Message_Block :: "u8 list"
  Computed :: int
  Corrupted :: int

section \<open>The block function\<close>

definition SHA1CircularShift :: "nat \<Rightarrow> u32 \<Rightarrow> u32" where
  "SHA1CircularShift bits w = push_bit bits w OR drop_bit (32 - bits) w"

definition sha1_K :: "u32 list" where
  "sha1_K = [0x5A827999, 0x6ED9EBA1, 0x8F1BBCDC, 0xCA62C1D6]"

definition sha1_load :: "u8 list \<Rightarrow> nat \<Rightarrow> u32" where
  "sha1_load block t = push_bit 24 (ucast (block ! (t * 4))) OR push_bit 16 (ucast (block ! (t * 4 + 1)))
     OR push_bit 8 (ucast (block ! (t * 4 + 2))) OR ucast (block ! (t * 4 + 3))"

text \<open>The array \<^verbatim>\<open>W[80]\<close>: sixteen words of the block, then the loop from 16 to 80, which
  fills the array in order; the list holds the words written so far.\<close>

definition sha1_extend :: "u32 list \<Rightarrow> nat \<Rightarrow> u32 list" where
  "sha1_extend W t = W @ [SHA1CircularShift 1 (W ! (t - 3) XOR W ! (t - 8) XOR W ! (t - 14) XOR W ! (t - 16))]"

definition sha1_W :: "u8 list \<Rightarrow> u32 list" where
  "sha1_W block = foldl sha1_extend (map (sha1_load block) [0..<16]) [16..<80]"

definition sha1_Ch :: "u32 \<Rightarrow> u32 \<Rightarrow> u32 \<Rightarrow> u32" where
  "sha1_Ch B C D = (B AND C) OR (NOT B AND D)"

definition sha1_Parity :: "u32 \<Rightarrow> u32 \<Rightarrow> u32 \<Rightarrow> u32" where
  "sha1_Parity B C D = B XOR C XOR D"

definition sha1_Maj :: "u32 \<Rightarrow> u32 \<Rightarrow> u32 \<Rightarrow> u32" where
  "sha1_Maj B C D = (B AND C) OR (B AND D) OR (C AND D)"

type_synonym sha1_regs = "u32 \<times> u32 \<times> u32 \<times> u32 \<times> u32"

fun sha1_round :: "(u32 \<Rightarrow> u32 \<Rightarrow> u32 \<Rightarrow> u32) \<Rightarrow> u32 \<Rightarrow> u32 list \<Rightarrow> sha1_regs \<Rightarrow> nat \<Rightarrow> sha1_regs" where
  "sha1_round f k W (A, B, C, D, E) t =
     (let temp = SHA1CircularShift 5 A + f B C D + E + W ! t + k
      in (temp, A, SHA1CircularShift 30 B, C, D))"

definition sha1_compress :: "u32 list \<Rightarrow> u8 list \<Rightarrow> u32 list" where
  "sha1_compress h block =
     (let W = sha1_W block;
          r0 = (h ! 0, h ! 1, h ! 2, h ! 3, h ! 4);
          r1 = foldl (sha1_round sha1_Ch (sha1_K ! 0) W) r0 [0..<20];
          r2 = foldl (sha1_round sha1_Parity (sha1_K ! 1) W) r1 [20..<40];
          r3 = foldl (sha1_round sha1_Maj (sha1_K ! 2) W) r2 [40..<60];
          (A, B, C, D, E) = foldl (sha1_round sha1_Parity (sha1_K ! 3) W) r3 [60..<80]
      in [h ! 0 + A, h ! 1 + B, h ! 2 + C, h ! 3 + D, h ! 4 + E])"

definition SHA1ProcessMessageBlock :: "SHA1Context \<Rightarrow> SHA1Context" where
  "SHA1ProcessMessageBlock c =
     c\<lparr>Intermediate_Hash := sha1_compress (Intermediate_Hash c) (Message_Block c), Message_Block_Index := 0\<rparr>"

section \<open>Operations on the context\<close>

definition sha1_iv :: "u32 list" where
  "sha1_iv = [0x67452301, 0xEFCDAB89, 0x98BADCFE, 0x10325476, 0xC3D2E1F0]"

definition SHA1Reset :: "SHA1Context option \<Rightarrow> int \<times> SHA1Context option" where
  "SHA1Reset context = (case context of
       None \<Rightarrow> (shaNull, None)
     | Some c \<Rightarrow> (shaSuccess, Some (c\<lparr>Length_Low := 0, Length_High := 0, Message_Block_Index := 0,
         Intermediate_Hash := sha1_iv, Computed := 0, Corrupted := 0\<rparr>)))"

text \<open>\<^verbatim>\<open>Message_Block[Message_Block_Index++] = b\<close>.\<close>

definition sha1_put :: "SHA1Context \<Rightarrow> u8 \<Rightarrow> SHA1Context" where
  "sha1_put c b = c\<lparr>Message_Block := (Message_Block c)[Message_Block_Index c := b],
     Message_Block_Index := Message_Block_Index c + 1\<rparr>"

definition sha1_count :: "SHA1Context \<Rightarrow> SHA1Context" where
  "sha1_count c =
     (let c1 = c\<lparr>Length_Low := Length_Low c + 8\<rparr>
      in if Length_Low c1 = 0
         then (let c2 = c1\<lparr>Length_High := Length_High c1 + 1\<rparr>
               in if Length_High c2 = 0 then c2\<lparr>Corrupted := 1\<rparr> else c2)
         else c1)"

definition sha1_input_byte :: "SHA1Context \<Rightarrow> u8 \<Rightarrow> SHA1Context" where
  "sha1_input_byte c b =
     (let c1 = sha1_count (sha1_put c b)
      in if Message_Block_Index c1 = 64 then SHA1ProcessMessageBlock c1 else c1)"

fun sha1_input_loop :: "SHA1Context \<Rightarrow> u8 list \<Rightarrow> SHA1Context" where
  "sha1_input_loop c [] = c"
| "sha1_input_loop c (b # bs) = (if Corrupted c \<noteq> 0 then c else sha1_input_loop (sha1_input_byte c b) bs)"

definition SHA1Input :: "SHA1Context option \<Rightarrow> u8 list option \<Rightarrow> nat \<Rightarrow> int \<times> SHA1Context option" where
  "SHA1Input context message_array len =
     (if len = 0 then (shaSuccess, context)
      else case (context, message_array) of
        (Some c, Some msg) \<Rightarrow>
          if Computed c \<noteq> 0 then (shaStateError, Some (c\<lparr>Corrupted := shaStateError\<rparr>))
          else if Corrupted c \<noteq> 0 then (Corrupted c, Some c)
          else (shaSuccess, Some (sha1_input_loop c (take len msg)))
      | _ \<Rightarrow> (shaNull, context))"

text \<open>\<^verbatim>\<open>while (Message_Block_Index < n) Message_Block[Message_Block_Index++] = 0;\<close>\<close>

function sha1_zero_to :: "nat \<Rightarrow> SHA1Context \<Rightarrow> SHA1Context" where
  "sha1_zero_to n c = (if Message_Block_Index c < n then sha1_zero_to n (sha1_put c 0) else c)"
  by pat_completeness auto
termination
  by (relation "measure (\<lambda>(n, c). n - Message_Block_Index c)") (auto simp: sha1_put_def)

declare sha1_zero_to.simps [simp del]

definition sha1_store_length :: "SHA1Context \<Rightarrow> SHA1Context" where
  "sha1_store_length c = c\<lparr>Message_Block := (Message_Block c)
     [56 := ucast (drop_bit 24 (Length_High c)), 57 := ucast (drop_bit 16 (Length_High c)),
      58 := ucast (drop_bit 8 (Length_High c)), 59 := ucast (Length_High c),
      60 := ucast (drop_bit 24 (Length_Low c)), 61 := ucast (drop_bit 16 (Length_Low c)),
      62 := ucast (drop_bit 8 (Length_Low c)), 63 := ucast (Length_Low c)]\<rparr>"

definition SHA1PadMessage :: "SHA1Context \<Rightarrow> SHA1Context" where
  "SHA1PadMessage c =
     (let c1 = (if Message_Block_Index c > 55
                then sha1_zero_to 56 (SHA1ProcessMessageBlock (sha1_zero_to 64 (sha1_put c 0x80)))
                else sha1_zero_to 56 (sha1_put c 0x80))
      in SHA1ProcessMessageBlock (sha1_store_length c1))"

definition sha1_hash_bytes :: "u32 list \<Rightarrow> u8 list" where
  "sha1_hash_bytes h = map (\<lambda>i. ucast (drop_bit (8 * (3 - i mod 4)) (h ! (i div 4)))) [0..<20]"

text \<open>The digest array is an option: the caller may pass a null pointer.\<close>

definition SHA1Result ::
  "SHA1Context option \<Rightarrow> u8 list option \<Rightarrow> int \<times> SHA1Context option \<times> u8 list option" where
  "SHA1Result context md =
     (case (context, md) of
        (Some c, Some out) \<Rightarrow>
          if Corrupted c \<noteq> 0 then (Corrupted c, context, md)
          else
            let c1 = (if Computed c = 0
                      then (SHA1PadMessage c)\<lparr>Message_Block := replicate 64 0, Length_Low := 0,
                             Length_High := 0, Computed := 1\<rparr>
                      else c)
            in (shaSuccess, Some c1, Some (sha1_hash_bytes (Intermediate_Hash c1)))
      | _ \<Rightarrow> (shaNull, context, md))"

text \<open>The string of \<^verbatim>\<open>sha1_get_sha1\<close>: \<^verbatim>\<open>%02x\<close> for every byte of the digest. The argument
  \<open>sha\<close> is the uninitialised context on the stack, \<open>mem\<close> whether \<^verbatim>\<open>calloc\<close> succeeds.\<close>

definition hex02 :: "u8 \<Rightarrow> string" where
  "hex02 b = [''0123456789abcdef'' ! (unat b div 16), ''0123456789abcdef'' ! (unat b mod 16)]"

definition sha1_get_sha1 :: "bool \<Rightarrow> SHA1Context \<Rightarrow> u8 list \<Rightarrow> string option" where
  "sha1_get_sha1 mem sha buf =
     (let (err, s1) = SHA1Reset (Some sha)
      in if err \<noteq> 0 then None
      else let (err, s2) = SHA1Input s1 (Some buf) (length buf)
      in if err \<noteq> 0 then None
      else let (err, s3, md) = SHA1Result s2 (Some (replicate 20 0))
      in if err \<noteq> 0 then None
      else if \<not> mem then None
      else Some (concat (map hex02 (the md))))"

section \<open>FIPS 180-1\<close>

fun fips_W :: "u8 list \<Rightarrow> nat \<Rightarrow> u32" where
  "fips_W M t = (if t < 16 then sha1_load M t
     else SHA1CircularShift 1 (fips_W M (t - 3) XOR fips_W M (t - 8) XOR fips_W M (t - 14) XOR fips_W M (t - 16)))"

declare fips_W.simps [simp del]

definition fips_f :: "nat \<Rightarrow> u32 \<Rightarrow> u32 \<Rightarrow> u32 \<Rightarrow> u32" where
  "fips_f t B C D =
     (if t < 20 then (B AND C) OR (NOT B AND D)
      else if t < 40 then B XOR C XOR D
      else if t < 60 then (B AND C) OR (B AND D) OR (C AND D)
      else B XOR C XOR D)"

definition fips_K :: "nat \<Rightarrow> u32" where
  "fips_K t = (if t < 20 then 0x5A827999 else if t < 40 then 0x6ED9EBA1 else if t < 60 then 0x8F1BBCDC else 0xCA62C1D6)"

fun fips_step :: "u8 list \<Rightarrow> sha1_regs \<Rightarrow> nat \<Rightarrow> sha1_regs" where
  "fips_step M (A, B, C, D, E) t =
     (SHA1CircularShift 5 A + fips_f t B C D + E + fips_W M t + fips_K t, A, SHA1CircularShift 30 B, C, D)"

definition fips_compress :: "u32 list \<Rightarrow> u8 list \<Rightarrow> u32 list" where
  "fips_compress h M =
     (let (A, B, C, D, E) = foldl (fips_step M) (h ! 0, h ! 1, h ! 2, h ! 3, h ! 4) [0..<80]
      in [h ! 0 + A, h ! 1 + B, h ! 2 + C, h ! 3 + D, h ! 4 + E])"

lemma sha1_W_upto:
  "16 \<le> n \<Longrightarrow> foldl sha1_extend (map (sha1_load M) [0..<16]) [16..<n] = map (fips_W M) [0..<n]"
proof (induction n rule: dec_induct)
  case base
  have "map (sha1_load M) [0..<16] = map (fips_W M) [0..<16]"
    by (intro map_cong refl) (simp add: fips_W.simps)
  then show ?case by simp
next
  case (step n)
  then have "foldl sha1_extend (map (sha1_load M) [0..<16]) [16..<Suc n] = sha1_extend (map (fips_W M) [0..<n]) n"
    by simp
  also have "\<dots> = map (fips_W M) [0..<Suc n]"
    using step.hyps by (simp add: sha1_extend_def fips_W.simps [of M n])
  finally show ?case .
qed

lemma sha1_W_fips: "sha1_W M = map (fips_W M) [0..<80]"
  unfolding sha1_W_def by (rule sha1_W_upto) simp

text \<open>A loop of the source over \<open>[lo..<hi]\<close> runs the steps of the standard in that range.\<close>

lemma sha1_rounds_fips:
  assumes "\<And>t. lo \<le> t \<Longrightarrow> t < hi \<Longrightarrow> fips_f t = f \<and> fips_K t = k" "hi \<le> 80"
  shows "foldl (sha1_round f k (sha1_W M)) r [lo..<hi] = foldl (fips_step M) r [lo..<hi]"
proof (rule foldl_cong)
  fix r t assume "t \<in> set [lo..<hi]"
  with assms have "t < 80" "fips_f t = f" "fips_K t = k" by auto
  then show "sha1_round f k (sha1_W M) r t = fips_step M r t"
    by (cases r) (simp add: sha1_W_fips Let_def)
qed simp_all

lemma upt_0_80: "[0..<80] = [0..<20] @ [20..<40] @ [40..<60] @ [60..<80]"
  using upt_add_eq_append [of 0 20 60] by simp

lemma fips_choices:
  "t < 20 \<Longrightarrow> fips_f t = sha1_Ch \<and> fips_K t = sha1_K ! 0"
  "20 \<le> t \<Longrightarrow> t < 40 \<Longrightarrow> fips_f t = sha1_Parity \<and> fips_K t = sha1_K ! 1"
  "40 \<le> t \<Longrightarrow> t < 60 \<Longrightarrow> fips_f t = sha1_Maj \<and> fips_K t = sha1_K ! 2"
  "60 \<le> t \<Longrightarrow> fips_f t = sha1_Parity \<and> fips_K t = sha1_K ! 3"
  by (auto simp: fun_eq_iff fips_f_def fips_K_def sha1_K_def sha1_Ch_def sha1_Parity_def sha1_Maj_def)

lemma sha1_loops:
  "foldl (sha1_round sha1_Ch (sha1_K ! 0) (sha1_W M)) r [0..<20] = foldl (fips_step M) r [0..<20]"
  "foldl (sha1_round sha1_Parity (sha1_K ! 1) (sha1_W M)) r [20..<40] = foldl (fips_step M) r [20..<40]"
  "foldl (sha1_round sha1_Maj (sha1_K ! 2) (sha1_W M)) r [40..<60] = foldl (fips_step M) r [40..<60]"
  "foldl (sha1_round sha1_Parity (sha1_K ! 3) (sha1_W M)) r [60..<80] = foldl (fips_step M) r [60..<80]"
  by (rule sha1_rounds_fips; simp only: fips_choices)+

lemma sha1_compress_eq: "sha1_compress h M = fips_compress h M"
  unfolding sha1_compress_def fips_compress_def Let_def upt_0_80 foldl_append sha1_loops ..

section \<open>Reference digest\<close>

definition sha1_length_field :: "nat \<Rightarrow> u8 list" where
  "sha1_length_field n = map (\<lambda>i. of_nat (8 * n div 2 ^ (56 - 8 * i))) [0..<8]"

definition sha1_padded :: "u8 list \<Rightarrow> u8 list" where
  "sha1_padded m = m @ [0x80] @ replicate (pad_zeros (length m)) 0 @ sha1_length_field (length m)"

definition sha1_digest :: "u8 list \<Rightarrow> u8 list" where
  "sha1_digest m = sha1_hash_bytes (fold_blocks fips_compress sha1_iv (sha1_padded m))"

text \<open>SHA-1 is specified for messages of fewer than \<open>2 ^ 64\<close> bits.\<close>

definition sha1_len_ok :: "u8 list \<Rightarrow> bool" where
  "sha1_len_ok m \<longleftrightarrow> 8 * length m < 2 ^ 64"

section \<open>The context represents the absorbed message\<close>

definition sha1_rep :: "u8 list \<Rightarrow> SHA1Context \<Rightarrow> bool" where
  "sha1_rep m c \<longleftrightarrow>
     Length_Low c = of_nat (8 * length m)
     \<and> Length_High c = of_nat (length m div 2 ^ 29)
     \<and> Intermediate_Hash c = fold_blocks fips_compress sha1_iv m
     \<and> Message_Block_Index c = length m mod 64
     \<and> length (Message_Block c) = 64
     \<and> take (length m mod 64) (Message_Block c) = rest_part m
     \<and> Computed c = 0 \<and> Corrupted c = 0"

lemma sha1_count_step:
  assumes "8 * Suc n < 2 ^ 64" "Length_Low c = of_nat (8 * n)" "Length_High c = of_nat (n div 2 ^ 29)"
  shows "sha1_count c = c\<lparr>Length_Low := of_nat (8 * Suc n), Length_High := of_nat (Suc n div 2 ^ 29)\<rparr>"
proof -
  have low: "of_nat (8 * n) + 8 = (of_nat (8 * Suc n) :: u32)"
    by simp
  have "(of_nat (8 * Suc n) = (0 :: u32)) \<longleftrightarrow> 8 * 2 ^ 29 dvd 8 * Suc n"
    by (simp only: word_of_nat_eq_0_iff) simp
  also have "\<dots> \<longleftrightarrow> 2 ^ 29 dvd Suc n" by (rule nat_mult_dvd_cancel1) simp
  finally have wrap: "(of_nat (8 * Suc n) = (0 :: u32)) \<longleftrightarrow> Suc n mod 2 ^ 29 = 0"
    by (simp only: dvd_eq_mod_eq_0)
  show ?thesis
  proof (cases "Suc n mod 2 ^ 29 = 0")
    case True
    then have div: "Suc n div 2 ^ 29 = Suc (n div 2 ^ 29)"
      by (simp only: div_Suc) simp
    have "n div 2 ^ 29 < 2 ^ 32 - 1"
    proof -
      have "Suc n div 2 ^ 29 < 2 ^ 32"
        using assms(1) by (subst less_mult_imp_div_less) simp_all
      then show ?thesis using div by simp
    qed
    then have "(of_nat (Suc (n div 2 ^ 29)) :: u32) \<noteq> 0"
      by (subst word_of_nat_eq_0_iff) (auto dest: dvd_imp_le)
    then have high: "(of_nat (n div 2 ^ 29) + 1 :: u32) \<noteq> 0" by (simp add: add.commute)
    have "Length_Low c + 8 = 0" using assms(2) low wrap True by (simp only:)
    then show ?thesis
      using high assms low wrap True div
      by (simp add: sha1_count_def Let_def add.commute)
  next
    case False
    then have "Suc n div 2 ^ 29 = n div 2 ^ 29" by (simp only: div_Suc) simp
    moreover have "Length_Low c + 8 \<noteq> 0" using assms(2) low wrap False by (simp only: not_False_eq_True)
    ultimately show ?thesis
      using assms by (simp add: sha1_count_def Let_def add.commute)
  qed
qed

lemma sha1_rep_init: "length (Message_Block c) = 64 \<Longrightarrow> sha1_rep [] (the (snd (SHA1Reset (Some c))))"
  by (simp add: sha1_rep_def SHA1Reset_def)

lemma sha1_rep_byte:
  assumes rep: "sha1_rep m c" and ok: "sha1_len_ok (m @ [b])"
  shows "sha1_rep (m @ [b]) (sha1_input_byte c b)"
proof -
  let ?n = "length m" and ?i = "length m mod 64"
  let ?block = "(Message_Block c)[?i := b]"
  have len64: "length ?block = 64" using rep by (simp add: sha1_rep_def)
  have cnt: "sha1_count (sha1_put c b)
      = c\<lparr>Message_Block := ?block, Message_Block_Index := ?i + 1,
          Length_Low := of_nat (8 * Suc ?n), Length_High := of_nat (Suc ?n div 2 ^ 29)\<rparr>"
    using rep ok sha1_count_step [of ?n "sha1_put c b"]
    by (simp add: sha1_rep_def sha1_len_ok_def sha1_put_def)
  have i: "?i < 64" by simp
  have "rest_part m @ [b] = take ?i (Message_Block c) @ [b]" using rep by (simp add: sha1_rep_def)
  also have "\<dots> = take (Suc ?i) ?block"
    using rep i by (simp add: sha1_rep_def take_Suc_conv_app_nth)
  finally have block: "rest_part m @ [b] = take (Suc ?i) ?block" .
  have fold: "fold_blocks fips_compress sha1_iv (m @ [b])
      = fold_blocks fips_compress (Intermediate_Hash c) (rest_part m @ [b])"
    using rep by (simp add: sha1_rep_def fold_blocks_append [of _ _ m "[b]"])
  have rest: "rest_part (m @ [b]) = rest_part (rest_part m @ [b])" by (rule rest_part_append)
  show ?thesis
  proof (cases "Suc ?i = 64")
    case True
    then have full: "rest_part m @ [b] = ?block" using block len64 by simp
    have "fold_blocks fips_compress h ?block = fips_compress h ?block" "rest_part ?block = []" for h
      using fold_blocks_first [OF len64, of _ h "[]"] rest_part_first [OF len64, of "[]"] by simp_all
    moreover have "Suc ?n mod 64 = 0" using True by (simp add: mod_Suc)
    ultimately show ?thesis
      using True rep len64 fold rest
      by (simp add: sha1_rep_def sha1_input_byte_def Let_def cnt full SHA1ProcessMessageBlock_def sha1_compress_eq)
  next
    case False
    then have short: "length (rest_part m @ [b]) < 64" using i by (simp add: length_rest_part)
    have "Suc ?n mod 64 = Suc ?i" using False by (simp add: mod_Suc)
    then show ?thesis
      using False rep len64 fold rest short block
      by (simp add: sha1_rep_def sha1_input_byte_def Let_def cnt rest_part_short)
  qed
qed

lemma sha1_len_ok_prefix: "sha1_len_ok (m @ d) \<Longrightarrow> sha1_len_ok m"
  by (simp add: sha1_len_ok_def)

lemma sha1_rep_loop: "sha1_rep m c \<Longrightarrow> sha1_len_ok (m @ d) \<Longrightarrow> sha1_rep (m @ d) (sha1_input_loop c d)"
proof (induction d arbitrary: m c)
  case (Cons b d)
  then have "sha1_rep (m @ [b]) (sha1_input_byte c b)"
    using sha1_len_ok_prefix [of "m @ [b]" d] by (intro sha1_rep_byte) simp_all
  moreover have "Corrupted c = 0" using Cons.prems by (simp add: sha1_rep_def)
  ultimately show ?case using Cons.prems Cons.IH [of "m @ [b]" "sha1_input_byte c b"] by simp
qed simp

section \<open>Padding\<close>

text \<open>\<open>sha1_holds xs c\<close>: the block buffer has been filled with \<open>xs\<close> up to its index.\<close>

definition sha1_holds :: "u8 list \<Rightarrow> SHA1Context \<Rightarrow> bool" where
  "sha1_holds xs c \<longleftrightarrow> Message_Block_Index c = length xs \<and> length (Message_Block c) = 64
     \<and> take (length xs) (Message_Block c) = xs"

lemma sha1_holds_put: "sha1_holds xs c \<Longrightarrow> length xs < 64 \<Longrightarrow> sha1_holds (xs @ [b]) (sha1_put c b)"
  by (simp add: sha1_holds_def sha1_put_def take_Suc_conv_app_nth)

lemma sha1_zero_to_holds:
  "sha1_holds xs c \<Longrightarrow> length xs \<le> n \<Longrightarrow> n \<le> 64 \<Longrightarrow>
     sha1_holds (xs @ replicate (n - length xs) 0) (sha1_zero_to n c)
     \<and> Intermediate_Hash (sha1_zero_to n c) = Intermediate_Hash c
     \<and> Length_Low (sha1_zero_to n c) = Length_Low c \<and> Length_High (sha1_zero_to n c) = Length_High c"
proof (induction n c arbitrary: xs rule: sha1_zero_to.induct)
  case (1 n c)
  show ?case
  proof (cases "length xs < n")
    case True
    with 1 have "sha1_holds (xs @ [0]) (sha1_put c 0)" by (simp add: sha1_holds_put)
    moreover have "Message_Block_Index c < n" using True 1 by (simp add: sha1_holds_def)
    moreover have "xs @ replicate (n - length xs) 0 = (xs @ [0]) @ replicate (n - length (xs @ [0])) 0"
      using True by (simp add: Suc_diff_Suc flip: replicate_Suc)
    ultimately show ?thesis
      using "1.IH" [of "xs @ [0]"] 1 True by (simp add: sha1_zero_to.simps [of n c] sha1_put_def)
  next
    case False
    then show ?thesis using 1 by (simp add: sha1_zero_to.simps [of n c] sha1_holds_def)
  qed
qed

lemma sha1_holds_process:
  "sha1_holds xs c \<Longrightarrow> length xs = 64 \<Longrightarrow>
     Intermediate_Hash (SHA1ProcessMessageBlock c) = fips_compress (Intermediate_Hash c) xs
     \<and> sha1_holds [] (SHA1ProcessMessageBlock c)"
  by (auto simp: sha1_holds_def SHA1ProcessMessageBlock_def sha1_compress_eq)

lemma SHA1ProcessMessageBlock_lengths [simp]:
  "Length_Low (SHA1ProcessMessageBlock c) = Length_Low c"
  "Length_High (SHA1ProcessMessageBlock c) = Length_High c"
  by (simp_all add: SHA1ProcessMessageBlock_def)

lemma sha1_put_fields [simp]:
  "Length_Low (sha1_put c b) = Length_Low c" "Length_High (sha1_put c b) = Length_High c"
  "Intermediate_Hash (sha1_put c b) = Intermediate_Hash c"
  by (simp_all add: sha1_put_def)

lemma sha1_zero_to_Corrupted [simp]: "Corrupted (sha1_zero_to n c) = Corrupted c"
proof (induction n c rule: sha1_zero_to.induct)
  case (1 n c)
  then show ?case by (cases "Message_Block_Index c < n") (simp_all add: sha1_zero_to.simps [of n c] sha1_put_def)
qed

lemma SHA1PadMessage_Corrupted [simp]: "Corrupted (SHA1PadMessage c) = Corrupted c"
  by (simp add: SHA1PadMessage_def Let_def SHA1ProcessMessageBlock_def sha1_store_length_def sha1_put_def)

definition sha1_length_bytes :: "SHA1Context \<Rightarrow> u8 list" where
  "sha1_length_bytes c =
     [ucast (drop_bit 24 (Length_High c)), ucast (drop_bit 16 (Length_High c)), ucast (drop_bit 8 (Length_High c)),
      ucast (Length_High c), ucast (drop_bit 24 (Length_Low c)), ucast (drop_bit 16 (Length_Low c)),
      ucast (drop_bit 8 (Length_Low c)), ucast (Length_Low c)]"

lemma update_tail8:
  assumes "length xs = 64" "take 56 xs = ys"
  shows "xs[56 := a, 57 := b, 58 := c, 59 := d, 60 := e, 61 := f, 62 := g, 63 := h] = ys @ [a, b, c, d, e, f, g, h]"
proof -
  have "length ys = 56" using assms by auto
  moreover have "xs = ys @ drop 56 xs" "length (drop 56 xs) = 8"
    using assms append_take_drop_id [of 56 xs] by simp_all
  moreover from this(2) obtain z0 z1 z2 z3 z4 z5 z6 z7 where "drop 56 xs = [z0, z1, z2, z3, z4, z5, z6, z7]"
    unfolding length8_conv by auto
  ultimately have "xs = ys @ [z0, z1, z2, z3, z4, z5, z6, z7]" "length ys = 56" by simp_all
  then show ?thesis by (simp add: list_update_append)
qed

lemma sha1_store_length_block:
  "sha1_holds xs c \<Longrightarrow> length xs = 56 \<Longrightarrow>
     Message_Block (sha1_store_length c) = xs @ sha1_length_bytes c
     \<and> Intermediate_Hash (sha1_store_length c) = Intermediate_Hash c"
  by (simp add: sha1_holds_def sha1_store_length_def sha1_length_bytes_def update_tail8)

lemma sha1_final_block:
  assumes "sha1_holds xs c" "length xs = 56"
  shows "Intermediate_Hash (SHA1ProcessMessageBlock (sha1_store_length c))
    = fips_compress (Intermediate_Hash c) (xs @ sha1_length_bytes c)"
  using sha1_store_length_block [OF assms] by (simp add: SHA1ProcessMessageBlock_def sha1_compress_eq)

lemma sha1_length_field_eq:
  "sha1_length_field n =
    [of_nat (8 * n div 2 ^ (32 + 24)), of_nat (8 * n div 2 ^ (32 + 16)), of_nat (8 * n div 2 ^ (32 + 8)),
     of_nat (8 * n div 2 ^ (32 + 0)), of_nat (8 * n div 2 ^ 24), of_nat (8 * n div 2 ^ 16), of_nat (8 * n div 2 ^ 8),
     of_nat (8 * n div 2 ^ 0)]"
  by (simp add: sha1_length_field_def upt_rec)

lemma sha1_length_bytes_field:
  assumes "Length_Low c = of_nat (8 * n)" "Length_High c = of_nat (n div 2 ^ 29)"
  shows "sha1_length_bytes c = sha1_length_field n"
proof -
  have high: "8 * n div 2 ^ (32 + k) = n div 2 ^ 29 div 2 ^ k" for k
    by (simp add: power_add div_mult2_eq)
  have byte: "of_nat (x div 2 ^ k) = (ucast (drop_bit k (of_nat x :: u32)) :: u8)" if "k \<le> 24" for x k
    using that by (simp only: ucast_drop_bit_of_nat)
  show ?thesis
    unfolding sha1_length_field_eq high sha1_length_bytes_def assms
    by (subst byte, simp)+ (simp only: drop_bit_0 id_apply)
qed

lemma sha1_pad_fields:
  "length m mod 64 = length r \<Longrightarrow>
     r @ [0x80] @ replicate (pad_zeros (length m)) 0 =
       (if length r \<le> 55 then r @ [0x80] @ replicate (55 - length r) 0
        else (r @ [0x80] @ replicate (63 - length r) 0) @ replicate 56 0)"
  using mod_less_divisor [of 64 "length m"]
  by (auto simp: pad_zeros_cases simp flip: replicate_add)

lemma SHA1PadMessage_digest:
  assumes rep: "sha1_rep m c"
  shows "Intermediate_Hash (SHA1PadMessage c) = fold_blocks fips_compress sha1_iv (sha1_padded m)"
proof -
  let ?r = "rest_part m" and ?L = "sha1_length_field (length m)" and ?h = "Intermediate_Hash c"
  have len: "length ?r = length m mod 64" by (rule length_rest_part)
  have r: "length ?r < 64" by (simp add: len)
  have hold: "sha1_holds ?r c" using rep by (simp add: sha1_rep_def sha1_holds_def len)
  then have put: "sha1_holds (?r @ [0x80]) (sha1_put c 0x80)" using r by (rule sha1_holds_put)
  have fold: "fold_blocks fips_compress sha1_iv (sha1_padded m)
      = fold_blocks fips_compress ?h ((?r @ [0x80] @ replicate (pad_zeros (length m)) 0) @ ?L)"
    using rep by (simp add: sha1_padded_def sha1_rep_def fold_blocks_append [of _ _ m "0x80 # _"])
  have field: "sha1_length_bytes c' = ?L" if "Length_Low c' = Length_Low c" "Length_High c' = Length_High c" for c'
    using rep that by (intro sha1_length_bytes_field) (simp_all add: sha1_rep_def)
  have lenL: "length ?L = 8" by (simp add: sha1_length_field_def)
  show ?thesis
  proof (cases "length ?r \<le> 55")
    case True
    let ?b = "?r @ [0x80] @ replicate (55 - length ?r) 0"
    let ?c = "sha1_zero_to 56 (sha1_put c 0x80)"
    have z: "sha1_holds ?b ?c" "Intermediate_Hash ?c = ?h"
      "Length_Low ?c = Length_Low c" "Length_High ?c = Length_High c"
      using sha1_zero_to_holds [OF put, of 56] True by simp_all
    have "length ?b = 56" using True by simp
    then have "Intermediate_Hash (SHA1PadMessage c) = fips_compress ?h (?b @ ?L)"
      using sha1_final_block [OF z(1)] z field [of ?c] hold True
      by (simp add: SHA1PadMessage_def sha1_holds_def)
    moreover have "fold_blocks fips_compress ?h (?b @ ?L) = fips_compress ?h (?b @ ?L)"
      using fold_blocks_first [of "?b @ ?L" _ ?h "[]"] True lenL by simp
    ultimately show ?thesis using fold sha1_pad_fields [of m ?r] len True by simp
  next
    case False
    let ?b1 = "?r @ [0x80] @ replicate (63 - length ?r) 0"
    let ?b2 = "replicate 56 0 :: u8 list"
    let ?c1 = "sha1_zero_to 64 (sha1_put c 0x80)"
    let ?c2 = "SHA1ProcessMessageBlock ?c1"
    let ?c3 = "sha1_zero_to 56 ?c2"
    have z1: "sha1_holds ?b1 ?c1" "Intermediate_Hash ?c1 = ?h"
      "Length_Low ?c1 = Length_Low c" "Length_High ?c1 = Length_High c"
      using sha1_zero_to_holds [OF put, of 64] r by simp_all
    have lb1: "length ?b1 = 64" using r by simp
    have z2: "Intermediate_Hash ?c2 = fips_compress ?h ?b1" "sha1_holds [] ?c2"
      using sha1_holds_process [OF z1(1) lb1] z1 by simp_all
    have z3: "sha1_holds ?b2 ?c3" "Intermediate_Hash ?c3 = fips_compress ?h ?b1"
      "Length_Low ?c3 = Length_Low c" "Length_High ?c3 = Length_High c"
      using sha1_zero_to_holds [OF z2(2), of 56] z1 z2 by simp_all
    have "Intermediate_Hash (SHA1PadMessage c) = fips_compress (fips_compress ?h ?b1) (?b2 @ ?L)"
      using sha1_final_block [OF z3(1)] z3 field [of ?c3] hold False
      by (simp add: SHA1PadMessage_def sha1_holds_def)
    moreover have "fold_blocks fips_compress ?h (?b1 @ ?b2 @ ?L) = fips_compress (fips_compress ?h ?b1) (?b2 @ ?L)"
      using fold_blocks_first [OF lb1, of _ ?h "?b2 @ ?L"] fold_blocks_first [of "?b2 @ ?L" _ _ "[]"] lenL by simp
    ultimately show ?thesis using fold sha1_pad_fields [of m ?r] len False by simp
  qed
qed

section \<open>The contract of a streaming digest\<close>

definition sha1_ctx_rep :: "u8 list \<Rightarrow> SHA1Context option \<Rightarrow> bool" where
  "sha1_ctx_rep m s = (case s of None \<Rightarrow> False | Some c \<Rightarrow> sha1_rep m c)"

lemma sha1_ctx_repE: "sha1_ctx_rep m s \<Longrightarrow> (\<And>c. s = Some c \<Longrightarrow> sha1_rep m c \<Longrightarrow> P) \<Longrightarrow> P"
  by (cases s) (auto simp: sha1_ctx_rep_def)

definition sha1_feed :: "SHA1Context option \<Rightarrow> u8 list \<Rightarrow> SHA1Context option" where
  "sha1_feed s d = snd (SHA1Input s (Some d) (length d))"

definition sha1_take :: "u8 list \<Rightarrow> SHA1Context option \<Rightarrow> int \<times> u8 list option" where
  "sha1_take out s = (case SHA1Result s (Some out) of (err, s', md) \<Rightarrow> (err, md))"

lemma SHA1Input_rep:
  "sha1_rep m c \<Longrightarrow> SHA1Input (Some c) (Some d) (length d) = (shaSuccess, Some (sha1_input_loop c d))"
  by (cases d) (simp_all add: SHA1Input_def sha1_rep_def)

lemma sha1_feed_rep: "sha1_len_ok (m @ d) \<Longrightarrow> sha1_ctx_rep m s \<Longrightarrow> sha1_ctx_rep (m @ d) (sha1_feed s d)"
  by (erule sha1_ctx_repE) (simp add: sha1_feed_def SHA1Input_rep sha1_ctx_rep_def sha1_rep_loop)

lemma sha1_take_rep: "sha1_ctx_rep m s \<Longrightarrow> sha1_take out s = (shaSuccess, Some (sha1_digest m))"
  by (erule sha1_ctx_repE)
    (simp add: sha1_take_def SHA1Result_def sha1_digest_def Let_def SHA1PadMessage_digest, simp add: sha1_rep_def)

interpretation sha1: streaming_digest sha1_len_ok sha1_ctx_rep sha1_feed "sha1_take out"
    "\<lambda>m. (shaSuccess, Some (sha1_digest m))" for out
  by unfold_locales (auto dest: sha1_len_ok_prefix intro: sha1_feed_rep sha1_take_rep)

lemma sha1_ctx_rep_init: "length (Message_Block c) = 64 \<Longrightarrow> sha1_ctx_rep [] (snd (SHA1Reset (Some c)))"
  using sha1_rep_init [of c] by (simp add: sha1_ctx_rep_def SHA1Reset_def)

section \<open>Claims\<close>

text \<open>
  C39. The block function of the C code, with its word array and its four loops, is the
  compression function of FIPS 180-1 with one loop of eighty steps, the round function and
  constant chosen by the step number and the message schedule given by its recurrence.
\<close>

theorem SHA1ProcessMessageBlock_fips:
  "SHA1ProcessMessageBlock c =
     c\<lparr>Intermediate_Hash := fips_compress (Intermediate_Hash c) (Message_Block c), Message_Block_Index := 0\<rparr>"
  by (simp add: SHA1ProcessMessageBlock_def sha1_compress_eq)

text \<open>
  C33. Hashing in pieces: after \<^verbatim>\<open>SHA1Reset\<close> on any context, \<^verbatim>\<open>SHA1Input\<close> on any sequence of
  pieces whose total is below \<open>2 ^ 64\<close> bits followed by \<^verbatim>\<open>SHA1Result\<close> succeeds and writes
  the SHA-1 digest of the concatenation, whatever the output array contained.
\<close>

theorem sha1_streaming:
  "length (Message_Block ctx) = 64 \<Longrightarrow> sha1_len_ok (concat pieces) \<Longrightarrow>
     sha1_take out (foldl sha1_feed (snd (SHA1Reset (Some ctx))) pieces) = (shaSuccess, Some (sha1_digest (concat pieces)))"
  by (intro sha1.finish_updates sha1_ctx_rep_init)

definition sha1_garbage :: SHA1Context where
  "sha1_garbage = \<lparr>Intermediate_Hash = [], Length_Low = 5, Length_High = 6, Message_Block_Index = 9,
     Message_Block = replicate 64 3, Computed = 1, Corrupted = 1\<rparr>"

theorem sha1_streaming_witness:
  "sha1_take [] (foldl sha1_feed (snd (SHA1Reset (Some sha1_garbage))) [[97], [], [98, 99]])
     = (shaSuccess, Some (sha1_digest [97, 98, 99]))"
  using sha1_streaming [of sha1_garbage "[[97], [], [98, 99]]" "[]"]
  by (simp add: sha1_garbage_def sha1_len_ok_def)

text \<open>
  \<^verbatim>\<open>sha1_get_sha1\<close> returns, when the allocation succeeds, the forty hexadecimal digits of
  the SHA-1 digest of its argument (computed in an uninitialised context on the stack).
\<close>

theorem sha1_get_sha1_digest:
  "length (Message_Block sha) = 64 \<Longrightarrow> sha1_len_ok buf \<Longrightarrow>
     sha1_get_sha1 True sha buf = Some (concat (map hex02 (sha1_digest buf)))
     \<and> length (concat (map hex02 (sha1_digest buf))) = 40"
proof -
  assume ok: "length (Message_Block sha) = 64" "sha1_len_ok buf"
  define s1 where "s1 = snd (SHA1Reset (Some sha))"
  have reset: "SHA1Reset (Some sha) = (0, s1)" by (simp add: s1_def SHA1Reset_def sha_codes)
  have "sha1_ctx_rep [] s1" unfolding s1_def using ok(1) by (rule sha1_ctx_rep_init)
  then obtain c where c: "s1 = Some c" "sha1_rep [] c" by (rule sha1_ctx_repE)
  then have input: "SHA1Input s1 (Some buf) (length buf) = (0, sha1_feed s1 buf)"
    by (simp add: SHA1Input_rep sha1_feed_def sha_codes)
  have "sha1_ctx_rep ([] @ buf) (sha1_feed s1 buf)"
    using ok(2) c by (intro sha1_feed_rep) (simp_all add: sha1_ctx_rep_def)
  then have "sha1_take (replicate 20 0) (sha1_feed s1 buf) = (0, Some (sha1_digest buf))"
    using sha1_take_rep by (simp add: sha_codes)
  then obtain s3 where result: "SHA1Result (sha1_feed s1 buf) (Some (replicate 20 0)) = (0, s3, Some (sha1_digest buf))"
    by (auto simp: sha1_take_def split: prod.splits)
  have hex: "length (concat (map hex02 bs)) = 2 * length bs" for bs
    by (induction bs) (simp_all add: hex02_def)
  have "length (sha1_digest buf) = 20" by (simp add: sha1_digest_def sha1_hash_bytes_def)
  then show ?thesis
    using hex [of "sha1_digest buf"] by (simp add: sha1_get_sha1_def reset input result)
qed

theorem sha1_get_sha1_digest_witness:
  "sha1_get_sha1 True sha1_garbage [] = Some (concat (map hex02 (sha1_digest [])))"
  using sha1_get_sha1_digest [of sha1_garbage "[]"] by (simp add: sha1_garbage_def sha1_len_ok_def)

text \<open>
  The states of a context. Once \<^verbatim>\<open>SHA1Result\<close> has succeeded, a second call returns the
  same digest; any non-empty \<^verbatim>\<open>SHA1Input\<close> is refused with \<^verbatim>\<open>shaStateError\<close> and makes every
  later \<^verbatim>\<open>SHA1Result\<close> and \<^verbatim>\<open>SHA1Input\<close> fail with the same code, until \<^verbatim>\<open>SHA1Reset\<close>.
\<close>

theorem sha1_result_then_input:
  "SHA1Result (Some c) (Some out) = (shaSuccess, Some c1, md) \<Longrightarrow> d \<noteq> [] \<Longrightarrow>
     SHA1Result (Some c1) (Some out2) = (shaSuccess, Some c1, md)
     \<and> fst (SHA1Input (Some c1) (Some d) (length d)) = shaStateError
     \<and> fst (SHA1Result (sha1_feed (Some c1) d) (Some out2)) = shaStateError
     \<and> fst (SHA1Input (sha1_feed (Some c1) d) (Some d) (length d)) = shaStateError
     \<and> fst (SHA1Reset (sha1_feed (Some c1) d)) = shaSuccess"
  by (auto simp: SHA1Result_def SHA1Input_def SHA1Reset_def sha1_feed_def Let_def sha_codes split: if_splits)

theorem sha1_result_then_input_witness:
  "fst (SHA1Input (fst (snd (SHA1Result (Some (sha1_garbage\<lparr>Corrupted := 0\<rparr>)) (Some [])))) (Some [1]) 1) = shaStateError"
  using sha1_result_then_input [of "sha1_garbage\<lparr>Corrupted := 0\<rparr>" "[]" "sha1_garbage\<lparr>Corrupted := 0\<rparr>"
      "Some (sha1_hash_bytes [])" "[1]" "[]"]
  by (simp add: SHA1Result_def sha1_garbage_def)

text \<open>
  A message of \<open>2 ^ 64\<close> bits marks the context corrupted with the value 1, which is
  \<^verbatim>\<open>shaNull\<close> and not \<^verbatim>\<open>shaInputTooLong\<close>; later calls report a null pointer.
\<close>

lemma sha1_too_long_reports_null:
  "Length_Low c = 0xFFFFFFF8 \<Longrightarrow> Length_High c = 0xFFFFFFFF \<Longrightarrow>
     Corrupted (sha1_input_byte c b) = shaNull \<and> shaNull \<noteq> shaInputTooLong"
  by (simp add: sha1_input_byte_def sha1_count_def sha1_put_def Let_def SHA1ProcessMessageBlock_def sha_codes)

end
