(* ===== verification/Ice_Hmac.thy ===== *)
theory Ice_Hmac
  imports Crypt_Md5 Crypt_Sha1
begin

text \<open>
  Model of \<^verbatim>\<open>jingle_get_hmac_sha1\<close> of \<^verbatim>\<open>plugins/ice/x_stun.c\<close>, built from the models of the
  digests, and its comparison with RFC 2104. The uninitialised contexts on the stack are
  arguments.
\<close>

unbundle bit_operations_syntax

section \<open>The code\<close>

definition IPAD :: u8 where "IPAD = 0x36"
definition OPAD :: u8 where "OPAD = 0x5c"

text \<open>The key that is padded: keys above 64 bytes are replaced by their MD5 digest.\<close>

definition hmac_key :: "md5_state \<Rightarrow> u8 list \<Rightarrow> u8 list" where
  "hmac_key state key =
     (if length key > 64 then snd (md5_finish (md5_append (md5_init state) key)) else key)"

definition hmac_pad :: "u8 \<Rightarrow> u8 list \<Rightarrow> u8 list" where
  "hmac_pad pad key = map (\<lambda>b. b XOR pad) (take 64 (buf_put (replicate 65 0) 0 key))"

text \<open>\<^verbatim>\<open>SHA1Reset\<close>, two \<^verbatim>\<open>SHA1Input\<close> and \<^verbatim>\<open>SHA1Result\<close> in a row; the result codes are not read.\<close>

definition sha1_two :: "SHA1Context \<Rightarrow> u8 list \<Rightarrow> u8 list \<Rightarrow> u8 list \<Rightarrow> u8 list option" where
  "sha1_two sha out a b =
     (let (err, s0) = SHA1Reset (Some sha);
          (err, s1) = SHA1Input s0 (Some a) (length a);
          (err, s2) = SHA1Input s1 (Some b) (length b);
          (err, s3, md) = SHA1Result s2 (Some out)
      in md)"

definition jingle_get_hmac_sha1 :: "md5_state \<Rightarrow> SHA1Context \<Rightarrow> u8 list \<Rightarrow> u8 list \<Rightarrow> u8 list option" where
  "jingle_get_hmac_sha1 state sha key data =
     (let k = hmac_key state key
      in case sha1_two sha (replicate 20 0) (hmac_pad IPAD k) data of
           None \<Rightarrow> None
         | Some md \<Rightarrow> sha1_two sha (replicate 20 0) (hmac_pad OPAD k) md)"

section \<open>RFC 2104\<close>

definition hmac_block :: "u8 list \<Rightarrow> u8 list" where
  "hmac_block k = k @ replicate (64 - length k) 0"

definition hmac_sha1 :: "u8 list \<Rightarrow> u8 list \<Rightarrow> u8 list" where
  "hmac_sha1 k m =
     sha1_digest (map (\<lambda>b. b XOR 0x5c) (hmac_block k) @ sha1_digest (map (\<lambda>b. b XOR 0x36) (hmac_block k) @ m))"

section \<open>Correctness\<close>

lemma hmac_pad_block: "length k \<le> 64 \<Longrightarrow> hmac_pad pad k = map (\<lambda>b. b XOR pad) (hmac_block k)"
proof -
  assume k: "length k \<le> 64"
  then have "65 - length k = Suc (64 - length k)" by simp
  then have "buf_put (replicate 65 0) 0 k = hmac_block k @ [0 :: u8]"
    by (simp add: buf_put_def hmac_block_def replicate_append_same)
  then show ?thesis using k by (simp add: hmac_pad_def hmac_block_def)
qed

lemma sha1_two_digest:
  "length (Message_Block sha) = 64 \<Longrightarrow> sha1_len_ok (a @ b) \<Longrightarrow> sha1_two sha out a b = Some (sha1_digest (a @ b))"
proof -
  assume "length (Message_Block sha) = 64" "sha1_len_ok (a @ b)"
  then have "sha1_take out (sha1_feed (sha1_feed (snd (SHA1Reset (Some sha))) a) b)
      = (shaSuccess, Some (sha1_digest (a @ b)))"
    using sha1.finish_updates [of "[a, b]" "snd (SHA1Reset (Some sha))" out] sha1_ctx_rep_init by simp
  then show ?thesis
    by (auto simp: sha1_two_def sha1_take_def sha1_feed_def Let_def split: prod.splits)
qed

lemma length_sha1_digest [simp, xw_len]: "length (sha1_digest m) = 20"
  by (simp add: sha1_digest_def sha1_hash_bytes_def)

lemma length_hmac_sha1 [simp, xw_len]: "length (hmac_sha1 k m) = 20"
  by (simp add: hmac_sha1_def)

lemma length_md5_digest [simp, xw_len]: "length (md5_digest m) = 16"
  by (simp add: md5_digest_def md5_le_bytes_def)

lemma hmac_key_eq:
  "length (md5_buf state) = 64 \<Longrightarrow> hmac_key state key = (if length key > 64 then md5_digest key else key)"
  using md5.finish_updates [where ds = "[key]" and s = "md5_init state"] md5_rep_init by (simp add: hmac_key_def)

lemma hmac_padded_key:
  "length (md5_buf state) = 64 \<Longrightarrow> length (Message_Block sha) = 64 \<Longrightarrow> length m < 2 ^ 60 \<Longrightarrow>
     jingle_get_hmac_sha1 state sha key m = Some (hmac_sha1 (if length key > 64 then md5_digest key else key) m)"
proof -
  assume ok: "length (md5_buf state) = 64" "length (Message_Block sha) = 64" "length m < 2 ^ 60"
  let ?k = "if length key > 64 then md5_digest key else key"
  have k: "length ?k \<le> 64" by simp
  then have block: "length (hmac_block ?k) = 64" by (simp add: hmac_block_def)
  have "sha1_two sha out (hmac_pad pad ?k) b = Some (sha1_digest (map (\<lambda>b. b XOR pad) (hmac_block ?k) @ b))"
    if "length b < 2 ^ 60" for out pad b
    using ok(2) that block by (simp add: hmac_pad_block [OF k] sha1_two_digest sha1_len_ok_def)
  then show ?thesis
    using ok by (simp add: jingle_get_hmac_sha1_def Let_def hmac_key_eq hmac_sha1_def IPAD_def OPAD_def)
qed

section \<open>Claims\<close>

text \<open>
  C40. For keys of at most 64 bytes the function computes the HMAC-SHA1 of RFC 2104, whatever
  the contexts on the stack contained.
\<close>

theorem jingle_get_hmac_sha1_rfc2104:
  "length key \<le> 64 \<Longrightarrow> length m < 2 ^ 60 \<Longrightarrow> length (md5_buf state) = 64 \<Longrightarrow> length (Message_Block sha) = 64 \<Longrightarrow>
     jingle_get_hmac_sha1 state sha key m = Some (hmac_sha1 key m)"
  by (simp add: hmac_padded_key)

theorem jingle_get_hmac_sha1_rfc2104_witness:
  "jingle_get_hmac_sha1 \<lparr>md5_count = [], md5_abcd = [], md5_buf = replicate 64 9\<rparr> sha1_garbage [1, 2] [3]
     = Some (hmac_sha1 [1, 2] [3])"
  using jingle_get_hmac_sha1_rfc2104
    [of "[1, 2]" "[3]" "\<lparr>md5_count = [], md5_abcd = [], md5_buf = replicate 64 9\<rparr>" sha1_garbage]
  by (simp add: sha1_garbage_def)

text \<open>
  Longer keys are hashed with MD5 first, where RFC 2104 for HMAC-SHA1 takes their SHA-1
  digest: the result is the HMAC under the 16-byte MD5 digest of the key.
\<close>

theorem jingle_get_hmac_sha1_long_key:
  "64 < length key \<Longrightarrow> length m < 2 ^ 60 \<Longrightarrow> length (md5_buf state) = 64 \<Longrightarrow> length (Message_Block sha) = 64 \<Longrightarrow>
     jingle_get_hmac_sha1 state sha key m = Some (hmac_sha1 (md5_digest key) m)
     \<and> length (md5_digest key) \<noteq> length (sha1_digest key)"
  by (simp add: hmac_padded_key)

theorem jingle_get_hmac_sha1_long_key_witness:
  "jingle_get_hmac_sha1 \<lparr>md5_count = [], md5_abcd = [], md5_buf = replicate 64 9\<rparr> sha1_garbage (replicate 65 1) [3]
     = Some (hmac_sha1 (md5_digest (replicate 65 1)) [3])"
  using jingle_get_hmac_sha1_long_key
    [of "replicate 65 1" "[3]" "\<lparr>md5_count = [], md5_abcd = [], md5_buf = replicate 64 9\<rparr>" sha1_garbage]
  by (simp add: sha1_garbage_def)

end
