(* ===== verification/Xw_Bytes.thy ===== *)
theory Xw_Bytes
  imports Xw_Prelude
begin

text \<open>
  The byte order of the network on a little-endian host: \<^verbatim>\<open>htons\<close>, \<^verbatim>\<open>htonl\<close>, and 16-bit and
  32-bit fields that are read from and written to a block of bytes.
\<close>

unbundle bit_operations_syntax

section \<open>Byte order\<close>

definition htons :: "u16 \<Rightarrow> u16" where
  "htons w = push_bit 8 w OR drop_bit 8 w"

definition htonl :: "u32 \<Rightarrow> u32" where
  "htonl w = push_bit 24 w OR (push_bit 8 w AND 0xFF0000) OR (drop_bit 8 w AND 0xFF00) OR drop_bit 24 w"

definition le16 :: "u16 \<Rightarrow> u8 list" where
  "le16 w = [ucast w, ucast (drop_bit 8 w)]"

definition le32 :: "u32 \<Rightarrow> u8 list" where
  "le32 w = [ucast w, ucast (drop_bit 8 w), ucast (drop_bit 16 w), ucast (drop_bit 24 w)]"

definition get16 :: "u8 list \<Rightarrow> nat \<Rightarrow> u16 option" where
  "get16 buf off = do { bs \<leftarrow> mem_read buf off 2; Some (ucast (bs ! 0) OR push_bit 8 (ucast (bs ! 1))) }"

definition get32 :: "u8 list \<Rightarrow> nat \<Rightarrow> u32 option" where
  "get32 buf off = do { bs \<leftarrow> mem_read buf off 4;
     Some (ucast (bs ! 0) OR push_bit 8 (ucast (bs ! 1)) OR push_bit 16 (ucast (bs ! 2)) OR push_bit 24 (ucast (bs ! 3))) }"

definition put16 :: "u8 list \<Rightarrow> nat \<Rightarrow> u16 \<Rightarrow> u8 list option" where
  "put16 buf off w = mem_write buf off (le16 w)"

definition put32 :: "u8 list \<Rightarrow> nat \<Rightarrow> u32 \<Rightarrow> u8 list option" where
  "put32 buf off w = mem_write buf off (le32 w)"

section \<open>Bytes and words\<close>

definition be16 :: "u16 \<Rightarrow> u8 list" where
  "be16 w = [ucast (drop_bit 8 w), ucast w]"

definition be32 :: "u32 \<Rightarrow> u8 list" where
  "be32 w = [ucast (drop_bit 24 w), ucast (drop_bit 16 w), ucast (drop_bit 8 w), ucast w]"

lemma le16_htons [simp]: "le16 (htons w) = be16 w"
  by (auto simp: le16_def be16_def htons_def bit_simps intro!: bit_word_eqI dest: bit_imp_le_length)

lemma htons_htons [simp]: "htons (htons w) = w"
  by (rule bit_word_eqI) (auto simp: htons_def bit_simps dest: bit_imp_le_length)

lemma length_bytes [simp, xw_len]:
  "length (le16 w) = 2" "length (be16 w) = 2" "length (le32 v) = 4" "length (be32 v) = 4"
  by (simp_all add: le16_def be16_def le32_def be32_def)

lemma from_le16: "(ucast (le16 w ! 0) OR push_bit 8 (ucast (le16 w ! 1)) :: u16) = w"
  by (rule bit_word_eqI) (auto simp: le16_def bit_simps dest: bit_imp_le_length)

lemma from_le32:
  "(ucast (le32 w ! 0) OR push_bit 8 (ucast (le32 w ! 1)) OR push_bit 16 (ucast (le32 w ! 2))
     OR push_bit 24 (ucast (le32 w ! 3)) :: u32) = w"
proof (rule bit_word_eqI)
  fix n :: nat assume "n < LENGTH(32)"
  then have "n < 32" by simp
  then show "bit (ucast (le32 w ! 0) OR push_bit 8 (ucast (le32 w ! 1)) OR push_bit 16 (ucast (le32 w ! 2))
      OR push_bit 24 (ucast (le32 w ! 3)) :: u32) n = bit w n"
    by (cases "n < 8"; cases "n < 16"; cases "n < 24") (auto simp: le32_def bit_simps not_less)
qed

lemma htonl_bytes:
  "ucast (htonl w) = (ucast (drop_bit 24 w) :: u8)"
  "ucast (drop_bit 8 (htonl w)) = (ucast (drop_bit 16 w) :: u8)"
  "ucast (drop_bit 16 (htonl w)) = (ucast (drop_bit 8 w) :: u8)"
  "ucast (drop_bit 24 (htonl w)) = (ucast w :: u8)"
proof -
  have FF: "(0xFF0000 :: u32) = push_bit 16 (mask 8)" "(0xFF00 :: u32) = push_bit 8 (mask 8)"
    by (simp_all add: mask_eq_exp_minus_1)
  show "ucast (htonl w) = (ucast (drop_bit 24 w) :: u8)"
    "ucast (drop_bit 8 (htonl w)) = (ucast (drop_bit 16 w) :: u8)"
    "ucast (drop_bit 16 (htonl w)) = (ucast (drop_bit 8 w) :: u8)"
    "ucast (drop_bit 24 (htonl w)) = (ucast w :: u8)"
    unfolding htonl_def FF by (rule u8_eqI; simp add: bit_simps)+
qed

lemma le32_htonl [simp]: "le32 (htonl w) = be32 w"
  by (simp add: le32_def be32_def htonl_bytes)

lemma htonl_htonl [simp]: "htonl (htonl w) = w"
proof -
  have "le32 (htonl (htonl w)) = le32 w"
    by (simp add: le32_def htonl_bytes)
  then show ?thesis by (metis from_le32)
qed

section \<open>Reading and writing in a message\<close>

lemma buf_put_middle: "length a = off \<Longrightarrow> length b = length x \<Longrightarrow> buf_put (a @ b @ c) off x = a @ x @ c"
  by (simp add: buf_put_def)

lemma mem_write_middle: "length a = off \<Longrightarrow> length b = length x \<Longrightarrow> mem_write (a @ b @ c) off x = Some (a @ x @ c)"
  by (simp add: mem_write_def buf_put_middle)

lemma mem_read_middle: "length a = off \<Longrightarrow> length b = n \<Longrightarrow> mem_read (a @ b @ c) off n = Some b"
  by (simp add: mem_read_def)

lemma get16_le16: "length a = off \<Longrightarrow> get16 (a @ le16 w @ c) off = Some w"
  by (simp add: get16_def mem_read_middle from_le16 [unfolded One_nat_def])

lemma get32_le32: "length a = off \<Longrightarrow> get32 (a @ le32 w @ c) off = Some w"
  by (simp add: get32_def mem_read_middle from_le32 [unfolded One_nat_def])

lemma get16_be16: "length a = off \<Longrightarrow> get16 (a @ be16 w @ c) off = Some (htons w)"
  using get16_le16 [of a off "htons w" c] by simp

end
