(* ===== verification/Ice_Stun.thy ===== *)
theory Ice_Stun
  imports Ice_Hmac Crypt_Crc32 Xw_Bytes
begin

text \<open>
  Model of \<^verbatim>\<open>plugins/ice/x_stun.c\<close>: STUN packets as byte blocks, the attribute array of
  \<^verbatim>\<open>stun_packet_t\<close>, the builder and the parser of packets, message integrity, fingerprint, the
  XOR-mapped address, and the response to a binding request. The host is little-endian.
  \<^theory_text>\<open>None\<close> is undefined behaviour: an access outside a block of memory or of the 128-byte
  arrays on the stack.
\<close>

unbundle bit_operations_syntax

section \<open>Constants and types\<close>

definition STUN_M_COOKIE :: u32 where "STUN_M_COOKIE = 0x2112A442"
definition STUN_NET_M_COOKIE :: u32 where "STUN_NET_M_COOKIE = htonl STUN_M_COOKIE"
definition STUN_REQ :: u16 where "STUN_REQ = 0x0001"
definition STUN_RESP :: u16 where "STUN_RESP = 0x0101"
definition STUN_USERNAME :: u16 where "STUN_USERNAME = 0x0006"
definition STUN_MSG_INTEGRITY :: u16 where "STUN_MSG_INTEGRITY = 0x0008"
definition STUN_X_MAPPED_ADDRESS :: u16 where "STUN_X_MAPPED_ADDRESS = 0x0020"
definition STUN_PRIORITY :: u16 where "STUN_PRIORITY = 0x0024"
definition STUN_FINGERPRINT :: u16 where "STUN_FINGERPRINT = 0x8028"
definition STUN_ICE_CONTROLLED :: u16 where "STUN_ICE_CONTROLLED = 0x8029"
definition STUN_FINGERPRINT_XOR :: u32 where "STUN_FINGERPRINT_XOR = 0x5354554e"

lemmas stun_consts = STUN_M_COOKIE_def STUN_NET_M_COOKIE_def STUN_REQ_def STUN_RESP_def STUN_USERNAME_def
  STUN_MSG_INTEGRITY_def STUN_X_MAPPED_ADDRESS_def STUN_PRIORITY_def STUN_FINGERPRINT_def
  STUN_ICE_CONTROLLED_def STUN_FINGERPRINT_XOR_def

definition ADDRLEN_ALIGN :: "nat \<Rightarrow> nat" where
  "ADDRLEN_ALIGN x = (x + 3) div 4 * 4"

record stun_attr =
  attr_type :: u16
  attr_len :: u16
  attr_data :: "u8 list option"

text \<open>\<open>attrs\<close> lists the allocated entries, the terminating one included.\<close>

record stun_packet =
  pkt_len :: nat
  attrnum :: nat
  attrs :: "stun_attr list"

text \<open>What the functions find in uninitialised memory, and the table of the checksum.\<close>

record stun_env =
  heap_junk :: "nat \<Rightarrow> u8"
  attr_junk :: "nat \<Rightarrow> stun_attr"
  crc_tab :: "u32 list"
  md5_stack :: md5_state
  sha_stack :: SHA1Context

section \<open>Attributes\<close>

definition stun_pkt_new :: stun_packet where
  "stun_pkt_new = \<lparr>pkt_len = 0, attrnum = 0, attrs = []\<rparr>"

fun attr_index :: "stun_attr list \<Rightarrow> u16 \<Rightarrow> nat option" where
  "attr_index [] t = None"
| "attr_index (a # as) t = (if attr_type a = t then Some 0 else map_option Suc (attr_index as t))"

text \<open>\<^theory_text>\<open>None\<close> stands for the result -1.\<close>

definition stun_attr_id :: "stun_packet \<Rightarrow> u16 \<Rightarrow> nat option" where
  "stun_attr_id pkt t = attr_index (take (attrnum pkt) (attrs pkt)) t"

definition stun_set_attr_d ::
  "stun_env \<Rightarrow> stun_packet \<Rightarrow> u16 \<Rightarrow> nat \<Rightarrow> u8 list \<Rightarrow> stun_packet option" where
  "stun_set_attr_d env pkt atype len val =
     (let n = attrnum pkt;
          (as, i) = (case stun_attr_id pkt atype of
               None \<Rightarrow> (mem_resize (attr_junk env) (attrs pkt) (n + 2), n)
             | Some i \<Rightarrow> (attrs pkt, i));
          as1 = as[i := (as ! i)\<lparr>attr_type := atype, attr_len := of_nat len\<rparr>]
      in if \<not> n < length as1 then None
         else do {
           as2 \<leftarrow> (if attr_len (as1 ! n) \<noteq> 0
                  then (if i = n \<and> len < 2 ^ 16 \<and> len \<le> length val
                        then Some (as1[i := (as1 ! i)\<lparr>attr_data := Some (take len val)\<rparr>])
                        else None)
                  else Some (as1[i := (as1 ! i)\<lparr>attr_data := None\<rparr>]));
           (if n + 1 < length as2
            then Some (pkt\<lparr>attrs := as2[n + 1 := (as2 ! (n + 1))\<lparr>attr_type := 0\<rparr>], attrnum := n + 1\<rparr>)
            else None)
         })"

section \<open>Building a packet\<close>

text \<open>One turn of the loop; \<^verbatim>\<open>mlen\<close> and \<^verbatim>\<open>alen\<close> are 16-bit variables.\<close>

definition stun_hdr_add :: "stun_env \<Rightarrow> u8 list \<times> u16 \<Rightarrow> stun_attr \<Rightarrow> (u8 list \<times> u16) option" where
  "stun_hdr_add env = (\<lambda>(hdr, mlen) a.
     let alen = (of_nat (ADDRLEN_ALIGN (unat (attr_len a))) :: u16);
         m = unat mlen;
         hdr1 = mem_resize (heap_junk env) hdr (m + unat alen + 4)
     in do {
       hdr2 \<leftarrow> put16 hdr1 m (htons (attr_type a));
       hdr3 \<leftarrow> put16 hdr2 (m + 2) (htons (attr_len a));
       d \<leftarrow> (if attr_len a = 0 then Some []
            else do { v \<leftarrow> attr_data a; mem_read v 0 (unat (attr_len a)) });
       hdr4 \<leftarrow> mem_write hdr3 (m + 4) d;
       Some (hdr4, mlen + (alen + 4))
     })"

fun stun_hdr_loop :: "stun_env \<Rightarrow> u8 list \<times> u16 \<Rightarrow> stun_attr list \<Rightarrow> (u8 list \<times> u16) option" where
  "stun_hdr_loop env st [] = Some st"
| "stun_hdr_loop env st (a # as) = do { st' \<leftarrow> stun_hdr_add env st a; stun_hdr_loop env st' as }"

definition stun_hdr_from_packet :: "stun_env \<Rightarrow> stun_packet \<Rightarrow> u8 list option" where
  "stun_hdr_from_packet env pkt = do {
     (hdr, mlen) \<leftarrow> stun_hdr_loop env (replicate 20 0, 20) (take (attrnum pkt) (attrs pkt));
     put16 hdr 2 (htons (mlen - 20))
   }"

section \<open>Message integrity and fingerprint\<close>

definition stun_add_integrity :: "stun_env \<Rightarrow> u8 list \<Rightarrow> u8 list \<Rightarrow> u8 list option" where
  "stun_add_integrity env pkt key = do {
     raw \<leftarrow> get16 pkt 2;
     let mlen = htons raw + 20;
     let m = unat mlen;
     let hdr = mem_resize (heap_junk env) pkt (m + 24);
     hdr1 \<leftarrow> put16 hdr m (htons STUN_MSG_INTEGRITY);
     hdr2 \<leftarrow> put16 hdr1 (m + 2) (htons 20);
     let mlen2 = mlen + 24;
     hdr3 \<leftarrow> put16 hdr2 2 (htons (mlen2 - 20));
     if unat mlen2 < 24 then None else do {
       bs \<leftarrow> mem_read hdr3 0 (unat mlen2 - 24);
       tdata \<leftarrow> mem_write (replicate 128 0) 0 bs;
       msg_integrity \<leftarrow> jingle_get_hmac_sha1 (md5_stack env) (sha_stack env) key (take (unat mlen2 - 24) tdata);
       mem_write hdr3 (m + 4) msg_integrity
     }
   }"

definition stun_get_fingerprint :: "stun_env \<Rightarrow> u8 list \<Rightarrow> u32 option" where
  "stun_get_fingerprint env pkt = do {
     raw \<leftarrow> get16 pkt 2;
     let mlen = htons raw + 20;
     if unat mlen < 8 then None else do {
       bs \<leftarrow> mem_read pkt 0 (unat mlen - 8);
       tdata \<leftarrow> mem_write (replicate 128 0) 0 bs;
       Some (chksum_crc32 (crc_tab env) (take (unat mlen - 8) tdata))
     }
   }"

text \<open>The statements after the comment "add CRC32", the same in every function that builds a message.\<close>

definition stun_add_crc :: "stun_env \<Rightarrow> u8 list \<Rightarrow> u8 list option" where
  "stun_add_crc env resp = do {
     raw \<leftarrow> get16 resp 2;
     let i = unat (htons raw) + 20;
     let r0 = mem_resize (heap_junk env) resp (i + 8);
     r1 \<leftarrow> put16 r0 2 (htons (of_nat (i + 8 - 20)));
     crc \<leftarrow> stun_get_fingerprint env r1;
     r2 \<leftarrow> put16 r1 i (htons STUN_FINGERPRINT);
     r3 \<leftarrow> put16 r2 (i + 2) (htons 4);
     put32 r3 (i + 4) (htonl (crc XOR STUN_FINGERPRINT_XOR))
   }"

section \<open>Parsing a packet\<close>

text \<open>
  The block of the loop that recomputes the integrity value: it copies the message so far
  into the 128-byte array, and its result is freed without being compared.
\<close>

definition stun_check_integrity :: "stun_env \<Rightarrow> u8 list \<Rightarrow> nat \<Rightarrow> unit option" where
  "stun_check_integrity env req ptr = do {
     let tmplen = unat (of_nat ptr :: u16);
     bs \<leftarrow> mem_read req 0 tmplen;
     tdata \<leftarrow> mem_write (replicate 128 0) 0 bs;
     tdata1 \<leftarrow> put16 tdata 2 (htons (of_nat tmplen - 20 + 24));
     msg_integrity \<leftarrow> jingle_get_hmac_sha1 (md5_stack env) (sha_stack env) (bytes_of ''1234'') (take tmplen tdata1);
     Some ()
   }"

text \<open>The attribute array grows by \<^verbatim>\<open>sizeof(stun_hdr_t) * (attrnum + 2)\<close> bytes, 16 per entry.\<close>

function stun_parse_loop ::
  "stun_env \<Rightarrow> u8 list \<Rightarrow> u8 list option \<Rightarrow> nat \<Rightarrow> stun_packet \<Rightarrow> stun_packet option" where
  "stun_parse_loop env req key ptr pkt =
     (if ptr < pkt_len pkt then do {
        let n = attrnum pkt;
        let as = mem_resize (attr_junk env) (attrs pkt) (20 * (n + 2) div 16);
        t \<leftarrow> get16 req ptr;
        _ \<leftarrow> (if htons t = STUN_MSG_INTEGRITY \<and> key \<noteq> None then stun_check_integrity env req ptr else Some ());
        l \<leftarrow> get16 req (ptr + 2);
        let len = unat (htons l);
        d \<leftarrow> (if len \<noteq> 0 then map_option Some (mem_read req (ptr + 4) len) else Some None);
        let as1 = as[n := \<lparr>attr_type = htons t, attr_len = htons l, attr_data = d\<rparr>];
        let as2 = as1[n + 1 := (as1 ! (n + 1))\<lparr>attr_type := 0\<rparr>];
        stun_parse_loop env req key (ptr + 4 + ADDRLEN_ALIGN len) (pkt\<lparr>attrs := as2, attrnum := n + 1\<rparr>)
      } else Some pkt)"
  by pat_completeness auto
termination
  by (relation "measure (\<lambda>(env, req, key, ptr, pkt). pkt_len pkt - ptr)") auto

declare stun_parse_loop.simps [simp del]

definition stun_packet_from_hdr :: "stun_env \<Rightarrow> u8 list \<Rightarrow> u8 list option \<Rightarrow> stun_packet option" where
  "stun_packet_from_hdr env req key = do {
     raw \<leftarrow> get16 req 2;
     let pkt = \<lparr>pkt_len = 20 + unat (htons raw), attrnum = 0, attrs = [(attr_junk env 0)\<lparr>attr_type := 0\<rparr>]\<rparr>;
     pkt1 \<leftarrow> stun_parse_loop env req key 20 pkt;
     crc \<leftarrow> stun_get_fingerprint env req;
     Some pkt1
   }"

section \<open>The XOR-mapped address\<close>

text \<open>The fields of the socket address hold the network byte order, as the library has them.\<close>

record sockaddr_in =
  sin_port :: u16
  sin_addr :: u32

definition stun_x_mapped :: "sockaddr_in \<Rightarrow> u8 list" where
  "stun_x_mapped saddr =
     (let ip = htonl (sin_addr saddr);
          port = htons (sin_port saddr);
          port1 = htons (port XOR 0x2112);
          ip1 = htonl (ip XOR STUN_M_COOKIE)
      in [0, 1] @ le16 port1 @ le32 ip1)"

definition stun_from_x_mapped :: "u8 list \<Rightarrow> sockaddr_in \<Rightarrow> sockaddr_in option" where
  "stun_from_x_mapped src dst = do {
     p \<leftarrow> get16 src 2;
     a \<leftarrow> get32 src 4;
     let ip = htonl a XOR STUN_M_COOKIE;
     let port = htons p XOR 0x2112;
     Some (dst\<lparr>sin_port := htons port, sin_addr := htonl ip\<rparr>)
   }"

section \<open>Responses and requests\<close>

definition stun_copy_username :: "stun_env \<Rightarrow> stun_packet \<Rightarrow> stun_packet \<Rightarrow> stun_packet option" where
  "stun_copy_username env pkt2 pkt = (case stun_attr_id pkt2 STUN_USERNAME of
       None \<Rightarrow> Some pkt
     | Some i \<Rightarrow> stun_set_attr_d env pkt STUN_USERNAME (unat (attr_len (attrs pkt2 ! i)))
                  (case attr_data (attrs pkt2 ! i) of None \<Rightarrow> [] | Some d \<Rightarrow> d))"

text \<open>The inner option is the returned pointer: null when an argument is null.\<close>

definition stun_get_response ::
  "stun_env \<Rightarrow> u8 list option \<Rightarrow> u8 list option \<Rightarrow> sockaddr_in option \<Rightarrow> u8 list option option" where
  "stun_get_response env stun_key req saddr = (case (stun_key, req, saddr) of
       (Some key, Some rq, Some sa) \<Rightarrow> do {
         pkt2 \<leftarrow> stun_packet_from_hdr env rq (Some key);
         pkt \<leftarrow> stun_set_attr_d env stun_pkt_new STUN_X_MAPPED_ADDRESS 8 (stun_x_mapped sa);
         pkt1 \<leftarrow> stun_copy_username env pkt2 pkt;
         resp \<leftarrow> stun_hdr_from_packet env pkt1;
         resp1 \<leftarrow> put32 resp 4 STUN_NET_M_COOKIE;
         resp2 \<leftarrow> put16 resp1 0 (htons STUN_RESP);
         trans_id \<leftarrow> mem_read rq 8 12;
         resp3 \<leftarrow> mem_write resp2 8 trans_id;
         resp4 \<leftarrow> stun_add_integrity env resp3 key;
         resp5 \<leftarrow> stun_add_crc env resp4;
         Some (Some resp5)
       }
     | _ \<Rightarrow> Some None)"

text \<open>The three results of \<^verbatim>\<open>random()\<close> are arguments.\<close>

definition get_stun_simple_request :: "stun_env \<Rightarrow> u32 \<Rightarrow> u32 \<Rightarrow> u32 \<Rightarrow> u8 list option" where
  "get_stun_simple_request env r1 r2 r3 = do {
     stn_req \<leftarrow> stun_hdr_from_packet env stun_pkt_new;
     q1 \<leftarrow> put32 stn_req 4 STUN_NET_M_COOKIE;
     q2 \<leftarrow> put32 q1 8 r1;
     q3 \<leftarrow> put32 q2 12 r2;
     q4 \<leftarrow> put32 q3 16 r3;
     q5 \<leftarrow> put16 q4 0 (htons STUN_REQ);
     stun_add_crc env q5
   }"

text \<open>\<^verbatim>\<open>snprintf(trans_id, 12, "%12d", n)\<close>: right-aligned digits, cut to eleven characters and a zero.\<close>

fun dec_digits :: "nat \<Rightarrow> u8 list" where
  "dec_digits n = (if n < 10 then [0x30 + of_nat n] else dec_digits (n div 10) @ [0x30 + of_nat (n mod 10)])"

definition stun_trans_id :: "nat \<Rightarrow> u8 list" where
  "stun_trans_id n = (let ds = dec_digits n in take 11 (replicate (12 - length ds) 0x20 @ ds) @ [0])"

text \<open>
  The part the two full requests share: \<open>prio\<close> are the bytes of the local pointer the
  source sends as priority, \<open>val\<close> those of the tie breaker, \<open>rnd\<close> the random transaction number.
\<close>

definition stun_full_request ::
  "stun_env \<Rightarrow> u8 list \<Rightarrow> u8 list \<Rightarrow> nat \<Rightarrow> u8 list \<Rightarrow> u8 list \<Rightarrow> u8 list option" where
  "stun_full_request env prio val rnd user password = do {
     pkt1 \<leftarrow> stun_set_attr_d env stun_pkt_new STUN_PRIORITY 4 prio;
     pkt2 \<leftarrow> stun_set_attr_d env pkt1 STUN_ICE_CONTROLLED 8 val;
     pkt3 \<leftarrow> stun_set_attr_d env pkt2 STUN_USERNAME (length user) user;
     stn_req \<leftarrow> stun_hdr_from_packet env pkt3;
     q1 \<leftarrow> put32 stn_req 4 STUN_NET_M_COOKIE;
     q2 \<leftarrow> put16 q1 0 (htons STUN_REQ);
     q3 \<leftarrow> mem_write q2 8 (stun_trans_id rnd);
     q4 \<leftarrow> stun_add_integrity env q3 password;
     stun_add_crc env q4
   }"

definition get_stun_full_request ::
  "stun_env \<Rightarrow> u8 list \<Rightarrow> u8 list \<Rightarrow> nat \<Rightarrow> u8 list option \<Rightarrow> u8 list option \<Rightarrow> u8 list option
     \<Rightarrow> u8 list option option" where
  "get_stun_full_request env prio val rnd lufrag rufrag rpwd = (case (lufrag, rufrag, rpwd) of
       (Some l, Some r, Some p) \<Rightarrow>
         (let fullfrag = r @ [0x3a] @ l
          in if length fullfrag + 1 > 128 then None
             else map_option Some (stun_full_request env prio val rnd fullfrag p))
     | _ \<Rightarrow> Some None)"

definition get_stun_full_request2 ::
  "stun_env \<Rightarrow> u8 list \<Rightarrow> u8 list \<Rightarrow> nat \<Rightarrow> u8 list option \<Rightarrow> u8 list option \<Rightarrow> u8 list option option" where
  "get_stun_full_request2 env prio val rnd username password = (case (username, password) of
       (Some u, Some p) \<Rightarrow> map_option Some (stun_full_request env prio val rnd u p)
     | _ \<Rightarrow> Some None)"

end
