(* ===== verification/Xw_Store.thy ===== *)
theory Xw_Store
  imports Xw_Prelude
begin

text \<open>
  The contract of the two keyed stores of \<^verbatim>\<open>xwlib\<close> (the attribute list of an object and the
  hash table of class definitions), as a locale: what a lookup returns after an insertion
  or a deletion. The theory \<open>Xw_Utils\<close> interprets it on both models.
\<close>

locale keyed_store =
  fixes inv :: "'s \<Rightarrow> bool"
    and get :: "'s \<Rightarrow> 'k \<Rightarrow> 'v option"
    and put :: "'k \<Rightarrow> 'v \<Rightarrow> 's \<Rightarrow> 's"
    and del :: "'k \<Rightarrow> 's \<Rightarrow> 's"
  assumes inv_put: "inv s \<Longrightarrow> inv (put k v s)"
    and inv_del: "inv s \<Longrightarrow> inv (del k s)"
    and get_put: "inv s \<Longrightarrow> get (put k v s) = (get s)(k \<mapsto> v)"
    and get_del: "inv s \<Longrightarrow> get (del k s) = (get s)(k := None)"
begin

text \<open>A command of the store: store a value, or delete the key.\<close>

definition command :: "'s \<Rightarrow> 'k \<times> 'v option \<Rightarrow> 's" where
  "command s = (\<lambda>(k, v). case v of Some x \<Rightarrow> put k x s | None \<Rightarrow> del k s)"

lemma command_inv: "inv s \<Longrightarrow> inv (command s c)"
  by (cases c) (simp add: command_def inv_put inv_del split: option.split)

lemma command_get: "inv s \<Longrightarrow> get (command s (k, v)) = (get s)(k := v)"
  by (simp add: command_def get_put get_del split: option.split)

lemma commands_inv: "inv s \<Longrightarrow> inv (foldl command s cs)"
  by (induction cs arbitrary: s) (simp_all add: command_inv)

text \<open>After any commands a lookup returns what the last command on the key says.\<close>

lemma commands_get:
  "inv s \<Longrightarrow> get (foldl command s cs) = foldl (\<lambda>m (k, v). m(k := v)) (get s) cs"
  by (induction cs arbitrary: s) (auto simp: command_inv command_get)

end

end
