(* ===== verification/Xw_Utils.thy ===== *)
theory Xw_Utils
  imports Xw_Store
begin

text \<open>
  Model of \<^verbatim>\<open>xwlib/x_utils.c\<close>: the attribute lists and the hash tables. A list of cells is a
  list of pairs, the head cell left out; a result -1 or a null pointer is written out.
\<close>

unbundle bit_operations_syntax

section \<open>Attribute lists\<close>

type_synonym attr_list = "(string \<times> string) list"

text \<open>The cell with a key is given by its position.\<close>

fun attr_find :: "string \<Rightarrow> attr_list \<Rightarrow> nat option" where
  "attr_find k [] = None"
| "attr_find k (p # ps) = (if fst p = k then Some 0 else map_option Suc (attr_find k ps))"

definition get_attr_cell :: "string option \<Rightarrow> attr_list \<Rightarrow> nat option" where
  "get_attr_cell key head = (case key of None \<Rightarrow> None | Some k \<Rightarrow> attr_find k head)"

fun delattr :: "string \<Rightarrow> attr_list \<Rightarrow> int \<times> attr_list" where
  "delattr k [] = (-1, [])"
| "delattr k (p # ps) = (if fst p = k then (0, ps) else (let (r, ps') = delattr k ps in (r, p # ps')))"

text \<open>\<open>mem\<close>: the allocation of a new cell succeeds. A null value deletes the attribute.\<close>

definition setattr :: "bool \<Rightarrow> string \<Rightarrow> string option \<Rightarrow> attr_list \<Rightarrow> int \<times> attr_list" where
  "setattr mem k v head = (case v of
       None \<Rightarrow> (0, snd (delattr k head))
     | Some val \<Rightarrow> (case get_attr_cell (Some k) head of
           None \<Rightarrow> if mem then (0, (k, val) # head) else (-1, head)
         | Some i \<Rightarrow> (0, head[i := (fst (head ! i), val)])))"

fun getattr_loop :: "string \<Rightarrow> attr_list \<Rightarrow> string option" where
  "getattr_loop k [] = None"
| "getattr_loop k (p # ps) = (if fst p = k then Some (snd p) else getattr_loop k ps)"

definition getattr :: "string option \<Rightarrow> attr_list option \<Rightarrow> string option" where
  "getattr key head = (case (key, head) of (Some k, Some h) \<Rightarrow> getattr_loop k h | _ \<Rightarrow> None)"

definition attr_list_clear :: "attr_list \<Rightarrow> attr_list" where
  "attr_list_clear head = []"

definition attr_list_init :: attr_list where
  "attr_list_init = []"

definition attr_list_is_empty :: "attr_list \<Rightarrow> bool" where
  "attr_list_is_empty head \<longleftrightarrow> head = []"

section \<open>Hash tables\<close>

definition HTABLESIZE :: nat where "HTABLESIZE = 64"

type_synonym 'v htable = "(string \<times> 'v) list list"

text \<open>A \<^verbatim>\<open>char\<close> is signed: bytes from 128 on are sign-extended before the XOR.\<close>

definition sext8 :: "char \<Rightarrow> u32" where
  "sext8 c = (if unat (byte_of c) < 128 then ucast (byte_of c) else ucast (byte_of c) OR 0xFFFFFF00)"

definition ht_hash_step :: "u32 \<Rightarrow> char \<Rightarrow> u32" where
  "ht_hash_step i c = (push_bit 1 i OR drop_bit 15 i) XOR sext8 c"

definition ht_hash :: "string \<Rightarrow> nat" where
  "ht_hash key = unat (foldl ht_hash_step 0 key) mod HTABLESIZE"

fun cell_find :: "string \<Rightarrow> (string \<times> 'v) list \<Rightarrow> nat option" where
  "cell_find k [] = None"
| "cell_find k (p # ps) = (if fst p = k then Some 0 else map_option Suc (cell_find k ps))"

text \<open>The result and the index written through \<^verbatim>\<open>indx\<close>.\<close>

definition ht_get_cell :: "string \<Rightarrow> 'v htable \<Rightarrow> nat option \<times> nat" where
  "ht_get_cell key t = (let indx = ht_hash key in (cell_find key (t ! indx), indx))"

fun cell_get :: "(string \<Rightarrow> bool) \<Rightarrow> (string \<times> 'v) list \<Rightarrow> 'v option" where
  "cell_get eq [] = None"
| "cell_get eq (p # ps) = (if eq (fst p) then Some (snd p) else cell_get eq ps)"

definition ht_get :: "string \<Rightarrow> 'v htable \<Rightarrow> 'v option \<times> nat" where
  "ht_get key t = (let indx = ht_hash key in (cell_get (\<lambda>k. k = key) (t ! indx), indx))"

text \<open>\<^theory_text>\<open>None\<close>: the lower-case copy overflows its 512-byte array.\<close>

definition tolower_c :: "char \<Rightarrow> char" where
  "tolower_c c = (if 65 \<le> (of_char c :: nat) \<and> (of_char c :: nat) \<le> 90 then char_of ((of_char c :: nat) + 32) else c)"

definition strcaseeq :: "string \<Rightarrow> string \<Rightarrow> bool" where
  "strcaseeq a b \<longleftrightarrow> map tolower_c a = map tolower_c b"

definition ht_lowcase_get :: "string \<Rightarrow> 'v htable \<Rightarrow> ('v option \<times> nat) option" where
  "ht_lowcase_get key t =
     (if length key + 1 > 512 then None
      else let buf = map tolower_c key; indx = ht_hash buf
           in Some (cell_get (\<lambda>k. strcaseeq k buf) (t ! indx), indx))"

definition ht_set :: "bool \<Rightarrow> string \<Rightarrow> 'v \<Rightarrow> 'v htable \<Rightarrow> 'v htable" where
  "ht_set mem key val t = (case ht_get_cell key t of
       (None, hash) \<Rightarrow> if mem then t[hash := (key, val) # t ! hash] else t
     | (Some i, hash) \<Rightarrow> t[hash := (t ! hash)[i := (fst (t ! hash ! i), val)]])"

fun cell_del :: "string \<Rightarrow> (string \<times> 'v) list \<Rightarrow> int \<times> (string \<times> 'v) list" where
  "cell_del k [] = (0, [])"
| "cell_del k (p # ps) = (if fst p = k then (1, ps) else (let (r, ps') = cell_del k ps in (r, p # ps')))"

definition ht_del :: "string \<Rightarrow> 'v htable \<Rightarrow> int \<times> 'v htable" where
  "ht_del key t = (let indx = ht_hash key; (r, b) = cell_del key (t ! indx) in (r, t[indx := b]))"

text \<open>The iterator: the bucket index (starting at -1) and the cells left in the bucket.\<close>

record 'v ht_celliter =
  ci_index :: int
  ci_ptr :: "(string \<times> 'v) list"

function ht_next :: "'v ht_celliter \<Rightarrow> 'v htable \<Rightarrow> (string \<times> 'v) option \<times> 'v ht_celliter" where
  "ht_next ci t = (case ci_ptr ci of
       p # ps \<Rightarrow> (Some p, ci\<lparr>ci_ptr := ps\<rparr>)
     | [] \<Rightarrow> (let ci' = ci\<lparr>ci_index := ci_index ci + 1\<rparr>
             in if ci_index ci' \<ge> int HTABLESIZE then (None, ci')
                else ht_next (ci'\<lparr>ci_ptr := t ! nat (ci_index ci')\<rparr>) t))"
  by pat_completeness auto
termination
  by (relation "measure (\<lambda>(ci, t). nat (int HTABLESIZE - ci_index ci))") auto

declare ht_next.simps [simp del]

definition ht_nullifyiter :: "'v htable \<Rightarrow> (string \<times> 'v) option \<times> 'v ht_celliter" where
  "ht_nullifyiter t = ht_next \<lparr>ci_index = -1, ci_ptr = []\<rparr> t"

section \<open>Attribute lists are maps\<close>

definition attr_inv :: "attr_list \<Rightarrow> bool" where
  "attr_inv ps \<longleftrightarrow> distinct (map fst ps)"

definition attr_map :: "attr_list \<Rightarrow> string \<Rightarrow> string option" where
  "attr_map ps k = getattr (Some k) (Some ps)"

lemma attr_map_of [xw_abs]: "attr_map ps = map_of ps"
proof
  fix k show "attr_map ps k = map_of ps k"
    by (induction ps) (auto simp: attr_map_def getattr_def)
qed

lemma attr_find_eq: "attr_find k ps = cell_find k ps"
  by (induction ps) auto

lemma cell_find_None: "cell_find k ps = None \<longleftrightarrow> k \<notin> fst ` set ps"
  by (induction ps) auto

lemma cell_find_Some:
  "cell_find k ps = Some i \<Longrightarrow> i < length ps \<and> fst (ps ! i) = k
     \<and> map fst (ps[i := (k, v)]) = map fst ps \<and> map_of (ps[i := (k, v)]) = (map_of ps)(k \<mapsto> v)"
  by (induction ps arbitrary: i) (auto split: if_splits)

text \<open>Storing a pair: replace the cell in place, or put a new one in front.\<close>

definition cell_put :: "string \<Rightarrow> 'v \<Rightarrow> (string \<times> 'v) list \<Rightarrow> (string \<times> 'v) list" where
  "cell_put k v ps = (case cell_find k ps of None \<Rightarrow> (k, v) # ps | Some i \<Rightarrow> ps[i := (fst (ps ! i), v)])"

lemma cell_put_map_of [xw_abs]: "map_of (cell_put k v ps) = (map_of ps)(k \<mapsto> v)"
  by (auto simp: cell_put_def dest: cell_find_Some split: option.split)

lemma cell_put_keys: "set (map fst (cell_put k v ps)) = insert k (set (map fst ps))"
proof (cases "cell_find k ps")
  case (Some i)
  note f = cell_find_Some [OF Some, of v]
  have "k \<in> set (map fst ps)" using f nth_mem [of i "map fst ps"] by simp
  moreover have "map fst (cell_put k v ps) = map fst ps" using f Some by (simp add: cell_put_def)
  ultimately show ?thesis by (simp only:) auto
qed (simp add: cell_put_def)

lemma cell_put_distinct [xw_inv]: "distinct (map fst ps) \<Longrightarrow> distinct (map fst (cell_put k v ps))"
proof (cases "cell_find k ps")
  case None
  then have "k \<notin> fst ` set ps" by (simp add: cell_find_None)
  with None show "distinct (map fst ps) \<Longrightarrow> ?thesis" by (simp add: cell_put_def)
next
  case (Some i)
  then show "distinct (map fst ps) \<Longrightarrow> ?thesis" using cell_find_Some [OF Some, of v] by (simp add: cell_put_def)
qed

lemma cell_del_filter: "distinct (map fst ps) \<Longrightarrow> snd (cell_del k ps) = filter (\<lambda>p. fst p \<noteq> k) ps"
proof (induction ps)
  case (Cons p ps)
  have "filter (\<lambda>p. fst p \<noteq> k) ps = ps" if "fst p = k"
    using Cons.prems that by (auto simp: filter_id_conv image_iff)
  with Cons show ?case by (auto split: prod.splits)
qed simp

lemma map_of_filter_keys: "map_of (filter (\<lambda>p. fst p \<noteq> k) ps) = (map_of ps)(k := None)"
  by (induction ps) (auto simp: fun_eq_iff)

lemma cell_del_distinct:
  "distinct (map fst ps) \<Longrightarrow> distinct (map fst (snd (cell_del k ps)))
     \<and> map_of (snd (cell_del k ps)) = (map_of ps)(k := None)"
  by (simp add: cell_del_filter distinct_map_filter map_of_filter_keys)

lemma delattr_cell_del: "snd (delattr k ps) = snd (cell_del k ps)"
  by (induction ps) (auto split: prod.splits)

lemma setattr_put: "setattr True k (Some v) ps = (0, cell_put k v ps)"
  by (simp add: setattr_def get_attr_cell_def cell_put_def attr_find_eq split: option.split)

definition attr_put :: "string \<Rightarrow> string \<Rightarrow> attr_list \<Rightarrow> attr_list" where
  "attr_put k v ps = snd (setattr True k (Some v) ps)"

definition attr_del :: "string \<Rightarrow> attr_list \<Rightarrow> attr_list" where
  "attr_del k ps = snd (delattr k ps)"

interpretation attrs: keyed_store attr_inv attr_map attr_put attr_del
  by unfold_locales
    (simp_all add: attr_inv_def attr_put_def attr_del_def xw_abs xw_inv setattr_put delattr_cell_del
      cell_del_distinct fun_eq_iff)

lemma setattr_command: "snd (setattr True k v ps) = attrs.command ps (k, v)"
  by (cases v) (simp_all add: attrs.command_def attr_put_def attr_del_def, simp add: setattr_def)

section \<open>Hash tables are maps\<close>

text \<open>Every cell is in the bucket of its key, and no key occurs twice.\<close>

definition ht_inv :: "'v htable \<Rightarrow> bool" where
  "ht_inv t \<longleftrightarrow> length t = HTABLESIZE
     \<and> (\<forall>i < HTABLESIZE. distinct (map fst (t ! i)) \<and> list_all (\<lambda>p. ht_hash (fst p) = i) (t ! i))"

definition ht_map :: "'v htable \<Rightarrow> string \<Rightarrow> 'v option" where
  "ht_map t k = fst (ht_get k t)"

lemma ht_hash_less [simp]: "ht_hash k < HTABLESIZE"
  by (simp add: ht_hash_def HTABLESIZE_def)

lemma cell_get_eq: "cell_get (\<lambda>k. k = key) ps = map_of ps key"
  by (induction ps) auto

lemma ht_map_bucket [xw_abs]: "ht_map t k = map_of (t ! ht_hash k) k"
  by (simp add: ht_map_def ht_get_def Let_def cell_get_eq)

lemma ht_set_put: "ht_set True k v t = t[ht_hash k := cell_put k v (t ! ht_hash k)]"
  by (simp add: ht_set_def ht_get_cell_def Let_def cell_put_def split: option.split)

lemma ht_del_update: "snd (ht_del k t) = t[ht_hash k := snd (cell_del k (t ! ht_hash k))]"
  by (simp add: ht_del_def Let_def split: prod.split)

lemma ht_inv_bucket: "ht_inv t \<Longrightarrow> distinct (map fst (t ! ht_hash k))"
  by (simp add: ht_inv_def)

text \<open>Replacing one bucket by cells that hash there and have distinct keys.\<close>

lemma ht_inv_update:
  assumes "ht_inv t" "distinct (map fst b)" "set (map fst b) \<subseteq> insert k (set (map fst (t ! ht_hash k)))"
  shows "ht_inv (t[ht_hash k := b])"
proof -
  have "ht_hash x = ht_hash k" if "x \<in> set (map fst b)" for x
  proof -
    have "x \<in> insert k (set (map fst (t ! ht_hash k)))" using assms(3) that by blast
    moreover have "list_all (\<lambda>p. ht_hash (fst p) = ht_hash k) (t ! ht_hash k)"
      using assms(1) ht_hash_less [of k] by (simp add: ht_inv_def)
    ultimately show ?thesis by (auto simp: list_all_iff)
  qed
  then have "list_all (\<lambda>p. ht_hash (fst p) = ht_hash k) b" by (auto simp: list_all_iff)
  then show ?thesis using assms by (auto simp: ht_inv_def nth_list_update)
qed

lemma ht_map_update:
  assumes "ht_inv t" "map_of b = (map_of (t ! ht_hash k))(k := v)"
  shows "ht_map (t[ht_hash k := b]) = (ht_map t)(k := v)"
proof
  fix x show "ht_map (t[ht_hash k := b]) x = ((ht_map t)(k := v)) x"
    using assms by (cases "ht_hash x = ht_hash k") (auto simp: ht_map_bucket ht_inv_def)
qed

definition ht_put :: "string \<Rightarrow> 'v \<Rightarrow> 'v htable \<Rightarrow> 'v htable" where
  "ht_put k v t = ht_set True k v t"

definition ht_rem :: "string \<Rightarrow> 'v htable \<Rightarrow> 'v htable" where
  "ht_rem k t = snd (ht_del k t)"

interpretation htab: keyed_store ht_inv ht_map ht_put ht_rem
proof (unfold_locales, unfold ht_put_def ht_rem_def)
  fix t :: "'a htable" and k v
  assume inv: "ht_inv t"
  note d = ht_inv_bucket [OF inv, of k]
  show "ht_inv (ht_set True k v t)"
    unfolding ht_set_put using inv cell_put_distinct [OF d] by (rule ht_inv_update) (simp only: cell_put_keys order_refl)
  show "ht_inv (snd (ht_del k t))"
    unfolding ht_del_update using inv cell_del_distinct [OF d, THEN conjunct1]
    by (rule ht_inv_update) (auto simp: cell_del_filter [OF d])
  show "ht_map (ht_set True k v t) = (ht_map t)(k \<mapsto> v)"
    unfolding ht_set_put using inv by (rule ht_map_update) (simp add: cell_put_map_of)
  show "ht_map (snd (ht_del k t)) = (ht_map t)(k := None)"
    unfolding ht_del_update using inv by (rule ht_map_update) (simp add: cell_del_distinct [OF d])
qed

section \<open>Iteration\<close>

text \<open>Collecting what the iterator returns, at most \<open>n\<close> steps.\<close>

fun ht_collect :: "nat \<Rightarrow> (string \<times> 'v) option \<times> 'v ht_celliter \<Rightarrow> 'v htable \<Rightarrow> (string \<times> 'v) list" where
  "ht_collect n (None, ci) t = []"
| "ht_collect 0 (Some p, ci) t = []"
| "ht_collect (Suc n) (Some p, ci) t = p # ht_collect n (ht_next ci t) t"

text \<open>What is left to visit from an iterator position.\<close>

definition ht_left :: "'v ht_celliter \<Rightarrow> 'v htable \<Rightarrow> (string \<times> 'v) list" where
  "ht_left ci t = ci_ptr ci @ concat (drop (nat (ci_index ci + 1)) t)"

lemma ht_next_left:
  assumes "length t = HTABLESIZE" "-1 \<le> ci_index ci"
  shows "(fst (ht_next ci t) = None \<longrightarrow> ht_left ci t = [])
    \<and> (\<forall>p. fst (ht_next ci t) = Some p \<longrightarrow>
         ht_left ci t = p # ht_left (snd (ht_next ci t)) t \<and> -1 \<le> ci_index (snd (ht_next ci t)))"
  using assms
proof (induction ci t rule: ht_next.induct)
  case (1 ci t)
  show ?case
  proof (cases "ci_ptr ci")
    case (Cons p ps)
    then show ?thesis using 1 by (simp add: ht_next.simps [of ci t] ht_left_def)
  next
    case Nil
    let ?i = "ci_index ci + 1"
    show ?thesis
    proof (cases "?i \<ge> int HTABLESIZE")
      case True
      then have "length t \<le> nat ?i" using 1 by simp
      then show ?thesis using True Nil by (simp add: ht_next.simps [of ci t] ht_left_def)
    next
      case False
      let ?ci = "ci\<lparr>ci_index := ?i, ci_ptr := t ! nat ?i\<rparr>"
      have "nat ?i < length t" using False 1 by simp
      then have "drop (nat ?i) t = t ! nat ?i # drop (Suc (nat ?i)) t" by (rule Cons_nth_drop_Suc [symmetric])
      moreover have "Suc (nat ?i) = nat (?i + 1)" using 1 by simp
      ultimately have "ht_left ci t = ht_left ?ci t" using Nil by (simp add: ht_left_def)
      moreover have "ht_next ci t = ht_next ?ci t" using False Nil by (simp add: ht_next.simps [of ci t])
      ultimately show ?thesis using "1.IH" [OF Nil refl] False "1.prems" by simp
    qed
  qed
qed

lemma ht_collect_left:
  "length t = HTABLESIZE \<Longrightarrow> -1 \<le> ci_index ci \<Longrightarrow> length (ht_left ci t) \<le> n \<Longrightarrow>
     ht_collect n (ht_next ci t) t = ht_left ci t"
proof (induction n arbitrary: ci)
  case 0
  then show ?case using ht_next_left [of t ci] by (cases "ht_next ci t"; cases "fst (ht_next ci t)") auto
next
  case (Suc n)
  then show ?case using ht_next_left [of t ci] by (cases "ht_next ci t"; cases "fst (ht_next ci t)") auto
qed

section \<open>Claims\<close>

text \<open>
  The attribute list is a map: after any sequence of \<^verbatim>\<open>setattr\<close> calls (a null value deletes)
  on an empty list, \<^verbatim>\<open>getattr\<close> returns for every key what the last call on it says, and no key
  has two cells.
\<close>

theorem attrs_last_write_wins:
  "(\<lambda>k. getattr (Some k) (Some (foldl (\<lambda>h (k, v). snd (setattr True k v h)) attr_list_init cmds)))
     = foldl (\<lambda>m (k, v). m(k := v)) Map.empty cmds
   \<and> distinct (map fst (foldl (\<lambda>h (k, v). snd (setattr True k v h)) attr_list_init cmds))"
proof -
  have "(\<lambda>h (k, v). snd (setattr True k v h)) = attrs.command"
    by (auto simp: fun_eq_iff setattr_command)
  moreover have "attr_inv attr_list_init" by (simp add: attr_inv_def attr_list_init_def)
  moreover have "attr_map attr_list_init = Map.empty" by (simp add: attr_map_of attr_list_init_def)
  ultimately show ?thesis
    using attrs.commands_get [of attr_list_init cmds] attrs.commands_inv [of attr_list_init cmds]
    by (simp add: attr_map_def [abs_def] attr_inv_def)
qed

text \<open>
  C32. The hash table is a map: storing changes the lookup of its key only, deleting removes
  it and no other, for any table whose cells sit in the buckets of their keys; both keep
  that invariant, and deletion reports whether the key was there.
\<close>

theorem ht_set_get_del:
  "ht_inv t \<Longrightarrow>
     fst (ht_get j (ht_set True k v t)) = (if j = k then Some v else fst (ht_get j t))
     \<and> fst (ht_get j (snd (ht_del k t))) = (if j = k then None else fst (ht_get j t))
     \<and> (fst (ht_del k t) = 1 \<longleftrightarrow> fst (ht_get k t) \<noteq> None)
     \<and> ht_inv (ht_set True k v t) \<and> ht_inv (snd (ht_del k t))"
proof -
  assume inv: "ht_inv t"
  have "fst (cell_del k ps) = 1 \<longleftrightarrow> map_of ps k \<noteq> None" for ps :: "(string \<times> 'a) list"
    by (induction ps) (auto split: prod.splits)
  then have "fst (ht_del k t) = 1 \<longleftrightarrow> ht_map t k \<noteq> None"
    by (simp add: ht_map_bucket ht_del_def Let_def split: prod.split) (metis fst_conv)
  then show ?thesis
    using htab.get_put [OF inv, of k v] htab.get_del [OF inv, of k] htab.inv_put [OF inv] htab.inv_del [OF inv]
    by (simp add: ht_map_def ht_put_def ht_rem_def fun_eq_iff)
qed

definition ht_empty :: "'v htable" where
  "ht_empty = replicate HTABLESIZE []"

lemma ht_inv_empty: "ht_inv ht_empty"
  by (simp add: ht_inv_def ht_empty_def)

theorem ht_set_get_del_witness:
  "fst (ht_get ''b'' (ht_set True ''a'' (1 :: nat) (ht_set True ''b'' 2 ht_empty))) = Some 2"
  using ht_set_get_del [OF htab.inv_put [OF ht_inv_empty, of "''b''" "2 :: nat"], of "''b''" "''a''" 1]
    ht_set_get_del [OF ht_inv_empty, of "''b''" "''b''" "2 :: nat"] by (simp add: ht_put_def)

text \<open>
  Iterating a table of \<^verbatim>\<open>HTABLESIZE\<close> buckets from \<^verbatim>\<open>ht_nullifyiter\<close> with \<^verbatim>\<open>ht_next\<close> visits every
  cell exactly once, bucket by bucket in list order, and then returns null.
\<close>

theorem ht_iteration_complete:
  "length t = HTABLESIZE \<Longrightarrow> length (concat t) \<le> n \<Longrightarrow> ht_collect n (ht_nullifyiter t) t = concat t"
  unfolding ht_nullifyiter_def by (subst ht_collect_left) (simp_all add: ht_left_def)

theorem ht_iteration_complete_witness:
  "ht_collect 2 (ht_nullifyiter (ht_set True ''b'' (2 :: nat) (ht_empty))) (ht_set True ''b'' 2 ht_empty)
     = concat (ht_set True ''b'' 2 ht_empty)"
proof (rule ht_iteration_complete)
  show "length (ht_set True ''b'' (2 :: nat) ht_empty) = HTABLESIZE"
    by (simp add: ht_set_put ht_empty_def)
  have "length (concat (ht_empty[i := [p]])) \<le> 2" for i and p :: "string \<times> nat"
    by (cases "i < HTABLESIZE")
      (simp_all add: ht_empty_def length_concat map_update sum_list_update sum_list_replicate list_update_beyond)
  then show "length (concat (ht_set True ''b'' (2 :: nat) ht_empty)) \<le> 2"
    by (simp add: ht_set_put ht_empty_def cell_put_def)
qed

definition lower_keys :: "'v htable \<Rightarrow> bool" where
  "lower_keys t \<longleftrightarrow> list_all (list_all (\<lambda>p. map tolower_c (fst p) = fst p)) t"

text \<open>
  The case-insensitive lookup folds the key to lower case before hashing: on a table whose
  keys are all lower case it is the lookup of the folded key, for keys that fit its 512-byte
  buffer.
\<close>

lemma ht_lowcase_get_folds:
  "length t = HTABLESIZE \<Longrightarrow> lower_keys t \<Longrightarrow> length key < 512 \<Longrightarrow>
     ht_lowcase_get key t = Some (ht_get (map tolower_c key) t)"
proof -
  assume t: "length t = HTABLESIZE" and low: "lower_keys t" and key: "length key < 512"
  let ?b = "map tolower_c key"
  have fold: "map tolower_c ?b = ?b"
    by (simp add: tolower_c_def)
  have cells: "cell_get (\<lambda>k. strcaseeq k ?b) ps = cell_get (\<lambda>k. k = ?b) ps"
    if "list_all (\<lambda>p. map tolower_c (fst p) = fst p) ps" for ps :: "(string \<times> 'a) list"
    using that by (induction ps) (simp_all add: strcaseeq_def fold del: map_map)
  have "ht_hash ?b < length t" using t by simp
  then have "list_all (\<lambda>p. map tolower_c (fst p) = fst p) (t ! ht_hash ?b)"
    using low by (simp add: lower_keys_def list_all_length)
  then show ?thesis using key by (simp add: ht_lowcase_get_def ht_get_def Let_def cells del: map_map)
qed

text \<open>Lower-case keys, as a condition on the map.\<close>

lemma lower_keys_iff: "ht_inv t \<Longrightarrow> lower_keys t \<longleftrightarrow> (\<forall>k. ht_map t k \<noteq> None \<longrightarrow> map tolower_c k = k)"
proof
  assume t: "ht_inv t" and low: "lower_keys t"
  show "\<forall>k. ht_map t k \<noteq> None \<longrightarrow> map tolower_c k = k"
  proof (intro allI impI)
    fix k assume "ht_map t k \<noteq> None"
    then obtain v where "(k, v) \<in> set (t ! ht_hash k)" by (auto simp: ht_map_bucket dest: map_of_SomeD)
    moreover have "t ! ht_hash k \<in> set t" using t by (simp add: ht_inv_def)
    ultimately show "map tolower_c k = k" using low by (fastforce simp: lower_keys_def list_all_iff)
  qed
next
  assume t: "ht_inv t" and m: "\<forall>k. ht_map t k \<noteq> None \<longrightarrow> map tolower_c k = k"
  have "map tolower_c (fst p) = fst p" if b: "b \<in> set t" and p: "p \<in> set b" for b p
  proof -
    obtain i where i: "i < HTABLESIZE" "b = t ! i" using b t by (auto simp: in_set_conv_nth ht_inv_def)
    then have "ht_hash (fst p) = i" "distinct (map fst (t ! i))" using t p by (auto simp: ht_inv_def list_all_iff)
    then have "ht_map t (fst p) \<noteq> None" using p i by (auto simp: ht_map_bucket map_of_eq_None_iff)
    then show ?thesis using m by blast
  qed
  then show "lower_keys t" by (simp add: lower_keys_def list_all_iff)
qed

text \<open>
  A key stored with an upper-case letter is out of reach of that lookup whenever its bucket
  differs from the bucket of the folded key, even for the very same spelling.
\<close>

lemma ht_lowcase_get_misses:
  "ht_hash (map tolower_c k) \<noteq> ht_hash k \<Longrightarrow> length k < 512 \<Longrightarrow>
     ht_lowcase_get k (ht_set True k v ht_empty) = Some (None, ht_hash (map tolower_c k))"
  by (simp add: ht_lowcase_get_def Let_def ht_set_put ht_empty_def)

end
