(* ===== verification/Xw_Decimal.thy ===== *)
theory Xw_Decimal
  imports Xw_Prelude
begin

text \<open>
  Decimal numbers in strings, the way the sources move numbers through attributes: what
  \<^verbatim>\<open>sprintf\<close> with \<^verbatim>\<open>%d\<close> or \<^verbatim>\<open>%u\<close> writes and what \<^verbatim>\<open>atoi\<close> reads. A number that does not fit into
  an \<^verbatim>\<open>int\<close> makes \<^verbatim>\<open>atoi\<close> undefined behaviour, \<^theory_text>\<open>None\<close> here.
\<close>

definition digit_char :: "nat \<Rightarrow> char" where
  "digit_char d = char_of (48 + d)"

definition is_digit :: "char \<Rightarrow> bool" where
  "is_digit c = (48 \<le> (of_char c :: nat) \<and> (of_char c :: nat) \<le> 57)"

definition digit_val :: "char \<Rightarrow> int" where
  "digit_val c = of_char c - 48"

fun dec_string :: "nat \<Rightarrow> string" where
  "dec_string n = (if n < 10 then [digit_char n] else dec_string (n div 10) @ [digit_char (n mod 10)])"

declare dec_string.simps [simp del]

definition sprintf_d :: "int \<Rightarrow> string" where
  "sprintf_d i = (if i < 0 then CHR ''-'' # dec_string (nat (- i)) else dec_string (nat i))"

definition digits_value :: "string \<Rightarrow> int" where
  "digits_value s = foldl (\<lambda>v c. 10 * v + digit_val c) 0 (takeWhile is_digit s)"

definition is_space :: "char \<Rightarrow> bool" where
  "is_space c = (c = CHR '' '' \<or> 9 \<le> (of_char c :: nat) \<and> (of_char c :: nat) \<le> 13)"

definition atoi :: "string \<Rightarrow> int option" where
  "atoi s = (let t = dropWhile is_space s;
                 v = (case t of
                        [] \<Rightarrow> 0
                      | c # cs \<Rightarrow> if c = CHR ''-'' then - digits_value cs
                                  else if c = CHR ''+'' then digits_value cs else digits_value t)
             in if - (2 ^ 31) \<le> v \<and> v < 2 ^ 31 then Some v else None)"

lemma digit_char_simps [simp]:
  assumes "d < 10" shows "is_digit (digit_char d)" "digit_val (digit_char d) = int d" "\<not> is_space (digit_char d)"
    "digit_char d \<noteq> CHR ''-''" "digit_char d \<noteq> CHR ''+''"
proof -
  have n: "(of_char (digit_char d) :: nat) = 48 + d" using assms by (simp add: digit_char_def)
  have "(of_char (digit_char d) :: int) = of_nat (of_char (digit_char d))" by (rule of_nat_of_char [symmetric])
  then have "(of_char (digit_char d) :: int) = 48 + int d" unfolding n by simp
  moreover note n
  moreover have "(of_char (CHR ''-'') :: nat) = 45" "(of_char (CHR ''+'') :: nat) = 43" "(of_char (CHR '' '') :: nat) = 32"
    by simp_all
  ultimately show "is_digit (digit_char d)" "digit_val (digit_char d) = int d" "\<not> is_space (digit_char d)"
    "digit_char d \<noteq> CHR ''-''" "digit_char d \<noteq> CHR ''+''"
    using assms by (auto simp: is_digit_def digit_val_def is_space_def)
qed

lemma dec_string_digits: "\<forall>c \<in> set (dec_string n). is_digit c"
  by (induction n rule: dec_string.induct) (subst dec_string.simps, auto)

lemma dec_string_value: "foldl (\<lambda>v c. 10 * v + digit_val c) 0 (dec_string n) = int n"
proof (induction n rule: dec_string.induct)
  case (1 n)
  show ?case
  proof (cases "n < 10")
    case False
    then show ?thesis using 1 by (subst dec_string.simps) (simp add: zdiv_int zmod_int)
  qed (subst dec_string.simps, simp)
qed

lemma dec_string_first: "\<exists>d cs. d < 10 \<and> dec_string n = digit_char d # cs"
proof (induction n rule: dec_string.induct)
  case (1 n)
  then show ?case by (subst dec_string.simps) (cases "n < 10"; force)
qed

lemma digits_value_dec [simp]: "digits_value (dec_string n) = int n"
proof -
  have "takeWhile is_digit (dec_string n) = dec_string n" using dec_string_digits by (simp add: takeWhile_eq_all_conv)
  then show ?thesis by (simp only: digits_value_def dec_string_value)
qed

text \<open>What is printed is read back.\<close>

lemma atoi_sprintf:
  assumes "- (2 ^ 31) \<le> i" "i < 2 ^ 31"
  shows "atoi (sprintf_d i) = Some i"
proof -
  obtain d cs where d: "d < 10" "dec_string (nat i) = digit_char d # cs" using dec_string_first by blast
  have "digits_value (digit_char d # cs) = int (nat i)" unfolding d(2) [symmetric] by simp
  moreover have "\<not> is_space (CHR ''-'')" by (simp add: is_space_def)
  ultimately show ?thesis using assms d by (simp add: atoi_def sprintf_d_def)
qed

end
