(* ===== verification/Media_Base.thy ===== *)
theory Media_Base
  imports Xw_Utils Xw_Decimal
begin

text \<open>
  What the two video codecs share: the packets they write to the next object of the chain, and
  the attributes that go with a packet.
\<close>

text \<open>
  What is handed to the next object: the attributes that describe the packet, and its bytes.
\<close>

type_synonym media_write = "attr_list \<times> u8 list"

definition set_hint :: "string \<Rightarrow> string \<Rightarrow> attr_list \<Rightarrow> attr_list" where
  "set_hint k v hints = snd (setattr True k (Some v) hints)"

text \<open>The low 32 bits of a \<^verbatim>\<open>long\<close> that is printed with \<^verbatim>\<open>%d\<close>.\<close>

definition low_int :: "int \<Rightarrow> int" where
  "low_int i = sint (word_of_int i :: u32)"

end
