(* ===== verification/Xw_String.thy ===== *)
theory Xw_String
  imports Xw_Prelude
begin

text \<open>
  Model of \<^verbatim>\<open>xwlib/x_string.c\<close>, the self-growing strings: the capacity and position are 32-bit,
  the buffer is a block of memory or one of the two pointers that are not (null, and the
  uninitialised one of a fresh object). \<^theory_text>\<open>None\<close> is undefined behaviour.
\<close>

unbundle bit_operations_syntax

section \<open>State and operations\<close>

datatype cptr = Wild | Null | Block "char list"

record x_string =
  capacity :: u32
  pos :: u32
  cbuf :: cptr

definition X_STR_BUFSIZ :: u32 where "X_STR_BUFSIZ = 0x20"

definition NUL :: char where "NUL = char_of (0 :: nat)"

definition X_STRING_STATIC_INIT :: x_string where
  "X_STRING_STATIC_INIT = \<lparr>capacity = 0, pos = 0, cbuf = Null\<rparr>"

text \<open>\<^verbatim>\<open>x_realloc\<close>: fresh cells hold \<open>junk\<close>.\<close>

definition cptr_realloc :: "(nat \<Rightarrow> char) \<Rightarrow> cptr \<Rightarrow> u32 \<Rightarrow> cptr option" where
  "cptr_realloc junk p n = (case p of
       Wild \<Rightarrow> None
     | Null \<Rightarrow> Some (Block (mem_resize junk [] (unat n)))
     | Block b \<Rightarrow> Some (Block (mem_resize junk b (unat n))))"

definition cptr_write :: "cptr \<Rightarrow> u32 \<Rightarrow> char list \<Rightarrow> cptr option" where
  "cptr_write p off xs = (case p of Block b \<Rightarrow> map_option Block (mem_write b (unat off) xs) | _ \<Rightarrow> None)"

definition x_string_check_capacity :: "(nat \<Rightarrow> char) \<Rightarrow> x_string \<Rightarrow> u32 \<Rightarrow> x_string option" where
  "x_string_check_capacity junk xstr extracapacity =
     (if capacity xstr \<le> pos xstr + extracapacity + 1 then do {
        let cap = capacity xstr + (X_STR_BUFSIZ + extracapacity + 1);
        p \<leftarrow> cptr_realloc junk (cbuf xstr) cap;
        Some (xstr\<lparr>capacity := cap, cbuf := p\<rparr>)
      } else Some xstr)"

definition x_string_new :: x_string where
  "x_string_new = \<lparr>capacity = 0, pos = 0, cbuf = Wild\<rparr>"

definition x_string_clear :: "(nat \<Rightarrow> char) \<Rightarrow> x_string \<Rightarrow> x_string option" where
  "x_string_clear junk xstr = do {
     p \<leftarrow> (if capacity xstr XOR X_STR_BUFSIZ \<noteq> 0 then cptr_realloc junk (cbuf xstr) X_STR_BUFSIZ
          else Some (cbuf xstr));
     Some \<lparr>capacity = X_STR_BUFSIZ, pos = 0, cbuf = p\<rparr>
   }"

definition x_string_trunc :: "x_string \<Rightarrow> x_string option" where
  "x_string_trunc xstr = (if cbuf xstr = Wild then None else Some \<lparr>capacity = 0, pos = 0, cbuf = Null\<rparr>)"

definition x_string_rew :: "x_string \<Rightarrow> x_string" where
  "x_string_rew xstr = xstr\<lparr>pos := 0\<rparr>"

text \<open>The destructor frees what it is given; freeing an uninitialised pointer is undefined.\<close>

definition x_string_delete :: "x_string option \<Rightarrow> unit option" where
  "x_string_delete xstr = (case xstr of Some x \<Rightarrow> if cbuf x = Wild then None else Some () | None \<Rightarrow> Some ())"

definition x_string_putc :: "(nat \<Rightarrow> char) \<Rightarrow> x_string \<Rightarrow> char \<Rightarrow> x_string option" where
  "x_string_putc junk xstr c = do {
     x1 \<leftarrow> x_string_check_capacity junk xstr 1;
     p1 \<leftarrow> cptr_write (cbuf x1) (pos x1) [c];
     let ps = pos x1 + 1;
     p2 \<leftarrow> cptr_write p1 ps [NUL];
     Some (x1\<lparr>pos := ps, cbuf := p2\<rparr>)
   }"

definition x_string_write :: "(nat \<Rightarrow> char) \<Rightarrow> x_string \<Rightarrow> char list \<Rightarrow> nat \<Rightarrow> x_string option" where
  "x_string_write junk xstr s siz = do {
     x1 \<leftarrow> x_string_check_capacity junk xstr (of_nat siz);
     bs \<leftarrow> mem_read s 0 siz;
     p1 \<leftarrow> cptr_write (cbuf x1) (pos x1) bs;
     let ps = pos x1 + of_nat siz;
     p2 \<leftarrow> cptr_write p1 ps [NUL];
     Some (x1\<lparr>pos := ps, cbuf := p2\<rparr>)
   }"

section \<open>What a string holds\<close>

definition xs_block :: "x_string \<Rightarrow> char list" where
  "xs_block x = (case cbuf x of Block b \<Rightarrow> b | _ \<Rightarrow> [])"

definition xs_str :: "x_string \<Rightarrow> string" where
  "xs_str x = take (unat (pos x)) (xs_block x)"

text \<open>The C string at the buffer, up to the first zero byte.\<close>

definition xs_cstr :: "x_string \<Rightarrow> string" where
  "xs_cstr x = takeWhile (\<lambda>c. c \<noteq> NUL) (xs_block x)"

definition xs_ok :: "x_string \<Rightarrow> bool" where
  "xs_ok x \<longleftrightarrow> cbuf x \<noteq> Wild \<and> length (xs_block x) = unat (capacity x)
     \<and> (if cbuf x = Null then pos x = 0 else unat (pos x) < unat (capacity x))"

lemma xs_ok_pos: "xs_ok x \<Longrightarrow> unat (pos x) \<le> unat (capacity x)"
  by (auto simp: xs_ok_def split: if_splits)

lemma xs_ok_init: "xs_ok X_STRING_STATIC_INIT" "xs_str X_STRING_STATIC_INIT = []"
  by (simp_all add: xs_ok_def X_STRING_STATIC_INIT_def xs_str_def xs_block_def)

lemma unat_add_u32: "unat a + unat b < 2 ^ 32 \<Longrightarrow> unat (a + b) = unat a + unat b" for a b :: u32
  by (simp add: unat_word_ariths)

text \<open>Reserving room keeps the contents and makes the buffer long enough.\<close>

lemma check_capacity_room:
  assumes ok: "xs_ok x" and fit: "unat (capacity x) + n + 33 < 2 ^ 32" and e: "e = of_nat n"
  obtains x' where "x_string_check_capacity junk x e = Some x'" "xs_str x' = xs_str x" "pos x' = pos x"
    "cbuf x' = Block (xs_block x')" "length (xs_block x') = unat (capacity x')"
    "unat (pos x) + n + 1 < unat (capacity x')" "unat (capacity x') \<le> unat (capacity x) + n + 33"
proof -
  have n: "unat e = n" unfolding e using fit by (intro unat_of_nat_u32) simp
  have p: "unat (pos x) \<le> unat (capacity x)" using ok by (rule xs_ok_pos)
  have sum: "unat (pos x + e + 1) = unat (pos x) + n + 1"
    using p fit n by (simp add: unat_add_u32)
  show ?thesis
  proof (cases "capacity x \<le> pos x + e + 1")
    case False
    then have room: "unat (pos x) + n + 1 < unat (capacity x)"
      using sum by (simp add: word_le_nat_alt)
    then have "cbuf x \<noteq> Null" using ok by (auto simp: xs_ok_def xs_block_def)
    then have "cbuf x = Block (xs_block x)" using ok by (cases "cbuf x") (auto simp: xs_ok_def xs_block_def)
    then show ?thesis
      using False room ok by (intro that [of x]) (auto simp: x_string_check_capacity_def xs_ok_def)
  next
    case True
    let ?cap = "capacity x + (X_STR_BUFSIZ + e + 1)"
    let ?b = "mem_resize junk (xs_block x) (unat ?cap)"
    let ?x = "x\<lparr>capacity := ?cap, cbuf := Block ?b\<rparr>"
    have cap: "unat ?cap = unat (capacity x) + n + 33"
      using fit n by (simp add: unat_add_u32 X_STR_BUFSIZ_def)
    have "cptr_realloc junk (cbuf x) ?cap = Some (Block ?b)"
      using ok by (auto simp: cptr_realloc_def xs_ok_def xs_block_def split: cptr.splits)
    moreover have "take (unat (pos x)) ?b = take (unat (pos x)) (xs_block x)"
      using p ok cap by (simp add: mem_resize_def xs_ok_def min_def)
    ultimately show ?thesis
      using True p cap by (intro that [of ?x]) (simp_all add: x_string_check_capacity_def xs_str_def xs_block_def)
  qed
qed

text \<open>The common part of \<^verbatim>\<open>x_string_putc\<close> and \<^verbatim>\<open>x_string_write\<close>.\<close>

lemma cptr_write_end:
  assumes "length b = cap" "p + length xs + 1 < cap" "unat w = p" "unat w' = p + length xs" "p \<le> cap"
  shows "do { p1 \<leftarrow> cptr_write (Block b) w xs; cptr_write p1 w' [NUL] }
    = Some (Block (take p b @ xs @ [NUL] @ drop (p + length xs + 1) b))"
  using assms by (simp add: cptr_write_def mem_write_def buf_put_def min_def)

lemma xs_append:
  assumes "x' = \<lparr>capacity = c, pos = w', cbuf = Block (take p b @ xs @ [NUL] @ drop (p + length xs + 1) b)\<rparr>"
    "length b = unat c" "p + length xs + 1 < unat c" "unat w' = p + length xs"
  shows "xs_ok x'" "xs_str x' = take p b @ xs" "xs_block x' ! unat (pos x') = NUL"
  using assms by (auto simp: xs_ok_def xs_str_def xs_block_def nth_append min_def)

lemma x_string_write_ok:
  assumes ok: "xs_ok x" and fit: "unat (capacity x) + siz + 33 < 2 ^ 32" and s: "siz \<le> length s"
  obtains x' where "x_string_write junk x s siz = Some x'" "xs_ok x'" "xs_str x' = xs_str x @ take siz s"
    "xs_block x' ! unat (pos x') = NUL" "unat (capacity x') \<le> unat (capacity x) + siz + 33"
proof -
  obtain x1 where x1: "x_string_check_capacity junk x (of_nat siz) = Some x1" "xs_str x1 = xs_str x" "pos x1 = pos x"
    "cbuf x1 = Block (xs_block x1)" "length (xs_block x1) = unat (capacity x1)"
    "unat (pos x) + siz + 1 < unat (capacity x1)" "unat (capacity x1) \<le> unat (capacity x) + siz + 33"
    by (rule check_capacity_room [OF ok fit refl])
  have w: "unat (pos x + of_nat siz) = unat (pos x) + siz"
    using x1(6,7) fit by (subst unat_add_u32) (simp_all add: unat_of_nat_u32)
  let ?b = "take (unat (pos x)) (xs_block x1) @ take siz s @ [NUL] @ drop (unat (pos x) + siz + 1) (xs_block x1)"
  let ?x = "\<lparr>capacity = capacity x1, pos = pos x + of_nat siz, cbuf = Block ?b\<rparr>"
  have "do { p1 \<leftarrow> cptr_write (cbuf x1) (pos x) (take siz s); cptr_write p1 (pos x + of_nat siz) [NUL] } = Some (Block ?b)"
    using cptr_write_end [OF x1(5), of "unat (pos x)" "take siz s" "pos x" "pos x + of_nat siz"] x1(4,6) w s
    by (simp add: min_def)
  then have "x_string_write junk x s siz = Some ?x"
    using s x1(1,3) by (cases x1) (auto simp: x_string_write_def mem_read_def bind_eq_Some_conv)
  moreover note xs_append [of ?x "capacity x1" "pos x + of_nat siz" "unat (pos x)" "xs_block x1" "take siz s"]
  ultimately show ?thesis
    using x1 w s by (intro that [of ?x]) (simp_all add: min_def xs_str_def [of x1])
qed

lemma x_string_putc_write: "x_string_putc junk x c = x_string_write junk x [c] 1"
  by (simp add: x_string_putc_def x_string_write_def mem_read_def)

lemma x_string_clear_ok:
  assumes ok: "xs_ok x"
  obtains x' where "x_string_clear junk x = Some x'" "xs_ok x'" "xs_str x' = []" "unat (capacity x') = 32"
proof -
  let ?p = "if capacity x XOR X_STR_BUFSIZ \<noteq> 0 then Block (mem_resize junk (xs_block x) 32) else cbuf x"
  let ?x = "\<lparr>capacity = X_STR_BUFSIZ, pos = 0, cbuf = ?p\<rparr>"
  have xor: "capacity x XOR X_STR_BUFSIZ = 0 \<longleftrightarrow> capacity x = X_STR_BUFSIZ"
    by (metis xor_self_eq xor_cancel_right)
  have "x_string_clear junk x = Some ?x"
    using ok by (auto simp: x_string_clear_def cptr_realloc_def xs_ok_def xs_block_def X_STR_BUFSIZ_def split: cptr.splits)
  moreover have "xs_ok ?x"
    using ok xor by (auto simp: xs_ok_def xs_block_def X_STR_BUFSIZ_def split: cptr.splits)
  ultimately show ?thesis by (intro that [of ?x]) (simp_all add: xs_str_def X_STR_BUFSIZ_def)
qed

section \<open>Histories of a string\<close>

datatype xs_op = XPutc char | XWrite string | XClear | XTrunc | XRew

fun xs_step :: "(nat \<Rightarrow> char) \<Rightarrow> x_string \<Rightarrow> xs_op \<Rightarrow> x_string option" where
  "xs_step junk x (XPutc c) = x_string_putc junk x c"
| "xs_step junk x (XWrite s) = x_string_write junk x s (length s)"
| "xs_step junk x XClear = x_string_clear junk x"
| "xs_step junk x XTrunc = x_string_trunc x"
| "xs_step junk x XRew = Some (x_string_rew x)"

fun xs_run :: "(nat \<Rightarrow> char) \<Rightarrow> x_string \<Rightarrow> xs_op list \<Rightarrow> x_string option" where
  "xs_run junk x [] = Some x"
| "xs_run junk x (op # ops) = do { x' \<leftarrow> xs_step junk x op; xs_run junk x' ops }"

text \<open>The abstract string, and a bound on the growth of the capacity.\<close>

fun xs_spec :: "string \<Rightarrow> xs_op \<Rightarrow> string" where
  "xs_spec s (XPutc c) = s @ [c]"
| "xs_spec s (XWrite t) = s @ t"
| "xs_spec s XClear = []"
| "xs_spec s XTrunc = []"
| "xs_spec s XRew = []"

fun xs_cost :: "xs_op \<Rightarrow> nat" where
  "xs_cost (XPutc c) = 34"
| "xs_cost (XWrite t) = length t + 33"
| "xs_cost XClear = 32"
| "xs_cost XTrunc = 0"
| "xs_cost XRew = 0"

lemma xs_step_ok:
  assumes ok: "xs_ok x" and fit: "unat (capacity x) + xs_cost op < 2 ^ 32"
  obtains x' where "xs_step junk x op = Some x'" "xs_ok x'" "xs_str x' = xs_spec (xs_str x) op"
    "unat (capacity x') \<le> unat (capacity x) + xs_cost op"
proof (cases op)
  case (XPutc c)
  obtain x' where "x_string_write junk x [c] 1 = Some x'" "xs_ok x'" "xs_str x' = xs_str x @ take 1 [c]"
    "unat (capacity x') \<le> unat (capacity x) + 1 + 33"
    by (rule x_string_write_ok [OF ok, of 1 "[c]" junk]) (use fit XPutc in simp_all)
  then show ?thesis using XPutc by (intro that [of x']) (simp_all add: x_string_putc_write)
next
  case (XWrite t)
  obtain x' where "x_string_write junk x t (length t) = Some x'" "xs_ok x'" "xs_str x' = xs_str x @ take (length t) t"
    "unat (capacity x') \<le> unat (capacity x) + length t + 33"
    by (rule x_string_write_ok [OF ok, of "length t" t junk]) (use fit XWrite in simp_all)
  then show ?thesis using XWrite by (intro that [of x']) simp_all
next
  case XClear
  obtain x' where "x_string_clear junk x = Some x'" "xs_ok x'" "xs_str x' = []" "unat (capacity x') = 32"
    by (rule x_string_clear_ok [OF ok])
  then show ?thesis using XClear by (intro that [of x']) simp_all
next
  case XTrunc
  then show ?thesis using ok
    by (intro that [of "\<lparr>capacity = 0, pos = 0, cbuf = Null\<rparr>"])
      (simp_all add: x_string_trunc_def xs_ok_def xs_str_def xs_block_def)
next
  case XRew
  then show ?thesis using ok
    by (intro that [of "x\<lparr>pos := 0\<rparr>"]) (auto simp: x_string_rew_def xs_ok_def xs_str_def xs_block_def split: if_splits)
qed

lemma xs_run_ok:
  "xs_ok x \<Longrightarrow> unat (capacity x) + sum_list (map xs_cost ops) < 2 ^ 32 \<Longrightarrow>
     \<exists>x'. xs_run junk x ops = Some x' \<and> xs_ok x' \<and> xs_str x' = foldl xs_spec (xs_str x) ops"
proof (induction ops arbitrary: x)
  case (Cons op ops)
  obtain x' where x': "xs_step junk x op = Some x'" "xs_ok x'" "xs_str x' = xs_spec (xs_str x) op"
    "unat (capacity x') \<le> unat (capacity x) + xs_cost op"
    by (rule xs_step_ok [OF Cons.prems(1), of op junk]) (use Cons.prems(2) in simp)
  then show ?case using Cons.IH [of x'] Cons.prems(2) by simp
qed simp

section \<open>Claims\<close>

text \<open>
  C31. A string starting from \<^verbatim>\<open>X_STRING_STATIC_INIT\<close> implements the abstract string: any sequence
  of appends, clears, truncations and rewinds whose total size stays below \<open>2 ^ 32\<close> runs
  without an access outside the buffer, and the characters before the position are those of
  the abstract history, whatever fresh memory contains.
\<close>

theorem x_string_history:
  "sum_list (map xs_cost ops) < 2 ^ 32 \<Longrightarrow>
     \<exists>x. xs_run junk X_STRING_STATIC_INIT ops = Some x \<and> xs_ok x \<and> xs_str x = foldl xs_spec [] ops"
  using xs_run_ok [of X_STRING_STATIC_INIT ops junk] xs_ok_init
  by (simp add: X_STRING_STATIC_INIT_def)

theorem x_string_history_witness:
  "\<exists>x. xs_run (\<lambda>i. CHR ''?'') X_STRING_STATIC_INIT [XWrite ''ab'', XClear, XPutc CHR ''c'', XWrite ''de''] = Some x
     \<and> xs_ok x \<and> xs_str x = ''cde''"
  using x_string_history [of "[XWrite ''ab'', XClear, XPutc CHR ''c'', XWrite ''de'']"] by simp

text \<open>
  Appending keeps the buffer a C string: after \<^verbatim>\<open>x_string_write\<close> to a string, if neither
  contains a zero byte, the C string at the buffer is the old contents followed by the new.
\<close>

theorem x_string_write_cstr:
  "xs_ok x \<Longrightarrow> unat (capacity x) + length s + 33 < 2 ^ 32 \<Longrightarrow> list_all (\<lambda>c. c \<noteq> NUL) (xs_str x @ s) \<Longrightarrow>
     \<exists>x'. x_string_write junk x s (length s) = Some x' \<and> xs_cstr x' = xs_str x @ s"
proof -
  assume ok: "xs_ok x" and fit: "unat (capacity x) + length s + 33 < 2 ^ 32" and nz: "list_all (\<lambda>c. c \<noteq> NUL) (xs_str x @ s)"
  obtain x' where x': "x_string_write junk x s (length s) = Some x'" "xs_ok x'" "xs_str x' = xs_str x @ take (length s) s"
    "xs_block x' ! unat (pos x') = NUL"
    by (rule x_string_write_ok [OF ok fit, of s junk]) simp_all
  have len: "unat (pos x') < length (xs_block x') \<or> (unat (pos x') = 0 \<and> xs_block x' = [])"
    using x'(2) by (auto simp: xs_ok_def xs_block_def split: if_splits cptr.splits)
  have "takeWhile (\<lambda>c. c \<noteq> NUL) (xs_block x') = take (unat (pos x')) (xs_block x')"
    using len
  proof
    assume l: "unat (pos x') < length (xs_block x')"
    show ?thesis
    proof (rule takeWhile_eq_take_P_nth)
      fix i assume i: "i < unat (pos x')" "i < length (xs_block x')"
      have "xs_str x' = xs_str x @ s" using x'(3) by simp
      then have "list_all (\<lambda>c. c \<noteq> NUL) (take (unat (pos x')) (xs_block x'))"
        using nz unfolding xs_str_def [of x'] by (simp only:)
      then show "xs_block x' ! i \<noteq> NUL" using i by (simp add: list_all_length)
    qed (use x'(4) in simp)
  qed simp
  then have "xs_cstr x' = xs_str x'" by (simp add: xs_cstr_def xs_str_def)
  then show ?thesis using x' by auto
qed

theorem x_string_write_cstr_witness:
  "\<exists>x'. x_string_write (\<lambda>i. CHR ''?'') X_STRING_STATIC_INIT ''hi'' (length ''hi'') = Some x' \<and> xs_cstr x' = ''hi''"
proof -
  have "list_all (\<lambda>c. c \<noteq> NUL) ''hi''" by code_simp
  then show ?thesis
    using x_string_write_cstr [of X_STRING_STATIC_INIT "''hi''" "\<lambda>i. CHR ''?''"] xs_ok_init
    by (simp add: X_STRING_STATIC_INIT_def)
qed

text \<open>
  Clearing resets the position only. A buffer of the standard size keeps its old C string,
  so a reader of the buffer sees stale contents until the next append.
\<close>

lemma x_string_clear_stale:
  "capacity x = X_STR_BUFSIZ \<Longrightarrow> \<exists>x'. x_string_clear junk x = Some x' \<and> xs_cstr x' = xs_cstr x"
  by (simp add: x_string_clear_def xs_cstr_def xs_block_def)

text \<open>The first append to a string from \<^verbatim>\<open>x_string_new\<close> reallocates an uninitialised pointer.\<close>

lemma x_string_new_wild: "x_string_putc junk x_string_new c = None"
  by (simp add: x_string_putc_def x_string_check_capacity_def x_string_new_def cptr_realloc_def)

end
