(* ===== verification/Xw_Obj.thy ===== *)
theory Xw_Obj
  imports Xw_Utils Xw_String Xw_Decimal
begin

text \<open>
  Model of the object tree of \<^verbatim>\<open>xwlib/x_obj.c\<close>: a heap of objects, the links between them, the
  reference counts, and the operations of the file on them. The result \<^theory_text>\<open>None\<close> is an access
  to memory that is not an object, or a walk along links that does not end. Classes are the
  plugins' tables of functions: the environment maps a class number to its callbacks. The
  locks of the objects are left out: the operations run one at a time.
\<close>

unbundle bit_operations_syntax

section \<open>Objects and the heap\<close>

record xobject =
  o_name :: "string option"
  o_attrs :: attr_list
  o_content :: x_string
  o_bus :: ptr
  o_cr :: u32
  o_life :: int
  o_refs :: int
  o_class :: "nat option"
  o_parent :: ptr
  o_next :: ptr
  o_sibling :: ptr
  o_sons :: ptr
  o_count :: int
  o_assigns :: u32
  o_handler :: ptr
  o_writeout :: "addr list"
  o_listeners :: "addr list"
  o_extra :: u32

text \<open>\<open>brk\<close> is the next address the allocator returns.\<close>

record heap =
  objs :: "addr \<Rightarrow> xobject option"
  brk :: addr

definition upd :: "heap \<Rightarrow> addr \<Rightarrow> (xobject \<Rightarrow> xobject) \<Rightarrow> heap option" where
  "upd h a f = (case objs h a of None \<Rightarrow> None | Some ob \<Rightarrow> Some (h\<lparr>objs := (objs h)(a \<mapsto> f ob)\<rparr>))"

definition fld :: "heap \<Rightarrow> addr \<Rightarrow> (xobject \<Rightarrow> 'a) \<Rightarrow> 'a option" where
  "fld h a f = map_option f (objs h a)"

section \<open>Classes\<close>

type_synonym cb1 = "addr \<Rightarrow> heap \<Rightarrow> heap option"
type_synonym cb2 = "addr \<Rightarrow> addr \<Rightarrow> heap \<Rightarrow> heap option"

record xclass =
  cname :: string
  psize :: u32
  c_match :: "(addr \<Rightarrow> attr_list option \<Rightarrow> heap \<Rightarrow> (bool \<times> heap) option) option"
  on_create :: "cb1 option"
  on_append :: "cb2 option"
  on_remove :: "cb1 option"
  on_tree_destroy :: "cb1 option"
  on_child_append :: "cb2 option"
  on_child_remove :: "cb2 option"
  on_release :: "cb1 option"
  on_assign :: "(addr \<Rightarrow> attr_list \<Rightarrow> heap \<Rightarrow> heap option) option"
  c_commit :: "cb1 option"
  c_tx :: "(addr \<Rightarrow> addr \<Rightarrow> attr_list option \<Rightarrow> heap \<Rightarrow> (int \<times> heap) option) option"
  c_rx :: "(addr \<Rightarrow> addr \<Rightarrow> addr \<Rightarrow> heap \<Rightarrow> heap option) option"
  try_write :: "(addr \<Rightarrow> string \<Rightarrow> attr_list option \<Rightarrow> heap \<Rightarrow> (int \<times> heap) option) option"
  try_writev :: "(addr \<Rightarrow> string list \<Rightarrow> attr_list option \<Rightarrow> heap \<Rightarrow> (int \<times> heap) option) option"
  try_writev2 :: "(addr \<Rightarrow> int \<Rightarrow> string list \<Rightarrow> attr_list option \<Rightarrow> heap \<Rightarrow> (int \<times> heap) option) option"

text \<open>
  What the file takes from elsewhere: the classes, the class lookup of the object factory,
  the notification of path listeners, and the contents of fresh memory.
\<close>

record obj_env =
  cls :: "nat \<Rightarrow> xclass"
  get_class :: "string \<Rightarrow> string option \<Rightarrow> attr_list option \<Rightarrow> bool \<Rightarrow> nat option"
  path_notify :: "string option \<Rightarrow> addr \<Rightarrow> heap \<Rightarrow> heap option"
  cjunk :: "nat \<Rightarrow> char"

text \<open>The callback an object's class has in a slot, if it has a class and the slot is set.\<close>

definition slot :: "obj_env \<Rightarrow> (xclass \<Rightarrow> 'a option) \<Rightarrow> xobject \<Rightarrow> 'a option" where
  "slot env sel ob = (case o_class ob of None \<Rightarrow> None | Some c \<Rightarrow> sel (cls env c))"

definition call1 :: "obj_env \<Rightarrow> (xclass \<Rightarrow> cb1 option) \<Rightarrow> addr \<Rightarrow> heap \<Rightarrow> heap option" where
  "call1 env sel a h = do { ob \<leftarrow> objs h a; case slot env sel ob of None \<Rightarrow> Some h | Some f \<Rightarrow> f a h }"

definition call2 :: "obj_env \<Rightarrow> (xclass \<Rightarrow> cb2 option) \<Rightarrow> addr \<Rightarrow> addr \<Rightarrow> heap \<Rightarrow> heap option" where
  "call2 env sel a b h = do { ob \<leftarrow> objs h a; case slot env sel ob of None \<Rightarrow> Some h | Some f \<Rightarrow> f a b h }"

section \<open>Names\<close>

definition strcspn :: "string \<Rightarrow> char set \<Rightarrow> nat" where
  "strcspn s cs = length (takeWhile (\<lambda>c. c \<notin> cs) s)"

definition strncaseeq :: "string \<Rightarrow> string \<Rightarrow> nat \<Rightarrow> bool" where
  "strncaseeq a b n \<longleftrightarrow> map tolower_c (take n a) = map tolower_c (take n b)"

definition LF :: char where "LF = char_of (10 :: nat)"
definition CR :: char where "CR = char_of (13 :: nat)"

text \<open>The comparison of a child's name with the requested one looks at the child's name only as far as it goes.\<close>

definition EQN :: "string \<Rightarrow> string \<Rightarrow> bool" where
  "EQN s1 s2 \<longleftrightarrow> strncaseeq s1 s2 (strcspn s1 {LF, CR})"

definition x_object_get_name :: "heap \<Rightarrow> addr \<Rightarrow> string option option" where
  "x_object_get_name h a = fld h a o_name"

text \<open>
  \<open>x_object_set_name\<close> is the effect on the objects. Below it is the same call at the level of the
  block of the name, whose terminator is written once more, one byte behind the block, on every
  call: as C that is undefined, so every object that gets a name is made by an undefined write. The
  heap of objects goes on where that byte, which the allocator's rounding covers for most lengths,
  belongs to no object; this is an assumption of all that follows, and not hidden by a test.
\<close>

definition x_object_set_name :: "heap \<Rightarrow> addr \<Rightarrow> string \<Rightarrow> heap option" where
  "x_object_set_name h a name = upd h a (\<lambda>ob. ob\<lparr>o_name := Some name\<rparr>)"

definition x_object_set_name_block :: "(nat \<Rightarrow> char) \<Rightarrow> char list \<Rightarrow> string \<Rightarrow> char list option" where
  "x_object_set_name_block junk old name =
     (let len = length name + 1; b = mem_resize junk old len
      in do { b1 \<leftarrow> mem_write b 0 (name @ [NUL]); mem_write b1 len [NUL] })"

lemma set_name_overruns: "x_object_set_name_block junk old name = None"
  by (auto simp: x_object_set_name_block_def mem_resize_def mem_write_def buf_put_def Let_def)

section \<open>Links\<close>

definition x_object_get_parent :: "heap \<Rightarrow> ptr \<Rightarrow> ptr option" where
  "x_object_get_parent h p = (case p of None \<Rightarrow> Some None | Some a \<Rightarrow> fld h a o_parent)"

definition x_object_set_parent :: "heap \<Rightarrow> addr \<Rightarrow> ptr \<Rightarrow> heap option" where
  "x_object_set_parent h c p = upd h c (\<lambda>ob. ob\<lparr>o_parent := p\<rparr>)"

definition x_object_get_next :: "heap \<Rightarrow> ptr \<Rightarrow> ptr option" where
  "x_object_get_next h p = (case p of None \<Rightarrow> Some None | Some a \<Rightarrow> fld h a o_next)"

definition x_object_get_sibling :: "heap \<Rightarrow> ptr \<Rightarrow> ptr option" where
  "x_object_get_sibling h p = (case p of None \<Rightarrow> Some None | Some a \<Rightarrow> fld h a o_sibling)"

text \<open>The loop over the children that stops at the first matching name.\<close>

partial_function (option) child_loop :: "heap \<Rightarrow> string \<Rightarrow> ptr \<Rightarrow> ptr option" where
  "child_loop h nm p = (case p of
       None \<Rightarrow> Some None
     | Some a \<Rightarrow> do {
         ob \<leftarrow> objs h a;
         name \<leftarrow> o_name ob;
         if EQN name nm then Some (Some a) else child_loop h nm (o_sibling ob)
       })"

definition x_object_get_child :: "heap \<Rightarrow> ptr \<Rightarrow> string option \<Rightarrow> ptr option" where
  "x_object_get_child h xparent nm = (case xparent of
       None \<Rightarrow> Some None
     | Some a \<Rightarrow> do {
         first \<leftarrow> fld h a o_sons;
         case nm of None \<Rightarrow> Some first | Some n \<Rightarrow> child_loop h n first
       })"

text \<open>The last cell of a chain, and the cell before an object together with where the walk stopped.\<close>

partial_function (option) chain_last :: "(xobject \<Rightarrow> ptr) \<Rightarrow> heap \<Rightarrow> addr \<Rightarrow> addr option" where
  "chain_last lnk h a = do {
     ob \<leftarrow> objs h a;
     case lnk ob of None \<Rightarrow> Some a | Some b \<Rightarrow> chain_last lnk h b
   }"

partial_function (option) chain_prev ::
  "(xobject \<Rightarrow> ptr) \<Rightarrow> heap \<Rightarrow> addr \<Rightarrow> ptr \<Rightarrow> ptr \<Rightarrow> (ptr \<times> ptr) option" where
  "chain_prev lnk h x xt p = (case p of
       None \<Rightarrow> Some (xt, None)
     | Some a \<Rightarrow> if a = x then Some (xt, p) else do { ob \<leftarrow> objs h a; chain_prev lnk h x p (lnk ob) })"

definition x_object_insert_into_tree :: "heap \<Rightarrow> ptr \<Rightarrow> ptr \<Rightarrow> (int \<times> heap) option" where
  "x_object_insert_into_tree h parent xobj = (case (parent, xobj) of
       (Some p, Some x) \<Rightarrow> do {
         h1 \<leftarrow> x_object_set_parent h x (Some p);
         first \<leftarrow> fld h1 p o_sons;
         h2 \<leftarrow> (case first of
             None \<Rightarrow> upd h1 p (\<lambda>ob. ob\<lparr>o_sons := Some x\<rparr>)
           | Some f \<Rightarrow> do {
               xt \<leftarrow> chain_last o_sibling h1 f;
               h' \<leftarrow> upd h1 xt (\<lambda>ob. ob\<lparr>o_sibling := Some x\<rparr>);
               nm \<leftarrow> x_object_get_name h' x;
               same \<leftarrow> x_object_get_child h' (Some p) nm;
               (case same of
                  None \<Rightarrow> Some h'
                | Some s \<Rightarrow> do { l \<leftarrow> chain_last o_next h' s; upd h' l (\<lambda>ob. ob\<lparr>o_next := Some x\<rparr>) })
             });
         h3 \<leftarrow> upd h2 x (\<lambda>ob. ob\<lparr>o_next := None, o_sibling := None\<rparr>);
         h4 \<leftarrow> upd h3 p (\<lambda>ob. ob\<lparr>o_count := o_count ob + 1\<rparr>);
         Some (0, h4)
       }
     | _ \<Rightarrow> Some (-1, h))"

definition XOBJ_CR_DIRTY :: u32 where "XOBJ_CR_DIRTY = 1"

definition x_object_get_cr :: "heap \<Rightarrow> addr \<Rightarrow> u32 option" where
  "x_object_get_cr h a = fld h a o_cr"

definition x_object_set_cr :: "heap \<Rightarrow> addr \<Rightarrow> u32 \<Rightarrow> heap option" where
  "x_object_set_cr h a v = upd h a (\<lambda>ob. ob\<lparr>o_cr := v\<rparr>)"

definition set_dirty :: "heap \<Rightarrow> addr \<Rightarrow> heap option" where
  "set_dirty h a = do { v \<leftarrow> x_object_get_cr h a; x_object_set_cr h a (v OR XOBJ_CR_DIRTY) }"

definition x_object_remove_from_treenode :: "heap \<Rightarrow> ptr \<Rightarrow> ptr \<Rightarrow> (int \<times> heap) option" where
  "x_object_remove_from_treenode h parent xobj = (case (parent, xobj) of
       (Some p, Some x) \<Rightarrow> do {
         h1 \<leftarrow> x_object_set_parent h x None;
         first \<leftarrow> fld h1 p o_sons;
         h4 \<leftarrow> (case first of
             None \<Rightarrow> Some h1
           | Some f \<Rightarrow> do {
               nm \<leftarrow> x_object_get_name h1 x;
               same \<leftarrow> x_object_get_child h1 (Some p) nm;
               (xt, xp) \<leftarrow> chain_prev o_next h1 x None same;
               nx \<leftarrow> fld h1 x o_next;
               h2 \<leftarrow> (case xt of Some t \<Rightarrow> if xp = Some x then upd h1 t (\<lambda>ob. ob\<lparr>o_next := nx\<rparr>) else Some h1
                     | None \<Rightarrow> Some h1);
               h3 \<leftarrow> upd h2 x (\<lambda>ob. ob\<lparr>o_next := None\<rparr>);
               first3 \<leftarrow> fld h3 p o_sons;
               (yt, yp) \<leftarrow> chain_prev o_sibling h3 x None first3;
               sx \<leftarrow> fld h3 x o_sibling;
               h3' \<leftarrow> (case yt of Some t \<Rightarrow> if yp = Some x then upd h3 t (\<lambda>ob. ob\<lparr>o_sibling := sx\<rparr>) else Some h3
                     | None \<Rightarrow> Some h3);
               upd h3' x (\<lambda>ob. ob\<lparr>o_sibling := None\<rparr>)
             });
         h5 \<leftarrow> upd h4 p (\<lambda>ob. ob\<lparr>o_count := (if o_count ob \<le> 0 then o_count ob else o_count ob - 1)\<rparr>);
         h6 \<leftarrow> set_dirty h5 p;
         h7 \<leftarrow> set_dirty h6 x;
         Some (0, h7)
       }
     | _ \<Rightarrow> Some (-1, h))"

section \<open>Allocation and destruction\<close>

definition new_xobject :: "u32 \<Rightarrow> xobject" where
  "new_xobject extra = \<lparr>o_name = None, o_attrs = attr_list_init, o_content = X_STRING_STATIC_INIT, o_bus = None,
     o_cr = 0, o_life = 0, o_refs = 1, o_class = None, o_parent = None, o_next = None, o_sibling = None, o_sons = None,
     o_count = 0, o_assigns = 0, o_handler = None, o_writeout = [], o_listeners = [], o_extra = extra\<rparr>"

text \<open>\<^verbatim>\<open>x_object_init\<close>: one reference, no attributes, no content.\<close>

definition x_object_init :: "heap \<Rightarrow> addr \<Rightarrow> heap option" where
  "x_object_init h a = do {
     ob \<leftarrow> objs h a;
     c \<leftarrow> x_string_trunc (o_content ob);
     upd h a (\<lambda>ob. ob\<lparr>o_refs := 1, o_attrs := attr_list_init, o_content := c\<rparr>)
   }"

definition x_object_alloc :: "heap \<Rightarrow> u32 \<Rightarrow> (addr \<times> heap) option" where
  "x_object_alloc h extra = do {
     let a = brk h;
     h1 \<leftarrow> x_object_init (h\<lparr>objs := (objs h)(a \<mapsto> (new_xobject extra)\<lparr>o_refs := 0\<rparr>), brk := a + 1\<rparr>) a;
     Some (a, h1)
   }"

definition x_object_new_ns_match ::
  "obj_env \<Rightarrow> heap \<Rightarrow> string option \<Rightarrow> string option \<Rightarrow> attr_list option \<Rightarrow> bool \<Rightarrow> (ptr \<times> heap) option" where
  "x_object_new_ns_match env h p_name ns hints proto_on_fail = (case p_name of
       None \<Rightarrow> Some (None, h)
     | Some nm \<Rightarrow>
         (let name = takeWhile (\<lambda>c. c \<noteq> LF) nm;
              oclass = get_class env name ns hints proto_on_fail;
              extra = (case oclass of None \<Rightarrow> 0 | Some c \<Rightarrow> psize (cls env c))
          in if \<not> (proto_on_fail \<or> oclass \<noteq> None) then Some (None, h)
             else do {
               (a, h1) \<leftarrow> x_object_alloc h extra;
               h2 \<leftarrow> x_object_set_name h1 a name;
               h3 \<leftarrow> upd h2 a (\<lambda>ob. ob\<lparr>o_class := oclass\<rparr>);
               h4 \<leftarrow> call1 env on_create a h3;
               Some (Some a, h4)
             }))"

definition x_object_new_ns :: "obj_env \<Rightarrow> heap \<Rightarrow> string option \<Rightarrow> string option \<Rightarrow> (ptr \<times> heap) option" where
  "x_object_new_ns env h name ns = x_object_new_ns_match env h name ns None True"

definition x_object_new :: "obj_env \<Rightarrow> heap \<Rightarrow> string option \<Rightarrow> (ptr \<times> heap) option" where
  "x_object_new env h name = x_object_new_ns env h name None"

definition free :: "heap \<Rightarrow> addr \<Rightarrow> heap option" where
  "free h a = (case objs h a of None \<Rightarrow> None | Some ob \<Rightarrow> Some (h\<lparr>objs := (objs h)(a := None)\<rparr>))"

definition x_object_destroy_raw :: "heap \<Rightarrow> addr \<Rightarrow> heap option" where
  "x_object_destroy_raw h x = do { h1 \<leftarrow> upd h x (\<lambda>ob. ob\<lparr>o_attrs := attr_list_clear (o_attrs ob)\<rparr>); free h1 x }"

definition x_object_destroy_no_cb :: "heap \<Rightarrow> ptr \<Rightarrow> heap option" where
  "x_object_destroy_no_cb h xobj = (case xobj of
       None \<Rightarrow> Some h
     | Some x \<Rightarrow> do {
         parent \<leftarrow> x_object_get_parent h xobj;
         h9 \<leftarrow> (case parent of
             None \<Rightarrow> Some h
           | Some p \<Rightarrow> do {
               first \<leftarrow> fld h p o_sons;
               (prev, this) \<leftarrow> chain_prev o_sibling h x None first;
               h1 \<leftarrow> (if this = Some x then do {
                     sx \<leftarrow> fld h x o_sibling;
                     (case prev of
                        None \<Rightarrow> upd h p (\<lambda>ob. ob\<lparr>o_sons := sx\<rparr>)
                      | Some q \<Rightarrow> upd h q (\<lambda>ob. ob\<lparr>o_sibling := sx\<rparr>))
                   } else Some h);
               h2 \<leftarrow> upd h1 x (\<lambda>ob. ob\<lparr>o_sibling := None\<rparr>);
               nm \<leftarrow> x_object_get_name h2 x;
               same \<leftarrow> x_object_get_child h2 parent nm;
               (nprev, nthis) \<leftarrow> chain_prev o_next h2 x None same;
               h3 \<leftarrow> (if nthis = Some x then (case nprev of
                        None \<Rightarrow> Some h2
                      | Some q \<Rightarrow> do { nx \<leftarrow> fld h2 x o_next; upd h2 q (\<lambda>ob. ob\<lparr>o_next := nx\<rparr>) })
                   else Some h2);
               h4 \<leftarrow> upd h3 x (\<lambda>ob. ob\<lparr>o_next := None, o_parent := None\<rparr>);
               upd h4 p (\<lambda>ob. ob\<lparr>o_count := o_count ob - 1\<rparr>)
             });
         x_object_destroy_raw h9 x
       })"

definition x_object_destroy :: "obj_env \<Rightarrow> heap \<Rightarrow> ptr \<Rightarrow> heap option" where
  "x_object_destroy env h xobj = (case xobj of
       None \<Rightarrow> Some h
     | Some x \<Rightarrow> do { h1 \<leftarrow> call1 env on_release x h; x_object_destroy_no_cb h1 xobj })"

definition x_object_ref_get :: "heap \<Rightarrow> addr \<Rightarrow> heap option" where
  "x_object_ref_get h a = upd h a (\<lambda>ob. ob\<lparr>o_refs := o_refs ob + 1\<rparr>)"

definition x_object_ref_put :: "obj_env \<Rightarrow> heap \<Rightarrow> ptr \<Rightarrow> cb1 option \<Rightarrow> heap option" where
  "x_object_ref_put env h p unref_cb = (case p of
       None \<Rightarrow> Some h
     | Some a \<Rightarrow> do {
         h1 \<leftarrow> upd h a (\<lambda>ob. ob\<lparr>o_refs := o_refs ob - 1\<rparr>);
         r \<leftarrow> fld h1 a o_refs;
         if r \<le> 0 then do {
           h2 \<leftarrow> (case unref_cb of None \<Rightarrow> Some h1 | Some f \<Rightarrow> f a h1);
           x_object_destroy env h2 p
         } else Some h1
       })"

section \<open>Attributes and content\<close>

definition x_object_setattr :: "heap \<Rightarrow> addr \<Rightarrow> string \<Rightarrow> string option \<Rightarrow> heap option" where
  "x_object_setattr h a k v = upd h a (\<lambda>ob. ob\<lparr>o_attrs := snd (setattr True k v (o_attrs ob))\<rparr>)"

definition x_object_getattr :: "heap \<Rightarrow> addr \<Rightarrow> string option \<Rightarrow> string option option" where
  "x_object_getattr h a k = map_option (\<lambda>ob. getattr k (Some (o_attrs ob))) (objs h a)"

definition x_object_set_content :: "obj_env \<Rightarrow> heap \<Rightarrow> addr \<Rightarrow> string \<Rightarrow> nat \<Rightarrow> (int \<times> heap) option" where
  "x_object_set_content env h a buf len = do {
     ob \<leftarrow> objs h a;
     c1 \<leftarrow> x_string_clear (cjunk env) (o_content ob);
     c2 \<leftarrow> x_string_write (cjunk env) c1 buf len;
     h1 \<leftarrow> upd h a (\<lambda>ob. ob\<lparr>o_content := c2\<rparr>);
     Some (0, h1)
   }"

fun x_object_default_assign_cb :: "heap \<Rightarrow> addr \<Rightarrow> attr_list \<Rightarrow> heap option" where
  "x_object_default_assign_cb h a [] = Some h"
| "x_object_default_assign_cb h a ((k, v) # rest) = do {
     h1 \<leftarrow> x_object_setattr h a k (Some v);
     x_object_default_assign_cb h1 a rest
   }"

definition x_object_assign :: "obj_env \<Rightarrow> heap \<Rightarrow> addr \<Rightarrow> attr_list option \<Rightarrow> heap option" where
  "x_object_assign env h a attrs = (case attrs of
       None \<Rightarrow> Some h
     | Some as \<Rightarrow> do {
         ob \<leftarrow> objs h a;
         h1 \<leftarrow> (case slot env on_assign ob of
               Some f \<Rightarrow> f a as h
             | None \<Rightarrow> x_object_default_assign_cb h a as);
         upd h1 a (\<lambda>ob. ob\<lparr>o_assigns := o_assigns ob + 1\<rparr>)
       })"

text \<open>The variable arguments as a list; a triple with type 0 or a null key ends them.\<close>

fun vassign_attrs :: "(int \<times> string option \<times> string option) list \<Rightarrow> attr_list \<Rightarrow> attr_list option" where
  "vassign_attrs [] attrs = None"
| "vassign_attrs ((typ, key, val) # rest) attrs =
     (case key of
        Some k \<Rightarrow> if typ \<noteq> 0 then vassign_attrs rest (snd (setattr True k val attrs)) else Some attrs
      | None \<Rightarrow> Some attrs)"

definition x_object_vassign ::
  "obj_env \<Rightarrow> heap \<Rightarrow> addr \<Rightarrow> (int \<times> string option \<times> string option) list \<Rightarrow> heap option" where
  "x_object_vassign env h a args = do { attrs \<leftarrow> vassign_attrs args attr_list_init; x_object_assign env h a (Some attrs) }"

definition x_object_match :: "obj_env \<Rightarrow> heap \<Rightarrow> ptr \<Rightarrow> attr_list option \<Rightarrow> (bool \<times> heap) option" where
  "x_object_match env h p attrs = (case p of
       None \<Rightarrow> Some (False, h)
     | Some a \<Rightarrow> do {
         ob \<leftarrow> objs h a;
         case slot env c_match ob of Some f \<Rightarrow> f a attrs h | None \<Rightarrow> Some (False, h)
       })"

text \<open>The loops of \<^verbatim>\<open>x_object_find\<close> (along \<^verbatim>\<open>next\<close>) and \<^verbatim>\<open>x_object_find_child\<close> (along \<^verbatim>\<open>sibling\<close>).\<close>

partial_function (option) match_loop ::
  "(xobject \<Rightarrow> ptr) \<Rightarrow> obj_env \<Rightarrow> heap \<Rightarrow> ptr \<Rightarrow> attr_list option \<Rightarrow> (ptr \<times> heap) option" where
  "match_loop lnk env h p hints = (case p of
       None \<Rightarrow> Some (None, h)
     | Some a \<Rightarrow> do {
         (found, h1) \<leftarrow> x_object_match env h p hints;
         if found then Some (p, h1)
         else do { ob \<leftarrow> objs h1 a; match_loop lnk env h1 (lnk ob) hints }
       })"

definition x_object_find :: "obj_env \<Rightarrow> heap \<Rightarrow> ptr \<Rightarrow> attr_list option \<Rightarrow> (ptr \<times> heap) option" where
  "x_object_find env h starto hints = match_loop o_next env h starto hints"

definition x_object_find_child :: "obj_env \<Rightarrow> heap \<Rightarrow> addr \<Rightarrow> attr_list option \<Rightarrow> (ptr \<times> heap) option" where
  "x_object_find_child env h parent hints = do {
     first \<leftarrow> x_object_get_child h (Some parent) None;
     match_loop o_sibling env h first hints
   }"

definition x_object_lost_focus :: "obj_env \<Rightarrow> heap \<Rightarrow> addr \<Rightarrow> heap option" where
  "x_object_lost_focus env h a = call1 env c_commit a h"

section \<open>Listeners and messages\<close>

definition x_object_sendmsg :: "obj_env \<Rightarrow> heap \<Rightarrow> ptr \<Rightarrow> addr \<Rightarrow> addr \<Rightarrow> heap option" where
  "x_object_sendmsg env h to from msg = (case to of
       None \<Rightarrow> Some h
     | Some t \<Rightarrow> do {
         ob \<leftarrow> objs h t;
         c \<leftarrow> o_class ob;
         case c_rx (cls env c) of None \<Rightarrow> Some h | Some f \<Rightarrow> f t from msg h
       })"

text \<open>
  The cell after the one of a listener. A cell that is no longer in the list was freed, so
  reading its link is undefined.
\<close>

definition cell_next :: "addr list \<Rightarrow> addr \<Rightarrow> ptr option" where
  "cell_next ls a = (case dropWhile (\<lambda>b. b \<noteq> a) ls of
       [] \<Rightarrow> None | _ # [] \<Rightarrow> Some None | _ # b # _ \<Rightarrow> Some (Some b))"

partial_function (option) mcast_loop :: "obj_env \<Rightarrow> heap \<Rightarrow> addr \<Rightarrow> addr \<Rightarrow> ptr \<Rightarrow> heap option" where
  "mcast_loop env h from msg p = (case p of
       None \<Rightarrow> Some h
     | Some a \<Rightarrow> do {
         h1 \<leftarrow> x_object_sendmsg env h (Some a) from msg;
         ls \<leftarrow> fld h1 from o_listeners;
         q \<leftarrow> cell_next ls a;
         mcast_loop env h1 from msg q
       })"

definition x_object_sendmsg_multicast :: "obj_env \<Rightarrow> heap \<Rightarrow> addr \<Rightarrow> addr \<Rightarrow> heap option" where
  "x_object_sendmsg_multicast env h from msg = do {
     ls \<leftarrow> fld h from o_listeners;
     mcast_loop env h from msg (case ls of [] \<Rightarrow> None | a # _ \<Rightarrow> Some a)
   }"

definition x_object_listeners_exists :: "heap \<Rightarrow> addr \<Rightarrow> addr \<Rightarrow> bool option" where
  "x_object_listeners_exists h a listener = fld h a (\<lambda>ob. listener \<in> set (o_listeners ob))"

definition x_object_subscribe :: "obj_env \<Rightarrow> heap \<Rightarrow> addr \<Rightarrow> addr \<Rightarrow> (int \<times> heap) option" where
  "x_object_subscribe env h xobj listener = do {
     h1 \<leftarrow> x_object_ref_get h xobj;
     h2 \<leftarrow> x_object_ref_get h1 listener;
     found \<leftarrow> x_object_listeners_exists h2 xobj listener;
     h3 \<leftarrow> (if \<not> found then upd h2 xobj (\<lambda>ob. ob\<lparr>o_listeners := listener # o_listeners ob\<rparr>)
           else x_object_ref_put env h2 (Some listener) None);
     h4 \<leftarrow> x_object_ref_put env h3 (Some xobj) None;
     Some (0, h4)
   }"

definition x_object_unsubscribe :: "obj_env \<Rightarrow> heap \<Rightarrow> addr \<Rightarrow> addr \<Rightarrow> (int \<times> heap) option" where
  "x_object_unsubscribe env h xobj listener = do {
     h1 \<leftarrow> x_object_ref_get h xobj;
     found \<leftarrow> x_object_listeners_exists h1 xobj listener;
     (err, h3) \<leftarrow> (if found then do {
           h2 \<leftarrow> upd h1 xobj (\<lambda>ob. ob\<lparr>o_listeners := remove1 listener (o_listeners ob)\<rparr>);
           h' \<leftarrow> x_object_ref_put env h2 (Some listener) None;
           Some (0, h')
         } else Some (-1, h1));
     h4 \<leftarrow> x_object_ref_put env h3 (Some xobj) None;
     Some (err, h4)
   }"

fun ref_put_all :: "obj_env \<Rightarrow> heap \<Rightarrow> addr list \<Rightarrow> heap option" where
  "ref_put_all env h [] = Some h"
| "ref_put_all env h (a # as) = do { h1 \<leftarrow> x_object_ref_put env h (Some a) None; ref_put_all env h1 as }"

definition x_object_reset_subscription :: "obj_env \<Rightarrow> heap \<Rightarrow> addr \<Rightarrow> heap option" where
  "x_object_reset_subscription env h xobj = do {
     h1 \<leftarrow> x_object_ref_get h xobj;
     ls \<leftarrow> fld h1 xobj o_listeners;
     h2 \<leftarrow> ref_put_all env h1 ls;
     h3 \<leftarrow> x_object_ref_put env h2 (Some xobj) None;
     upd h3 xobj (\<lambda>ob. ob\<lparr>o_listeners := []\<rparr>)
   }"

definition x_object_listeners_init :: "heap \<Rightarrow> addr \<Rightarrow> heap option" where
  "x_object_listeners_init h a = upd h a (\<lambda>ob. ob\<lparr>o_listeners := []\<rparr>)"

section \<open>Children by position\<close>

partial_function (option) nth_loop :: "heap \<Rightarrow> ptr \<Rightarrow> int \<Rightarrow> int \<Rightarrow> ptr option" where
  "nth_loop h p i ind = (case p of
       None \<Rightarrow> Some None
     | Some a \<Rightarrow> if i < ind then do { ob \<leftarrow> objs h a; nth_loop h (o_sibling ob) (i + 1) ind } else Some p)"

definition x_object_get_child_from_index :: "heap \<Rightarrow> addr \<Rightarrow> int \<Rightarrow> ptr option" where
  "x_object_get_child_from_index h a ind = do { first \<leftarrow> fld h a o_sons; nth_loop h first 0 ind }"

partial_function (option) index_loop :: "heap \<Rightarrow> addr \<Rightarrow> ptr \<Rightarrow> int \<Rightarrow> int option" where
  "index_loop h x p i = (case p of
       None \<Rightarrow> Some 0
     | Some a \<Rightarrow> if a = x then Some i else do { ob \<leftarrow> objs h a; index_loop h x (o_sibling ob) (i + 1) })"

definition x_object_get_index :: "heap \<Rightarrow> addr \<Rightarrow> int option" where
  "x_object_get_index h x = do {
     parent \<leftarrow> x_object_get_parent h (Some x);
     case parent of None \<Rightarrow> Some 0 | Some p \<Rightarrow> do { first \<leftarrow> fld h p o_sons; index_loop h x first 0 }
   }"

definition x_object_get_child_count :: "heap \<Rightarrow> addr \<Rightarrow> int option" where
  "x_object_get_child_count h a = fld h a o_count"

definition x_object_get_element_by_tag_name :: "heap \<Rightarrow> ptr \<Rightarrow> string option \<Rightarrow> ptr option" where
  "x_object_get_element_by_tag_name h parent name =
     (if parent = None \<or> name = None then Some None else x_object_get_child h parent name)"

section \<open>Appending and removing with events\<close>

definition x_object_append_child_no_cb :: "heap \<Rightarrow> ptr \<Rightarrow> addr \<Rightarrow> (int \<times> heap) option" where
  "x_object_append_child_no_cb h parent child = (case parent of
       None \<Rightarrow> Some (-1, h)
     | Some p \<Rightarrow> do {
         _ \<leftarrow> objs h p;
         _ \<leftarrow> objs h child;
         (r, h1) \<leftarrow> x_object_insert_into_tree h parent (Some child);
         if r \<noteq> 0 then Some (-1, h1) else do {
           h2 \<leftarrow> x_object_ref_get h1 p;
           h3 \<leftarrow> x_object_ref_get h2 child;
           b \<leftarrow> fld h3 p o_bus;
           h4 \<leftarrow> upd h3 child (\<lambda>ob. ob\<lparr>o_bus := b\<rparr>);
           h5 \<leftarrow> set_dirty h4 p;
           Some (0, h5)
         }
       })"

text \<open>The message an event sends to the listeners of the parent.\<close>

definition child_event :: "obj_env \<Rightarrow> heap \<Rightarrow> addr \<Rightarrow> addr \<Rightarrow> string \<Rightarrow> int \<Rightarrow> heap option" where
  "child_event env h p child subject ix = do {
     (m, h1) \<leftarrow> x_object_new_ns env h (Some ''$message'') None;
     msg \<leftarrow> m;
     h2 \<leftarrow> x_object_setattr h1 msg ''subject'' (Some subject);
     nm \<leftarrow> x_object_get_name h2 child;
     h3 \<leftarrow> x_object_setattr h2 msg ''child-name'' nm;
     h4 \<leftarrow> x_object_setattr h3 msg ''child-index'' (Some (sprintf_d ix));
     h5 \<leftarrow> x_object_sendmsg_multicast env h4 p msg;
     x_object_ref_put env h5 m None
   }"

definition x_object_append_child :: "obj_env \<Rightarrow> heap \<Rightarrow> ptr \<Rightarrow> addr \<Rightarrow> (int \<times> heap) option" where
  "x_object_append_child env h parent child = do {
     (r, h1) \<leftarrow> x_object_append_child_no_cb h parent child;
     if r = -1 then Some (-1, h1) else do {
       p \<leftarrow> parent;
       h2 \<leftarrow> call2 env on_child_append p child h1;
       h3 \<leftarrow> call2 env on_append child p h2;
       nm \<leftarrow> x_object_get_name h3 child;
       h4 \<leftarrow> path_notify env nm child h3;
       ix \<leftarrow> x_object_get_index h4 child;
       h5 \<leftarrow> child_event env h4 p child ''child-append'' ix;
       Some (0, h5)
     }
   }"

definition x_object_remove_from_parent :: "obj_env \<Rightarrow> heap \<Rightarrow> addr \<Rightarrow> heap option" where
  "x_object_remove_from_parent env h x = do {
     parent \<leftarrow> x_object_get_parent h (Some x);
     h1 \<leftarrow> call1 env on_remove x h;
     h5 \<leftarrow> (case parent of
         None \<Rightarrow> Some h1
       | Some p \<Rightarrow> do {
           ix \<leftarrow> x_object_get_index h1 x;
           h2 \<leftarrow> call2 env on_child_remove p x h1;
           (r, h3) \<leftarrow> x_object_remove_from_treenode h2 parent (Some x);
           child_event env h3 p x ''child-remove'' ix
         });
     h6 \<leftarrow> x_object_ref_put env h5 (Some x) None;
     case parent of None \<Rightarrow> Some h6 | Some p \<Rightarrow> x_object_ref_put env h6 parent None
   }"

definition x_object_touch :: "obj_env \<Rightarrow> heap \<Rightarrow> addr \<Rightarrow> heap option" where
  "x_object_touch env h x = do { nm \<leftarrow> x_object_get_name h x; path_notify env nm x h }"

text \<open>Destruction of the subtrees below an object; the second argument selects the function or its loop.\<close>

partial_function (option) destroy_tree :: "obj_env \<Rightarrow> addr + ptr \<Rightarrow> heap \<Rightarrow> heap option" where
  "destroy_tree env sel h = (case sel of
       Inl a \<Rightarrow> do {
         h1 \<leftarrow> call1 env on_tree_destroy a h;
         first \<leftarrow> x_object_get_child h1 (Some a) None;
         h2 \<leftarrow> destroy_tree env (Inr first) h1;
         _ \<leftarrow> objs h2 a;
         Some h2
       }
     | Inr None \<Rightarrow> Some h
     | Inr (Some c) \<Rightarrow> do {
         h1 \<leftarrow> destroy_tree env (Inl c) h;
         nxt \<leftarrow> x_object_get_sibling h1 (Some c);
         h2 \<leftarrow> x_object_remove_from_parent env h1 c;
         _ \<leftarrow> objs h2 c;
         h3 \<leftarrow> x_object_ref_put env h2 (Some c) None;
         destroy_tree env (Inr nxt) h3
       })"

definition x_object_destroy_tree :: "obj_env \<Rightarrow> heap \<Rightarrow> addr \<Rightarrow> heap option" where
  "x_object_destroy_tree env h a = destroy_tree env (Inl a) h"

section \<open>Paths and the environment\<close>

partial_function (option) x_object_getenv :: "heap \<Rightarrow> ptr \<Rightarrow> string \<Rightarrow> string option option" where
  "x_object_getenv h p anam = (case p of
       None \<Rightarrow> Some None
     | Some a \<Rightarrow> do {
         v \<leftarrow> x_object_getattr h a (Some anam);
         case v of Some s \<Rightarrow> Some (Some s)
         | None \<Rightarrow> do { q \<leftarrow> x_object_get_parent h p; x_object_getenv h q anam }
       })"

text \<open>The nearest object upwards, the object itself included, whose class can transmit.\<close>

partial_function (option) tx_owner :: "obj_env \<Rightarrow> heap \<Rightarrow> ptr \<Rightarrow> ptr option" where
  "tx_owner env h p = (case p of
       None \<Rightarrow> Some None
     | Some a \<Rightarrow> do {
         ob \<leftarrow> objs h a;
         if slot env c_tx ob \<noteq> None then Some p
         else do { q \<leftarrow> x_object_get_parent h p; tx_owner env h q }
       })"

definition x_object_send_down ::
  "obj_env \<Rightarrow> heap \<Rightarrow> ptr \<Rightarrow> addr \<Rightarrow> attr_list option \<Rightarrow> (int \<times> heap) option" where
  "x_object_send_down env h xobj ob ctx = do {
     to \<leftarrow> tx_owner env h xobj;
     case to of
       None \<Rightarrow> Some (-1, h)
     | Some t \<Rightarrow> do { tob \<leftarrow> objs h t; f \<leftarrow> slot env c_tx tob; f t ob ctx h }
   }"

text \<open>
  \<^verbatim>\<open>x_object_from_path\<close>: one component at a time. The search for the end of a component after
  the last one starts one byte behind the copied path; \<open>tail\<close> is what memory holds there.
\<close>

definition path_delims :: "char set" where
  "path_delims = {CHR ''/'', CHR '':'', LF, char_of (9 :: nat), char_of (11 :: nat), char_of (12 :: nat), CR}"

lemma strcspn_less: "strcspn s cs \<noteq> 0 \<Longrightarrow> length (drop (strcspn s cs + 1) s) < length s"
  by (cases s) (auto simp: strcspn_def)

function from_path_loop :: "heap \<Rightarrow> ptr \<Rightarrow> string \<Rightarrow> string \<Rightarrow> ptr option" where
  "from_path_loop h ob s tail =
     (let n = strcspn s path_delims
      in if n = 0 then Some ob
         else do {
           q \<leftarrow> x_object_get_child h ob (Some (take n s));
           if q = None then Some None
           else if n < length s then from_path_loop h q (drop (n + 1) s) tail
           else (let k = strcspn tail path_delims
                 in if k = 0 then Some q else x_object_get_child h q (Some (take k tail)))
         })"
  by pat_completeness auto
termination
  by (relation "measure (\<lambda>(h, ob, s, tail). length s)") (use strcspn_less in auto)

declare from_path_loop.simps [simp del]

definition x_object_from_path :: "heap \<Rightarrow> addr \<Rightarrow> string \<Rightarrow> string \<Rightarrow> ptr option" where
  "x_object_from_path h ctx path tail = do {
     r \<leftarrow> from_path_loop h (Some ctx) path tail;
     Some (if r = None then Some ctx else r)
   }"

text \<open>
  \<^verbatim>\<open>x_object_mkpath\<close> creates the components that are missing. The copy of the path has one byte for
  its terminator, and one more is written behind the block, where the loop looks for the end
  after the last component. As for a name, the model takes it that the byte belongs to no object,
  and is zero there; \<open>mkpath_copy\<close> is the copy at the level of its block.
\<close>

definition mkpath_copy :: "(nat \<Rightarrow> char) \<Rightarrow> string \<Rightarrow> char list option" where
  "mkpath_copy junk path =
     (let len = length path + 1; b = mem_resize junk [] len
      in do { b1 \<leftarrow> mem_write b 0 (path @ [NUL]); mem_write b1 len [NUL] })"

lemma mkpath_overruns: "mkpath_copy junk path = None"
  by (auto simp: mkpath_copy_def mem_resize_def mem_write_def buf_put_def Let_def)

definition mk_delims :: "char set" where
  "mk_delims = {CHR ''/'', CHR '':''}"

definition mk_component :: "obj_env \<Rightarrow> heap \<Rightarrow> ptr \<Rightarrow> string \<Rightarrow> (ptr \<times> heap) option" where
  "mk_component env h ob nm = do {
     q \<leftarrow> x_object_get_child h ob (Some nm);
     case q of
       Some c \<Rightarrow> Some (Some c, h)
     | None \<Rightarrow> do {
         (n, h1) \<leftarrow> x_object_new_ns env h (Some nm) None;
         c \<leftarrow> n;
         (r, h2) \<leftarrow> x_object_append_child env h1 ob c;
         Some (n, h2)
       }
   }"

function mkpath_loop :: "obj_env \<Rightarrow> heap \<Rightarrow> ptr \<Rightarrow> string \<Rightarrow> (ptr \<times> heap) option" where
  "mkpath_loop env h ob s =
     (let n = strcspn s mk_delims
      in if n = 0 then Some (ob, h)
         else do {
           (q, h1) \<leftarrow> mk_component env h ob (take n s);
           mkpath_loop env h1 q (drop (n + 1) s)
         })"
  by pat_completeness auto
termination
  by (relation "measure (\<lambda>(env, h, ob, s). length s)") (use strcspn_less in auto)

declare mkpath_loop.simps [simp del]

definition x_object_mkpath :: "obj_env \<Rightarrow> heap \<Rightarrow> ptr \<Rightarrow> string \<Rightarrow> (ptr \<times> heap) option" where
  "x_object_mkpath env h ctx path = mkpath_loop env h ctx path"

definition x_object_add_path :: "obj_env \<Rightarrow> heap \<Rightarrow> ptr \<Rightarrow> string \<Rightarrow> ptr \<Rightarrow> (ptr \<times> heap) option" where
  "x_object_add_path env h ctx path ob = do {
     (parent, h1) \<leftarrow> x_object_mkpath env h ctx path;
     case (parent, ob) of
       (Some p, Some x) \<Rightarrow> do { (r, h2) \<leftarrow> x_object_append_child env h1 parent x; Some (parent, h2) }
     | _ \<Rightarrow> Some (parent, h1)
   }"

text \<open>
  \<^verbatim>\<open>x_object_to_path\<close>: the text written so far and the length \<^verbatim>\<open>snprintf\<close> reports; the size
  left is unsigned, so writing goes on behind the buffer once the path is longer than it.
\<close>

partial_function (option) x_object_to_path :: "heap \<Rightarrow> ptr \<Rightarrow> nat \<Rightarrow> (nat \<times> string) option" where
  "x_object_to_path h p bufsiz = (case p of
       None \<Rightarrow> Some (0, [])
     | Some a \<Rightarrow> do {
         q \<leftarrow> x_object_get_parent h p;
         (i, buf) \<leftarrow> x_object_to_path h q bufsiz;
         nm \<leftarrow> x_object_get_name h a;
         name \<leftarrow> nm;
         let piece = ''/'' @ name;
         if bufsiz < i then None
         else if bufsiz - i = 0 then Some (i + length piece, buf)
         else Some (i + length piece, take i buf @ take (bufsiz - i - 1) piece)
       })"

section \<open>Copies\<close>

definition x_object_copy :: "obj_env \<Rightarrow> heap \<Rightarrow> addr \<Rightarrow> (ptr \<times> heap) option" where
  "x_object_copy env h x = do {
     (m, h1) \<leftarrow> x_object_new_ns env h (Some ''$message'') None;
     msg \<leftarrow> m;
     nm \<leftarrow> x_object_get_name h1 x;
     name \<leftarrow> nm;
     h2 \<leftarrow> x_object_set_name h1 msg name;
     ob \<leftarrow> objs h2 x;
     h3 \<leftarrow> x_object_default_assign_cb h2 msg (o_attrs ob);
     mob \<leftarrow> objs h3 msg;
     c \<leftarrow> x_string_write (cjunk env) (o_content mob) (xs_block (o_content ob)) (unat (pos (o_content ob)));
     h4 \<leftarrow> upd h3 msg (\<lambda>ob. ob\<lparr>o_content := c\<rparr>);
     Some (m, h4)
   }"

text \<open>The recursive copy and its loop over the children of the original.\<close>

partial_function (option) full_copy :: "obj_env \<Rightarrow> addr + (addr \<times> ptr) \<Rightarrow> heap \<Rightarrow> (ptr \<times> heap) option" where
  "full_copy env sel h = (case sel of
       Inl x \<Rightarrow> do {
         (m, h1) \<leftarrow> x_object_copy env h x;
         msg \<leftarrow> m;
         first \<leftarrow> x_object_get_child h1 (Some x) None;
         full_copy env (Inr (msg, first)) h1
       }
     | Inr (msg, None) \<Rightarrow> Some (Some msg, h)
     | Inr (msg, Some c) \<Rightarrow> do {
         (k, h1) \<leftarrow> full_copy env (Inl c) h;
         kid \<leftarrow> k;
         (r, h2) \<leftarrow> x_object_append_child_no_cb h1 (Some msg) kid;
         nxt \<leftarrow> x_object_get_sibling h2 (Some c);
         full_copy env (Inr (msg, nxt)) h2
       })"

definition x_object_full_copy :: "obj_env \<Rightarrow> heap \<Rightarrow> addr \<Rightarrow> (ptr \<times> heap) option" where
  "x_object_full_copy env h x = full_copy env (Inl x) h"

definition x_object_open :: "obj_env \<Rightarrow> heap \<Rightarrow> ptr \<Rightarrow> string \<Rightarrow> attr_list option \<Rightarrow> (ptr \<times> heap) option" where
  "x_object_open env h ctx name hints = do {
     tmp \<leftarrow> x_object_get_child h ctx (Some name);
     (ret, h1) \<leftarrow> (case tmp of None \<Rightarrow> Some (None, h) | Some t \<Rightarrow> x_object_find env h tmp hints);
     case ret of
       Some r \<Rightarrow> Some (ret, h1)
     | None \<Rightarrow> do {
         (n, h2) \<leftarrow> x_object_new_ns env h1 (Some name) None;
         x \<leftarrow> n;
         (r, h3) \<leftarrow> x_object_append_child env h2 ctx x;
         h4 \<leftarrow> x_object_assign env h3 x hints;
         Some (n, h4)
       }
   }"

definition x_object_clone :: "obj_env \<Rightarrow> heap \<Rightarrow> addr \<Rightarrow> (ptr \<times> heap) option" where
  "x_object_clone env h pattern = do {
     nm \<leftarrow> x_object_get_name h pattern;
     (n, h1) \<leftarrow> x_object_new_ns env h nm None;
     x \<leftarrow> n;
     ctx \<leftarrow> x_object_get_parent h1 (Some pattern);
     h2 \<leftarrow> (case ctx of None \<Rightarrow> Some h1 | Some c \<Rightarrow> map_option snd (x_object_append_child env h1 ctx x));
     pob \<leftarrow> objs h2 pattern;
     h3 \<leftarrow> x_object_assign env h2 x (Some (o_attrs pob));
     Some (n, h3)
   }"

section \<open>Writing to followers\<close>

definition x_object_set_write_handler :: "heap \<Rightarrow> ptr \<Rightarrow> ptr \<Rightarrow> heap option" where
  "x_object_set_write_handler h from to = (case (from, to) of
       (Some f, Some t) \<Rightarrow> do { h1 \<leftarrow> upd h f (\<lambda>ob. ob\<lparr>o_handler := to\<rparr>); x_object_ref_get h1 t }
     | _ \<Rightarrow> Some h)"

definition x_object_try_write :: "obj_env \<Rightarrow> heap \<Rightarrow> addr \<Rightarrow> string \<Rightarrow> attr_list option \<Rightarrow> (int \<times> heap) option" where
  "x_object_try_write env h a buf attrs = do {
     ob \<leftarrow> objs h a;
     (case slot env try_write ob of None \<Rightarrow> Some (-1, h) | Some f \<Rightarrow> f a buf attrs h)
   }"

definition x_object_try_writev :: "obj_env \<Rightarrow> heap \<Rightarrow> addr \<Rightarrow> string list \<Rightarrow> attr_list option \<Rightarrow> (int \<times> heap) option" where
  "x_object_try_writev env h a iov attrs = do {
     ob \<leftarrow> objs h a;
     c \<leftarrow> o_class ob;
     (case try_writev (cls env c) of None \<Rightarrow> Some (-1, h) | Some f \<Rightarrow> f a iov attrs h)
   }"

definition x_object_try_writev2 ::
  "obj_env \<Rightarrow> heap \<Rightarrow> addr \<Rightarrow> int \<Rightarrow> string list \<Rightarrow> attr_list option \<Rightarrow> (int \<times> heap) option" where
  "x_object_try_writev2 env h a sl iov attrs = do {
     ob \<leftarrow> objs h a;
     c \<leftarrow> o_class ob;
     (case try_writev2 (cls env c) of None \<Rightarrow> Some (-1, h) | Some f \<Rightarrow> f a sl iov attrs h)
   }"

definition x_object_add_follower :: "obj_env \<Rightarrow> heap \<Rightarrow> addr \<Rightarrow> addr \<Rightarrow> (int \<times> heap) option" where
  "x_object_add_follower env h thiz follower = do {
     h1 \<leftarrow> x_object_ref_get h thiz;
     h2 \<leftarrow> x_object_ref_get h1 follower;
     found \<leftarrow> x_object_listeners_exists h2 thiz follower;
     h3 \<leftarrow> (if \<not> found then upd h2 thiz (\<lambda>ob. ob\<lparr>o_writeout := follower # o_writeout ob\<rparr>)
           else x_object_ref_put env h2 (Some follower) None);
     h4 \<leftarrow> x_object_ref_put env h3 (Some thiz) None;
     Some (0, h4)
   }"

definition x_object_del_follower :: "obj_env \<Rightarrow> heap \<Rightarrow> addr \<Rightarrow> addr \<Rightarrow> (int \<times> heap) option" where
  "x_object_del_follower env h thiz follower = do {
     h1 \<leftarrow> x_object_ref_get h thiz;
     ws \<leftarrow> fld h1 thiz o_writeout;
     (err, h3) \<leftarrow> (if follower \<in> set ws then do {
           h2 \<leftarrow> upd h1 thiz (\<lambda>ob. ob\<lparr>o_writeout := remove1 follower (o_writeout ob)\<rparr>);
           h' \<leftarrow> x_object_ref_put env h2 (Some follower) None;
           Some (0, h')
         } else Some (-1, h1));
     h4 \<leftarrow> x_object_ref_put env h3 (Some thiz) None;
     Some (err, h4)
   }"

definition DEFAULT_IOLIFECOUNT :: int where "DEFAULT_IOLIFECOUNT = 100"

text \<open>The cell to update is given by its position \<open>i\<close>; the result is the position to go on from.\<close>

definition x_object_io_update :: "obj_env \<Rightarrow> heap \<Rightarrow> addr \<Rightarrow> nat \<Rightarrow> int \<Rightarrow> (nat \<times> heap) option" where
  "x_object_io_update env h thiz i err = do {
     ws \<leftarrow> fld h thiz o_writeout;
     let x = ws ! i;
     if err < 0 then do {
       h1 \<leftarrow> upd h x (\<lambda>ob. ob\<lparr>o_life := o_life ob - 10\<rparr>);
       life \<leftarrow> fld h1 x o_life;
       if life < - DEFAULT_IOLIFECOUNT then do {
         h2 \<leftarrow> upd h1 thiz (\<lambda>ob. ob\<lparr>o_writeout := take i ws @ drop (i + 1) ws\<rparr>);
         h3 \<leftarrow> x_object_ref_put env h2 (Some x) None;
         h4 \<leftarrow> x_object_ref_put env h3 (Some thiz) None;
         Some (i, h4)
       } else Some (i + 1, h1)
     } else do {
       h1 \<leftarrow> upd h x (\<lambda>ob. ob\<lparr>o_life := o_life ob + 1\<rparr>);
       Some (i + 1, h1)
     }
   }"

text \<open>
  The loop over the followers from position \<open>i\<close>: \<open>wr\<close> writes to one of them, \<open>code\<close> is what
  the caller passes on as the error. The callback may change the heap as it likes, except the list
  of the followers that are being served: it could free the cell the loop stands on, so such a
  change has no result here.
\<close>

partial_function (option) follower_loop ::
  "obj_env \<Rightarrow> (heap \<Rightarrow> addr \<Rightarrow> (int \<times> heap) option) \<Rightarrow> (int \<Rightarrow> int) \<Rightarrow> heap \<Rightarrow> addr \<Rightarrow> nat \<Rightarrow> int \<Rightarrow> (int \<times> heap) option" where
  "follower_loop env wr code h thiz i err = do {
     ob \<leftarrow> objs h thiz;
     if length (o_writeout ob) \<le> i then Some (err, h)
     else if o_handler ob = Some (o_writeout ob ! i) then follower_loop env wr code h thiz (i + 1) err
     else do {
       (e, h1) \<leftarrow> wr h (o_writeout ob ! i);
       ws \<leftarrow> fld h1 thiz o_writeout;
       if ws \<noteq> o_writeout ob then None
       else do {
         (j, h2) \<leftarrow> x_object_io_update env h1 thiz i (code e);
         follower_loop env wr code h2 thiz j e
       }
     }
   }"

definition write_with_handler ::
  "obj_env \<Rightarrow> (heap \<Rightarrow> addr \<Rightarrow> (int \<times> heap) option) \<Rightarrow> (int \<Rightarrow> int) \<Rightarrow> heap \<Rightarrow> addr \<Rightarrow> (int \<times> heap) option" where
  "write_with_handler env wr code h thiz = do {
     ob \<leftarrow> objs h thiz;
     (err, h1) \<leftarrow> (case o_handler ob of None \<Rightarrow> Some (-1, h) | Some t \<Rightarrow> wr h t);
     follower_loop env wr code h1 thiz 0 err
   }"

text \<open>\<^verbatim>\<open>x_object_write_out\<close> passes on the truth value of \<^verbatim>\<open>err < 0\<close>.\<close>

definition x_object_write_out ::
  "obj_env \<Rightarrow> heap \<Rightarrow> addr \<Rightarrow> string \<Rightarrow> attr_list option \<Rightarrow> (int \<times> heap) option" where
  "x_object_write_out env h thiz buf hints =
     write_with_handler env (\<lambda>h a. x_object_try_write env h a buf hints) (\<lambda>e. if e < 0 then 1 else 0) h thiz"

definition x_object_writev_out ::
  "obj_env \<Rightarrow> heap \<Rightarrow> addr \<Rightarrow> string list \<Rightarrow> attr_list option \<Rightarrow> (int \<times> heap) option" where
  "x_object_writev_out env h thiz iov hints =
     write_with_handler env (\<lambda>h a. x_object_try_writev env h a iov hints) (\<lambda>e. e) h thiz"

end
