(* ===== verification/Ice_Ctl.thy ===== *)
theory Ice_Ctl
  imports Ice_Stun Media_Base Xw_Obj
begin

text \<open>
  Model of the media transport, \<^verbatim>\<open>plugins/sessions_api/ice_ctl.c\<close>: the candidate addresses of both
  sides and their pairs, the connectivity checks with STUN requests and responses, the routing of
  incoming media by payload type, and the RTP header in front of outgoing media. A transport
  object is a record of its own fields; its children and those of the directory of media
  applications are lists, in the order the object tree keeps them. What the transport does to its
  surroundings is a list of outputs. \<^theory_text>\<open>None\<close> is an access outside a block of memory or through
  a null or uninitialised pointer.
\<close>

unbundle bit_operations_syntax

section \<open>Addresses, candidates and pairs\<close>

datatype sockaddr = IP4 sockaddr_in | IP6 u16 "u8 list"

fun netaddr_equals :: "sockaddr \<Rightarrow> sockaddr \<Rightarrow> bool" where
  "netaddr_equals (IP4 a1) (IP4 a2) = (sin_port a1 = sin_port a2 \<and> sin_addr a1 = sin_addr a2)"
| "netaddr_equals (IP6 p1 a1) (IP6 p2 a2) = (p1 = p2 \<and> a1 = a2)"
| "netaddr_equals _ _ = False"

text \<open>The port is at the same place in both kinds of address, in network byte order.\<close>

fun port_of :: "sockaddr \<Rightarrow> u16" where
  "port_of (IP4 a) = sin_port a"
| "port_of (IP6 p _) = p"

text \<open>A user name or a password that was not set is a pointer that was not initialised.\<close>

record x_candidate =
  cd_addr :: sockaddr
  cd_user :: "string option"
  cd_pass :: "string option"
  cd_stream :: u32

datatype pair_state = NICE_CHECK_WAITING | NICE_CHECK_IN_PROGRESS | NICE_CHECK_SUCCEEDED | NICE_CHECK_FAILED
  | NICE_CHECK_FROZEN | NICE_CHECK_CANCELLED | NICE_CHECK_DISCOVERED

text \<open>A candidate is named by its position among those that were allocated.\<close>

record cand_pair =
  p_local :: "nat option"
  p_remote :: nat
  p_stream :: u32
  p_state :: pair_state

definition MAX_CONN_PAIRS :: nat where "MAX_CONN_PAIRS = 256"
definition PAYLOAD_CACHE_SIZE :: nat where "PAYLOAD_CACHE_SIZE = 127"
definition ICE_FLAG_RTP_SUCCEEDED :: u32 where "ICE_FLAG_RTP_SUCCEEDED = 4"
definition ICE_STUN_RELAXATION_COUNT :: nat where "ICE_STUN_RELAXATION_COUNT = 16"

section \<open>The transport\<close>

text \<open>\<open>media_in\<close> are the children of the directory of the media applications; the period of the timer is counted in half seconds.\<close>

record ice_stream =
  ice_cr :: u32
  sockv4 :: int
  sockv4_ctl :: int
  timer_counter :: nat
  timer_repeat :: nat
  cands :: "x_candidate list"
  locals :: "nat list"
  remotes :: "nat list"
  c_pairs :: "cand_pair list"
  c_pair_last_success :: "nat option"
  media_owner_cache :: "ptr list"
  ice_attrs :: attr_list
  ice_kids :: "(string \<times> attr_list) list"
  media_in :: "(string \<times> addr) list"
  rand_count :: nat

text \<open>
  What the transport takes from elsewhere: \<^verbatim>\<open>inet_aton\<close>, the results of \<^verbatim>\<open>random\<close> in their order,
  the attributes of the objects above it, the contents of uninitialised memory, the bytes of the
  pointers that are sent as a priority or taken for a port number, and the result of sending.
\<close>

record ice_env =
  stun :: stun_env
  aton :: "string \<Rightarrow> u32 option"
  rand :: "nat \<Rightarrow> u32"
  up_env :: "string \<Rightarrow> string option"
  ijunk :: "nat \<Rightarrow> u8"
  prio_ptr :: "u8 list"
  port_ptr :: u16
  addr_junk :: u32
  send_result :: "u8 list \<Rightarrow> int"

datatype ice_out =
    Datagram int sockaddr "u8 list"
  | MediaWrite addr "u8 list" int attr_list
  | WriteOut "u8 list" int attr_list
  | CandidateNew attr_list
  | RefGet addr
  | RefPut addr

definition ice_getenv :: "ice_env \<Rightarrow> ice_stream \<Rightarrow> string \<Rightarrow> string option" where
  "ice_getenv env s k = (case getattr (Some k) (Some (ice_attrs s)) of Some v \<Rightarrow> Some v | None \<Rightarrow> up_env env k)"

definition ice_random :: "ice_env \<Rightarrow> ice_stream \<Rightarrow> u32 \<times> ice_stream" where
  "ice_random env s = (rand env (rand_count s), s\<lparr>rand_count := rand_count s + 1\<rparr>)"

text \<open>The first child whose name matches, and a child added behind the others.\<close>

definition kid_named :: "(string \<times> 'a) list \<Rightarrow> string \<Rightarrow> 'a option" where
  "kid_named ks nm = map_option snd (find (\<lambda>(n, _). EQN n nm) ks)"

section \<open>Candidates\<close>

definition push_pair :: "ice_env \<Rightarrow> nat option \<Rightarrow> nat \<Rightarrow> ice_stream \<Rightarrow> ice_stream option" where
  "push_pair env l r s =
     (let (n, s1) = ice_random env s
      in if length (c_pairs s1) < MAX_CONN_PAIRS
         then Some (s1\<lparr>c_pairs := c_pairs s1 @ [\<lparr>p_local = l, p_remote = r, p_stream = n, p_state = NICE_CHECK_WAITING\<rparr>]\<rparr>)
         else None)"

fun local_pairs :: "ice_env \<Rightarrow> nat \<Rightarrow> nat list \<Rightarrow> ice_stream \<Rightarrow> ice_stream option" where
  "local_pairs env cand [] s = Some s"
| "local_pairs env cand (r # rs) s = do { s1 \<leftarrow> push_pair env (Some cand) r s; local_pairs env cand rs s1 }"

text \<open>
  The loop over the remote candidates stops at \<open>remotes_top\<close>; its second test compares with
  \<^verbatim>\<open>ice->remotes[MAX_CONN_PAIRS]\<close>, the value behind the table, which is the next member of the
  structure, \<open>remotes_top\<close> itself, so inside the object it only repeats the first test. Nothing
  stops the loop when the table of pairs is full.
\<close>

definition icectl_insert_local_candidate :: "ice_env \<Rightarrow> nat \<Rightarrow> ice_stream \<Rightarrow> ice_stream option" where
  "icectl_insert_local_candidate env cand s =
     (if MAX_CONN_PAIRS \<le> length (locals s) then Some s
      else local_pairs env cand (remotes s) (s\<lparr>locals := locals s @ [cand]\<rparr>))"

text \<open>Only the first local candidate is paired; the table starts with null pointers.\<close>

definition icectl_insert_remote_candidate :: "ice_env \<Rightarrow> nat \<Rightarrow> ice_stream \<Rightarrow> ice_stream option" where
  "icectl_insert_remote_candidate env remote s =
     (if MAX_CONN_PAIRS \<le> length (remotes s) then Some s
      else let s1 = s\<lparr>remotes := remotes s @ [remote]\<rparr>
           in push_pair env (case locals s1 of [] \<Rightarrow> None | l # _ \<Rightarrow> Some l) remote s1)"

text \<open>The inner option is the test of the result: null when there is no address.\<close>

definition icestun_xobj_to_sockaddr_in :: "ice_env \<Rightarrow> attr_list \<Rightarrow> sockaddr option option" where
  "icestun_xobj_to_sockaddr_in env at =
     (let portnum = getattr (Some ''port'') (Some at);
          ipaddr = (case getattr (Some ''ip'') (Some at) of Some v \<Rightarrow> Some v | None \<Rightarrow> getattr (Some ''address'') (Some at))
      in case (portnum, ipaddr) of
           (Some p, Some ip) \<Rightarrow> do {
             n \<leftarrow> atoi p;
             Some (map_option (\<lambda>a. IP4 \<lparr>sin_port = htons (word_of_int n), sin_addr = a\<rparr>) (aton env ip))
           }
         | _ \<Rightarrow> Some None)"

definition new_candidate :: "x_candidate \<Rightarrow> ice_stream \<Rightarrow> nat \<times> ice_stream" where
  "new_candidate c s = (length (cands s), s\<lparr>cands := cands s @ [c]\<rparr>)"

definition first_some :: "'a option \<Rightarrow> 'a option \<Rightarrow> 'a option" where
  "first_some a b = (case a of Some _ \<Rightarrow> a | None \<Rightarrow> b)"

text \<open>
  The child, by its name and attributes, has been appended; its attributes may change. The stream
  number of a remote candidate is not set and not read.
\<close>

definition icectl_on_child_append ::
  "ice_env \<Rightarrow> string \<Rightarrow> attr_list \<Rightarrow> ice_stream \<Rightarrow> (attr_list \<times> ice_out list \<times> ice_stream) option" where
  "icectl_on_child_append env nm at s =
     (if strcaseeq ''local-candidate'' nm then do {
        ad \<leftarrow> icestun_xobj_to_sockaddr_in env at;
        case ad of
          None \<Rightarrow> Some (at, [], s)
        | Some a \<Rightarrow>
            let (c, s1) = new_candidate \<lparr>cd_addr = a, cd_user = None, cd_pass = None, cd_stream = 0\<rparr> s
            in do {
              s2 \<leftarrow> icectl_insert_local_candidate env c s1;
              let (n, s3) = ice_random env s2;
                  s4 = s3\<lparr>cands := (cands s3)[c := (cands s3 ! c)\<lparr>cd_stream := n\<rparr>]\<rparr>;
                  at1 = set_hint ''id'' (sprintf_d (sint n)) at
              in Some (at1, [CandidateNew at1], s4)
            }
      }
      else if strcaseeq ''candidate'' nm then do {
        ad \<leftarrow> icestun_xobj_to_sockaddr_in env at;
        case ad of
          None \<Rightarrow> Some (at, [], s)
        | Some a \<Rightarrow>
            let own = (\<lambda>k. getattr (Some k) (Some at));
                user = first_some (own ''username'') (first_some (own ''ufrag'') (ice_getenv env s ''ufrag''));
                pass = first_some (own ''password'') (first_some (own ''pwd'') (ice_getenv env s ''pwd''));
                (c, s1) = new_candidate \<lparr>cd_addr = a, cd_user = user, cd_pass = pass, cd_stream = 0\<rparr> s
            in do {
              s2 \<leftarrow> icectl_insert_remote_candidate env c s1;
              Some (at, [], s2)
            }
      }
      else Some (at, [], s))"

definition ice_insert :: "ice_env \<Rightarrow> string \<Rightarrow> attr_list \<Rightarrow> ice_stream \<Rightarrow> (ice_out list \<times> ice_stream) option" where
  "ice_insert env nm at s = do {
     (at1, outs, s1) \<leftarrow> icectl_on_child_append env nm at (s\<lparr>ice_kids := ice_kids s @ [(nm, at)], ice_cr := ice_cr s OR XOBJ_CR_DIRTY\<rparr>);
     Some (outs, s1\<lparr>ice_kids := (ice_kids s1)[length (ice_kids s) := (nm, at1)]\<rparr>)
   }"

section \<open>Connectivity checks\<close>

text \<open>A request to every pair that has not been answered; \<open>qs\<close> are the pairs from the one at \<open>i\<close> on.\<close>

definition check_request :: "ice_env \<Rightarrow> ice_stream \<Rightarrow> x_candidate \<Rightarrow> (ice_out \<times> ice_stream) option" where
  "check_request env s rc =
     (let (v, s1) = ice_random env s; (t, s2) = ice_random env s1
      in case (cd_user rc, cd_pass rc) of
           (Some u, Some p) \<Rightarrow> do {
             msg \<leftarrow> get_stun_full_request (stun env) (prio_ptr env) (le32 v @ [0, 0, 0, 0]) (unat t)
                     (map_option bytes_of (ice_getenv env s ''ufrag'')) (Some (bytes_of u)) (Some (bytes_of p));
             m \<leftarrow> msg;
             mlen \<leftarrow> get16 m 2;
             dat \<leftarrow> mem_read m 0 (20 + unat (htons mlen));
             let sock = (if htons (port_of (cd_addr rc)) AND 1 \<noteq> 0 then sockv4_ctl s else sockv4 s) in
             Some (Datagram sock (cd_addr rc) dat, s2)
           }
         | _ \<Rightarrow> None)"

fun resend_loop :: "ice_env \<Rightarrow> nat \<Rightarrow> cand_pair list \<Rightarrow> ice_stream \<Rightarrow> (ice_out list \<times> ice_stream) option" where
  "resend_loop env i [] s = Some ([], s)"
| "resend_loop env i (q # qs) s =
     (if p_state q = NICE_CHECK_WAITING \<or> p_state q = NICE_CHECK_IN_PROGRESS then do {
        (d, s1) \<leftarrow> check_request env s (cands s ! p_remote q);
        (ds, s2) \<leftarrow> resend_loop env (i + 1) qs (s1\<lparr>c_pairs := (c_pairs s1)[i := q\<lparr>p_state := NICE_CHECK_IN_PROGRESS\<rparr>]\<rparr>);
        Some (d # ds, s2)
      } else resend_loop env (i + 1) qs s)"

definition icestun_resend_candidates :: "ice_env \<Rightarrow> ice_stream \<Rightarrow> (ice_out list \<times> ice_stream) option" where
  "icestun_resend_candidates env s = resend_loop env 0 (c_pairs s) s"

text \<open>The port is taken from the bits of a pointer, since the result of the look-up is assigned to the number.\<close>

definition icestun_resend_stun :: "ice_env \<Rightarrow> ice_stream \<Rightarrow> (ice_out list \<times> ice_stream) option" where
  "icestun_resend_stun env s =
     (let stunname = (case ice_getenv env s ''stunserver'' of Some v \<Rightarrow> v | None \<Rightarrow> ''216.143.130.36'');
          ip = (case aton env stunname of Some a \<Rightarrow> a | None \<Rightarrow> addr_junk env);
          srv = IP4 \<lparr>sin_port = htons (port_ptr env), sin_addr = ip\<rparr>;
          (r1, s1) = ice_random env s; (r2, s2) = ice_random env s1; (r3, s3) = ice_random env s2
      in do {
        m \<leftarrow> get_stun_simple_request (stun env) r1 r2 r3;
        mlen \<leftarrow> get16 m 2;
        dat \<leftarrow> mem_read m 0 (20 + unat (htons mlen));
        Some ([Datagram (sockv4_ctl s) srv dat, Datagram (sockv4 s) srv dat], s3)
      })"

definition icectl_Periodic :: "ice_env \<Rightarrow> bool \<Rightarrow> ice_stream \<Rightarrow> (ice_out list \<times> ice_stream) option" where
  "icectl_Periodic env timeout s =
     (if timeout then do {
        (o1, s1) \<leftarrow> icestun_resend_candidates env s;
        (o2, s2) \<leftarrow> icestun_resend_stun env s1;
        let s3 = s2\<lparr>timer_counter := timer_counter s2 + 1\<rparr>;
            s4 = (if ICE_STUN_RELAXATION_COUNT < timer_counter s3 then s3\<lparr>timer_counter := 0, timer_repeat := timer_repeat s3 * 2\<rparr> else s3)
        in Some (o1 @ o2, s4)
      } else Some ([], s))"

text \<open>The first pair that waits for an answer from this address.\<close>

fun find_waiting :: "x_candidate list \<Rightarrow> sockaddr \<Rightarrow> cand_pair list \<Rightarrow> nat option" where
  "find_waiting cs from [] = None"
| "find_waiting cs from (q # qs) =
     (if p_state q = NICE_CHECK_IN_PROGRESS \<and> netaddr_equals (cd_addr (cs ! p_remote q)) from then Some 0
      else map_option Suc (find_waiting cs from qs))"

definition pair_succeeded :: "nat \<Rightarrow> ice_stream \<Rightarrow> ice_stream" where
  "pair_succeeded i s =
     (let s1 = s\<lparr>c_pairs := (c_pairs s)[i := (c_pairs s ! i)\<lparr>p_state := NICE_CHECK_SUCCEEDED\<rparr>]\<rparr>
      in if ice_cr s1 AND ICE_FLAG_RTP_SUCCEEDED = 0
         then s1\<lparr>ice_cr := ice_cr s1 OR ICE_FLAG_RTP_SUCCEEDED,
                 c_pair_last_success := (case c_pair_last_success s1 of None \<Rightarrow> Some i | Some j \<Rightarrow> Some j)\<rparr>
         else s1)"

text \<open>The mapped address of a response of the older kind: its port, and its four bytes as they lie in memory.\<close>

definition mapped_address :: "stun_packet \<Rightarrow> (u16 \<times> u32) option option" where
  "mapped_address pkt = (case attr_index (take (attrnum pkt) (attrs pkt)) 1 of
       None \<Rightarrow> Some None
     | Some i \<Rightarrow> do {
         d \<leftarrow> attr_data (attrs pkt ! i);
         p \<leftarrow> get16 d 2;
         a \<leftarrow> get32 d 4;
         Some (Some (htons p, a))
       })"

definition inet_ntop :: "u32 \<Rightarrow> string" where
  "inet_ntop a = (case map (\<lambda>b. dec_string (unat b)) (le32 a) of
       [b1, b2, b3, b4] \<Rightarrow> b1 @ ''.'' @ b2 @ ''.'' @ b3 @ ''.'' @ b4
     | _ \<Rightarrow> [])"

definition same_candidate :: "string \<Rightarrow> string \<Rightarrow> attr_list \<Rightarrow> bool" where
  "same_candidate ip port at =
     (case (first_some (getattr (Some ''ip'') (Some at)) (getattr (Some ''address'') (Some at)), getattr (Some ''port'') (Some at)) of
        (Some a1, Some a2) \<Rightarrow> strcaseeq a1 ip \<and> strcaseeq a2 port
      | _ \<Rightarrow> False)"

definition mapped_attrs :: "string \<Rightarrow> string \<Rightarrow> u16 \<Rightarrow> attr_list" where
  "mapped_attrs ip port n =
     foldl (\<lambda>at (k, v). set_hint k v at) []
       [(''ip'', ip), (''address'', ip), (''port'', port), (''rel-addr'', ip), (''rel-port'', port), (''type'', ''srflx''),
        (''protocol'', ''udp''), (''network'', ''0''), (''component'', if n AND 1 \<noteq> 0 then ''2'' else ''1''),
        (''generation'', ''0''), (''foundation'', ''0''), (''priority'', ''1694498815'')]"

text \<open>What a response does to the pairs, and what it does when it tells an address of this side.\<close>

definition mark_answered :: "sockaddr_in \<Rightarrow> u32 \<Rightarrow> ice_stream \<Rightarrow> ice_stream" where
  "mark_answered from cookie s =
     (if cookie = STUN_NET_M_COOKIE then
        (case find_waiting (cands s) (IP4 from) (c_pairs s) of None \<Rightarrow> s | Some i \<Rightarrow> pair_succeeded i s)
      else s)"

definition add_mapped :: "ice_env \<Rightarrow> (u16 \<times> u32) option \<Rightarrow> ice_stream \<Rightarrow> (ice_out list \<times> ice_stream) option" where
  "add_mapped env m s = (case m of
       None \<Rightarrow> Some ([], s)
     | Some (n, a) \<Rightarrow>
         let ip = inet_ntop a; port = sprintf_d (uint n)
         in if \<exists>(nm, at) \<in> set (ice_kids s). EQN nm ''local-candidate'' \<and> same_candidate ip port at
            then Some ([], s)
            else ice_insert env ''local-candidate'' (mapped_attrs ip port n) s)"

definition ice_stun_response :: "ice_env \<Rightarrow> sockaddr_in \<Rightarrow> u8 list \<Rightarrow> ice_stream \<Rightarrow> (ice_out list \<times> ice_stream) option" where
  "ice_stun_response env from buf s = do {
     cookie \<leftarrow> get32 buf 4;
     pkt \<leftarrow> stun_packet_from_hdr (stun env) buf None;
     m \<leftarrow> mapped_address pkt;
     add_mapped env m (mark_answered from cookie s)
   }"

section \<open>Packets that come in\<close>

text \<open>
  \<open>buf\<close> is the block the packet was received into, \<open>len\<close> the length of the packet. What the media
  application gets is the rest of the block behind the RTP header and a length.
\<close>

definition route_rtp_packet_in :: "u8 list \<Rightarrow> int \<Rightarrow> ice_stream \<Rightarrow> (ice_out list \<times> ice_stream) option" where
  "route_rtp_packet_in buf len s = do {
     b \<leftarrow> mem_read buf 1 1;
     let pt = unat (hd b AND 0x7F);
     let tmpstr = sprintf_d (int pt);
     let hints = set_hint ''id'' tmpstr [];
     c \<leftarrow> mem_read (media_owner_cache s) pt 1;
     let plen = len - 12;
     let payload = drop 12 buf;
     (case hd c of
        Some a \<Rightarrow> Some ([MediaWrite a payload plen hints, WriteOut payload plen hints], s)
      | None \<Rightarrow> (case kid_named (media_in s) tmpstr of
            None \<Rightarrow> Some ([], s)
          | Some a \<Rightarrow> Some ([RefGet a, MediaWrite a payload plen hints, WriteOut payload plen hints],
                            s\<lparr>media_owner_cache := (media_owner_cache s)[pt := Some a]\<rparr>)))
   }"

definition route_rtcp_packet_in :: "u8 list \<Rightarrow> int \<Rightarrow> ice_stream \<Rightarrow> (ice_out list \<times> ice_stream) option" where
  "route_rtcp_packet_in buf len s = Some ([], s)"

definition on_packet_in :: "ice_env \<Rightarrow> sockaddr_in \<Rightarrow> u32 \<Rightarrow> u8 list \<Rightarrow> int \<Rightarrow> ice_stream \<Rightarrow> (ice_out list \<times> ice_stream) option" where
  "on_packet_in env from flags buf len s = do {
     let is_rtp = NOT (flags AND 1);
     let sockfd = (if is_rtp \<noteq> 0 then sockv4 s else sockv4_ctl s);
     typ \<leftarrow> get16 buf 0;
     b \<leftarrow> mem_read buf 0 1;
     if typ = htons STUN_REQ then do {
       r \<leftarrow> stun_get_response (stun env) (map_option bytes_of (getattr (Some ''pwd'') (Some (ice_attrs s)))) (Some buf) (Some from);
       resp \<leftarrow> r;
       mlen \<leftarrow> get16 resp 2;
       dat \<leftarrow> mem_read resp 0 (20 + unat (htons mlen));
       Some ([Datagram sockfd (IP4 from) dat], s)
     }
     else if typ = htons STUN_RESP then ice_stun_response env from buf s
     else if hd b \<noteq> 0 then
       (if is_rtp \<noteq> 0 then route_rtp_packet_in buf len s else route_rtcp_packet_in buf len s)
     else Some ([], s)
   }"

text \<open>A packet is received into a block of 2048 bytes; the flag is the lowest bit of the number of the socket.\<close>

definition icectl_recvmsg :: "ice_env \<Rightarrow> (nat \<Rightarrow> u8) \<Rightarrow> int \<Rightarrow> (sockaddr_in \<times> u8 list) option \<Rightarrow> ice_stream \<Rightarrow> (ice_out list \<times> ice_stream) option" where
  "icectl_recvmsg env junk sock msg s = (case msg of
       None \<Rightarrow> Some ([], s)
     | Some (from, dat) \<Rightarrow>
         on_packet_in env from (word_of_int sock AND 1) (mem_resize junk (take 2048 dat) 2048) (int (min (length dat) 2048)) s)"

section \<open>Writing media\<close>

text \<open>
  The search for a pair that was validated: the result is the pair whose addresses are used, and
  whether its address can be kept.
\<close>

fun find_valid :: "x_candidate list \<Rightarrow> cand_pair list \<Rightarrow> nat \<Rightarrow> nat option \<Rightarrow> nat option \<times> nat option" where
  "find_valid cs [] i found = (found, None)"
| "find_valid cs (q # qs) i found =
     (if p_state q = NICE_CHECK_SUCCEEDED \<and> htons (port_of (cd_addr (cs ! p_remote q))) AND 1 = 0 then
        (case cd_addr (cs ! p_remote q) of
           IP4 a \<Rightarrow> if sin_addr a \<noteq> 0 then (Some i, Some i) else find_valid cs qs (i + 1) (Some i)
         | IP6 _ _ \<Rightarrow> find_valid cs qs (i + 1) (Some i))
      else find_valid cs qs (i + 1) found)"

definition opt_put :: "u8 list \<Rightarrow> attr_list option \<Rightarrow> string \<Rightarrow> nat \<Rightarrow> (int \<Rightarrow> u8 list) \<Rightarrow> u8 list option" where
  "opt_put rtp attr key off enc = (case getattr (Some key) attr of
       None \<Rightarrow> Some rtp
     | Some str \<Rightarrow> do { n \<leftarrow> atoi str; mem_write rtp off (enc n) })"

text \<open>The header; a time stamp or a number that is missing leaves its bytes as they were.\<close>

definition rtp_header :: "ice_env \<Rightarrow> u32 \<Rightarrow> attr_list option \<Rightarrow> u8 list option" where
  "rtp_header env ssrc attr = do {
     let rtp0 = map (ijunk env) [0..<12];
     str \<leftarrow> getattr (Some ''pt'') attr;
     pt \<leftarrow> atoi str;
     rtp1 \<leftarrow> mem_write rtp0 0 [push_bit 6 2, word_of_int pt AND 0x7F];
     rtp2 \<leftarrow> opt_put rtp1 attr ''timestamp'' 4 (\<lambda>n. le32 (htonl (word_of_int n)));
     rtp3 \<leftarrow> mem_write rtp2 8 (le32 (htonl ssrc));
     opt_put rtp3 attr ''seqno'' 2 (\<lambda>n. le16 (htons (word_of_int n)))
   }"

definition icectl_try_write :: "ice_env \<Rightarrow> u8 list \<Rightarrow> attr_list option \<Rightarrow> ice_stream \<Rightarrow> (int \<times> ice_out list \<times> ice_stream) option" where
  "icectl_try_write env buf attr s =
     (if ice_cr s AND ICE_FLAG_RTP_SUCCEEDED = 0 then Some (-1, [], s)
      else let sockfd = (case getattr (Some ''type'') attr of
                 None \<Rightarrow> sockv4 s | Some t \<Rightarrow> if strcaseeq t ''control'' then sockv4_ctl s else sockv4 s);
               (found, s1) = (case c_pair_last_success s of
                   Some i \<Rightarrow> (Some i, s)
                 | None \<Rightarrow> let (fd, l) = find_valid (cands s) (c_pairs s) 0 None in (fd, s\<lparr>c_pair_last_success := l\<rparr>))
           in (case found of
                 None \<Rightarrow> Some (-1, [], s1)
               | Some i \<Rightarrow> do {
                   let q = c_pairs s1 ! i;
                   ssrc \<leftarrow> (case c_pair_last_success s1 of
                        None \<Rightarrow> Some (addr_junk env)
                      | Some j \<Rightarrow> do { l \<leftarrow> p_local (c_pairs s1 ! j); Some (cd_stream (cands s1 ! l)) });
                   rtp \<leftarrow> rtp_header env ssrc attr;
                   Some (send_result env (rtp @ buf), [Datagram sockfd (cd_addr (cands s1 ! p_remote q)) (rtp @ buf)], s1)
                 }))"

text \<open>
  A write of several blocks: the first holds the address it goes to, which is the caller's and is
  compared with nothing, the second an address that is not used, the third the bytes; they go out
  as they are, without an RTP header. A block that holds anything else is not an address.
\<close>

datatype iov_block = IovAddr sockaddr | IovBytes "u8 list"

definition icectl_try_writev :: "ice_env \<Rightarrow> iov_block list \<Rightarrow> attr_list option \<Rightarrow> ice_stream \<Rightarrow> (int \<times> ice_out list \<times> ice_stream) option" where
  "icectl_try_writev env iov attr s =
     (if ice_cr s AND ICE_FLAG_RTP_SUCCEEDED = 0 then Some (-1, [], s)
      else if length iov < 3 then Some (-1, [], s)
      else let sockfd = (case getattr (Some ''type'') attr of
                 None \<Rightarrow> sockv4 s | Some t \<Rightarrow> if strcaseeq t ''control'' then sockv4_ctl s else sockv4 s)
           in (case (iov ! 0, iov ! 2) of
                 (IovAddr dst, IovBytes dat) \<Rightarrow> Some (1, [Datagram sockfd dst dat], s)
               | _ \<Rightarrow> None))"

section \<open>The life of a transport\<close>

definition icectl_on_create :: "ice_env \<Rightarrow> ice_stream" where
  "icectl_on_create env =
     (let r1 = rand env 0; r2 = rand env 1;
          four = (let d = dec_string (unat r1) in replicate (4 - length d) (CHR ''0'') @ d);
          eight = (let d = dec_string (unat r2) in replicate (8 - length d) (CHR ''0'') @ d);
          at = set_hint ''pwd'' (''ice'' @ eight) (set_hint ''ufrag'' (take 4 four) (set_hint ''xmlns'' ''urn:xmpp:jingle:transports:ice-udp:1'' []))
      in \<lparr>ice_cr = 0, sockv4 = 0, sockv4_ctl = 0, timer_counter = 0, timer_repeat = 1, cands = [], locals = [], remotes = [], c_pairs = [],
          c_pair_last_success = None, media_owner_cache = replicate PAYLOAD_CACHE_SIZE None, ice_attrs = at, ice_kids = [],
          media_in = [], rand_count = 2\<rparr>)"

text \<open>The two children of every network interface; the second is a copy of the first with its number.\<close>

fun collect_local_candidates :: "ice_env \<Rightarrow> nat \<Rightarrow> nat \<Rightarrow> string option list \<Rightarrow> ice_stream \<Rightarrow> (ice_out list \<times> ice_stream) option" where
  "collect_local_candidates env data_port ctl_port [] s = Some ([], s)"
| "collect_local_candidates env data_port ctl_port (ip # ips) s = do {
     let at = foldl (\<lambda>at (k, v). set_hint k v at) (case ip of None \<Rightarrow> [] | Some i \<Rightarrow> set_hint ''ip'' i [])
           [(''port'', dec_string data_port), (''type'', ''host''), (''protocol'', ''udp''), (''component'', ''1''), (''generation'', ''0''),
            (''foundation'', ''0''), (''network'', ''0''), (''priority'', ''2130705663'')];
     (o1, s1) \<leftarrow> ice_insert env ''local-candidate'' at s;
     let at1 = snd (last (ice_kids s1));
     (o2, s2) \<leftarrow> ice_insert env ''local-candidate'' (set_hint ''component'' ''2'' (set_hint ''port'' (dec_string ctl_port) at1)) s1;
     (o3, s3) \<leftarrow> collect_local_candidates env data_port ctl_port ips s2;
     Some (o1 @ o2 @ o3, s3)
   }"

text \<open>The sockets have been made and bound to the two ports; \<open>ips\<close> are the addresses of the interfaces.\<close>

definition icectl_on_append :: "ice_env \<Rightarrow> int \<Rightarrow> int \<Rightarrow> nat \<Rightarrow> nat \<Rightarrow> string option list \<Rightarrow> ice_stream \<Rightarrow> (ice_out list \<times> ice_stream) option" where
  "icectl_on_append env v4 v4_ctl data_port ctl_port ips s =
     collect_local_candidates env data_port ctl_port ips (s\<lparr>ice_cr := 1, sockv4 := v4, sockv4_ctl := v4_ctl\<rparr>)"

text \<open>
  The references that were taken for the table are dropped, and the table keeps its entries. The
  applications stay children of the directory of the media, which holds a reference of its own on
  each of them and which none of the events here takes them out of, so after one removal the entries
  are still valid, without a reference; a second removal would drop references that are not held,
  and a program that takes an application out of the directory would leave a stale entry.
\<close>

definition icectl_on_remove :: "ice_stream \<Rightarrow> ice_out list \<times> ice_stream" where
  "icectl_on_remove s =
     (map (\<lambda>c. RefPut (the c)) (filter (\<lambda>c. c \<noteq> None) (media_owner_cache s)), s\<lparr>ice_cr := ice_cr s AND NOT ICE_FLAG_RTP_SUCCEEDED\<rparr>)"

section \<open>The directory of payloads\<close>

text \<open>\<^verbatim>\<open>payload_ctl.c\<close>: a write goes to the child that the attribute \<open>id\<close> names; the result is that child, or none for an error.\<close>

definition payloadctl_try_write :: "u32 \<Rightarrow> (string \<times> addr) list \<Rightarrow> u8 list \<Rightarrow> int \<Rightarrow> attr_list option \<Rightarrow> ice_out option" where
  "payloadctl_try_write cr kids buf len attr =
     (if cr = 0 then None
      else case attr of None \<Rightarrow> None
      | Some at \<Rightarrow> (case getattr (Some ''id'') attr of
            None \<Rightarrow> None
          | Some idstr \<Rightarrow> map_option (\<lambda>codec. MediaWrite codec buf len at) (kid_named kids idstr)))"

end
