(* ===== verification/Ice_Ctl_Claims.thy ===== *)
theory Ice_Ctl_Claims
  imports Ice_Ctl
begin

text \<open>
  What the transport guarantees over any sequence of events: media goes to an address that has
  answered a connectivity check, and to no other; and what the tables can hold.
\<close>

unbundle bit_operations_syntax

section \<open>Events\<close>

datatype ice_event =
    Append int int nat nat "string option list"
  | Kid string attr_list
  | Timer bool
  | Packet sockaddr_in u32 "u8 list" int
  | Media "u8 list" "attr_list option"
  | Writev "iov_block list" "attr_list option"
  | Offer "(string \<times> addr) list"
  | Remove

fun ice_step :: "ice_env \<Rightarrow> ice_event \<Rightarrow> ice_stream \<Rightarrow> (ice_out list \<times> ice_stream) option" where
  "ice_step env (Append v4 ctl p1 p2 ips) s = icectl_on_append env v4 ctl p1 p2 ips s"
| "ice_step env (Kid nm at) s = ice_insert env nm at s"
| "ice_step env (Timer b) s = icectl_Periodic env b s"
| "ice_step env (Packet frm flags buf len) s = on_packet_in env frm flags buf len s"
| "ice_step env (Media buf attr) s = map_option snd (icectl_try_write env buf attr s)"
| "ice_step env (Writev iov attr) s = map_option snd (icectl_try_writev env iov attr s)"
| "ice_step env (Offer ks) s = Some ([], s\<lparr>media_in := media_in s @ ks\<rparr>)"
| "ice_step env Remove s = Some (icectl_on_remove s)"

inductive ice_run :: "ice_env \<Rightarrow> (ice_event \<times> ice_out list) list \<Rightarrow> ice_stream \<Rightarrow> bool" for env where
  run_create: "ice_run env [] (icectl_on_create env)"
| run_event: "ice_run env tr s \<Longrightarrow> ice_step env e s = Some (outs, s') \<Longrightarrow> ice_run env (tr @ [(e, outs)]) s'"

section \<open>What was asked and what was answered\<close>

text \<open>One of the datagrams is the check request for a candidate with this address.\<close>

definition request_in :: "ice_env \<Rightarrow> sockaddr \<Rightarrow> ice_out list \<Rightarrow> bool" where
  "request_in env a outs \<longleftrightarrow> (\<exists>k d s0 rc s1. Datagram k a d \<in> set outs \<and> cd_addr rc = a \<and> check_request env s0 rc = Some (Datagram k a d, s1))"

definition asked :: "ice_env \<Rightarrow> (ice_event \<times> ice_out list) list \<Rightarrow> sockaddr \<Rightarrow> bool" where
  "asked env tr a \<longleftrightarrow> (\<exists>b outs. (Timer b, outs) \<in> set tr \<and> request_in env a outs)"

definition answered :: "ice_env \<Rightarrow> (ice_event \<times> ice_out list) list \<Rightarrow> sockaddr \<Rightarrow> bool" where
  "answered env tr a \<longleftrightarrow> (\<exists>tr1 frm flags buf len outs tr2. tr = tr1 @ (Packet frm flags buf len, outs) # tr2
     \<and> a = IP4 frm \<and> get16 buf 0 = Some (htons STUN_RESP) \<and> get32 buf 4 = Some STUN_NET_M_COOKIE \<and> asked env tr1 a)"

lemma asked_more: "asked env tr a \<Longrightarrow> asked env (tr @ tr') a"
  unfolding asked_def by auto

lemma answered_more: "answered env tr a \<Longrightarrow> answered env (tr @ tr') a"
  unfolding answered_def by (metis append.assoc append_Cons)

lemma netaddr_equals_eq [simp]: "netaddr_equals a b \<longleftrightarrow> a = b"
  by (cases a; cases b) auto

section \<open>The invariant\<close>

definition flag_set :: "ice_stream \<Rightarrow> bool" where
  "flag_set s \<longleftrightarrow> ice_cr s AND ICE_FLAG_RTP_SUCCEEDED \<noteq> 0"

definition pair_ok :: "ice_env \<Rightarrow> (ice_event \<times> ice_out list) list \<Rightarrow> x_candidate list \<Rightarrow> cand_pair \<Rightarrow> bool" where
  "pair_ok env tr cs q \<longleftrightarrow> p_remote q < length cs \<and>
     (p_state q = NICE_CHECK_WAITING \<or> p_state q = NICE_CHECK_IN_PROGRESS \<and> asked env tr (cd_addr (cs ! p_remote q))
      \<or> p_state q = NICE_CHECK_SUCCEEDED \<and> answered env tr (cd_addr (cs ! p_remote q)))"

definition last_ok :: "ice_stream \<Rightarrow> bool" where
  "last_ok s \<longleftrightarrow> (\<forall>i. c_pair_last_success s = Some i \<longrightarrow> i < length (c_pairs s) \<and> p_state (c_pairs s ! i) = NICE_CHECK_SUCCEEDED)
     \<and> (flag_set s \<longrightarrow> c_pair_last_success s \<noteq> None)"

text \<open>What is remembered for a payload type was offered under a name that the search for its number finds.\<close>

definition cache_ok :: "ice_stream \<Rightarrow> bool" where
  "cache_ok s \<longleftrightarrow> length (media_owner_cache s) = PAYLOAD_CACHE_SIZE
     \<and> (\<forall>pt a. pt < PAYLOAD_CACHE_SIZE \<longrightarrow> media_owner_cache s ! pt = Some a \<longrightarrow> (\<exists>nm. (nm, a) \<in> set (media_in s) \<and> EQN nm (sprintf_d (int pt))))"

definition ice_inv :: "ice_env \<Rightarrow> (ice_event \<times> ice_out list) list \<Rightarrow> ice_stream \<Rightarrow> bool" where
  "ice_inv env tr s \<longleftrightarrow> (\<forall>r \<in> set (remotes s). r < length (cands s)) \<and> (\<forall>q \<in> set (c_pairs s). pair_ok env tr (cands s) q) \<and> last_ok s \<and> cache_ok s"

text \<open>Adding candidates: what is there stays, new pairs wait.\<close>

definition grows :: "ice_stream \<Rightarrow> ice_stream \<Rightarrow> bool" where
  "grows s s' \<longleftrightarrow> (\<exists>cs ps. map cd_addr (cands s') = map cd_addr (cands s) @ cs \<and> c_pairs s' = c_pairs s @ ps
       \<and> (\<forall>q \<in> set ps. p_state q = NICE_CHECK_WAITING \<and> p_remote q < length (cands s')))
     \<and> (\<forall>r \<in> set (remotes s'). r < length (cands s'))
     \<and> c_pair_last_success s' = c_pair_last_success s \<and> (flag_set s' \<longrightarrow> flag_set s)
     \<and> media_owner_cache s' = media_owner_cache s \<and> media_in s' = media_in s"

lemma grows_cands:
  assumes "grows s s'" "i < length (cands s)"
  shows "i < length (cands s')" "cd_addr (cands s' ! i) = cd_addr (cands s ! i)"
proof -
  obtain cs where c: "map cd_addr (cands s') = map cd_addr (cands s) @ cs" using assms(1) unfolding grows_def by blast
  have "length (cands s') = length (cands s) + length cs" using arg_cong [OF c, of length] by simp
  then show l: "i < length (cands s')" using assms(2) by simp
  have "cd_addr (cands s' ! i) = map cd_addr (cands s') ! i" using l by simp
  also have "\<dots> = cd_addr (cands s ! i)" unfolding c using assms(2) by (simp add: nth_append)
  finally show "cd_addr (cands s' ! i) = cd_addr (cands s ! i)" .
qed

lemma pair_ok_mono:
  assumes "pair_ok env tr cs q" "p_remote q < length cs \<Longrightarrow> p_remote q < length cs' \<and> cd_addr (cs' ! p_remote q) = cd_addr (cs ! p_remote q)"
  shows "pair_ok env (tr @ tr') cs' q"
  using assms asked_more [of env tr _ tr'] answered_more [of env tr _ tr'] by (auto simp: pair_ok_def)

lemma grows_inv:
  assumes g: "grows s s'" and i: "ice_inv env tr s"
  shows "ice_inv env (tr @ tr') s'"
proof -
  obtain ps where p: "c_pairs s' = c_pairs s @ ps" "\<forall>q \<in> set ps. p_state q = NICE_CHECK_WAITING \<and> p_remote q < length (cands s')"
    using g unfolding grows_def by blast
  have "pair_ok env (tr @ tr') (cands s') q" if "q \<in> set (c_pairs s)" for q
  proof (rule pair_ok_mono)
    show "pair_ok env tr (cands s) q" using i that by (simp add: ice_inv_def)
    show "p_remote q < length (cands s') \<and> cd_addr (cands s' ! p_remote q) = cd_addr (cands s ! p_remote q)"
      if "p_remote q < length (cands s)" using grows_cands [OF g that] by blast
  qed
  moreover have "pair_ok env (tr @ tr') (cands s') q" if "q \<in> set ps" for q using p(2) that by (simp add: pair_ok_def)
  moreover have "last_ok s'" using i g p(1) by (auto simp: ice_inv_def last_ok_def grows_def nth_append)
  moreover have "\<forall>r \<in> set (remotes s'). r < length (cands s')" "cache_ok s'" using g i by (simp_all add: grows_def ice_inv_def cache_ok_def)
  ultimately show ?thesis unfolding ice_inv_def p(1) by auto
qed

lemma grows_refl: "\<forall>r \<in> set (remotes s). r < length (cands s) \<Longrightarrow> grows s s"
  by (simp add: grows_def)

lemma grows_trans:
  assumes "grows s s1" "grows s1 s2"
  shows "grows s s2"
proof -
  obtain cs ps where 1: "map cd_addr (cands s1) = map cd_addr (cands s) @ cs" "c_pairs s1 = c_pairs s @ ps"
    "\<forall>q \<in> set ps. p_state q = NICE_CHECK_WAITING \<and> p_remote q < length (cands s1)" using assms(1) unfolding grows_def by blast
  obtain cs' ps' where 2: "map cd_addr (cands s2) = map cd_addr (cands s1) @ cs'" "c_pairs s2 = c_pairs s1 @ ps'"
    "\<forall>q \<in> set ps'. p_state q = NICE_CHECK_WAITING \<and> p_remote q < length (cands s2)" using assms(2) unfolding grows_def by blast
  have "length (cands s2) = length (cands s1) + length cs'" using arg_cong [OF 2(1), of length] by simp
  then have "\<forall>q \<in> set (ps @ ps'). p_state q = NICE_CHECK_WAITING \<and> p_remote q < length (cands s2)" using 1(3) 2(3) by auto
  then show ?thesis using 1(1,2) 2(1,2) assms unfolding grows_def by (metis append.assoc)
qed

lemma random_fields [simp]:
  "fst (ice_random env s) = rand env (rand_count s)" "snd (ice_random env s) = s\<lparr>rand_count := rand_count s + 1\<rparr>"
  by (simp_all add: ice_random_def)

definition known :: "ice_stream \<Rightarrow> bool" where
  "known s \<longleftrightarrow> (\<forall>r \<in> set (remotes s). r < length (cands s))"

lemma grows_known: "grows s s' \<Longrightarrow> known s'"
  by (simp add: grows_def known_def)

lemma push_pair_grows:
  assumes "push_pair env l r s = Some s'" "r < length (cands s)" "known s"
  shows "grows s s'" "remotes s' = remotes s"
  using assms by (auto simp: push_pair_def ice_random_def grows_def known_def flag_set_def split: if_splits)

lemma local_pairs_grows:
  assumes "local_pairs env c rs s = Some s'" "\<forall>r \<in> set rs. r < length (cands s)" "known s"
  shows "grows s s'"
  using assms
proof (induction rs arbitrary: s)
  case Nil
  then show ?case by (simp add: grows_refl known_def)
next
  case (Cons r rs)
  from Cons.prems(1) obtain s1 where s1: "push_pair env (Some c) r s = Some s1" "local_pairs env c rs s1 = Some s'"
    by (auto simp: bind_eq_Some_conv)
  have g: "grows s s1" using push_pair_grows [OF s1(1)] Cons.prems(2,3) by simp
  have "\<forall>r \<in> set rs. r < length (cands s1)" using Cons.prems(2) grows_cands(1) [OF g] by simp
  from grows_trans [OF g Cons.IH [OF s1(2) this grows_known [OF g]]] show ?case .
qed

lemma new_candidate_grows:
  assumes "new_candidate c s = (n, s')" "known s"
  shows "grows s s'" "n < length (cands s')"
  using assms less_SucI by (auto simp: new_candidate_def grows_def known_def flag_set_def less_SucI)

lemma insert_local_grows:
  assumes "icectl_insert_local_candidate env c s = Some s'" "known s"
  shows "grows s s'"
proof (cases "MAX_CONN_PAIRS \<le> length (locals s)")
  case False
  let ?s = "s\<lparr>locals := locals s @ [c]\<rparr>"
  have "local_pairs env c (remotes s) ?s = Some s'" using assms(1) False by (simp add: icectl_insert_local_candidate_def)
  moreover have "\<forall>r \<in> set (remotes s). r < length (cands ?s)" "known ?s" using assms(2) by (simp_all add: known_def)
  ultimately have "grows ?s s'" by (rule local_pairs_grows)
  then show ?thesis by (simp add: grows_def flag_set_def)
qed (use assms in \<open>simp add: icectl_insert_local_candidate_def grows_refl known_def\<close>)

lemma insert_remote_grows:
  assumes "icectl_insert_remote_candidate env r s = Some s'" "known s" "r < length (cands s)"
  shows "grows s s'"
proof (cases "MAX_CONN_PAIRS \<le> length (remotes s)")
  case False
  let ?s = "s\<lparr>remotes := remotes s @ [r]\<rparr>"
  have "push_pair env (case locals ?s of [] \<Rightarrow> None | l # _ \<Rightarrow> Some l) r ?s = Some s'"
    using assms(1) False by (simp add: icectl_insert_remote_candidate_def)
  moreover have "r < length (cands ?s)" "known ?s" using assms(2,3) by (simp_all add: known_def)
  ultimately have "grows ?s s'" by (rule push_pair_grows)
  then show ?thesis by (simp add: grows_def flag_set_def)
qed (use assms in \<open>simp add: icectl_insert_remote_candidate_def grows_refl known_def\<close>)

lemma set_stream_grows:
  assumes "known s"
  shows "grows s (s\<lparr>cands := (cands s)[c := (cands s ! c)\<lparr>cd_stream := n\<rparr>], rand_count := k\<rparr>)"
proof -
  have "map cd_addr ((cands s)[c := (cands s ! c)\<lparr>cd_stream := n\<rparr>]) = map cd_addr (cands s)"
    by (cases "c < length (cands s)") (simp_all add: map_update list_update_same_conv list_update_beyond)
  then show ?thesis using assms by (simp add: grows_def known_def flag_set_def)
qed

lemma child_append_grows:
  assumes "icectl_on_child_append env nm at s = Some (at1, outs, s')" "known s"
  shows "grows s s'"
proof (cases "strcaseeq ''local-candidate'' nm")
  case True
  from assms(1) True obtain ad where ad: "icestun_xobj_to_sockaddr_in env at = Some ad"
    by (auto simp: icectl_on_child_append_def bind_eq_Some_conv)
  show ?thesis
  proof (cases ad)
    case None
    then show ?thesis using assms True ad by (simp add: icectl_on_child_append_def grows_refl known_def)
  next
    case (Some a)
    obtain c s1 where n: "new_candidate \<lparr>cd_addr = a, cd_user = None, cd_pass = None, cd_stream = 0\<rparr> s = (c, s1)" by fastforce
    note g1 = new_candidate_grows [OF n assms(2)]
    from assms(1) True ad Some n obtain s2 where s2: "icectl_insert_local_candidate env c s1 = Some s2"
      "s' = s2\<lparr>cands := (cands s2)[c := (cands s2 ! c)\<lparr>cd_stream := rand env (rand_count s2)\<rparr>], rand_count := rand_count s2 + 1\<rparr>"
      by (auto simp: icectl_on_child_append_def bind_eq_Some_conv ice_random_def Let_def)
    note g2 = insert_local_grows [OF s2(1) grows_known [OF g1(1)]]
    have "grows s2 s'" unfolding s2(2) by (rule set_stream_grows [OF grows_known [OF g2]])
    then show ?thesis using grows_trans [OF grows_trans [OF g1(1) g2]] by blast
  qed
next
  case False
  show ?thesis
  proof (cases "strcaseeq ''candidate'' nm")
    case True
    from assms(1) False True obtain ad where ad: "icestun_xobj_to_sockaddr_in env at = Some ad"
      by (auto simp: icectl_on_child_append_def bind_eq_Some_conv)
    show ?thesis
    proof (cases ad)
      case None
      then show ?thesis using assms False True ad by (simp add: icectl_on_child_append_def grows_refl known_def)
    next
      case (Some a)
      from assms(1) False True ad Some obtain u p c s1 where n: "new_candidate \<lparr>cd_addr = a, cd_user = u, cd_pass = p, cd_stream = 0\<rparr> s = (c, s1)"
        "icectl_insert_remote_candidate env c s1 = Some s'"
        by (auto simp: icectl_on_child_append_def bind_eq_Some_conv Let_def split: prod.splits)
      note g1 = new_candidate_grows [OF n(1) assms(2)]
      from grows_trans [OF g1(1) insert_remote_grows [OF n(2) grows_known [OF g1(1)] g1(2)]] show ?thesis .
    qed
  next
    case other: False
    then show ?thesis using assms False by (simp add: icectl_on_child_append_def grows_refl known_def)
  qed
qed

lemma dirty_flag: "(w OR XOBJ_CR_DIRTY) AND ICE_FLAG_RTP_SUCCEEDED = w AND ICE_FLAG_RTP_SUCCEEDED"
  by (simp add: bit.conj_disj_distrib2 XOBJ_CR_DIRTY_def ICE_FLAG_RTP_SUCCEEDED_def)

lemma ice_insert_grows:
  assumes "ice_insert env nm at s = Some (outs, s')" "known s"
  shows "grows s s'"
proof -
  let ?s = "s\<lparr>ice_kids := ice_kids s @ [(nm, at)], ice_cr := ice_cr s OR XOBJ_CR_DIRTY\<rparr>"
  from assms(1) obtain at1 s1 where s1: "icectl_on_child_append env nm at ?s = Some (at1, outs, s1)"
    "s' = s1\<lparr>ice_kids := (ice_kids s1)[length (ice_kids s) := (nm, at1)]\<rparr>" by (auto simp: ice_insert_def bind_eq_Some_conv)
  have "known ?s" using assms(2) by (simp add: known_def)
  from child_append_grows [OF s1(1) this] show ?thesis unfolding s1(2) by (simp add: grows_def flag_set_def dirty_flag)
qed

lemma collect_grows:
  assumes "collect_local_candidates env p1 p2 ips s = Some (outs, s')" "known s"
  shows "grows s s'"
  using assms
proof (induction ips arbitrary: s outs)
  case Nil
  then show ?case by (simp add: grows_refl known_def)
next
  case (Cons ip ips)
  from Cons.prems(1) obtain a1 o1 s1 a2 o2 s2 o3 where
    s: "ice_insert env ''local-candidate'' a1 s = Some (o1, s1)" "ice_insert env ''local-candidate'' a2 s1 = Some (o2, s2)"
      "collect_local_candidates env p1 p2 ips s2 = Some (o3, s')"
    by (auto simp: bind_eq_Some_conv Let_def)
  note g1 = ice_insert_grows [OF s(1) Cons.prems(2)]
  note g2 = ice_insert_grows [OF s(2) grows_known [OF g1]]
  from grows_trans [OF grows_trans [OF g1 g2] Cons.IH [OF s(3) grows_known [OF g2]]] show ?case .
qed

section \<open>Every event keeps the invariant\<close>

lemma inv_known: "ice_inv env tr s \<Longrightarrow> known s"
  by (simp add: ice_inv_def known_def)

lemma inv_more: "ice_inv env tr s \<Longrightarrow> ice_inv env (tr @ tr') s"
  using grows_inv [OF grows_refl] by (simp add: ice_inv_def)

lemma inv_fields:
  assumes "ice_inv env tr s" "remotes s' = remotes s" "cands s' = cands s" "c_pairs s' = c_pairs s"
    "c_pair_last_success s' = c_pair_last_success s" "flag_set s' \<Longrightarrow> flag_set s" "cache_ok s'"
  shows "ice_inv env tr s'"
  using assms by (auto simp: ice_inv_def last_ok_def)

text \<open>The requests of a timer event: every pair that has not been answered is asked.\<close>

definition unanswered :: "cand_pair \<Rightarrow> bool" where
  "unanswered q \<longleftrightarrow> p_state q = NICE_CHECK_WAITING \<or> p_state q = NICE_CHECK_IN_PROGRESS"

definition sent :: "cand_pair \<Rightarrow> cand_pair" where
  "sent q = (if unanswered q then q\<lparr>p_state := NICE_CHECK_IN_PROGRESS\<rparr> else q)"

definition same_but_pairs :: "ice_stream \<Rightarrow> ice_stream \<Rightarrow> bool" where
  "same_but_pairs s s' \<longleftrightarrow> cands s' = cands s \<and> remotes s' = remotes s \<and> c_pair_last_success s' = c_pair_last_success s \<and> ice_cr s' = ice_cr s
     \<and> media_owner_cache s' = media_owner_cache s \<and> media_in s' = media_in s"

lemma check_request_fields:
  assumes "check_request env s rc = Some (d, s')"
  shows "\<exists>k m. d = Datagram k (cd_addr rc) m" "s' = s\<lparr>rand_count := rand_count s + 2\<rparr>"
  using assms by (auto simp: check_request_def ice_random_def bind_eq_Some_conv Let_def split: option.splits)

lemma check_request_in: "check_request env s rc = Some (d, s') \<Longrightarrow> request_in env (cd_addr rc) (d # ds)"
  using check_request_fields(1) [of env s rc d s'] unfolding request_in_def by (metis list.set_intros(1))

lemma request_in_mono: "request_in env a ds \<Longrightarrow> set ds \<subseteq> set ds' \<Longrightarrow> request_in env a ds'"
  unfolding request_in_def by blast

lemma resend_loop_pairs:
  assumes "resend_loop env (length pre) qs s = Some (outs, s')" "c_pairs s = pre @ qs"
  shows "same_but_pairs s s' \<and> c_pairs s' = pre @ map sent qs
     \<and> (\<forall>q \<in> set qs. unanswered q \<longrightarrow> request_in env (cd_addr (cands s ! p_remote q)) outs)"
  using assms
proof (induction qs arbitrary: pre s outs)
  case (Cons q qs)
  show ?case
  proof (cases "unanswered q")
    case True
    from Cons.prems(1) True obtain d s1 ds where d: "check_request env s (cands s ! p_remote q) = Some (d, s1)" "outs = d # ds"
      "resend_loop env (length pre + 1) qs (s1\<lparr>c_pairs := (c_pairs s1)[length pre := q\<lparr>p_state := NICE_CHECK_IN_PROGRESS\<rparr>]\<rparr>) = Some (ds, s')"
      by (auto simp: bind_eq_Some_conv unanswered_def)
    note f = check_request_fields [OF d(1)]
    have "resend_loop env (length (pre @ [sent q])) qs (s1\<lparr>c_pairs := (pre @ [sent q]) @ qs\<rparr>) = Some (ds, s')"
      using d(3) f(2) Cons.prems(2) True by (simp add: sent_def)
    from Cons.IH [OF this] have ih: "same_but_pairs s s' \<and> c_pairs s' = (pre @ [sent q]) @ map sent qs
       \<and> (\<forall>q \<in> set qs. unanswered q \<longrightarrow> request_in env (cd_addr (cands s ! p_remote q)) ds)"
      using f(2) by (simp add: same_but_pairs_def)
    have "request_in env (cd_addr (cands s ! p_remote q)) outs"
      unfolding d(2) by (rule check_request_in [OF d(1)])
    with ih show ?thesis unfolding d(2) by (auto elim!: request_in_mono)
  next
    case False
    then have "resend_loop env (length (pre @ [q])) qs s = Some (outs, s')" using Cons.prems(1) by (simp add: unanswered_def)
    from Cons.IH [OF this] Cons.prems(2) False show ?thesis by (auto simp: sent_def)
  qed
qed (simp add: same_but_pairs_def)

lemma stun_request_fields:
  assumes "icestun_resend_stun env s = Some (outs, s')"
  shows "same_but_pairs s s'" "c_pairs s' = c_pairs s"
  using assms by (auto simp: icestun_resend_stun_def ice_random_def bind_eq_Some_conv Let_def same_but_pairs_def)

lemma pair_ok_sent:
  assumes "pair_ok env tr cs q" "unanswered q \<Longrightarrow> asked env (tr @ tr') (cd_addr (cs ! p_remote q))"
  shows "pair_ok env (tr @ tr') cs (sent q)"
  using assms answered_more [of env tr _ tr'] by (auto simp: pair_ok_def sent_def unanswered_def)

lemma periodic_inv:
  assumes "icectl_Periodic env b s = Some (outs, s')" "ice_inv env tr s"
  shows "ice_inv env (tr @ [(Timer b, outs)]) s'"
proof (cases b)
  case True
  from assms(1) True obtain o1 s1 o2 s2 where o1: "resend_loop env 0 (c_pairs s) s = Some (o1, s1)"
    and o2: "icestun_resend_stun env s1 = Some (o2, s2)" "outs = o1 @ o2"
    and s': "same_but_pairs s2 s'" "c_pairs s' = c_pairs s2"
    by (auto simp: icectl_Periodic_def icestun_resend_candidates_def bind_eq_Some_conv Let_def same_but_pairs_def split: if_splits)
  have r: "same_but_pairs s s1" "c_pairs s1 = map sent (c_pairs s)"
    "\<And>q. q \<in> set (c_pairs s) \<Longrightarrow> unanswered q \<Longrightarrow> request_in env (cd_addr (cands s ! p_remote q)) o1"
    using resend_loop_pairs [of env "[]" "c_pairs s" s o1 s1] o1 by auto
  note f = stun_request_fields [OF o2(1)]
  have same: "same_but_pairs s s'" using r(1) f(1) s'(1) by (simp add: same_but_pairs_def)
  have cp: "c_pairs s' = map sent (c_pairs s)" using r(2) f(2) s'(2) by simp
  have "pair_ok env (tr @ [(Timer b, outs)]) (cands s) (sent q)" if q: "q \<in> set (c_pairs s)" for q
  proof (rule pair_ok_sent)
    show "pair_ok env tr (cands s) q" using assms(2) q by (simp add: ice_inv_def)
    assume "unanswered q"
    then have "request_in env (cd_addr (cands s ! p_remote q)) outs" using r(3) [OF q] o2(2) by (auto elim: request_in_mono)
    then show "asked env (tr @ [(Timer b, outs)]) (cd_addr (cands s ! p_remote q))" by (auto simp: asked_def)
  qed
  moreover have "last_ok s'" using assms(2) same cp
    by (auto simp: ice_inv_def last_ok_def same_but_pairs_def flag_set_def sent_def unanswered_def)
  moreover have "cache_ok s'" using assms(2) same by (simp add: ice_inv_def same_but_pairs_def cache_ok_def)
  ultimately show ?thesis using assms(2) same cp by (auto simp: ice_inv_def same_but_pairs_def)
next
  case False
  then show ?thesis using assms inv_more by (simp add: icectl_Periodic_def)
qed

section \<open>Packets\<close>

lemma find_waiting_spec:
  "find_waiting cs from ps = Some i \<Longrightarrow> i < length ps \<and> p_state (ps ! i) = NICE_CHECK_IN_PROGRESS \<and> cd_addr (cs ! p_remote (ps ! i)) = from"
  by (induction ps arbitrary: i) (auto split: if_splits)

lemma pair_succeeded_inv:
  assumes inv: "ice_inv env tr s" and i: "i < length (c_pairs s)" "answered env tr (cd_addr (cands s ! p_remote (c_pairs s ! i)))"
  shows "ice_inv env tr (pair_succeeded i s)"
proof -
  let ?q = "(c_pairs s ! i)\<lparr>p_state := NICE_CHECK_SUCCEEDED\<rparr>"
  have f: "cands (pair_succeeded i s) = cands s" "remotes (pair_succeeded i s) = remotes s"
    "c_pairs (pair_succeeded i s) = (c_pairs s)[i := ?q]"
    by (auto simp: pair_succeeded_def Let_def)
  have "pair_ok env tr (cands s) ?q" using inv i nth_mem [OF i(1)] by (auto simp: ice_inv_def pair_ok_def)
  then have "\<forall>q \<in> set ((c_pairs s)[i := ?q]). pair_ok env tr (cands s) q"
    using inv set_update_subset_insert [of "c_pairs s" i ?q] by (auto simp: ice_inv_def)
  moreover have "last_ok (pair_succeeded i s)" using inv i(1)
    by (auto simp: ice_inv_def last_ok_def pair_succeeded_def Let_def flag_set_def nth_list_update split: option.splits)
  moreover have "cache_ok (pair_succeeded i s)" using inv by (auto simp: ice_inv_def pair_succeeded_def Let_def cache_ok_def)
  ultimately show ?thesis using inv f by (simp add: ice_inv_def)
qed

lemma last_answered:
  assumes "get16 buf 0 = Some (htons STUN_RESP)" "get32 buf 4 = Some STUN_NET_M_COOKIE" "asked env tr (IP4 frm)"
  shows "answered env (tr @ [(Packet frm flags buf len, outs)]) (IP4 frm)"
  using assms unfolding answered_def by blast

text \<open>Where a packet goes: to an application that was offered under a matching name, if there is one.\<close>

lemma find_kid:
  "kid_named ks nm = None \<longleftrightarrow> \<not> (\<exists>x \<in> set ks. EQN (fst x) nm)"
  "kid_named ks nm = Some a \<Longrightarrow> \<exists>n. (n, a) \<in> set ks \<and> EQN n nm"
  unfolding kid_named_def case_prod_unfold
   apply (auto simp: find_None_iff)
  apply (auto simp: find_Some_iff)
  apply (metis nth_mem prod.collapse snd_conv fst_conv)
  done

lemma route_cases:
  assumes "cache_ok s" "2 \<le> length buf"
  defines "pt \<equiv> unat (buf ! 1 AND 0x7F)" and "k \<equiv> drop 12 buf"
  shows "pt = 127 \<and> route_rtp_packet_in buf n s = None
     \<or> pt < 127 \<and> route_rtp_packet_in buf n s = Some ([], s) \<and> \<not> (\<exists>x \<in> set (media_in s). EQN (fst x) (sprintf_d (int pt)))
     \<or> (\<exists>a nm h first. pt < 127 \<and> (nm, a) \<in> set (media_in s) \<and> EQN nm (sprintf_d (int pt)) \<and> (first = [] \<or> first = [RefGet a])
          \<and> route_rtp_packet_in buf n s = Some (first @ [MediaWrite a k (n - 12) h, WriteOut k (n - 12) h],
               s\<lparr>media_owner_cache := (media_owner_cache s)[pt := Some a]\<rparr>))"
proof -
  let ?c = "media_owner_cache s" and ?nm = "sprintf_d (int pt)"
  have n: "length ?c = 127" using assms(1) by (simp add: cache_ok_def PAYLOAD_CACHE_SIZE_def)
  have b: "mem_read buf 1 1 = Some [buf ! 1]"
    using assms(2) by (cases buf; cases "tl buf"; simp add: mem_read_def)
  have "pt \<le> 127" unfolding pt_def using word_and_le1 [of "buf ! 1" "0x7F"] by (simp add: word_le_nat_alt)
  then consider "pt = 127" | "pt < 127" by linarith
  then show ?thesis
  proof cases
    case 1
    then have "mem_read ?c pt 1 = None" using n by (simp add: mem_read_def)
    then have "route_rtp_packet_in buf n s = None" using b by (simp add: route_rtp_packet_in_def pt_def Let_def)
    with 1 show ?thesis by blast
  next
    case 2
    have c: "mem_read ?c pt 1 = Some [?c ! pt]" using 2 n by (simp add: mem_read_def flip: Cons_nth_drop_Suc)
    have r: "route_rtp_packet_in buf n s = (case ?c ! pt of
        Some a \<Rightarrow> Some ([MediaWrite a k (n - 12) (set_hint ''id'' ?nm []), WriteOut k (n - 12) (set_hint ''id'' ?nm [])], s)
      | None \<Rightarrow> (case kid_named (media_in s) ?nm of None \<Rightarrow> Some ([], s)
          | Some a \<Rightarrow> Some ([RefGet a, MediaWrite a k (n - 12) (set_hint ''id'' ?nm []), WriteOut k (n - 12) (set_hint ''id'' ?nm [])],
                            s\<lparr>media_owner_cache := ?c[pt := Some a]\<rparr>)))"
      using b c [unfolded pt_def] by (simp add: route_rtp_packet_in_def pt_def k_def Let_def split: option.split)
    show ?thesis
    proof (cases "?c ! pt")
      case (Some a)
      obtain nm where nm: "(nm, a) \<in> set (media_in s)" "EQN nm ?nm" using assms(1) 2 Some by (auto simp: cache_ok_def PAYLOAD_CACHE_SIZE_def)
      have "s\<lparr>media_owner_cache := ?c[pt := Some a]\<rparr> = s" using Some list_update_id [of ?c pt] by simp
      with r Some have "route_rtp_packet_in buf n s = Some ([] @ [MediaWrite a k (n - 12) (set_hint ''id'' ?nm []), WriteOut k (n - 12) (set_hint ''id'' ?nm [])],
          s\<lparr>media_owner_cache := ?c[pt := Some a]\<rparr>)" by simp
      with 2 nm show ?thesis by blast
    next
      case None
      show ?thesis
      proof (cases "kid_named (media_in s) ?nm")
        case (Some a)
        obtain nm where nm: "(nm, a) \<in> set (media_in s)" "EQN nm ?nm" using find_kid(2) [OF Some] by blast
        have "route_rtp_packet_in buf n s = Some ([RefGet a] @ [MediaWrite a k (n - 12) (set_hint ''id'' ?nm []), WriteOut k (n - 12) (set_hint ''id'' ?nm [])],
          s\<lparr>media_owner_cache := ?c[pt := Some a]\<rparr>)" using r None Some by simp
        with 2 nm show ?thesis by blast
      qed (use 2 r None find_kid(1) [of "media_in s" ?nm] in simp)
    qed
  qed
qed

lemma route_inv:
  assumes "route_rtp_packet_in buf len s = Some (outs, s')" "ice_inv env tr s"
  shows "ice_inv env tr s'"
proof -
  have c: "cache_ok s" using assms(2) by (simp add: ice_inv_def)
  have b: "2 \<le> length buf" using assms(1) by (auto simp: route_rtp_packet_in_def bind_eq_Some_conv mem_read_def split: if_splits)
  from route_cases [OF c b, of len] assms(1) consider "s' = s"
    | a pt nm where "s' = s\<lparr>media_owner_cache := (media_owner_cache s)[pt := Some a]\<rparr>" "(nm, a) \<in> set (media_in s)" "EQN nm (sprintf_d (int pt))"
    by (elim disjE exE conjE) auto
  then show ?thesis
  proof cases
    case (2 a pt nm)
    have "\<exists>nm. (nm, b) \<in> set (media_in s) \<and> EQN nm (sprintf_d (int k))"
      if "k < PAYLOAD_CACHE_SIZE" "(media_owner_cache s)[pt := Some a] ! k = Some b" for k b
    proof (cases "k = pt")
      case True
      then have "a = b" using that c by (simp add: cache_ok_def)
      then show ?thesis using 2(2,3) True by blast
    next
      case False
      then show ?thesis using that c by (simp add: cache_ok_def)
    qed
    then have "cache_ok s'" using c 2(1) by (simp add: cache_ok_def)
    with 2(1) assms(2) show ?thesis by (intro inv_fields [OF assms(2)]) (simp_all add: flag_set_def)
  qed (use assms(2) in simp)
qed

lemma mark_answered_inv:
  assumes inv: "ice_inv env tr s" and ty: "get16 buf 0 = Some (htons STUN_RESP)" "get32 buf 4 = Some cookie"
  shows "ice_inv env (tr @ [(Packet frm flags buf len, outs)]) (mark_answered frm cookie s)"
proof (cases "cookie = STUN_NET_M_COOKIE \<and> find_waiting (cands s) (IP4 frm) (c_pairs s) \<noteq> None")
  case True
  then obtain i where i: "find_waiting (cands s) (IP4 frm) (c_pairs s) = Some i" by auto
  note w = find_waiting_spec [OF i]
  have "pair_ok env tr (cands s) (c_pairs s ! i)" using inv w by (simp add: ice_inv_def)
  then have "asked env tr (IP4 frm)" using w by (auto simp: pair_ok_def)
  with last_answered [OF ty(1)] ty(2) True
  have "answered env (tr @ [(Packet frm flags buf len, outs)]) (IP4 frm)" by blast
  with pair_succeeded_inv [OF inv_more [OF inv]] w i True show ?thesis by (simp add: mark_answered_def)
next
  case False
  then have "mark_answered frm cookie s = s" by (auto simp: mark_answered_def)
  then show ?thesis using inv_more [OF inv] by simp
qed

lemma add_mapped_inv:
  assumes "add_mapped env m s = Some (outs, s')" "ice_inv env tr s"
  shows "ice_inv env tr s'"
proof (cases "s' = s")
  case False
  then obtain at where "ice_insert env ''local-candidate'' at s = Some (outs, s')"
    using assms(1) by (auto simp: add_mapped_def Let_def split: option.splits if_splits)
  from grows_inv [OF ice_insert_grows [OF this inv_known [OF assms(2)]] assms(2), of "[]"] show ?thesis by simp
qed (use assms(2) in simp)

lemma response_inv:
  assumes r: "ice_stun_response env frm buf s = Some (outs, s')" and inv: "ice_inv env tr s"
    and ty: "get16 buf 0 = Some (htons STUN_RESP)"
  shows "ice_inv env (tr @ [(Packet frm flags buf len, outs)]) s'"
proof -
  from r obtain cookie m where c: "get32 buf 4 = Some cookie" "add_mapped env m (mark_answered frm cookie s) = Some (outs, s')"
    by (auto simp: ice_stun_response_def bind_eq_Some_conv)
  from add_mapped_inv [OF c(2) mark_answered_inv [OF inv ty c(1)]] show ?thesis .
qed

lemma packet_inv:
  assumes p: "on_packet_in env frm flags buf len s = Some (outs, s')" and inv: "ice_inv env tr s"
  shows "ice_inv env (tr @ [(Packet frm flags buf len, outs)]) s'"
proof -
  from p obtain ty b where t: "get16 buf 0 = Some ty" "mem_read buf 0 1 = Some b"
    by (auto simp: on_packet_in_def bind_eq_Some_conv Let_def)
  consider (same) "s' = s" | (resp) "ty = htons STUN_RESP" "ice_stun_response env frm buf s = Some (outs, s')"
    | (rtp) "route_rtp_packet_in buf len s = Some (outs, s')"
    using p t by (auto simp: on_packet_in_def bind_eq_Some_conv Let_def route_rtcp_packet_in_def split: if_splits)
  then show ?thesis
  proof cases
    case resp
    with response_inv [OF resp(2) inv] t(1) show ?thesis by simp
  qed (use inv_more [OF inv] route_inv [OF _ inv_more [OF inv]] in simp_all)
qed

lemma media_write_pair:
  assumes "icectl_try_write env buf attr s = Some (r, outs, s')" "ice_inv env tr s" "outs \<noteq> []"
  shows "s' = s" "\<exists>i k d. c_pair_last_success s = Some i \<and> outs = [Datagram k (cd_addr (cands s ! p_remote (c_pairs s ! i))) d]"
proof -
  have f: "flag_set s" using assms(1,3) by (auto simp: icectl_try_write_def flag_set_def)
  then obtain i where i: "c_pair_last_success s = Some i" using assms(2) by (auto simp: ice_inv_def last_ok_def)
  from assms(1) f i show "s' = s" "\<exists>i k d. c_pair_last_success s = Some i \<and> outs = [Datagram k (cd_addr (cands s ! p_remote (c_pairs s ! i))) d]"
    by (auto simp: icectl_try_write_def flag_set_def bind_eq_Some_conv Let_def)
qed

lemma media_inv:
  assumes "icectl_try_write env buf attr s = Some (r, outs, s')" "ice_inv env tr s"
  shows "s' = s"
proof (cases "flag_set s")
  case True
  then obtain i where i: "c_pair_last_success s = Some i" using assms(2) by (auto simp: ice_inv_def last_ok_def)
  with assms(1) True show ?thesis by (auto simp: icectl_try_write_def flag_set_def bind_eq_Some_conv Let_def)
qed (use assms(1) in \<open>simp add: icectl_try_write_def flag_set_def\<close>)

lemma writev_same: "icectl_try_writev env iov attr s = Some (r, outs, s') \<Longrightarrow> s' = s"
  by (auto simp: icectl_try_writev_def Let_def split: if_splits iov_block.splits)

lemma append_inv:
  assumes "icectl_on_append env v4 ctl p1 p2 ips s = Some (outs, s')" "ice_inv env tr s"
  shows "ice_inv env (tr @ tr') s'"
proof -
  let ?s = "s\<lparr>ice_cr := 1, sockv4 := v4, sockv4_ctl := ctl\<rparr>"
  have i: "ice_inv env tr ?s" using assms(2) by (rule inv_fields) (use assms(2) in \<open>simp_all add: flag_set_def ICE_FLAG_RTP_SUCCEEDED_def ice_inv_def cache_ok_def\<close>)
  have "collect_local_candidates env p1 p2 ips ?s = Some (outs, s')" using assms(1) by (simp add: icectl_on_append_def)
  from grows_inv [OF collect_grows [OF this inv_known [OF i]] i] show ?thesis .
qed

lemma step_inv:
  assumes e: "ice_step env e s = Some (outs, s')" and i: "ice_inv env tr s"
  shows "ice_inv env (tr @ [(e, outs)]) s'"
proof (cases e)
  case (Append v4 ctl p1 p2 ips)
  with e append_inv [OF _ i] show ?thesis by auto
next
  case (Kid nm at)
  with e grows_inv [OF ice_insert_grows [OF _ inv_known [OF i]] i] show ?thesis by auto
next
  case (Timer b)
  with e periodic_inv [OF _ i] show ?thesis by auto
next
  case (Packet frm flags buf len)
  with e packet_inv [OF _ i] show ?thesis by auto
next
  case (Media buf attr)
  with e obtain r where "icectl_try_write env buf attr s = Some (r, outs, s')" by auto
  from media_inv [OF this i] inv_more [OF i] Media show ?thesis by simp
next
  case (Writev iov attr)
  with e obtain r where "icectl_try_writev env iov attr s = Some (r, outs, s')" by auto
  from writev_same [OF this] inv_more [OF i] show ?thesis by simp
next
  case (Offer ks)
  then have "s' = s\<lparr>media_in := media_in s @ ks\<rparr>" using e by simp
  moreover have "cache_ok s'" using i calculation unfolding ice_inv_def cache_ok_def by (simp, metis)
  ultimately show ?thesis by (intro inv_fields [OF inv_more [OF i]]) (simp_all add: flag_set_def)
next
  case Remove
  then have s': "s' = s\<lparr>ice_cr := ice_cr s AND NOT ICE_FLAG_RTP_SUCCEEDED\<rparr>" using e by (simp add: icectl_on_remove_def)
  have "\<not> flag_set s'" unfolding s' flag_set_def by (simp add: and.assoc)
  moreover have "cache_ok s'" using i unfolding s' by (simp add: ice_inv_def cache_ok_def)
  ultimately show ?thesis by (intro inv_fields [OF inv_more [OF i]]) (simp_all add: s')
qed

lemma created:
  "ice_cr (icectl_on_create env) = 0" "cands (icectl_on_create env) = []" "remotes (icectl_on_create env) = []"
  "c_pairs (icectl_on_create env) = []" "c_pair_last_success (icectl_on_create env) = None" "locals (icectl_on_create env) = []"
  "media_owner_cache (icectl_on_create env) = replicate PAYLOAD_CACHE_SIZE None" "media_in (icectl_on_create env) = []"
  unfolding icectl_on_create_def Let_def by (simp_all only: ice_stream.simps)

lemma run_inv: "ice_run env tr s \<Longrightarrow> ice_inv env tr s"
proof (induction rule: ice_run.induct)
  case run_create
  show ?case by (simp add: ice_inv_def last_ok_def flag_set_def created cache_ok_def)
next
  case (run_event tr s e outs s')
  from step_inv [OF run_event(2) run_event(3)] show ?case .
qed

lemma media_write_answered:
  assumes "ice_run env tr s" "icectl_try_write env buf attr s = Some (r, outs, s')" "outs \<noteq> []"
  shows "\<exists>k d frm. outs = [Datagram k (IP4 frm) d] \<and> answered env tr (IP4 frm)"
proof -
  note i = run_inv [OF assms(1)]
  obtain j k d where j: "c_pair_last_success s = Some j" "outs = [Datagram k (cd_addr (cands s ! p_remote (c_pairs s ! j))) d]"
    using media_write_pair(2) [OF assms(2) i assms(3)] by blast
  have "j < length (c_pairs s)" "p_state (c_pairs s ! j) = NICE_CHECK_SUCCEEDED" using i j(1) by (auto simp: ice_inv_def last_ok_def)
  moreover have "pair_ok env tr (cands s) (c_pairs s ! j)" using i calculation(1) by (simp add: ice_inv_def)
  ultimately have a: "answered env tr (cd_addr (cands s ! p_remote (c_pairs s ! j)))" by (simp add: pair_ok_def)
  then obtain frm where "cd_addr (cands s ! p_remote (c_pairs s ! j)) = IP4 frm" unfolding answered_def by blast
  with a j(2) show ?thesis by auto
qed

text \<open>
  C10. Media goes only to an address that was checked: in every state that a transport can reach,
  by candidates of both sides, timers, packets, offers and writes of both kinds in any order,
  \<open>icectl_try_write\<close> never changes the state, and what it sends is nothing, or one datagram to an
  address from which a STUN response came, with the cookie, after a connectivity check, a request
  made for a candidate with this address, had gone to it at a tick of the timer. The pair that is
  used is the one that was remembered: the search for a pair with an even port, which the code has
  for the case that no pair is remembered, is never what decides. The writer of several blocks,
  \<open>icectl_try_writev\<close>, is among the steps that lead to the state but not among the writes the
  claim is about: once a check has succeeded it sends what it is given to any address that its
  caller names.
\<close>

theorem ice_media_only_to_checked:
  assumes "ice_run env tr s" "icectl_try_write env buf attr s = Some (r, outs, s')"
  shows "s' = s \<and> (outs = [] \<or> (\<exists>k d tr1 frm flags pkt len os tr2. outs = [Datagram k (IP4 frm) d]
     \<and> tr = tr1 @ (Packet frm flags pkt len, os) # tr2
     \<and> get16 pkt 0 = Some (htons STUN_RESP) \<and> get32 pkt 4 = Some STUN_NET_M_COOKIE
     \<and> (\<exists>b ds k' d' s0 rc s1. (Timer b, ds) \<in> set tr1 \<and> Datagram k' (IP4 frm) d' \<in> set ds
          \<and> cd_addr rc = IP4 frm \<and> check_request env s0 rc = Some (Datagram k' (IP4 frm) d', s1))))"
proof -
  have same: "s' = s" by (rule media_inv [OF assms(2) run_inv [OF assms(1)]])
  show ?thesis
  proof (cases "outs = []")
    case False
    obtain k d frm where o: "outs = [Datagram k (IP4 frm) d]" and a: "answered env tr (IP4 frm)"
      using media_write_answered [OF assms False] by blast
    obtain tr1 flags pkt len os tr2 where t: "tr = tr1 @ (Packet frm flags pkt len, os) # tr2"
      "get16 pkt 0 = Some (htons STUN_RESP)" "get32 pkt 4 = Some STUN_NET_M_COOKIE" and q: "asked env tr1 (IP4 frm)"
      using a unfolding answered_def by blast
    obtain b ds k' d' s0 rc s1 where c: "(Timer b, ds) \<in> set tr1" "Datagram k' (IP4 frm) d' \<in> set ds" "cd_addr rc = IP4 frm"
      "check_request env s0 rc = Some (Datagram k' (IP4 frm) d', s1)"
      using q unfolding asked_def request_in_def by (elim exE conjE) (rule that)
    show ?thesis
      by (intro conjI same disjI2 exI [of _ k] exI [of _ d] exI [of _ tr1] exI [of _ frm] exI [of _ flags] exI [of _ pkt] exI [of _ len]
          exI [of _ os] exI [of _ tr2] exI [of _ b] exI [of _ ds] exI [of _ k'] exI [of _ d'] exI [of _ s0] exI [of _ rc] exI [of _ s1] o t c)
  qed (use same in simp)
qed

end
