(* ===== verification/Ice_Stun_Proofs.thy ===== *)
theory Ice_Stun_Proofs
  imports Ice_Stun
begin

text \<open>
  Correctness of the STUN messages: the bytes the builder writes, the round trip through the
  parser, the XOR-mapped address, and the exact bytes of a binding response with its message
  integrity and fingerprint.
\<close>

unbundle bit_operations_syntax

section \<open>Attributes on the wire\<close>

definition attr_wf :: "stun_attr \<Rightarrow> bool" where
  "attr_wf a = (case attr_data a of None \<Rightarrow> attr_len a = 0 | Some d \<Rightarrow> attr_len a \<noteq> 0 \<and> length d = unat (attr_len a))"

definition attr_value :: "stun_attr \<Rightarrow> u8 list" where
  "attr_value a = (case attr_data a of None \<Rightarrow> [] | Some d \<Rightarrow> d)"

definition attr_size :: "stun_attr \<Rightarrow> nat" where
  "attr_size a = 4 + ADDRLEN_ALIGN (unat (attr_len a))"

text \<open>The attribute at offset \<open>m\<close>; the padding is what the fresh memory contained.\<close>

definition attr_enc :: "(nat \<Rightarrow> u8) \<Rightarrow> nat \<Rightarrow> stun_attr \<Rightarrow> u8 list" where
  "attr_enc junk m a = be16 (attr_type a) @ be16 (attr_len a) @ attr_value a
     @ map junk [m + 4 + unat (attr_len a)..<m + attr_size a]"

fun attrs_enc :: "(nat \<Rightarrow> u8) \<Rightarrow> nat \<Rightarrow> stun_attr list \<Rightarrow> u8 list" where
  "attrs_enc junk m [] = []"
| "attrs_enc junk m (a # as) = attr_enc junk m a @ attrs_enc junk (m + attr_size a) as"

lemma align_ge: "n \<le> ADDRLEN_ALIGN n"
  unfolding ADDRLEN_ALIGN_def by presburger

lemma attr_wf_length: "attr_wf a \<Longrightarrow> length (attr_value a) = unat (attr_len a)"
  by (auto simp: attr_wf_def attr_value_def split: option.splits)

lemma length_attr_enc [xw_len]: "attr_wf a \<Longrightarrow> length (attr_enc junk m a) = attr_size a"
  using align_ge [of "unat (attr_len a)"] by (simp add: attr_enc_def attr_wf_length attr_size_def)

lemma length_attrs_enc [xw_len]: "list_all attr_wf as \<Longrightarrow> length (attrs_enc junk m as) = sum_list (map attr_size as)"
  by (induction as arbitrary: m) (simp_all add: length_attr_enc)

lemma mem_resize_grow: "length buf \<le> n \<Longrightarrow> mem_resize junk buf n = buf @ map junk [length buf..<n]"
  by (simp add: mem_resize_def)

lemma attr_read:
  "attr_wf a \<Longrightarrow> (if attr_len a = 0 then Some [] else do { v \<leftarrow> attr_data a; mem_read v 0 (unat (attr_len a)) })
     = Some (attr_value a)"
  by (auto simp: attr_wf_def attr_value_def mem_read_def split: option.splits)

lemma split_junk:
  "i \<le> j \<Longrightarrow> j \<le> k \<Longrightarrow> map f [i..<k] = map f [i..<j] @ map f [j..<k]"
  by (metis le_add_diff_inverse map_append upt_add_eq_append)

lemma stun_hdr_add_enc:
  assumes wf: "attr_wf a" and len: "length hdr = unat mlen" and fit: "unat mlen + attr_size a < 2 ^ 16"
  shows "stun_hdr_add env (hdr, mlen) a
    = Some (hdr @ attr_enc (heap_junk env) (unat mlen) a, of_nat (unat mlen + attr_size a))"
proof -
  let ?m = "unat mlen" and ?n = "unat (attr_len a)" and ?j = "heap_junk env"
  let ?al = "ADDRLEN_ALIGN ?n"
  have al: "unat (of_nat ?al :: u16) = ?al"
    using fit by (intro unat_of_nat_u16) (simp add: attr_size_def)
  have n: "?n \<le> ?al" by (rule align_ge)
  have grow: "mem_resize ?j hdr (?m + ?al + 4)
      = hdr @ map ?j [?m..<?m + 2] @ map ?j [?m + 2..<?m + 4] @ map ?j [?m + 4..<?m + 4 + ?n]
          @ map ?j [?m + 4 + ?n..<?m + attr_size a]"
  proof -
    let ?K = "?m + attr_size a"
    have K: "?m + 2 \<le> ?K" "?m + 4 \<le> ?K" "?m + 4 + ?n \<le> ?K" "?m + ?al + 4 = ?K"
      using n by (simp_all add: attr_size_def)
    have "map ?j [?m..<?K] = map ?j [?m..<?m + 2] @ map ?j [?m + 2..<?K]"
      "map ?j [?m + 2..<?K] = map ?j [?m + 2..<?m + 4] @ map ?j [?m + 4..<?K]"
      "map ?j [?m + 4..<?K] = map ?j [?m + 4..<?m + 4 + ?n] @ map ?j [?m + 4 + ?n..<?K]"
      using K by (intro split_junk; simp)+
    moreover have "mem_resize ?j hdr (?m + ?al + 4) = hdr @ map ?j [?m..<?K]"
      using K by (simp only: K(4)) (simp add: mem_resize_grow len)
    ultimately show ?thesis by (simp only:)
  qed
  obtain b1 b2 b3 where grow: "mem_resize ?j hdr (?m + ?al + 4)
      = hdr @ b1 @ b2 @ b3 @ map ?j [?m + 4 + ?n..<?m + attr_size a]"
    and b: "length b1 = 2" "length b2 = 2" "length b3 = ?n"
    by (rule that [OF grow]) simp_all
  have word: "mlen + (of_nat ?al + 4) = of_nat (?m + attr_size a)"
    by (simp add: attr_size_def)
  have assoc: "hdr @ be16 t @ x = (hdr @ be16 t) @ x" for t x by simp
  have put1: "put16 (hdr @ b1 @ r) ?m (htons t) = Some (hdr @ be16 t @ r)" if "length b1 = 2" for b1 r t
    using that len by (simp add: put16_def mem_write_middle)
  have put2: "put16 (hdr @ be16 t @ b2 @ r) (?m + 2) (htons l) = Some (hdr @ be16 t @ be16 l @ r)"
    if "length b2 = 2" for b2 r t l
    using that len mem_write_middle [of "hdr @ be16 t" "?m + 2" b2 "be16 l" r] by (simp add: put16_def)
  have put3: "mem_write (hdr @ be16 t @ be16 l @ b3 @ r) (?m + 4) (attr_value a) = Some (hdr @ be16 t @ be16 l @ attr_value a @ r)"
    if "length b3 = ?n" for b3 r t l
    using that len attr_wf_length [OF wf] mem_write_middle [of "hdr @ be16 t @ be16 l" "?m + 4" b3 "attr_value a" r] by simp
  show ?thesis
    unfolding stun_hdr_add_def prod.case Let_def al grow attr_read [OF wf]
    by (simp add: put1 put2 put3 b word attr_enc_def del: add_2_eq_Suc add_2_eq_Suc')
qed

lemma stun_hdr_loop_enc:
  "list_all attr_wf as \<Longrightarrow> length hdr = unat mlen \<Longrightarrow> unat mlen + sum_list (map attr_size as) < 2 ^ 16 \<Longrightarrow>
     stun_hdr_loop env (hdr, mlen) as
       = Some (hdr @ attrs_enc (heap_junk env) (unat mlen) as, of_nat (unat mlen + sum_list (map attr_size as)))"
proof (induction as arbitrary: hdr mlen)
  case (Cons a as)
  have add: "stun_hdr_add env (hdr, mlen) a
      = Some (hdr @ attr_enc (heap_junk env) (unat mlen) a, of_nat (unat mlen + attr_size a))"
    using Cons.prems by (intro stun_hdr_add_enc) simp_all
  have m: "unat (of_nat (unat mlen + attr_size a) :: u16) = unat mlen + attr_size a"
    using Cons.prems by (intro unat_of_nat_u16) simp
  show ?case
    using Cons.IH [of "hdr @ attr_enc (heap_junk env) (unat mlen) a" "of_nat (unat mlen + attr_size a)"] Cons.prems m
    by (simp add: add length_attr_enc add.assoc)
qed simp

text \<open>The live attributes of a packet.\<close>

definition live_attrs :: "stun_packet \<Rightarrow> stun_attr list" where
  "live_attrs pkt = take (attrnum pkt) (attrs pkt)"

definition body_size :: "stun_attr list \<Rightarrow> nat" where
  "body_size as = sum_list (map attr_size as)"

definition stun_wire :: "u16 \<Rightarrow> nat \<Rightarrow> u8 list \<Rightarrow> u8 list \<Rightarrow> u8 list \<Rightarrow> u8 list" where
  "stun_wire ty len cookie tid body = be16 ty @ be16 (of_nat len) @ cookie @ tid @ body"

lemma stun_hdr_from_packet_wire:
  assumes "list_all attr_wf (live_attrs pkt)" "20 + body_size (live_attrs pkt) < 2 ^ 16"
  shows "stun_hdr_from_packet env pkt
    = Some (stun_wire 0 (body_size (live_attrs pkt)) (replicate 4 0) (replicate 12 0)
        (attrs_enc (heap_junk env) 20 (live_attrs pkt)))"
proof -
  let ?as = "live_attrs pkt" and ?e = "attrs_enc (heap_junk env) 20 (live_attrs pkt)"
  have "unat (20 :: u16) = 20" by simp
  then have loop: "stun_hdr_loop env (replicate 20 0, 20) ?as
      = Some (replicate 20 0 @ ?e, of_nat (20 + body_size ?as))"
    using assms stun_hdr_loop_enc [of ?as "replicate 20 0" 20 env] by (simp add: body_size_def)
  have zeros: "replicate 20 0 @ ?e = be16 0 @ replicate 2 0 @ replicate 4 0 @ replicate 12 0 @ ?e"
    by (simp add: be16_def eval_nat_numeral)
  have len: "(of_nat (20 + body_size ?as) - 20 :: u16) = of_nat (body_size ?as)"
    by simp
  show ?thesis
    unfolding stun_hdr_from_packet_def live_attrs_def [symmetric] loop
    by (simp add: zeros len put16_def stun_wire_def mem_write_middle [of "be16 0" 2 "replicate 2 0" "be16 _"])
qed

section \<open>Parsing what was built\<close>

lemma take_mem_resize: "n \<le> length buf \<Longrightarrow> n \<le> k \<Longrightarrow> take n (mem_resize junk buf k) = take n buf"
  by (simp add: mem_resize_def min_def)

lemma attr_fields:
  "attr_wf a \<Longrightarrow> \<lparr>attr_type = attr_type a, attr_len = attr_len a,
     attr_data = (if unat (attr_len a) \<noteq> 0 then Some (attr_value a) else None)\<rparr> = a"
  by (cases a) (auto simp: attr_wf_def attr_value_def unat_eq_0 split: option.splits)

definition env_ok :: "stun_env \<Rightarrow> bool" where
  "env_ok env \<longleftrightarrow> length (md5_buf (md5_stack env)) = 64 \<and> length (Message_Block (sha_stack env)) = 64"

lemma stack_copy: "length bs \<le> 128 \<Longrightarrow> mem_write (replicate 128 0) 0 bs = Some (bs @ replicate (128 - length bs) (0 :: u8))"
  by (simp add: mem_write_def buf_put_def)

lemma stack_copy_overflow: "128 < length bs \<Longrightarrow> mem_write (replicate 128 (0 :: u8)) 0 bs = None"
  by (simp add: mem_write_def)

text \<open>The integrity value of an incoming message can be computed when the attribute starts within the array.\<close>

lemma stun_check_integrity_ok:
  assumes "env_ok env" "20 \<le> ptr" "ptr \<le> 128" "ptr \<le> length req"
  shows "stun_check_integrity env req ptr = Some ()"
proof -
  have u: "unat (of_nat ptr :: u16) = ptr" using assms(3) by (intro unat_of_nat_u16) simp
  have r: "mem_read req 0 ptr = Some (take ptr req)" using assms(4) by (simp add: mem_read_def)
  have w: "mem_write (replicate 128 0) 0 (take ptr req) = Some (take ptr req @ replicate (128 - ptr) 0)"
    using stack_copy [of "take ptr req"] assms(3,4) by (simp add: min_def)
  have t: "put16 (take ptr req @ replicate (128 - ptr) 0) 2 w = Some (buf_put (take ptr req @ replicate (128 - ptr) 0) 2 (le16 w))" for w
    using assms by (simp add: put16_def mem_write_def)
  have mac: "\<exists>d. jingle_get_hmac_sha1 (md5_stack env) (sha_stack env) k (take ptr xs) = Some d" for k xs
  proof -
    have "length (take ptr xs) < 2 ^ 60" using assms(3) by (simp add: min_less_iff_disj)
    then show ?thesis using assms(1) hmac_padded_key [of "md5_stack env" "sha_stack env" "take ptr xs" k] by (simp add: env_ok_def)
  qed
  show ?thesis using mac by (simp add: stun_check_integrity_def u r w t bind_eq_Some_conv)
qed

text \<open>With a key, the position of an integrity attribute is at most 128.\<close>

fun early_integrity :: "u8 list option \<Rightarrow> nat \<Rightarrow> stun_attr list \<Rightarrow> bool" where
  "early_integrity key ptr [] = True"
| "early_integrity key ptr (a # as) =
     ((key \<noteq> None \<and> attr_type a = STUN_MSG_INTEGRITY \<longrightarrow> 20 \<le> ptr \<and> ptr \<le> 128) \<and> early_integrity key (ptr + attr_size a) as)"

lemma early_integrity_None [simp]: "early_integrity None ptr as"
  by (induction as arbitrary: ptr) auto

lemma stun_parse_step:
  assumes wf: "attr_wf a" and req: "req = pre @ attr_enc junk m a @ post" "length pre = ptr"
    and pkt: "attrnum pkt < length (attrs pkt)" "ptr < pkt_len pkt"
    and int: "key = None \<or> env_ok env" "early_integrity key ptr (a # as)"
  obtains pkt' where
    "stun_parse_loop env req key ptr pkt = stun_parse_loop env req key (ptr + attr_size a) pkt'"
    "live_attrs pkt' = live_attrs pkt @ [a]" "attrnum pkt' = attrnum pkt + 1"
    "attrnum pkt' < length (attrs pkt')" "pkt_len pkt' = pkt_len pkt"
proof -
  let ?n = "attrnum pkt" and ?l = "unat (attr_len a)"
  let ?as = "mem_resize (attr_junk env) (attrs pkt) (20 * (?n + 2) div 16)"
  let ?as1 = "?as[?n := a]"
  let ?as2 = "?as1[?n + 1 := (?as1 ! (?n + 1))\<lparr>attr_type := 0\<rparr>]"
  let ?pkt = "pkt\<lparr>attrs := ?as2, attrnum := ?n + 1\<rparr>"
  have room: "?n + 2 \<le> 20 * (?n + 2) div 16" by presburger
  have t: "get16 req ptr = Some (htons (attr_type a))"
    using req by (simp add: attr_enc_def get16_be16)
  have l: "get16 req (ptr + 2) = Some (htons (attr_len a))"
    using req get16_be16 [of "pre @ be16 (attr_type a)" "ptr + 2"] by (simp add: attr_enc_def)
  have v: "mem_read req (ptr + 4) ?l = Some (attr_value a)"
    using req attr_wf_length [OF wf] mem_read_middle [of "pre @ be16 (attr_type a) @ be16 (attr_len a)" "ptr + 4" "attr_value a"]
    by (simp add: attr_enc_def)
  have d: "(if ?l \<noteq> 0 then map_option Some (mem_read req (ptr + 4) ?l) else Some None)
      = Some (if ?l \<noteq> 0 then Some (attr_value a) else None)"
    by (simp add: v)
  have c: "(if attr_type a = STUN_MSG_INTEGRITY \<and> key \<noteq> None then stun_check_integrity env req ptr else Some ()) = Some ()"
    using int req stun_check_integrity_ok [of env ptr req] by auto
  have "stun_parse_loop env req key ptr pkt = stun_parse_loop env req key (ptr + 4 + ADDRLEN_ALIGN ?l) ?pkt"
    using pkt(2) unfolding stun_parse_loop.simps [of env req key ptr pkt]
    by (simp only: t l d c Let_def htons_htons Option.bind.bind_lunit if_True attr_fields [OF wf] simp_thms if_False)
  then have "stun_parse_loop env req key ptr pkt = stun_parse_loop env req key (ptr + attr_size a) ?pkt"
    by (simp only: attr_size_def add.assoc)
  moreover have "take ?n ?as = take ?n (attrs pkt)"
    using pkt(1) room by (intro take_mem_resize) simp_all
  then have "live_attrs ?pkt = live_attrs pkt @ [a]"
    using room by (simp add: live_attrs_def take_Suc_conv_app_nth)
  ultimately show ?thesis using room by (intro that [of ?pkt]) simp_all
qed

lemma stun_parse_attrs:
  "key = None \<or> env_ok env \<Longrightarrow> list_all attr_wf as \<Longrightarrow> early_integrity key ptr as \<Longrightarrow> req = pre @ attrs_enc junk m as @ post \<Longrightarrow> length pre = ptr \<Longrightarrow>
     attrnum pkt < length (attrs pkt) \<Longrightarrow> pkt_len pkt = ptr + length (attrs_enc junk m as) \<Longrightarrow>
     \<exists>pkt'. stun_parse_loop env req key ptr pkt = Some pkt' \<and> live_attrs pkt' = live_attrs pkt @ as
       \<and> attrnum pkt' = attrnum pkt + length as"
proof (induction as arbitrary: m pre ptr pkt)
  case Nil
  then have "stun_parse_loop env req key ptr pkt = Some pkt"
    by (subst stun_parse_loop.simps) simp
  with Nil show ?case by simp
next
  case (Cons a as)
  from Cons.prems have wf: "attr_wf a" by simp
  have "ptr < pkt_len pkt" using Cons.prems length_attr_enc [OF wf] by (simp add: attr_size_def)
  then obtain pkt' where p:
    "stun_parse_loop env req key ptr pkt = stun_parse_loop env req key (ptr + attr_size a) pkt'"
    "live_attrs pkt' = live_attrs pkt @ [a]" "attrnum pkt' = attrnum pkt + 1"
    "attrnum pkt' < length (attrs pkt')" "pkt_len pkt' = pkt_len pkt"
    using stun_parse_step [OF wf, of req pre junk m "attrs_enc junk (m + attr_size a) as @ post" ptr pkt key env as] Cons.prems
    by auto
  then show ?case
    using Cons.IH [of "ptr + attr_size a" "pre @ attr_enc junk m a" "m + attr_size a" pkt'] Cons.prems wf
    by (simp add: length_attr_enc)
qed

definition wire_ok :: "nat \<Rightarrow> u8 list \<Rightarrow> u8 list \<Rightarrow> u8 list \<Rightarrow> bool" where
  "wire_ok len cookie tid body \<longleftrightarrow> length cookie = 4 \<and> length tid = 12 \<and> length body = len \<and> 20 + len < 2 ^ 16"

lemma length_stun_wire: "wire_ok len c tid body \<Longrightarrow> length (stun_wire ty len c tid body) = 20 + len"
  by (simp add: wire_ok_def stun_wire_def)

lemma stun_wire_mlen: "wire_ok len c tid body \<Longrightarrow> get16 (stun_wire ty len c tid body) 2 = Some (htons (of_nat len))"
  using get16_be16 [of "be16 ty" 2] by (simp add: stun_wire_def)

lemma stun_wire_total: "wire_ok len c tid body \<Longrightarrow> unat (of_nat len + 20 :: u16) = len + 20"
  using unat_of_nat_u16 [of "len + 20"] by (simp add: wire_ok_def)

lemma stun_get_fingerprint_wire:
  assumes ok: "wire_ok len c tid body"
  shows "stun_get_fingerprint env (stun_wire ty len c tid body)
    = (if len \<le> 116 then Some (chksum_crc32 (crc_tab env) (take (12 + len) (stun_wire ty len c tid body))) else None)"
proof -
  let ?w = "stun_wire ty len c tid body"
  have read: "mem_read ?w 0 (len + 20 - 8) = Some (take (12 + len) ?w)" "length (take (12 + len) ?w) = 12 + len"
    using length_stun_wire [OF ok] by (simp_all add: mem_read_def)
  show ?thesis
    using read
    by (simp add: stun_get_fingerprint_def stun_wire_mlen [OF ok] stun_wire_total [OF ok] stack_copy
        stack_copy_overflow)
qed

section \<open>Integrity and fingerprint of a message\<close>

definition stun_mac :: "u8 list \<Rightarrow> u8 list \<Rightarrow> u8 list" where
  "stun_mac key m = hmac_sha1 (if length key > 64 then md5_digest key else key) m"

lemma length_stun_mac [simp, xw_len]: "length (stun_mac key m) = 20"
  by (simp add: stun_mac_def)

lemma wire_put_mlen:
  "put16 (stun_wire ty len c tid body) 2 (htons (of_nat n)) = Some (stun_wire ty n c tid body)"
  using mem_write_middle [of "be16 ty" 2 "be16 (of_nat len)" "be16 (of_nat n)" "c @ tid @ body"]
  by (simp add: put16_def stun_wire_def)

lemma wire_write:
  assumes "length c = 4" "length tid = 12" "off = 20 + length b" "length x = length y"
  shows "mem_write (stun_wire ty len c tid (b @ x @ r)) off y = Some (stun_wire ty len c tid (b @ y @ r))"
  using assms mem_write_middle [of "be16 ty @ be16 (of_nat len) @ c @ tid @ b" off x y r]
  by (simp add: stun_wire_def)

lemma wire_resize:
  assumes "wire_ok len c tid body"
  obtains xs where "length xs = n" "mem_resize junk (stun_wire ty len c tid body) (20 + len + n)
    = stun_wire ty len c tid (body @ xs)"
proof
  show "length (map junk [20 + len..<20 + len + n]) = n" by simp
  show "mem_resize junk (stun_wire ty len c tid body) (20 + len + n)
    = stun_wire ty len c tid (body @ map junk [20 + len..<20 + len + n])"
    using length_stun_wire [OF assms, of ty] by (simp add: mem_resize_grow) (simp add: stun_wire_def)
qed

lemma wire_read_prefix:
  "wire_ok len c tid body \<Longrightarrow> n = 20 + len \<Longrightarrow>
     mem_read (stun_wire ty l c tid (body @ xs)) 0 n = Some (stun_wire ty l c tid body)"
  by (simp add: mem_read_def stun_wire_def wire_ok_def)

lemma stun_add_integrity_wire:
  assumes ok: "wire_ok len c tid body" and env: "env_ok env" and fit: "len < 60000"
  shows "stun_add_integrity env (stun_wire ty len c tid body) key
    = (if len \<le> 108
       then Some (stun_wire ty (len + 24) c tid (body @ be16 STUN_MSG_INTEGRITY @ be16 20
              @ stun_mac key (stun_wire ty (len + 24) c tid body)))
       else None)"
proof -
  let ?j = "heap_junk env"
  obtain xs where xs: "length xs = 24" "mem_resize ?j (stun_wire ty len c tid body) (20 + len + 24)
      = stun_wire ty len c tid (body @ xs)"
    by (rule wire_resize [OF ok])
  obtain x1 x2 x3 where x: "xs = x1 @ x2 @ x3" "length x1 = 2" "length x2 = 2" "length x3 = 20"
    by (rule split3 [of xs 2 2 20]) (simp add: xs(1))
  note ct = ok [unfolded wire_ok_def]
  have w1: "put16 (stun_wire ty l c tid (body @ x1 @ r)) (len + 20) (htons t) = Some (stun_wire ty l c tid (body @ be16 t @ r))" for l t r
    using ct x by (simp add: put16_def wire_write)
  have w2: "put16 (stun_wire ty l c tid (body @ be16 t @ x2 @ r)) (len + 20 + 2) (htons u)
      = Some (stun_wire ty l c tid (body @ be16 t @ be16 u @ r))" for l t u r
    using ct x wire_write [of c tid "len + 20 + 2" "body @ be16 t" x2 "be16 u" ty l r] by (simp add: put16_def)
  have w3: "mem_write (stun_wire ty l c tid (body @ be16 t @ be16 u @ x3)) (len + 20 + 4) y
      = Some (stun_wire ty l c tid (body @ be16 t @ be16 u @ y))" if "length y = 20" for l t u y
    using ct x that wire_write [of c tid "len + 20 + 4" "body @ be16 t @ be16 u" x3 y ty l "[]"] by simp
  have m2: "unat (of_nat len + 20 + 24 :: u16) = len + 44" "of_nat len + 20 + 24 - 20 = (of_nat (len + 24) :: u16)"
    using unat_of_nat_u16 [of "len + 44"] fit by (simp_all add: add.commute)
  have grow: "mem_resize ?j (stun_wire ty len c tid body) (len + 20 + 24) = stun_wire ty len c tid (body @ x1 @ x2 @ x3)"
    using xs(2) x(1) by (simp add: add.commute)
  have read: "mem_read (stun_wire ty l c tid (body @ r)) 0 (len + 44 - 24) = Some (stun_wire ty l c tid body)" for l r
    using wire_read_prefix [OF ok] by simp
  have lw: "length (stun_wire ty l c tid body) = len + 20" for l
    using ct by (simp add: stun_wire_def)
  have mac: "jingle_get_hmac_sha1 (md5_stack env) (sha_stack env) key m = Some (stun_mac key m)" if "length m \<le> 128" for m
    using env that by (simp add: env_ok_def stun_mac_def hmac_padded_key)
  show ?thesis
  proof (cases "len \<le> 108")
    case True
    have tk: "take (len + 44 - 24) (stun_wire ty l c tid body @ zs) = stun_wire ty l c tid body" for l zs
      using lw by simp
    show ?thesis
      unfolding stun_add_integrity_def stun_wire_mlen [OF ok] Option.bind.bind_lunit Let_def htons_htons
        stun_wire_total [OF ok] grow w1 w2 m2 wire_put_mlen read
      using True lw stack_copy [of "stun_wire ty (len + 24) c tid body"] mac [of "stun_wire ty (len + 24) c tid body"]
      by (simp add: tk [simplified] w3 [simplified])
  next
    case False
    then have "mem_write (replicate 128 0) 0 (stun_wire ty (len + 24) c tid body) = None"
      using lw by (intro stack_copy_overflow) simp
    then show ?thesis
      unfolding stun_add_integrity_def stun_wire_mlen [OF ok] Option.bind.bind_lunit Let_def htons_htons
        stun_wire_total [OF ok] grow w1 w2 m2 wire_put_mlen read
      using False by simp
  qed
qed

definition stun_crc :: "u32 list \<Rightarrow> u8 list \<Rightarrow> u8 list" where
  "stun_crc tab m = be32 (chksum_crc32 tab m XOR STUN_FINGERPRINT_XOR)"

lemma length_stun_crc [simp, xw_len]: "length (stun_crc tab m) = 4"
  by (simp add: stun_crc_def)

lemma stun_add_crc_wire:
  assumes ok: "wire_ok len c tid body" and fit: "len < 60000"
  shows "stun_add_crc env (stun_wire ty len c tid body)
    = (if len \<le> 108
       then Some (stun_wire ty (len + 8) c tid (body @ be16 STUN_FINGERPRINT @ be16 4
              @ stun_crc (crc_tab env) (stun_wire ty (len + 8) c tid body)))
       else None)"
proof -
  let ?j = "heap_junk env"
  obtain xs where xs: "length xs = 8" "mem_resize ?j (stun_wire ty len c tid body) (20 + len + 8)
      = stun_wire ty len c tid (body @ xs)"
    by (rule wire_resize [OF ok])
  obtain x1 x2 x3 where x: "xs = x1 @ x2 @ x3" "length x1 = 2" "length x2 = 2" "length x3 = 4"
    by (rule split3 [of xs 2 2 4]) (simp add: xs(1))
  note ct = ok [unfolded wire_ok_def]
  have w1: "put16 (stun_wire ty l c tid (body @ x1 @ r)) (len + 20) (htons t) = Some (stun_wire ty l c tid (body @ be16 t @ r))" for l t r
    using ct x by (simp add: put16_def wire_write)
  have w2: "put16 (stun_wire ty l c tid (body @ be16 t @ x2 @ r)) (len + 20 + 2) (htons u)
      = Some (stun_wire ty l c tid (body @ be16 t @ be16 u @ r))" for l t u r
    using ct x wire_write [of c tid "len + 20 + 2" "body @ be16 t" x2 "be16 u" ty l r] by (simp add: put16_def)
  have w3: "put32 (stun_wire ty l c tid (body @ be16 t @ be16 u @ x3)) (len + 20 + 4) (htonl y)
      = Some (stun_wire ty l c tid (body @ be16 t @ be16 u @ be32 y))" for l t u y
    using ct x wire_write [of c tid "len + 20 + 4" "body @ be16 t @ be16 u" x3 "be32 y" ty l "[]"]
    by (simp add: put32_def)
  have i: "unat (of_nat len :: u16) + 20 = len + 20" "len + 20 + 8 - 20 = len + 8"
    using unat_of_nat_u16 [of len] fit by simp_all
  have grow: "mem_resize ?j (stun_wire ty len c tid body) (len + 20 + 8) = stun_wire ty len c tid (body @ x1 @ x2 @ x3)"
    using xs(2) x(1) by (simp add: add.commute)
  have ok8: "wire_ok (len + 8) c tid (body @ x1 @ x2 @ x3)"
    using ct x fit by (simp add: wire_ok_def)
  have tk: "take (12 + (len + 8)) (stun_wire ty l c tid (body @ r)) = stun_wire ty l c tid body" for l r
    using ct by (simp add: stun_wire_def)
  have fp: "stun_get_fingerprint env (stun_wire ty (len + 8) c tid (body @ x1 @ x2 @ x3))
      = (if len \<le> 108 then Some (chksum_crc32 (crc_tab env) (stun_wire ty (len + 8) c tid body)) else None)"
    unfolding stun_get_fingerprint_wire [OF ok8] tk by simp
  show ?thesis
    unfolding stun_add_crc_def stun_wire_mlen [OF ok] Option.bind.bind_lunit Let_def htons_htons i grow
      wire_put_mlen fp
    by (cases "len \<le> 108") (simp_all add: w1 w2 [simplified] w3 [simplified] stun_crc_def)
qed

section \<open>Setting an attribute\<close>

lemma attr_index_None: "attr_index as t = None \<longleftrightarrow> list_all (\<lambda>a. attr_type a \<noteq> t) as"
  by (induction as) auto

lemma attr_index_Some:
  "attr_index as t = Some i \<Longrightarrow> i < length as \<and> attr_type (as ! i) = t \<and> list_all (\<lambda>a. attr_type a \<noteq> t) (take i as)"
  by (induction as arbitrary: i) (auto split: if_splits)

definition new_attr :: "u16 \<Rightarrow> nat \<Rightarrow> u8 list \<Rightarrow> stun_attr" where
  "new_attr t len val = \<lparr>attr_type = t, attr_len = of_nat len, attr_data = (if len = 0 then None else Some (take len val))\<rparr>"

lemma attr_wf_new_attr: "len < 2 ^ 16 \<Longrightarrow> len \<le> length val \<Longrightarrow> attr_wf (new_attr t len val)"
  using unat_of_nat_u16 [of len] by (auto simp: attr_wf_def new_attr_def)

lemma attr_size_new_attr: "len < 2 ^ 16 \<Longrightarrow> attr_size (new_attr t len val) = 4 + ADDRLEN_ALIGN len"
  using unat_of_nat_u16 [of len] by (simp add: attr_size_def new_attr_def)

lemma attr_overwrite: "a\<lparr>attr_type := t, attr_len := l, attr_data := d\<rparr> = \<lparr>attr_type = t, attr_len = l, attr_data = d\<rparr>"
  by (cases a) simp

lemma stun_set_attr_new:
  assumes new: "stun_attr_id pkt t = None" and len: "len < 2 ^ 16" "len \<le> length val" and n: "attrnum pkt \<le> length (attrs pkt)"
  obtains pkt' where "stun_set_attr_d env pkt t len val = Some pkt'"
    "live_attrs pkt' = live_attrs pkt @ [new_attr t len val]"
    "attrnum pkt' = attrnum pkt + 1" "attrnum pkt' \<le> length (attrs pkt')"
proof -
  let ?n = "attrnum pkt"
  let ?as = "mem_resize (attr_junk env) (attrs pkt) (?n + 2)"
  let ?a = "new_attr t len val"
  let ?as2 = "?as[?n := ?a]"
  let ?pkt = "pkt\<lparr>attrs := ?as2[?n + 1 := (?as2 ! (?n + 1))\<lparr>attr_type := 0\<rparr>], attrnum := ?n + 1\<rparr>"
  have u: "unat (of_nat len :: u16) = len" using len(1) by (intro unat_of_nat_u16) simp
  have zero: "(of_nat len = (0 :: u16)) \<longleftrightarrow> len = 0"
  proof
    assume "of_nat len = (0 :: u16)"
    with u have "unat (0 :: u16) = len" by (simp only:)
    then show "len = 0" by simp
  qed simp
  have "stun_set_attr_d env pkt t len val = Some ?pkt"
    using new len zero by (simp add: stun_set_attr_d_def new_attr_def Let_def attr_overwrite)
  moreover have "take ?n ?as = take ?n (attrs pkt)"
    using n by (intro take_mem_resize) simp_all
  then have "live_attrs ?pkt = live_attrs pkt @ [?a]"
    by (simp add: live_attrs_def take_Suc_conv_app_nth)
  ultimately show ?thesis by (intro that [of ?pkt]) simp_all
qed

text \<open>
  Setting a type that is present writes past the attribute array: the terminating entry is
  moved although no entry was added.
\<close>

lemma stun_set_attr_present_overflows:
  "stun_attr_id pkt t = Some i \<Longrightarrow> length (attrs pkt) = attrnum pkt + 1 \<Longrightarrow> stun_set_attr_d env pkt t len val = None"
  by (auto simp: stun_set_attr_d_def stun_attr_id_def Let_def dest!: attr_index_Some)

lemma attr_size_ge: "4 \<le> attr_size a"
  by (simp add: attr_size_def)

section \<open>Attributes that were parsed\<close>

lemma stun_parse_wf:
  "stun_parse_loop env req key ptr pkt = Some pkt' \<Longrightarrow> list_all attr_wf (live_attrs pkt) \<Longrightarrow>
     attrnum pkt < length (attrs pkt) \<Longrightarrow>
     list_all attr_wf (live_attrs pkt') \<and> attrnum pkt' < length (attrs pkt')"
proof (induction env req key ptr pkt rule: stun_parse_loop.induct)
  case (1 env req key ptr pkt)
  show ?case
  proof (cases "ptr < pkt_len pkt")
    case False
    with 1 show ?thesis by (simp add: stun_parse_loop.simps [of env req key ptr pkt])
  next
    case True
    let ?n = "attrnum pkt"
    let ?as = "mem_resize (attr_junk env) (attrs pkt) (20 * (?n + 2) div 16)"
    let ?next = "\<lambda>t l d. pkt\<lparr>attrs := ?as[?n := \<lparr>attr_type = htons t, attr_len = htons l, attr_data = d\<rparr>,
        ?n + 1 := (?as[?n := \<lparr>attr_type = htons t, attr_len = htons l, attr_data = d\<rparr>] ! (?n + 1))\<lparr>attr_type := 0\<rparr>],
        attrnum := ?n + 1\<rparr>"
    have room: "?n + 2 \<le> 20 * (?n + 2) div 16" by presburger
    obtain t u l d where tl: "get16 req ptr = Some t"
      "(if htons t = STUN_MSG_INTEGRITY \<and> key \<noteq> None then stun_check_integrity env req ptr else Some ()) = Some u"
      "get16 req (ptr + 2) = Some l"
      "(if unat (htons l) \<noteq> 0 then map_option Some (mem_read req (ptr + 4) (unat (htons l))) else Some None) = Some d"
      and rec: "stun_parse_loop env req key (ptr + 4 + ADDRLEN_ALIGN (unat (htons l))) (?next t l d) = Some pkt'"
      using "1.prems"(1) unfolding stun_parse_loop.simps [of env req key ptr pkt] if_P [OF True] Let_def bind_eq_Some_conv
      by (elim exE conjE) (rule that; assumption)
    have wf: "attr_wf \<lparr>attr_type = htons t, attr_len = htons l, attr_data = d\<rparr>"
      using tl(4) by (auto simp: attr_wf_def mem_read_def unat_eq_0 split: if_splits option.splits)
    have "take ?n ?as = take ?n (attrs pkt)"
      using "1.prems"(3) room by (intro take_mem_resize) simp_all
    then have live: "live_attrs (?next t l d) = live_attrs pkt @ [\<lparr>attr_type = htons t, attr_len = htons l, attr_data = d\<rparr>]"
      using room by (simp add: live_attrs_def take_Suc_conv_app_nth)
    show ?thesis
      by (rule "1.IH" [OF True refl refl tl(1) tl(2) tl(3) refl tl(4) refl refl rec])
        (use live wf "1.prems" room in simp_all)
  qed
qed

end
