(* ===== verification/Ice_Stun_Claims.thy ===== *)
theory Ice_Stun_Claims
  imports Ice_Stun_Proofs
begin

text \<open>The properties of the STUN component, over the lemmas of \<open>Ice_Stun_Proofs\<close>.\<close>

unbundle bit_operations_syntax

section \<open>The XOR-mapped address\<close>

text \<open>
  The XOR-mapped address: the builder writes family 1, the port XOR the high half of the
  magic cookie and the address XOR the cookie, all in network order, and the reader recovers
  the port and the address of any socket address from it.
\<close>

theorem stun_xmapped_roundtrip:
  "stun_x_mapped sa = [0, 1] @ be16 (htons (sin_port sa) XOR 0x2112) @ be32 (htonl (sin_addr sa) XOR 0x2112A442)
   \<and> stun_from_x_mapped (stun_x_mapped sa) dst = Some (dst\<lparr>sin_port := sin_port sa, sin_addr := sin_addr sa\<rparr>)"
proof -
  let ?p = "htons (htons (sin_port sa) XOR 0x2112)" and ?a = "htonl (htonl (sin_addr sa) XOR STUN_M_COOKIE)"
  have bytes: "stun_x_mapped sa = [0, 1] @ le16 ?p @ le32 ?a"
    by (simp add: stun_x_mapped_def)
  have "get16 ([0, 1] @ le16 ?p @ le32 ?a) 2 = Some ?p" by (rule get16_le16) simp
  moreover have "get32 ([0, 1] @ le16 ?p @ le32 ?a) 4 = Some ?a"
    using get32_le32 [of "[0, 1] @ le16 ?p" 4 ?a "[]"] by simp
  ultimately have "stun_from_x_mapped (stun_x_mapped sa) dst = Some (dst\<lparr>sin_port := sin_port sa, sin_addr := sin_addr sa\<rparr>)"
    unfolding bytes stun_from_x_mapped_def by (simp add: xor.assoc)
  then show ?thesis by (simp add: bytes stun_consts)
qed

section \<open>Builder and parser\<close>

text \<open>
  C29. Parsing what the builder wrote gives the attributes back: for every packet of
  well-formed attributes whose encoding fits the 128-byte array of the fingerprint, building
  succeeds, and parsing the bytes yields the same attributes in the same order.
\<close>

theorem stun_build_parse:
  "list_all attr_wf (live_attrs pkt) \<Longrightarrow> attrnum pkt \<le> length (attrs pkt) \<Longrightarrow> body_size (live_attrs pkt) \<le> 116 \<Longrightarrow>
     \<exists>w pkt'. stun_hdr_from_packet env pkt = Some w \<and> stun_packet_from_hdr env w None = Some pkt'
       \<and> live_attrs pkt' = live_attrs pkt \<and> attrnum pkt' = attrnum pkt"
proof -
  assume wf: "list_all attr_wf (live_attrs pkt)" and n: "attrnum pkt \<le> length (attrs pkt)" and size: "body_size (live_attrs pkt) \<le> 116"
  let ?as = "live_attrs pkt" and ?L = "body_size (live_attrs pkt)"
  let ?body = "attrs_enc (heap_junk env) 20 ?as"
  define w where "w = stun_wire 0 ?L (replicate 4 0) (replicate 12 0) ?body"
  have ok: "wire_ok ?L (replicate 4 0) (replicate 12 0) ?body"
    using wf size by (simp add: wire_ok_def length_attrs_enc body_size_def)
  have w: "stun_hdr_from_packet env pkt = Some w"
    using wf size unfolding w_def by (intro stun_hdr_from_packet_wire) simp_all
  let ?p0 = "\<lparr>pkt_len = 20 + ?L, attrnum = 0, attrs = [(attr_junk env 0)\<lparr>attr_type := 0\<rparr>]\<rparr>"
  have pre: "w = (be16 0 @ be16 (of_nat ?L) @ replicate 4 0 @ replicate 12 0) @ ?body @ []"
    by (simp add: w_def stun_wire_def)
  have "\<exists>pkt'. stun_parse_loop env w None 20 ?p0 = Some pkt' \<and> live_attrs pkt' = live_attrs ?p0 @ ?as
      \<and> attrnum pkt' = attrnum ?p0 + length ?as"
    using wf by (intro stun_parse_attrs [OF _ _ _ pre]) (simp_all add: length_attrs_enc body_size_def)
  moreover have "get16 w 2 = Some (htons (of_nat ?L))" unfolding w_def by (rule stun_wire_mlen [OF ok])
  moreover have "unat (of_nat ?L :: u16) = ?L" using size by (intro unat_of_nat_u16) simp
  moreover have "\<exists>crc. stun_get_fingerprint env w = Some crc"
    using size unfolding w_def stun_get_fingerprint_wire [OF ok] by simp
  moreover have "length ?as = attrnum pkt" using n by (simp add: live_attrs_def)
  ultimately show ?thesis
    using w by (auto simp: stun_packet_from_hdr_def live_attrs_def)
qed

definition sample_env :: stun_env where
  "sample_env = \<lparr>heap_junk = (\<lambda>i. 0xAA), attr_junk = (\<lambda>i. \<lparr>attr_type = 7, attr_len = 7, attr_data = None\<rparr>),
     crc_tab = chksum_crc32gentab, md5_stack = \<lparr>md5_count = [], md5_abcd = [], md5_buf = replicate 64 1\<rparr>,
     sha_stack = sha1_garbage\<rparr>"

theorem stun_build_parse_witness:
  "\<exists>w pkt'. stun_hdr_from_packet sample_env
       \<lparr>pkt_len = 0, attrnum = 1, attrs = [\<lparr>attr_type = 6, attr_len = 3, attr_data = Some [1, 2, 3]\<rparr>]\<rparr> = Some w
     \<and> stun_packet_from_hdr sample_env w None = Some pkt'
     \<and> live_attrs pkt' = [\<lparr>attr_type = 6, attr_len = 3, attr_data = Some [1, 2, 3]\<rparr>] \<and> attrnum pkt' = 1"
  using stun_build_parse [of "\<lparr>pkt_len = 0, attrnum = 1, attrs = [\<lparr>attr_type = 6, attr_len = 3, attr_data = Some [1, 2, 3]\<rparr>]\<rparr>" sample_env]
  by (simp add: live_attrs_def attr_wf_def body_size_def attr_size_def ADDRLEN_ALIGN_def)

section \<open>Messages\<close>

definition stun_seal :: "stun_env \<Rightarrow> u16 \<Rightarrow> nat \<Rightarrow> u8 list \<Rightarrow> u8 list \<Rightarrow> u8 list" where
  "stun_seal env ty len tid body =
     stun_wire ty (len + 8) (be32 STUN_M_COOKIE) tid (body @ be16 STUN_FINGERPRINT @ be16 4
       @ stun_crc (crc_tab env) (stun_wire ty (len + 8) (be32 STUN_M_COOKIE) tid body))"

definition stun_sign :: "u8 list \<Rightarrow> u16 \<Rightarrow> nat \<Rightarrow> u8 list \<Rightarrow> u8 list \<Rightarrow> u8 list" where
  "stun_sign key ty len tid body = body @ be16 STUN_MSG_INTEGRITY @ be16 20
     @ stun_mac key (stun_wire ty (len + 24) (be32 STUN_M_COOKIE) tid body)"

lemma wire_puts:
  "length c = 4 \<Longrightarrow> put32 (stun_wire ty len c tid body) 4 v = Some (stun_wire ty len (le32 v) tid body)"
  "put16 (stun_wire ty len c tid body) 0 (htons t) = Some (stun_wire t len c tid body)"
  "length c = 4 \<Longrightarrow> length tid = 12 \<Longrightarrow> length tid' = 12 \<Longrightarrow>
     mem_write (stun_wire ty len c tid body) 8 tid' = Some (stun_wire ty len c tid' body)"
  using mem_write_middle [of "be16 ty @ be16 (of_nat len)" 4 c "le32 v" "tid @ body"]
    mem_write_middle [of "[]" 0 "be16 ty" "be16 t" "be16 (of_nat len) @ c @ tid @ body"]
    mem_write_middle [of "be16 ty @ be16 (of_nat len) @ c" 8 tid tid' body]
  by (simp_all add: stun_wire_def put32_def put16_def)

lemma stun_sign_seal:
  assumes ok: "length tid = 12" "length body = len" "len < 50000" and env: "env_ok env"
  shows "do { m \<leftarrow> stun_add_integrity env (stun_wire ty len (be32 STUN_M_COOKIE) tid body) key; stun_add_crc env m }
    = (if len \<le> 84 then Some (stun_seal env ty (len + 24) tid (stun_sign key ty len tid body)) else None)"
proof -
  let ?c = "be32 STUN_M_COOKIE"
  have w: "wire_ok len ?c tid body" and w2: "wire_ok (len + 24) ?c tid (stun_sign key ty len tid body)"
    using ok by (simp_all add: wire_ok_def stun_sign_def)
  have "stun_add_integrity env (stun_wire ty len ?c tid body) key
      = (if len \<le> 108 then Some (stun_wire ty (len + 24) ?c tid (stun_sign key ty len tid body)) else None)"
    using stun_add_integrity_wire [OF w env] ok by (simp add: stun_sign_def)
  moreover have "stun_add_crc env (stun_wire ty (len + 24) ?c tid (stun_sign key ty len tid body))
      = (if len + 24 \<le> 108 then Some (stun_seal env ty (len + 24) tid (stun_sign key ty len tid body)) else None)"
    using stun_add_crc_wire [OF w2] ok unfolding stun_seal_def by simp
  ultimately show ?thesis by simp
qed

text \<open>
  The simple binding request: type \<^verbatim>\<open>STUN_REQ\<close>, the magic cookie, the transaction number of
  three random words, and one fingerprint attribute whose value is the CRC-32 of all that
  precedes it, XOR \<open>5354554E\<close>; the length field counts the fingerprint.
\<close>

theorem get_stun_simple_request_bytes:
  "get_stun_simple_request env r1 r2 r3 = Some (stun_seal env STUN_REQ 0 (le32 r1 @ le32 r2 @ le32 r3) [])"
proof -
  let ?z = "replicate 4 (0 :: u8)"
  have hdr: "stun_hdr_from_packet env stun_pkt_new = Some (stun_wire 0 0 ?z (?z @ ?z @ ?z) [])"
    using stun_hdr_from_packet_wire [of stun_pkt_new env]
    by (simp add: stun_pkt_new_def live_attrs_def body_size_def flip: replicate_add)
  have tid: "put32 (stun_wire t l c (x @ y) []) 8 v = Some (stun_wire t l c (le32 v @ y) [])"
    "put32 (stun_wire t l c (le32 a @ x @ y) []) 12 v = Some (stun_wire t l c (le32 a @ le32 v @ y) [])"
    "put32 (stun_wire t l c (le32 a @ le32 b @ x) []) 16 v = Some (stun_wire t l c (le32 a @ le32 b @ le32 v) [])"
    if "length c = 4" "length x = 4" for t l c x y a b v
    using that mem_write_middle [of "be16 t @ be16 (of_nat l) @ c" 8 x "le32 v" y]
      mem_write_middle [of "be16 t @ be16 (of_nat l) @ c @ le32 a" 12 x "le32 v" y]
      mem_write_middle [of "be16 t @ be16 (of_nat l) @ c @ le32 a @ le32 b" 16 x "le32 v" "[]"]
    by (simp_all add: stun_wire_def put32_def)
  have ok: "wire_ok 0 (be32 STUN_M_COOKIE) (le32 r1 @ le32 r2 @ le32 r3) []"
    by (simp add: wire_ok_def)
  show ?thesis
    unfolding get_stun_simple_request_def hdr
    using stun_add_crc_wire [OF ok, of env STUN_REQ]
    by (simp add: wire_puts tid STUN_NET_M_COOKIE_def stun_seal_def)
qed

section \<open>The binding response\<close>

text \<open>The attributes of a response: the mapped address, and the user name of the request if it has one.\<close>

definition response_attrs :: "stun_packet \<Rightarrow> sockaddr_in \<Rightarrow> stun_attr list" where
  "response_attrs req sa = new_attr STUN_X_MAPPED_ADDRESS 8 (stun_x_mapped sa) #
     (case stun_attr_id req STUN_USERNAME of
        None \<Rightarrow> []
      | Some i \<Rightarrow> [new_attr STUN_USERNAME (unat (attr_len (attrs req ! i))) (attr_value (attrs req ! i))])"

lemma live_attrs_nth: "i < length (live_attrs pkt) \<Longrightarrow> live_attrs pkt ! i = attrs pkt ! i"
  by (simp add: live_attrs_def)

lemma username_value:
  assumes "list_all attr_wf (live_attrs req)" "stun_attr_id req STUN_USERNAME = Some i"
  shows "attr_wf (attrs req ! i)" "unat (attr_len (attrs req ! i)) \<le> length (attr_value (attrs req ! i))"
proof -
  have "i < length (live_attrs req)" using assms(2) by (auto simp: stun_attr_id_def live_attrs_def dest: attr_index_Some)
  then show wf: "attr_wf (attrs req ! i)" using assms(1) by (metis list_all_length live_attrs_nth)
  then show "unat (attr_len (attrs req ! i)) \<le> length (attr_value (attrs req ! i))" by (simp add: attr_wf_length)
qed

lemma unat_u16_lt: "unat (w :: u16) < 65536"
  using unsigned_less [of w] by simp

lemma response_attrs_wf: "list_all attr_wf (live_attrs req) \<Longrightarrow> list_all attr_wf (response_attrs req sa)"
proof -
  assume wf: "list_all attr_wf (live_attrs req)"
  have "attr_wf (new_attr STUN_X_MAPPED_ADDRESS 8 (stun_x_mapped sa))"
    by (rule attr_wf_new_attr) (simp_all add: stun_x_mapped_def)
  moreover have "attr_wf (new_attr STUN_USERNAME (unat (attr_len (attrs req ! i))) (attr_value (attrs req ! i)))"
    if "stun_attr_id req STUN_USERNAME = Some i" for i
    using username_value [OF wf that] unat_u16_lt by (intro attr_wf_new_attr) simp_all
  ultimately show ?thesis by (simp add: response_attrs_def split: option.splits)
qed

lemma response_packet:
  assumes wf: "list_all attr_wf (live_attrs req)"
  obtains pkt where
    "do { p \<leftarrow> stun_set_attr_d env stun_pkt_new STUN_X_MAPPED_ADDRESS 8 (stun_x_mapped sa); stun_copy_username env req p } = Some pkt"
    "live_attrs pkt = response_attrs req sa"
proof -
  let ?x = "new_attr STUN_X_MAPPED_ADDRESS 8 (stun_x_mapped sa)"
  obtain p where p: "stun_set_attr_d env stun_pkt_new STUN_X_MAPPED_ADDRESS 8 (stun_x_mapped sa) = Some p"
    "live_attrs p = [?x]" "attrnum p = 1" "attrnum p \<le> length (attrs p)"
    by (rule stun_set_attr_new [of stun_pkt_new STUN_X_MAPPED_ADDRESS 8 "stun_x_mapped sa" env])
      (simp_all add: stun_pkt_new_def stun_attr_id_def live_attrs_def stun_x_mapped_def)
  have fresh: "stun_attr_id p STUN_USERNAME = None"
    using p(2) by (simp add: stun_attr_id_def live_attrs_def attr_index_None new_attr_def stun_consts)
  show ?thesis
  proof (cases "stun_attr_id req STUN_USERNAME")
    case None
    then show ?thesis using p by (intro that [of p]) (simp_all add: stun_copy_username_def response_attrs_def)
  next
    case (Some i)
    let ?a = "attrs req ! i"
    have v: "(case attr_data ?a of None \<Rightarrow> [] | Some d \<Rightarrow> d) = attr_value ?a" by (simp add: attr_value_def)
    obtain q where "stun_set_attr_d env p STUN_USERNAME (unat (attr_len ?a)) (attr_value ?a) = Some q"
      "live_attrs q = live_attrs p @ [new_attr STUN_USERNAME (unat (attr_len ?a)) (attr_value ?a)]"
      by (rule stun_set_attr_new [OF fresh _ username_value(2) [OF wf Some] p(4), of env])
        (use unat_u16_lt in simp_all)
    then show ?thesis
      using p Some by (intro that [of q]) (simp_all add: stun_copy_username_def response_attrs_def v)
  qed
qed

text \<open>
  C30. The binding response, byte for byte. For a request that parses and a server key, the
  response is type \<^verbatim>\<open>STUN_RESP\<close> with the transaction number of the request, the mapped address,
  the user name of the request if present, the integrity value over the message so far (its
  length field already counting that attribute), and the fingerprint over all that precedes
  it. This is so exactly when the attributes take at most 84 bytes (a user name of at most 68
  bytes); for longer ones the code writes past a 128-byte array on the stack.
\<close>

theorem stun_get_response_bytes:
  "env_ok env \<Longrightarrow> 20 \<le> length rq \<Longrightarrow> stun_packet_from_hdr env rq (Some key) = Some req \<Longrightarrow>
     body_size (response_attrs req sa) < 50000 \<Longrightarrow>
     stun_get_response env (Some key) (Some rq) (Some sa) =
       (let len = body_size (response_attrs req sa);
            tid = take 12 (drop 8 rq);
            body = attrs_enc (heap_junk env) 20 (response_attrs req sa)
        in if len \<le> 84 then Some (Some (stun_seal env STUN_RESP (len + 24) tid (stun_sign key STUN_RESP len tid body)))
           else None)"
proof -
  assume env: "env_ok env" and rq: "20 \<le> length rq" and parse: "stun_packet_from_hdr env rq (Some key) = Some req"
    and size: "body_size (response_attrs req sa) < 50000"
  let ?as = "response_attrs req sa" and ?tid = "take 12 (drop 8 rq)"
  let ?body = "attrs_enc (heap_junk env) 20 (response_attrs req sa)"
  have wf: "list_all attr_wf (live_attrs req)"
    using parse by (auto simp: stun_packet_from_hdr_def bind_eq_Some_conv live_attrs_def dest!: stun_parse_wf)
  obtain pkt where pkt:
    "do { p \<leftarrow> stun_set_attr_d env stun_pkt_new STUN_X_MAPPED_ADDRESS 8 (stun_x_mapped sa); stun_copy_username env req p } = Some pkt"
    and live: "live_attrs pkt = ?as"
    by (rule response_packet [OF wf])
  have wfr: "list_all attr_wf ?as" using wf by (rule response_attrs_wf)
  have hdr: "stun_hdr_from_packet env pkt = Some (stun_wire 0 (body_size ?as) (replicate 4 0) (replicate 12 0) ?body)"
    using stun_hdr_from_packet_wire [of pkt env] wfr size by (simp add: live)
  have tid: "mem_read rq 8 12 = Some ?tid" "length ?tid = 12" using rq by (simp_all add: mem_read_def)
  have len: "length ?body = body_size ?as" using wfr by (simp add: length_attrs_enc body_size_def)
  have "stun_get_response env (Some key) (Some rq) (Some sa)
      = do { m \<leftarrow> stun_add_integrity env (stun_wire STUN_RESP (body_size ?as) (be32 STUN_M_COOKIE) ?tid ?body) key;
             m2 \<leftarrow> stun_add_crc env m; Some (Some m2) }"
    unfolding stun_get_response_def option.case prod.case parse Option.bind.bind_lunit
    using pkt tid by (simp add: hdr wire_puts STUN_NET_M_COOKIE_def flip: Option.bind_assoc)
  also have "\<dots> = map_option Some (do { m \<leftarrow> stun_add_integrity env (stun_wire STUN_RESP (body_size ?as) (be32 STUN_M_COOKIE) ?tid ?body) key;
             stun_add_crc env m })"
    by (simp add: map_conv_bind_option comp_def)
  also have "\<dots> = map_option Some (if body_size ?as \<le> 84
      then Some (stun_seal env STUN_RESP (body_size ?as + 24) ?tid (stun_sign key STUN_RESP (body_size ?as) ?tid ?body)) else None)"
    using stun_sign_seal [OF tid(2) len size env] by (simp only:)
  finally show ?thesis by (simp add: Let_def)
qed

definition sample_request :: "u8 list" where
  "sample_request = stun_wire STUN_REQ 0 (be32 STUN_M_COOKIE) (replicate 12 9) []"

lemma sample_request_parses:
  "stun_packet_from_hdr sample_env sample_request (Some [1]) =
     Some \<lparr>pkt_len = 20, attrnum = 0, attrs = [(attr_junk sample_env 0)\<lparr>attr_type := 0\<rparr>]\<rparr>"
proof -
  have ok: "wire_ok 0 (be32 STUN_M_COOKIE) (replicate 12 9) []" by (simp add: wire_ok_def)
  have mlen: "get16 sample_request 2 = Some (htons (of_nat 0))"
    unfolding sample_request_def by (rule stun_wire_mlen [OF ok])
  have "\<exists>crc. stun_get_fingerprint sample_env sample_request = Some crc"
    unfolding sample_request_def stun_get_fingerprint_wire [OF ok] by simp
  then show ?thesis
    by (auto simp: stun_packet_from_hdr_def mlen stun_parse_loop.simps)
qed

theorem stun_get_response_bytes_witness:
  "stun_get_response sample_env (Some [1]) (Some sample_request) (Some \<lparr>sin_port = 0x960D, sin_addr = 0x0100007F\<rparr>)
     \<noteq> None"
  using stun_get_response_bytes [OF _ _ sample_request_parses, of "\<lparr>sin_port = 0x960D, sin_addr = 0x0100007F\<rparr>"]
  by (simp add: sample_env_def env_ok_def sha1_garbage_def sample_request_def stun_wire_def Let_def
      response_attrs_def stun_attr_id_def body_size_def attr_size_new_attr ADDRLEN_ALIGN_def)

end
