(* ===== verification/Ice_Checks.thy ===== *)
theory Ice_Checks
  imports Ice_Stun_Claims
begin

text \<open>
  The connectivity check of two transports at the level of the messages: the bytes of a full
  request, that a signed and sealed message is parsed to its attributes out of the block it was
  received into, and that a request is answered.
\<close>

unbundle bit_operations_syntax

section \<open>Signed messages as lists of attributes\<close>

definition integrity_attr :: "u8 list \<Rightarrow> stun_attr" where
  "integrity_attr mac = \<lparr>attr_type = STUN_MSG_INTEGRITY, attr_len = 20, attr_data = Some mac\<rparr>"

definition fingerprint_attr :: "u8 list \<Rightarrow> stun_attr" where
  "fingerprint_attr crc = \<lparr>attr_type = STUN_FINGERPRINT, attr_len = 4, attr_data = Some crc\<rparr>"

definition signed_attrs :: "stun_attr list \<Rightarrow> u8 list \<Rightarrow> u8 list \<Rightarrow> stun_attr list" where
  "signed_attrs as mac crc = as @ [integrity_attr mac, fingerprint_attr crc]"

lemma attrs_enc_append: "attrs_enc junk m (as @ bs) = attrs_enc junk m as @ attrs_enc junk (m + body_size as) bs"
  by (induction as arbitrary: m) (simp_all add: body_size_def add.assoc)

lemma signed_enc:
  "length mac = 20 \<Longrightarrow> length crc = 4 \<Longrightarrow>
     attrs_enc junk m (signed_attrs as mac crc) = attrs_enc junk m as @ be16 STUN_MSG_INTEGRITY @ be16 20 @ mac @ be16 STUN_FINGERPRINT @ be16 4 @ crc"
  by (simp add: signed_attrs_def attrs_enc_append integrity_attr_def fingerprint_attr_def attr_enc_def attr_size_def attr_value_def ADDRLEN_ALIGN_def)

lemma body_size_append: "body_size (as @ bs) = body_size as + body_size bs"
  by (simp add: body_size_def)

lemma signed_size: "body_size (signed_attrs as mac crc) = body_size as + 32"
  by (simp add: signed_attrs_def body_size_append) (simp add: body_size_def integrity_attr_def fingerprint_attr_def attr_size_def ADDRLEN_ALIGN_def)

lemma signed_wf: "list_all attr_wf as \<Longrightarrow> length mac = 20 \<Longrightarrow> length crc = 4 \<Longrightarrow> list_all attr_wf (signed_attrs as mac crc)"
  by (simp add: signed_attrs_def integrity_attr_def fingerprint_attr_def attr_wf_def)

lemma signed_seal:
  obtains mac crc where "length mac = 20" "length crc = 4"
    "stun_seal env ty (body_size as + 24) tid (stun_sign key ty (body_size as) tid (attrs_enc junk 20 as)) =
       stun_wire ty (body_size (signed_attrs as mac crc)) (be32 STUN_M_COOKIE) tid (attrs_enc junk 20 (signed_attrs as mac crc))"
proof -
  let ?b = "attrs_enc junk 20 as"
  let ?mac = "stun_mac key (stun_wire ty (body_size as + 24) (be32 STUN_M_COOKIE) tid ?b)"
  let ?crc = "stun_crc (crc_tab env) (stun_wire ty (body_size as + 32) (be32 STUN_M_COOKIE) tid (stun_sign key ty (body_size as) tid ?b))"
  show ?thesis
    by (rule that [of ?mac ?crc]) (simp_all add: signed_size signed_enc stun_seal_def stun_sign_def add.commute)
qed

lemma early_append: "early_integrity key ptr (as @ bs) \<longleftrightarrow> early_integrity key ptr as \<and> early_integrity key (ptr + body_size as) bs"
  by (induction as arbitrary: ptr) (auto simp: body_size_def add.assoc)

lemma early_none: "list_all (\<lambda>a. attr_type a \<noteq> STUN_MSG_INTEGRITY) as \<Longrightarrow> early_integrity key ptr as"
  by (induction as arbitrary: ptr) auto

lemma early_signed:
  assumes "list_all (\<lambda>a. attr_type a \<noteq> STUN_MSG_INTEGRITY) as" "body_size as \<le> 108"
  shows "early_integrity key 20 (signed_attrs as mac crc)"
  using assms early_none [of as key 20] by (simp add: signed_attrs_def early_append fingerprint_attr_def stun_consts)

section \<open>Parsing out of a larger block\<close>

lemma mem_read_prefix: "off + n \<le> length xs \<Longrightarrow> mem_read (xs @ ys) off n = mem_read xs off n"
  by (simp add: mem_read_def)

lemma get16_prefix: "off + 2 \<le> length xs \<Longrightarrow> get16 (xs @ ys) off = get16 xs off"
  by (simp add: get16_def mem_read_prefix)

lemma get32_prefix: "off + 4 \<le> length xs \<Longrightarrow> get32 (xs @ ys) off = get32 xs off"
  by (simp add: get32_def mem_read_prefix)

lemma fingerprint_prefix:
  assumes ok: "wire_ok len c tid body"
  shows "stun_get_fingerprint env (stun_wire ty len c tid body @ post) = stun_get_fingerprint env (stun_wire ty len c tid body)"
  using length_stun_wire [OF ok, of ty]
  by (simp add: stun_get_fingerprint_def get16_prefix stun_wire_mlen [OF ok] stun_wire_total [OF ok] mem_read_prefix)

lemma stun_parse_wire:
  assumes wf: "list_all attr_wf as" and size: "body_size as \<le> 116" and f: "length c = 4" "length tid = 12"
    and key: "key = None \<or> env_ok env" "early_integrity key 20 as"
  shows "\<exists>pkt. stun_packet_from_hdr env (stun_wire ty (body_size as) c tid (attrs_enc junk 20 as) @ post) key = Some pkt \<and> live_attrs pkt = as"
proof -
  let ?w = "stun_wire ty (body_size as) c tid (attrs_enc junk 20 as)"
  have ok: "wire_ok (body_size as) c tid (attrs_enc junk 20 as)"
    using wf size f by (simp add: wire_ok_def length_attrs_enc body_size_def)
  let ?p0 = "\<lparr>pkt_len = 20 + body_size as, attrnum = 0, attrs = [(attr_junk env 0)\<lparr>attr_type := 0\<rparr>]\<rparr>"
  have pre: "?w @ post = (be16 ty @ be16 (of_nat (body_size as)) @ c @ tid) @ attrs_enc junk 20 as @ post"
    by (simp add: stun_wire_def)
  have "\<exists>pkt'. stun_parse_loop env (?w @ post) key 20 ?p0 = Some pkt' \<and> live_attrs pkt' = live_attrs ?p0 @ as
      \<and> attrnum pkt' = attrnum ?p0 + length as"
    using wf f by (intro stun_parse_attrs [OF key(1) _ key(2) pre]) (simp_all add: length_attrs_enc body_size_def)
  moreover have "get16 (?w @ post) 2 = Some (htons (of_nat (body_size as)))"
    using length_stun_wire [OF ok, of ty] stun_wire_mlen [OF ok, of ty] by (simp add: get16_prefix)
  moreover have "unat (of_nat (body_size as) :: u16) = body_size as" using size by (intro unat_of_nat_u16) simp
  moreover have "\<exists>crc. stun_get_fingerprint env (?w @ post) = Some crc"
    using size unfolding fingerprint_prefix [OF ok] stun_get_fingerprint_wire [OF ok] by simp
  ultimately show ?thesis by (auto simp: stun_packet_from_hdr_def live_attrs_def)
qed

section \<open>The request of a check\<close>

definition request_attrs :: "u8 list \<Rightarrow> u8 list \<Rightarrow> u8 list \<Rightarrow> stun_attr list" where
  "request_attrs prio val user =
     [new_attr STUN_PRIORITY 4 prio, new_attr STUN_ICE_CONTROLLED 8 val, new_attr STUN_USERNAME (length user) user]"

lemma length_trans_id [simp]: "length (stun_trans_id n) = 12"
  by (simp add: stun_trans_id_def Let_def del: dec_digits.simps)

lemma request_attrs_ok:
  assumes "length prio = 4" "length val = 8" "length user < 2 ^ 16"
  shows "list_all attr_wf (request_attrs prio val user)" "body_size (request_attrs prio val user) = 24 + ADDRLEN_ALIGN (length user)"
    "list_all (\<lambda>a. attr_type a \<noteq> STUN_MSG_INTEGRITY) (request_attrs prio val user)"
  using assms
  by (simp_all add: request_attrs_def attr_wf_new_attr body_size_def attr_size_new_attr ADDRLEN_ALIGN_def)
    (simp_all add: new_attr_def stun_consts)

lemma request_packet:
  assumes l: "length prio = 4" "length val = 8" "length user < 2 ^ 16"
  obtains pkt where
    "do { p1 \<leftarrow> stun_set_attr_d env stun_pkt_new STUN_PRIORITY 4 prio; p2 \<leftarrow> stun_set_attr_d env p1 STUN_ICE_CONTROLLED 8 val;
          stun_set_attr_d env p2 STUN_USERNAME (length user) user } = Some pkt"
    "live_attrs pkt = request_attrs prio val user"
proof -
  have id_none: "stun_attr_id p t = None" if "live_attrs p = as" "list_all (\<lambda>a. attr_type a \<noteq> t) as" for p t as
    using that by (simp add: stun_attr_id_def live_attrs_def attr_index_None)
  obtain p1 where p1: "stun_set_attr_d env stun_pkt_new STUN_PRIORITY 4 prio = Some p1"
    "live_attrs p1 = [new_attr STUN_PRIORITY 4 prio]" "attrnum p1 \<le> length (attrs p1)"
    by (rule stun_set_attr_new [of stun_pkt_new STUN_PRIORITY 4 prio env])
      (use l in \<open>simp_all add: stun_pkt_new_def stun_attr_id_def live_attrs_def\<close>)
  have n1: "stun_attr_id p1 STUN_ICE_CONTROLLED = None" by (rule id_none [OF p1(2)]) (simp add: new_attr_def stun_consts)
  obtain p2 where p2: "stun_set_attr_d env p1 STUN_ICE_CONTROLLED 8 val = Some p2"
    "live_attrs p2 = live_attrs p1 @ [new_attr STUN_ICE_CONTROLLED 8 val]" "attrnum p2 \<le> length (attrs p2)"
    by (rule stun_set_attr_new [OF n1 _ _ p1(3), of 8 val env]) (use l in simp_all)
  have n2: "stun_attr_id p2 STUN_USERNAME = None"
    by (rule id_none [OF p2(2)]) (simp add: p1(2) new_attr_def stun_consts)
  obtain p3 where p3: "stun_set_attr_d env p2 STUN_USERNAME (length user) user = Some p3"
    "live_attrs p3 = live_attrs p2 @ [new_attr STUN_USERNAME (length user) user]"
    by (rule stun_set_attr_new [OF n2 _ _ p2(3), of "length user" user env]) (use l in simp_all)
  show ?thesis by (rule that [of p3]) (simp_all add: p1 p2 p3 request_attrs_def)
qed

lemma stun_full_request_bytes:
  assumes env: "env_ok env" and l: "length prio = 4" "length val = 8" "length user < 40000"
  shows "stun_full_request env prio val rnd user password =
    (let as = request_attrs prio val user; len = body_size as; tid = stun_trans_id rnd
     in if len \<le> 84 then Some (stun_seal env STUN_REQ (len + 24) tid (stun_sign password STUN_REQ len tid (attrs_enc (heap_junk env) 20 as)))
        else None)"
proof -
  let ?as = "request_attrs prio val user" and ?tid = "stun_trans_id rnd"
  let ?len = "body_size ?as" and ?body = "attrs_enc (heap_junk env) 20 ?as"
  have u: "length user < 2 ^ 16" using l(3) by simp
  note ok = request_attrs_ok [OF l(1,2) u]
  have size: "?len < 50000" using ok(2) l(3) by (simp add: ADDRLEN_ALIGN_def) presburger?
  obtain pkt where pkt: "do { p1 \<leftarrow> stun_set_attr_d env stun_pkt_new STUN_PRIORITY 4 prio; p2 \<leftarrow> stun_set_attr_d env p1 STUN_ICE_CONTROLLED 8 val;
          stun_set_attr_d env p2 STUN_USERNAME (length user) user } = Some pkt" and live: "live_attrs pkt = ?as"
    by (rule request_packet [OF l(1,2) u, of env])
  have hdr: "stun_hdr_from_packet env pkt = Some (stun_wire 0 ?len (replicate 4 0) (replicate 12 0) ?body)"
    using stun_hdr_from_packet_wire [of pkt env] ok(1) size by (simp add: live)
  have len: "length ?body = ?len" using ok(1) by (simp add: length_attrs_enc body_size_def)
  have "stun_full_request env prio val rnd user password =
     do { m \<leftarrow> stun_add_integrity env (stun_wire STUN_REQ ?len (be32 STUN_M_COOKIE) ?tid ?body) password; stun_add_crc env m }"
    using pkt by (simp add: stun_full_request_def hdr wire_puts STUN_NET_M_COOKIE_def flip: Option.bind_assoc)
  also have "\<dots> = (if ?len \<le> 84 then Some (stun_seal env STUN_REQ (?len + 24) ?tid (stun_sign password STUN_REQ ?len ?tid ?body)) else None)"
    by (rule stun_sign_seal [OF length_trans_id len size env])
  finally show ?thesis by (simp add: Let_def)
qed

end
