(* ===== verification/Ice_Handshake.thy ===== *)
theory Ice_Handshake
  imports Ice_Ctl_Claims Ice_Checks
begin

text \<open>
  Two transports that check each other: the request of the one is answered by the other, and the
  answer makes the pair succeed.
\<close>

unbundle bit_operations_syntax

section \<open>Reading a message out of the block it was received into\<close>

lemma wire_type: "get16 (stun_wire ty len c tid body @ post) 0 = Some (htons ty)"
  using get16_be16 [of "[]" 0 ty "be16 (of_nat len) @ c @ tid @ body @ post"] by (simp add: stun_wire_def)

lemma wire_first: "\<exists>b. mem_read (stun_wire ty len c tid body @ post) 0 1 = Some b"
  by (simp add: stun_wire_def mem_read_def)

lemma wire_cookie: "get32 (stun_wire ty len (be32 STUN_M_COOKIE) tid body @ post) 4 = Some STUN_NET_M_COOKIE"
  using get32_le32 [of "be16 ty @ be16 (of_nat len)" 4 "htonl STUN_M_COOKIE" "tid @ body @ post"]
  by (simp add: stun_wire_def STUN_NET_M_COOKIE_def)

lemma wire_whole:
  assumes "wire_ok len c tid body"
  shows "get16 (stun_wire ty len c tid body) 2 = Some (htons (of_nat len))"
    "mem_read (stun_wire ty len c tid body) 0 (20 + unat (htons (htons (of_nat len) :: u16))) = Some (stun_wire ty len c tid body)"
proof -
  have u: "unat (of_nat len :: u16) = len" using assms by (intro unat_of_nat_u16) (simp add: wire_ok_def)
  show "get16 (stun_wire ty len c tid body) 2 = Some (htons (of_nat len))" by (rule stun_wire_mlen [OF assms])
  show "mem_read (stun_wire ty len c tid body) 0 (20 + unat (htons (htons (of_nat len) :: u16))) = Some (stun_wire ty len c tid body)"
    using length_stun_wire [OF assms, of ty] u by (simp add: mem_read_def)
qed

section \<open>The three steps of a check\<close>

lemma align_le: "ADDRLEN_ALIGN n \<le> 60 \<longleftrightarrow> n \<le> 60"
  unfolding ADDRLEN_ALIGN_def by presburger

lemma new_attr_types [simp]: "attr_type (new_attr t n v) = t"
  by (simp add: new_attr_def)

text \<open>A message of the library: its attributes are signed, and it is no longer than the array.\<close>

definition stun_message :: "u16 \<Rightarrow> stun_attr list \<Rightarrow> u8 list \<Rightarrow> bool" where
  "stun_message ty as m \<longleftrightarrow> (\<exists>mac crc tid junk. length mac = 20 \<and> length crc = 4 \<and> length tid = 12
     \<and> list_all attr_wf as \<and> body_size as \<le> 84 \<and> list_all (\<lambda>a. attr_type a \<noteq> STUN_MSG_INTEGRITY) as
     \<and> m = stun_wire ty (body_size (signed_attrs as mac crc)) (be32 STUN_M_COOKIE) tid (attrs_enc junk 20 (signed_attrs as mac crc)))"

lemma stun_message_sealed:
  assumes "length tid = 12" "list_all attr_wf as" "body_size as \<le> 84" "list_all (\<lambda>a. attr_type a \<noteq> STUN_MSG_INTEGRITY) as"
  shows "stun_message ty as (stun_seal env ty (body_size as + 24) tid (stun_sign key ty (body_size as) tid (attrs_enc junk 20 as)))"
proof -
  obtain mac crc where "length mac = 20" "length crc = 4"
    "stun_seal env ty (body_size as + 24) tid (stun_sign key ty (body_size as) tid (attrs_enc junk 20 as)) =
       stun_wire ty (body_size (signed_attrs as mac crc)) (be32 STUN_M_COOKIE) tid (attrs_enc junk 20 (signed_attrs as mac crc))"
    by (rule signed_seal)
  with assms show ?thesis unfolding stun_message_def by blast
qed

lemma stun_message_read:
  assumes m: "stun_message ty as m" and key: "key = None \<or> env_ok env"
  shows "get16 (m @ post) 0 = Some (htons ty)" "get32 (m @ post) 4 = Some STUN_NET_M_COOKIE" "\<exists>b. mem_read (m @ post) 0 1 = Some b"
    "\<exists>pkt mac crc. stun_packet_from_hdr env (m @ post) key = Some pkt \<and> live_attrs pkt = signed_attrs as mac crc"
    "\<exists>l. get16 m 2 = Some l \<and> mem_read m 0 (20 + unat (htons l)) = Some m" "20 \<le> length m"
proof -
  obtain mac crc tid junk where d: "length mac = 20" "length crc = 4" "length tid = 12" "list_all attr_wf as" "body_size as \<le> 84"
    "list_all (\<lambda>a. attr_type a \<noteq> STUN_MSG_INTEGRITY) as"
    and w: "m = stun_wire ty (body_size (signed_attrs as mac crc)) (be32 STUN_M_COOKIE) tid (attrs_enc junk 20 (signed_attrs as mac crc))"
    using m unfolding stun_message_def by blast
  note wf = signed_wf [OF d(4,1,2)]
  have ok: "wire_ok (body_size (signed_attrs as mac crc)) (be32 STUN_M_COOKIE) tid (attrs_enc junk 20 (signed_attrs as mac crc))"
    using d(3,5) length_attrs_enc [OF wf, of junk 20] signed_size [of as mac crc] by (simp add: wire_ok_def body_size_def)
  show "get16 (m @ post) 0 = Some (htons ty)" "get32 (m @ post) 4 = Some STUN_NET_M_COOKIE" "\<exists>b. mem_read (m @ post) 0 1 = Some b"
    unfolding w by (rule wire_type wire_cookie wire_first)+
  have "\<exists>pkt. stun_packet_from_hdr env (m @ post) key = Some pkt \<and> live_attrs pkt = signed_attrs as mac crc"
    unfolding w by (rule stun_parse_wire [OF wf _ _ d(3) key]) (use d(5,6) early_signed in \<open>simp_all add: signed_size\<close>)
  then show "\<exists>pkt mac crc. stun_packet_from_hdr env (m @ post) key = Some pkt \<and> live_attrs pkt = signed_attrs as mac crc" by blast
  show "\<exists>l. get16 m 2 = Some l \<and> mem_read m 0 (20 + unat (htons l)) = Some m" unfolding w using wire_whole [OF ok] by blast
  show "20 \<le> length m" unfolding w using length_stun_wire [OF ok, of ty] by simp
qed

lemma check_request_message:
  assumes env: "env_ok (stun env)" and prio: "length (prio_ptr env) = 4"
    and c: "cd_user rc = Some u" "cd_pass rc = Some p" "ice_getenv env s ''ufrag'' = Some f"
    and len: "length u + 1 + length f \<le> 60"
  shows "\<exists>k m as val. check_request env s rc = Some (Datagram k (cd_addr rc) m, s\<lparr>rand_count := rand_count s + 2\<rparr>)
     \<and> stun_message STUN_REQ as m \<and> as = request_attrs (prio_ptr env) val (bytes_of (u @ '':'' @ f)) \<and> length val = 8"
proof -
  let ?val = "le32 (rand env (rand_count s)) @ [0, 0, 0, 0]" and ?t = "rand env (Suc (rand_count s))"
  let ?full = "bytes_of u @ [0x3a] @ bytes_of f"
  let ?as = "request_attrs (prio_ptr env) ?val ?full"
  have v: "length ?val = 8" by simp
  have n: "length ?full = length u + 1 + length f" "length ?full < 40000" "length ?full < 2 ^ 16" using len by simp_all
  note ok = request_attrs_ok [OF prio v n(3)]
  have size: "body_size ?as \<le> 84" using ok(2) len align_le [of "length ?full"] n(1) by simp
  define m where "m = stun_seal (stun env) STUN_REQ (body_size ?as + 24) (stun_trans_id (unat ?t))
     (stun_sign (bytes_of p) STUN_REQ (body_size ?as) (stun_trans_id (unat ?t)) (attrs_enc (heap_junk (stun env)) 20 ?as))"
  have msg: "stun_message STUN_REQ ?as m" unfolding m_def by (rule stun_message_sealed [OF length_trans_id ok(1) size ok(3)])
  have "stun_full_request (stun env) (prio_ptr env) ?val (unat ?t) ?full (bytes_of p) = Some m"
    using stun_full_request_bytes [OF env prio v n(2), of "unat ?t" "bytes_of p"] size by (simp only: Let_def m_def if_True)
  moreover have "\<not> length ?full + 1 > 128" using n(1) len by simp
  ultimately have full: "get_stun_full_request (stun env) (prio_ptr env) ?val (unat ?t) (Some (bytes_of f)) (Some (bytes_of u)) (Some (bytes_of p)) = Some (Some m)"
    by (simp only: get_stun_full_request_def option.case prod.case Let_def if_False option.map)
  obtain l where l: "get16 m 2 = Some l" "mem_read m 0 (20 + unat (htons l)) = Some m"
    using stun_message_read(5) [OF msg, of None "stun env"] by blast
  have "check_request env s rc = Some (Datagram (if htons (port_of (cd_addr rc)) AND 1 \<noteq> 0 then sockv4_ctl s else sockv4 s) (cd_addr rc) m,
      s\<lparr>rand_count := rand_count s + 2\<rparr>)"
    using c by (simp add: check_request_def ice_random_def full l)
  moreover have "?full = bytes_of (u @ '':'' @ f)" by (simp add: bytes_of_def byte_of_def)
  ultimately show ?thesis using msg v by metis
qed

text \<open>The answer to such a request carries the mapped address and the user name.\<close>

lemma answer_attrs:
  assumes live: "live_attrs pkt = signed_attrs (request_attrs prio val user) mac crc" and user: "user \<noteq> []" "length user \<le> 60"
  shows "response_attrs pkt sa = [new_attr STUN_X_MAPPED_ADDRESS 8 (stun_x_mapped sa), new_attr STUN_USERNAME (length user) user]"
    "body_size (response_attrs pkt sa) \<le> 84" "list_all attr_wf (response_attrs pkt sa)"
    "list_all (\<lambda>a. attr_type a \<noteq> STUN_MSG_INTEGRITY) (response_attrs pkt sa)" "list_all (\<lambda>a. attr_type a \<noteq> 1) (response_attrs pkt sa)"
proof -
  have idx: "stun_attr_id pkt STUN_USERNAME = Some 2"
    unfolding stun_attr_id_def live_attrs_def [symmetric] live
    by (simp add: signed_attrs_def request_attrs_def stun_consts)
  have "2 < length (live_attrs pkt)" by (simp add: live signed_attrs_def request_attrs_def)
  then have a: "attrs pkt ! 2 = new_attr STUN_USERNAME (length user) user"
    using live_attrs_nth [of 2 pkt] by (simp add: live signed_attrs_def request_attrs_def)
  have n: "unat (of_nat (length user) :: u16) = length user" using user(2) by (intro unat_of_nat_u16) simp
  then show r: "response_attrs pkt sa = [new_attr STUN_X_MAPPED_ADDRESS 8 (stun_x_mapped sa), new_attr STUN_USERNAME (length user) user]"
    using user(1) by (simp add: response_attrs_def idx a) (simp add: new_attr_def attr_value_def)
  show "body_size (response_attrs pkt sa) \<le> 84"
    using align_le [of "length user"] user(2) by (simp add: r body_size_def attr_size_new_attr ADDRLEN_ALIGN_def)
  show "list_all attr_wf (response_attrs pkt sa)" using user(2) by (simp add: r attr_wf_new_attr stun_x_mapped_def)
  show "list_all (\<lambda>a. attr_type a \<noteq> STUN_MSG_INTEGRITY) (response_attrs pkt sa)" "list_all (\<lambda>a. attr_type a \<noteq> 1) (response_attrs pkt sa)"
    by (simp_all add: r stun_consts)
qed

lemma flags_rtp: "NOT (flags AND 1) \<noteq> (0 :: u32)"
proof -
  have "bit (NOT (flags AND 1)) 1" by (simp add: bit_simps)
  then show ?thesis by force
qed

lemma check_answered:
  assumes env: "env_ok (stun env)" and req: "stun_message STUN_REQ (request_attrs prio val user) m" and user: "user \<noteq> []" "length user \<le> 60"
    and pwd: "getattr (Some ''pwd'') (Some (ice_attrs t)) = Some pw"
  shows "\<exists>d as. on_packet_in env sa flags (m @ post) len t = Some ([Datagram (sockv4 t) (IP4 sa) d], t)
     \<and> stun_message STUN_RESP as d \<and> list_all (\<lambda>a. attr_type a \<noteq> 1) as"
proof -
  have key: "Some (bytes_of pw) = None \<or> env_ok (stun env)" using env by simp
  note r = stun_message_read(1-4) [OF req key, where post = post]
  obtain pkt mac crc where pkt: "stun_packet_from_hdr (stun env) (m @ post) (Some (bytes_of pw)) = Some pkt"
    "live_attrs pkt = signed_attrs (request_attrs prio val user) mac crc" using r(4) by blast
  note a = answer_attrs [OF pkt(2) user, of sa]
  let ?as = "response_attrs pkt sa" and ?tid = "take 12 (drop 8 (m @ post))"
  have long: "20 \<le> length (m @ post)" using stun_message_read(6) [OF req key] by simp
  then have tid: "length ?tid = 12" by simp
  define d where "d = stun_seal (stun env) STUN_RESP (body_size ?as + 24) ?tid (stun_sign (bytes_of pw) STUN_RESP (body_size ?as) ?tid (attrs_enc (heap_junk (stun env)) 20 ?as))"
  have d: "stun_message STUN_RESP ?as d" unfolding d_def by (rule stun_message_sealed [OF tid a(3,2,4)])
  have resp: "stun_get_response (stun env) (Some (bytes_of pw)) (Some (m @ post)) (Some sa) = Some (Some d)"
    using stun_get_response_bytes [OF env long pkt(1), of sa] a(2) by (simp only: Let_def d_def if_True)
  obtain l where l: "get16 d 2 = Some l" "mem_read d 0 (20 + unat (htons l)) = Some d"
    using stun_message_read(5) [OF d, of None "stun env"] by blast
  obtain b where b: "mem_read (m @ post) 0 1 = Some b" using r(3) by blast
  have "on_packet_in env sa flags (m @ post) len t = Some ([Datagram (sockv4 t) (IP4 sa) d], t)"
    using r(1) b pwd resp l flags_rtp [of flags] by (simp add: on_packet_in_def)
  with d a(5) show ?thesis by blast
qed

lemma answer_taken:
  assumes resp: "stun_message STUN_RESP as d" "list_all (\<lambda>a. attr_type a \<noteq> 1) as" and w: "find_waiting (cands s) (IP4 sb) (c_pairs s) = Some i"
  shows "on_packet_in env sb flags (d @ post) len s = Some ([], pair_succeeded i s)"
proof -
  have key: "(None :: u8 list option) = None \<or> env_ok (stun env)" by simp
  note r = stun_message_read(1-4) [OF resp(1) key, where post = post]
  obtain pkt mac crc where pkt: "stun_packet_from_hdr (stun env) (d @ post) None = Some pkt" "live_attrs pkt = signed_attrs as mac crc"
    using r(4) by blast
  have "attr_index (live_attrs pkt) 1 = None" using resp(2)
    by (simp add: pkt(2) attr_index_None signed_attrs_def integrity_attr_def fingerprint_attr_def stun_consts)
  then have none: "mapped_address pkt = Some None" by (simp add: mapped_address_def live_attrs_def)
  obtain b where b: "mem_read (d @ post) 0 1 = Some b" using r(3) by blast
  have "htons STUN_RESP \<noteq> htons STUN_REQ" by (simp add: stun_consts htons_def)
  then show ?thesis
    using r(1,2) b pkt(1) none w by (simp add: on_packet_in_def ice_stun_response_def add_mapped_def mark_answered_def)
qed

lemma find_waiting_exists:
  "q \<in> set ps \<Longrightarrow> p_state q = NICE_CHECK_IN_PROGRESS \<Longrightarrow> cd_addr (cs ! p_remote q) = a \<Longrightarrow> \<exists>i. find_waiting cs a ps = Some i"
  by (induction ps) auto

lemma find_waiting_first:
  "find_waiting cs a ps = Some i \<Longrightarrow> j < i \<Longrightarrow> \<not> (p_state (ps ! j) = NICE_CHECK_IN_PROGRESS \<and> cd_addr (cs ! p_remote (ps ! j)) = a)"
proof (induction ps arbitrary: i j)
  case (Cons q qs)
  then show ?case by (cases j) (auto split: if_splits)
qed simp

text \<open>The pair at this place is being checked and its remote candidate has this address.\<close>

definition waits_for :: "ice_stream \<Rightarrow> sockaddr \<Rightarrow> nat \<Rightarrow> bool" where
  "waits_for s a i \<longleftrightarrow> i < length (c_pairs s) \<and> p_state (c_pairs s ! i) = NICE_CHECK_IN_PROGRESS
     \<and> cd_addr (cands s ! p_remote (c_pairs s ! i)) = a"

lemma first_waiting:
  assumes "waits_for s a n"
  shows "\<exists>i. find_waiting (cands s) a (c_pairs s) = Some i \<and> waits_for s a i \<and> (\<forall>j<i. \<not> waits_for s a j)"
proof -
  have "c_pairs s ! n \<in> set (c_pairs s)" using assms by (simp add: waits_for_def)
  then obtain i where i: "find_waiting (cands s) a (c_pairs s) = Some i"
    using find_waiting_exists assms unfolding waits_for_def by blast
  have "waits_for s a i" using find_waiting_spec [OF i] by (simp add: waits_for_def)
  moreover have "\<forall>j<i. \<not> waits_for s a j" using find_waiting_first [OF i] by (auto simp: waits_for_def)
  ultimately show ?thesis using i by blast
qed

lemma pair_succeeded_flag:
  assumes "i < length (c_pairs s)"
  shows "flag_set (pair_succeeded i s)" "p_state (c_pairs (pair_succeeded i s) ! i) = NICE_CHECK_SUCCEEDED"
proof -
  have "(ice_cr s OR ICE_FLAG_RTP_SUCCEEDED) AND ICE_FLAG_RTP_SUCCEEDED = ICE_FLAG_RTP_SUCCEEDED"
    by (simp add: ICE_FLAG_RTP_SUCCEEDED_def bit.conj_disj_distrib2)
  moreover have "ICE_FLAG_RTP_SUCCEEDED \<noteq> 0" by (simp add: ICE_FLAG_RTP_SUCCEEDED_def)
  ultimately show "flag_set (pair_succeeded i s)" by (auto simp: pair_succeeded_def flag_set_def Let_def)
  show "p_state (c_pairs (pair_succeeded i s) ! i) = NICE_CHECK_SUCCEEDED" using assms by (simp add: pair_succeeded_def Let_def)
qed

text \<open>
  C9. A connectivity check that is answered succeeds. One transport makes the request for a
  candidate of the other, which has a user name and a password, with the user names of both, which
  together with the colon between them take at most 60 bytes; the other, which has a password of
  its own (the attribute \<open>pwd\<close>) and may be in any state, answers any packet that begins with the
  request, at whatever address it came from and whatever bytes follow in the block; and when the
  answer comes from the address of the candidate while pairs with that address are being checked,
  the first of these pairs succeeds, no other pair changes, and the transport is ready for media.
  Neither side rejects anything: no key, user name or transaction number is compared on the way.
\<close>

theorem ice_check_succeeds:
  assumes envs: "env_ok (stun ea)" "length (prio_ptr ea) = 4" "env_ok (stun eb)"
    and rc: "cd_addr rc = IP4 sb" "cd_user rc = Some u" "cd_pass rc = Some p" "ice_getenv ea s ''ufrag'' = Some f"
    and len: "length u + 1 + length f \<le> 60"
    and pwd: "getattr (Some ''pwd'') (Some (ice_attrs t)) = Some pw"
  shows "\<exists>k req s1. check_request ea s rc = Some (Datagram k (IP4 sb) req, s1)
     \<and> (\<forall>sa flags post n. \<exists>j resp. on_packet_in eb sa flags (req @ post) n t = Some ([Datagram j (IP4 sa) resp], t)
        \<and> (\<forall>s2 q flags' post' n'. waits_for s2 (IP4 sb) q
           \<longrightarrow> (\<exists>i s3. waits_for s2 (IP4 sb) i \<and> (\<forall>j<i. \<not> waits_for s2 (IP4 sb) j)
                \<and> on_packet_in ea sb flags' (resp @ post') n' s2 = Some ([], s3) \<and> flag_set s3
                \<and> c_pairs s3 = (c_pairs s2)[i := (c_pairs s2 ! i)\<lparr>p_state := NICE_CHECK_SUCCEEDED\<rparr>])))"
proof -
  let ?user = "bytes_of (u @ '':'' @ f)"
  obtain k m val where m: "check_request ea s rc = Some (Datagram k (IP4 sb) m, s\<lparr>rand_count := rand_count s + 2\<rparr>)"
    "stun_message STUN_REQ (request_attrs (prio_ptr ea) val ?user) m"
    using check_request_message [OF envs(1,2) rc(2,3,4) len] rc(1) by auto
  have user: "?user \<noteq> []" "length ?user \<le> 60" using len by (simp_all add: bytes_of_def)
  have "\<exists>j resp. on_packet_in eb sa flags (m @ post) n t = Some ([Datagram j (IP4 sa) resp], t)
        \<and> (\<forall>s2 q flags' post' n'. waits_for s2 (IP4 sb) q
           \<longrightarrow> (\<exists>i s3. waits_for s2 (IP4 sb) i \<and> (\<forall>j<i. \<not> waits_for s2 (IP4 sb) j)
                \<and> on_packet_in ea sb flags' (resp @ post') n' s2 = Some ([], s3) \<and> flag_set s3
                \<and> c_pairs s3 = (c_pairs s2)[i := (c_pairs s2 ! i)\<lparr>p_state := NICE_CHECK_SUCCEEDED\<rparr>]))" for sa flags post n
  proof -
    obtain d as where d: "on_packet_in eb sa flags (m @ post) n t = Some ([Datagram (sockv4 t) (IP4 sa) d], t)"
      "stun_message STUN_RESP as d" "list_all (\<lambda>a. attr_type a \<noteq> 1) as"
      using check_answered [OF envs(3) m(2) user pwd] by blast
    have "\<exists>i s3. waits_for s2 (IP4 sb) i \<and> (\<forall>j<i. \<not> waits_for s2 (IP4 sb) j)
                \<and> on_packet_in ea sb flags' (d @ post') n' s2 = Some ([], s3) \<and> flag_set s3
                \<and> c_pairs s3 = (c_pairs s2)[i := (c_pairs s2 ! i)\<lparr>p_state := NICE_CHECK_SUCCEEDED\<rparr>]"
      if q: "waits_for s2 (IP4 sb) q" for s2 q flags' post' n'
    proof -
      obtain i where i: "find_waiting (cands s2) (IP4 sb) (c_pairs s2) = Some i" "waits_for s2 (IP4 sb) i" "\<forall>j<i. \<not> waits_for s2 (IP4 sb) j"
        using first_waiting [OF q] by blast
      have "c_pairs (pair_succeeded i s2) = (c_pairs s2)[i := (c_pairs s2 ! i)\<lparr>p_state := NICE_CHECK_SUCCEEDED\<rparr>]"
        by (simp add: pair_succeeded_def Let_def)
      moreover have "flag_set (pair_succeeded i s2)" using i(2) pair_succeeded_flag(1) by (simp add: waits_for_def)
      ultimately show ?thesis using answer_taken [OF d(2,3) i(1)] i(2,3) by blast
    qed
    with d(1) show ?thesis by blast
  qed
  with m(1) show ?thesis by blast
qed

text \<open>A transport whose candidate has a name and a password, and one that answers.\<close>

definition sample_ice :: ice_env where
  "sample_ice = \<lparr>stun = sample_env, aton = (\<lambda>_. Some 0x0100007F), rand = (\<lambda>n. of_nat n), up_env = (\<lambda>_. None), ijunk = (\<lambda>_. 7),
     prio_ptr = [1, 2, 3, 4], port_ptr = 0, addr_junk = 0, send_result = (\<lambda>d. int (length d))\<rparr>"

definition sample_addr :: sockaddr_in where
  "sample_addr = \<lparr>sin_port = 0x245E, sin_addr = 0x0100007F\<rparr>"

definition sample_remote :: x_candidate where
  "sample_remote = \<lparr>cd_addr = IP4 sample_addr, cd_user = Some ''peer'', cd_pass = Some ''secret'', cd_stream = 0\<rparr>"

definition sample_stream :: ice_stream where
  "sample_stream = \<lparr>ice_cr = 1, sockv4 = 5, sockv4_ctl = 6, timer_counter = 0, timer_repeat = 1, cands = [sample_remote, sample_remote\<lparr>cd_stream := 77\<rparr>],
     locals = [1], remotes = [0], c_pairs = [\<lparr>p_local = Some 1, p_remote = 0, p_stream = 9, p_state = NICE_CHECK_IN_PROGRESS\<rparr>],
     c_pair_last_success = None, media_owner_cache = replicate 127 None, ice_attrs = [(''ufrag'', ''me''), (''pwd'', ''ice00000001'')],
     ice_kids = [], media_in = [(''98'', 3)], rand_count = 2\<rparr>"

lemma sample_ice_ok: "env_ok (stun sample_ice)" "length (prio_ptr sample_ice) = 4"
  by (simp_all add: sample_ice_def sample_env_def env_ok_def sha1_garbage_def)

theorem ice_check_succeeds_witness:
  "\<exists>req j resp s3. check_request sample_ice sample_stream sample_remote = Some (Datagram 5 (IP4 sample_addr) req, sample_stream\<lparr>rand_count := 4\<rparr>)
     \<and> on_packet_in sample_ice sample_addr 0 (req @ [1, 2, 3]) 0 sample_stream = Some ([Datagram j (IP4 sample_addr) resp], sample_stream)
     \<and> on_packet_in sample_ice sample_addr 0 (resp @ [4]) 0 sample_stream = Some ([], s3) \<and> flag_set s3
     \<and> c_pairs s3 = [\<lparr>p_local = Some 1, p_remote = 0, p_stream = 9, p_state = NICE_CHECK_SUCCEEDED\<rparr>]"
proof -
  have h: "cd_addr sample_remote = IP4 sample_addr" "cd_user sample_remote = Some ''peer''" "cd_pass sample_remote = Some ''secret''"
    "ice_getenv sample_ice sample_stream ''ufrag'' = Some ''me''" "length ''peer'' + 1 + length ''me'' \<le> 60"
    "getattr (Some ''pwd'') (Some (ice_attrs sample_stream)) = Some ''ice00000001''"
    by (simp_all add: sample_remote_def ice_getenv_def sample_stream_def getattr_def)
  obtain k req s1 where r: "check_request sample_ice sample_stream sample_remote = Some (Datagram k (IP4 sample_addr) req, s1)"
    and a: "\<forall>sa flags post n. \<exists>j resp. on_packet_in sample_ice sa flags (req @ post) n sample_stream = Some ([Datagram j (IP4 sa) resp], sample_stream)
        \<and> (\<forall>s2 q flags' post' n'. waits_for s2 (IP4 sample_addr) q
           \<longrightarrow> (\<exists>i s3. waits_for s2 (IP4 sample_addr) i \<and> (\<forall>j<i. \<not> waits_for s2 (IP4 sample_addr) j)
                \<and> on_packet_in sample_ice sample_addr flags' (resp @ post') n' s2 = Some ([], s3) \<and> flag_set s3
                \<and> c_pairs s3 = (c_pairs s2)[i := (c_pairs s2 ! i)\<lparr>p_state := NICE_CHECK_SUCCEEDED\<rparr>]))"
    using ice_check_succeeds [OF sample_ice_ok sample_ice_ok(1) h] by blast
  have k: "k = 5" "s1 = sample_stream\<lparr>rand_count := 4\<rparr>"
  proof -
    show "s1 = sample_stream\<lparr>rand_count := 4\<rparr>" using check_request_fields(2) [OF r] by (simp add: sample_stream_def)
    show "k = 5" using r
      by (auto simp: check_request_def ice_random_def bind_eq_Some_conv sample_remote_def sample_addr_def sample_stream_def Let_def htons_def)
  qed
  obtain j resp where p: "on_packet_in sample_ice sample_addr 0 (req @ [1, 2, 3]) 0 sample_stream = Some ([Datagram j (IP4 sample_addr) resp], sample_stream)"
    and q: "\<forall>s2 q flags' post' n'. waits_for s2 (IP4 sample_addr) q
           \<longrightarrow> (\<exists>i s3. waits_for s2 (IP4 sample_addr) i \<and> (\<forall>j<i. \<not> waits_for s2 (IP4 sample_addr) j)
                \<and> on_packet_in sample_ice sample_addr flags' (resp @ post') n' s2 = Some ([], s3) \<and> flag_set s3
                \<and> c_pairs s3 = (c_pairs s2)[i := (c_pairs s2 ! i)\<lparr>p_state := NICE_CHECK_SUCCEEDED\<rparr>])"
    using spec [OF spec [OF spec [OF spec [OF a, of sample_addr], of 0], of "[1, 2, 3]"], of 0] by (elim exE conjE) (rule that)
  have n: "waits_for sample_stream (IP4 sample_addr) 0" by (simp add: waits_for_def sample_stream_def sample_remote_def)
  obtain i s3 where i: "waits_for sample_stream (IP4 sample_addr) i" and s3: "on_packet_in sample_ice sample_addr 0 (resp @ [4]) 0 sample_stream = Some ([], s3)"
    "flag_set s3" "c_pairs s3 = (c_pairs sample_stream)[i := (c_pairs sample_stream ! i)\<lparr>p_state := NICE_CHECK_SUCCEEDED\<rparr>]"
    using mp [OF spec [OF spec [OF spec [OF spec [OF spec [OF q]]]]] n, of 0 "[4]" 0] by (elim exE conjE) (rule that)
  have "i = 0" using i by (simp add: waits_for_def sample_stream_def)
  then have "c_pairs s3 = [\<lparr>p_local = Some 1, p_remote = 0, p_stream = 9, p_state = NICE_CHECK_SUCCEEDED\<rparr>]" using s3(3) by (simp add: sample_stream_def)
  with r k p s3(1,2) show ?thesis by blast
qed

section \<open>A run\<close>

lemma stun_server_asked: "\<exists>o2. icestun_resend_stun env s = Some (o2, s\<lparr>rand_count := Suc (Suc (Suc (rand_count s)))\<rparr>)"
proof -
  let ?r = "rand env (rand_count s)" and ?r2 = "rand env (Suc (rand_count s))" and ?r3 = "rand env (Suc (Suc (rand_count s)))"
  let ?tid = "le32 ?r @ le32 ?r2 @ le32 ?r3"
  define m where "m = stun_seal (stun env) STUN_REQ 0 ?tid []"
  have ok: "wire_ok 8 (be32 STUN_M_COOKIE) ?tid (be16 STUN_FINGERPRINT @ be16 4 @ stun_crc (crc_tab (stun env)) (stun_wire STUN_REQ 8 (be32 STUN_M_COOKIE) ?tid []))"
    by (simp add: wire_ok_def)
  have w: "get16 m 2 = Some (htons (of_nat 8))" "mem_read m 0 (20 + unat (htons (htons (of_nat 8) :: u16))) = Some m"
    using wire_whole [OF ok, of STUN_REQ] by (simp_all add: m_def stun_seal_def)
  show ?thesis
    by (simp add: icestun_resend_stun_def ice_random_def get_stun_simple_request_bytes Let_def w [unfolded m_def, simplified])
qed

definition run_host :: sockaddr_in where
  "run_host = \<lparr>sin_port = htons 4, sin_addr = 0x0100007F\<rparr>"

lemma getattr_loop_map: "getattr_loop k ps = map_of ps k"
  by (induction ps) auto

lemma hint_get: "getattr (Some k) (Some (set_hint k' v ps)) = (if k = k' then Some v else getattr (Some k) (Some ps))"
  by (simp add: getattr_def set_hint_def setattr_put cell_put_map_of getattr_loop_map)

lemma created_attrs:
  "\<exists>f. ice_getenv env (icectl_on_create env) ''ufrag'' = Some f \<and> length f \<le> 4"
  unfolding icectl_on_create_def Let_def ice_getenv_def by (simp only: ice_stream.simps hint_get) simp

definition run_start :: ice_stream where
  "run_start = icectl_on_create sample_ice"

lemma dec_one: "n < 10 \<Longrightarrow> dec_string n = [digit_char n]"
  by (subst dec_string.simps) (simp add: digit_char_def)

definition run_host_attrs :: attr_list where
  "run_host_attrs = [(''ip'', ''127.0.0.1''), (''port'', ''4'')]"

definition run_peer_attrs :: attr_list where
  "run_peer_attrs = [(''ip'', ''127.0.0.1''), (''port'', ''4''), (''username'', ''peer''), (''password'', ''secret'')]"

definition run_peer :: x_candidate where
  "run_peer = \<lparr>cd_addr = IP4 run_host, cd_user = Some ''peer'', cd_pass = Some ''secret'', cd_stream = 0\<rparr>"

definition run_local :: ice_stream where
  "run_local = run_start\<lparr>ice_cr := 1, cands := [\<lparr>cd_addr = IP4 run_host, cd_user = None, cd_pass = None, cd_stream = 2\<rparr>], locals := [0],
     ice_kids := [(''local-candidate'', (''id'', ''2'') # run_host_attrs)], rand_count := 3\<rparr>"

definition run_ready :: ice_stream where
  "run_ready = run_local\<lparr>cands := cands run_local @ [run_peer], remotes := [1],
     c_pairs := [\<lparr>p_local = Some 0, p_remote = 1, p_stream = 3, p_state = NICE_CHECK_WAITING\<rparr>],
     ice_kids := ice_kids run_local @ [(''candidate'', run_peer_attrs)], rand_count := 4\<rparr>"

lemma atoi_four: "atoi ''4'' = Some 4"
proof -
  have "(of_char (CHR ''4'') :: nat) = 52" by simp
  then have "CHR ''4'' = digit_char 4" using char_of_char [of "CHR ''4''", where 'a = nat] by (simp only: digit_char_def) simp
  then show ?thesis using atoi_sprintf [of 4] by (simp add: sprintf_d_def dec_one)
qed

lemma run_addr: "icestun_xobj_to_sockaddr_in sample_ice run_host_attrs = Some (Some (IP4 run_host))"
  "icestun_xobj_to_sockaddr_in sample_ice run_peer_attrs = Some (Some (IP4 run_host))"
  by (simp_all add: icestun_xobj_to_sockaddr_in_def run_host_attrs_def run_peer_attrs_def getattr_def atoi_four run_host_def sample_ice_def)

lemma run_start_fields:
  "ice_cr run_start = 0" "cands run_start = []" "remotes run_start = []" "locals run_start = []" "c_pairs run_start = []"
  "c_pair_last_success run_start = None" "ice_kids run_start = []" "rand_count run_start = 2"
  by (simp_all only: run_start_def created) (simp_all only: icectl_on_create_def Let_def ice_stream.simps)

lemma run_local_step:
  "ice_step sample_ice (Kid ''local-candidate'' run_host_attrs) run_start = Some ([CandidateNew ((''id'', ''2'') # run_host_attrs)], run_local)"
proof -
  have "dec_string 2 = ''2''"
  proof -
    have "(of_char (CHR ''2'') :: nat) = 50" by simp
    then have "CHR ''2'' = digit_char 2" using char_of_char [of "CHR ''2''", where 'a = nat] by (simp only: digit_char_def) simp
    then show ?thesis by (simp add: dec_one)
  qed
  then have "set_hint ''id'' (sprintf_d (sint (rand sample_ice 2))) run_host_attrs = (''id'', ''2'') # run_host_attrs"
    by (simp add: set_hint_def setattr_put cell_put_def run_host_attrs_def sample_ice_def sprintf_d_def)
  moreover have "strcaseeq ''local-candidate'' ''local-candidate''" by (simp add: strcaseeq_def)
  ultimately show ?thesis
    by (simp add: ice_insert_def icectl_on_child_append_def run_addr new_candidate_def icectl_insert_local_candidate_def run_start_fields
        ice_random_def run_local_def MAX_CONN_PAIRS_def XOBJ_CR_DIRTY_def Let_def)
      (simp add: sample_ice_def)
qed

lemma run_ready_step: "ice_step sample_ice (Kid ''candidate'' run_peer_attrs) run_local = Some ([], run_ready)"
proof -
  have "\<not> strcaseeq ''local-candidate'' ''candidate''" "strcaseeq ''candidate'' ''candidate''"
    by (simp_all add: strcaseeq_def)
  moreover have "getattr (Some ''username'') (Some run_peer_attrs) = Some ''peer''" "getattr (Some ''password'') (Some run_peer_attrs) = Some ''secret''"
    by (simp_all add: getattr_def run_peer_attrs_def)
  moreover have "rand sample_ice 3 = 3" by (simp add: sample_ice_def)
  ultimately show ?thesis
    by (simp add: ice_insert_def icectl_on_child_append_def run_addr new_candidate_def icectl_insert_remote_candidate_def push_pair_def run_local_def run_start_fields
        ice_random_def run_ready_def run_peer_def first_some_def MAX_CONN_PAIRS_def XOBJ_CR_DIRTY_def Let_def)
qed

lemma run_waits: "\<exists>outs s. ice_step sample_ice (Timer True) run_ready = Some (outs, s)
     \<and> cands s = cands run_ready \<and> c_pairs s = [\<lparr>p_local = Some 0, p_remote = 1, p_stream = 3, p_state = NICE_CHECK_IN_PROGRESS\<rparr>]
     \<and> c_pair_last_success s = None"
proof -
  have "ice_attrs run_ready = ice_attrs run_start" by (simp add: run_ready_def run_local_def)
  then obtain f where f: "ice_getenv sample_ice run_ready ''ufrag'' = Some f" "length f \<le> 4"
    using created_attrs [of sample_ice] by (auto simp: run_start_def ice_getenv_def)
  have rc: "cd_user run_peer = Some ''peer''" "cd_pass run_peer = Some ''secret''" "length ''peer'' + 1 + length f \<le> 60"
    using f(2) by (simp_all add: run_peer_def)
  obtain k m where m: "check_request sample_ice run_ready run_peer = Some (Datagram k (cd_addr run_peer) m, run_ready\<lparr>rand_count := rand_count run_ready + 2\<rparr>)"
    using check_request_message [OF sample_ice_ok rc(1,2) f(1) rc(3)] by blast
  have pairs: "c_pairs run_ready = [\<lparr>p_local = Some 0, p_remote = 1, p_stream = 3, p_state = NICE_CHECK_WAITING\<rparr>]"
    and peer: "cands run_ready ! 1 = run_peer" and last: "c_pair_last_success run_ready = None"
    by (simp_all add: run_ready_def run_local_def run_start_fields)
  let ?s = "run_ready\<lparr>rand_count := rand_count run_ready + 2, c_pairs := [\<lparr>p_local = Some 0, p_remote = 1, p_stream = 3, p_state = NICE_CHECK_IN_PROGRESS\<rparr>]\<rparr>"
  have a: "icestun_resend_candidates sample_ice run_ready = Some ([Datagram k (cd_addr run_peer) m], ?s)"
    unfolding icestun_resend_candidates_def pairs by (simp add: peer [simplified] m pairs)
  obtain o2 where b: "icestun_resend_stun sample_ice ?s = Some (o2, ?s\<lparr>rand_count := Suc (Suc (Suc (rand_count ?s)))\<rparr>)"
    using stun_server_asked by blast
  show ?thesis using last by (simp add: icectl_Periodic_def a b [simplified] Let_def)
qed

lemma run_answer: "\<exists>m as. stun_message STUN_RESP as m \<and> list_all (\<lambda>a. attr_type a \<noteq> 1) as"
  using stun_message_sealed [of "replicate 12 0" "[]" STUN_RESP sample_env "[]" undefined]
  by (intro exI [of _ "stun_seal sample_env STUN_RESP 24 (replicate 12 0) (stun_sign [] STUN_RESP 0 (replicate 12 0) [])"] exI [of _ "[]"])
    (simp add: body_size_def)

theorem ice_media_only_to_checked_witness:
  "\<exists>tr s r outs. ice_run sample_ice tr s \<and> icectl_try_write sample_ice [1, 2] (Some [(''pt'', ''4'')]) s = Some (r, outs, s)
     \<and> (\<exists>k d. outs = [Datagram k (IP4 run_host) d])"
proof -
  obtain outs1 s1 where w: "ice_step sample_ice (Timer True) run_ready = Some (outs1, s1)" "cands s1 = cands run_ready"
    "c_pairs s1 = [\<lparr>p_local = Some 0, p_remote = 1, p_stream = 3, p_state = NICE_CHECK_IN_PROGRESS\<rparr>]" "c_pair_last_success s1 = None"
    using run_waits by (elim exE conjE) (rule that)
  obtain m as where m: "stun_message STUN_RESP as m" "list_all (\<lambda>a. attr_type a \<noteq> 1) as" using run_answer by blast
  have cs: "cands run_ready = [\<lparr>cd_addr = IP4 run_host, cd_user = None, cd_pass = None, cd_stream = 2\<rparr>, run_peer]"
    by (simp add: run_ready_def run_local_def)
  have "find_waiting (cands s1) (IP4 run_host) (c_pairs s1) = Some 0" by (simp add: w cs run_peer_def)
  from answer_taken [OF m this, of sample_ice 0 "[]" 0]
  have p: "ice_step sample_ice (Packet run_host 0 m 0) s1 = Some ([], pair_succeeded 0 s1)" by simp
  define s where "s = pair_succeeded 0 s1"
  have run: "\<exists>tr. ice_run sample_ice tr s"
    using run_event [OF run_event [OF run_event [OF run_event [OF run_create [of sample_ice, folded run_start_def] run_local_step] run_ready_step] w(1)] p]
    unfolding s_def by blast
  have flag: "flag_set s" unfolding s_def by (rule pair_succeeded_flag) (simp add: w(3))
  have inv: "ice_cr s AND ICE_FLAG_RTP_SUCCEEDED \<noteq> 0" using flag by (simp add: flag_set_def)
  obtain tr where tr: "ice_run sample_ice tr s" using run by blast
  have last: "c_pair_last_success s \<noteq> None" using run_inv [OF tr] flag by (simp add: ice_inv_def last_ok_def)
  have one: "length (c_pairs s) = 1" "p_local (c_pairs s ! 0) = Some 0" by (simp_all add: s_def pair_succeeded_def w(3) Let_def)
  obtain i where i: "c_pair_last_success s = Some i" "i < length (c_pairs s)" using run_inv [OF tr] last by (auto simp: ice_inv_def last_ok_def)
  then have i0: "c_pair_last_success s = Some 0" using one(1) by simp
  have "\<exists>r outs. icectl_try_write sample_ice [1, 2] (Some [(''pt'', ''4'')]) s = Some (r, outs, s) \<and> outs \<noteq> []"
    using inv i0 one(2)
    by (simp add: icectl_try_write_def rtp_header_def opt_put_def getattr_def atoi_four mem_write_def Let_def)
  then obtain r outs where o: "icectl_try_write sample_ice [1, 2] (Some [(''pt'', ''4'')]) s = Some (r, outs, s)" "outs \<noteq> []" by blast
  obtain k d tr1 from' flags pkt len os tr2 where k: "outs = [Datagram k (IP4 from') d]"
    "tr = tr1 @ (Packet from' flags pkt len, os) # tr2" using ice_media_only_to_checked [OF tr o(1)] o(2) by blast
  have "cands s = cands run_ready" "p_remote (c_pairs s ! 0) = 1"
    by (simp_all add: s_def pair_succeeded_def w Let_def)
  then have "from' = run_host" using k(1) media_write_pair(2) [OF o(1) run_inv [OF tr] o(2)] i0 by (auto simp: cs run_peer_def)
  with k(1) tr o(1) show ?thesis by blast
qed

end
