(* ===== verification/Media_Vp8.thy ===== *)
theory Media_Vp8
  imports Media_Base
begin

text \<open>
  Model of \<^verbatim>\<open>plugins/video/codec/xvpx/x_vp8.c\<close>, the descriptor in front of every VP8 payload, and
  of the two ends of the stream in \<^verbatim>\<open>x_vpx_plugin.c\<close>: the fragmentation of a frame that the
  encoder made and the assembly of the frame that goes to the decoder. The codec itself is a
  library; its decoder is a parameter. \<^theory_text>\<open>None\<close> is an access outside a block of memory or a
  number that leaves the range of an \<^verbatim>\<open>int\<close>.
\<close>

unbundle bit_operations_syntax

section \<open>The payload descriptor\<close>

record vp8_descriptor =
  non_reference_frame :: u8
  fragmentation_info :: u8
  frame_beginning :: u8
  picture_id :: u32

definition NO_PICTURE_ID :: u32 where "NO_PICTURE_ID = 0xFFFFFFFF"

definition NOT_FRAGMENTED :: u8 where "NOT_FRAGMENTED = 0"
definition FIRST_FRAGMENT :: u8 where "FIRST_FRAGMENT = 1"
definition MIDDLE_FRAGMENT :: u8 where "MIDDLE_FRAGMENT = 2"
definition LAST_FRAGMENT :: u8 where "LAST_FRAGMENT = 3"

lemmas frag_infos = NOT_FRAGMENTED_def FIRST_FRAGMENT_def MIDDLE_FRAGMENT_def LAST_FRAGMENT_def

lemma drop_bit_less: "pid \<noteq> 0 \<Longrightarrow> unat (drop_bit 7 pid) < unat pid" for pid :: u32
  by (simp add: unat_drop_bit_u32 unat_gt_0 flip: word_neq_0_conv)

function vp8_size_loop :: "u32 \<Rightarrow> nat \<Rightarrow> nat" where
  "vp8_size_loop pid result = (if pid > 0 then vp8_size_loop (drop_bit 7 pid) (result + 1) else result)"
  by pat_completeness auto

termination
  by (relation "measure (\<lambda>(pid, _). unat pid)") (auto intro: drop_bit_less)

declare vp8_size_loop.simps [simp del]

definition get_vp8_descriptor_size :: "vp8_descriptor \<Rightarrow> nat" where
  "get_vp8_descriptor_size d =
     (if picture_id d = NO_PICTURE_ID then 1 else vp8_size_loop (drop_bit 7 (picture_id d)) 2)"

definition first_byte :: "vp8_descriptor \<Rightarrow> u8" where
  "first_byte d = (if picture_id d \<noteq> NO_PICTURE_ID then push_bit 4 1 else 0) OR push_bit 3 (non_reference_frame d)
     OR push_bit 1 (fragmentation_info d AND 3) OR frame_beginning d"

function vp8_pack_loop :: "u32 \<Rightarrow> nat \<Rightarrow> int \<Rightarrow> u8 list \<Rightarrow> (nat \<times> u8 list) option" where
  "vp8_pack_loop pid pos buffer_size buf =
     (if pid > 0 \<and> \<not> buffer_size \<le> int pos then
        let b = ucast (pid AND 0x7F); pid' = drop_bit 7 pid;
            b' = (if pid' > 0 then b OR 0x80 else b)
        in (case mem_write buf pos [b'] of None \<Rightarrow> None | Some buf' \<Rightarrow> vp8_pack_loop pid' (pos + 1) buffer_size buf')
      else Some (pos, buf))"
  by pat_completeness auto

termination
  by (relation "measure (\<lambda>(pid, _). unat pid)") (auto intro: drop_bit_less)

declare vp8_pack_loop.simps [simp del]

definition pack_vp8_descriptor :: "vp8_descriptor \<Rightarrow> u8 list \<Rightarrow> int \<Rightarrow> (nat \<times> u8 list) option" where
  "pack_vp8_descriptor d buf buffer_size =
     (if buffer_size \<le> 0 then Some (0, buf)
      else do {
        buf1 \<leftarrow> mem_write buf 0 [first_byte d];
        if picture_id d = NO_PICTURE_ID then Some (1, buf1) else vp8_pack_loop (picture_id d) 1 buffer_size buf1
      })"

definition extract_bits :: "u8 \<Rightarrow> nat \<Rightarrow> nat \<Rightarrow> u8" where
  "extract_bits byte bits_count shift = drop_bit shift byte AND (push_bit bits_count 1 - 1)"

text \<open>The bytes of the picture number are combined without a shift, as the code does it.\<close>

function vp8_parse_loop :: "u8 list \<Rightarrow> int \<Rightarrow> nat \<Rightarrow> vp8_descriptor \<Rightarrow> (int \<times> vp8_descriptor) option" where
  "vp8_parse_loop buf buffer_size pos d =
     (if buffer_size \<le> int pos then Some (-1, d)
      else (case mem_read buf pos 1 of
          None \<Rightarrow> None
        | Some bs \<Rightarrow>
            let d' = d\<lparr>picture_id := picture_id d OR ucast (hd bs AND 0x7F)\<rparr>
            in if hd bs AND 0x80 \<noteq> 0 then vp8_parse_loop buf buffer_size (pos + 1) d'
               else Some (int pos + 1, d')))"
  by pat_completeness auto

termination
  by (relation "measure (\<lambda>(buf, n, pos, _). nat n - pos)") auto

declare vp8_parse_loop.simps [simp del]

definition parse_vp8_packet :: "u8 list \<Rightarrow> int \<Rightarrow> vp8_descriptor \<Rightarrow> (int \<times> vp8_descriptor) option" where
  "parse_vp8_packet buf buffer_size d =
     (if buffer_size \<le> 0 then Some (-1, d)
      else do {
        bs \<leftarrow> mem_read buf 0 1;
        let b = hd bs;
            d1 = d\<lparr>non_reference_frame := (if extract_bits b 1 3 \<noteq> 0 then 1 else 0),
                   fragmentation_info := extract_bits b 2 1,
                   frame_beginning := (if extract_bits b 1 0 \<noteq> 0 then 1 else 0)\<rparr>
        in if extract_bits b 1 4 = 0 then Some (1, d1\<lparr>picture_id := NO_PICTURE_ID\<rparr>)
           else vp8_parse_loop buf buffer_size 1 (d1\<lparr>picture_id := 0\<rparr>)
      })"

section \<open>Sending a frame\<close>

definition MTU :: nat where "MTU = 1300"

definition int_inc :: "int \<Rightarrow> int option" where
  "int_inc i = (if i + 1 < 2 ^ 31 then Some (i + 1) else None)"

text \<open>The header of the packet that comes next: the first one is patched, the others are made anew.\<close>

definition vp8_frag_header :: "u8 list \<Rightarrow> nat \<Rightarrow> nat \<Rightarrow> nat \<Rightarrow> (nat \<times> u8 list) option" where
  "vp8_frag_header packbuf hdroff elapsed bufoff =
     (let later = \<lambda>info. pack_vp8_descriptor
            \<lparr>non_reference_frame = 0, fragmentation_info = info, frame_beginning = 0, picture_id = NO_PICTURE_ID\<rparr> packbuf (int MTU)
      in if elapsed \<noteq> 0 then
           (if bufoff = 0 then do {
              bs \<leftarrow> mem_read packbuf 0 1;
              pb \<leftarrow> mem_write packbuf 0 [(hd bs AND NOT (push_bit 1 3)) OR push_bit 1 (FIRST_FRAGMENT AND 3)];
              Some (hdroff, pb)
            } else later MIDDLE_FRAGMENT)
         else if bufoff \<noteq> 0 then later LAST_FRAGMENT
         else Some (hdroff, packbuf))"

partial_function (option) vp8_send_loop ::
  "bool \<Rightarrow> u8 list \<Rightarrow> attr_list \<Rightarrow> u8 list \<Rightarrow> nat \<Rightarrow> nat \<Rightarrow> nat \<Rightarrow> nat \<Rightarrow> int \<Rightarrow> (media_write list \<times> nat \<times> int) option" where
  "vp8_send_loop handler frame hints packbuf hdroff elapsed bufoff cnt seqno =
     Option.bind (vp8_frag_header packbuf hdroff elapsed bufoff) (\<lambda>(hdroff1, pb1).
       let capacity = MTU - hdroff1; rest = cnt - capacity; n = cnt - rest; len = hdroff1 + n
       in Option.bind (mem_read frame bufoff n) (\<lambda>chunk.
          Option.bind (mem_write pb1 hdroff1 chunk) (\<lambda>pb2.
          Option.bind (int_inc seqno) (\<lambda>seqno1.
          Option.bind (mem_read pb2 0 len) (\<lambda>packet.
            let hints1 = set_hint ''seqno'' (sprintf_d seqno) hints; w = (if handler then [(hints1, packet)] else [])
            in if rest = 0 then Some (w, len, seqno1)
               else Option.bind (vp8_send_loop handler frame hints1 pb2 hdroff1 (rest - capacity) (bufoff + n) rest seqno1)
                 (\<lambda>(ws, l, s). Some (w @ ws, l, s)))))))"

record 'c vpx_object =
  seqno :: int
  stamp :: int
  buffer :: "u8 list"
  bufsiz :: nat
  curpos :: nat
  initialized :: bool
  io_life_count :: int
  vpx_codec :: 'c

definition x_vp8_rtp_send ::
  "(nat \<Rightarrow> u8) \<Rightarrow> bool \<Rightarrow> 'c vpx_object \<Rightarrow> u8 list \<Rightarrow> (media_write list \<times> nat \<times> 'c vpx_object) option" where
  "x_vp8_rtp_send junk handler thiz frame = do {
     let packbuf = map junk [0..<MTU]; count = length frame;
         d = \<lparr>non_reference_frame = 0, fragmentation_info = NOT_FRAGMENTED, frame_beginning = 1,
              picture_id = word_of_int (seqno thiz) AND (push_bit 7 1 - 1)\<rparr>
     in do {
       (hdroff, pb) \<leftarrow> pack_vp8_descriptor d packbuf (int MTU);
       let hints = set_hint ''timestamp'' (sprintf_d (low_int (stamp thiz))) (set_hint ''pt'' ''98'' [])
       in do {
         (ws, len, s) \<leftarrow> vp8_send_loop handler frame hints pb hdroff (count - (MTU - hdroff)) 0 count (seqno thiz);
         Some (ws, len, thiz\<lparr>stamp := stamp thiz + 3600, seqno := s\<rparr>)
       }
     }
   }"

section \<open>Receiving\<close>

text \<open>
  \<open>decode\<close> is the decoder: it returns the images of a frame, or \<^theory_text>\<open>None\<close> for an error. \<open>render\<close>
  tells whether an image could be shown.
\<close>

record ('c, 'i) vpx_env =
  decode :: "'c \<Rightarrow> u8 list \<Rightarrow> 'i list option \<times> 'c"
  render :: "'i \<Rightarrow> bool"
  vjunk :: "nat \<Rightarrow> u8"
  vp8d0 :: vp8_descriptor

text \<open>\<^verbatim>\<open>memcpy\<close> of the payload to position \<open>p\<close> of a block that was resized to \<open>n\<close> bytes.\<close>

definition vpx_store :: "(nat \<Rightarrow> u8) \<Rightarrow> 'c vpx_object \<Rightarrow> nat \<Rightarrow> nat \<Rightarrow> u8 list \<Rightarrow> 'c vpx_object option" where
  "vpx_store junk thiz n p payload =
     (if n < 2 ^ 31 then do {
        b \<leftarrow> mem_write (mem_resize junk (buffer thiz) n) p payload;
        Some (thiz\<lparr>bufsiz := n, buffer := b\<rparr>)
      } else None)"

definition vpx_assemble :: "(nat \<Rightarrow> u8) \<Rightarrow> 'c vpx_object \<Rightarrow> u8 \<Rightarrow> u8 list \<Rightarrow> (bool \<times> 'c vpx_object) option" where
  "vpx_assemble junk thiz info payload =
     (let n = length payload in
      if info = NOT_FRAGMENTED then do { t \<leftarrow> vpx_store junk thiz n 0 payload; Some (True, t\<lparr>curpos := 0\<rparr>) }
      else if info = FIRST_FRAGMENT then do { t \<leftarrow> vpx_store junk thiz n 0 payload; Some (False, t\<lparr>curpos := bufsiz t\<rparr>) }
      else if info = MIDDLE_FRAGMENT then do {
        t \<leftarrow> vpx_store junk thiz (bufsiz thiz + n) (curpos thiz) payload; Some (False, t\<lparr>curpos := bufsiz t\<rparr>) }
      else if info = LAST_FRAGMENT then do {
        t \<leftarrow> vpx_store junk thiz (bufsiz thiz + n) (curpos thiz) payload; Some (True, t\<lparr>curpos := 0\<rparr>) }
      else Some (False, thiz))"

definition vpx_decode :: "('c, 'i) vpx_env \<Rightarrow> 'c vpx_object \<Rightarrow> 'c vpx_object option" where
  "vpx_decode env thiz =
     (if initialized thiz then do {
        frame \<leftarrow> mem_read (buffer thiz) 0 (bufsiz thiz);
        let (imgs, c) = decode env (vpx_codec thiz) frame;
            bad = (case imgs of None \<Rightarrow> 0 | Some is \<Rightarrow> length (filter (\<lambda>i. \<not> render env i) is))
        in Some (thiz\<lparr>vpx_codec := c, io_life_count := io_life_count thiz - int bad\<rparr>)
      } else Some thiz)"

text \<open>
  What the trace output prints, in each of the four cases of the fragment, which are all that two
  bits can be: the first byte of the payload and those 4, 8 and 12 bytes behind it. The output is
  compiled into the program as it is built, and \<open>bytes\<close> is the whole block the packet lies in, so a
  place behind the packet can be inside the block or outside.
\<close>

definition vpx_trace :: "u8 list \<Rightarrow> nat \<Rightarrow> u8 list option" where
  "vpx_trace bytes off = do {
     b0 \<leftarrow> mem_read bytes off 1;
     b4 \<leftarrow> mem_read bytes (off + 4) 1;
     b8 \<leftarrow> mem_read bytes (off + 8) 1;
     b12 \<leftarrow> mem_read bytes (off + 12) 1;
     Some (b0 @ b4 @ b8 @ b12)
   }"

definition vpx_fragment :: "('c, 'i) vpx_env \<Rightarrow> 'c vpx_object \<Rightarrow> u8 list \<Rightarrow> int \<Rightarrow> int \<Rightarrow> vp8_descriptor \<Rightarrow> 'c vpx_object option" where
  "vpx_fragment env thiz bytes len off d = do {
     payload \<leftarrow> mem_read bytes (nat off) (nat (len - off));
     (ready, t) \<leftarrow> vpx_assemble (vjunk env) thiz (fragmentation_info d) payload;
     if ready then vpx_decode env t else Some t
   }"

definition on_vpx_packet_received :: "('c, 'i) vpx_env \<Rightarrow> 'c vpx_object \<Rightarrow> u8 list option \<Rightarrow> int \<Rightarrow> 'c vpx_object option" where
  "on_vpx_packet_received env thiz dat len =
     (if io_life_count thiz < -100 then Some thiz
      else (case dat of None \<Rightarrow> Some thiz | Some bytes \<Rightarrow> do {
        (off, d) \<leftarrow> parse_vp8_packet bytes len (vp8d0 env);
        if off \<le> 0 then Some thiz
        else do {
          traced \<leftarrow> vpx_trace bytes (nat off);
          vpx_fragment env thiz bytes len off d
        }
      }))"

text \<open>One packet after the other, each with the bytes that follow it in its block.\<close>

fun vpx_receive_all :: "('c, 'i) vpx_env \<Rightarrow> 'c vpx_object \<Rightarrow> (u8 list \<times> u8 list) list \<Rightarrow> 'c vpx_object option" where
  "vpx_receive_all env thiz [] = Some thiz"
| "vpx_receive_all env thiz ((p, room) # ps) =
     do { t \<leftarrow> on_vpx_packet_received env thiz (Some (p @ room)) (int (length p)); vpx_receive_all env t ps }"

end
