(* ===== verification/Media_Vp8_Claims.thy ===== *)
theory Media_Vp8_Claims
  imports Media_Vp8
begin

text \<open>
  What the VP8 stream does with a frame: the descriptor survives packing and parsing exactly
  when its picture number fits into seven bits and is not zero, and the fragments of a frame are
  put together again to that frame, apart from two cases that are stated exactly.
\<close>

unbundle bit_operations_syntax

section \<open>The picture number\<close>

function id_bytes :: "u32 \<Rightarrow> u8 list" where
  "id_bytes pid = (if pid = 0 then [] else
     (let b = ucast (pid AND 0x7F) in if drop_bit 7 pid = 0 then b else b OR 0x80) # id_bytes (drop_bit 7 pid))"
  by pat_completeness auto

termination
  by (relation "measure unat") (auto intro: drop_bit_less)

function id_groups :: "u32 \<Rightarrow> u32" where
  "id_groups pid = (if pid = 0 then 0 else (pid AND 0x7F) OR id_groups (drop_bit 7 pid))"
  by pat_completeness auto

termination
  by (relation "measure unat") (auto intro: drop_bit_less)

declare id_bytes.simps [simp del] id_groups.simps [simp del]

lemma id_zero [simp]: "id_bytes 0 = []" "id_groups 0 = 0"
  by (simp_all add: id_bytes.simps id_groups.simps)

lemma id_step:
  assumes "pid \<noteq> 0"
  shows "id_bytes pid = (let b = ucast (pid AND 0x7F) in if drop_bit 7 pid = 0 then b else b OR 0x80) # id_bytes (drop_bit 7 pid)"
    "id_groups pid = (pid AND 0x7F) OR id_groups (drop_bit 7 pid)"
  using assms by (subst id_bytes.simps, simp) (subst id_groups.simps, simp)

lemma seven_bits: "pid AND 0x7F = take_bit 7 pid" for pid :: u32
  by (simp add: take_bit_eq_mask mask_eq_exp_minus_1)

lemma u32_drop7: "drop_bit 7 pid = 0 \<longleftrightarrow> pid < 128" for pid :: u32
proof -
  have "drop_bit 7 pid = 0 \<longleftrightarrow> unat (drop_bit 7 pid) = 0" by (metis unat_0 unsigned_eq_0_iff)
  also have "\<dots> \<longleftrightarrow> unat pid < 128" by (auto simp: unat_drop_bit_u32)
  also have "\<dots> \<longleftrightarrow> pid < 128" by (simp add: word_less_nat_alt)
  finally show ?thesis .
qed

lemma take7_same: "take_bit 7 pid = pid \<longleftrightarrow> pid < 128" for pid :: u32
proof
  assume "pid < 128"
  then show "take_bit 7 pid = pid" using u32_drop7 [of pid] bits_ident [of 7 pid] by simp
next
  assume t: "take_bit 7 pid = pid"
  have "drop_bit 7 (take_bit 7 pid) = 0" by (rule bit_word_eqI) (simp add: bit_simps)
  then show "pid < 128" unfolding t by (simp add: u32_drop7)
qed

lemma id_small: "pid < 128 \<Longrightarrow> pid \<noteq> 0 \<Longrightarrow> id_bytes pid = [ucast pid]" "pid < 128 \<Longrightarrow> id_groups pid = pid"
proof -
  assume s: "pid < 128"
  then have t: "take_bit 7 pid = pid" "drop_bit 7 pid = 0" by (simp_all add: take7_same u32_drop7)
  show "id_bytes pid = [ucast pid]" if "pid \<noteq> 0" using that t by (simp add: id_step seven_bits)
  show "id_groups pid = pid" using t by (cases "pid = 0") (simp_all add: id_step seven_bits)
qed

lemma id_groups_less: "id_groups pid < 128"
proof (induction pid rule: id_groups.induct)
  case (1 pid)
  show ?case
  proof (cases "pid = 0")
    case False
    have "take_bit 7 (id_groups (drop_bit 7 pid)) = id_groups (drop_bit 7 pid)"
      using 1 [OF False] by (simp add: take7_same)
    then have "take_bit 7 (id_groups pid) = id_groups pid" using False by (simp add: id_step seven_bits take_bit_or)
    then show ?thesis by (simp add: take7_same)
  qed simp
qed

lemma id_groups_same: "id_groups pid = pid \<longleftrightarrow> pid < 128"
  using id_groups_less id_small(2) by metis

lemma length_id_bytes: "unat pid < 128 ^ k \<Longrightarrow> length (id_bytes pid) \<le> k"
proof (induction k arbitrary: pid)
  case 0
  then have "pid = 0" by (simp add: unsigned_eq_0_iff)
  then show ?case by simp
next
  case (Suc k)
  show ?case
  proof (cases "pid = 0")
    case False
    have "unat (drop_bit 7 pid) < 128 ^ k" using Suc.prems by (simp add: unat_drop_bit_u32 less_mult_imp_div_less mult.commute)
    from Suc.IH [OF this] show ?thesis using False by (simp add: id_step)
  qed simp
qed

lemma length_id_bytes_5: "length (id_bytes pid) \<le> 5"
proof (rule length_id_bytes)
  have "unat pid < 2 ^ 32" using unsigned_less [of pid] by simp
  then show "unat pid < 128 ^ 5" by simp
qed

lemma vp8_size_loop_bytes: "vp8_size_loop pid n = n + length (id_bytes pid)"
proof (induction pid arbitrary: n rule: id_bytes.induct)
  case (1 pid)
  show ?case
  proof (cases "pid = 0")
    case False
    then show ?thesis using 1 by (subst vp8_size_loop.simps) (simp add: id_step word_neq_0_conv)
  qed (subst vp8_size_loop.simps, simp)
qed

lemma vp8_pack_loop_bytes:
  "pos + length (id_bytes pid) \<le> length buf \<Longrightarrow> int (length buf) = n \<Longrightarrow>
     vp8_pack_loop pid pos n buf = Some (pos + length (id_bytes pid), buf_put buf pos (id_bytes pid))"
proof (induction pid arbitrary: pos buf rule: id_bytes.induct)
  case (1 pid)
  show ?case
  proof (cases "pid = 0")
    case True
    then show ?thesis by (subst vp8_pack_loop.simps) (simp add: buf_put_def)
  next
    case False
    define b where "b = (let b = ucast (pid AND 0x7F) in if drop_bit 7 pid = 0 then b else b OR (0x80 :: u8))"
    have ids: "id_bytes pid = b # id_bytes (drop_bit 7 pid)" unfolding b_def using False by (rule id_step)
    have len: "pos + 1 + length (id_bytes (drop_bit 7 pid)) \<le> length (buf_put buf pos [b])"
      using 1(2) by (simp add: ids)
    have nxt: "vp8_pack_loop (drop_bit 7 pid) (pos + 1) n (buf_put buf pos [b]) =
      Some (pos + 1 + length (id_bytes (drop_bit 7 pid)), buf_put (buf_put buf pos [b]) (pos + 1) (id_bytes (drop_bit 7 pid)))"
      by (rule 1(1) [OF False len]) (use 1(2,3) in \<open>simp add: ids\<close>)
    have put: "buf_put (buf_put buf pos [b]) (pos + 1) xs = buf_put buf pos (b # xs)" for xs
      using 1(2) by (simp add: buf_put_def ids add.commute)
    have mw: "mem_write buf pos [b] = Some (buf_put buf pos [b])" using 1(2) by (simp add: mem_write_def ids)
    have "vp8_pack_loop pid pos n buf = (case mem_write buf pos [b] of None \<Rightarrow> None | Some buf' \<Rightarrow> vp8_pack_loop (drop_bit 7 pid) (pos + 1) n buf')"
      using False 1(2,3) by (subst vp8_pack_loop.simps) (simp add: b_def Let_def ids word_neq_0_conv)
    then have "vp8_pack_loop pid pos n buf = vp8_pack_loop (drop_bit 7 pid) (pos + 1) n (buf_put buf pos [b])" by (simp only: mw option.case)
    also have "\<dots> = Some (pos + length (id_bytes pid), buf_put buf pos (id_bytes pid))" unfolding nxt put ids by simp
    finally show ?thesis .
  qed
qed

lemma high_bit:
  fixes pid :: u32
  shows "(ucast (pid AND 0x7F) :: u8) AND 0x80 = 0" "((ucast (pid AND 0x7F) :: u8) OR 0x80) AND 0x80 \<noteq> 0"
    "ucast ((ucast (pid AND 0x7F) :: u8) AND 0x7F) = pid AND 0x7F" "ucast (((ucast (pid AND 0x7F) :: u8) OR 0x80) AND 0x7F) = pid AND 0x7F"
proof -
  have m: "bit (0x7F :: u8) n \<longleftrightarrow> n < 7" "bit (0x80 :: u8) n \<longleftrightarrow> n = 7" "bit (0x7F :: u32) n \<longleftrightarrow> n < 7" for n
  proof -
    have e: "(0x7F :: u8) = mask 7" "(0x80 :: u8) = push_bit 7 1" "(0x7F :: u32) = mask 7" by (simp_all add: mask_eq_exp_minus_1)
    show "bit (0x7F :: u8) n \<longleftrightarrow> n < 7" "bit (0x7F :: u32) n \<longleftrightarrow> n < 7" unfolding e by (auto simp: bit_mask_iff)
    show "bit (0x80 :: u8) n \<longleftrightarrow> n = 7" unfolding e(2) bit_push_bit_iff by (auto simp: bit_1_iff)
  qed
  show "(ucast (pid AND 0x7F) :: u8) AND 0x80 = 0" by (rule bit_word_eqI) (simp only: bit_simps m, auto)
  have "bit (((ucast (pid AND 0x7F) :: u8) OR 0x80) AND 0x80) 7" by (simp only: bit_simps m) simp
  then show "((ucast (pid AND 0x7F) :: u8) OR 0x80) AND 0x80 \<noteq> 0" by auto
  show "ucast ((ucast (pid AND 0x7F) :: u8) AND 0x7F) = pid AND 0x7F" by (rule bit_word_eqI) (simp only: bit_simps m, auto)
  show "ucast (((ucast (pid AND 0x7F) :: u8) OR 0x80) AND 0x7F) = pid AND 0x7F" by (rule bit_word_eqI) (simp only: bit_simps m, auto)
qed

lemma mem_read_one: "mem_read (pre @ b # xs) (length pre) 1 = Some [b]"
  by (simp add: mem_read_def)

lemma vp8_parse_loop_bytes:
  "pid \<noteq> 0 \<Longrightarrow> vp8_parse_loop (pre @ id_bytes pid @ rest) (int (length pre + length (id_bytes pid) + length rest)) (length pre) d =
     Some (int (length pre + length (id_bytes pid)), d\<lparr>picture_id := picture_id d OR id_groups pid\<rparr>)"
proof (induction pid arbitrary: pre d rule: id_bytes.induct)
  case (1 pid)
  let ?n = "int (length pre + length (id_bytes pid) + length rest)"
  define q where "q = drop_bit 7 pid"
  define b where "b = (let b = ucast (pid AND 0x7F) in if q = 0 then b else b OR (0x80 :: u8))"
  have ids: "id_bytes pid = b # id_bytes q" "id_groups pid = (pid AND 0x7F) OR id_groups q"
    unfolding b_def q_def using 1(2) by (rule id_step)+
  have hb: "b AND 0x80 \<noteq> 0 \<longleftrightarrow> q \<noteq> 0" "ucast (b AND 0x7F) = pid AND 0x7F" by (simp_all add: b_def high_bit Let_def)
  define d' where "d' = d\<lparr>picture_id := picture_id d OR (pid AND 0x7F)\<rparr>"
  have step: "vp8_parse_loop (pre @ id_bytes pid @ rest) ?n (length pre) d =
    (if q \<noteq> 0 then vp8_parse_loop (pre @ id_bytes pid @ rest) ?n (length pre + 1) d' else Some (int (length pre) + 1, d'))"
    by (subst vp8_parse_loop.simps) (simp add: ids(1) mem_read_one [unfolded One_nat_def] hb d'_def Let_def)
  show ?case
  proof (cases "q = 0")
    case True
    then show ?thesis unfolding step by (simp add: ids d'_def)
  next
    case False
    have "vp8_parse_loop ((pre @ [b]) @ id_bytes q @ rest) (int (length (pre @ [b]) + length (id_bytes q) + length rest)) (length (pre @ [b])) d' =
      Some (int (length (pre @ [b]) + length (id_bytes q)), d'\<lparr>picture_id := picture_id d' OR id_groups q\<rparr>)"
      using 1(1) [OF 1(2)] False unfolding q_def by blast
    then show ?thesis unfolding step using False by (simp add: ids d'_def or.assoc)
  qed
qed

section \<open>The descriptor\<close>

definition vp8_flags :: "vp8_descriptor \<Rightarrow> bool" where
  "vp8_flags d = (non_reference_frame d \<in> {0, 1} \<and> frame_beginning d \<in> {0, 1} \<and> fragmentation_info d \<in> {0, 1, 2, 3})"

lemma first_byte_fields:
  assumes "vp8_flags d"
  shows "extract_bits (first_byte d) 1 3 = non_reference_frame d" "extract_bits (first_byte d) 2 1 = fragmentation_info d"
    "extract_bits (first_byte d) 1 0 = frame_beginning d" "extract_bits (first_byte d) 1 4 = (if picture_id d = NO_PICTURE_ID then 0 else 1)"
  using assms by (auto simp: vp8_flags_def extract_bits_def first_byte_def)

lemma flag_same: "x \<in> {0, 1} \<Longrightarrow> (if x \<noteq> 0 then 1 else 0) = x" for x :: u8
  by auto

lemma parse_first:
  assumes f: "vp8_flags d"
  shows "parse_vp8_packet (first_byte d # bs) (int (Suc (length bs))) d0 =
    (if picture_id d = NO_PICTURE_ID then Some (1, d)
     else vp8_parse_loop (first_byte d # bs) (int (Suc (length bs))) 1 (d\<lparr>picture_id := 0\<rparr>))"
proof -
  have hd: "mem_read (first_byte d # bs) 0 1 = Some [first_byte d]" by (simp add: mem_read_def)
  have fl: "(if non_reference_frame d \<noteq> 0 then 1 else 0) = non_reference_frame d" "(if frame_beginning d \<noteq> 0 then 1 else 0) = frame_beginning d"
    using f by (auto simp only: vp8_flags_def intro!: flag_same)
  have d: "d0\<lparr>non_reference_frame := non_reference_frame d, fragmentation_info := fragmentation_info d, frame_beginning := frame_beginning d, picture_id := p\<rparr>
    = d\<lparr>picture_id := p\<rparr>" for p by (cases d, cases d0) simp
  show ?thesis
    unfolding parse_vp8_packet_def hd by (simp add: Let_def first_byte_fields [OF f] fl d del: One_nat_def)
qed

lemma parse_packed:
  assumes f: "vp8_flags d" and p: "picture_id d \<noteq> 0"
  shows "parse_vp8_packet ((first_byte d # (if picture_id d = NO_PICTURE_ID then [] else id_bytes (picture_id d))) @ rest)
      (int (get_vp8_descriptor_size d + length rest)) d0 =
    Some (int (get_vp8_descriptor_size d), d\<lparr>picture_id := if picture_id d = NO_PICTURE_ID then NO_PICTURE_ID else id_groups (picture_id d)\<rparr>)"
proof (cases "picture_id d = NO_PICTURE_ID")
  case True
  have "d\<lparr>picture_id := NO_PICTURE_ID\<rparr> = d" using True by (cases d) simp
  then show ?thesis using True parse_first [OF f, of rest d0] by (simp add: get_vp8_descriptor_size_def)
next
  case False
  have len: "get_vp8_descriptor_size d = Suc (length (id_bytes (picture_id d)))"
    using False p by (simp add: get_vp8_descriptor_size_def vp8_size_loop_bytes id_step(1) [OF p])
  show ?thesis
    using parse_first [OF f, of "id_bytes (picture_id d) @ rest" d0] vp8_parse_loop_bytes [OF p, of "[first_byte d]" rest "d\<lparr>picture_id := 0\<rparr>"] False
    by (simp add: len)
qed

lemma pack_bytes:
  assumes "6 \<le> length buf"
  shows "pack_vp8_descriptor d buf (int (length buf)) =
    (let bs = first_byte d # (if picture_id d = NO_PICTURE_ID then [] else id_bytes (picture_id d))
     in Some (length bs, buf_put buf 0 bs))"
proof -
  have mw: "mem_write buf 0 [first_byte d] = Some (buf_put buf 0 [first_byte d])" using assms by (simp add: mem_write_def)
  have room: "1 + length (id_bytes (picture_id d)) \<le> length buf" using assms length_id_bytes_5 [of "picture_id d"] by simp
  have put: "buf_put (buf_put buf 0 [b]) 1 xs = buf_put buf 0 (b # xs)" if "1 + length xs \<le> length buf" for b xs
    using that by (simp add: buf_put_def)
  have loop: "vp8_pack_loop (picture_id d) 1 (int (length buf)) (buf_put buf 0 [first_byte d]) =
    Some (1 + length (id_bytes (picture_id d)), buf_put (buf_put buf 0 [first_byte d]) 1 (id_bytes (picture_id d)))"
    by (rule vp8_pack_loop_bytes) (use assms room in \<open>simp_all add: buf_put_def\<close>)
  have "buf \<noteq> []" using assms by auto
  with assms show ?thesis
    unfolding pack_vp8_descriptor_def mw by (simp add: Let_def loop put [OF room] del: One_nat_def)
qed

text \<open>
  The VP8 descriptor: what is packed is parsed to the same descriptor exactly when the picture
  number is absent or between 1 and 127. A larger number comes back as the disjunction of its
  groups of seven bits; the number 0 is announced in the first byte but not written, so one byte
  less than the declared size is packed and the parser runs into what follows.
\<close>

theorem vp8_descriptor_roundtrip:
  assumes f: "vp8_flags d" and b: "6 \<le> length buf"
  shows "\<exists>k buf'. pack_vp8_descriptor d buf (int (length buf)) = Some (k, buf')
    \<and> (k = get_vp8_descriptor_size d \<longleftrightarrow> picture_id d \<noteq> 0)
    \<and> ((\<forall>rest d0. parse_vp8_packet (take k buf' @ rest) (int (k + length rest)) d0 = Some (int k, d))
        \<longleftrightarrow> picture_id d = NO_PICTURE_ID \<or> 0 < picture_id d \<and> picture_id d < 128)
    \<and> (picture_id d = 0 \<longrightarrow> (\<forall>d0. \<exists>d1. parse_vp8_packet (take k buf') (int k) d0 = Some (-1, d1)))"
proof -
  let ?bs = "first_byte d # (if picture_id d = NO_PICTURE_ID then [] else id_bytes (picture_id d))"
  have len: "length ?bs \<le> length buf" using b length_id_bytes_5 [of "picture_id d"] by simp
  have pack: "pack_vp8_descriptor d buf (int (length buf)) = Some (length ?bs, buf_put buf 0 ?bs)"
    using pack_bytes [OF b] by (simp add: Let_def)
  have tk: "take (length ?bs) (buf_put buf 0 ?bs) = ?bs" by (simp add: buf_put_def)
  have no: "NO_PICTURE_ID \<noteq> 0" "\<not> NO_PICTURE_ID < 128" by (simp_all add: NO_PICTURE_ID_def)
  show ?thesis
  proof (cases "picture_id d = 0")
    case True
    have bs: "?bs = [first_byte d]" using True no by simp
    have short: "parse_vp8_packet [first_byte d] 1 d0 = Some (-1, d\<lparr>picture_id := 0\<rparr>)" for d0
      using parse_first [OF f, of "[]" d0] True no by (simp add: vp8_parse_loop.simps)
    have s2: "get_vp8_descriptor_size d = 2" using True no by (simp add: get_vp8_descriptor_size_def vp8_size_loop.simps)
    have "\<exists>d1. parse_vp8_packet (take 1 (buf_put buf 0 ?bs)) (int 1) d0 = Some (-1, d1)" for d0
      using tk short by (simp add: bs)
    moreover have "\<not> (\<forall>rest d0. parse_vp8_packet (take 1 (buf_put buf 0 ?bs) @ rest) (int (1 + length rest)) d0 = Some (int 1, d))"
      using tk short by (auto simp: bs intro!: exI [of _ "[]"])
    ultimately show ?thesis using pack s2 True no by (simp add: bs)
  next
    case False
    have k: "length ?bs = get_vp8_descriptor_size d"
      using False by (simp add: get_vp8_descriptor_size_def vp8_size_loop_bytes id_step(1))
    define d' where "d' = d\<lparr>picture_id := if picture_id d = NO_PICTURE_ID then NO_PICTURE_ID else id_groups (picture_id d)\<rparr>"
    have parse: "parse_vp8_packet (?bs @ rest) (int (length ?bs + length rest)) d0 = Some (int (length ?bs), d')" for rest d0
      unfolding k d'_def by (rule parse_packed [OF f False])
    have same: "d' = d \<longleftrightarrow> picture_id d = NO_PICTURE_ID \<or> picture_id d < 128"
      unfolding d'_def using id_groups_same [of "picture_id d"] by (cases d) auto
    have "(\<forall>rest d0. parse_vp8_packet (take (length ?bs) (buf_put buf 0 ?bs) @ rest) (int (length ?bs + length rest)) d0 = Some (int (length ?bs), d)) \<longleftrightarrow> d' = d"
      unfolding tk parse by simp
    then have "(\<forall>rest d0. parse_vp8_packet (take (length ?bs) (buf_put buf 0 ?bs) @ rest) (int (length ?bs + length rest)) d0 = Some (int (length ?bs), d))
        \<longleftrightarrow> picture_id d = NO_PICTURE_ID \<or> 0 < picture_id d \<and> picture_id d < 128"
      using same False by (simp only: word_neq_0_conv simp_thms)
    with pack k False show ?thesis by blast
  qed
qed

theorem vp8_descriptor_roundtrip_witness:
  "\<exists>k buf'. pack_vp8_descriptor \<lparr>non_reference_frame = 1, fragmentation_info = 2, frame_beginning = 0, picture_id = 77\<rparr> (replicate 6 9) 6 = Some (k, buf')
     \<and> parse_vp8_packet (take k buf' @ [5]) (int (k + 1)) \<lparr>non_reference_frame = 0, fragmentation_info = 0, frame_beginning = 0, picture_id = 0\<rparr> =
       Some (int k, \<lparr>non_reference_frame = 1, fragmentation_info = 2, frame_beginning = 0, picture_id = 77\<rparr>)"
proof -
  let ?d = "\<lparr>non_reference_frame = 1, fragmentation_info = 2, frame_beginning = 0, picture_id = 77\<rparr> :: vp8_descriptor"
  have d: "vp8_flags ?d" "6 \<le> length (replicate 6 (9 :: u8))" by (simp_all add: vp8_flags_def)
  obtain k buf' where k: "pack_vp8_descriptor ?d (replicate 6 9) 6 = Some (k, buf')"
    "\<forall>rest d0. parse_vp8_packet (take k buf' @ rest) (int (k + length rest)) d0 = Some (int k, ?d)"
    using vp8_descriptor_roundtrip [OF d] by auto
  show ?thesis
    using k(1) spec [OF spec [OF k(2), of "[5]"], of "\<lparr>non_reference_frame = 0, fragmentation_info = 0, frame_beginning = 0, picture_id = 0\<rparr>"]
    by (intro exI [of _ k] exI [of _ buf']) simp
qed

section \<open>A frame on its way\<close>

text \<open>The receiver holds the first part of a frame.\<close>

definition holds :: "'c vpx_object \<Rightarrow> u8 list \<Rightarrow> bool" where
  "holds t xs = (buffer t = xs \<and> bufsiz t = length xs \<and> curpos t = length xs \<and> - 100 \<le> io_life_count t)"

definition later_header :: "u8 \<Rightarrow> u8" where
  "later_header info = push_bit 1 (info AND 3)"

lemma pack_later:
  assumes "length packbuf = MTU"
  shows "pack_vp8_descriptor \<lparr>non_reference_frame = 0, fragmentation_info = info, frame_beginning = 0, picture_id = NO_PICTURE_ID\<rparr> packbuf (int MTU) =
    Some (1, buf_put packbuf 0 [later_header info])"
  using assms by (simp add: pack_vp8_descriptor_def MTU_def mem_write_def first_byte_def later_header_def NO_PICTURE_ID_def)

lemma parse_later:
  assumes "info \<in> {0, 1, 2, 3}"
  shows "parse_vp8_packet (later_header info # bs) (int (length (later_header info # bs))) d0 =
    Some (1, \<lparr>non_reference_frame = 0, fragmentation_info = info, frame_beginning = 0, picture_id = NO_PICTURE_ID\<rparr>)"
proof -
  let ?d = "\<lparr>non_reference_frame = 0, fragmentation_info = info, frame_beginning = 0, picture_id = NO_PICTURE_ID\<rparr> :: vp8_descriptor"
  have "first_byte ?d = later_header info" by (simp add: first_byte_def later_header_def)
  then show ?thesis using parse_first [of ?d bs d0] assms by (simp add: vp8_flags_def)
qed

text \<open>
  The receiver as it would be without its trace output, given the packet alone. When at least 13
  bytes follow every packet in its block, the receiver does the same, since it never looks behind
  the packet otherwise and never more than 12 bytes behind the start of the payload.
\<close>

definition vpx_quiet :: "('c, 'i) vpx_env \<Rightarrow> 'c vpx_object \<Rightarrow> u8 list option \<Rightarrow> int \<Rightarrow> 'c vpx_object option" where
  "vpx_quiet env thiz dat len =
     (if io_life_count thiz < -100 then Some thiz
      else (case dat of None \<Rightarrow> Some thiz | Some bytes \<Rightarrow> do {
        (off, d) \<leftarrow> parse_vp8_packet bytes len (vp8d0 env);
        if off \<le> 0 then Some thiz else vpx_fragment env thiz bytes len off d
      }))"

fun vpx_quiet_all :: "('c, 'i) vpx_env \<Rightarrow> 'c vpx_object \<Rightarrow> u8 list list \<Rightarrow> 'c vpx_object option" where
  "vpx_quiet_all env thiz [] = Some thiz"
| "vpx_quiet_all env thiz (p # ps) =
     do { t \<leftarrow> vpx_quiet env thiz (Some p) (int (length p)); vpx_quiet_all env t ps }"

lemma mem_read_inside: "off + n \<le> length xs \<Longrightarrow> mem_read (xs @ ys) off n = mem_read xs off n"
  by (simp add: mem_read_def)

lemma vp8_parse_loop_prefix:
  "vp8_parse_loop (p @ x) (int (length p)) i d = vp8_parse_loop p (int (length p)) i d"
proof (induction p "int (length p)" i d rule: vp8_parse_loop.induct)
  case (1 p i d)
  then show ?case
    unfolding vp8_parse_loop.simps [of "p @ x" "int (length p)" i d] vp8_parse_loop.simps [of p "int (length p)" i d]
    by (auto simp: mem_read_inside Let_def split: option.splits)
qed

lemma parse_prefix: "parse_vp8_packet (p @ x) (int (length p)) d = parse_vp8_packet p (int (length p)) d"
proof (cases "p = []")
  case False
  then have "mem_read (p @ x) 0 1 = mem_read p 0 1" by (intro mem_read_inside) (simp add: Suc_le_eq)
  then show ?thesis by (simp only: parse_vp8_packet_def vp8_parse_loop_prefix)
qed (simp add: parse_vp8_packet_def)

lemma vpx_trace_inside: "vpx_trace bytes off = None \<longleftrightarrow> length bytes \<le> off + 12"
  by (auto simp: vpx_trace_def mem_read_def)

lemma receive_payload:
  assumes "parse_vp8_packet p (int (length p)) (vp8d0 env) = Some (int off, d)" "0 < off" "off \<le> length p" "- 100 \<le> io_life_count t"
  shows "vpx_quiet env t (Some p) (int (length p)) =
    Option.bind (vpx_assemble (vjunk env) t (fragmentation_info d) (drop off p)) (\<lambda>(ready, t'). if ready then vpx_decode env t' else Some t')"
  using assms by (simp add: vpx_quiet_def vpx_fragment_def mem_read_def nat_diff_distrib)

text \<open>Middle and last fragments are appended to what is held.\<close>

definition whole :: "'c vpx_object \<Rightarrow> u8 list \<Rightarrow> 'c vpx_object" where
  "whole t frame = t\<lparr>bufsiz := length frame, buffer := frame, curpos := 0\<rparr>"

lemma store_append:
  assumes "holds t xs" "length xs + length c < 2 ^ 31"
  shows "vpx_store junk t (bufsiz t + length c) (curpos t) c = Some (t\<lparr>bufsiz := length (xs @ c), buffer := xs @ c\<rparr>)"
  using assms by (simp add: vpx_store_def holds_def mem_write_def mem_resize_def buf_put_def)

lemma receive_later:
  assumes i: "info \<in> {0, 1, 2, 3}" and io: "- 100 \<le> io_life_count t"
  shows "vpx_quiet env t (Some (later_header info # c)) (1 + int (length c)) =
    Option.bind (vpx_assemble (vjunk env) t info c) (\<lambda>(ready, t'). if ready then vpx_decode env t' else Some t')"
  using receive_payload [of "later_header info # c" env 1, OF _ _ _ io] parse_later [OF i, of c "vp8d0 env"] by simp

lemma receive_middle:
  assumes h: "holds t xs" and l: "length xs + length c < 2 ^ 31"
  shows "\<exists>t'. vpx_quiet env t (Some (later_header MIDDLE_FRAGMENT # c)) (1 + int (length c)) = Some t'
    \<and> holds t' (xs @ c) \<and> (\<forall>f. whole t' f = whole t f) \<and> vpx_codec t' = vpx_codec t"
proof -
  have io: "MIDDLE_FRAGMENT \<in> {0, 1, 2, 3}" "- 100 \<le> io_life_count t" using h by (simp_all add: holds_def frag_infos)
  note r = receive_later [OF io, of env c]
  have "vpx_assemble (vjunk env) t MIDDLE_FRAGMENT c =
      Some (False, t\<lparr>bufsiz := length (xs @ c), buffer := xs @ c, curpos := length (xs @ c)\<rparr>)" (is "_ = Some (False, ?t)")
    by (simp add: vpx_assemble_def frag_infos store_append [OF h l] Let_def)
  then have "vpx_quiet env t (Some (later_header MIDDLE_FRAGMENT # c)) (1 + int (length c)) = Some ?t"
    unfolding r by simp
  then show ?thesis using h by (auto simp: holds_def whole_def)
qed

lemma receive_last:
  assumes h: "holds t xs" and l: "length xs + length c < 2 ^ 31"
  shows "vpx_quiet env t (Some (later_header LAST_FRAGMENT # c)) (1 + int (length c)) = vpx_decode env (whole t (xs @ c))"
proof -
  have io: "LAST_FRAGMENT \<in> {0, 1, 2, 3}" "- 100 \<le> io_life_count t" using h by (simp_all add: holds_def frag_infos)
  show ?thesis
    unfolding receive_later [OF io] by (simp add: vpx_assemble_def frag_infos store_append [OF h l] Let_def whole_def)
qed

text \<open>One step of the sender behind the first packet.\<close>

lemma send_step:
  fixes elapsed :: nat
  assumes pb: "length packbuf = MTU" and off: "bufoff \<noteq> 0" "bufoff + cnt \<le> length frame" and s: "sq + 1 < 2 ^ 31"
  defines "c \<equiv> take (min cnt (MTU - 1)) (drop bufoff frame)" and "info \<equiv> (if elapsed \<noteq> 0 then MIDDLE_FRAGMENT else LAST_FRAGMENT)"
  shows "\<exists>pb hints'. length pb = MTU \<and> vp8_send_loop True frame hints packbuf hdroff elapsed bufoff cnt sq =
    (let w = [(hints', later_header info # c)]; rest = cnt - (MTU - 1)
     in if rest = 0 then Some (w, 1 + length c, sq + 1)
        else Option.bind (vp8_send_loop True frame hints' pb 1 (rest - (MTU - 1)) (bufoff + length c) rest (sq + 1)) (\<lambda>(ws, l, s). Some (w @ ws, l, s)))"
proof -
  let ?pb = "buf_put packbuf 0 [later_header info]"
  have frag: "vp8_frag_header packbuf hdroff elapsed bufoff = Some (1, ?pb)"
    using off(1) by (simp add: vp8_frag_header_def pack_later [OF pb] info_def)
  have n: "cnt - (cnt - (MTU - 1)) = length c" using off(2) by (auto simp: c_def min_def)
  have rd: "mem_read frame bufoff (length c) = Some c" using off(2) by (simp add: mem_read_def c_def)
  have room: "1 + length c \<le> MTU" by (simp add: c_def MTU_def)
  have lpb: "length ?pb = MTU" using pb by (simp add: MTU_def)
  have wr: "mem_write ?pb 1 c = Some (buf_put ?pb 1 c)" using room lpb by (simp only: mem_write_def if_True)
  have lpb2: "length (buf_put ?pb 1 c) = MTU" using room lpb by simp
  have "take (1 + length c) (buf_put ?pb 1 c) = later_header info # c" using lpb by (simp add: buf_put_def MTU_def)
  then have rd2: "mem_read (buf_put ?pb 1 c) 0 (1 + length c) = Some (later_header info # c)"
    unfolding mem_read_def using room lpb2 by simp
  have inc: "int_inc sq = Some (sq + 1)" using s by (simp add: int_inc_def)
  define hints' where "hints' = set_hint ''seqno'' (sprintf_d sq) hints"
  have "vp8_send_loop True frame hints packbuf hdroff elapsed bufoff cnt sq =
    (let w = [(hints', later_header info # c)]; rest = cnt - (MTU - 1)
     in if rest = 0 then Some (w, 1 + length c, sq + 1)
        else Option.bind (vp8_send_loop True frame hints' (buf_put ?pb 1 c) 1 (rest - (MTU - 1)) (bufoff + length c) rest (sq + 1)) (\<lambda>(ws, l, s). Some (w @ ws, l, s)))"
    unfolding vp8_send_loop.simps [of True frame hints] hints'_def
    by (simp only: frag Let_def Option.bind.bind_lunit prod.case n rd wr rd2 inc if_True)
  then show ?thesis using lpb2 by blast
qed

text \<open>What a run of the sender has to satisfy: the sequence number counts the packets and no packet exceeds the MTU.\<close>

definition well_sent :: "int \<Rightarrow> media_write list \<Rightarrow> int \<Rightarrow> bool" where
  "well_sent sq ws sq' = (sq' = sq + int (length ws) \<and> (\<forall>w \<in> set ws. length (snd w) \<le> MTU))"

lemma deliver_later:
  assumes "elapsed \<noteq> 0 \<longleftrightarrow> MTU - 1 < cnt" "length packbuf = MTU" "bufoff \<noteq> 0" "0 < cnt" "bufoff + cnt = length frame"
    "sq + int cnt < 2 ^ 31" "length frame < 2 ^ 31" "holds t pre" "length pre \<le> bufoff"
  shows "\<exists>ws l s. vp8_send_loop True frame hints packbuf hdroff elapsed bufoff cnt sq = Some (ws, l, s) \<and> well_sent sq ws s
    \<and> vpx_quiet_all env t (map snd ws) = vpx_decode env (whole t (pre @ drop bufoff frame))"
  using assms
proof (induction cnt arbitrary: elapsed packbuf hdroff bufoff sq hints t pre rule: less_induct)
  case (less cnt)
  define c where "c = take (min cnt (MTU - 1)) (drop bufoff frame)"
  define info where "info = (if elapsed \<noteq> 0 then MIDDLE_FRAGMENT else LAST_FRAGMENT)"
  have lc: "length c = min cnt (MTU - 1)" using less.prems(5) by (simp add: c_def)
  have tk: "c @ drop (bufoff + length c) frame = drop bufoff frame"
  proof -
    have "drop (bufoff + length c) frame = drop (min cnt (MTU - 1)) (drop bufoff frame)" unfolding lc by (simp add: add.commute)
    then show ?thesis by (simp only: c_def append_take_drop_id)
  qed
  have room: "length pre + length c < 2 ^ 31" using less.prems(5,7,9) lc by simp
  have sq1: "sq + 1 < 2 ^ 31" using less.prems(4,6) by simp
  obtain pb hints' where pb: "length pb = MTU" and step: "vp8_send_loop True frame hints packbuf hdroff elapsed bufoff cnt sq =
    (let w = [(hints', later_header info # c)]; rest = cnt - (MTU - 1)
     in if rest = 0 then Some (w, 1 + length c, sq + 1)
        else Option.bind (vp8_send_loop True frame hints' pb 1 (rest - (MTU - 1)) (bufoff + length c) rest (sq + 1)) (\<lambda>(ws, l, s). Some (w @ ws, l, s)))"
    using send_step [OF less.prems(2,3) eq_refl [OF less.prems(5)] sq1, of hints hdroff elapsed] unfolding c_def info_def by blast
  have small: "length (later_header info # c) \<le> MTU" using lc by (simp add: MTU_def)
  show ?case
  proof (cases "cnt \<le> MTU - 1")
    case True
    then have i: "info = LAST_FRAGMENT" "c = drop bufoff frame" using less.prems(1,5) lc by (simp_all add: info_def c_def)
    show ?thesis using receive_last [OF less.prems(8) room, of env] small True i step
      by (simp add: well_sent_def Let_def)
  next
    case False
    let ?r = "cnt - (MTU - 1)"
    have i: "info = MIDDLE_FRAGMENT" "length c = MTU - 1" using False less.prems(1) lc by (simp_all add: info_def)
    obtain t' where t': "vpx_quiet env t (Some (later_header info # c)) (1 + int (length c)) = Some t'"
      "holds t' (pre @ c)" "\<And>f. whole t' f = whole t f"
      using receive_middle [OF less.prems(8) room, of env] unfolding i by blast
    have "\<exists>ws l s. vp8_send_loop True frame hints' pb 1 (?r - (MTU - 1)) (bufoff + length c) ?r (sq + 1) = Some (ws, l, s) \<and> well_sent (sq + 1) ws s
      \<and> vpx_quiet_all env t' (map snd ws) = vpx_decode env (whole t' ((pre @ c) @ drop (bufoff + length c) frame))"
      by (rule less.IH) (use False less.prems i(2) pb t'(2) in \<open>auto simp: MTU_def\<close>)
    then obtain ws l s where ws: "vp8_send_loop True frame hints' pb 1 (?r - (MTU - 1)) (bufoff + length c) ?r (sq + 1) = Some (ws, l, s)"
      "well_sent (sq + 1) ws s" "vpx_quiet_all env t' (map snd ws) = vpx_decode env (whole t (pre @ drop bufoff frame))" unfolding t'(3) append_assoc tk by blast
    have "vp8_send_loop True frame hints packbuf hdroff elapsed bufoff cnt sq = Some ((hints', later_header info # c) # ws, l, s)"
      unfolding step Let_def ws(1) using False by simp
    moreover have "well_sent sq ((hints', later_header info # c) # ws) s" using ws(2) small by (simp add: well_sent_def)
    ultimately show ?thesis using t'(1) ws(3) by auto
  qed
qed

text \<open>A first packet that leaves exactly one full packet: that one is sent as a middle fragment.\<close>

lemma deliver_stuck:
  assumes "length packbuf = MTU" "bufoff \<noteq> 0" "bufoff + (MTU - 1) = length frame" "sq + 1 < 2 ^ 31" "length frame < 2 ^ 31" "holds t pre" "length pre \<le> bufoff" "elapsed \<noteq> 0"
  shows "\<exists>ws l s. vp8_send_loop True frame hints packbuf hdroff elapsed bufoff (MTU - 1) sq = Some (ws, l, s) \<and> well_sent sq ws s
    \<and> map_option vpx_codec (vpx_quiet_all env t (map snd ws)) = Some (vpx_codec t)"
proof -
  define c where "c = take (min (MTU - 1) (MTU - 1)) (drop bufoff frame)"
  have lc: "length c = MTU - 1" using assms(3) by (simp add: c_def)
  obtain pb hints' where step: "vp8_send_loop True frame hints packbuf hdroff elapsed bufoff (MTU - 1) sq =
      Some ([(hints', later_header MIDDLE_FRAGMENT # c)], 1 + length c, sq + 1)"
    using send_step [OF assms(1,2) eq_refl [OF assms(3)] assms(4), of hints hdroff elapsed] assms(8) unfolding c_def by (auto simp: Let_def)
  have "length pre + length c < 2 ^ 31" using assms(3,5,7) lc by simp
  from receive_middle [OF assms(6) this, of env] show ?thesis unfolding step by (auto simp: well_sent_def lc MTU_def)
qed

section \<open>The first packet\<close>

definition first_desc :: "u32 \<Rightarrow> u8 \<Rightarrow> vp8_descriptor" where
  "first_desc pid info = \<lparr>non_reference_frame = 0, fragmentation_info = info, frame_beginning = 1, picture_id = pid\<rparr>"

lemma patched_byte:
  "pid \<noteq> NO_PICTURE_ID \<Longrightarrow> (first_byte (first_desc pid NOT_FRAGMENTED) AND NOT (push_bit 1 3)) OR push_bit 1 (FIRST_FRAGMENT AND 3) = first_byte (first_desc pid FIRST_FRAGMENT)"
  by (simp add: first_byte_def first_desc_def frag_infos)

lemma send_first:
  fixes pid :: u32
  assumes p: "pid < 128" and s: "sq + 1 < 2 ^ 31" and f: "frame \<noteq> []"
  defines "h \<equiv> Suc (length (id_bytes pid))" and "cap \<equiv> MTU - Suc (length (id_bytes pid))"
  defines "c \<equiv> take cap frame" and "info \<equiv> (if cap < length frame then FIRST_FRAGMENT else NOT_FRAGMENTED)"
  shows "\<exists>pb0 pb hints'. length pb = MTU \<and> pack_vp8_descriptor (first_desc pid NOT_FRAGMENTED) (map junk [0..<MTU]) (int MTU) = Some (h, pb0)
    \<and> vp8_send_loop True frame hints pb0 h (length frame - cap) 0 (length frame) sq =
    (let w = [(hints', first_byte (first_desc pid info) # id_bytes pid @ c)]; rest = length frame - cap
     in if rest = 0 then Some (w, h + length c, sq + 1)
        else Option.bind (vp8_send_loop True frame hints' pb h (rest - cap) (length c) rest (sq + 1)) (\<lambda>(ws, l, s). Some (w @ ws, l, s)))"
proof -
  let ?bz = "first_byte (first_desc pid NOT_FRAGMENTED)" and ?b = "first_byte (first_desc pid info)"
  let ?j = "map junk [0..<MTU]" and ?l = "length frame"
  have no: "pid \<noteq> NO_PICTURE_ID" using p by (auto simp: NO_PICTURE_ID_def)
  have lid: "length (id_bytes pid) \<le> 1" using id_small(1) [OF p] by (cases "pid = 0") simp_all
  let ?before = "buf_put ?j 0 (?bz # id_bytes pid)" and ?patched = "buf_put ?j 0 (?b # id_bytes pid)"
  have pack: "pack_vp8_descriptor (first_desc pid NOT_FRAGMENTED) ?j (int MTU) = Some (h, ?before)"
  proof -
    have "6 \<le> length ?j" by (simp add: MTU_def)
    from pack_bytes [OF this, of "first_desc pid NOT_FRAGMENTED"] show ?thesis
      using no by (simp only: Let_def h_def first_desc_def vp8_descriptor.simps if_False length_map length_upt diff_zero length_Cons)
  qed
  have l1: "length ?patched = MTU" using lid by (simp add: MTU_def)
  have frag: "vp8_frag_header ?before h (?l - cap) 0 = Some (h, ?patched)"
    using patched_byte [OF no] lid by (simp add: vp8_frag_header_def info_def mem_read_def mem_write_def buf_put_def MTU_def)
  have cap: "MTU - h = cap" "h + length c \<le> MTU" using lid by (simp_all add: cap_def h_def c_def MTU_def)
  have n: "?l - (?l - cap) = length c" by (auto simp: c_def min_def)
  have rd: "mem_read frame 0 (length c) = Some c" by (auto simp: mem_read_def c_def min_def)
  have wr: "mem_write ?patched h c = Some (buf_put ?patched h c)" using cap(2) l1 by (simp only: mem_write_def if_True)
  have l2: "length (buf_put ?patched h c) = MTU" using cap(2) l1 by simp
  have "take h ?patched = ?b # id_bytes pid" by (simp add: buf_put_def h_def)
  then have "take (h + length c) (buf_put ?patched h c) = ?b # id_bytes pid @ c"
    using take_buf_put [of h ?patched c] cap(2) l1 by simp
  then have rd2: "mem_read (buf_put ?patched h c) 0 (h + length c) = Some (?b # id_bytes pid @ c)"
    unfolding mem_read_def using cap(2) l2 by simp
  have inc: "int_inc sq = Some (sq + 1)" using s by (simp add: int_inc_def)
  define hints' where "hints' = set_hint ''seqno'' (sprintf_d sq) hints"
  have "vp8_send_loop True frame hints ?before h (?l - cap) 0 ?l sq =
    (let w = [(hints', ?b # id_bytes pid @ c)]; rest = ?l - cap
     in if rest = 0 then Some (w, h + length c, sq + 1)
        else Option.bind (vp8_send_loop True frame hints' (buf_put ?patched h c) h (rest - cap) (length c) rest (sq + 1)) (\<lambda>(ws, l, s). Some (w @ ws, l, s)))"
    unfolding vp8_send_loop.simps [of True frame hints] hints'_def
    by (simp only: frag Let_def Option.bind.bind_lunit prod.case n rd wr rd2 inc if_True cap(1) add_0)
  then show ?thesis using l2 pack by blast
qed

text \<open>Behind the first packet the receiver holds the beginning of the frame, or has the frame.\<close>

lemma receive_first:
  assumes p: "parse_vp8_packet pk (int (length pk)) (vp8d0 env) = Some (int off, d)" "0 < off" "off \<le> length pk" "drop off pk = c"
    and io: "- 100 \<le> io_life_count t" and l: "length c < 2 ^ 31"
  shows "fragmentation_info d = NOT_FRAGMENTED \<Longrightarrow> vpx_quiet env t (Some pk) (int (length pk)) = vpx_decode env (whole t c)"
    "fragmentation_info d = FIRST_FRAGMENT \<Longrightarrow> \<exists>t'. vpx_quiet env t (Some pk) (int (length pk)) = Some t'
       \<and> holds t' c \<and> (\<forall>f. whole t' f = whole t f) \<and> vpx_codec t' = vpx_codec t"
proof -
  have st: "vpx_store (vjunk env) t (length c) 0 c = Some (t\<lparr>bufsiz := length c, buffer := c\<rparr>)"
    using l by (simp add: vpx_store_def mem_write_def buf_put_def)
  note r = receive_payload [OF p(1-3) io] and d = frag_infos vpx_assemble_def
  show "vpx_quiet env t (Some pk) (int (length pk)) = vpx_decode env (whole t c)" if "fragmentation_info d = NOT_FRAGMENTED"
    unfolding r using that p(4) by (simp add: d Let_def st whole_def)
  show "\<exists>t'. vpx_quiet env t (Some pk) (int (length pk)) = Some t' \<and> holds t' c \<and> (\<forall>f. whole t' f = whole t f) \<and> vpx_codec t' = vpx_codec t"
    if "fragmentation_info d = FIRST_FRAGMENT"
    unfolding r using that p(4) io by (simp add: d Let_def st whole_def holds_def)
qed

lemma picture_of_seqno:
  "(word_of_int sq :: u32) AND (push_bit 7 1 - 1) < 128" "(word_of_int sq :: u32) AND (push_bit 7 1 - 1) = 0 \<longleftrightarrow> sq mod 128 = 0"
proof -
  have t: "(word_of_int sq :: u32) AND (push_bit 7 1 - 1) = take_bit 7 (word_of_int sq)" by (simp add: take_bit_eq_mask mask_eq_exp_minus_1)
  show "(word_of_int sq :: u32) AND (push_bit 7 1 - 1) < 128" unfolding t by (simp flip: take7_same)
  have "take_bit 7 (word_of_int sq :: u32) = word_of_int (take_bit 7 sq)" by (rule bit_word_eqI) (auto simp: bit_simps)
  moreover have "take_bit 7 sq = sq mod 128" by (simp add: take_bit_eq_mod)
  moreover have "word_of_int (sq mod 128) = (0 :: u32) \<longleftrightarrow> sq mod 128 = 0"
  proof -
    have "uint (word_of_int (sq mod 128) :: u32) = sq mod 128" by (simp add: unsigned_of_int take_bit_int_eq_self)
    then show ?thesis by (metis unsigned_0 of_int_0)
  qed
  ultimately show "(word_of_int sq :: u32) AND (push_bit 7 1 - 1) = 0 \<longleftrightarrow> sq mod 128 = 0" unfolding t by simp
qed

lemma picture_desc:
  "pid < 128 \<Longrightarrow> vp8_flags (first_desc pid NOT_FRAGMENTED) \<and> vp8_flags (first_desc pid FIRST_FRAGMENT)"
  by (simp add: vp8_flags_def first_desc_def frag_infos)

text \<open>The first packet, for a receiver that leaves out the first \<open>k\<close> bytes of its payload.\<close>

definition reads_first :: "('c, 'i) vpx_env \<Rightarrow> u32 \<Rightarrow> u8 list \<Rightarrow> nat \<Rightarrow> bool" where
  "reads_first env pid c k = (\<forall>info \<in> {NOT_FRAGMENTED, FIRST_FRAGMENT}. \<exists>off d.
     (let pk = first_byte (first_desc pid info) # id_bytes pid @ c
      in parse_vp8_packet pk (int (length pk)) (vp8d0 env) = Some (int off, d) \<and> 0 < off \<and> off \<le> length pk
         \<and> fragmentation_info d = info \<and> drop off pk = drop k c))"

lemma reads_firstD:
  assumes "reads_first env pid c k" "info = NOT_FRAGMENTED \<or> info = FIRST_FRAGMENT" "pk = first_byte (first_desc pid info) # id_bytes pid @ c"
  obtains off d where "parse_vp8_packet pk (int (length pk)) (vp8d0 env) = Some (int off, d)" "0 < off" "off \<le> length pk"
    "drop off pk = drop k c" "fragmentation_info d = info"
  using assms unfolding reads_first_def Let_def by blast

lemma reads_small:
  assumes "pid < 128" "pid \<noteq> 0"
  shows "reads_first env pid c 0"
proof -
  have no: "pid \<noteq> NO_PICTURE_ID" using assms by (auto simp: NO_PICTURE_ID_def)
  have len: "get_vp8_descriptor_size (first_desc pid info) = 2" for info
    using no assms by (simp add: get_vp8_descriptor_size_def first_desc_def vp8_size_loop_bytes u32_drop7 [THEN iffD2])
  have "parse_vp8_packet (first_byte (first_desc pid info) # id_bytes pid @ c) (int (length (first_byte (first_desc pid info) # id_bytes pid @ c))) (vp8d0 env) =
      Some (int 2, first_desc pid info)" if "vp8_flags (first_desc pid info)" for info
    using parse_packed [OF that, of c "vp8d0 env"] no assms id_small(2) [OF assms(1)] unfolding len by (simp add: first_desc_def id_small)
  then show ?thesis
    unfolding reads_first_def Let_def using picture_desc [OF assms(1)] id_small(1) [OF assms]
    by (intro ballI exI [of _ "2 :: nat"]) (auto simp: first_desc_def)
qed

lemma reads_zero:
  assumes "c \<noteq> []" "hd c AND 0x80 = 0"
  shows "reads_first env 0 c 1"
proof -
  obtain x xs where c: "c = x # xs" using assms(1) by (cases c) auto
  have rd: "mem_read (b # x # xs) 1 1 = Some [x]" for b by (simp add: mem_read_def)
  have "parse_vp8_packet (first_byte (first_desc 0 info) # c) (int (length (first_byte (first_desc 0 info) # c))) (vp8d0 env) =
      Some (2, (first_desc 0 info)\<lparr>picture_id := ucast (x AND 0x7F)\<rparr>)" if "vp8_flags (first_desc 0 info)" for info
    using parse_first [OF that, of c "vp8d0 env"] assms(2)
    by (simp add: first_desc_def c NO_PICTURE_ID_def vp8_parse_loop.simps [of _ _ 1, unfolded One_nat_def] rd [unfolded One_nat_def] Let_def)
  then show ?thesis
    unfolding reads_first_def Let_def using picture_desc [of 0]
    by (intro ballI exI [of _ "2 :: nat"]) (auto simp: first_desc_def c)
qed

text \<open>What the whole run comes to, with the first packet split off.\<close>

definition first_cap :: "u32 \<Rightarrow> nat" where
  "first_cap pid = MTU - Suc (length (id_bytes pid))"

definition first_packet :: "u32 \<Rightarrow> u8 list \<Rightarrow> u8 list" where
  "first_packet pid frame =
     first_byte (first_desc pid (if first_cap pid < length frame then FIRST_FRAGMENT else NOT_FRAGMENTED)) # id_bytes pid @ take (first_cap pid) frame"

lemma first_cap_eq: "pid < 128 \<Longrightarrow> first_cap pid = (if pid = 0 then MTU - 1 else MTU - 2)"
  by (simp add: first_cap_def id_small(1) numeral_2_eq_2)

lemma length_first_packet: "pid < 128 \<Longrightarrow> length (first_packet pid frame) \<le> MTU"
  by (cases "pid = 0") (simp_all add: first_packet_def first_cap_def MTU_def id_small(1))

lemma send_head:
  assumes f: "frame \<noteq> []" and s: "seqno thiz + 1 < 2 ^ 31" and pid: "pid = (word_of_int (seqno thiz) :: u32) AND (push_bit 7 1 - 1)"
  shows "\<exists>hints' pb. length pb = MTU \<and> x_vp8_rtp_send junk True thiz frame =
    map_option (\<lambda>(ws, l, s). (ws, l, thiz\<lparr>stamp := stamp thiz + 3600, seqno := s\<rparr>))
     (let w = [(hints', first_packet pid frame)]; rest = length frame - first_cap pid; h = Suc (length (id_bytes pid))
      in if rest = 0 then Some (w, h + length (take (first_cap pid) frame), seqno thiz + 1)
         else Option.bind (vp8_send_loop True frame hints' pb h (rest - first_cap pid) (length (take (first_cap pid) frame)) rest (seqno thiz + 1))
           (\<lambda>(ws, l, s). Some (w @ ws, l, s)))"
proof -
  have p: "pid < 128" using picture_of_seqno(1) unfolding pid .
  define hints where "hints = set_hint ''timestamp'' (sprintf_d (low_int (stamp thiz))) (set_hint ''pt'' ''98'' [])"
  obtain before pb hints' where pb: "length pb = MTU"
    and pack: "pack_vp8_descriptor (first_desc pid NOT_FRAGMENTED) (map junk [0..<MTU]) (int MTU) = Some (Suc (length (id_bytes pid)), before)"
    and step: "vp8_send_loop True frame hints before (Suc (length (id_bytes pid))) (length frame - first_cap pid) 0 (length frame) (seqno thiz) =
     (let w = [(hints', first_packet pid frame)]; rest = length frame - first_cap pid
      in if rest = 0 then Some (w, Suc (length (id_bytes pid)) + length (take (first_cap pid) frame), seqno thiz + 1)
         else Option.bind (vp8_send_loop True frame hints' pb (Suc (length (id_bytes pid))) (rest - first_cap pid) (length (take (first_cap pid) frame)) rest (seqno thiz + 1))
           (\<lambda>(ws, l, s). Some (w @ ws, l, s)))"
    using send_first [OF p s f, of junk hints] unfolding first_packet_def first_cap_def by blast
  have "x_vp8_rtp_send junk True thiz frame = map_option (\<lambda>(ws, l, s). (ws, l, thiz\<lparr>stamp := stamp thiz + 3600, seqno := s\<rparr>))
      (vp8_send_loop True frame hints before (Suc (length (id_bytes pid))) (length frame - first_cap pid) 0 (length frame) (seqno thiz))"
    using pack unfolding x_vp8_rtp_send_def Let_def first_desc_def pid [symmetric] hints_def first_cap_def
    by (simp add: map_option_case split_beta split: option.split)
  then show ?thesis using pb unfolding step Let_def by blast
qed

text \<open>A frame that fits into the first packet.\<close>

lemma send_receive_one:
  assumes f: "frame \<noteq> []" and s: "0 \<le> seqno thiz" "seqno thiz + int (length frame) < 2 ^ 31" and io: "- 100 \<le> io_life_count t"
    and pid: "pid = (word_of_int (seqno thiz) :: u32) AND (push_bit 7 1 - 1)"
    and first: "reads_first env pid (take (first_cap pid) frame) k" and one: "\<not> first_cap pid < length frame"
  shows "\<exists>ws l thiz'. x_vp8_rtp_send junk True thiz frame = Some (ws, l, thiz') \<and> well_sent (seqno thiz) ws (seqno thiz')
    \<and> vpx_quiet_all env t (map snd ws) = vpx_decode env (whole t (drop k frame))"
proof -
  have p: "pid < 128" using picture_of_seqno(1) unfolding pid .
  have s1: "seqno thiz + 1 < 2 ^ 31" using s f by (cases frame) auto
  have pk: "first_packet pid frame = first_byte (first_desc pid NOT_FRAGMENTED) # id_bytes pid @ take (first_cap pid) frame"
    using one by (simp add: first_packet_def)
  obtain off d where rd: "parse_vp8_packet (first_packet pid frame) (int (length (first_packet pid frame))) (vp8d0 env) = Some (int off, d)" "0 < off"
      "off \<le> length (first_packet pid frame)" "drop off (first_packet pid frame) = drop k (take (first_cap pid) frame)" "fragmentation_info d = NOT_FRAGMENTED"
    by (rule reads_firstD [OF first _ pk]) auto
  have "length (drop k (take (first_cap pid) frame)) < 2 ^ 31" using s by simp
  from receive_first(1) [OF rd(1-4) io this rd(5)] one
  have "vpx_quiet env t (Some (first_packet pid frame)) (int (length (first_packet pid frame))) = vpx_decode env (whole t (drop k frame))"
    by simp
  then show ?thesis using send_head [OF f s1 pid, of junk] one length_first_packet [OF p, of frame]
    by (auto simp: Let_def well_sent_def)
qed

text \<open>A frame that needs more packets: what the receiver makes of the others decides.\<close>

lemma send_receive_more:
  assumes f: "frame \<noteq> []" and s: "0 \<le> seqno thiz" "seqno thiz + int (length frame) < 2 ^ 31" and io: "- 100 \<le> io_life_count t"
    and pid: "pid = (word_of_int (seqno thiz) :: u32) AND (push_bit 7 1 - 1)"
    and first: "reads_first env pid (take (first_cap pid) frame) k" and more: "first_cap pid < length frame"
    and later: "\<And>t' pb hints' h. length pb = MTU \<Longrightarrow> holds t' (drop k (take (first_cap pid) frame)) \<Longrightarrow> (\<And>f. whole t' f = whole t f) \<Longrightarrow> vpx_codec t' = vpx_codec t \<Longrightarrow>
      \<exists>ws l s. vp8_send_loop True frame hints' pb h (length frame - first_cap pid - first_cap pid) (first_cap pid) (length frame - first_cap pid) (seqno thiz + 1) = Some (ws, l, s)
        \<and> well_sent (seqno thiz + 1) ws s \<and> Q (vpx_quiet_all env t' (map snd ws))"
  shows "\<exists>ws l thiz'. x_vp8_rtp_send junk True thiz frame = Some (ws, l, thiz') \<and> well_sent (seqno thiz) ws (seqno thiz')
    \<and> Q (vpx_quiet_all env t (map snd ws))"
proof -
  have p: "pid < 128" using picture_of_seqno(1) unfolding pid .
  have s1: "seqno thiz + 1 < 2 ^ 31" using s f by (cases frame) auto
  have pk: "first_packet pid frame = first_byte (first_desc pid FIRST_FRAGMENT) # id_bytes pid @ take (first_cap pid) frame"
    using more by (simp add: first_packet_def)
  obtain off d where rd: "parse_vp8_packet (first_packet pid frame) (int (length (first_packet pid frame))) (vp8d0 env) = Some (int off, d)" "0 < off"
      "off \<le> length (first_packet pid frame)" "drop off (first_packet pid frame) = drop k (take (first_cap pid) frame)" "fragmentation_info d = FIRST_FRAGMENT"
    by (rule reads_firstD [OF first _ pk]) auto
  have "length (drop k (take (first_cap pid) frame)) < 2 ^ 31" using s by simp
  from receive_first(2) [OF rd(1-4) io this rd(5)] obtain t' where
    t': "vpx_quiet env t (Some (first_packet pid frame)) (int (length (first_packet pid frame))) = Some t'"
      "holds t' (drop k (take (first_cap pid) frame))" "\<And>f. whole t' f = whole t f" "vpx_codec t' = vpx_codec t" by blast
  obtain hints' pb where pb: "length pb = MTU" and send: "x_vp8_rtp_send junk True thiz frame =
    map_option (\<lambda>(ws, l, s). (ws, l, thiz\<lparr>stamp := stamp thiz + 3600, seqno := s\<rparr>))
     (let w = [(hints', first_packet pid frame)]; rest = length frame - first_cap pid; h = Suc (length (id_bytes pid))
      in if rest = 0 then Some (w, h + length (take (first_cap pid) frame), seqno thiz + 1)
         else Option.bind (vp8_send_loop True frame hints' pb h (rest - first_cap pid) (length (take (first_cap pid) frame)) rest (seqno thiz + 1))
           (\<lambda>(ws, l, s). Some (w @ ws, l, s)))"
    using send_head [OF f s1 pid, of junk] by blast
  obtain ws l s' where ws: "vp8_send_loop True frame hints' pb (Suc (length (id_bytes pid))) (length frame - first_cap pid - first_cap pid) (first_cap pid)
      (length frame - first_cap pid) (seqno thiz + 1) = Some (ws, l, s')" "well_sent (seqno thiz + 1) ws s'" "Q (vpx_quiet_all env t' (map snd ws))"
    using later [OF pb t'(2,3,4)] by blast
  have lc: "length (take (first_cap pid) frame) = first_cap pid" using more by simp
  have "x_vp8_rtp_send junk True thiz frame =
      Some ((hints', first_packet pid frame) # ws, l, thiz\<lparr>stamp := stamp thiz + 3600, seqno := s'\<rparr>)"
    unfolding send Let_def lc ws(1) using more by simp
  then show ?thesis using ws(2,3) t'(1) length_first_packet [OF p, of frame] by (simp add: well_sent_def)
qed

lemma send_receive_whole:
  assumes f: "frame \<noteq> []" and s: "0 \<le> seqno thiz" "seqno thiz + int (length frame) < 2 ^ 31" and io: "- 100 \<le> io_life_count t"
    and pid: "pid = (word_of_int (seqno thiz) :: u32) AND (push_bit 7 1 - 1)" and k: "k \<le> 1"
    and first: "reads_first env pid (take (first_cap pid) frame) k" and regular: "pid = 0 \<or> length frame \<noteq> 2 * MTU - 3"
  shows "\<exists>ws l thiz'. x_vp8_rtp_send junk True thiz frame = Some (ws, l, thiz') \<and> well_sent (seqno thiz) ws (seqno thiz')
    \<and> vpx_quiet_all env t (map snd ws) = vpx_decode env (whole t (drop k frame))"
proof (cases "first_cap pid < length frame")
  case False
  then show ?thesis by (rule send_receive_one [OF f s io pid first])
next
  case True
  have "pid < 128" using picture_of_seqno(1) unfolding pid .
  note fc = first_cap_eq [OF this]
  have k2: "k - first_cap pid = 0" "k \<le> first_cap pid" using k fc by (simp_all add: MTU_def)
  have "drop k (take (first_cap pid) frame @ drop (first_cap pid) frame) = drop k (take (first_cap pid) frame) @ drop (first_cap pid) frame"
    using k2 True by (simp only: drop_append length_take min_absorb2 [OF less_imp_le] drop_0)
  then have dk: "drop k (take (first_cap pid) frame) @ drop (first_cap pid) frame = drop k frame" by simp
  show ?thesis
  proof (rule send_receive_more [OF f s io pid first True, where Q = "\<lambda>r. r = vpx_decode env (whole t (drop k frame))"])
    fix t' :: "'b vpx_object" and pb hints' h
    assume a: "length (pb :: u8 list) = MTU" "holds t' (drop k (take (first_cap pid) frame))" "\<And>f. whole t' f = whole t f"
    have "\<exists>ws l s. vp8_send_loop True frame hints' pb h (length frame - first_cap pid - first_cap pid) (first_cap pid) (length frame - first_cap pid) (seqno thiz + 1) = Some (ws, l, s)
      \<and> well_sent (seqno thiz + 1) ws s
      \<and> vpx_quiet_all env t' (map snd ws) = vpx_decode env (whole t' (drop k (take (first_cap pid) frame) @ drop (first_cap pid) frame))"
      by (rule deliver_later [OF _ a(1) _ _ _ _ _ a(2)]) (use True s regular in \<open>auto simp: fc MTU_def split: if_splits\<close>)
    then show "\<exists>ws l s. vp8_send_loop True frame hints' pb h (length frame - first_cap pid - first_cap pid) (first_cap pid) (length frame - first_cap pid) (seqno thiz + 1) = Some (ws, l, s)
      \<and> well_sent (seqno thiz + 1) ws s \<and> vpx_quiet_all env t' (map snd ws) = vpx_decode env (whole t (drop k frame))"
      unfolding dk a(3) .
  qed
qed

lemma send_receive_stuck:
  assumes s: "0 \<le> seqno thiz" "seqno thiz + int (length frame) < 2 ^ 31" and io: "- 100 \<le> io_life_count t"
    and pid: "pid = (word_of_int (seqno thiz) :: u32) AND (push_bit 7 1 - 1)" "pid \<noteq> 0"
    and odd: "length frame = 2 * MTU - 3"
  shows "\<exists>ws l thiz'. x_vp8_rtp_send junk True thiz frame = Some (ws, l, thiz') \<and> well_sent (seqno thiz) ws (seqno thiz')
    \<and> map_option vpx_codec (vpx_quiet_all env t (map snd ws)) = Some (vpx_codec t)"
proof -
  have p: "pid < 128" using picture_of_seqno(1) unfolding pid(1) .
  have fc: "first_cap pid = MTU - 2" using first_cap_eq [OF p] pid(2) by simp
  have f: "frame \<noteq> []" and more: "first_cap pid < length frame" using odd by (auto simp: MTU_def fc)
  have rest: "length frame - first_cap pid = MTU - 1" using odd by (simp add: fc MTU_def)
  show ?thesis
  proof (rule send_receive_more [OF f s io pid(1) reads_small [OF p pid(2)] more, where Q = "\<lambda>r. map_option vpx_codec r = Some (vpx_codec t)"])
    fix t' :: "'b vpx_object" and pb hints' h
    assume a: "length (pb :: u8 list) = MTU" "holds t' (drop 0 (take (first_cap pid) frame))" "vpx_codec t' = vpx_codec t"
    show "\<exists>ws l s. vp8_send_loop True frame hints' pb h (length frame - first_cap pid - first_cap pid) (first_cap pid) (length frame - first_cap pid) (seqno thiz + 1) = Some (ws, l, s)
      \<and> well_sent (seqno thiz + 1) ws s \<and> map_option vpx_codec (vpx_quiet_all env t' (map snd ws)) = Some (vpx_codec t)"
      unfolding rest a(3) [symmetric]
      by (rule deliver_stuck [OF a(1) _ _ _ _ a(2)]) (use odd s in \<open>auto simp: fc MTU_def\<close>)
  qed
qed

lemma decoded_whole:
  "map_option vpx_codec (vpx_decode env (whole t frame)) = Some (if initialized t then snd (decode env (vpx_codec t) frame) else vpx_codec t)"
  by (cases "decode env (vpx_codec t) frame") (simp add: vpx_decode_def whole_def mem_read_def)

section \<open>What follows a packet in its block\<close>

lemma vp8_parse_loop_total:
  "\<exists>off d'. vp8_parse_loop buf (int (length buf)) pos d = Some (off, d') \<and> off \<le> int (length buf)"
proof (induction "length buf - pos" arbitrary: pos d)
  case 0
  then show ?case by (subst vp8_parse_loop.simps) simp
next
  case (Suc n)
  then have "mem_read buf pos 1 = Some [buf ! pos]" by (simp add: mem_read_def take_Suc_conv_app_nth hd_drop_conv_nth take_Suc)
  moreover have "pos < length buf" using Suc(2) by simp
  moreover have "\<exists>off d'. vp8_parse_loop buf (int (length buf)) (Suc pos) e = Some (off, d') \<and> off \<le> int (length buf)" for e
    using Suc(1) [of "Suc pos" e] Suc(2) by simp
  ultimately show ?case by (subst vp8_parse_loop.simps) (auto simp: Let_def)
qed

lemma parse_total:
  "\<exists>off d'. parse_vp8_packet p (int (length p)) d = Some (off, d') \<and> off \<le> int (length p)"
proof (cases p)
  case (Cons x xs)
  have "mem_read (x # xs) 0 1 = Some [x]" by (simp add: mem_read_def)
  then show ?thesis using vp8_parse_loop_total [of p 1]
    unfolding parse_vp8_packet_def Cons by (simp add: Let_def)
qed (simp add: parse_vp8_packet_def)

lemma receive_in_block:
  assumes "parse_vp8_packet p (int (length p)) (vp8d0 env) = Some (off, d)" "0 < off" "- 100 \<le> io_life_count t"
  shows "on_vpx_packet_received env t (Some (p @ room)) (int (length p)) =
    (if int (length p + length room) \<le> off + 12 then None else vpx_quiet env t (Some p) (int (length p)))"
proof -
  have "off \<le> int (length p)" using parse_total [of p "vp8d0 env"] assms(1) by auto
  then have "mem_read (p @ room) (nat off) (nat (int (length p) - off)) = mem_read p (nat off) (nat (int (length p) - off))"
    using assms(2) by (intro mem_read_inside) simp
  then have f: "vpx_fragment env t (p @ room) (int (length p)) off d = vpx_fragment env t p (int (length p)) off d"
    by (simp add: vpx_fragment_def)
  have "vpx_trace (p @ room) (nat off) = None \<longleftrightarrow> int (length p + length room) \<le> off + 12"
    unfolding vpx_trace_inside using assms(2) by auto
  then show ?thesis using assms f
    by (cases "vpx_trace (p @ room) (nat off)") (simp_all add: on_vpx_packet_received_def vpx_quiet_def parse_prefix)
qed

lemma receive_quiet:
  assumes "12 < length room"
  shows "on_vpx_packet_received env t (Some (p @ room)) (int (length p)) = vpx_quiet env t (Some p) (int (length p))"
proof -
  obtain off d where off: "parse_vp8_packet p (int (length p)) (vp8d0 env) = Some (off, d)" "off \<le> int (length p)"
    using parse_total by blast
  show ?thesis
  proof (cases "0 < off \<and> - 100 \<le> io_life_count t")
    case True
    then show ?thesis using receive_in_block [OF off(1), of t room] off(2) assms by simp
  qed (auto simp: on_vpx_packet_received_def vpx_quiet_def parse_prefix off(1))
qed

lemma receive_quiet_all:
  "\<forall>(p, room) \<in> set ps. 12 < length room \<Longrightarrow> vpx_receive_all env t ps = vpx_quiet_all env t (map fst ps)"
proof (induction ps arbitrary: t)
  case (Cons q ps)
  obtain p room where q: "q = (p, room)" by (cases q)
  have "12 < length room" using Cons.prems by (simp add: q)
  from receive_quiet [OF this, of env t p] Cons show ?case
    by (cases "vpx_quiet env t (Some p) (int (length p))") (simp_all add: q)
qed simp

text \<open>The packets of a stream, each in a block with these bytes behind it.\<close>

definition in_blocks :: "u8 list \<Rightarrow> media_write list \<Rightarrow> (u8 list \<times> u8 list) list" where
  "in_blocks room ws = map (\<lambda>w. (snd w, room)) ws"

lemma receive_in_blocks: "12 < length room \<Longrightarrow> vpx_receive_all env t (in_blocks room ws) = vpx_quiet_all env t (map snd ws)"
  by (subst receive_quiet_all) (auto simp: in_blocks_def comp_def)

section \<open>Claims\<close>

text \<open>
  A frame of a VP8 stream, cut into packets and received in their order by any receiver whose
  decoder has been set up, each in a block with at least 13 bytes behind it, is handed to the
  decoder once and unchanged, whatever the receiver held before; no packet exceeds
  the MTU and the sequence number counts the packets. The exception is a frame of 2597 bytes: its
  second and last packet is marked as a middle fragment, and the receiver never decodes it. The
  number of the first packet must not be a multiple of 128.
\<close>

theorem vp8_frame_delivered:
  assumes f: "frame \<noteq> []" and s: "0 \<le> seqno thiz" "seqno thiz + int (length frame) < 2 ^ 31" "seqno thiz mod 128 \<noteq> 0"
    and io: "- 100 \<le> io_life_count t" and room: "12 < length room"
  shows "\<exists>ws l thiz'. x_vp8_rtp_send junk True thiz frame = Some (ws, l, thiz')
    \<and> seqno thiz' = seqno thiz + int (length ws) \<and> (\<forall>w \<in> set ws. length (snd w) \<le> MTU)
    \<and> map_option vpx_codec (vpx_receive_all env t (in_blocks room ws)) =
        Some (if initialized t \<and> length frame \<noteq> 2 * MTU - 3 then snd (decode env (vpx_codec t) frame) else vpx_codec t)"
proof -
  define pid where "pid = (word_of_int (seqno thiz) :: u32) AND (push_bit 7 1 - 1)"
  have p: "pid < 128" "pid \<noteq> 0" using picture_of_seqno [of "seqno thiz"] s(3) unfolding pid_def by simp_all
  show ?thesis
  proof (cases "length frame = 2 * MTU - 3")
    case True
    with send_receive_stuck [OF s(1,2) io pid_def p(2) True, of junk env] show ?thesis by (auto simp: well_sent_def receive_in_blocks [OF room])
  next
    case False
    with send_receive_whole [OF f s(1,2) io pid_def _ reads_small [OF p], of junk env] decoded_whole [of env t frame]
    show ?thesis by (auto simp: well_sent_def receive_in_blocks [OF room])
  qed
qed

text \<open>
  When the number of the first packet is a multiple of 128, as it is for the first frame of
  every stream, the picture number is announced but not sent: the receiver takes the first byte
  of the frame for it and decodes the frame without that byte.
\<close>

theorem vp8_zero_picture_drops_byte:
  assumes f: "frame \<noteq> []" "hd frame AND 0x80 = 0" and s: "0 \<le> seqno thiz" "seqno thiz + int (length frame) < 2 ^ 31" "seqno thiz mod 128 = 0"
    and io: "- 100 \<le> io_life_count t" and room: "12 < length room"
  shows "\<exists>ws l thiz'. x_vp8_rtp_send junk True thiz frame = Some (ws, l, thiz')
    \<and> map_option vpx_codec (vpx_receive_all env t (in_blocks room ws)) = Some (if initialized t then snd (decode env (vpx_codec t) (tl frame)) else vpx_codec t)"
proof -
  have zero: "0 = (word_of_int (seqno thiz) :: u32) AND (push_bit 7 1 - 1)" using picture_of_seqno [of "seqno thiz"] s(3) by simp
  have "take (first_cap 0) frame \<noteq> []" "hd (take (first_cap 0) frame) AND 0x80 = 0"
    using f by (simp_all add: first_cap_eq MTU_def hd_take)
  from send_receive_whole [OF f(1) s(1,2) io zero _ reads_zero [OF this], of junk env] decoded_whole [of env t "tl frame"]
  show ?thesis by (auto simp: drop_Suc receive_in_blocks [OF room])
qed

text \<open>The buffer of the receiver: what has been put together ends where the next fragment goes, or nothing has been.\<close>

definition vpx_inv :: "'c vpx_object \<Rightarrow> bool" where
  "vpx_inv t = (length (buffer t) = bufsiz t \<and> curpos t \<le> bufsiz t)"

lemma store_total:
  "pos + length c \<le> n \<Longrightarrow> n < 2 ^ 31 \<Longrightarrow> \<exists>b. vpx_store junk t n pos c = Some (t\<lparr>bufsiz := n, buffer := b\<rparr>) \<and> length b = n"
  by (auto simp: vpx_store_def mem_write_def)

lemma assemble_total:
  assumes "vpx_inv t" "bufsiz t + length c < 2 ^ 31"
  shows "\<exists>r t'. vpx_assemble junk t info c = Some (r, t') \<and> vpx_inv t' \<and> bufsiz t' \<le> bufsiz t + length c"
proof -
  have "\<exists>b. vpx_store junk t (length c) 0 c = Some (t\<lparr>bufsiz := length c, buffer := b\<rparr>) \<and> length b = length c"
    "\<exists>b. vpx_store junk t (bufsiz t + length c) (curpos t) c = Some (t\<lparr>bufsiz := bufsiz t + length c, buffer := b\<rparr>) \<and> length b = bufsiz t + length c"
    using assms by (auto intro!: store_total simp: vpx_inv_def)
  then show ?thesis using assms(1) by (auto simp: vpx_assemble_def Let_def vpx_inv_def)
qed

lemma receive_total:
  assumes i: "vpx_inv t" and l: "bufsiz t + length p < 2 ^ 31"
  shows "\<exists>t'. vpx_quiet env t (Some p) (int (length p)) = Some t' \<and> vpx_inv t' \<and> bufsiz t' \<le> bufsiz t + length p"
proof -
  obtain off d where off: "parse_vp8_packet p (int (length p)) (vp8d0 env) = Some (off, d)" "off \<le> int (length p)"
    using parse_total by blast
  have l': "bufsiz t + length (drop (nat off) p) < 2 ^ 31" using l by simp
  obtain r t1 where t1: "vpx_assemble (vjunk env) t (fragmentation_info d) (drop (nat off) p) = Some (r, t1)" "vpx_inv t1" "bufsiz t1 \<le> bufsiz t + length p"
    using assemble_total [OF i l', of "vjunk env" "fragmentation_info d"] by (auto intro: order_trans)
  have dec: "\<exists>t'. vpx_decode env t1 = Some t' \<and> vpx_inv t' \<and> bufsiz t' = bufsiz t1"
    using t1(2) by (cases "decode env (vpx_codec t1) (take (bufsiz t1) (buffer t1))") (auto simp: vpx_decode_def mem_read_def vpx_inv_def)
  have rd: "0 < off \<Longrightarrow> mem_read p (nat off) (nat (int (length p) - off)) = Some (drop (nat off) p)"
    using off(2) by (simp add: mem_read_def nat_diff_distrib)
  show ?thesis using i l dec t1(2,3) off(2)
    unfolding vpx_quiet_def vpx_fragment_def by (cases "0 < off"; cases r) (auto simp: off(1) rd t1(1))
qed

lemma receive_all_total:
  assumes "vpx_inv t" "bufsiz t + sum_list (map length ps) < 2 ^ 31"
  shows "\<exists>t'. vpx_quiet_all env t ps = Some t' \<and> vpx_inv t'"
  using assms
proof (induction ps arbitrary: t)
  case (Cons p ps)
  have "bufsiz t + length p < 2 ^ 31" using Cons.prems(2) by simp
  then obtain t' where t': "vpx_quiet env t (Some p) (int (length p)) = Some t'" "vpx_inv t'" "bufsiz t' \<le> bufsiz t + length p"
    using receive_total [OF Cons.prems(1)] by blast
  then have "bufsiz t' + sum_list (map length ps) < 2 ^ 31" using Cons.prems(2) by simp
  from Cons.IH [OF t'(2) this] show ?case using t'(1) by simp
qed simp

text \<open>
  C26. What a peer can make the receiver of the VP8 stream touch. Whatever packets it sends, in any
  order and with any contents, nothing is read or written outside a block, as long as the bytes
  that are kept fit an \<^verbatim>\<open>int\<close> and each packet lies in a block that has at least 13 bytes more
  behind the packet; afterwards the buffer is as large as it says and the next fragment goes inside
  it. Less room is not safe: the trace output, which the program is built with, looks 12 bytes
  behind the start of the payload, so a packet with a header that can be read is read outside its
  block exactly when 13 bytes are not left in the block from there on.
\<close>

theorem vpx_receive_safe:
  assumes "vpx_inv t" "bufsiz t + sum_list (map (\<lambda>(p, room). length p) ps) < 2 ^ 31" "\<forall>(p, room) \<in> set ps. 12 < length room"
  shows "(\<exists>t'. vpx_receive_all env t ps = Some t' \<and> vpx_inv t')
     \<and> (\<forall>p room off d. bufsiz t + length p < 2 ^ 31 \<longrightarrow> - 100 \<le> io_life_count t
          \<longrightarrow> parse_vp8_packet p (int (length p)) (vp8d0 env) = Some (off, d) \<longrightarrow> 0 < off
          \<longrightarrow> (on_vpx_packet_received env t (Some (p @ room)) (int (length p)) = None \<longleftrightarrow> int (length (p @ room)) < off + 13))"
proof (intro conjI allI impI)
  have "bufsiz t + sum_list (map length (map fst ps)) < 2 ^ 31" using assms(2) by (simp add: comp_def case_prod_unfold)
  then show "\<exists>t'. vpx_receive_all env t ps = Some t' \<and> vpx_inv t'"
    unfolding receive_quiet_all [OF assms(3)] by (rule receive_all_total [OF assms(1)])
next
  fix p room off d
  assume a: "bufsiz t + length p < 2 ^ 31" "- 100 \<le> io_life_count t" "parse_vp8_packet p (int (length p)) (vp8d0 env) = Some (off, d)" "0 < off"
  show "on_vpx_packet_received env t (Some (p @ room)) (int (length p)) = None \<longleftrightarrow> int (length (p @ room)) < off + 13"
    using receive_in_block [OF a(3,4,2), of room] receive_total [OF assms(1) a(1), of env] by auto
qed

text \<open>A decoder that keeps the frames it was given.\<close>

definition log_env :: "(u8 list list, unit) vpx_env" where
  "log_env = \<lparr>decode = (\<lambda>c f. (Some [], c @ [f])), render = (\<lambda>_. True), vjunk = (\<lambda>_. 7),
     vp8d0 = \<lparr>non_reference_frame = 3, fragmentation_info = 0, frame_beginning = 9, picture_id = 5\<rparr>\<rparr>"

definition vpx_new :: "int \<Rightarrow> u8 list list vpx_object" where
  "vpx_new sq = \<lparr>seqno = sq, stamp = 0, buffer = [], bufsiz = 0, curpos = 0, initialized = True, io_life_count = 0, vpx_codec = []\<rparr>"

theorem vp8_frame_delivered_witness:
  "\<exists>ws l thiz'. x_vp8_rtp_send (\<lambda>_. 1) True (vpx_new 1) (replicate 3000 5) = Some (ws, l, thiz')
     \<and> map_option vpx_codec (vpx_receive_all log_env (vpx_new 0) (in_blocks (replicate 13 0) ws)) = Some [replicate 3000 5]"
proof -
  have "replicate 3000 (5 :: u8) \<noteq> []" by (simp add: numeral_eq_Suc)
  from vp8_frame_delivered [OF this, of "vpx_new 1" "vpx_new 0" "replicate 13 0" "\<lambda>_. 1" log_env] show ?thesis
    by (auto simp: vpx_new_def log_env_def MTU_def)
qed

theorem vp8_zero_picture_drops_byte_witness:
  "\<exists>ws l thiz'. x_vp8_rtp_send (\<lambda>_. 1) True (vpx_new 0) [16, 1, 2] = Some (ws, l, thiz')
     \<and> map_option vpx_codec (vpx_receive_all log_env (vpx_new 0) (in_blocks (replicate 13 0) ws)) = Some [[1, 2]]"
proof -
  have f: "[16, 1, 2 :: u8] \<noteq> []" "hd [16, 1, 2 :: u8] AND 0x80 = 0" by simp_all
  from vp8_zero_picture_drops_byte [OF f, of "vpx_new 0" "vpx_new 0" "replicate 13 0" "\<lambda>_. 1" log_env] show ?thesis
    by (auto simp: vpx_new_def log_env_def)
qed

theorem vpx_receive_safe_witness:
  "(\<exists>t'. vpx_receive_all log_env (vpx_new 0) [([4, 1], replicate 13 9), ([], replicate 14 9), ([0x90, 0xFF], replicate 13 9), ([6, 2, 3], replicate 13 0)] = Some t' \<and> vpx_inv t')
   \<and> on_vpx_packet_received log_env (vpx_new 0) (Some ([4, 1] @ replicate 11 9)) 2 = None
   \<and> on_vpx_packet_received log_env (vpx_new 0) (Some ([4, 1] @ replicate 12 9)) 2 \<noteq> None"
proof -
  let ?ps = "[([4, 1], replicate 13 9), ([], replicate 14 9), ([0x90, 0xFF], replicate 13 9), ([6, 2, 3], replicate 13 0)] :: (u8 list \<times> u8 list) list"
  have "vpx_inv (vpx_new 0)" "bufsiz (vpx_new 0) + sum_list (map (\<lambda>(p, room). length p) ?ps) < 2 ^ 31" "\<forall>(p, room) \<in> set ?ps. 12 < length room"
    by (simp_all add: vpx_inv_def vpx_new_def)
  note r = vpx_receive_safe [OF this, of log_env]
  obtain d where d: "parse_vp8_packet [4, 1] (int (length [4, 1 :: u8])) (vp8d0 log_env) = Some (1, d)"
    by (simp add: parse_vp8_packet_def mem_read_def Let_def extract_bits_def)
  note q = conjunct2 [OF r, rule_format, OF _ _ d]
  show ?thesis using conjunct1 [OF r] q [of "replicate 11 9"] q [of "replicate 12 9"] by (simp add: vpx_new_def)
qed

end
