(* ===== verification/Media_Theora.thy ===== *)
theory Media_Theora
  imports Media_Base Xw_Bytes
begin

text \<open>
  Model of the Theora stream in \<^verbatim>\<open>plugins/video/codec/xtheora\<close>: the fragmentation of a packet of
  the encoder (\<^verbatim>\<open>xtheora_plugin.c\<close>), the packing of the three header packets of a stream, and the
  receiver (\<^verbatim>\<open>x_theora_api.c\<close>). The codec is a library; its functions are the fields of
  \<open>theora_env\<close>. \<^theory_text>\<open>None\<close> is an access outside a block of memory.
\<close>

unbundle bit_operations_syntax

section \<open>Bytes\<close>

text \<open>The writers put the low byte first, the readers take the high byte first.\<close>

definition write32 :: "u8 list \<Rightarrow> nat \<Rightarrow> u32 \<Rightarrow> (nat \<times> u8 list) option" where
  "write32 dat pos val = do {
     d \<leftarrow> mem_write dat pos [ucast val, ucast (drop_bit 8 val), ucast (drop_bit 16 val), ucast (drop_bit 24 val)];
     Some (pos + 4, d)
   }"

definition write16 :: "u8 list \<Rightarrow> nat \<Rightarrow> u32 \<Rightarrow> (nat \<times> u8 list) option" where
  "write16 dat pos val = do { d \<leftarrow> mem_write dat pos [ucast val, ucast (drop_bit 8 val)]; Some (pos + 2, d) }"

definition read32 :: "u8 list \<Rightarrow> nat \<Rightarrow> (u32 \<times> nat) option" where
  "read32 dat pos = do {
     bs \<leftarrow> mem_read dat pos 4;
     Some (push_bit 24 (ucast (bs ! 0)) OR push_bit 16 (ucast (bs ! 1)) OR push_bit 8 (ucast (bs ! 2)) OR ucast (bs ! 3), pos + 4)
   }"

definition read16 :: "u8 list \<Rightarrow> nat \<Rightarrow> (u32 \<times> nat) option" where
  "read16 dat pos = do { bs \<leftarrow> mem_read dat pos 2; Some (push_bit 8 (ucast (bs ! 0)) OR ucast (bs ! 1), pos + 2) }"

section \<open>Sending a packet of the encoder\<close>

definition PATH_MTU :: nat where "PATH_MTU = 1300"

definition THEORA_HDR_SIZE :: nat where "THEORA_HDR_SIZE = 6"

text \<open>An RTP header is 12 bytes long.\<close>

definition PATH_MTU_THEORA :: nat where "PATH_MTU_THEORA = PATH_MTU - 12 - THEORA_HDR_SIZE"

definition theora_packet :: "u32 \<Rightarrow> nat \<Rightarrow> u8 list \<Rightarrow> u8 list \<Rightarrow> nat \<Rightarrow> nat \<Rightarrow> nat \<Rightarrow> u8 list option" where
  "theora_packet ident numpackets packet packbuf mark sent len = do {
     (p1, b1) \<leftarrow> write32 packbuf 0 (htonl (push_bit 8 ident));
     (p2, b2) \<leftarrow> write16 b1 p1 (ucast (htons (of_nat len)));
     x \<leftarrow> mem_read b2 3 1;
     b3 \<leftarrow> mem_write b2 3 [hd x OR (push_bit 6 (of_nat mark AND 3) OR push_bit 4 (0 AND 3) OR (of_nat numpackets AND 0xF))];
     chunk \<leftarrow> mem_read packet sent len;
     mem_write b3 6 chunk
   }"

function theora_send_loop ::
  "bool \<Rightarrow> u32 \<Rightarrow> nat \<Rightarrow> u8 list \<Rightarrow> attr_list \<Rightarrow> u8 list \<Rightarrow> nat \<Rightarrow> nat \<Rightarrow> nat \<Rightarrow> u32 \<Rightarrow> (media_write list \<times> u32) option" where
  "theora_send_loop handler ident numpackets packet hints packbuf mark sent elapsed seqno =
     (if elapsed > 0 then
        let len = (if PATH_MTU_THEORA < elapsed then PATH_MTU_THEORA else elapsed);
            mark1 = (if PATH_MTU_THEORA < elapsed then (if sent \<noteq> 0 then 2 else 1) else if sent \<noteq> 0 then 3 else mark);
            hints1 = set_hint ''seqno'' (dec_string (unat seqno)) hints
        in (case theora_packet ident numpackets packet packbuf mark1 sent len of
              None \<Rightarrow> None
            | Some pb \<Rightarrow> (case mem_read pb 0 (6 + len) of
                None \<Rightarrow> None
              | Some out \<Rightarrow> map_option (\<lambda>(ws, s). ((if handler then [(hints1, out)] else []) @ ws, s))
                  (theora_send_loop handler ident numpackets packet hints1 pb mark1 (sent + len) (elapsed - len) (seqno + 1))))
      else Some ([], seqno))"
  by pat_completeness auto

termination
  by (relation "measure (\<lambda>(_, _, _, _, _, _, _, _, elapsed, _). elapsed)") (auto simp: PATH_MTU_THEORA_def PATH_MTU_def THEORA_HDR_SIZE_def)

declare theora_send_loop.simps [simp del]

definition theora_send_fragmented_rtp ::
  "(nat \<Rightarrow> u8) \<Rightarrow> bool \<Rightarrow> u32 \<Rightarrow> u8 list \<Rightarrow> int \<Rightarrow> u32 \<Rightarrow> (media_write list \<times> u32) option" where
  "theora_send_fragmented_rtp junk handler ident packet stamp seqno = do {
     packbuf \<leftarrow> mem_write (map junk [0..<PATH_MTU]) 0 (replicate THEORA_HDR_SIZE 0);
     let hints = set_hint ''timestamp'' (sprintf_d (low_int stamp)) (set_hint ''pt'' ''96'' []);
         numpackets = (if length packet > PATH_MTU_THEORA then 0 else 1)
     in theora_send_loop handler ident numpackets packet hints packbuf 0 0 (length packet) seqno
   }"

section \<open>The codec\<close>

record ('e, 'c, 'i) theora_env =
  th_encode :: "'e \<Rightarrow> u8 list \<Rightarrow> u8 list option \<times> 'e"
  th_encode_flushheader :: "'e \<Rightarrow> u8 list option \<times> 'e"
  th_header_init :: "'c \<Rightarrow> 'c"
  th_decode_headerin :: "'c \<Rightarrow> int \<Rightarrow> u8 list \<Rightarrow> int \<times> 'c"
  th_decode_alloc :: "'c \<Rightarrow> 'c"
  th_decode :: "'c \<Rightarrow> u8 list \<Rightarrow> 'i option \<times> 'c"
  tjunk :: "nat \<Rightarrow> u8"

text \<open>The variables that all Theora objects of the program share.\<close>

record theora_globals =
  g_seqno :: u32
  g_stamp :: int
  header_cnt :: int
  tot_header_cnt :: int
  g_curpos :: nat

datatype codec_type = TYPE_UNSPECIFIED | TYPE_ENCODER | TYPE_DECODER

record ('e, 'c) theora_ctx =
  t_ident :: u32
  t_type :: codec_type
  t_enc :: 'e
  t_dec :: 'c
  t_header :: "u8 list option"
  t_header_len :: nat
  t_buffer :: "u8 list"

section \<open>Sending the headers\<close>

text \<open>\<open>h1\<close>, \<open>h2\<close>, \<open>h3\<close> are the three packets of the encoder, \<open>blk\<close> is the block they are packed into.\<close>

definition theora_build_header :: "u32 \<Rightarrow> u8 list \<Rightarrow> u8 list \<Rightarrow> u8 list \<Rightarrow> u8 list \<Rightarrow> (u8 list \<times> nat) option" where
  "theora_build_header ident blk h1 h2 h3 = do {
     (p, b1) \<leftarrow> write32 blk 0 (htonl (push_bit 6 (0 AND 3) OR push_bit 4 (1 AND 7) OR (1 AND 7) OR push_bit 8 ident));
     b2 \<leftarrow> mem_write b1 6 [2];
     b3 \<leftarrow> mem_write b2 7 [of_nat (length h1)];
     b4 \<leftarrow> mem_write b3 9 h1;
     b5 \<leftarrow> mem_write b4 8 [of_nat (length h2)];
     b6 \<leftarrow> mem_write b5 (9 + length h1) h2;
     b7 \<leftarrow> mem_write b6 (9 + length h1 + length h2) h3;
     let plen = length h1 + length h2 + length h3
     in do { (q, b8) \<leftarrow> write16 b7 4 (ucast (htons (of_nat plen))); Some (b8, THEORA_HDR_SIZE + 3 + plen) }
   }"

definition theora_send_headers ::
  "('e, 'c, 'i) theora_env \<Rightarrow> bool \<Rightarrow> theora_globals \<Rightarrow> ('e, 'c) theora_ctx \<Rightarrow> (media_write list \<times> theora_globals \<times> ('e, 'c) theora_ctx) option" where
  "theora_send_headers env handler g cdc = do {
     cdc1 \<leftarrow> (case th_encode_flushheader env (t_enc cdc) of
         (None, e1) \<Rightarrow> Some (cdc\<lparr>t_enc := e1\<rparr>)
       | (Some h1, e1) \<Rightarrow>
           let blk = (case t_header cdc of None \<Rightarrow> map (tjunk env) [0..<4096] | Some b \<Rightarrow> b);
               (r2, e2) = th_encode_flushheader env e1; h2 = (case r2 of None \<Rightarrow> h1 | Some h \<Rightarrow> h);
               (r3, e3) = th_encode_flushheader env e2; h3 = (case r3 of None \<Rightarrow> h2 | Some h \<Rightarrow> h)
           in do {
             (b, n) \<leftarrow> theora_build_header (t_ident cdc) blk h1 h2 h3;
             Some (cdc\<lparr>t_enc := e3, t_header := Some b, t_header_len := n\<rparr>)
           });
     case t_header cdc1 of
       None \<Rightarrow> Some ([], g, cdc1)
     | Some b \<Rightarrow>
         if \<not> handler then Some ([], g, cdc1)
         else do {
           out \<leftarrow> mem_read b 0 (t_header_len cdc1);
           let hints = set_hint ''seqno'' (dec_string (unat (g_seqno g)))
                 (set_hint ''timestamp'' (sprintf_d (low_int (g_stamp g))) (set_hint ''pt'' ''96'' []))
           in Some ([(hints, out)], g\<lparr>g_seqno := g_seqno g + 1\<rparr>, cdc1)
         }
   }"

definition theora_encode_and_send ::
  "('e, 'c, 'i) theora_env \<Rightarrow> bool \<Rightarrow> theora_globals \<Rightarrow> ('e, 'c) theora_ctx \<Rightarrow> u8 list \<Rightarrow> (media_write list \<times> theora_globals \<times> ('e, 'c) theora_ctx) option" where
  "theora_encode_and_send env handler g cdc frame =
     (case th_encode env (t_enc cdc) frame of
        (None, e) \<Rightarrow> Some ([], g, cdc\<lparr>t_enc := e\<rparr>)
      | (Some packet, e) \<Rightarrow> do {
          (ws, s) \<leftarrow> theora_send_fragmented_rtp (tjunk env) handler (t_ident cdc) packet (g_stamp g) (g_seqno g);
          Some (ws, g\<lparr>g_seqno := s, g_stamp := g_stamp g + 6670\<rparr>, cdc\<lparr>t_enc := e\<rparr>)
        })"

section \<open>Receiving\<close>

definition theora_dispatch_header_packet :: "('e, 'c, 'i) theora_env \<Rightarrow> ('e, 'c) theora_ctx \<Rightarrow> u8 list \<Rightarrow> ('e, 'c) theora_ctx option" where
  "theora_dispatch_header_packet env cdc dat = do {
     (w, p1) \<leftarrow> read32 dat 0;
     (v, p2) \<leftarrow> read16 dat p1;
     l \<leftarrow> mem_read dat p2 3;
     let plen = int (unat (htons (ucast v))); l1 = unat (l ! 1); l2 = unat (l ! 2); hdata = drop (p2 + 3) dat;
         c0 = th_header_init env (t_dec cdc);
         (e1, c1) = th_decode_headerin env c0 (int l1) hdata
     in if e1 \<le> 0 then Some (cdc\<lparr>t_dec := c1\<rparr>)
        else let (e2, c2) = th_decode_headerin env c1 (int l2) (drop l1 hdata)
        in if e2 \<le> 0 then Some (cdc\<lparr>t_dec := c2\<rparr>)
        else let (e3, c3) = th_decode_headerin env c2 (plen - int l2 - int l1) (drop (l1 + l2) hdata)
        in if e3 < 0 then Some (cdc\<lparr>t_dec := c3\<rparr>)
        else Some (cdc\<lparr>t_dec := th_decode_alloc env c3\<rparr>)
   }"

text \<open>The fragment is copied to the position \<open>curpos\<close>; the buffer grows when it has to.\<close>

definition theora_append :: "('e, 'c, 'i) theora_env \<Rightarrow> ('e, 'c) theora_ctx \<Rightarrow> u8 list \<Rightarrow> nat \<Rightarrow> nat \<Rightarrow> (nat \<times> ('e, 'c) theora_ctx) option" where
  "theora_append env cdc dat curpos plen = do {
     let b = (if length (t_buffer cdc) < curpos + plen then mem_resize (tjunk env) (t_buffer cdc) (curpos + plen) else t_buffer cdc)
     in do {
       chunk \<leftarrow> mem_read dat 6 plen;
       b1 \<leftarrow> mem_write b curpos chunk;
       Some (curpos + plen, cdc\<lparr>t_buffer := b1\<rparr>)
     }
   }"

text \<open>The image that is shown is part of the result.\<close>

definition theora_dispatch_frame_packet ::
  "('e, 'c, 'i) theora_env \<Rightarrow> theora_globals \<Rightarrow> ('e, 'c) theora_ctx \<Rightarrow> u8 list \<Rightarrow> u8 \<Rightarrow> ('i option \<times> theora_globals \<times> ('e, 'c) theora_ctx) option" where
  "theora_dispatch_frame_packet env g cdc dat mark = do {
     (v, p) \<leftarrow> read16 dat 4;
     let plen = unat v;
         curpos0 = (if mark = 1 \<or> mark = 0 then 0 else g_curpos g);
         cdc0 = (if mark = 1 then cdc\<lparr>t_buffer := replicate (length (t_buffer cdc)) 0\<rparr> else cdc)
     in do {
       (curpos, cdc1) \<leftarrow> theora_append env cdc0 dat curpos0 plen;
       let g1 = g\<lparr>g_curpos := curpos\<rparr>
       in if mark = 1 \<or> mark = 2 then Some (None, g1, cdc1)
          else do {
            packet \<leftarrow> mem_read (t_buffer cdc1) 0 curpos;
            let (img, c) = th_decode env (t_dec cdc1) packet
            in Some (img, g1, cdc1\<lparr>t_dec := c\<rparr>)
          }
     }
   }"

definition on_theora_packet_received ::
  "('e, 'c, 'i) theora_env \<Rightarrow> theora_globals \<Rightarrow> ('e, 'c) theora_ctx \<Rightarrow> u8 list \<Rightarrow> ('i option \<times> theora_globals \<times> ('e, 'c) theora_ctx) option" where
  "on_theora_packet_received env g cdc dat = do {
     b \<leftarrow> mem_read dat 3 1;
     let tdt = drop_bit 4 (hd b) AND 3; mark = drop_bit 6 (hd b) AND 3
     in if tdt = 1 then do { cdc1 \<leftarrow> theora_dispatch_header_packet env cdc dat; Some (None, g, cdc1) }
        else if tdt = 0 then theora_dispatch_frame_packet env g cdc dat mark
        else Some (None, g, cdc)
   }"

fun theora_receive_all ::
  "('e, 'c, 'i) theora_env \<Rightarrow> theora_globals \<Rightarrow> ('e, 'c) theora_ctx \<Rightarrow> u8 list list \<Rightarrow> ('i option list \<times> theora_globals \<times> ('e, 'c) theora_ctx) option" where
  "theora_receive_all env g cdc [] = Some ([], g, cdc)"
| "theora_receive_all env g cdc (p # ps) = do {
     (i, g1, cdc1) \<leftarrow> on_theora_packet_received env g cdc p;
     (is, g2, cdc2) \<leftarrow> theora_receive_all env g1 cdc1 ps;
     Some (i # is, g2, cdc2)
   }"

section \<open>The object\<close>

text \<open>
  A write to a Theora object: the decoder takes it for a packet, the encoder for a picture. The
  headers go out with the first picture and then with every 101st, at most 999 times. An object
  that is neither yet becomes one after its attribute \<open>md\<close>, and drops what was written.
\<close>

definition x_theora_try_write ::
  "('e, 'c, 'i) theora_env \<Rightarrow> bool \<Rightarrow> string option \<Rightarrow> theora_globals \<Rightarrow> ('e, 'c) theora_ctx \<Rightarrow> u8 list
     \<Rightarrow> (media_write list \<times> 'i option \<times> theora_globals \<times> ('e, 'c) theora_ctx) option" where
  "x_theora_try_write env handler md g cdc buf = (case t_type cdc of
       TYPE_DECODER \<Rightarrow> do {
         (i, g1, cdc1) \<leftarrow> on_theora_packet_received env g cdc buf;
         Some ([], i, g1, cdc1)
       }
     | TYPE_ENCODER \<Rightarrow> do {
         let g1 = g\<lparr>header_cnt := header_cnt g - 1\<rparr>;
             due = header_cnt g1 < 0;
             g2 = (if due then g1\<lparr>tot_header_cnt := tot_header_cnt g1 - 1\<rparr> else g1)
         in do {
           (ws, g3, cdc1) \<leftarrow> (if due \<and> tot_header_cnt g2 > 0 then do {
                (ws, g3, cdc1) \<leftarrow> theora_send_headers env handler g2 cdc;
                Some (ws, g3\<lparr>header_cnt := 100\<rparr>, cdc1)
              } else Some ([], g2, cdc));
           if buf \<noteq> [] then do {
             (ws', g4, cdc2) \<leftarrow> theora_encode_and_send env handler g3 cdc1 buf;
             Some (ws @ ws', None, g4, cdc2)
           } else Some (ws, None, g3, cdc1)
         }
       }
     | TYPE_UNSPECIFIED \<Rightarrow>
         Some ([], None, g, cdc\<lparr>t_type := (case md of
             None \<Rightarrow> TYPE_UNSPECIFIED
           | Some m \<Rightarrow> if strcaseeq m ''in'' then TYPE_DECODER else if strcaseeq m ''out'' then TYPE_ENCODER else TYPE_UNSPECIFIED)\<rparr>))"

end
