(* ===== verification/Media_Theora_Claims.thy ===== *)
theory Media_Theora_Claims
  imports Media_Theora
begin

text \<open>
  A Theora packet is put together again from its fragments, whatever its length. The headers of a
  stream are not: the receiver reads the length of the third one with its bytes exchanged.
\<close>

unbundle bit_operations_syntax

section \<open>The packets on the wire\<close>

lemma write32_htonl: "write32 dat pos (htonl w) = map_option (\<lambda>d. (pos + 4, d)) (mem_write dat pos (be32 w))"
proof -
  have "[ucast (htonl w), ucast (drop_bit 8 (htonl w)), ucast (drop_bit 16 (htonl w)), ucast (drop_bit 24 (htonl w))] = be32 w"
    by (simp only: be32_def htonl_bytes)
  then show ?thesis by (simp only: write32_def) (simp add: map_option_case split: option.split)
qed

lemma write16_htons: "write16 dat pos (ucast (htons x)) = map_option (\<lambda>d. (pos + 2, d)) (mem_write dat pos (be16 x))"
proof -
  have "ucast (ucast y :: u32) = (ucast y :: u8)" "ucast (drop_bit 8 (ucast y :: u32)) = (ucast (drop_bit 8 y) :: u8)" for y :: u16
    by (rule bit_word_eqI; auto simp: bit_simps dest: bit_imp_le_length)+
  then have "[ucast (ucast (htons x) :: u32), ucast (drop_bit 8 (ucast (htons x) :: u32))] = be16 x"
    using le16_htons [of x] by (simp add: le16_def)
  then show ?thesis by (simp only: write16_def) (simp add: map_option_case split: option.split)
qed

lemma read16_be16: "length a = off \<Longrightarrow> read16 (a @ be16 x @ c) off = Some (ucast x, off + 2)"
proof -
  assume a: "length a = off"
  have "push_bit 8 (ucast (ucast (drop_bit 8 x) :: u8)) OR ucast (ucast x :: u8) = (ucast x :: u32)"
    by (rule bit_word_eqI) (auto simp: bit_simps dest: bit_imp_le_length)
  then have "push_bit 8 (ucast (be16 x ! 0)) OR ucast (be16 x ! 1) = (ucast x :: u32)" by (simp add: be16_def)
  then show ?thesis using mem_read_middle [OF a, of "be16 x" 2 c] by (simp add: read16_def)
qed

lemma unat_ucast_u16: "unat (ucast x :: u32) = unat (x :: u16)"
proof -
  have "unat x < 2 ^ 32" by (rule less_trans [of _ "2 ^ 16"]) (use unsigned_less [of x] in simp_all)
  then show ?thesis by (simp add: unsigned_ucast_eq take_bit_nat_eq_self)
qed

definition theora_flags :: "nat \<Rightarrow> nat \<Rightarrow> u8" where
  "theora_flags mark np = push_bit 6 (of_nat mark AND 3) OR push_bit 4 (0 AND 3) OR (of_nat np AND 0xF)"

definition theora_head :: "u32 \<Rightarrow> nat \<Rightarrow> nat \<Rightarrow> nat \<Rightarrow> u8 list" where
  "theora_head ident np mark len = take 3 (be32 (push_bit 8 ident)) @ theora_flags mark np # be16 (of_nat len)"

lemma length_theora_head [simp]: "length (theora_head ident np mark len) = 6"
  by (simp add: theora_head_def)

lemma flags_mark:
  assumes "mark \<in> {0, 1, 2, 3}" "np \<in> {0, 1}"
  shows "drop_bit 4 (theora_flags mark np) AND 3 = 0" "drop_bit 6 (theora_flags mark np) AND 3 = of_nat mark"
  using assms by (auto simp: theora_flags_def)

lemma theora_packet_bytes:
  assumes pb: "length packbuf = PATH_MTU" and l: "len \<le> PATH_MTU_THEORA" "sent + len \<le> length packet"
  shows "\<exists>pb. theora_packet ident np packet packbuf mark sent len = Some pb \<and> length pb = PATH_MTU
    \<and> mem_read pb 0 (6 + len) = Some (theora_head ident np mark len @ take len (drop sent packet))"
proof -
  define chunk where "chunk = take len (drop sent packet)"
  have lc: "length chunk = len" using l(2) by (simp add: chunk_def)
  have room: "6 + len \<le> length packbuf" using pb l(1) by (simp add: PATH_MTU_THEORA_def PATH_MTU_def THEORA_HDR_SIZE_def)
  obtain x1 x2 x3 where x: "packbuf = x1 @ x2 @ x3" "length x1 = 4" "length x2 = 2" "length x3 = length packbuf - 6"
    using split3 [of packbuf 4 2 "length packbuf - 6"] room by auto
  obtain y1 y2 where y: "x3 = y1 @ y2" "length y1 = len" using x(4) room
    by (metis append_take_drop_id length_take min.absorb2 le_diff_conv2 add.commute add_leE)
  obtain p q r where ident: "be32 (push_bit 8 ident) = [p, q, r, 0]"
  proof -
    have "(ucast (push_bit 8 ident) :: u8) = 0" by (rule bit_word_eqI) (auto simp: bit_simps)
    then show thesis using that by (simp add: be32_def)
  qed
  have w1: "write32 packbuf 0 (htonl (push_bit 8 ident)) = Some (4, [p, q, r, 0] @ x2 @ x3)"
    unfolding write32_htonl ident x(1) using mem_write_middle [of "[]" 0 x1 "[p, q, r, 0]" "x2 @ x3"] x(2) by simp
  have w2: "write16 ([p, q, r, 0] @ x2 @ x3) 4 (ucast (htons (of_nat len))) = Some (6, [p, q, r, 0] @ be16 (of_nat len) @ x3)"
    unfolding write16_htons using mem_write_middle [of "[p, q, r, 0]" 4 x2 "be16 (of_nat len)" x3] x(3) by simp
  have w3: "mem_read ([p, q, r, 0] @ be16 (of_nat len) @ x3) 3 1 = Some [0]" by (simp add: mem_read_def)
  have w4: "mem_write ([p, q, r, 0] @ be16 (of_nat len) @ x3) 3 [f] = Some ([p, q, r, f] @ be16 (of_nat len) @ x3)" for f
    by (simp add: mem_write_def buf_put_def)
  have w5: "mem_write ([p, q, r, f] @ be16 (of_nat len) @ x3) 6 chunk = Some ([p, q, r, f] @ be16 (of_nat len) @ chunk @ y2)" for f
    using mem_write_middle [of "[p, q, r, f] @ be16 (of_nat len)" 6 y1 chunk y2] y lc by simp
  have rd: "mem_read packet sent len = Some chunk" using l(2) by (simp add: mem_read_def chunk_def)
  let ?pb = "[p, q, r, theora_flags mark np] @ be16 (of_nat len) @ chunk @ y2"
  have "theora_packet ident np packet packbuf mark sent len = Some ?pb"
    unfolding theora_packet_def
    by (simp only: w1 Option.bind.bind_lunit prod.case w2 w3 list.sel or.left_neutral theora_flags_def [symmetric] w4 rd w5)
  moreover have "length ?pb = PATH_MTU" using pb x y lc room by simp
  moreover have "mem_read ?pb 0 (6 + len) = Some (theora_head ident np mark len @ chunk)"
  proof -
    have "?pb = (theora_head ident np mark len @ chunk) @ y2" by (simp add: theora_head_def ident)
    then show ?thesis using lc by (simp only: mem_read_def) simp
  qed
  ultimately show ?thesis unfolding chunk_def by blast
qed

section \<open>The receiver\<close>

text \<open>The receiver holds the first part of a packet of the encoder.\<close>

definition t_holds :: "theora_globals \<Rightarrow> ('e, 'c) theora_ctx \<Rightarrow> u8 list \<Rightarrow> bool" where
  "t_holds g cdc pre = (g_curpos g = length pre \<and> length pre \<le> length (t_buffer cdc) \<and> take (length pre) (t_buffer cdc) = pre)"

lemma theora_append_chunk:
  assumes "cp \<le> length (t_buffer cdc)" "take cp (t_buffer cdc) = pre" "length hd6 = 6"
  shows "\<exists>b. theora_append env cdc (hd6 @ chunk) cp (length chunk) = Some (cp + length chunk, cdc\<lparr>t_buffer := b\<rparr>)
    \<and> cp + length chunk \<le> length b \<and> take (cp + length chunk) b = pre @ chunk"
proof -
  define b where "b = (if length (t_buffer cdc) < cp + length chunk then mem_resize (tjunk env) (t_buffer cdc) (cp + length chunk) else t_buffer cdc)"
  have b: "cp + length chunk \<le> length b" "take cp b = pre" using assms by (auto simp: b_def mem_resize_def)
  have "mem_write b cp chunk = Some (buf_put b cp chunk)" using b(1) by (simp add: mem_write_def)
  moreover have "mem_read (hd6 @ chunk) 6 (length chunk) = Some chunk" using assms(3) by (simp add: mem_read_def)
  moreover have "take (cp + length chunk) (buf_put b cp chunk) = pre @ chunk" using b take_buf_put [of cp b chunk] by simp
  ultimately show ?thesis using b(1) by (intro exI [of _ "buf_put b cp chunk"]) (simp add: theora_append_def flip: b_def)
qed

lemma receive_dispatch:
  assumes "mark \<in> {0, 1, 2, 3}" "np \<in> {0, 1}"
  shows "on_theora_packet_received env g cdc (theora_head ident np mark len @ chunk) =
    theora_dispatch_frame_packet env g cdc (theora_head ident np mark len @ chunk) (of_nat mark)"
proof -
  have "mem_read (theora_head ident np mark len @ chunk) 3 1 = Some [theora_flags mark np]"
    by (simp add: mem_read_def theora_head_def be32_def)
  then show ?thesis using flags_mark [OF assms] by (simp add: on_theora_packet_received_def)
qed

lemma head_length_field:
  "len < 65536 \<Longrightarrow> \<exists>v p. read16 (theora_head ident np mark len @ chunk) 4 = Some (v, p) \<and> unat v = len"
  using read16_be16 [of "take 3 (be32 (push_bit 8 ident)) @ [theora_flags mark np]" 4 "of_nat len" chunk]
  by (simp add: theora_head_def unat_ucast_u16 unat_of_nat_u16)

text \<open>A first or middle fragment is kept, a last or only one is decoded.\<close>

lemma receive_keep:
  assumes m: "mark = 1 \<and> pre = [] \<or> mark = 2 \<and> t_holds g cdc pre" and np: "np \<in> {0, 1}" and l: "length chunk < 65536"
  shows "\<exists>g' cdc'. on_theora_packet_received env g cdc (theora_head ident np mark (length chunk) @ chunk) = Some (None, g', cdc')
    \<and> t_holds g' cdc' (pre @ chunk) \<and> t_dec cdc' = t_dec cdc"
proof -
  have mk: "mark \<in> {0, 1, 2, 3}" using m by auto
  obtain v p where v: "read16 (theora_head ident np mark (length chunk) @ chunk) 4 = Some (v, p)" "unat v = length chunk"
    using head_length_field [OF l] by blast
  define cdc0 where "cdc0 = (if (of_nat mark :: u8) = 1 then cdc\<lparr>t_buffer := replicate (length (t_buffer cdc)) 0\<rparr> else cdc)"
  have c0: "length pre \<le> length (t_buffer cdc0)" "take (length pre) (t_buffer cdc0) = pre" "t_dec cdc0 = t_dec cdc"
    using m by (auto simp: cdc0_def t_holds_def)
  obtain b where b: "theora_append env cdc0 (theora_head ident np mark (length chunk) @ chunk) (length pre) (length chunk) = Some (length pre + length chunk, cdc0\<lparr>t_buffer := b\<rparr>)"
    "length pre + length chunk \<le> length b" "take (length pre + length chunk) b = pre @ chunk"
    using theora_append_chunk [OF c0(1,2) length_theora_head] by blast
  have cp: "(if (of_nat mark :: u8) = 1 \<or> (of_nat mark :: u8) = 0 then 0 else g_curpos g) = length pre"
    and keep: "(of_nat mark :: u8) = 1 \<or> (of_nat mark :: u8) = 2" using m by (auto simp: t_holds_def)
  have "on_theora_packet_received env g cdc (theora_head ident np mark (length chunk) @ chunk) =
      Some (None, g\<lparr>g_curpos := length pre + length chunk\<rparr>, cdc0\<lparr>t_buffer := b\<rparr>)"
    unfolding receive_dispatch [OF mk np] theora_dispatch_frame_packet_def
    by (simp only: v Option.bind.bind_lunit prod.case Let_def cp cdc0_def [symmetric] b(1)) (use keep in auto)
  then show ?thesis using b(2,3) c0(3) by (simp add: t_holds_def)
qed

lemma receive_done:
  assumes m: "mark = 0 \<and> pre = [] \<or> mark = 3 \<and> t_holds g cdc pre" and np: "np \<in> {0, 1}" and l: "length chunk < 65536"
  shows "\<exists>g' cdc'. on_theora_packet_received env g cdc (theora_head ident np mark (length chunk) @ chunk) =
      Some (fst (th_decode env (t_dec cdc) (pre @ chunk)), g', cdc') \<and> t_dec cdc' = snd (th_decode env (t_dec cdc) (pre @ chunk))"
proof -
  have mk: "mark \<in> {0, 1, 2, 3}" using m by auto
  obtain v p where v: "read16 (theora_head ident np mark (length chunk) @ chunk) 4 = Some (v, p)" "unat v = length chunk"
    using head_length_field [OF l] by blast
  have c0: "length pre \<le> length (t_buffer cdc)" "take (length pre) (t_buffer cdc) = pre" using m by (auto simp: t_holds_def)
  obtain b where b: "theora_append env cdc (theora_head ident np mark (length chunk) @ chunk) (length pre) (length chunk) = Some (length pre + length chunk, cdc\<lparr>t_buffer := b\<rparr>)"
    "length pre + length chunk \<le> length b" "take (length pre + length chunk) b = pre @ chunk"
    using theora_append_chunk [OF c0 length_theora_head] by blast
  have cp: "(if (of_nat mark :: u8) = 0 then 0 else g_curpos g) = length pre"
    and fin: "((of_nat mark :: u8) = 1) = False" "((of_nat mark :: u8) = 2) = False" using m by (auto simp: t_holds_def)
  have rd: "mem_read b 0 (length pre + length chunk) = Some (pre @ chunk)" using b(2,3) by (simp add: mem_read_def)
  have "on_theora_packet_received env g cdc (theora_head ident np mark (length chunk) @ chunk) =
      (let (img, c) = th_decode env (t_dec cdc) (pre @ chunk) in Some (img, g\<lparr>g_curpos := length pre + length chunk\<rparr>, cdc\<lparr>t_buffer := b, t_dec := c\<rparr>))"
    unfolding receive_dispatch [OF mk np] theora_dispatch_frame_packet_def
    by (simp only: v Option.bind.bind_lunit prod.case Let_def fin simp_thms if_False cp b(1)) (simp add: rd)
  then show ?thesis by (simp add: split_beta)
qed

section \<open>A packet on its way\<close>

definition t_sent :: "u32 \<Rightarrow> media_write list \<Rightarrow> u32 \<Rightarrow> bool" where
  "t_sent sq ws sq' = (sq' = sq + of_nat (length ws) \<and> (\<forall>w \<in> set ws. length (snd w) \<le> PATH_MTU - 12))"

lemma theora_send_step_hints:
  fixes elapsed mark :: nat and hints :: attr_list and sq :: u32
  assumes e: "0 < elapsed" "sent + elapsed \<le> length packet" and pb: "length packbuf = PATH_MTU"
  defines "len \<equiv> (if PATH_MTU_THEORA < elapsed then PATH_MTU_THEORA else elapsed)"
    and "mark1 \<equiv> (if PATH_MTU_THEORA < elapsed then (if sent \<noteq> 0 then 2 else 1) else if sent \<noteq> 0 then 3 else mark)"
    and "hints' \<equiv> set_hint ''seqno'' (dec_string (unat sq)) hints"
  shows "\<exists>pb. length pb = PATH_MTU \<and> theora_send_loop True ident np packet hints packbuf mark sent elapsed sq =
    map_option (\<lambda>(ws, s). ((hints', theora_head ident np mark1 len @ take len (drop sent packet)) # ws, s))
      (theora_send_loop True ident np packet hints' pb mark1 (sent + len) (elapsed - len) (sq + 1))"
proof -
  have l: "len \<le> PATH_MTU_THEORA" "sent + len \<le> length packet" using e by (auto simp: len_def)
  obtain pb where p: "theora_packet ident np packet packbuf mark1 sent len = Some pb" "length pb = PATH_MTU"
    "mem_read pb 0 (6 + len) = Some (theora_head ident np mark1 len @ take len (drop sent packet))"
    using theora_packet_bytes [OF pb l] by blast
  have "theora_send_loop True ident np packet hints packbuf mark sent elapsed sq =
    map_option (\<lambda>(ws, s). ([(set_hint ''seqno'' (dec_string (unat sq)) hints, theora_head ident np mark1 len @ take len (drop sent packet))] @ ws, s))
      (theora_send_loop True ident np packet (set_hint ''seqno'' (dec_string (unat sq)) hints) pb mark1 (sent + len) (elapsed - len) (sq + 1))"
    unfolding theora_send_loop.simps [of True ident np packet hints packbuf mark sent elapsed]
    by (simp only: e(1) if_True Let_def len_def [symmetric] mark1_def [symmetric] p(1,3) option.case)
  then show ?thesis using p(2) unfolding hints'_def by auto
qed

lemma theora_send_step:
  fixes elapsed mark :: nat
  assumes e: "0 < elapsed" "sent + elapsed \<le> length packet" and pb: "length packbuf = PATH_MTU"
  defines "len \<equiv> (if PATH_MTU_THEORA < elapsed then PATH_MTU_THEORA else elapsed)"
    and "mark1 \<equiv> (if PATH_MTU_THEORA < elapsed then (if sent \<noteq> 0 then 2 else 1) else if sent \<noteq> 0 then 3 else mark)"
  shows "\<exists>pb hints'. length pb = PATH_MTU \<and> theora_send_loop True ident np packet hints packbuf mark sent elapsed sq =
    map_option (\<lambda>(ws, s). ((hints', theora_head ident np mark1 len @ take len (drop sent packet)) # ws, s))
      (theora_send_loop True ident np packet hints' pb mark1 (sent + len) (elapsed - len) (sq + 1))"
  using theora_send_step_hints [OF e pb, of ident np hints mark sq] unfolding len_def mark1_def by blast

lemma PATH_MTU_THEORA_simps: "0 < PATH_MTU_THEORA" "PATH_MTU_THEORA < 65536" "6 + PATH_MTU_THEORA = PATH_MTU - 12"
  by (simp_all add: PATH_MTU_THEORA_def PATH_MTU_def THEORA_HDR_SIZE_def)

lemma theora_deliver_later:
  assumes "sent \<noteq> 0" "0 < elapsed" "sent + elapsed = length packet" "length packbuf = PATH_MTU" "np \<in> {0, 1}" "t_holds g cdc pre"
  shows "\<exists>ws s imgs g' cdc'. theora_send_loop True ident np packet hints packbuf mark sent elapsed sq = Some (ws, s) \<and> t_sent sq ws s
    \<and> theora_receive_all env g cdc (map snd ws) = Some (imgs @ [fst (th_decode env (t_dec cdc) (pre @ drop sent packet))], g', cdc')
    \<and> set imgs \<subseteq> {None} \<and> t_dec cdc' = snd (th_decode env (t_dec cdc) (pre @ drop sent packet))"
  using assms
proof (induction elapsed arbitrary: sent packbuf mark sq hints g cdc pre rule: less_induct)
  case (less elapsed)
  define len where "len = (if PATH_MTU_THEORA < elapsed then PATH_MTU_THEORA else elapsed)"
  define chunk where "chunk = take len (drop sent packet)"
  have lc: "length chunk = len" "len < 65536" "6 + len \<le> PATH_MTU - 12" "0 < len"
    using less.prems(2,3) PATH_MTU_THEORA_simps by (auto simp: chunk_def len_def)
  note step = theora_send_step [OF less.prems(2) eq_refl [OF less.prems(3)] less.prems(4), of ident np hints mark sq, folded len_def chunk_def]
  show ?case
  proof (cases "PATH_MTU_THEORA < elapsed")
    case False
    then have c: "len = elapsed" "chunk = drop sent packet" using less.prems(3) by (simp_all add: len_def chunk_def)
    obtain hints' where s: "theora_send_loop True ident np packet hints packbuf mark sent elapsed sq = Some ([(hints', theora_head ident np 3 len @ chunk)], sq + 1)"
      using step False less.prems(1) c(1) by (auto simp: theora_send_loop.simps [of _ _ _ _ _ _ _ _ 0])
    obtain g' cdc' where r: "on_theora_packet_received env g cdc (theora_head ident np 3 len @ chunk) = Some (fst (th_decode env (t_dec cdc) (pre @ chunk)), g', cdc')"
      "t_dec cdc' = snd (th_decode env (t_dec cdc) (pre @ chunk))"
      using receive_done [of 3 pre g cdc np chunk env ident] less.prems(5,6) lc by auto
    show ?thesis unfolding s using r lc(1,3) by (simp add: t_sent_def c(2))
  next
    case True
    obtain pb hints' where s: "length pb = PATH_MTU" "theora_send_loop True ident np packet hints packbuf mark sent elapsed sq =
      map_option (\<lambda>(ws, s). ((hints', theora_head ident np 2 len @ chunk) # ws, s))
        (theora_send_loop True ident np packet hints' pb 2 (sent + len) (elapsed - len) (sq + 1))"
      using step True less.prems(1) by auto
    obtain g1 cdc1 where r: "on_theora_packet_received env g cdc (theora_head ident np 2 len @ chunk) = Some (None, g1, cdc1)"
      "t_holds g1 cdc1 (pre @ chunk)" "t_dec cdc1 = t_dec cdc"
      using receive_keep [of 2 pre g cdc np chunk env ident] less.prems(5,6) lc by auto
    have dr: "(pre @ chunk) @ drop (sent + len) packet = pre @ drop sent packet"
      by (simp add: chunk_def add.commute flip: drop_drop)
    have "elapsed - len < elapsed" "sent + len \<noteq> 0" "0 < elapsed - len" "sent + len + (elapsed - len) = length packet"
      using True less.prems lc by (auto simp: len_def)
    from less.IH [OF this s(1) less.prems(5) r(2), of hints' 2 "sq + 1", unfolded dr r(3)]
    obtain ws t imgs g' cdc' where ih: "theora_send_loop True ident np packet hints' pb 2 (sent + len) (elapsed - len) (sq + 1) = Some (ws, t)" "t_sent (sq + 1) ws t"
      "theora_receive_all env g1 cdc1 (map snd ws) = Some (imgs @ [fst (th_decode env (t_dec cdc) (pre @ drop sent packet))], g', cdc')"
      "set imgs \<subseteq> {None}" "t_dec cdc' = snd (th_decode env (t_dec cdc) (pre @ drop sent packet))" by blast
    show ?thesis
      by (rule exI [of _ "(hints', theora_head ident np 2 len @ chunk) # ws"], rule exI [of _ t], rule exI [of _ "None # imgs"])
        (use ih r(1) s(2) lc(1,3) in \<open>auto simp: t_sent_def\<close>)
  qed
qed

lemma theora_deliver_first:
  assumes "packet \<noteq> []"
  shows "\<exists>ws s imgs g' cdc'. theora_send_fragmented_rtp junk True ident packet stmp sq = Some (ws, s) \<and> t_sent sq ws s
    \<and> theora_receive_all env g cdc (map snd ws) = Some (imgs @ [fst (th_decode env (t_dec cdc) packet)], g', cdc')
    \<and> set imgs \<subseteq> {None} \<and> t_dec cdc' = snd (th_decode env (t_dec cdc) packet)"
proof -
  define pb0 where "pb0 = buf_put (map junk [0..<PATH_MTU]) 0 (replicate THEORA_HDR_SIZE 0)"
  define np :: nat where "np = (if length packet > PATH_MTU_THEORA then 0 else 1)"
  define hints where "hints = set_hint ''timestamp'' (sprintf_d (low_int stmp)) (set_hint ''pt'' ''96'' [])"
  have w: "mem_write (map junk [0..<PATH_MTU]) 0 (replicate THEORA_HDR_SIZE 0) = Some pb0" "length pb0 = PATH_MTU"
    by (simp_all add: mem_write_def pb0_def PATH_MTU_def THEORA_HDR_SIZE_def)
  have send: "theora_send_fragmented_rtp junk True ident packet stmp sq = theora_send_loop True ident np packet hints pb0 0 0 (length packet) sq"
    by (simp add: theora_send_fragmented_rtp_def w(1) hints_def np_def)
  have n: "0 < length packet" "0 + length packet \<le> length packet" and np: "np \<in> {0, 1}" using assms by (simp_all add: np_def)
  define len where "len = (if PATH_MTU_THEORA < length packet then PATH_MTU_THEORA else length packet)"
  define chunk where "chunk = take len packet"
  have lc: "length chunk = len" "len < 65536" "6 + len \<le> PATH_MTU - 12" "0 < len" using n(1) PATH_MTU_THEORA_simps by (auto simp: chunk_def len_def)
  note step = theora_send_step [OF n w(2), of ident np hints 0 sq, folded len_def, simplified, folded chunk_def]
  show ?thesis
  proof (cases "PATH_MTU_THEORA < length packet")
    case False
    then have c: "len = length packet" "chunk = packet" by (simp_all add: len_def chunk_def)
    obtain hints' where s: "theora_send_loop True ident np packet hints pb0 0 0 (length packet) sq = Some ([(hints', theora_head ident np 0 len @ chunk)], sq + 1)"
      using step False c(1) by (auto simp: theora_send_loop.simps [of _ _ _ _ _ _ _ _ 0])
    obtain g' cdc' where "on_theora_packet_received env g cdc (theora_head ident np 0 len @ chunk) = Some (fst (th_decode env (t_dec cdc) packet), g', cdc')"
      "t_dec cdc' = snd (th_decode env (t_dec cdc) packet)"
      using receive_done [of 0 "[]" g cdc np chunk env ident] np lc c(2) by auto
    then show ?thesis unfolding send s using lc(1,3) by (simp add: t_sent_def)
  next
    case True
    obtain pb hints' where s: "length pb = PATH_MTU" "theora_send_loop True ident np packet hints pb0 0 0 (length packet) sq =
      map_option (\<lambda>(ws, s). ((hints', theora_head ident np 1 len @ chunk) # ws, s)) (theora_send_loop True ident np packet hints' pb 1 len (length packet - len) (sq + 1))"
      using step True by auto
    obtain g1 cdc1 where r: "on_theora_packet_received env g cdc (theora_head ident np 1 len @ chunk) = Some (None, g1, cdc1)" "t_holds g1 cdc1 chunk" "t_dec cdc1 = t_dec cdc"
      using receive_keep [of 1 "[]" g cdc np chunk env ident] np lc by auto
    have "len \<noteq> 0" "0 < length packet - len" "len + (length packet - len) = length packet" using True lc by (auto simp: len_def)
    from theora_deliver_later [OF this s(1) np r(2), of ident hints' 1 "sq + 1" env]
    obtain ws t imgs g' cdc' where ih: "theora_send_loop True ident np packet hints' pb 1 len (length packet - len) (sq + 1) = Some (ws, t)" "t_sent (sq + 1) ws t"
      "theora_receive_all env g1 cdc1 (map snd ws) = Some (imgs @ [fst (th_decode env (t_dec cdc) packet)], g', cdc')"
      "set imgs \<subseteq> {None}" "t_dec cdc' = snd (th_decode env (t_dec cdc) packet)" unfolding r(3) by (auto simp: chunk_def)
    show ?thesis unfolding send
      by (rule exI [of _ "(hints', theora_head ident np 1 len @ chunk) # ws"], rule exI [of _ t], rule exI [of _ "None # imgs"])
        (use ih r(1) s(2) lc(1,3) in \<open>auto simp: t_sent_def\<close>)
  qed
qed

text \<open>
  A packet of the Theora encoder, of any length, is cut into packets of the network that
  leave room for an RTP header, and a receiver that gets them in their order hands exactly that
  packet to the decoder, once, with the last of them; the image it yields is shown then, and only
  then. What the receiver held before, and where the shared write position stood, does not
  matter; the sequence number counts the packets.
\<close>

theorem theora_packet_delivered:
  assumes "packet \<noteq> []"
  shows "\<exists>ws s imgs g' cdc'. theora_send_fragmented_rtp junk True ident packet stmp sq = Some (ws, s)
    \<and> s = sq + of_nat (length ws) \<and> (\<forall>w \<in> set ws. length (snd w) \<le> PATH_MTU - 12)
    \<and> theora_receive_all env g cdc (map snd ws) = Some (imgs @ [fst (th_decode env (t_dec cdc) packet)], g', cdc')
    \<and> set imgs \<subseteq> {None} \<and> t_dec cdc' = snd (th_decode env (t_dec cdc) packet)"
  using theora_deliver_first [OF assms, of junk ident stmp sq env g cdc] unfolding t_sent_def by blast

definition theora_log :: "(unit, u8 list list, u8 list) theora_env" where
  "theora_log = \<lparr>th_encode = (\<lambda>e f. (Some f, e)), th_encode_flushheader = (\<lambda>e. (None, e)), th_header_init = (\<lambda>c. []),
     th_decode_headerin = (\<lambda>c n d. (1, c @ [take (nat n) d])), th_decode_alloc = (\<lambda>c. c), th_decode = (\<lambda>c f. (Some f, c @ [f])), tjunk = (\<lambda>_. 3)\<rparr>"

definition theora_g0 :: theora_globals where
  "theora_g0 = \<lparr>g_seqno = 0, g_stamp = 123123, header_cnt = 0, tot_header_cnt = 1000, g_curpos = 77\<rparr>"

definition theora_new :: "(unit, u8 list list) theora_ctx" where
  "theora_new = \<lparr>t_ident = 0x112233, t_type = TYPE_DECODER, t_enc = (), t_dec = [], t_header = None, t_header_len = 0, t_buffer = []\<rparr>"

theorem theora_packet_delivered_witness:
  "\<exists>ws s imgs g' cdc'. theora_send_fragmented_rtp (\<lambda>_. 1) True 0x112233 (replicate 3000 9) 0 5 = Some (ws, s)
     \<and> theora_receive_all theora_log theora_g0 theora_new (map snd ws) = Some (imgs @ [Some (replicate 3000 9)], g', cdc') \<and> t_dec cdc' = [replicate 3000 9]"
proof -
  have "replicate 3000 (9 :: u8) \<noteq> []" by (simp add: numeral_eq_Suc)
  from theora_packet_delivered [OF this, of "\<lambda>_. 1" "0x112233" 0 5 theora_log theora_g0 theora_new] show ?thesis
    by (simp add: theora_log_def theora_new_def) blast
qed

section \<open>The headers\<close>

lemma unat_htons: "unat (htons w) = unat w mod 256 * 256 + unat w div 256"
proof -
  have p: "unat (push_bit 8 w) = unat w mod 256 * 256"
    by (simp add: push_bit_eq_mult unat_word_ariths) (simp add: mult_mod_left [of _ 256 256, simplified])
  have "take_bit LENGTH(16) (unat w) = unat w" using unsigned_less [of w] by (intro take_bit_nat_eq_self) simp
  then have d: "unat (drop_bit 8 w) = unat w div 256" by (simp only: unsigned_drop_bit_eq drop_bit_eq_div [of _ "_ :: nat"]) simp
  have "htons w = push_bit 8 w + drop_bit 8 w"
    unfolding htons_def by (rule disjunctive_add [symmetric]) (auto simp: bit_simps dest: bit_imp_le_length)
  moreover have "unat (push_bit 8 w) + unat (drop_bit 8 w) < 2 ^ LENGTH(16)"
  proof -
    have "unat w < 65536" using unsigned_less [of w] by simp
    then have "unat w div 256 < 256" by simp
    then show ?thesis unfolding p d by simp
  qed
  ultimately show ?thesis using p d by (simp add: unat_word_ariths)
qed

lemma theora_header_bytes:
  assumes room: "9 + (length h1 + length h2 + length h3) \<le> length blk"
  shows "\<exists>b q. theora_build_header ident blk h1 h2 h3 = Some (b, 9 + (length h1 + length h2 + length h3)) \<and> length q = 4
    \<and> take (9 + (length h1 + length h2 + length h3)) b =
      q @ be16 (of_nat (length h1 + length h2 + length h3)) @ [2, of_nat (length h1), of_nat (length h2)] @ h1 @ h2 @ h3"
proof -
  let ?n1 = "length h1" and ?n2 = "length h2" and ?n3 = "length h3"
  define w where "w = push_bit 6 (0 AND 3) OR push_bit 4 (1 AND 7) OR (1 AND 7) OR push_bit 8 ident"
  define x y z where "x = take 4 blk" and "y = take 2 (drop 4 blk)" and "z = take 3 (drop 6 blk)"
  define a1 a2 a3 rest where "a1 = take ?n1 (drop 9 blk)" and "a2 = take ?n2 (drop (9 + ?n1) blk)"
    and "a3 = take ?n3 (drop (9 + ?n1 + ?n2) blk)" and "rest = drop (9 + ?n1 + ?n2 + ?n3) blk"
  note parts = x_def y_def z_def a1_def a2_def a3_def rest_def
  define r where "r = drop 9 blk"
  have len: "length x = 4" "length y = 2" "length z = 3" "length a1 = ?n1" "length a2 = ?n2" "length a3 = ?n3" using room by (simp_all add: parts)
  have blk: "blk = x @ y @ z @ r"
    using append_take_drop_id [of 4 blk] append_take_drop_id [of 2 "drop 4 blk"] append_take_drop_id [of 3 "drop 6 blk"] by (simp add: parts r_def)
  have cut: "drop k blk = take n (drop k blk) @ drop (k + n) blk" for k n by (metis append_take_drop_id drop_drop add.commute)
  have a: "r = a1 @ a2 @ a3 @ rest"
  proof -
    have "a3 @ rest = drop (9 + ?n1 + ?n2) blk" unfolding a3_def rest_def by (rule cut [symmetric])
    moreover have "a2 @ drop (9 + ?n1 + ?n2) blk = drop (9 + ?n1) blk" unfolding a2_def by (rule cut [symmetric])
    moreover have "a1 @ drop (9 + ?n1) blk = drop 9 blk" unfolding a1_def by (rule cut [symmetric])
    ultimately show ?thesis unfolding r_def by (simp only:)
  qed
  obtain z1 z2 z3 where z: "z = [z1, z2, z3]" using len(3) by (auto simp: length3_conv)
  have wr: "mem_write (p @ u @ s) off v = Some (p @ v @ s)" if "length p = off" "length u = length v" for p u s v :: "u8 list" and off
    using mem_write_middle that by blast
  let ?q = "be32 w"
  have s1: "write32 blk 0 (htonl w) = Some (4, ?q @ y @ z @ r)"
    unfolding write32_htonl using wr [of "[]" 0 x ?q "y @ z @ r"] len blk by simp
  have s2: "mem_write (?q @ y @ z @ r) 6 [2] = Some (?q @ y @ [2, z2, z3] @ r)"
    using wr [of "?q @ y" 6 "[z1]" "[2]" "[z2, z3] @ r"] len z by simp
  have s3: "mem_write (?q @ y @ [2, z2, z3] @ r) 7 [k] = Some (?q @ y @ [2, k, z3] @ r)" for k
    using wr [of "?q @ y @ [2]" 7 "[z2]" "[k]" "[z3] @ r"] len by simp
  have s4: "mem_write (?q @ y @ [2, k, z3] @ r) 9 h1 = Some (?q @ y @ [2, k, z3] @ h1 @ a2 @ a3 @ rest)" for k
    using wr [of "?q @ y @ [2, k, z3]" 9 a1 h1 "a2 @ a3 @ rest"] len a by simp
  have s5: "mem_write (?q @ y @ [2, k, z3] @ s) 8 [l] = Some (?q @ y @ [2, k, l] @ s)" for k l s
    using wr [of "?q @ y @ [2, k]" 8 "[z3]" "[l]" s] len by simp
  have s6: "mem_write (?q @ y @ [2, k, l] @ h1 @ a2 @ a3 @ rest) (9 + ?n1) h2 = Some (?q @ y @ [2, k, l] @ h1 @ h2 @ a3 @ rest)" for k l
    using wr [of "?q @ y @ [2, k, l] @ h1" "9 + ?n1" a2 h2 "a3 @ rest"] len a by simp
  have s7: "mem_write (?q @ y @ [2, k, l] @ h1 @ h2 @ a3 @ rest) (9 + ?n1 + ?n2) h3 = Some (?q @ y @ [2, k, l] @ h1 @ h2 @ h3 @ rest)" for k l
    using wr [of "?q @ y @ [2, k, l] @ h1 @ h2" "9 + ?n1 + ?n2" a3 h3 rest] len a by simp
  have s8: "write16 (?q @ y @ s) 4 (ucast (htons v)) = Some (6, ?q @ be16 v @ s)" for v s
    unfolding write16_htons using wr [of ?q 4 y "be16 v" s] len by simp
  let ?b = "?q @ be16 (of_nat (?n1 + ?n2 + ?n3)) @ [2, of_nat ?n1, of_nat ?n2] @ h1 @ h2 @ h3 @ rest"
  have "theora_build_header ident blk h1 h2 h3 = Some (?b, THEORA_HDR_SIZE + 3 + (?n1 + ?n2 + ?n3))"
    unfolding theora_build_header_def w_def [symmetric]
    by (simp only: s1 Option.bind.bind_lunit prod.case s2 s3 s4 s5 s6 s7 Let_def s8)
  moreover have "take (9 + (?n1 + ?n2 + ?n3)) ?b = ?q @ be16 (of_nat (?n1 + ?n2 + ?n3)) @ [2, of_nat ?n1, of_nat ?n2] @ h1 @ h2 @ h3" (is "_ = ?x")
  proof -
    have "?b = ?x @ rest" "length ?x = 9 + (?n1 + ?n2 + ?n3)" by simp_all
    then show ?thesis by (metis append_eq_conv_conj)
  qed
  ultimately show ?thesis by (intro exI [of _ ?b] exI [of _ ?q]) (simp add: THEORA_HDR_SIZE_def)
qed

text \<open>The calls of the decoder for three header packets, given by the length that is announced and the bytes at the pointer.\<close>

fun header_calls :: "('e, 'c, 'i) theora_env \<Rightarrow> 'c \<Rightarrow> (int \<times> u8 list) list \<Rightarrow> 'c" where
  "header_calls env c [] = c"
| "header_calls env c ((n, d) # xs) = header_calls env (snd (th_decode_headerin env c n d)) xs"

text \<open>
  The headers of a Theora stream: the receiver takes the first two header packets out as the
  sender put them in, but gives the third one a length in which the two bytes of the total length
  are exchanged. It is the right length exactly when both bytes are equal.
\<close>

theorem theora_third_header_length:
  assumes l: "length h1 < 256" "length h2 < 256" "length h1 + length h2 + length h3 < 65536"
    and room: "9 + (length h1 + length h2 + length h3) \<le> length blk"
    and accepts: "\<And>c n d. 0 < fst (th_decode_headerin env c n d)"
  defines "tot \<equiv> length h1 + length h2 + length h3"
  defines "third \<equiv> int (tot mod 256 * 256 + tot div 256) - int (length h2) - int (length h1)"
  shows "\<exists>b. theora_build_header ident blk h1 h2 h3 = Some (b, 9 + tot)
    \<and> theora_dispatch_header_packet env cdc (take (9 + tot) b) =
        Some (cdc\<lparr>t_dec := th_decode_alloc env (header_calls env (th_header_init env (t_dec cdc))
          [(int (length h1), h1 @ h2 @ h3), (int (length h2), h2 @ h3), (third, h3)])\<rparr>)
    \<and> (third = int (length h3) \<longleftrightarrow> tot mod 256 = tot div 256)"
proof -
  obtain b q where b: "theora_build_header ident blk h1 h2 h3 = Some (b, 9 + tot)" "length q = 4"
    "take (9 + tot) b = q @ be16 (of_nat tot) @ [2, of_nat (length h1), of_nat (length h2)] @ h1 @ h2 @ h3"
    using theora_header_bytes [OF room, of ident] unfolding tot_def by blast
  let ?d = "q @ be16 (of_nat tot) @ [2, of_nat (length h1), of_nat (length h2)] @ h1 @ h2 @ h3"
  obtain v where r32: "read32 ?d 0 = Some (v, 4)" using b(2) by (simp add: read32_def mem_read_def)
  have r16: "read16 ?d 4 = Some (ucast (of_nat tot :: u16), 6)" using read16_be16 [OF b(2)] by simp
  have r3: "mem_read ?d 6 3 = Some [2, of_nat (length h1), of_nat (length h2)]"
    using mem_read_middle [of "q @ be16 (of_nat tot)" 6 "[2, of_nat (length h1), of_nat (length h2)]" 3 "h1 @ h2 @ h3"] b(2) by simp
  have hd: "drop 9 ?d = h1 @ h2 @ h3" using b(2) by simp
  have u: "unat (of_nat (length h1) :: u8) = length h1" "unat (of_nat (length h2) :: u8) = length h2" "unat (of_nat tot :: u16) = tot"
    using l by (simp_all add: unat_of_nat unat_of_nat_u16 flip: tot_def)
  have "(ucast (ucast (of_nat tot :: u16) :: u32) :: u16) = of_nat tot" by (rule bit_word_eqI) (auto simp: bit_simps dest: bit_imp_le_length)
  then have swap: "unat (htons (ucast (ucast (of_nat tot :: u16) :: u32))) = tot mod 256 * 256 + tot div 256"
    by (simp only: unat_htons u)
  have acc: "(fst (th_decode_headerin env c n d) \<le> 0) = False" "(fst (th_decode_headerin env c n d) < 0) = False" for c n d
    using accepts [of c n d] by simp_all
  have "theora_dispatch_header_packet env cdc ?d =
        Some (cdc\<lparr>t_dec := th_decode_alloc env (header_calls env (th_header_init env (t_dec cdc))
          [(int (length h1), h1 @ h2 @ h3), (int (length h2), h2 @ h3), (third, h3)])\<rparr>)"
    unfolding theora_dispatch_header_packet_def third_def
    by (simp only: r32 Option.bind.bind_lunit prod.case r16 r3, simp add: b(2) swap u split_beta acc, simp only: Let_def)
  moreover have "third = int (length h3) \<longleftrightarrow> tot mod 256 = tot div 256"
  proof -
    have "third = int (length h3) \<longleftrightarrow> tot mod 256 * 256 + tot div 256 = tot" unfolding third_def tot_def by linarith
    also have "\<dots> \<longleftrightarrow> tot mod 256 = tot div 256"
    proof -
      have "tot = tot div 256 * 256 + tot mod 256" by simp
      then obtain a b where "tot div 256 = a" "tot mod 256 = b" "tot = a * 256 + b" by blast
      then show ?thesis by (simp only:) arith
    qed
    finally show ?thesis .
  qed
  ultimately show ?thesis using b(1,3) by auto
qed

theorem theora_third_header_length_witness:
  "\<exists>b. theora_build_header 5 (replicate 600 0) [1, 2] [3] (replicate 500 4) = Some (b, 512)
     \<and> theora_dispatch_header_packet theora_log theora_new (take 512 b) =
        Some (theora_new\<lparr>t_dec := [[1, 2], [3], take 63230 (replicate 500 4)]\<rparr>)"
proof -
  have l: "length [1, 2 :: u8] < 256" "length [3 :: u8] < 256" "length [1, 2 :: u8] + length [3 :: u8] + length (replicate 500 (4 :: u8)) < 65536"
    "9 + (length [1, 2 :: u8] + length [3 :: u8] + length (replicate 500 (4 :: u8))) \<le> length (replicate 600 (0 :: u8))" by simp_all
  have acc: "0 < fst (th_decode_headerin theora_log c n d)" for c n d by (simp add: theora_log_def)
  from theora_third_header_length [OF l acc, of 5 theora_new] show ?thesis
    by (simp add: theora_log_def theora_new_def)
qed

end
