(* ===== verification/Media_Channel.thy ===== *)
theory Media_Channel
  imports Media_Base
begin

text \<open>
  The contract between a stream of packets and the transport below it: a packet that is accepted
  becomes one datagram, and the datagram yields the packet again on the other side, in a block
  that holds at least so many bytes behind it. A receiver that does with such a block what another
  does with the packet alone, then ends as that one does when it gets the packets directly.
\<close>

fun put_all :: "(media_write \<Rightarrow> 's \<Rightarrow> ('d list \<times> 's) option) \<Rightarrow> media_write list \<Rightarrow> 's \<Rightarrow> ('d list \<times> 's) option" where
  "put_all put [] s = Some ([], s)"
| "put_all put (w # ws) s = do { (ds, s1) \<leftarrow> put w s; (es, s2) \<leftarrow> put_all put ws s1; Some (ds @ es, s2) }"

text \<open>A receiver takes the block and the length of a packet.\<close>

fun feed_all :: "('v \<Rightarrow> u8 list \<Rightarrow> int \<Rightarrow> 'v option) \<Rightarrow> (u8 list \<times> int) list \<Rightarrow> 'v \<Rightarrow> 'v option" where
  "feed_all recv [] v = Some v"
| "feed_all recv ((p, n) # ps) v = do { v1 \<leftarrow> recv v p n; feed_all recv ps v1 }"

fun get_all ::
  "('d \<Rightarrow> 't \<Rightarrow> ((u8 list \<times> int) list \<times> 't) option) \<Rightarrow> ('v \<Rightarrow> u8 list \<Rightarrow> int \<Rightarrow> 'v option) \<Rightarrow> 'd list \<Rightarrow> 't \<Rightarrow> 'v \<Rightarrow> ('t \<times> 'v) option" where
  "get_all got recv [] t v = Some (t, v)"
| "get_all got recv (d # ds) t v = do {
     (ps, t1) \<leftarrow> got d t;
     v1 \<leftarrow> feed_all recv ps v;
     get_all got recv ds t1 v1
   }"

definition whole_packet :: "u8 list \<Rightarrow> u8 list \<times> int" where
  "whole_packet p = (p, int (length p))"

text \<open>With \<open>room\<close> bytes behind a packet in its block, the receiver does what \<open>plain\<close> does with the packet.\<close>

definition reads_inside :: "nat \<Rightarrow> ('v \<Rightarrow> u8 list \<Rightarrow> int \<Rightarrow> 'v option) \<Rightarrow> ('v \<Rightarrow> u8 list \<Rightarrow> int \<Rightarrow> 'v option) \<Rightarrow> u8 list \<Rightarrow> bool" where
  "reads_inside room recv plain p \<longleftrightarrow>
     (\<forall>v x r. room \<le> length x \<longrightarrow> plain v p (int (length p)) = Some r \<longrightarrow> recv v (p @ x) (int (length p)) = Some r)"

locale packet_channel =
  fixes accepts :: "media_write \<Rightarrow> bool" and sends :: "'s \<Rightarrow> bool" and listens :: "'t \<Rightarrow> bool"
    and put :: "media_write \<Rightarrow> 's \<Rightarrow> ('d list \<times> 's) option"
    and room :: nat
    and got :: "'d \<Rightarrow> 't \<Rightarrow> ((u8 list \<times> int) list \<times> 't) option"
  assumes delivers: "accepts w \<Longrightarrow> sends s \<Longrightarrow> listens t \<Longrightarrow>
      \<exists>d t' x. room \<le> length x \<and> put w s = Some ([d], s) \<and> got d t = Some ([(snd w @ x, int (length (snd w)))], t') \<and> listens t'"
begin

lemma stream_delivered:
  assumes "\<forall>w \<in> set ws. accepts w \<and> reads_inside room recv plain (snd w)" "sends s" "listens t"
  shows "\<exists>ds t'. put_all put ws s = Some (ds, s) \<and> listens t'
     \<and> (\<forall>v r. feed_all plain (map (\<lambda>w. whole_packet (snd w)) ws) v = Some r \<longrightarrow> get_all got recv ds t v = Some (t', r))"
  using assms
proof (induction ws arbitrary: t)
  case (Cons w ws)
  then have ok: "accepts w" "reads_inside room recv plain (snd w)" by simp_all
  obtain d t1 x where x: "room \<le> length x" and d: "put w s = Some ([d], s)" "got d t = Some ([(snd w @ x, int (length (snd w)))], t1)" "listens t1"
    using delivers [OF ok(1) Cons.prems(2,3)] by blast
  have "\<forall>w \<in> set ws. accepts w \<and> reads_inside room recv plain (snd w)" using Cons.prems(1) by simp
  from Cons.IH [OF this Cons.prems(2) d(3)] obtain ds t' where ds: "put_all put ws s = Some (ds, s)" "listens t'"
    "\<And>v r. feed_all plain (map (\<lambda>w. whole_packet (snd w)) ws) v = Some r \<Longrightarrow> get_all got recv ds t1 v = Some (t', r)" by blast
  have "get_all got recv (d # ds) t v = Some (t', r)" if r: "feed_all plain (map (\<lambda>w. whole_packet (snd w)) (w # ws)) v = Some r" for v r
  proof -
    obtain v1 where "plain v (snd w) (int (length (snd w))) = Some v1" "feed_all plain (map (\<lambda>w. whole_packet (snd w)) ws) v1 = Some r"
      using r by (auto simp: whole_packet_def bind_eq_Some_conv)
    with ok(2) x show ?thesis by (simp add: d(2) ds(3) reads_inside_def)
  qed
  with d(1) ds(1,2) show ?case by (intro exI [of _ "d # ds"] exI [of _ t']) simp
qed simp

end

end
