(* ===== verification/Ice_Media.thy ===== *)
theory Ice_Media
  imports Ice_Handshake Media_Vp8_Claims Media_Theora_Claims Media_Channel
begin

text \<open>
  Media between two transports: what is written on one side reaches the application that the
  payload type names on the other, and a VP8 frame that is sent this way is decoded there. Also,
  what the tables of the transport can hold, and how a payload type can be routed to the wrong
  application.
\<close>

unbundle bit_operations_syntax

section \<open>The header\<close>

text \<open>The attributes of a packet that can be sent: the payload type fits, the other two are numbers or missing.\<close>

definition int_attr :: "attr_list \<Rightarrow> string \<Rightarrow> bool" where
  "int_attr at k \<longleftrightarrow> (\<forall>v. getattr (Some k) (Some at) = Some v \<longrightarrow> atoi v \<noteq> None)"

definition media_hints :: "nat \<Rightarrow> attr_list \<Rightarrow> bool" where
  "media_hints pt at \<longleftrightarrow> getattr (Some ''pt'') (Some at) = Some (sprintf_d (int pt)) \<and> getattr (Some ''type'') (Some at) = None
     \<and> int_attr at ''timestamp'' \<and> int_attr at ''seqno''"

lemma opt_put_ok:
  assumes "int_attr at k" "off + n \<le> length rtp" "\<And>v. length (enc v) = n"
  shows "\<exists>rtp'. opt_put rtp (Some at) k off enc = Some rtp' \<and> length rtp' = length rtp \<and> (\<forall>i < off. rtp' ! i = rtp ! i)"
proof (cases "getattr (Some k) (Some at)")
  case None
  then show ?thesis by (simp add: opt_put_def)
next
  case (Some v)
  then obtain x where "atoi v = Some x" using assms(1) by (auto simp: int_attr_def)
  with Some assms(2,3) show ?thesis by (auto simp: opt_put_def mem_write_def buf_put_def nth_append min_def)
qed

lemma rtp_header_ok:
  assumes h: "media_hints pt at" and pt: "pt < 128"
  shows "\<exists>rtp. rtp_header env ssrc (Some at) = Some rtp \<and> length rtp = 12 \<and> rtp ! 0 = 0x80 \<and> rtp ! 1 = of_nat pt"
proof -
  have a: "atoi (sprintf_d (int pt)) = Some (int pt)" using pt by (intro atoi_sprintf) simp_all
  have b: "(word_of_int (int pt) :: u8) AND 0x7F = of_nat pt"
  proof -
    have "take_bit 7 pt = pt" using pt by (intro take_bit_nat_eq_self) simp
    then have "(word_of_nat pt :: u8) AND mask 7 = word_of_nat pt" by (metis of_nat_take_bit take_bit_eq_mask)
    then show ?thesis by (simp add: mask_eq_exp_minus_1)
  qed
  obtain r0 where r0: "r0 = map (ijunk env) [0..<12]" "length r0 = 12" by simp
  let ?r1 = "buf_put r0 0 [push_bit 6 2, of_nat pt]"
  have r1: "mem_write r0 0 [push_bit 6 2, of_nat pt] = Some ?r1" "length ?r1 = 12" using r0 by (simp_all add: mem_write_def)
  have i: "int_attr at ''timestamp''" "int_attr at ''seqno''" using h by (simp_all add: media_hints_def)
  obtain r2 where r2: "opt_put ?r1 (Some at) ''timestamp'' 4 (\<lambda>n. le32 (htonl (word_of_int n))) = Some r2" "length r2 = 12" "\<forall>i < 4. r2 ! i = ?r1 ! i"
    using opt_put_ok [OF i(1), of 4 4 ?r1 "\<lambda>n. le32 (htonl (word_of_int n))"] r1(2) by auto
  let ?r3 = "buf_put r2 8 (le32 (htonl ssrc))"
  have r3: "mem_write r2 8 (le32 (htonl ssrc)) = Some ?r3" "length ?r3 = 12" "\<forall>i < 8. ?r3 ! i = r2 ! i"
    using r2(2) by (simp_all add: mem_write_def buf_put_def nth_append min_def)
  obtain r4 where r4: "opt_put ?r3 (Some at) ''seqno'' 2 (\<lambda>n. le16 (htons (word_of_int n))) = Some r4" "length r4 = 12" "\<forall>i < 2. r4 ! i = ?r3 ! i"
    using opt_put_ok [OF i(2), of 2 2 ?r3 "\<lambda>n. le16 (htons (word_of_int n))"] r3(2) by auto
  have "rtp_header env ssrc (Some at) = Some r4"
    using h r1 r2(1) r3(1) r4(1) by (simp add: rtp_header_def media_hints_def a b [simplified] r0(1))
  moreover have "r4 ! 0 = 0x80" "r4 ! 1 = of_nat pt" using r4(3) r3(3) r2(3) by (simp_all add: buf_put_def)
  ultimately show ?thesis using r4(2) by blast
qed

section \<open>From one transport to the other\<close>

definition can_send :: "ice_stream \<Rightarrow> sockaddr \<Rightarrow> bool" where
  "can_send s a \<longleftrightarrow> flag_set s \<and> (\<exists>i. c_pair_last_success s = Some i \<and> p_local (c_pairs s ! i) \<noteq> None \<and> cd_addr (cands s ! p_remote (c_pairs s ! i)) = a)"

lemma rtp_sent:
  assumes s: "can_send s a" and h: "media_hints pt at" "pt < 128"
  shows "\<exists>k rtp. icectl_try_write env buf (Some at) s = Some (send_result env (rtp @ buf), [Datagram k a (rtp @ buf)], s)
     \<and> length rtp = 12 \<and> rtp ! 0 = 0x80 \<and> rtp ! 1 = of_nat pt"
proof -
  obtain i l where i: "c_pair_last_success s = Some i" "p_local (c_pairs s ! i) = Some l" "cd_addr (cands s ! p_remote (c_pairs s ! i)) = a"
    and f: "ice_cr s AND ICE_FLAG_RTP_SUCCEEDED \<noteq> 0" using s by (auto simp: can_send_def flag_set_def)
  obtain rtp where r: "rtp_header env (cd_stream (cands s ! l)) (Some at) = Some rtp" "length rtp = 12" "rtp ! 0 = 0x80" "rtp ! 1 = of_nat pt"
    using rtp_header_ok [OF h] by blast
  have "getattr (Some ''type'') (Some at) = None" using h(1) by (simp add: media_hints_def)
  then show ?thesis using i f r by (simp add: icectl_try_write_def Let_def)
qed

lemma no_stun:
  assumes "2 \<le> length m" "bit (m ! 0) 7"
  shows "\<exists>w. get16 m 0 = Some w \<and> w \<noteq> htons STUN_REQ \<and> w \<noteq> htons STUN_RESP"
proof -
  let ?w = "ucast (m ! 0) OR push_bit 8 (ucast (m ! 1)) :: u16"
  have g: "get16 m 0 = Some ?w" using assms(1) by (simp add: get16_def mem_read_def)
  have b: "bit ?w 7" using assms(2) by (simp add: bit_simps)
  have n: "\<not> bit (htons STUN_REQ) 7" "\<not> bit (htons STUN_RESP) 7" by (simp_all add: stun_consts htons_def)
  show ?thesis by (rule exI [of _ ?w]) (use g b n in auto)
qed

definition routed :: "ice_stream \<Rightarrow> nat \<Rightarrow> addr \<Rightarrow> bool" where
  "routed t pt app \<longleftrightarrow> length (media_owner_cache t) = PAYLOAD_CACHE_SIZE \<and>
     (media_owner_cache t ! pt = Some app \<or> media_owner_cache t ! pt = None \<and> kid_named (media_in t) (sprintf_d (int pt)) = Some app)"

lemma rtp_received:
  assumes d: "length rtp = 12" "rtp ! 0 = 0x80" "rtp ! 1 = of_nat pt" and pt: "pt < PAYLOAD_CACHE_SIZE" and t: "routed t pt app"
  defines "hints \<equiv> set_hint ''id'' (sprintf_d (int pt)) []"
  shows "\<exists>first. on_packet_in env frm flags (rtp @ rest) n t =
      Some (first @ [MediaWrite app rest (n - 12) hints, WriteOut rest (n - 12) hints], t\<lparr>media_owner_cache := (media_owner_cache t)[pt := Some app]\<rparr>)
     \<and> (first = [] \<or> first = [RefGet app])"
proof -
  have p: "pt < 127" using pt by (simp add: PAYLOAD_CACHE_SIZE_def)
  obtain w where w: "get16 (rtp @ rest) 0 = Some w" "w \<noteq> htons STUN_REQ" "w \<noteq> htons STUN_RESP"
    using no_stun [of "rtp @ rest"] d by (auto simp: nth_append)
  have m0: "mem_read (rtp @ rest) 0 1 = Some [0x80]" and m1: "mem_read (rtp @ rest) 1 1 = Some [of_nat pt]"
    using d by (cases rtp; cases "tl rtp"; simp add: mem_read_def)+
  have u: "unat ((of_nat pt :: u8) AND 0x7F) = pt"
  proof -
    have "take_bit 7 pt = pt" using p by (intro take_bit_nat_eq_self) simp
    then have "(of_nat pt :: u8) AND mask 7 = of_nat pt" by (metis of_nat_take_bit take_bit_eq_mask)
    moreover have "unat (of_nat pt :: u8) = pt" using p by (simp add: unat_of_nat take_bit_nat_eq_self)
    ultimately show ?thesis by (simp add: mask_eq_exp_minus_1)
  qed
  have c: "mem_read (media_owner_cache t) pt 1 = Some [media_owner_cache t ! pt]"
    using t p Cons_nth_drop_Suc [of pt "media_owner_cache t"] by (simp add: routed_def PAYLOAD_CACHE_SIZE_def mem_read_def flip: Cons_nth_drop_Suc)
  have same: "t\<lparr>media_owner_cache := (media_owner_cache t)[pt := Some app]\<rparr> = t" if "media_owner_cache t ! pt = Some app"
    using that list_update_id [of "media_owner_cache t" pt] by simp
  have "drop 12 (rtp @ rest) = rest" using d(1) by simp
  then have "on_packet_in env frm flags (rtp @ rest) n t = route_rtp_packet_in (rtp @ rest) n t"
    using w m0 flags_rtp [of flags] by (simp add: on_packet_in_def)
  moreover have "\<exists>first. route_rtp_packet_in (rtp @ rest) n t =
      Some (first @ [MediaWrite app rest (n - 12) hints, WriteOut rest (n - 12) hints], t\<lparr>media_owner_cache := (media_owner_cache t)[pt := Some app]\<rparr>)
     \<and> (first = [] \<or> first = [RefGet app])"
    using t d(1) p by (auto simp: route_rtp_packet_in_def m1 [simplified] u [simplified] c [simplified] routed_def hints_def same PAYLOAD_CACHE_SIZE_def Let_def)
  ultimately show ?thesis by simp
qed

text \<open>
  C11. Media written on one side reaches the application on the other. A transport that is ready,
  and that remembers a pair with a local candidate, makes one datagram of a packet and its
  attributes, a header of twelve bytes and the packet. The attributes name a payload type below
  127 and no type of socket; a time stamp and a number are missing or can be read as numbers. The
  other transport, which has an application for the payload type, when the datagram comes out of
  its block with whatever bytes behind it, hands exactly that packet to that application, and
  remembers it.
\<close>

theorem ice_rtp_delivered:
  assumes "can_send s a" "media_hints pt at" "pt < PAYLOAD_CACHE_SIZE" "routed t pt app"
  shows "\<exists>k d. icectl_try_write es buf (Some at) s = Some (send_result es d, [Datagram k a d], s) \<and> length d = 12 + length buf
     \<and> (\<forall>er frm flags post. \<exists>first payload hints. on_packet_in er frm flags (d @ post) (int (length d)) t =
           Some (first @ [MediaWrite app payload (int (length buf)) hints, WriteOut payload (int (length buf)) hints],
                 t\<lparr>media_owner_cache := (media_owner_cache t)[pt := Some app]\<rparr>)
         \<and> take (length buf) payload = buf \<and> (first = [] \<or> first = [RefGet app]))"
proof -
  have "pt < 128" using assms(3) by (simp add: PAYLOAD_CACHE_SIZE_def)
  from rtp_sent [OF assms(1,2) this] obtain k rtp where r: "icectl_try_write es buf (Some at) s = Some (send_result es (rtp @ buf), [Datagram k a (rtp @ buf)], s)"
    "length rtp = 12" "rtp ! 0 = 0x80" "rtp ! 1 = of_nat pt" by blast
  have "\<exists>first payload hints. on_packet_in er frm flags ((rtp @ buf) @ post) (int (length (rtp @ buf))) t =
           Some (first @ [MediaWrite app payload (int (length buf)) hints, WriteOut payload (int (length buf)) hints],
                 t\<lparr>media_owner_cache := (media_owner_cache t)[pt := Some app]\<rparr>)
         \<and> take (length buf) payload = buf \<and> (first = [] \<or> first = [RefGet app])" for er frm flags post
    using rtp_received [OF r(2-4) assms(3,4), of er frm flags "buf @ post" "int (length (rtp @ buf))"] r(2) by auto
  with r(1,2) show ?thesis by (intro exI [of _ k] exI [of _ "rtp @ buf"]) simp
qed

text \<open>
  C12. Who gets the media of a transport. In every state that a transport can reach, a packet that
  looks like media is given to an application exactly when one was offered whose name begins the
  decimal payload type, and then to one that was offered under such a name, with all but the first
  twelve bytes; this is so on the socket for control packets too. A packet of payload type 127 is
  looked up behind the table, whatever the state: anyone can make the program read there.
\<close>

theorem ice_media_routing:
  assumes run: "ice_run env tr s" and buf: "2 \<le> length buf" "bit (buf ! 0) 7"
  shows "(on_packet_in env frm flags buf n s = None \<longleftrightarrow> unat (buf ! 1 AND 0x7F) = 127)
    \<and> (\<forall>outs s'. on_packet_in env frm flags buf n s = Some (outs, s') \<longrightarrow>
         ((\<exists>a k m h. MediaWrite a k m h \<in> set outs) \<longleftrightarrow> (\<exists>x \<in> set (media_in s). EQN (fst x) (sprintf_d (int (unat (buf ! 1 AND 0x7F))))))
       \<and> (\<forall>a k m h. MediaWrite a k m h \<in> set outs \<longrightarrow> k = drop 12 buf \<and> m = n - 12
            \<and> (\<exists>nm. (nm, a) \<in> set (media_in s) \<and> EQN nm (sprintf_d (int (unat (buf ! 1 AND 0x7F)))))))"
proof -
  have c: "cache_ok s" using run_inv [OF run] by (simp add: ice_inv_def)
  obtain w where w: "get16 buf 0 = Some w" "w \<noteq> htons STUN_REQ" "w \<noteq> htons STUN_RESP" using no_stun [OF buf] by blast
  have b: "mem_read buf 0 1 = Some [buf ! 0]" "buf ! 0 \<noteq> 0" using buf by (cases buf; auto simp: mem_read_def)+
  have p: "on_packet_in env frm flags buf n s = route_rtp_packet_in buf n s"
    using w b flags_rtp [of flags] by (simp add: on_packet_in_def)
  define pt where "pt = unat (buf ! 1 AND 0x7F)"
  let ?hit = "\<exists>x \<in> set (media_in s). EQN (fst x) (sprintf_d (int pt))"
  from route_cases [OF c buf(1), of n, folded pt_def] show ?thesis
  proof (elim disjE exE conjE)
    fix a nm h first
    assume r: "pt < 127" "(nm, a) \<in> set (media_in s)" "EQN nm (sprintf_d (int pt))"
      and e: "route_rtp_packet_in buf n s = Some (first @ [MediaWrite a (drop 12 buf) (n - 12) h, WriteOut (drop 12 buf) (n - 12) h],
         s\<lparr>media_owner_cache := (media_owner_cache s)[pt := Some a]\<rparr>)"
    have hit: ?hit using r(2,3) by force
    { assume "first = []" with r hit e show ?thesis unfolding p pt_def [symmetric] by auto }
    { assume "first = [RefGet a]" with r hit e show ?thesis unfolding p pt_def [symmetric] by auto }
  qed (unfold p pt_def [symmetric], auto)
qed

section \<open>A VP8 frame\<close>

lemma getattr_empty: "getattr (Some k) (Some []) = None"
  by (simp add: getattr_def)

definition video_hints :: "attr_list \<Rightarrow> bool" where
  "video_hints at \<longleftrightarrow> getattr (Some ''pt'') (Some at) = Some ''98'' \<and> getattr (Some ''type'') (Some at) = None \<and> int_attr at ''timestamp''"

lemma nine_eight: "sprintf_d (int 98) = ''98''"
proof -
  have "(of_char (CHR ''9'') :: nat) = 57" "(of_char (CHR ''8'') :: nat) = 56" by simp_all
  then have "CHR ''9'' = digit_char 9" "CHR ''8'' = digit_char 8"
    using char_of_char [of "CHR ''9''", where 'a = nat] char_of_char [of "CHR ''8''", where 'a = nat] by (simp_all only: digit_char_def) simp_all
  moreover have "dec_string 98 = dec_string 9 @ [digit_char 8]" by (subst dec_string.simps) simp
  ultimately show ?thesis by (simp add: sprintf_d_def dec_one)
qed

lemma low_int_range: "- (2 ^ 31) \<le> low_int i" "low_int i < 2 ^ 31"
  using sint_greater_eq [of "word_of_int i :: u32"] sint_less [of "word_of_int i :: u32"] by (simp_all add: low_int_def)

lemma video_hints_start: "video_hints (set_hint ''timestamp'' (sprintf_d (low_int i)) (set_hint ''pt'' ''98'' []))"
  using atoi_sprintf [OF low_int_range, of i] by (simp add: video_hints_def int_attr_def hint_get getattr_empty)

lemma video_hints_seqno:
  assumes "video_hints at" "- (2 ^ 31) \<le> sq" "sq < 2 ^ 31"
  shows "video_hints (set_hint ''seqno'' (sprintf_d sq) at)" "media_hints 98 (set_hint ''seqno'' (sprintf_d sq) at)"
  using assms atoi_sprintf [of sq] nine_eight by (simp_all add: video_hints_def media_hints_def int_attr_def hint_get)

lemma frag_offset:
  assumes "vp8_frag_header pb off el bo = Some (off1, pb1)" "off < MTU"
  shows "off1 < MTU"
proof -
  have later: "k = 1" if "pack_vp8_descriptor \<lparr>non_reference_frame = 0, fragmentation_info = info, frame_beginning = 0, picture_id = NO_PICTURE_ID\<rparr> pb (int MTU) = Some (k, x)" for k x info
    using that by (auto simp: pack_vp8_descriptor_def MTU_def bind_eq_Some_conv)
  have "1 < MTU" by (simp add: MTU_def)
  with assms show ?thesis by (auto simp: vp8_frag_header_def Let_def bind_eq_Some_conv split: if_splits dest: later)
qed

lemma bind_SomeE:
  assumes "Option.bind m f = Some r" obtains x where "m = Some x" "f x = Some r"
  using assms by (cases m) auto

lemma send_loop_hints:
  assumes "vp8_send_loop handler frame hints pb off el bo cnt sq = Some r" "video_hints hints" "- (2 ^ 31) \<le> sq" "off < MTU"
  shows "\<forall>w \<in> set (fst r). media_hints 98 (fst w)"
  using assms
proof (induction cnt arbitrary: hints pb off el bo sq r rule: less_induct)
  case (less cnt)
  let ?h = "set_hint ''seqno'' (sprintf_d sq) hints"
  obtain off1 pb1 where f: "vp8_frag_header pb off el bo = Some (off1, pb1)"
    using less.prems(1) unfolding vp8_send_loop.simps [of handler frame hints] by (elim bind_SomeE) auto
  obtain pb2 sq1 packet where x: "int_inc sq = Some sq1"
    and y: "(if cnt - (MTU - off1) = 0 then Some (if handler then [(?h, packet)] else [], off1 + (cnt - (cnt - (MTU - off1))), sq1)
         else Option.bind (vp8_send_loop handler frame ?h pb2 off1 (cnt - (MTU - off1) - (MTU - off1)) (bo + (cnt - (cnt - (MTU - off1)))) (cnt - (MTU - off1)) sq1)
           (\<lambda>(ws, l, s). Some ((if handler then [(?h, packet)] else []) @ ws, l, s))) = Some r"
    using less.prems(1) unfolding vp8_send_loop.simps [of handler frame hints] f Option.bind.bind_lunit prod.case Let_def
    by (elim bind_SomeE) (rule that)
  have off: "off1 < MTU" by (rule frag_offset [OF f less.prems(4)])
  have sq: "sq1 = sq + 1" "sq < 2 ^ 31" using x by (auto simp: int_inc_def split: if_splits)
  note h = video_hints_seqno [OF less.prems(2,3) sq(2)]
  show ?case
  proof (cases "cnt - (MTU - off1) = 0")
    case True
    then show ?thesis using y h(2) by (auto split: if_splits)
  next
    case False
    with y obtain r1 where r1: "vp8_send_loop handler frame ?h pb2 off1 (cnt - (MTU - off1) - (MTU - off1)) (bo + (cnt - (cnt - (MTU - off1)))) (cnt - (MTU - off1)) sq1 = Some r1"
      "fst r = (if handler then [(?h, packet)] else []) @ fst r1"
      by (auto simp: bind_eq_Some_conv split: prod.splits)
    have "cnt - (MTU - off1) < cnt" using False off by simp
    from less.IH [OF this r1(1) h(1) _ off] less.prems(3) sq(1) h(2) r1(2) show ?thesis by auto
  qed
qed

lemma vp8_rtp_send_hints:
  assumes "x_vp8_rtp_send junk handler thiz frame = Some (ws, l, thiz')" "- (2 ^ 31) \<le> seqno thiz"
  shows "\<forall>w \<in> set ws. media_hints 98 (fst w)"
proof -
  let ?pid = "(word_of_int (seqno thiz) :: u32) AND (push_bit 7 1 - 1)"
  let ?d = "\<lparr>non_reference_frame = 0, fragmentation_info = NOT_FRAGMENTED, frame_beginning = 1, picture_id = ?pid\<rparr>"
  let ?hints = "set_hint ''timestamp'' (sprintf_d (low_int (stamp thiz))) (set_hint ''pt'' ''98'' [])"
  from assms(1) obtain off pb where pk: "pack_vp8_descriptor ?d (map junk [0..<MTU]) (int MTU) = Some (off, pb)"
    and snd: "\<exists>s. vp8_send_loop handler frame ?hints pb off (length frame - (MTU - off)) 0 (length frame) (seqno thiz) = Some (ws, l, s)"
    by (auto simp: x_vp8_rtp_send_def Let_def bind_eq_Some_conv)
  have "off = length (first_byte ?d # (if ?pid = NO_PICTURE_ID then [] else id_bytes ?pid))"
    using pk pack_bytes [of "map junk [0..<MTU]" ?d] by (simp add: Let_def MTU_def)
  then have off: "off < MTU" using length_id_bytes_5 [of ?pid] by (simp add: MTU_def split: if_splits)
  from snd obtain s where "vp8_send_loop handler frame ?hints pb off (length frame - (MTU - off)) 0 (length frame) (seqno thiz) = Some (ws, l, s)" by blast
  from send_loop_hints [OF this video_hints_start assms(2) off] show ?thesis by simp
qed

section \<open>The transport as a channel for packets\<close>

text \<open>What goes over the network, and what the other transport hands to the application \<open>app\<close>.\<close>

fun datagrams :: "ice_out list \<Rightarrow> u8 list list" where
  "datagrams [] = []"
| "datagrams (Datagram _ _ d # os) = d # datagrams os"
| "datagrams (_ # os) = datagrams os"

fun media_for :: "addr \<Rightarrow> ice_out list \<Rightarrow> (u8 list \<times> int) list" where
  "media_for app [] = []"
| "media_for app (MediaWrite a payload n h # os) = (if a = app then (payload, n) # media_for app os else media_for app os)"
| "media_for app (_ # os) = media_for app os"

definition ice_put :: "ice_env \<Rightarrow> media_write \<Rightarrow> ice_stream \<Rightarrow> (u8 list list \<times> ice_stream) option" where
  "ice_put env w s = do { (r, outs, s1) \<leftarrow> icectl_try_write env (snd w) (Some (fst w)) s; Some (datagrams outs, s1) }"

definition ice_get ::
  "ice_env \<Rightarrow> (nat \<Rightarrow> u8) \<Rightarrow> sockaddr_in \<Rightarrow> addr \<Rightarrow> u8 list \<Rightarrow> ice_stream \<Rightarrow> ((u8 list \<times> int) list \<times> ice_stream) option" where
  "ice_get env junk frm app d t = do { (outs, t1) \<leftarrow> icectl_recvmsg env junk (sockv4 t) (Some (frm, d)) t; Some (media_for app outs, t1) }"

definition ice_accepts :: "nat \<Rightarrow> media_write \<Rightarrow> bool" where
  "ice_accepts pt w \<longleftrightarrow> pt < PAYLOAD_CACHE_SIZE \<and> media_hints pt (fst w) \<and> length (snd w) \<le> MTU"

lemma routed_keep:
  assumes "routed t pt app" "pt < PAYLOAD_CACHE_SIZE"
  shows "routed (t\<lparr>media_owner_cache := (media_owner_cache t)[pt := Some app]\<rparr>) pt app"
  using assms by (simp add: routed_def)

lemma packet_over_ice:
  assumes w: "ice_accepts pt w" and s: "can_send s a" and t: "routed t pt app"
  shows "\<exists>d t' x. 2036 - MTU \<le> length x \<and> ice_put es w s = Some ([d], s) \<and> ice_get er junk frm app d t = Some ([(snd w @ x, int (length (snd w)))], t') \<and> routed t' pt app"
proof -
  from w have pt: "pt < PAYLOAD_CACHE_SIZE" "media_hints pt (fst w)" "length (snd w) \<le> MTU" by (simp_all add: ice_accepts_def)
  then have "pt < 128" by (simp add: PAYLOAD_CACHE_SIZE_def)
  from rtp_sent [OF s pt(2) this] obtain k rtp where r: "icectl_try_write es (snd w) (Some (fst w)) s = Some (send_result es (rtp @ snd w), [Datagram k a (rtp @ snd w)], s)"
    "length rtp = 12" "rtp ! 0 = 0x80" "rtp ! 1 = of_nat pt" by blast
  have len: "length (rtp @ snd w) \<le> 2048" using r(2) pt(3) by (simp add: MTU_def)
  obtain x where x: "mem_resize junk (rtp @ snd w) 2048 = rtp @ (snd w @ x)" "2036 - MTU \<le> length x" using len r(2) pt(3) by (simp add: mem_resize_def)
  let ?t = "t\<lparr>media_owner_cache := (media_owner_cache t)[pt := Some app]\<rparr>" and ?hints = "set_hint ''id'' (sprintf_d (int pt)) []"
  obtain first where f: "icectl_recvmsg er junk (sockv4 t) (Some (frm, rtp @ snd w)) t =
      Some (first @ [MediaWrite app (snd w @ x) (int (length (snd w))) ?hints, WriteOut (snd w @ x) (int (length (snd w))) ?hints], ?t)" "first = [] \<or> first = [RefGet app]"
    using rtp_received [OF r(2-4) pt(1) t, of er frm "word_of_int (sockv4 t) AND 1" "snd w @ x" "int (length (rtp @ snd w))"] len r(2)
    by (auto simp: icectl_recvmsg_def x(1))
  have "ice_put es w s = Some ([rtp @ snd w], s)" using r(1) by (simp add: ice_put_def)
  moreover have "ice_get er junk frm app (rtp @ snd w) t = Some ([(snd w @ x, int (length (snd w)))], ?t)" using f by (auto simp: ice_get_def)
  ultimately show ?thesis using routed_keep [OF t pt(1)] x(2) by blast
qed

interpretation ice: packet_channel "ice_accepts pt" "\<lambda>s. can_send s a" "\<lambda>t. routed t pt app" "ice_put es" "2036 - MTU" "ice_get er junk frm app"
  for pt a app es er junk frm
  by unfold_locales (rule packet_over_ice)

section \<open>A VP8 frame over the network\<close>

definition vpx_recv :: "('c, 'i) vpx_env \<Rightarrow> 'c vpx_object \<Rightarrow> u8 list \<Rightarrow> int \<Rightarrow> 'c vpx_object option" where
  "vpx_recv venv v p n = on_vpx_packet_received venv v (Some p) n"

definition vpx_plain :: "('c, 'i) vpx_env \<Rightarrow> 'c vpx_object \<Rightarrow> u8 list \<Rightarrow> int \<Rightarrow> 'c vpx_object option" where
  "vpx_plain venv v p n = vpx_quiet venv v (Some p) n"

lemma vpx_recv_inside: "reads_inside (2036 - MTU) (vpx_recv venv) (vpx_plain venv) p"
  by (auto simp: reads_inside_def vpx_recv_def vpx_plain_def receive_quiet MTU_def)

lemma feed_vpx_all: "feed_all (vpx_plain venv) (map (\<lambda>w. whole_packet (snd w)) ws) v = vpx_quiet_all venv v (map snd ws)"
proof (induction ws arbitrary: v)
  case (Cons w ws)
  then show ?case
    by (cases "vpx_quiet venv v (Some (snd w)) (int (length (snd w)))") (simp_all add: vpx_plain_def whole_packet_def)
qed simp

text \<open>
  C7. A VP8 frame over the network. A frame of at least one byte is cut into packets; every packet,
  with its attributes, is written to a transport that is ready, with a local candidate in the pair
  it uses, and becomes a datagram; the other transport, where an application waits for the payload
  type 98, receives the datagrams in their order, each into a block of 2048 bytes with arbitrary
  bytes behind it, and routes them to the receiver of the stream. If the decoder there has been set
  up, it is called exactly once, with exactly the frame, and otherwise not at all. The receiver must
  still take packets, its count of life not below -100. The number of the first packet must be one
  that is not negative, no multiple of 128, and that stays a signed number of 32 bits when the length of the frame
  is added; and a frame of 2597 bytes is never decoded.
\<close>

theorem vp8_over_ice:
  assumes f: "frame \<noteq> []" and sq: "0 \<le> seqno thiz" "seqno thiz + int (length frame) < 2 ^ 31" "seqno thiz mod 128 \<noteq> 0"
    and io: "- 100 \<le> io_life_count v" and s: "can_send s a" and t: "routed t 98 app"
  shows "\<exists>ws l thiz' ds t' v'. x_vp8_rtp_send sjunk True thiz frame = Some (ws, l, thiz') \<and> put_all (ice_put es) ws s = Some (ds, s)
     \<and> get_all (ice_get er junk frm app) (vpx_recv venv) ds t v = Some (t', v')
     \<and> vpx_codec v' = (if initialized v \<and> length frame \<noteq> 2 * MTU - 3 then snd (decode venv (vpx_codec v) frame) else vpx_codec v)"
proof -
  have room: "12 < length (replicate 13 (0 :: u8))" by simp
  obtain ws l thiz' where w: "x_vp8_rtp_send sjunk True thiz frame = Some (ws, l, thiz')" "\<forall>w \<in> set ws. length (snd w) \<le> MTU"
    "map_option vpx_codec (vpx_quiet_all venv v (map snd ws)) =
        Some (if initialized v \<and> length frame \<noteq> 2 * MTU - 3 then snd (decode venv (vpx_codec v) frame) else vpx_codec v)"
    using vp8_frame_delivered [OF f sq io room, of sjunk venv] unfolding receive_in_blocks [OF room] by blast
  then obtain v' where v': "vpx_quiet_all venv v (map snd ws) = Some v'"
    "vpx_codec v' = (if initialized v \<and> length frame \<noteq> 2 * MTU - 3 then snd (decode venv (vpx_codec v) frame) else vpx_codec v)" by auto
  have "\<forall>w \<in> set ws. media_hints 98 (fst w)" by (rule vp8_rtp_send_hints [OF w(1)]) (use sq(1) in simp)
  with w(2) have ok: "\<forall>w \<in> set ws. ice_accepts 98 w \<and> reads_inside (2036 - MTU) (vpx_recv venv) (vpx_plain venv) (snd w)"
    by (simp add: ice_accepts_def PAYLOAD_CACHE_SIZE_def vpx_recv_inside)
  from ice.stream_delivered [OF ok s t, of es er junk frm] w(1) v' show ?thesis unfolding feed_vpx_all by blast
qed

section \<open>A Theora packet over the network\<close>

definition theora_recv ::
  "('e, 'c, 'i) theora_env \<Rightarrow> 'i option list \<times> theora_globals \<times> ('e, 'c) theora_ctx \<Rightarrow> u8 list \<Rightarrow> int \<Rightarrow> ('i option list \<times> theora_globals \<times> ('e, 'c) theora_ctx) option" where
  "theora_recv env v p n = (case v of (is, g, cdc) \<Rightarrow> map_option (\<lambda>(i, g1, cdc1). (is @ [i], g1, cdc1)) (on_theora_packet_received env g cdc p))"

definition frame_packet :: "u8 list \<Rightarrow> bool" where
  "frame_packet p \<longleftrightarrow> (\<exists>ident np m c. p = theora_head ident np m (length c) @ c \<and> m \<in> {0, 1, 2, 3} \<and> np \<in> {0, 1})"

lemma mem_read_more: "mem_read p off n = Some r \<Longrightarrow> mem_read (p @ x) off n = Some r"
  by (auto simp: mem_read_def split: if_splits)

lemma theora_append_more: "theora_append env cdc p cp n = Some r \<Longrightarrow> theora_append env cdc (p @ x) cp n = Some r"
  by (auto simp: theora_append_def Let_def bind_eq_Some_conv dest: mem_read_more [of _ _ _ _ x])

lemma theora_frame_more:
  "theora_dispatch_frame_packet env g cdc p mark = Some r \<Longrightarrow> theora_dispatch_frame_packet env g cdc (p @ x) mark = Some r"
proof -
  assume r: "theora_dispatch_frame_packet env g cdc p mark = Some r"
  then obtain bs where bs: "mem_read p 4 2 = Some bs" by (auto simp: theora_dispatch_frame_packet_def read16_def bind_eq_Some_conv)
  let ?v = "push_bit 8 (ucast (bs ! 0)) OR ucast (bs ! 1) :: u32"
    and ?c = "if mark = 1 then cdc\<lparr>t_buffer := replicate (length (t_buffer cdc)) 0\<rparr> else cdc" and ?p = "if mark = 1 \<or> mark = 0 then 0 else g_curpos g"
  obtain y where y: "theora_append env ?c p ?p (unat ?v) = Some y"
    using r unfolding theora_dispatch_frame_packet_def read16_def Let_def bs Option.bind.bind_lunit prod.case by (elim bind_SomeE) (rule that)
  show ?thesis
    using r unfolding theora_dispatch_frame_packet_def read16_def Let_def bs mem_read_more [OF bs] Option.bind.bind_lunit prod.case y theora_append_more [OF y] .
qed

lemma theora_recv_inside:
  assumes "frame_packet p"
  shows "reads_inside room (theora_recv env) (theora_recv env) p"
proof -
  obtain ident np m c where p: "p = theora_head ident np m (length c) @ c" "m \<in> {0, 1, 2, 3}" "np \<in> {0, 1}"
    using assms unfolding frame_packet_def by blast
  have a: "on_theora_packet_received env g cdc (p @ x) = theora_dispatch_frame_packet env g cdc (p @ x) (of_nat m)" for g cdc x
    unfolding p(1) append_assoc by (rule receive_dispatch [OF p(2,3)])
  have "on_theora_packet_received env g cdc p = Some r \<Longrightarrow> on_theora_packet_received env g cdc (p @ x) = Some r" for g cdc x r
    using a [of g cdc "[]"] a [of g cdc x] theora_frame_more [of env g cdc p "of_nat m" r x] by simp
  then show ?thesis by (auto simp: reads_inside_def theora_recv_def)
qed

lemma theora_recv_step:
  "theora_recv env (is, g, cdc) p n = map_option (\<lambda>(i, g1, cdc1). (is @ [i], g1, cdc1)) (on_theora_packet_received env g cdc p)"
  by (simp add: theora_recv_def)

lemma feed_theora_all:
  "feed_all (theora_recv env) (map (\<lambda>w. whole_packet (snd w)) ws) (is, g, cdc) =
     map_option (\<lambda>(js, g', cdc'). (is @ js, g', cdc')) (theora_receive_all env g cdc (map snd ws))"
proof (induction ws arbitrary: "is" g cdc)
  case (Cons w ws)
  show ?case
  proof (cases "on_theora_packet_received env g cdc (snd w)")
    case (Some r)
    obtain i g1 c1 where r: "r = (i, g1, c1)" by (cases r)
    show ?thesis by (cases "theora_receive_all env g1 c1 (map snd ws)") (auto simp: theora_recv_step whole_packet_def Some r Cons.IH [unfolded whole_packet_def])
  qed (simp add: theora_recv_step whole_packet_def)
qed simp

text \<open>The attributes of the packets, whose numbers have to stay readable.\<close>

definition theora_hints :: "attr_list \<Rightarrow> bool" where
  "theora_hints at \<longleftrightarrow> getattr (Some ''pt'') (Some at) = Some ''96'' \<and> getattr (Some ''type'') (Some at) = None \<and> int_attr at ''timestamp''"

lemma nine_six: "sprintf_d (int 96) = ''96''"
proof -
  have "(of_char (CHR ''9'') :: nat) = 57" "(of_char (CHR ''6'') :: nat) = 54" by simp_all
  then have "CHR ''9'' = digit_char 9" "CHR ''6'' = digit_char 6"
    using char_of_char [of "CHR ''9''", where 'a = nat] char_of_char [of "CHR ''6''", where 'a = nat] by (simp_all only: digit_char_def) simp_all
  moreover have "dec_string 96 = dec_string 9 @ [digit_char 6]" by (subst dec_string.simps) simp
  ultimately show ?thesis by (simp add: sprintf_d_def dec_one)
qed

lemma theora_hints_start: "theora_hints (set_hint ''timestamp'' (sprintf_d (low_int i)) (set_hint ''pt'' ''96'' []))"
  using atoi_sprintf [OF low_int_range, of i] by (simp add: theora_hints_def int_attr_def hint_get getattr_empty)

lemma theora_hints_seqno:
  assumes "theora_hints at" "n < 2 ^ 31"
  shows "theora_hints (set_hint ''seqno'' (dec_string n) at)" "media_hints 96 (set_hint ''seqno'' (dec_string n) at)"
proof -
  have "atoi (sprintf_d (int n)) = Some (int n)" using assms(2) by (intro atoi_sprintf) auto
  then have "atoi (dec_string n) = Some (int n)" by (simp add: sprintf_d_def)
  then show "theora_hints (set_hint ''seqno'' (dec_string n) at)" "media_hints 96 (set_hint ''seqno'' (dec_string n) at)"
    using assms(1) nine_six by (simp_all add: theora_hints_def media_hints_def int_attr_def hint_get)
qed

lemma theora_loop_packets:
  assumes "theora_send_loop True ident np packet hints packbuf mark snt elapsed sq = Some (ws, s)" "theora_hints hints"
    "unat sq + elapsed < 2 ^ 31" "snt + elapsed \<le> length packet" "length packbuf = PATH_MTU" "np \<in> {0, 1}" "mark \<in> {0, 1, 2, 3}"
  shows "\<forall>w \<in> set ws. media_hints 96 (fst w) \<and> frame_packet (snd w)"
  using assms
proof (induction elapsed arbitrary: hints packbuf mark snt sq ws rule: less_induct)
  case (less elapsed)
  show ?case
  proof (cases "elapsed = 0")
    case True
    then show ?thesis using less.prems(1) by (simp add: theora_send_loop.simps)
  next
    case False
    define len where "len = (if PATH_MTU_THEORA < elapsed then PATH_MTU_THEORA else elapsed)"
    define mark1 where "mark1 = (if PATH_MTU_THEORA < elapsed then (if snt \<noteq> 0 then 2 else 1) else if snt \<noteq> 0 then 3 else mark)"
    define h where "h = set_hint ''seqno'' (dec_string (unat sq)) hints"
    define c where "c = take len (drop snt packet)"
    have len: "0 < len" "len \<le> elapsed" "length c = len" using False less.prems(4) by (auto simp: len_def c_def PATH_MTU_THEORA_simps(1))
    have mk: "mark1 \<in> {0, 1, 2, 3}" using less.prems(7) by (auto simp: mark1_def)
    obtain pb where st: "length pb = PATH_MTU" "theora_send_loop True ident np packet hints packbuf mark snt elapsed sq =
        map_option (\<lambda>(ws, s). ((h, theora_head ident np mark1 len @ c) # ws, s)) (theora_send_loop True ident np packet h pb mark1 (snt + len) (elapsed - len) (sq + 1))"
      using theora_send_step_hints [OF _ less.prems(4,5), of ident np hints mark sq] False unfolding len_def mark1_def h_def c_def by auto
    obtain ws' where ws: "theora_send_loop True ident np packet h pb mark1 (snt + len) (elapsed - len) (sq + 1) = Some (ws', s)"
      "ws = (h, theora_head ident np mark1 len @ c) # ws'"
      using less.prems(1) unfolding st(2) by auto
    have n: "unat sq < 2 ^ 31" using less.prems(3) by simp
    then have "unat (sq + 1) = unat sq + 1" by (simp add: unat_word_ariths)
    then have sq: "unat (sq + 1) + (elapsed - len) < 2 ^ 31" using less.prems(3) len by simp
    note h = theora_hints_seqno [OF less.prems(2) n, folded h_def]
    have "\<forall>w \<in> set ws'. media_hints 96 (fst w) \<and> frame_packet (snd w)"
      by (rule less.IH [OF _ ws(1) h(1) sq _ st(1) less.prems(6) mk]) (use len less.prems(4) False in auto)
    moreover have "frame_packet (theora_head ident np mark1 len @ c)"
      unfolding frame_packet_def len(3) [symmetric] using mk less.prems(6) by blast
    ultimately show ?thesis using h(2) ws(2) by simp
  qed
qed

lemma empty_not_sent: "theora_send_fragmented_rtp tj True ident [] stmp sq = Some ([], sq)"
  by (simp add: theora_send_fragmented_rtp_def theora_send_loop.simps mem_write_def PATH_MTU_def THEORA_HDR_SIZE_def)

text \<open>
  C8. A packet of the Theora encoder over the network, of at least one byte: cut into packets that
  leave room for an RTP header, written to a transport that is ready, with a local candidate in the
  pair it uses, received by the other one, where an application waits for the payload type 96, each
  into a block with arbitrary bytes behind it, and routed to the receiver of the stream, it is
  handed to the decoder exactly once, with the last of them; the image it yields is shown then, and
  only then. What the receiver held before, and where the shared write position stood, does not
  matter. The sequence number, which counts the packets, has to stay below 2 to the 31st, since
  the transport reads it as a signed number. A packet of no bytes, with which the encoder repeats
  a frame, is not sent at all.
\<close>

theorem theora_over_ice:
  assumes "packet \<noteq> []" "unat sq + length packet < 2 ^ 31" "can_send s a" "routed t 96 app"
  shows "(\<exists>ws sq' ds t' imgs g' cdc'. theora_send_fragmented_rtp tj True ident packet stmp sq = Some (ws, sq')
    \<and> sq' = sq + of_nat (length ws) \<and> (\<forall>w \<in> set ws. length (snd w) \<le> PATH_MTU - 12)
    \<and> put_all (ice_put es) ws s = Some (ds, s)
    \<and> get_all (ice_get er junk frm app) (theora_recv env) ds t ([], g, cdc) = Some (t', imgs @ [fst (th_decode env (t_dec cdc) packet)], g', cdc')
    \<and> set imgs \<subseteq> {None} \<and> t_dec cdc' = snd (th_decode env (t_dec cdc) packet))
    \<and> theora_send_fragmented_rtp tj True ident [] stmp sq = Some ([], sq)"
proof -
  obtain ws sq' imgs g' cdc' where w: "theora_send_fragmented_rtp tj True ident packet stmp sq = Some (ws, sq')" "t_sent sq ws sq'"
    "theora_receive_all env g cdc (map snd ws) = Some (imgs @ [fst (th_decode env (t_dec cdc) packet)], g', cdc')"
    "set imgs \<subseteq> {None}" "t_dec cdc' = snd (th_decode env (t_dec cdc) packet)"
    using theora_deliver_first [OF assms(1), of tj ident stmp sq env g cdc] by blast
  define np :: nat where "np = (if length packet > PATH_MTU_THEORA then 0 else 1)"
  define pb where "pb = buf_put (map tj [0..<PATH_MTU]) 0 (replicate THEORA_HDR_SIZE 0)"
  have m: "mem_write (map tj [0..<PATH_MTU]) 0 (replicate THEORA_HDR_SIZE 0) = Some pb" "length pb = PATH_MTU"
    by (simp_all add: mem_write_def pb_def PATH_MTU_def THEORA_HDR_SIZE_def)
  have l: "theora_send_loop True ident np packet (set_hint ''timestamp'' (sprintf_d (low_int stmp)) (set_hint ''pt'' ''96'' [])) pb 0 0 (length packet) sq = Some (ws, sq')"
    using w(1) by (simp add: theora_send_fragmented_rtp_def m(1) np_def)
  have "\<forall>w \<in> set ws. media_hints 96 (fst w) \<and> frame_packet (snd w)"
    by (rule theora_loop_packets [OF l theora_hints_start assms(2) _ m(2)]) (simp_all add: np_def)
  moreover have "length (snd w) \<le> MTU" if "w \<in> set ws" for w using w(2) that by (auto simp: t_sent_def PATH_MTU_def MTU_def)
  ultimately have ok: "\<forall>w \<in> set ws. ice_accepts 96 w \<and> reads_inside (2036 - MTU) (theora_recv env) (theora_recv env) (snd w)"
    by (simp add: ice_accepts_def PAYLOAD_CACHE_SIZE_def theora_recv_inside)
  obtain ds t' where ds: "put_all (ice_put es) ws s = Some (ds, s)" "\<And>v r. feed_all (theora_recv env) (map (\<lambda>w. whole_packet (snd w)) ws) v = Some r \<Longrightarrow>
      get_all (ice_get er junk frm app) (theora_recv env) ds t v = Some (t', r)"
    using ice.stream_delivered [OF ok assms(3,4), of es er junk frm] by blast
  have "feed_all (theora_recv env) (map (\<lambda>w. whole_packet (snd w)) ws) ([], g, cdc) = Some (imgs @ [fst (th_decode env (t_dec cdc) packet)], g', cdc')"
    by (simp add: feed_theora_all w(3))
  from ds(2) [OF this] ds(1) w empty_not_sent show ?thesis unfolding t_sent_def by blast
qed

section \<open>What the tables hold\<close>

fun insert_remotes :: "ice_env \<Rightarrow> nat list \<Rightarrow> ice_stream \<Rightarrow> ice_stream option" where
  "insert_remotes env [] s = Some s"
| "insert_remotes env (r # rs) s = do { s1 \<leftarrow> icectl_insert_remote_candidate env r s; insert_remotes env rs s1 }"

fun insert_locals :: "ice_env \<Rightarrow> nat list \<Rightarrow> ice_stream \<Rightarrow> ice_stream option" where
  "insert_locals env [] s = Some s"
| "insert_locals env (l # ls) s = do { s1 \<leftarrow> icectl_insert_local_candidate env l s; insert_locals env ls s1 }"

definition ends :: "ice_stream \<Rightarrow> (nat option \<times> nat) list" where
  "ends s = map (\<lambda>q. (p_local q, p_remote q)) (c_pairs s)"

lemma length_ends: "length (ends s) = length (c_pairs s)"
  by (simp add: ends_def)

lemma push_pair_ends:
  "push_pair env l r s = (if length (ends s) < MAX_CONN_PAIRS then Some (the (push_pair env l r s)) else None)"
  "push_pair env l r s = Some s' \<Longrightarrow> ends s' = ends s @ [(l, r)] \<and> locals s' = locals s \<and> remotes s' = remotes s"
  by (auto simp: push_pair_def ice_random_def ends_def split: if_splits)

lemma local_pairs_ends:
  "(local_pairs env c rs s = None \<longleftrightarrow> rs \<noteq> [] \<and> MAX_CONN_PAIRS < length (ends s) + length rs)
   \<and> (\<forall>s'. local_pairs env c rs s = Some s' \<longrightarrow> ends s' = ends s @ map (\<lambda>r. (Some c, r)) rs \<and> locals s' = locals s \<and> remotes s' = remotes s)"
proof (induction rs arbitrary: s)
  case (Cons r rs)
  show ?case
  proof (cases "length (ends s) < MAX_CONN_PAIRS")
    case True
    then obtain s1 where s1: "push_pair env (Some c) r s = Some s1" using push_pair_ends(1) [of env "Some c" r s] by auto
    note e = push_pair_ends(2) [OF s1]
    from Cons.IH [of s1] s1 e True show ?thesis by auto
  next
    case False
    then have "push_pair env (Some c) r s = None" using push_pair_ends(1) [of env "Some c" r s] by auto
    with False show ?thesis by simp
  qed
qed simp

lemma insert_locals_ends:
  assumes "length (locals s) + length ls \<le> MAX_CONN_PAIRS"
  shows "(insert_locals env ls s = None \<longleftrightarrow> remotes s \<noteq> [] \<and> ls \<noteq> [] \<and> MAX_CONN_PAIRS < length (ends s) + length ls * length (remotes s))
   \<and> (\<forall>s'. insert_locals env ls s = Some s' \<longrightarrow> ends s' = ends s @ concat (map (\<lambda>l. map (\<lambda>r. (Some l, r)) (remotes s)) ls))"
  using assms
proof (induction ls arbitrary: s)
  case (Cons l ls)
  let ?s = "s\<lparr>locals := locals s @ [l]\<rparr>"
  have room: "\<not> MAX_CONN_PAIRS \<le> length (locals s)" using Cons.prems by simp
  have i: "icectl_insert_local_candidate env l s = local_pairs env l (remotes s) ?s" using room by (simp add: icectl_insert_local_candidate_def)
  have es: "ends ?s = ends s" by (simp add: ends_def)
  note lp = local_pairs_ends [of env l "remotes s" ?s, unfolded es]
  show ?case
  proof (cases "local_pairs env l (remotes s) ?s")
    case None
    with lp i show ?thesis by auto
  next
    case (Some s1)
    with lp have e: "ends s1 = ends s @ map (\<lambda>r. (Some l, r)) (remotes s)" "locals s1 = locals s @ [l]" "remotes s1 = remotes s"
      "\<not> (remotes s \<noteq> [] \<and> MAX_CONN_PAIRS < length (ends s) + length (remotes s))" by auto
    have "length (locals s1) + length ls \<le> MAX_CONN_PAIRS" using e Cons.prems by simp
    from Cons.IH [OF this] e i Some show ?thesis by (cases ls) (auto simp: add.assoc)
  qed
qed simp

lemma insert_remotes_first:
  assumes "length (ends s) = length (remotes s)" "length (remotes s) + length rs \<le> MAX_CONN_PAIRS"
  shows "\<exists>s'. insert_remotes env rs s = Some s' \<and> locals s' = locals s \<and> remotes s' = remotes s @ rs
     \<and> ends s' = ends s @ map (\<lambda>r. (case locals s of [] \<Rightarrow> None | l # _ \<Rightarrow> Some l, r)) rs"
  using assms
proof (induction rs arbitrary: s)
  case (Cons r rs)
  let ?s = "s\<lparr>remotes := remotes s @ [r]\<rparr>" and ?l = "case locals s of [] \<Rightarrow> None | l # _ \<Rightarrow> Some l"
  have room: "length (ends ?s) < MAX_CONN_PAIRS" "\<not> MAX_CONN_PAIRS \<le> length (remotes s)" using Cons.prems by (simp_all add: ends_def)
  then obtain s1 where s1: "push_pair env ?l r ?s = Some s1" using push_pair_ends(1) [of env ?l r ?s] by auto
  note e = push_pair_ends(2) [OF s1]
  have i: "icectl_insert_remote_candidate env r s = Some s1" using s1 room(2) by (simp add: icectl_insert_remote_candidate_def)
  have k: "locals s1 = locals s" "remotes s1 = remotes s @ [r]" "ends s1 = ends s @ [(?l, r)]" using e by (auto simp: ends_def)
  have "length (ends s1) = length (remotes s1)" "length (remotes s1) + length rs \<le> MAX_CONN_PAIRS" using k Cons.prems by simp_all
  from Cons.IH [OF this] i k show ?case by auto
qed simp

text \<open>While there is no remote candidate, the local ones are only kept.\<close>

lemma insert_locals_alone:
  "remotes s = [] \<Longrightarrow> length (locals s) + length ls \<le> MAX_CONN_PAIRS \<Longrightarrow> insert_locals env ls s = Some (s\<lparr>locals := locals s @ ls\<rparr>)"
proof (induction ls arbitrary: s)
  case (Cons l ls)
  then show ?case by (simp add: icectl_insert_local_candidate_def)
qed simp

text \<open>
  C13. What the table of pairs can hold. A transport collects its own candidates when it is
  appended, before those of the peer are inserted, and can learn more of its own from the answers of
  the STUN server afterwards. So, in a transport that has none: of local candidates \<open>ls0\<close>, then
  remote ones \<open>rs\<close>, then local ones \<open>ls\<close>, the first make no pair, every remote one makes one, with
  the first of \<open>ls0\<close> or, when there is none, with a null pointer, and each of \<open>ls\<close> makes one with
  every remote one; the pairs are exactly these, in this order. The table has 256 entries and no
  test: with at most 256 remote and at most 256 local candidates, which is what their own tables
  hold, the insertion writes behind it exactly when the number of remote candidates times one more
  than the number of \<open>ls\<close> exceeds 256.
\<close>

theorem ice_pairs_bound:
  assumes "c_pairs s = []" "locals s = []" "remotes s = []" "length rs \<le> MAX_CONN_PAIRS" "length ls0 + length ls \<le> MAX_CONN_PAIRS"
  shows "(do { s1 \<leftarrow> insert_locals env ls0 s; s2 \<leftarrow> insert_remotes env rs s1; insert_locals env ls s2 } = None \<longleftrightarrow> 256 < length rs * (length ls + 1))
     \<and> (\<forall>s'. do { s1 \<leftarrow> insert_locals env ls0 s; s2 \<leftarrow> insert_remotes env rs s1; insert_locals env ls s2 } = Some s' \<longrightarrow>
          map (\<lambda>q. (p_local q, p_remote q)) (c_pairs s') =
            map (\<lambda>r. (if ls0 = [] then None else Some (hd ls0), r)) rs @ concat (map (\<lambda>l. map (\<lambda>r. (Some l, r)) rs) ls))"
proof -
  have s1: "insert_locals env ls0 s = Some (s\<lparr>locals := ls0\<rparr>)" (is "_ = Some ?s1")
    using insert_locals_alone [of s ls0 env] assms(2,3,5) by simp
  let ?l = "if ls0 = [] then None else Some (hd ls0)"
  have l: "(case ls0 of [] \<Rightarrow> None | l # _ \<Rightarrow> Some l) = ?l" by (cases ls0) simp_all
  have "length (ends ?s1) = length (remotes ?s1)" "length (remotes ?s1) + length rs \<le> MAX_CONN_PAIRS" using assms by (simp_all add: ends_def)
  from insert_remotes_first [OF this, of env] obtain s2 where s2: "insert_remotes env rs ?s1 = Some s2" "locals s2 = ls0" "remotes s2 = rs"
    "ends s2 = map (\<lambda>r. (?l, r)) rs" using assms(1,3) by (auto simp: ends_def l)
  have room: "length (locals s2) + length ls \<le> MAX_CONN_PAIRS" using s2(2) assms(5) by simp
  note e = insert_locals_ends [OF room, of env, unfolded s2(3,4)]
  have n: "insert_locals env ls s2 = None \<longleftrightarrow> 256 < length rs * (length ls + 1)"
    using e assms(4) by (cases ls) (auto simp: MAX_CONN_PAIRS_def algebra_simps)
  have m: "map (\<lambda>q. (p_local q, p_remote q)) (c_pairs s') = map (\<lambda>r. (?l, r)) rs @ concat (map (\<lambda>l. map (\<lambda>r. (Some l, r)) rs) ls)"
    if "insert_locals env ls s2 = Some s'" for s'
    using e that by (simp add: ends_def)
  show ?thesis using n m by (simp add: s1 s2(1))
qed

section \<open>Examples\<close>

text \<open>A transport whose pair has succeeded, which is also where an application for the payload type 98 waits.\<close>

definition ready_stream :: ice_stream where
  "ready_stream = sample_stream\<lparr>ice_cr := 5, c_pair_last_success := Some 0\<rparr>"

lemma ready_can_send: "can_send ready_stream (IP4 sample_addr)"
  by (simp add: can_send_def flag_set_def ready_stream_def sample_stream_def sample_remote_def ICE_FLAG_RTP_SUCCEEDED_def)

lemma ready_routed: "routed ready_stream 98 3"
  by (simp add: routed_def ready_stream_def sample_stream_def PAYLOAD_CACHE_SIZE_def nine_eight [simplified] kid_named_def EQN_def strncaseeq_def)

theorem ice_rtp_delivered_witness:
  "\<exists>k d. icectl_try_write sample_ice [10, 20] (Some [(''pt'', ''98'')]) ready_stream = Some (send_result sample_ice d, [Datagram k (IP4 sample_addr) d], ready_stream)
     \<and> length d = 14 \<and> (\<exists>first payload hints. on_packet_in sample_ice sample_addr 0 (d @ [7]) 14 ready_stream =
           Some (first @ [MediaWrite 3 payload 2 hints, WriteOut payload 2 hints], ready_stream\<lparr>media_owner_cache := (media_owner_cache ready_stream)[98 := Some 3]\<rparr>)
         \<and> take 2 payload = [10, 20])"
proof -
  have h: "media_hints 98 [(''pt'', ''98'')]" by (simp add: media_hints_def int_attr_def getattr_def nine_eight [simplified])
  have pt: "98 < PAYLOAD_CACHE_SIZE" by (simp add: PAYLOAD_CACHE_SIZE_def)
  have two: "length [10, 20 :: u8] = 2" by simp
  obtain k d where d: "icectl_try_write sample_ice [10, 20] (Some [(''pt'', ''98'')]) ready_stream = Some (send_result sample_ice d, [Datagram k (IP4 sample_addr) d], ready_stream)"
    "length d = 12 + 2" and r: "\<forall>er frm flags post. \<exists>first payload hints. on_packet_in er frm flags (d @ post) (int (length d)) ready_stream =
           Some (first @ [MediaWrite 3 payload (int 2) hints, WriteOut payload (int 2) hints],
                 ready_stream\<lparr>media_owner_cache := (media_owner_cache ready_stream)[98 := Some 3]\<rparr>)
         \<and> take 2 payload = [10, 20] \<and> (first = [] \<or> first = [RefGet 3])"
    using ice_rtp_delivered [OF ready_can_send h pt ready_routed, of sample_ice "[10, 20]", unfolded two] by blast
  have "\<exists>first payload hints. on_packet_in sample_ice sample_addr 0 (d @ [7]) 14 ready_stream =
           Some (first @ [MediaWrite 3 payload 2 hints, WriteOut payload 2 hints], ready_stream\<lparr>media_owner_cache := (media_owner_cache ready_stream)[98 := Some 3]\<rparr>)
         \<and> take 2 payload = [10, 20]"
    using r [rule_format, of sample_ice sample_addr 0 "[7]"] d(2) by auto
  with d show ?thesis by auto
qed

theorem vp8_over_ice_witness:
  "\<exists>ws l thiz' ds t' v'. x_vp8_rtp_send (\<lambda>_. 1) True (vpx_new 1) (replicate 3000 5) = Some (ws, l, thiz') \<and> put_all (ice_put sample_ice) ws ready_stream = Some (ds, ready_stream)
     \<and> get_all (ice_get sample_ice (\<lambda>_. 9) sample_addr 3) (vpx_recv log_env) ds ready_stream (vpx_new 0) = Some (t', v') \<and> vpx_codec v' = [replicate 3000 5]"
proof -
  have f: "replicate 3000 (5 :: u8) \<noteq> []" "0 \<le> seqno (vpx_new 1)" "seqno (vpx_new 1) + int (length (replicate 3000 (5 :: u8))) < 2 ^ 31"
    "seqno (vpx_new 1) mod 128 \<noteq> 0" "- 100 \<le> io_life_count (vpx_new 0)" by (simp_all add: vpx_new_def)
  have c: "(if initialized (vpx_new 0) \<and> length (replicate 3000 (5 :: u8)) \<noteq> 2 * MTU - 3 then snd (decode log_env (vpx_codec (vpx_new 0)) (replicate 3000 5))
      else vpx_codec (vpx_new 0)) = [replicate 3000 5]" by (simp add: vpx_new_def log_env_def MTU_def)
  show ?thesis using vp8_over_ice [OF f ready_can_send ready_routed, of "\<lambda>_. 1" sample_ice sample_ice "\<lambda>_. 9" sample_addr log_env] unfolding c by blast
qed

definition theora_stream :: ice_stream where
  "theora_stream = ready_stream\<lparr>media_in := [(''96'', 4), (''98'', 3)]\<rparr>"

theorem theora_over_ice_witness:
  "\<exists>ws sq' ds t' imgs g' cdc'. theora_send_fragmented_rtp (\<lambda>_. 1) True 0x112233 (replicate 3000 9) 0 5 = Some (ws, sq') \<and> put_all (ice_put sample_ice) ws theora_stream = Some (ds, theora_stream)
     \<and> get_all (ice_get sample_ice (\<lambda>_. 9) sample_addr 4) (theora_recv theora_log) ds theora_stream ([], theora_g0, theora_new) = Some (t', imgs @ [Some (replicate 3000 9)], g', cdc')
     \<and> t_dec cdc' = [replicate 3000 9]"
proof -
  have h: "replicate 3000 (9 :: u8) \<noteq> []" "unat (5 :: u32) + length (replicate 3000 (9 :: u8)) < 2 ^ 31"
    by (simp_all only: replicate_empty) simp_all
  have s: "can_send theora_stream (IP4 sample_addr)" using ready_can_send by (simp add: can_send_def flag_set_def theora_stream_def)
  have r: "routed theora_stream 96 4"
    by (simp add: routed_def theora_stream_def ready_stream_def sample_stream_def PAYLOAD_CACHE_SIZE_def nine_six [simplified] kid_named_def EQN_def strncaseeq_def strcspn_def LF_def CR_def)
  have d: "th_decode theora_log (t_dec theora_new) (replicate 3000 9) = (Some (replicate 3000 9), [replicate 3000 9])"
    by (simp add: theora_log_def theora_new_def)
  show ?thesis using theora_over_ice [OF h s r, of "\<lambda>_. 1" "0x112233" 0 sample_ice sample_ice "\<lambda>_. 9" sample_addr theora_log theora_g0 theora_new]
    unfolding d fst_conv snd_conv by blast
qed

theorem ice_pairs_bound_witness:
  "do { s1 \<leftarrow> insert_locals sample_ice [40, 41] run_start; s2 \<leftarrow> insert_remotes sample_ice [0 ..< 16] s1; insert_locals sample_ice [16 ..< 32] s2 } = None
   \<and> do { s1 \<leftarrow> insert_locals sample_ice [40, 41] run_start; s2 \<leftarrow> insert_remotes sample_ice [0 ..< 16] s1; insert_locals sample_ice [16 ..< 31] s2 } \<noteq> None
   \<and> do { s1 \<leftarrow> insert_locals sample_ice [] run_start; s2 \<leftarrow> insert_remotes sample_ice [0 ..< 16] s1; insert_locals sample_ice [16 ..< 32] s2 } = None"
proof -
  have r: "length [0 ..< 16] \<le> MAX_CONN_PAIRS" and l: "length [40, 41 :: nat] + length [16 ..< 32] \<le> MAX_CONN_PAIRS"
    "length [40, 41 :: nat] + length [16 ..< 31] \<le> MAX_CONN_PAIRS" "length ([] :: nat list) + length [16 ..< 32] \<le> MAX_CONN_PAIRS"
    by (simp_all add: MAX_CONN_PAIRS_def)
  note p = ice_pairs_bound [OF run_start_fields(5,4,3) r, THEN conjunct1, of _ _ sample_ice]
  show ?thesis unfolding p [OF l(1)] p [OF l(2)] p [OF l(3)] by simp
qed

text \<open>A packet of payload type 98 comes before the application is offered, another one after; one of type 127 stops the program.\<close>

theorem ice_media_routing_witness:
  "\<exists>s outs s'. ice_run sample_ice [(Offer [(''9'', 3)], [])] s \<and> on_packet_in sample_ice sample_addr 0 ([0x80, 98] @ replicate 12 1) 14 s = Some (outs, s')
     \<and> (\<exists>k m h. MediaWrite 3 k m h \<in> set outs) \<and> on_packet_in sample_ice sample_addr 0 [0x80, 0xFF] 2 s = None"
proof -
  let ?s = "run_start\<lparr>media_in := [(''9'', 3)]\<rparr>" and ?b = "[0x80, 98] @ replicate 12 (1 :: u8)"
  have m: "media_in run_start = []" by (simp add: run_start_def created)
  have "ice_run sample_ice ([] @ [(Offer [(''9'', 3)], [])]) ?s"
    by (rule ice_run.run_event [OF ice_run.run_create]) (simp add: m flip: run_start_def)
  then have run: "ice_run sample_ice [(Offer [(''9'', 3)], [])] ?s" by simp
  have b: "2 \<le> length ?b" "bit (?b ! 0) 7" "unat (?b ! 1 AND 0x7F) = 98" by simp_all
  have c: "2 \<le> length [0x80, 0xFF :: u8]" "bit ([0x80, 0xFF :: u8] ! 0) 7" "unat ([0x80, 0xFF :: u8] ! 1 AND 0x7F) = 127" by simp_all
  have e: "EQN ''9'' (sprintf_d 98)" by (simp add: EQN_def strncaseeq_def strcspn_def LF_def CR_def nine_eight [simplified])
  note r = ice_media_routing [OF run b(1,2), of sample_addr 0 14, unfolded b(3)]
  obtain outs s' where o: "on_packet_in sample_ice sample_addr 0 ?b 14 ?s = Some (outs, s')" using r by fastforce
  have "\<exists>a k m h. MediaWrite a k m h \<in> set outs" using r o e by auto
  moreover have "a = 3" if "MediaWrite a k m h \<in> set outs" for a k m h using r o that by auto
  moreover have "on_packet_in sample_ice sample_addr 0 [0x80, 0xFF] 2 ?s = None"
    using ice_media_routing [OF run c(1,2), of sample_addr 0 2] c(3) by blast
  ultimately show ?thesis using run o by blast
qed

end
