(* ===== verification/Xw_Obj_Tree.thy ===== *)
theory Xw_Obj_Tree
  imports Xw_Obj
begin

text \<open>
  The children of an object as a list: what insertion, removal and destruction do to the
  chain of siblings, and the search for a child by name.
\<close>

section \<open>Single updates of the heap\<close>

lemma upd_Some: "objs h a = Some ob \<Longrightarrow> upd h a f = Some (h\<lparr>objs := (objs h)(a \<mapsto> f ob)\<rparr>)"
  by (simp add: upd_def)

lemma updE:
  assumes "objs h a = Some ob"
  obtains h' where "upd h a f = Some h'" "objs h' = (objs h)(a \<mapsto> f ob)" "brk h' = brk h"
proof (rule that)
  show "upd h a f = Some (h\<lparr>objs := (objs h)(a \<mapsto> f ob)\<rparr>)" using assms by (rule upd_Some)
qed simp_all

lemma fld_Some: "objs h a = Some ob \<Longrightarrow> fld h a f = Some (f ob)"
  by (simp add: fld_def)

section \<open>Segments of a chain\<close>

text \<open>\<open>seg lnk h p as q\<close>: following \<open>lnk\<close> from \<open>p\<close> visits the objects \<open>as\<close> and arrives at \<open>q\<close>.\<close>

fun seg :: "(xobject \<Rightarrow> ptr) \<Rightarrow> heap \<Rightarrow> ptr \<Rightarrow> addr list \<Rightarrow> ptr \<Rightarrow> bool" where
  "seg lnk h p [] q \<longleftrightarrow> p = q"
| "seg lnk h p (a # as) q \<longleftrightarrow> p = Some a \<and> (case objs h a of None \<Rightarrow> False | Some ob \<Rightarrow> seg lnk h (lnk ob) as q)"

lemma seg_append: "seg lnk h p (as @ bs) q \<longleftrightarrow> (\<exists>r. seg lnk h p as r \<and> seg lnk h r bs q)"
proof (induction as arbitrary: p)
  case (Cons a as)
  then show ?case by (cases "objs h a") simp_all
qed simp

lemma seg_cong:
  "list_all (\<lambda>a. map_option lnk (objs h' a) = map_option lnk (objs h a)) as \<Longrightarrow> seg lnk h' p as q \<longleftrightarrow> seg lnk h p as q"
proof (induction as arbitrary: p)
  case (Cons a as)
  then have eq: "map_option lnk (objs h' a) = map_option lnk (objs h a)"
    and IH: "seg lnk h' r as q \<longleftrightarrow> seg lnk h r as q" for r by simp_all
  from eq show ?case by (cases "objs h a"; cases "objs h' a") (simp_all add: IH)
qed simp

lemma seg_alive: "seg lnk h p as q \<Longrightarrow> a \<in> set as \<Longrightarrow> objs h a \<noteq> None"
  by (induction as arbitrary: p) (auto split: option.splits)

lemma seg_start: "seg lnk h p as q \<Longrightarrow> as \<noteq> [] \<Longrightarrow> p = Some (hd as)"
  by (cases as) auto

lemma seg_None: "seg lnk h None as q \<longleftrightarrow> as = [] \<and> q = None"
  by (cases as) auto

text \<open>Redirecting the last link of a segment.\<close>

lemma seg_relink:
  assumes "seg lnk h p (bs @ [b]) q" "b \<notin> set bs" "objs h b = Some ob"
    "objs h' = (objs h)(b \<mapsto> ob')" "lnk ob' = r"
  shows "seg lnk h' p (bs @ [b]) r"
proof -
  have "seg lnk h p bs (Some b)" using assms(1) by (auto simp: seg_append split: option.splits)
  moreover have "list_all (\<lambda>a. map_option lnk (objs h' a) = map_option lnk (objs h a)) bs"
    using assms(2,4) by (auto simp: list_all_iff)
  ultimately have "seg lnk h' p bs (Some b)" by (simp add: seg_cong)
  then show ?thesis using assms(4,5) by (auto simp: seg_append)
qed

lemma chain_last_seg: "seg lnk h p as None \<Longrightarrow> as \<noteq> [] \<Longrightarrow> chain_last lnk h (hd as) = Some (last as)"
proof (induction as arbitrary: p)
  case (Cons a as)
  then show ?case
    by (cases as) (auto simp: chain_last.simps [of lnk h a] split: option.splits)
qed simp

lemma chain_prev_None [simp]: "chain_prev lnk h x xt None = Some (xt, None)"
  by (simp add: chain_prev.simps)

lemma chain_prev_Some [simp]:
  "chain_prev lnk h x xt (Some a) =
     (if a = x then Some (xt, Some a) else do { ob \<leftarrow> objs h a; chain_prev lnk h x (Some a) (lnk ob) })"
  by (subst chain_prev.simps) simp

lemma child_loop_None [simp]: "child_loop h nm None = Some None"
  by (simp add: child_loop.simps)

lemma child_loop_Some [simp]:
  "child_loop h nm (Some a) =
     do { ob \<leftarrow> objs h a; name \<leftarrow> o_name ob; if EQN name nm then Some (Some a) else child_loop h nm (o_sibling ob) }"
  by (subst child_loop.simps) simp

lemma chain_prev_seg:
  "seg lnk h p (bs @ x # cs) q \<Longrightarrow> x \<notin> set bs \<Longrightarrow>
     chain_prev lnk h x xt p = Some (if bs = [] then xt else Some (last bs), Some x)"
proof (induction bs arbitrary: p xt)
  case (Cons b bs)
  then show ?case by (auto split: option.splits)
qed simp

section \<open>The children of an object\<close>

definition named :: "heap \<Rightarrow> addr \<Rightarrow> bool" where
  "named h a \<longleftrightarrow> (\<exists>ob n. objs h a = Some ob \<and> o_name ob = Some n)"

definition name_of :: "heap \<Rightarrow> addr \<Rightarrow> string" where
  "name_of h a = the (o_name (the (objs h a)))"

definition kids :: "heap \<Rightarrow> addr \<Rightarrow> addr list \<Rightarrow> bool" where
  "kids h p as \<longleftrightarrow> (\<exists>ob. objs h p = Some ob \<and> seg o_sibling h (o_sons ob) as None)
     \<and> distinct (p # as) \<and> list_all (named h) as"

lemma kids_unique: "kids h p as \<Longrightarrow> kids h p bs \<Longrightarrow> as = bs"
proof -
  have "seg o_sibling h q as None \<Longrightarrow> seg o_sibling h q bs None \<Longrightarrow> as = bs" for q as bs
  proof (induction as arbitrary: q bs)
    case Nil
    then show ?case by (simp add: seg_None)
  next
    case (Cons a as)
    then show ?case by (cases bs) (auto split: option.splits)
  qed
  then show "kids h p as \<Longrightarrow> kids h p bs \<Longrightarrow> as = bs" by (auto simp: kids_def)
qed

text \<open>The link to the next child of a matching name leads further along the list.\<close>

definition nexts_ok :: "heap \<Rightarrow> addr list \<Rightarrow> bool" where
  "nexts_ok h as \<longleftrightarrow> (\<forall>i < length as. \<forall>ob. objs h (as ! i) = Some ob \<longrightarrow>
     (case o_next ob of None \<Rightarrow> True | Some b \<Rightarrow> b \<in> set (drop (i + 1) as)))"

lemma EQN_refl [simp]: "EQN s s"
  by (simp add: EQN_def strncaseeq_def)

text \<open>The search among the children returns the first whose name matches.\<close>

lemma child_loop_found:
  "seg o_sibling h p as q \<Longrightarrow> list_all (named h) as \<Longrightarrow> find (\<lambda>a. EQN (name_of h a) nm) as = Some a \<Longrightarrow>
     child_loop h nm p = Some (Some a)"
proof (induction as arbitrary: p)
  case (Cons b as)
  then show ?case
    by (auto simp: named_def name_of_def split: option.splits if_splits)
qed simp

lemma child_loop_not_found:
  "seg o_sibling h p as q \<Longrightarrow> list_all (named h) as \<Longrightarrow> find (\<lambda>a. EQN (name_of h a) nm) as = None \<Longrightarrow>
     child_loop h nm p = child_loop h nm q"
proof (induction as arbitrary: p)
  case (Cons b as)
  then show ?case
    by (auto simp: named_def name_of_def split: option.splits if_splits)
qed simp

lemma x_object_get_child_kids:
  "kids h p as \<Longrightarrow> x_object_get_child h (Some p) (Some nm) = Some (find (\<lambda>a. EQN (name_of h a) nm) as)"
proof -
  assume "kids h p as"
  then obtain ob where ob: "objs h p = Some ob" and s: "seg o_sibling h (o_sons ob) as None" and n: "list_all (named h) as"
    by (auto simp: kids_def)
  show ?thesis
    using child_loop_found [OF s n, of nm] child_loop_not_found [OF s n, of nm] ob
    by (cases "find (\<lambda>a. EQN (name_of h a) nm) as") (simp_all add: x_object_get_child_def fld_def)
qed

text \<open>Following the matching names from a child ends inside the list.\<close>

lemma chain_last_next:
  "nexts_ok h as \<Longrightarrow> list_all (\<lambda>a. objs h a \<noteq> None) as \<Longrightarrow>
     list_all (\<lambda>a. map_option o_next (objs h' a) = map_option o_next (objs h a)) as \<Longrightarrow> i < length as \<Longrightarrow>
     \<exists>l \<in> set as. chain_last o_next h (as ! i) = Some l \<and> chain_last o_next h' (as ! i) = Some l"
proof (induction "length as - i" arbitrary: i rule: less_induct)
  case less
  obtain ob where ob: "objs h (as ! i) = Some ob" using less.prems by (auto simp: list_all_length)
  then obtain ob' where ob': "objs h' (as ! i) = Some ob'" "o_next ob' = o_next ob"
    using less.prems(3,4) by (fastforce simp: list_all_length)
  show ?case
  proof (cases "o_next ob")
    case None
    then show ?thesis
      using ob ob' less.prems(4) by (auto simp: chain_last.simps [of o_next h "as ! i"] chain_last.simps [of o_next h' "as ! i"])
  next
    case (Some b)
    then have "b \<in> set (drop (i + 1) as)" using less.prems ob by (auto simp: nexts_ok_def)
    then obtain k where "k < length (drop (i + 1) as)" "b = drop (i + 1) as ! k" by (auto simp: in_set_conv_nth)
    then have "b = as ! (i + 1 + k)" "i + 1 + k < length as" using less.prems(4) by simp_all
    then show ?thesis
      using less.hyps [of "i + 1 + k"] less.prems Some ob ob'
      by (simp add: chain_last.simps [of o_next h "as ! i"] chain_last.simps [of o_next h' "as ! i"])
  qed
qed

lemma chain_prev_next:
  "nexts_ok h as \<Longrightarrow> list_all (\<lambda>a. objs h a \<noteq> None) as \<Longrightarrow> i < length as \<Longrightarrow>
     \<exists>r. chain_prev o_next h x xt (Some (as ! i)) = Some r \<and> (fst r = xt \<or> (\<exists>a \<in> set as. a \<noteq> x \<and> fst r = Some a))"
proof (induction "length as - i" arbitrary: i xt rule: less_induct)
  case less
  obtain ob where ob: "objs h (as ! i) = Some ob" using less.prems by (auto simp: list_all_length)
  show ?case
  proof (cases "as ! i = x \<or> o_next ob = None")
    case True
    then show ?thesis using ob less.prems(3) by auto
  next
    case False
    then obtain b where Some: "o_next ob = Some b" by auto
    then have "b \<in> set (drop (i + 1) as)" using less.prems ob by (auto simp: nexts_ok_def)
    then obtain k where "k < length (drop (i + 1) as)" "b = drop (i + 1) as ! k" by (auto simp: in_set_conv_nth)
    then have b: "b = as ! (i + 1 + k)" "i + 1 + k < length as" using less.prems(3) by simp_all
    have "length as - (i + 1 + k) < length as - i" using b by simp
    from less.hyps [OF this less.prems(1,2) b(2), of "Some (as ! i)"]
    obtain r where "chain_prev o_next h x (Some (as ! i)) (Some b) = Some r"
      "fst r = Some (as ! i) \<or> (\<exists>a \<in> set as. a \<noteq> x \<and> fst r = Some a)"
      unfolding b(1) by auto
    moreover have "as ! i \<in> set as" using less.prems(3) by simp
    ultimately show ?thesis
      using False Some ob by (auto simp del: chain_prev_Some simp: chain_prev_Some [of o_next h x xt "as ! i"])
  qed
qed

section \<open>Updates that keep the links\<close>

text \<open>The list of children depends on the links and names only.\<close>

definition same_links :: "xobject \<Rightarrow> xobject \<Rightarrow> bool" where
  "same_links ob ob' \<longleftrightarrow> o_sibling ob' = o_sibling ob \<and> o_next ob' = o_next ob \<and> o_name ob' = o_name ob
     \<and> o_sons ob' = o_sons ob \<and> o_parent ob' = o_parent ob"

definition links_kept :: "heap \<Rightarrow> heap \<Rightarrow> bool" where
  "links_kept h h' \<longleftrightarrow> (\<forall>a. rel_option same_links (objs h a) (objs h' a))"

lemma links_kept_refl [simp, intro]: "links_kept h h"
  by (simp add: links_kept_def same_links_def option.rel_refl)

lemma same_links_trans: "same_links a b \<Longrightarrow> same_links b c \<Longrightarrow> same_links a c"
  by (simp add: same_links_def)

lemma links_kept_trans: "links_kept h h1 \<Longrightarrow> links_kept h1 h2 \<Longrightarrow> links_kept h h2"
  unfolding links_kept_def
proof
  fix a assume *: "\<forall>a. rel_option same_links (objs h a) (objs h1 a)" "\<forall>a. rel_option same_links (objs h1 a) (objs h2 a)"
  have "rel_option same_links (objs h a) (objs h1 a)" "rel_option same_links (objs h1 a) (objs h2 a)" using * by blast+
  then show "rel_option same_links (objs h a) (objs h2 a)"
    by (cases "objs h a"; cases "objs h1 a"; cases "objs h2 a") (auto intro: same_links_trans)
qed

lemma links_kept_get:
  "links_kept h h' \<Longrightarrow> objs h a = Some ob \<Longrightarrow> \<exists>ob'. objs h' a = Some ob' \<and> same_links ob ob'"
  unfolding links_kept_def by (drule spec [of _ a]) (auto simp: option_rel_Some1)

lemma links_kept_upd:
  "objs h a = Some ob \<Longrightarrow> same_links ob ob' \<Longrightarrow> objs h' = (objs h)(a \<mapsto> ob') \<Longrightarrow> links_kept h h'"
  by (auto simp: links_kept_def same_links_def option.rel_refl)

lemma seg_links_kept:
  assumes "links_kept h h'" "\<And>ob ob'. same_links ob ob' \<Longrightarrow> lnk ob' = lnk ob" "seg lnk h p as q"
  shows "seg lnk h' p as q"
proof -
  have "list_all (\<lambda>a. map_option lnk (objs h' a) = map_option lnk (objs h a)) as"
    unfolding list_all_iff
  proof
    fix a assume "a \<in> set as"
    then obtain ob where "objs h a = Some ob" using seg_alive [OF assms(3)] by auto
    then show "map_option lnk (objs h' a) = map_option lnk (objs h a)"
      using links_kept_get [OF assms(1)] assms(2) by fastforce
  qed
  then show ?thesis using assms(3) by (simp add: seg_cong)
qed

lemma kids_links_kept: "links_kept h h' \<Longrightarrow> kids h p as \<Longrightarrow> kids h' p as"
proof -
  assume l: "links_kept h h'" and k: "kids h p as"
  obtain po where po: "objs h p = Some po" "seg o_sibling h (o_sons po) as None" "list_all (named h) as" "distinct (p # as)"
    using k by (auto simp: kids_def)
  obtain po' where po': "objs h' p = Some po'" "o_sons po' = o_sons po"
    using links_kept_get [OF l po(1)] by (auto simp: same_links_def)
  have "seg o_sibling h' (o_sons po) as None" by (rule seg_links_kept [OF l _ po(2)]) (simp add: same_links_def)
  moreover have "list_all (named h') as"
    using po(3) links_kept_get [OF l] by (fastforce simp: list_all_iff named_def same_links_def)
  ultimately show ?thesis using po po' by (simp add: kids_def)
qed

lemma nexts_links_kept:
  assumes l: "links_kept h h'" and n: "nexts_ok h as" and a: "list_all (\<lambda>a. objs h a \<noteq> None) as"
  shows "nexts_ok h' as"
  unfolding nexts_ok_def
proof (intro allI impI)
  fix i ob' assume i: "i < length as" and ob': "objs h' (as ! i) = Some ob'"
  obtain ob where ob: "objs h (as ! i) = Some ob" using a i by (auto simp: list_all_length)
  then have "o_next ob' = o_next ob" using links_kept_get [OF l ob] ob' by (auto simp: same_links_def)
  then show "case o_next ob' of None \<Rightarrow> True | Some b \<Rightarrow> b \<in> set (drop (i + 1) as)"
    using n i ob by (simp add: nexts_ok_def)
qed

lemma kids_alive: "kids h p as \<Longrightarrow> list_all (\<lambda>a. objs h a \<noteq> None) as"
  by (auto simp: kids_def list_all_iff dest: seg_alive)

section \<open>Insertion\<close>

text \<open>
  The heap after the insertion of \<open>x\<close>: \<open>nl\<close> is the child whose link to the next one changed,
  the end of the chain that starts at the first child matching the name.
\<close>

definition name_tail :: "heap \<Rightarrow> addr list \<Rightarrow> addr \<Rightarrow> string \<Rightarrow> addr option" where
  "name_tail h as x nm = (case find (\<lambda>a. EQN (name_of h a) nm) as of None \<Rightarrow> Some x | Some s \<Rightarrow> chain_last o_next h s)"

definition relink :: "addr \<Rightarrow> addr \<Rightarrow> addr option \<Rightarrow> addr \<Rightarrow> xobject \<Rightarrow> xobject" where
  "relink x l nl a ob = ob\<lparr>o_sibling := (if a = l then Some x else o_sibling ob),
     o_next := (if nl = Some a then Some x else o_next ob)\<rparr>"

lemma relink_name [simp]: "o_name (relink x l nl a ob) = o_name ob"
  by (simp add: relink_def)

definition inserted :: "heap \<Rightarrow> addr \<Rightarrow> addr list \<Rightarrow> addr \<Rightarrow> addr option \<Rightarrow> addr \<Rightarrow> xobject option" where
  "inserted h p as x nl = (\<lambda>a.
     if a = x then map_option (\<lambda>ob. ob\<lparr>o_parent := Some p, o_next := None, o_sibling := None\<rparr>) (objs h x)
     else if a = p then map_option (\<lambda>ob. ob\<lparr>o_sons := (if as = [] then Some x else o_sons ob), o_count := o_count ob + 1\<rparr>) (objs h p)
     else if a \<in> set as then map_option (relink x (last as) nl a) (objs h a)
     else objs h a)"

lemma xobject_links_id [simp]:
  "ob\<lparr>o_sibling := o_sibling ob\<rparr> = ob" "ob\<lparr>o_next := o_next ob\<rparr> = ob" "ob\<lparr>o_sons := o_sons ob\<rparr> = ob"
  "ob\<lparr>o_sibling := s, o_next := o_next ob\<rparr> = ob\<lparr>o_sibling := s\<rparr>"
  "ob\<lparr>o_sibling := o_sibling ob, o_next := n\<rparr> = ob\<lparr>o_next := n\<rparr>"
  by (cases ob; simp)+

lemma insert_first:
  assumes "objs h p = Some po" "o_sons po = None" "objs h x = Some xo" "x \<noteq> p"
  shows "\<exists>h'. x_object_insert_into_tree h (Some p) (Some x) = Some (0, h') \<and> objs h' = inserted h p [] x nl \<and> brk h' = brk h"
  using assms
  by (auto simp: x_object_insert_into_tree_def x_object_set_parent_def upd_def fld_def inserted_def fun_eq_iff)

lemma insert_later:
  assumes k: "kids h p as" and n: "nexts_ok h as" and x: "objs h x = Some xo" "o_next xo = None" "o_name xo = Some nm"
    and new: "x \<notin> set (p # as)" and ne: "as \<noteq> []"
  shows "\<exists>h'. x_object_insert_into_tree h (Some p) (Some x) = Some (0, h')
    \<and> objs h' = inserted h p as x (name_tail h as x nm) \<and> brk h' = brk h"
proof -
  let ?l = "last as"
  obtain po where po: "objs h p = Some po" and sg: "seg o_sibling h (o_sons po) as None"
    and d: "distinct (p # as)" and nam: "list_all (named h) as"
    using k by (auto simp: kids_def)
  have first: "o_sons po = Some (hd as)" using seg_start [OF sg ne] .
  have lin: "?l \<in> set as" using ne by simp
  obtain lo where lo: "objs h ?l = Some lo" using seg_alive [OF sg lin] by auto
  let ?h1 = "h\<lparr>objs := (objs h)(x \<mapsto> xo\<lparr>o_parent := Some p\<rparr>)\<rparr>"
  let ?h2 = "h\<lparr>objs := (objs h)(x \<mapsto> xo\<lparr>o_parent := Some p\<rparr>, ?l \<mapsto> lo\<lparr>o_sibling := Some x\<rparr>)\<rparr>"
  have h1: "x_object_set_parent h x (Some p) = Some ?h1" using x by (simp add: x_object_set_parent_def upd_def)
  have sg1: "seg o_sibling ?h1 (o_sons po) as None"
    using sg new by (subst seg_cong [of _ _ h]) (auto simp: list_all_iff)
  have cl: "chain_last o_sibling ?h1 (hd as) = Some ?l" by (rule chain_last_seg [OF sg1 ne])
  have lx: "?l \<noteq> x" "?l \<noteq> p" using lin new d by auto
  have h2: "upd ?h1 ?l (\<lambda>ob. ob\<lparr>o_sibling := Some x\<rparr>) = Some ?h2" using lo lx by (simp add: upd_def)
  obtain bs where bs: "as = bs @ [?l]" using ne append_butlast_last_id by metis
  have "distinct (bs @ [?l])" using d bs by (metis distinct.simps(2))
  then have lb: "?l \<notin> set bs" by simp
  have "seg o_sibling ?h1 (o_sons po) (bs @ [?l]) None" using sg1 bs by (simp only:)
  from seg_relink [OF this lb, of lo ?h2 "lo\<lparr>o_sibling := Some x\<rparr>" "Some x"]
  have "seg o_sibling ?h2 (o_sons po) (bs @ [?l]) (Some x)" using lo lx by simp
  then have sg2: "seg o_sibling ?h2 (o_sons po) as (Some x)" using bs by (simp only:)
  have nam2: "list_all (named ?h2) as" using nam lo new by (auto simp: list_all_iff named_def)
  have nmx: "x_object_get_name ?h2 x = Some (Some nm)" using x lx by (simp add: x_object_get_name_def fld_def)
  have chld: "x_object_get_child ?h2 (Some p) (Some nm) = child_loop ?h2 nm (o_sons po)"
    using po new lx by (simp add: x_object_get_child_def fld_def)
  have f1: "fld ?h1 p o_sons = Some (Some (hd as))" using po new first by (simp add: fld_def)
  have base: "x_object_insert_into_tree h (Some p) (Some x) = do {
      h2 \<leftarrow> do { same \<leftarrow> child_loop ?h2 nm (o_sons po);
        (case same of None \<Rightarrow> Some ?h2
         | Some s \<Rightarrow> do { l \<leftarrow> chain_last o_next ?h2 s; upd ?h2 l (\<lambda>ob. ob\<lparr>o_next := Some x\<rparr>) }) };
      h3 \<leftarrow> upd h2 x (\<lambda>ob. ob\<lparr>o_next := None, o_sibling := None\<rparr>);
      h4 \<leftarrow> upd h3 p (\<lambda>ob. ob\<lparr>o_count := o_count ob + 1\<rparr>);
      Some (0, h4) }"
    unfolding x_object_insert_into_tree_def prod.case option.case h1 Option.bind.bind_lunit f1 cl h2 nmx chld ..
  have nam_eq: "name_of ?h2 a = name_of h a" if "a \<in> set as" for a
    using that lo new by (auto simp: name_of_def)
  have find_eq: "find (\<lambda>a. EQN (name_of ?h2 a) nm) as = find (\<lambda>a. EQN (name_of h a) nm) as"
    by (rule find_cong) (simp_all add: nam_eq)
  have alive0: "list_all (\<lambda>a. objs h a \<noteq> None) as" using seg_alive [OF sg] by (auto simp: list_all_iff)
  have nx_eq: "list_all (\<lambda>a. map_option o_next (objs ?h2 a) = map_option o_next (objs h a)) as"
    using lo new by (auto simp: list_all_iff)
  obtain s l where c: "child_loop ?h2 nm (o_sons po) = Some (Some s)" "chain_last o_next ?h2 s = Some l"
    and l: "l \<in> insert x (set as)" and nt: "name_tail h as x nm = Some l"
  proof (cases "find (\<lambda>a. EQN (name_of ?h2 a) nm) as")
    case None
    have "child_loop ?h2 nm (o_sons po) = child_loop ?h2 nm (Some x)"
      by (rule child_loop_not_found [OF sg2 nam2 None])
    also have "\<dots> = Some (Some x)" using x lx by simp
    finally have "child_loop ?h2 nm (o_sons po) = Some (Some x)" .
    moreover have "chain_last o_next ?h2 x = Some x" using x lx by (subst chain_last.simps) simp
    moreover have "name_tail h as x nm = Some x" using None by (simp add: name_tail_def find_eq)
    ultimately show ?thesis by (intro that [of x x]) simp_all
  next
    case (Some s)
    have "child_loop ?h2 nm (o_sons po) = Some (Some s)" by (rule child_loop_found [OF sg2 nam2 Some])
    moreover have "s \<in> set as" using Some by (auto simp: find_Some_iff)
    then obtain i where i: "i < length as" "s = as ! i" by (auto simp: in_set_conv_nth)
    moreover obtain l where "l \<in> set as" "chain_last o_next h s = Some l" "chain_last o_next ?h2 s = Some l"
      using chain_last_next [OF n alive0 nx_eq i(1)] i(2) by auto
    moreover have "name_tail h as x nm = chain_last o_next h s" using Some by (simp add: name_tail_def find_eq)
    ultimately show ?thesis by (intro that [of s l]) simp_all
  qed
  have "objs ?h2 l \<noteq> None"
    using l seg_alive [OF sg2, of l] lx by (cases "l = x") auto
  then obtain lob where lob: "objs ?h2 l = Some lob" by auto
  have lp: "l \<noteq> p" using l new d by auto
  let ?h3 = "?h2\<lparr>objs := (objs ?h2)(l \<mapsto> lob\<lparr>o_next := Some x\<rparr>)\<rparr>"
  obtain xo3 where xo3: "objs ?h3 x = Some xo3"
    "xo3\<lparr>o_next := None, o_sibling := None\<rparr> = xo\<lparr>o_parent := Some p, o_next := None, o_sibling := None\<rparr>"
    using x lob lx by (cases "l = x") auto
  have po3: "objs ?h3 p = Some po" using po lp lx new by auto
  have xp: "x \<noteq> p" using new by simp
  let ?h4 = "?h3\<lparr>objs := (objs ?h3)(x \<mapsto> xo\<lparr>o_parent := Some p, o_next := None, o_sibling := None\<rparr>,
      p \<mapsto> po\<lparr>o_count := o_count po + 1\<rparr>)\<rparr>"
  have px: "objs (?h3\<lparr>objs := (objs ?h3)(x \<mapsto> xo\<lparr>o_parent := Some p, o_next := None, o_sibling := None\<rparr>)\<rparr>) p = Some po"
    using po lp lx new by auto
  have run: "x_object_insert_into_tree h (Some p) (Some x) = Some (0, ?h4)"
    unfolding base c Option.bind.bind_lunit option.case upd_Some [OF lob] upd_Some [OF xo3(1)]
    unfolding xo3(2) upd_Some [OF px] Option.bind.bind_lunit by simp
  have "objs ?h4 a = inserted h p as x (Some l) a" for a
  proof (cases "a = x \<or> a = p")
    case True
    then show ?thesis using x po xp ne by (auto simp: inserted_def)
  next
    case False
    then show ?thesis using lob lo l lin by (cases "a = l"; cases "a = ?l") (auto simp: inserted_def relink_def map_option_case split: option.split)
  qed
  then have "objs ?h4 = inserted h p as x (Some l)" by (rule ext)
  moreover have "brk ?h4 = brk h" by simp
  ultimately show ?thesis using run nt by metis
qed

lemma inserted_kids:
  assumes k: "kids h p as" and x: "objs h x = Some xo" "o_name xo = Some nm" and new: "x \<notin> set (p # as)"
    and h': "objs h' = inserted h p as x nl"
  shows "kids h' p (as @ [x])"
proof -
  obtain po where po: "objs h p = Some po" and sg: "seg o_sibling h (o_sons po) as None"
    and d: "distinct (p # as)" and nam: "list_all (named h) as"
    using k by (auto simp: kids_def)
  have xo': "objs h' x = Some (xo\<lparr>o_parent := Some p, o_next := None, o_sibling := None\<rparr>)"
    using x by (simp add: h' inserted_def)
  have po': "objs h' p = Some (po\<lparr>o_sons := (if as = [] then Some x else o_sons po), o_count := o_count po + 1\<rparr>)"
    using po new by (simp add: h' inserted_def)
  have old: "objs h' a = map_option (relink x (last as) nl a) (objs h a)" if "a \<in> set as" for a
    using that new d by (auto simp: h' inserted_def)
  have "list_all (named h') as"
    using nam old by (fastforce simp: list_all_iff named_def)
  moreover have "seg o_sibling h' (if as = [] then Some x else o_sons po) as (Some x)"
  proof (cases "as = []")
    case False
    then obtain bs where bs: "as = bs @ [last as]" using append_butlast_last_id by metis
    have "distinct (bs @ [last as])" using d bs by (metis distinct.simps(2))
    then have lb: "last as \<notin> set bs" by simp
    have "seg o_sibling h (o_sons po) (bs @ [last as]) None" using sg bs by (simp only:)
    then have s1: "seg o_sibling h (o_sons po) bs (Some (last as))" by (auto simp: seg_append split: option.splits)
    have in_as: "a \<in> set as" if "a \<in> set bs" for a using that bs by (metis Un_iff set_append)
    have "list_all (\<lambda>a. map_option o_sibling (objs h' a) = map_option o_sibling (objs h a)) bs"
      unfolding list_all_iff
    proof
      fix a assume a: "a \<in> set bs"
      then have "a \<noteq> last as" using lb by auto
      then show "map_option o_sibling (objs h' a) = map_option o_sibling (objs h a)"
        using old [OF in_as [OF a]] by (cases "objs h a") (simp_all add: relink_def)
    qed
    then have s2: "seg o_sibling h' (o_sons po) bs (Some (last as))" using s1 by (simp add: seg_cong)
    have "last as \<in> set as" using False by simp
    moreover from this obtain lo where "objs h (last as) = Some lo" using seg_alive [OF sg] by auto
    ultimately have "seg o_sibling h' (Some (last as)) [last as] (Some x)"
      using old [of "last as"] by (simp add: relink_def)
    with s2 have "seg o_sibling h' (o_sons po) (bs @ [last as]) (Some x)" by (auto simp: seg_append)
    then show ?thesis using False bs by (simp only: if_False)
  qed simp
  then have "seg o_sibling h' (if as = [] then Some x else o_sons po) (as @ [x]) None"
    using xo' by (auto simp: seg_append)
  ultimately show ?thesis
    using po' xo' x d new by (auto simp: kids_def named_def)
qed

lemma inserted_nexts:
  assumes k: "kids h p as" and n: "nexts_ok h as" and x: "objs h x = Some xo" and new: "x \<notin> set (p # as)"
    and h': "objs h' = inserted h p as x nl"
  shows "nexts_ok h' (as @ [x])"
  unfolding nexts_ok_def
proof (intro allI impI)
  fix i ob assume i: "i < length (as @ [x])" and ob: "objs h' ((as @ [x]) ! i) = Some ob"
  show "case o_next ob of None \<Rightarrow> True | Some b \<Rightarrow> b \<in> set (drop (i + 1) (as @ [x]))"
  proof (cases "i < length as")
    case False
    then have "i = length as" using i by simp
    then show ?thesis using ob x by (auto simp: h' inserted_def)
  next
    case True
    let ?a = "as ! i"
    have "?a \<in> set as" "?a \<noteq> x" "?a \<noteq> p" using True new k by (auto simp: kids_def)
    then obtain ob0 where ob0: "objs h ?a = Some ob0" "ob = relink x (last as) nl ?a ob0"
      using ob True by (auto simp: h' inserted_def nth_append)
    have old: "case o_next ob0 of None \<Rightarrow> True | Some b \<Rightarrow> b \<in> set (drop (i + 1) as)"
      using n True ob0 by (auto simp: nexts_ok_def)
    show ?thesis using old True by (auto simp: ob0 relink_def split: option.splits)
  qed
qed

text \<open>Insertion appends to the list of children, keeps the links in order and counts the child.\<close>

lemma x_object_insert_into_tree_kids:
  assumes k: "kids h p as" and n: "nexts_ok h as" and x: "objs h x = Some xo" "o_next xo = None" "o_name xo = Some nm"
    and new: "x \<notin> set (p # as)"
  obtains h' where "x_object_insert_into_tree h (Some p) (Some x) = Some (0, h')"
    "objs h' = inserted h p as x (name_tail h as x nm)" "brk h' = brk h" "kids h' p (as @ [x])" "nexts_ok h' (as @ [x])"
proof -
  obtain po where po: "objs h p = Some po" "seg o_sibling h (o_sons po) as None" using k by (auto simp: kids_def)
  have "\<exists>h'. x_object_insert_into_tree h (Some p) (Some x) = Some (0, h')
    \<and> objs h' = inserted h p as x (name_tail h as x nm) \<and> brk h' = brk h"
  proof (cases "as = []")
    case True
    then have "o_sons po = None" using po by simp
    with insert_first [OF po(1) this x(1)] new True show ?thesis by simp
  next
    case False
    show ?thesis by (rule insert_later [OF k n x new False])
  qed
  then show ?thesis
    using that inserted_kids [OF k x(1,3) new] inserted_nexts [OF k n x(1) new] by blast
qed

end
