(* ===== verification/Xw_Obj_Names.thy ===== *)
theory Xw_Obj_Names
  imports Xw_Obj_Tree
begin

text \<open>
  The second set of links of the children: \<^verbatim>\<open>next\<close> leads from a child to the next one of the
  same name.
\<close>

section \<open>Chains of one name\<close>

definition lname :: "heap \<Rightarrow> addr \<Rightarrow> string" where
  "lname h a = map tolower_c (name_of h a)"

definition nxt :: "heap \<Rightarrow> addr \<Rightarrow> ptr" where
  "nxt h a = o_next (the (objs h a))"

fun chain_ok :: "heap \<Rightarrow> addr list \<Rightarrow> bool" where
  "chain_ok h [] \<longleftrightarrow> True"
| "chain_ok h (a # as) \<longleftrightarrow> nxt h a = find (\<lambda>b. lname h b = lname h a) as \<and> chain_ok h as"

text \<open>
  The comparison of names is that of prefixes; it is equality on a set of names none of which
  is a proper prefix of another, apart from case.
\<close>

definition names_ok :: "string set \<Rightarrow> bool" where
  "names_ok N \<longleftrightarrow> (\<forall>a \<in> N. \<forall>b \<in> N. EQN a b \<longrightarrow> map tolower_c a = map tolower_c b)"

lemma EQN_lower: "map tolower_c a = map tolower_c b \<Longrightarrow> EQN a b"
  unfolding EQN_def strncaseeq_def by (metis take_map)

lemma names_okD: "names_ok N \<Longrightarrow> a \<in> N \<Longrightarrow> b \<in> N \<Longrightarrow> EQN a b \<longleftrightarrow> map tolower_c a = map tolower_c b"
  unfolding names_ok_def using EQN_lower by blast

lemma find_SomeD: "find P xs = Some a \<Longrightarrow> a \<in> set xs \<and> P a"
  by (auto simp: find_Some_iff)

lemma chain_ok_nexts_ok: "chain_ok h as \<Longrightarrow> nexts_ok h as"
proof (induction as)
  case (Cons a as)
  have n: "nexts_ok h as" using Cons by simp
  have f: "nxt h a = find (\<lambda>b. lname h b = lname h a) as" using Cons.prems by simp
  show ?case unfolding nexts_ok_def
  proof (intro allI impI)
    fix i ob assume i: "i < length (a # as)" and ob: "objs h ((a # as) ! i) = Some ob"
    show "case o_next ob of None \<Rightarrow> True | Some b \<Rightarrow> b \<in> set (drop (i + 1) (a # as))"
    proof (cases i)
      case 0
      then show ?thesis using f ob by (auto simp: nxt_def dest: find_SomeD split: option.split)
    next
      case (Suc j)
      then have "j < length as" "objs h (as ! j) = Some ob" using i ob by simp_all
      then have "case o_next ob of None \<Rightarrow> True | Some b \<Rightarrow> b \<in> set (drop (j + 1) as)" using n unfolding nexts_ok_def by blast
      then show ?thesis by (simp add: Suc split: option.splits)
    qed
  qed
qed (simp add: nexts_ok_def)

lemma chain_ok_append: "chain_ok h (bs @ as) \<Longrightarrow> chain_ok h as"
  by (induction bs) simp_all

lemma nxt_append:
  "chain_ok h (bs @ a # as) \<Longrightarrow> nxt h a = find (\<lambda>b. lname h b = lname h a) as"
  by (induction bs) simp_all

lemma nxt_sound: "chain_ok h as \<Longrightarrow> a \<in> set as \<Longrightarrow> nxt h a = Some b \<Longrightarrow> b \<in> set as \<and> lname h b = lname h a"
  by (induction as) (auto dest: find_SomeD)

section \<open>Walking a chain\<close>

text \<open>The addresses reached from one along \<^verbatim>\<open>next\<close>, itself first.\<close>

partial_function (option) walk_next :: "heap \<Rightarrow> ptr \<Rightarrow> addr list option" where
  "walk_next h p = (case p of
       None \<Rightarrow> Some []
     | Some a \<Rightarrow> do { q \<leftarrow> x_object_get_next h p; rest \<leftarrow> walk_next h q; Some (a # rest) })"

lemma walk_next_None [simp]: "walk_next h None = Some []"
  by (simp add: walk_next.simps)

lemma walk_next_Some: "objs h a = Some ob \<Longrightarrow> walk_next h (Some a) = map_option (Cons a) (walk_next h (nxt h a))"
  by (subst walk_next.simps) (simp add: x_object_get_next_def fld_def nxt_def map_conv_bind_option comp_def)

lemma walk_next_find:
  "chain_ok h as \<Longrightarrow> list_all (\<lambda>a. objs h a \<noteq> None) as \<Longrightarrow>
     walk_next h (find (\<lambda>b. lname h b = nm) as) = Some (filter (\<lambda>b. lname h b = nm) as)"
proof (induction as)
  case (Cons a as)
  then obtain ob where ob: "objs h a = Some ob" by auto
  have IH: "walk_next h (find (\<lambda>b. lname h b = nm) as) = Some (filter (\<lambda>b. lname h b = nm) as)" using Cons by simp
  show ?case
  proof (cases "lname h a = nm")
    case True
    then have "nxt h a = find (\<lambda>b. lname h b = nm) as" using Cons.prems by simp
    then show ?thesis using True IH by (simp add: walk_next_Some [OF ob])
  qed (simp add: IH)
qed simp

lemma chain_last_find:
  "chain_ok h as \<Longrightarrow> list_all (\<lambda>a. objs h a \<noteq> None) as \<Longrightarrow> find (\<lambda>b. lname h b = nm) as = Some s \<Longrightarrow>
     chain_last o_next h s = Some (last (filter (\<lambda>b. lname h b = nm) as))"
proof (induction as arbitrary: s)
  case (Cons a as)
  then obtain ob where ob: "objs h a = Some ob" by auto
  show ?case
  proof (cases "lname h a = nm")
    case True
    then have s: "s = a" and n: "o_next ob = find (\<lambda>b. lname h b = nm) as" using Cons.prems ob by (auto simp: nxt_def)
    show ?thesis
    proof (cases "find (\<lambda>b. lname h b = nm) as")
      case None
      then have "filter (\<lambda>b. lname h b = nm) as = []" by (auto simp: find_None_iff filter_empty_conv)
      then show ?thesis using True None n ob by (simp add: s chain_last.simps [of o_next h a])
    next
      case (Some t)
      then have "filter (\<lambda>b. lname h b = nm) as \<noteq> []" by (auto simp: filter_empty_conv dest: find_SomeD)
      moreover have "chain_last o_next h t = Some (last (filter (\<lambda>b. lname h b = nm) as))" using Cons Some by simp
      ultimately show ?thesis using True Some n ob by (simp add: s chain_last.simps [of o_next h a])
    qed
  qed (use Cons in simp)
qed simp

section \<open>Appending to a chain\<close>

text \<open>Only the last child of the new name gets a new link.\<close>

lemma chain_ok_snoc:
  assumes "chain_ok h as" "distinct (as @ [x])"
    "\<And>a. a \<in> set (as @ [x]) \<Longrightarrow> lname h' a = lname h a" "nxt h' x = None"
    "\<And>a. a \<in> set as \<Longrightarrow> nxt h' a = (if filter (\<lambda>b. lname h b = lname h x) as \<noteq> []
          \<and> a = last (filter (\<lambda>b. lname h b = lname h x) as) then Some x else nxt h a)"
  shows "chain_ok h' (as @ [x])"
  using assms
proof (induction as)
  case (Cons a as)
  let ?P = "\<lambda>b. lname h b = lname h x"
  have ln: "lname h' b = lname h b" if "b \<in> set (a # as @ [x])" for b using Cons.prems(3) that by simp
  have fe: "find (\<lambda>b. lname h' b = lname h' a) (as @ [x]) = find (\<lambda>b. lname h b = lname h a) (as @ [x])"
    by (rule find_cong) (simp_all add: ln)
  have na: "nxt h a = find (\<lambda>b. lname h b = lname h a) as" using Cons.prems(1) by simp
  have last_in: "filter ?P as \<noteq> [] \<Longrightarrow> last (filter ?P as) \<in> set as" using last_in_set by fastforce
  have "chain_ok h' (as @ [x])"
  proof (rule Cons.IH)
    show "chain_ok h as" using Cons.prems(1) by simp
    show "distinct (as @ [x])" using Cons.prems(2) by simp
    show "nxt h' x = None" by (rule Cons.prems(4))
    show "lname h' b = lname h b" if "b \<in> set (as @ [x])" for b using ln that by simp
    show "nxt h' b = (if filter ?P as \<noteq> [] \<and> b = last (filter ?P as) then Some x else nxt h b)" if "b \<in> set as" for b
      using that Cons.prems(2) by (subst Cons.prems(5)) auto
  qed
  moreover have "nxt h' a = find (\<lambda>b. lname h b = lname h a) (as @ [x])"
  proof (cases "filter ?P (a # as) \<noteq> [] \<and> a = last (filter ?P (a # as))")
    case True
    have "filter ?P as = []"
    proof (rule ccontr)
      assume ne: "filter ?P as \<noteq> []"
      then have "a = last (filter ?P as)" using True by (simp split: if_splits)
      then show False using last_in [OF ne] Cons.prems(2) by simp
    qed
    moreover from this have "lname h a = lname h x" using True by (simp split: if_splits)
    moreover have "nxt h' a = Some x" using True Cons.prems(5) [of a] by (simp split: if_splits)
    ultimately show ?thesis by (induction as) (simp_all split: if_splits)
  next
    case False
    then have "nxt h' a = nxt h a" using trans [OF Cons.prems(5) [of a] if_not_P [OF False]] by simp
    moreover have "find (\<lambda>b. lname h b = lname h a) (as @ [x]) = find (\<lambda>b. lname h b = lname h a) as"
    proof (cases "lname h a = lname h x")
      case True
      then have "filter ?P as \<noteq> []" using False by auto
      then show ?thesis using True by (induction as) auto
    next
      case False
      then show ?thesis by (induction as) auto
    qed
    ultimately show ?thesis using na by simp
  qed
  ultimately show ?case using fe by simp
qed simp

lemma find_EQN:
  "names_ok N \<Longrightarrow> nm \<in> N \<Longrightarrow> name_of h ` set as \<subseteq> N \<Longrightarrow>
     find (\<lambda>a. EQN (name_of h a) nm) as = find (\<lambda>a. lname h a = map tolower_c nm) as"
  by (rule find_cong) (auto simp: names_okD lname_def)

lemma inserted_chain:
  assumes k: "kids h p as" and c: "chain_ok h as" and x: "objs h x = Some xo" "o_name xo = Some nm"
    and new: "x \<notin> set (p # as)" and N: "names_ok (insert nm (name_of h ` set as))"
    and h': "objs h' = inserted h p as x (name_tail h as x nm)"
  shows "chain_ok h' (as @ [x])"
proof (rule chain_ok_snoc [OF c])
  let ?P = "\<lambda>b. lname h b = map tolower_c nm"
  show "distinct (as @ [x])" using k new by (auto simp: kids_def)
  have alive: "\<exists>ob. objs h a = Some ob" if "a \<in> set as" for a using kids_alive [OF k] that by (auto simp: list_all_iff)
  have old: "objs h' a = map_option (relink x (last as) (name_tail h as x nm) a) (objs h a)" if "a \<in> set as" for a
    using that new k by (auto simp: h' inserted_def kids_def)
  show "lname h' a = lname h a" if "a \<in> set (as @ [x])" for a
  proof (cases "a = x")
    case True
    then show ?thesis using x by (simp add: lname_def name_of_def h' inserted_def)
  next
    case False
    then have "a \<in> set as" using that by simp
    then show ?thesis using alive old by (fastforce simp: lname_def name_of_def)
  qed
  show "nxt h' x = None" using x by (simp add: nxt_def h' inserted_def)
  have lx: "lname h x = map tolower_c nm" using x by (simp add: lname_def name_of_def)
  have fe: "find (\<lambda>a. EQN (name_of h a) nm) as = find ?P as"
    by (rule find_EQN [OF N]) auto
  have tail: "name_tail h as x nm = Some a \<longleftrightarrow> filter ?P as \<noteq> [] \<and> a = last (filter ?P as)" if "a \<in> set as" for a
  proof (cases "find ?P as")
    case None
    then have "filter ?P as = []" by (auto simp: find_None_iff filter_empty_conv)
    then show ?thesis using None new that by (auto simp: name_tail_def fe)
  next
    case (Some s)
    then have "filter ?P as \<noteq> []" by (auto simp: filter_empty_conv dest: find_SomeD)
    then show ?thesis using Some chain_last_find [OF c kids_alive [OF k] Some] by (auto simp: name_tail_def fe)
  qed
  show "nxt h' a = (if filter (\<lambda>b. lname h b = lname h x) as \<noteq> []
          \<and> a = last (filter (\<lambda>b. lname h b = lname h x) as) then Some x else nxt h a)" if "a \<in> set as" for a
  proof -
    from alive [OF that] obtain ob where "objs h a = Some ob" by blast
    then show ?thesis using tail [OF that] old [OF that] lx by (simp add: nxt_def relink_def)
  qed
qed

section \<open>Removing from a chain\<close>

lemma chain_ok_remove:
  assumes "chain_ok h (bs @ x # cs)" "distinct (bs @ x # cs)"
    "\<And>a. a \<in> set (bs @ cs) \<Longrightarrow> lname h' a = lname h a"
    "\<And>a. a \<in> set (bs @ cs) \<Longrightarrow> nxt h' a = (if nxt h a = Some x then nxt h x else nxt h a)"
  shows "chain_ok h' (bs @ cs)"
  using assms
proof (induction bs)
  case Nil
  have "chain_ok h ds \<Longrightarrow> x \<notin> set ds \<Longrightarrow> set ds \<subseteq> set cs \<Longrightarrow> chain_ok h' ds" for ds
  proof (induction ds)
    case (Cons d ds)
    have "find (\<lambda>b. lname h' b = lname h' d) ds = find (\<lambda>b. lname h b = lname h d) ds"
      using Cons.prems(3) Nil(3) by (intro find_cong) auto
    moreover have "nxt h d \<noteq> Some x" using nxt_sound [OF Cons.prems(1), of d x] Cons.prems(2) by auto
    ultimately show ?case using Cons Nil(4) by auto
  qed simp
  then show ?case using Nil by simp
next
  case (Cons a bs)
  have IH: "chain_ok h' (bs @ cs)" using Cons by simp
  have "find (\<lambda>b. lname h' b = lname h' a) (bs @ cs) = find (\<lambda>b. lname h b = lname h a) (bs @ cs)"
    using Cons.prems(3) by (intro find_cong) auto
  moreover have "find (\<lambda>b. lname h b = lname h a) (bs @ cs) = (if nxt h a = Some x then nxt h x else nxt h a)"
  proof -
    have na: "nxt h a = find (\<lambda>b. lname h b = lname h a) (bs @ x # cs)" using Cons.prems(1) by simp
    have nx: "nxt h x = find (\<lambda>b. lname h b = lname h x) cs" using Cons.prems(1) nxt_append [of h "a # bs" x cs] by simp
    have "x \<notin> set bs" "x \<notin> set cs" using Cons.prems(2) by simp_all
    then have "find (\<lambda>b. lname h b = lname h a) (bs @ cs) =
        (if find (\<lambda>b. lname h b = lname h a) (bs @ x # cs) = Some x then find (\<lambda>b. lname h b = lname h x) cs
         else find (\<lambda>b. lname h b = lname h a) (bs @ x # cs))"
      by (induction bs) (auto dest: find_SomeD)
    then show ?thesis by (simp only: na nx)
  qed
  ultimately show ?case using IH Cons.prems(4) [of a] by simp
qed

text \<open>No link leads to the first child of a name, and at most one to any child.\<close>

lemma nxt_first:
  "chain_ok h as \<Longrightarrow> distinct as \<Longrightarrow> b \<in> set as \<Longrightarrow> nxt h b = Some x \<Longrightarrow> find (\<lambda>c. lname h c = lname h x) as \<noteq> Some x"
proof (induction as)
  case (Cons c cs)
  have "x \<in> set cs" "b = c \<longrightarrow> lname h c = lname h x"
    using Cons.prems nxt_sound [of h cs b x] by (cases "b = c"; auto dest: find_SomeD sym)+
  then show ?case using Cons by auto
qed simp

lemma nxt_inj:
  "chain_ok h as \<Longrightarrow> distinct as \<Longrightarrow> a \<in> set as \<Longrightarrow> b \<in> set as \<Longrightarrow> nxt h a = Some x \<Longrightarrow> nxt h b = Some x \<Longrightarrow> a = b"
proof (induction as)
  case (Cons c cs)
  have no: False if "d \<in> set cs" "nxt h d = Some x" "nxt h c = Some x" for d
  proof -
    have "find (\<lambda>b. lname h b = lname h c) cs = Some x" using Cons.prems(1) that(3) by simp
    moreover from this have "lname h x = lname h c" by (auto dest: find_SomeD)
    ultimately show False using nxt_first [of h cs d x] that Cons.prems(1,2) by simp
  qed
  show ?case
  proof (cases "a = c \<or> b = c")
    case True
    then show ?thesis using no Cons.prems(3-6) by (cases "a = c"; cases "b = c") auto
  next
    case False
    then show ?thesis using Cons.IH Cons.prems by simp
  qed
qed simp

text \<open>The walk that looks for the predecessor of \<open>x\<close> among its name.\<close>

lemma chain_prev_name:
  "chain_ok h as \<Longrightarrow> distinct as \<Longrightarrow> \<forall>a \<in> set as. \<exists>ob. objs h' a = Some ob \<and> o_next ob = nxt h a \<Longrightarrow>
     x \<in> set as \<Longrightarrow> find (\<lambda>b. lname h b = lname h x) as = Some s \<Longrightarrow>
     \<exists>pv. chain_prev o_next h' x xt (Some s) = Some (pv, Some x) \<and>
       (s = x \<and> pv = xt \<or> (\<exists>b \<in> set as. b \<noteq> x \<and> pv = Some b \<and> nxt h b = Some x))"
proof (induction as arbitrary: s xt)
  case (Cons a as)
  have c: "chain_ok h as" "distinct as" "\<forall>a \<in> set as. \<exists>ob. objs h' a = Some ob \<and> o_next ob = nxt h a"
    and na: "nxt h a = find (\<lambda>b. lname h b = lname h a) as" using Cons.prems by simp_all
  obtain ob where ob: "objs h' a = Some ob" "o_next ob = nxt h a" using Cons.prems(3) by auto
  show ?case
  proof (cases "lname h a = lname h x")
    case True
    then have s: "s = a" using Cons.prems(5) by simp
    show ?thesis
    proof (cases "a = x")
      case False
      then have xin: "x \<in> set as" using Cons.prems(4) by simp
      then have "find (\<lambda>b. lname h b = lname h x) as \<noteq> None" by (auto simp: find_None_iff)
      then obtain t where t: "find (\<lambda>b. lname h b = lname h x) as = Some t" by auto
      then have "nxt h a = Some t" using na True by simp
      then show ?thesis using Cons.IH [OF c xin t, of "Some a"] ob False s by auto
    qed (simp add: s)
  next
    case False
    then have "x \<in> set as" "find (\<lambda>b. lname h b = lname h x) as = Some s" using Cons.prems by auto
    then show ?thesis using Cons.IH [OF c, of s xt] by auto
  qed
qed simp

lemma chain_prev_absent:
  "chain_ok h as \<Longrightarrow> \<forall>a \<in> set as. \<exists>ob. objs h' a = Some ob \<and> o_next ob = nxt h a \<Longrightarrow> x \<notin> set as \<Longrightarrow>
     \<exists>pv. chain_prev o_next h' x xt (find (\<lambda>b. lname h b = nm) as) = Some (pv, None)"
proof (induction as arbitrary: xt)
  case (Cons a as)
  obtain ob where ob: "objs h' a = Some ob" "o_next ob = nxt h a" using Cons.prems by auto
  then show ?case using Cons by auto
qed simp


section \<open>Removal\<close>

text \<open>What removing \<open>x\<close> from between \<open>bs\<close> and the rest does to another child.\<close>

definition unlink :: "heap \<Rightarrow> addr \<Rightarrow> addr list \<Rightarrow> addr \<Rightarrow> xobject \<Rightarrow> xobject" where
  "unlink h x bs a ob = ob\<lparr>o_sibling := (if bs \<noteq> [] \<and> a = last bs then o_sibling (the (objs h x)) else o_sibling ob),
     o_next := (if o_next ob = Some x then nxt h x else o_next ob)\<rparr>"

lemma unlink_simps [simp]:
  "o_name (unlink h x bs a ob) = o_name ob" "o_next (unlink h x bs a ob) = (if o_next ob = Some x then nxt h x else o_next ob)"
  "o_sibling (unlink h x bs a ob) = (if bs \<noteq> [] \<and> a = last bs then o_sibling (the (objs h x)) else o_sibling ob)"
  by (simp_all add: unlink_def)

lemma seg_unlink:
  assumes "seg o_sibling h p (bs @ x # cs) q" "distinct (bs @ x # cs)"
    "\<forall>a \<in> set (bs @ cs). objs h' a = map_option (unlink h x bs a) (objs h a)"
  shows "seg o_sibling h' (if bs = [] then o_sibling (the (objs h x)) else p) (bs @ cs) q"
proof -
  obtain r where r: "seg o_sibling h p bs r" "seg o_sibling h r (x # cs) q" using assms(1) by (auto simp: seg_append)
  have cs: "seg o_sibling h (o_sibling (the (objs h x))) cs q" using r(2) by (auto split: option.splits)
  have same: "list_all (\<lambda>a. map_option o_sibling (objs h' a) = map_option o_sibling (objs h a)) ds"
    if "set ds \<subseteq> set (bs @ cs)" "bs = [] \<or> last bs \<notin> set ds" for ds
    unfolding list_all_iff
  proof
    fix a assume a: "a \<in> set ds"
    then have "objs h' a = map_option (unlink h x bs a) (objs h a)" using assms(3) that(1) by blast
    then show "map_option o_sibling (objs h' a) = map_option o_sibling (objs h a)"
      using a that(2) by (cases "objs h a") auto
  qed
  have "bs = [] \<or> last bs \<notin> set cs" using assms(2) by (cases bs rule: rev_cases) auto
  then have cs': "seg o_sibling h' (o_sibling (the (objs h x))) cs q" using cs seg_cong [OF same, of cs] by simp
  show ?thesis
  proof (cases "bs = []")
    case False
    then obtain ds where ds: "bs = ds @ [last bs]" using append_butlast_last_id by metis
    have "distinct (ds @ [last bs])" using assms(2) ds by (metis distinct_append)
    moreover have "set ds \<subseteq> set bs" using ds by (metis Un_upper1 set_append)
    ultimately have "list_all (\<lambda>a. map_option o_sibling (objs h' a) = map_option o_sibling (objs h a)) ds"
      by (intro same) auto
    moreover have "seg o_sibling h p (ds @ [last bs]) r" using r(1) ds by (simp only:)
    then have "seg o_sibling h p ds (Some (last bs))" "objs h (last bs) \<noteq> None"
      by (auto simp: seg_append split: option.splits)
    ultimately have "seg o_sibling h' p ds (Some (last bs))" by (simp add: seg_cong)
    moreover obtain lo where "objs h (last bs) = Some lo" using \<open>objs h (last bs) \<noteq> None\<close> by auto
    then have "seg o_sibling h' (Some (last bs)) [last bs] (o_sibling (the (objs h x)))"
      using assms(3) False by simp
    ultimately have "seg o_sibling h' p (ds @ [last bs] @ cs) q"
      using cs' by (auto simp: seg_append split: option.splits)
    then have "seg o_sibling h' p ((ds @ [last bs]) @ cs) q" by simp
    then show ?thesis using False ds by (simp only: if_False)
  qed (use cs' in simp)
qed

lemma chain_ok_unlink:
  assumes "chain_ok h (bs @ x # cs)" "distinct (bs @ x # cs)" "list_all (\<lambda>a. objs h a \<noteq> None) (bs @ x # cs)"
    "\<forall>a \<in> set (bs @ cs). objs h' a = map_option (unlink h x bs a) (objs h a)"
  shows "chain_ok h' (bs @ cs)"
proof (rule chain_ok_remove [OF assms(1,2)])
  fix a assume a: "a \<in> set (bs @ cs)"
  then obtain ob where "objs h a = Some ob" using assms(3) by (auto simp: list_all_iff)
  moreover have "objs h' a = map_option (unlink h x bs a) (objs h a)" using a assms(4) by blast
  ultimately show "lname h' a = lname h a" "nxt h' a = (if nxt h a = Some x then nxt h x else nxt h a)"
    by (simp_all add: lname_def name_of_def nxt_def)
qed

end
