(* ===== verification/Xw_Obj_Remove.thy ===== *)
theory Xw_Obj_Remove
  imports Xw_Obj_Names
begin

text \<open>Unlinking a child from its parent and destroying it, step by step.\<close>

section \<open>Finding the neighbours\<close>

text \<open>The situation both operations start from.\<close>

definition child_at :: "heap \<Rightarrow> addr \<Rightarrow> addr list \<Rightarrow> addr \<Rightarrow> addr list \<Rightarrow> bool" where
  "child_at h p bs x cs \<longleftrightarrow> kids h p (bs @ x # cs) \<and> chain_ok h (bs @ x # cs)
     \<and> names_ok (name_of h ` set (bs @ x # cs))"

lemma child_atD:
  assumes "child_at h p bs x cs"
  obtains po xo nm where "objs h p = Some po" "objs h x = Some xo" "o_name xo = Some nm" "nm = name_of h x"
    "seg o_sibling h (o_sons po) (bs @ x # cs) None" "distinct (p # bs @ x # cs)"
    "list_all (named h) (bs @ x # cs)" "chain_ok h (bs @ x # cs)" "names_ok (name_of h ` set (bs @ x # cs))"
proof -
  obtain po where po: "objs h p = Some po" "seg o_sibling h (o_sons po) (bs @ x # cs) None"
    "distinct (p # bs @ x # cs)" "list_all (named h) (bs @ x # cs)"
    using assms by (auto simp: child_at_def kids_def)
  then have "named h x" by simp
  then obtain xo nm where "objs h x = Some xo" "o_name xo = Some nm" by (auto simp: named_def)
  then show thesis using po that assms by (simp add: child_at_def name_of_def)
qed

lemma named_alive: "list_all (named h) as \<Longrightarrow> list_all (\<lambda>a. objs h a \<noteq> None) as"
  by (auto simp: list_all_iff named_def)

text \<open>The predecessor in the chain of the name, if any, and only it, has the link to \<open>x\<close>.\<close>

lemma name_prev:
  assumes "child_at h p bs x cs" and nx: "\<forall>a \<in> set (bs @ x # cs). \<exists>ob. objs h' a = Some ob \<and> o_next ob = nxt h a"
  shows "\<exists>s pv. find (\<lambda>b. lname h b = lname h x) (bs @ x # cs) = Some s
    \<and> chain_prev o_next h' x None (Some s) = Some (pv, Some x)
    \<and> (\<forall>a \<in> set (bs @ x # cs). pv = Some a \<longleftrightarrow> nxt h a = Some x) \<and> (\<forall>a. pv = Some a \<longrightarrow> a \<in> set (bs @ cs))"
proof -
  let ?as = "bs @ x # cs"
  obtain po where d: "distinct ?as" and c: "chain_ok h ?as"
    using assms(1) by (auto elim!: child_atD)
  have "find (\<lambda>b. lname h b = lname h x) ?as \<noteq> None" by (auto simp: find_None_iff)
  then obtain s where s: "find (\<lambda>b. lname h b = lname h x) ?as = Some s" by auto
  obtain pv where pv: "chain_prev o_next h' x None (Some s) = Some (pv, Some x)"
    "s = x \<and> pv = None \<or> (\<exists>b \<in> set ?as. b \<noteq> x \<and> pv = Some b \<and> nxt h b = Some x)"
    using chain_prev_name [OF c d nx _ s, of None] by auto
  have "pv = Some a \<longleftrightarrow> nxt h a = Some x" if a: "a \<in> set ?as" for a
    using pv(2)
  proof
    assume "s = x \<and> pv = None"
    then show ?thesis using nxt_first [OF c d a, of x] s by auto
  next
    assume "\<exists>b \<in> set ?as. b \<noteq> x \<and> pv = Some b \<and> nxt h b = Some x"
    then show ?thesis using nxt_inj [OF c d a] by auto
  qed
  moreover have "a \<in> set (bs @ cs)" if "pv = Some a" for a using pv(2) that by auto
  ultimately show ?thesis using s pv(1) by blast
qed

text \<open>A record field set to the value it has.\<close>

lemma xobject_next_id: "o_next ob = n \<Longrightarrow> ob\<lparr>o_next := n\<rparr> = ob"
  by auto

section \<open>Unlinking\<close>

definition removed :: "heap \<Rightarrow> addr \<Rightarrow> addr list \<Rightarrow> addr \<Rightarrow> addr list \<Rightarrow> addr \<Rightarrow> xobject option" where
  "removed h p bs x cs = (\<lambda>a.
     if a = x then map_option (\<lambda>ob. ob\<lparr>o_parent := None, o_next := None, o_sibling := None, o_cr := o_cr ob OR XOBJ_CR_DIRTY\<rparr>) (objs h x)
     else if a = p then map_option (\<lambda>ob. ob\<lparr>o_count := (if o_count ob \<le> 0 then o_count ob else o_count ob - 1), o_cr := o_cr ob OR XOBJ_CR_DIRTY\<rparr>) (objs h p)
     else if a \<in> set (bs @ cs) then map_option (unlink h x bs a) (objs h a)
     else objs h a)"

lemma x_object_remove_from_treenode_run:
  assumes at: "child_at h p bs x cs"
  shows "\<exists>h'. x_object_remove_from_treenode h (Some p) (Some x) = Some (0, h') \<and> objs h' = removed h p bs x cs \<and> brk h' = brk h"
proof -
  let ?as = "bs @ x # cs"
  obtain po xo nm where po: "objs h p = Some po" and xo: "objs h x = Some xo" "o_name xo = Some nm" "nm = name_of h x"
    and sg: "seg o_sibling h (o_sons po) ?as None" and d: "distinct (p # ?as)"
    and nam: "list_all (named h) ?as" and c: "chain_ok h ?as" and N: "names_ok (name_of h ` set ?as)"
    using at by (rule child_atD)
  have xp: "x \<noteq> p" using d by auto
  let ?x1 = "xo\<lparr>o_parent := None\<rparr>"
  let ?h1 = "h\<lparr>objs := (objs h)(x \<mapsto> ?x1)\<rparr>"
  have h1: "x_object_set_parent h x None = Some ?h1" using xo by (simp add: x_object_set_parent_def upd_def)
  have f1: "fld ?h1 p o_sons = Some (Some (hd ?as))"
    using seg_start [OF sg] po xp by (simp add: fld_def)
  have k1: "kids ?h1 p ?as"
  proof -
    have "seg o_sibling ?h1 (o_sons po) ?as None"
      using sg xo(1) by (subst seg_cong [of _ _ h]) (auto simp: list_all_iff)
    moreover have "list_all (named ?h1) ?as" using nam xo by (auto simp: list_all_iff named_def)
    ultimately show ?thesis using po xp d by (simp add: kids_def)
  qed
  have ln1: "name_of ?h1 a = name_of h a" for a using xo by (simp add: name_of_def)
  have nx1: "\<forall>a \<in> set ?as. \<exists>ob. objs ?h1 a = Some ob \<and> o_next ob = nxt h a"
    using nam xo by (fastforce simp: list_all_iff named_def nxt_def)
  obtain s pv where s: "find (\<lambda>b. lname h b = lname h x) ?as = Some s"
    and pv: "chain_prev o_next ?h1 x None (Some s) = Some (pv, Some x)"
    "\<forall>a \<in> set ?as. pv = Some a \<longleftrightarrow> nxt h a = Some x" "\<forall>a. pv = Some a \<longrightarrow> a \<in> set (bs @ cs)"
    using name_prev [OF at nx1] by blast
  have nm1: "x_object_get_name ?h1 x = Some (Some nm)" using xo by (simp add: x_object_get_name_def fld_def)
  have same: "x_object_get_child ?h1 (Some p) (Some nm) = Some (Some s)"
    using x_object_get_child_kids [OF k1, of nm] find_EQN [OF N, of nm h ?as] s xo
    by (simp add: ln1 lname_def)
  have nx: "fld ?h1 x o_next = Some (o_next xo)" by (simp add: fld_def)
  define objs2 where "objs2 = (case pv of None \<Rightarrow> objs ?h1 | Some t \<Rightarrow> (objs ?h1)(t := map_option (\<lambda>ob. ob\<lparr>o_next := o_next xo\<rparr>) (objs h t)))"
  have alive: "\<exists>ob. objs h a = Some ob" if "a \<in> set ?as" for a using nam that by (auto simp: list_all_iff named_def)
  have h2: "(case pv of Some t \<Rightarrow> if Some x = Some x then upd ?h1 t (\<lambda>ob. ob\<lparr>o_next := o_next xo\<rparr>) else Some ?h1
                     | None \<Rightarrow> Some ?h1) = Some (h\<lparr>objs := objs2\<rparr>)"
  proof (cases pv)
    case (Some t)
    then have "t \<in> set (bs @ cs)" using pv(3) by auto
    moreover from this obtain ob where "objs h t = Some ob" using alive by fastforce
    ultimately show ?thesis using Some d by (auto simp: objs2_def upd_def)
  qed (simp add: objs2_def)
  have x2: "objs2 x = Some ?x1" using pv(3) d by (cases pv) (auto simp: objs2_def)
  let ?x3 = "?x1\<lparr>o_next := None\<rparr>"
  let ?h3 = "h\<lparr>objs := objs2(x \<mapsto> ?x3)\<rparr>"
  have h3: "upd (h\<lparr>objs := objs2\<rparr>) x (\<lambda>ob. ob\<lparr>o_next := None\<rparr>) = Some ?h3" using x2 by (simp add: upd_def)
  have p2: "objs2 p = Some po" using po pv(3) d by (cases pv) (auto simp: objs2_def)
  have f3: "fld ?h3 p o_sons = Some (o_sons po)" using p2 xp by (simp add: fld_def)
  have "list_all (\<lambda>a. map_option o_sibling (objs ?h3 a) = map_option o_sibling (objs h a)) ?as"
    using xo(1) by (cases pv) (auto simp: objs2_def list_all_iff option.map_comp comp_def)
  then have sg3: "seg o_sibling ?h3 (o_sons po) ?as None" using sg by (simp only: seg_cong)
  have xbs: "x \<notin> set bs" using d by auto
  note cp = chain_prev_seg [OF sg3 xbs, of None]
  have sx: "fld ?h3 x o_sibling = Some (o_sibling xo)" by (simp add: fld_def)
  define objs4 where "objs4 = (if bs = [] then objs ?h3 else
      (objs ?h3)(last bs := map_option (\<lambda>ob. ob\<lparr>o_sibling := o_sibling xo\<rparr>) (objs2 (last bs))))"
  have h4: "(case if bs = [] then None else Some (last bs) of
          Some t \<Rightarrow> if Some x = Some x then upd ?h3 t (\<lambda>ob. ob\<lparr>o_sibling := o_sibling xo\<rparr>) else Some ?h3
        | None \<Rightarrow> Some ?h3) = Some (h\<lparr>objs := objs4\<rparr>)"
  proof (cases "bs = []")
    case False
    then have l: "last bs \<in> set ?as" "last bs \<noteq> x" using xbs by auto
    then obtain ob where "objs h (last bs) = Some ob" using alive by blast
    then have "objs2 (last bs) \<noteq> None" using l by (cases pv) (auto simp: objs2_def)
    then show ?thesis using False l by (auto simp: objs4_def upd_def)
  qed (simp add: objs4_def)
  have x4: "objs4 x = Some ?x3" using xbs by (cases "bs = []") (auto simp: objs4_def)
  have p4: "objs4 p = Some po" using p2 d xp by (cases "bs = []") (auto simp: objs4_def)
  let ?po' = "po\<lparr>o_count := (if o_count po \<le> 0 then o_count po else o_count po - 1), o_cr := o_cr po OR XOBJ_CR_DIRTY\<rparr>"
  let ?xo' = "xo\<lparr>o_parent := None, o_next := None, o_sibling := None, o_cr := o_cr xo OR XOBJ_CR_DIRTY\<rparr>"
  let ?h7 = "h\<lparr>objs := objs4(x \<mapsto> ?xo', p \<mapsto> ?po')\<rparr>"
  have "x_object_remove_from_treenode h (Some p) (Some x) = Some (0, ?h7)"
    unfolding x_object_remove_from_treenode_def prod.case option.case h1 Option.bind.bind_lunit f1 nm1 same pv(1)
      nx h2 h3 f3 cp sx h4
    using x4 p4 xp
    by (simp add: set_dirty_def x_object_get_cr_def x_object_set_cr_def upd_def fld_def fun_upd_twist)
  moreover have "objs ?h7 a = removed h p bs x cs a" for a
  proof (cases "a = x \<or> a = p")
    case True
    then show ?thesis using xo po xp by (auto simp: removed_def)
  next
    case False
    show ?thesis
    proof (cases "a \<in> set (bs @ cs)")
      case True
      then obtain ob where ob: "objs h a = Some ob" using alive [of a] by auto
      have "pv = Some a \<longleftrightarrow> o_next ob = Some x" using pv(2) True ob by (auto simp: nxt_def)
      then show ?thesis using False True ob xo
        by (cases pv; cases "bs = []"; cases "a = last bs")
          (auto simp: removed_def objs4_def objs2_def unlink_def nxt_def)
    next
      case notin: False
      then have "pv \<noteq> Some a" "bs \<noteq> [] \<longrightarrow> a \<noteq> last bs" using pv(3) by auto
      then show ?thesis using False notin by (cases pv) (auto simp: removed_def objs4_def objs2_def)
    qed
  qed
  ultimately show ?thesis by (intro exI [of _ ?h7] conjI ext) simp_all
qed


text \<open>A child that is not the first leaves its siblings as they were; the first keeps only itself.\<close>

lemma kids_removed:
  assumes at: "child_at h p bs x cs" and h': "objs h' = removed h p bs x cs"
  shows "kids h' p (if bs = [] then [x] else bs @ cs)"
proof -
  let ?as = "bs @ x # cs"
  obtain po xo nm where po: "objs h p = Some po" and xo: "objs h x = Some xo" "o_name xo = Some nm"
    and sg: "seg o_sibling h (o_sons po) ?as None" and d: "distinct (p # ?as)" and nam: "list_all (named h) ?as"
    using at by (auto elim!: child_atD)
  have other: "\<forall>a \<in> set (bs @ cs). objs h' a = map_option (unlink h x bs a) (objs h a)"
    using d by (auto simp: h' removed_def)
  have named': "named h' a" if "a \<in> set (bs @ cs)" for a
  proof -
    have "named h a" using nam that by (auto simp: list_all_iff)
    moreover have "objs h' a = map_option (unlink h x bs a) (objs h a)" using other that by blast
    ultimately show ?thesis by (auto simp: named_def)
  qed
  have p': "\<exists>po'. objs h' p = Some po' \<and> o_sons po' = o_sons po" using po d by (auto simp: h' removed_def)
  have x': "\<exists>xo'. objs h' x = Some xo' \<and> o_sibling xo' = None \<and> o_name xo' = Some nm"
    using xo by (simp add: h' removed_def)
  show ?thesis
  proof (cases "bs = []")
    case True
    then have "o_sons po = Some x" using seg_start [OF sg] by simp
    then show ?thesis using True p' x' d by (auto simp: kids_def named_def)
  next
    case False
    have "distinct ?as" using d by simp
    then have "seg o_sibling h' (o_sons po) (bs @ cs) None" using seg_unlink [OF sg _ other] False by simp
    moreover have "list_all (named h') (bs @ cs)" using named' by (simp add: list_all_iff)
    ultimately show ?thesis using p' d False by (auto simp: kids_def)
  qed
qed

section \<open>Destruction\<close>

definition destroyed :: "heap \<Rightarrow> addr \<Rightarrow> addr list \<Rightarrow> addr \<Rightarrow> addr list \<Rightarrow> addr \<Rightarrow> xobject option" where
  "destroyed h p bs x cs = (\<lambda>a.
     if a = x then None
     else if a = p then map_option (\<lambda>ob. ob\<lparr>o_sons := (if bs = [] then o_sibling (the (objs h x)) else o_sons ob), o_count := o_count ob - 1\<rparr>) (objs h p)
     else if a \<in> set (bs @ cs) then map_option (unlink h x bs a) (objs h a)
     else objs h a)"

text \<open>The heap after the chain of siblings was closed over \<open>x\<close>.\<close>

definition sib_cut :: "heap \<Rightarrow> addr \<Rightarrow> addr list \<Rightarrow> addr \<Rightarrow> addr \<Rightarrow> xobject option" where
  "sib_cut h p bs x = (\<lambda>a.
     if a = x then map_option (\<lambda>ob. ob\<lparr>o_sibling := None\<rparr>) (objs h x)
     else if a = p then map_option (\<lambda>ob. ob\<lparr>o_sons := (if bs = [] then o_sibling (the (objs h x)) else o_sons ob)\<rparr>) (objs h p)
     else if bs \<noteq> [] \<and> a = last bs then map_option (\<lambda>ob. ob\<lparr>o_sibling := o_sibling (the (objs h x))\<rparr>) (objs h a)
     else objs h a)"

lemma destroy_siblings:
  assumes at: "child_at h p bs x cs"
  obtains h1 h2 where
    "fld h p o_sons \<bind> chain_prev o_sibling h x None = Some (if bs = [] then None else Some (last bs), Some x)"
    "(case if bs = [] then None else Some (last bs) of
        None \<Rightarrow> upd h p (\<lambda>ob. ob\<lparr>o_sons := o_sibling (the (objs h x))\<rparr>)
      | Some q \<Rightarrow> upd h q (\<lambda>ob. ob\<lparr>o_sibling := o_sibling (the (objs h x))\<rparr>)) = Some h1"
    "upd h1 x (\<lambda>ob. ob\<lparr>o_sibling := None\<rparr>) = Some h2" "objs h2 = sib_cut h p bs x" "brk h2 = brk h"
proof -
  let ?as = "bs @ x # cs"
  obtain po xo nm where po: "objs h p = Some po" and xo: "objs h x = Some xo"
    and sg: "seg o_sibling h (o_sons po) ?as None" and d: "distinct (p # ?as)" and nam: "list_all (named h) ?as"
    using at by (auto elim!: child_atD)
  have xp: "x \<noteq> p" and xbs: "x \<notin> set bs" using d by auto
  have cp: "fld h p o_sons \<bind> chain_prev o_sibling h x None = Some (if bs = [] then None else Some (last bs), Some x)"
    using chain_prev_seg [OF sg xbs, of None] po by (simp add: fld_def)
  show thesis
  proof (cases "bs = []")
    case True
    let ?h1 = "h\<lparr>objs := (objs h)(p \<mapsto> po\<lparr>o_sons := o_sibling xo\<rparr>)\<rparr>"
    show thesis
      by (rule that [OF cp, of ?h1 "?h1\<lparr>objs := (objs ?h1)(x \<mapsto> xo\<lparr>o_sibling := None\<rparr>)\<rparr>"])
        (use True po xo xp in \<open>auto simp: upd_def sib_cut_def\<close>)
  next
    case False
    then have l: "last bs \<in> set ?as" "last bs \<noteq> x" "last bs \<noteq> p" using xbs d by auto
    then obtain ob where ob: "objs h (last bs) = Some ob" using nam by (auto simp: list_all_iff named_def)
    let ?h1 = "h\<lparr>objs := (objs h)(last bs \<mapsto> ob\<lparr>o_sibling := o_sibling xo\<rparr>)\<rparr>"
    show thesis
      by (rule that [OF cp, of ?h1 "?h1\<lparr>objs := (objs ?h1)(x \<mapsto> xo\<lparr>o_sibling := None\<rparr>)\<rparr>"])
        (use False po xo xp ob l in \<open>auto simp: upd_def sib_cut_def\<close>)
  qed
qed

lemma sib_cut_other:
  "child_at h p bs x cs \<Longrightarrow> a \<in> set (bs @ x # cs) \<Longrightarrow> \<exists>ob. objs h a = Some ob \<and>
     sib_cut h p bs x a = Some (ob\<lparr>o_sibling := (if a = x then None else if bs \<noteq> [] \<and> a = last bs then o_sibling (the (objs h x)) else o_sibling ob)\<rparr>)"
proof -
  assume at: "child_at h p bs x cs" and a: "a \<in> set (bs @ x # cs)"
  then have "a \<noteq> p" "named h a" by (auto elim!: child_atD simp: list_all_iff)
  then show ?thesis by (auto simp: sib_cut_def named_def)
qed

lemma kids_sib_cut:
  assumes at: "child_at h p bs x cs" and h2: "objs h2 = sib_cut h p bs x"
  shows "kids h2 p (bs @ cs)"
proof -
  let ?as = "bs @ x # cs"
  obtain po where po: "objs h p = Some po" "seg o_sibling h (o_sons po) ?as None" "distinct (p # ?as)" "list_all (named h) ?as"
    using at by (auto elim!: child_atD)
  let ?g = "h\<lparr>objs := (\<lambda>a. if a \<in> set (bs @ cs) then map_option (unlink h x bs a) (objs h a) else None)\<rparr>"
  let ?q = "if bs = [] then o_sibling (the (objs h x)) else o_sons po"
  have "distinct ?as" using po(3) by simp
  then have "seg o_sibling ?g ?q (bs @ cs) None" using seg_unlink [OF po(2), of ?g] by simp
  moreover have "list_all (\<lambda>a. map_option o_sibling (objs h2 a) = map_option o_sibling (objs ?g a)) (bs @ cs)"
    unfolding list_all_iff
  proof
    fix a assume a: "a \<in> set (bs @ cs)"
    then have "a \<noteq> x" using po(3) by auto
    then show "map_option o_sibling (objs h2 a) = map_option o_sibling (objs ?g a)"
      using sib_cut_other [OF at, of a] a by (auto simp: h2)
  qed
  ultimately have sg: "seg o_sibling h2 ?q (bs @ cs) None" by (simp only: seg_cong)
  have "named h2 a" if a: "a \<in> set (bs @ cs)" for a
  proof -
    have "named h a" using po(4) a by (auto simp: list_all_iff)
    then show ?thesis using sib_cut_other [OF at, of a] a by (auto simp: h2 named_def)
  qed
  moreover have "objs h2 p = Some (po\<lparr>o_sons := ?q\<rparr>)" using po by (auto simp: h2 sib_cut_def)
  ultimately show ?thesis using sg po(3) by (simp add: kids_def list_all_iff)
qed

text \<open>
  Once \<open>x\<close> is off the chain of siblings, the walk along its name still finds it unless it was
  the first of the name; then no link leads to it.
\<close>

lemma destroy_name_prev:
  assumes at: "child_at h p bs x cs" and nx: "\<forall>a \<in> set (bs @ x # cs). \<exists>ob. objs h' a = Some ob \<and> o_next ob = nxt h a"
  obtains pv r where "chain_prev o_next h' x None (find (\<lambda>b. lname h b = lname h x) (bs @ cs)) = Some (pv, r)"
    "\<forall>a. (r = Some x \<and> pv = Some a) \<longleftrightarrow> (a \<in> set (bs @ x # cs) \<and> nxt h a = Some x)"
    "\<forall>a. r = Some x \<and> pv = Some a \<longrightarrow> a \<in> set (bs @ cs)"
proof (cases "find (\<lambda>b. lname h b = lname h x) bs")
  case (Some s)
  then have "find (\<lambda>b. lname h b = lname h x) (bs @ x # cs) = Some s"
    and f: "find (\<lambda>b. lname h b = lname h x) (bs @ cs) = Some s"
    by (induction bs) (auto split: if_splits)
  then obtain pv where pv: "chain_prev o_next h' x None (Some s) = Some (pv, Some x)"
      "\<forall>a \<in> set (bs @ x # cs). pv = Some a \<longleftrightarrow> nxt h a = Some x" "\<forall>a. pv = Some a \<longrightarrow> a \<in> set (bs @ cs)"
    using name_prev [OF at nx] by auto
  show thesis by (rule that [of pv "Some x"]) (use pv f in auto)
next
  case None
  then have f: "find (\<lambda>b. lname h b = lname h x) (bs @ x # cs) = Some x" "find (\<lambda>b. lname h b = lname h x) (bs @ cs) = find (\<lambda>b. lname h b = lname h x) cs"
    by (induction bs) (auto split: if_splits)
  have c: "chain_ok h (bs @ x # cs)" and d: "distinct (bs @ x # cs)" using at by (auto elim!: child_atD)
  have "chain_ok h cs" using chain_ok_append [of h "bs @ [x]" cs] c by simp
  moreover have "x \<notin> set cs" "\<forall>a \<in> set cs. \<exists>ob. objs h' a = Some ob \<and> o_next ob = nxt h a" using d nx by auto
  ultimately obtain pv where "chain_prev o_next h' x None (find (\<lambda>b. lname h b = lname h x) cs) = Some (pv, None)"
    using chain_prev_absent by blast
  moreover have "nxt h a \<noteq> Some x" if "a \<in> set (bs @ x # cs)" for a
    using nxt_first [OF c d that] f(1) by blast
  ultimately show thesis by (intro that [of pv None]) (auto simp: f)
qed

lemma destroy_names:
  assumes at: "child_at h p bs x cs" and nm: "o_name (the (objs h x)) = Some nm" and h2: "objs h2 = sib_cut h p bs x"
  obtains pv r where "x_object_get_child h2 (Some p) (Some nm) \<bind> chain_prev o_next h2 x None = Some (pv, r)"
    "\<forall>a. (r = Some x \<and> pv = Some a) \<longleftrightarrow> (a \<in> set (bs @ x # cs) \<and> nxt h a = Some x)"
    "\<forall>a. r = Some x \<and> pv = Some a \<longrightarrow> a \<in> set (bs @ cs)"
proof -
  have "\<forall>a \<in> set (bs @ x # cs). \<exists>ob. objs h2 a = Some ob \<and> o_next ob = nxt h a"
    using sib_cut_other [OF at] by (fastforce simp: h2 nxt_def)
  then obtain pv r where pv: "chain_prev o_next h2 x None (find (\<lambda>b. lname h b = lname h x) (bs @ cs)) = Some (pv, r)"
    "\<forall>a. (r = Some x \<and> pv = Some a) \<longleftrightarrow> (a \<in> set (bs @ x # cs) \<and> nxt h a = Some x)"
    "\<forall>a. r = Some x \<and> pv = Some a \<longrightarrow> a \<in> set (bs @ cs)"
    by (rule destroy_name_prev [OF at])
  have ln: "name_of h2 a = name_of h a" if "a \<in> set (bs @ x # cs)" for a
    using sib_cut_other [OF at that] by (auto simp: h2 name_of_def)
  have N: "names_ok (name_of h ` set (bs @ x # cs))" and x: "nm = name_of h x" using at nm by (auto elim!: child_atD)
  have "find (\<lambda>a. EQN (name_of h2 a) nm) (bs @ cs) = find (\<lambda>a. EQN (name_of h a) nm) (bs @ cs)"
    by (rule find_cong) (auto simp: ln)
  also have "\<dots> = find (\<lambda>b. lname h b = lname h x) (bs @ cs)"
    using find_EQN [OF N, of nm h "bs @ cs"] x by (auto simp: lname_def)
  finally have "x_object_get_child h2 (Some p) (Some nm) = Some (find (\<lambda>b. lname h b = lname h x) (bs @ cs))"
    using x_object_get_child_kids [OF kids_sib_cut [OF at h2], of nm] by simp
  then show thesis using pv that by simp
qed

lemma destroyed_sib_cut:
  assumes at: "child_at h p bs x cs" and b: "\<forall>a. t = Some a \<longleftrightarrow> (a \<in> set (bs @ x # cs) \<and> nxt h a = Some x)"
    and g: "\<forall>a. a \<noteq> x \<longrightarrow> a \<noteq> p \<longrightarrow> g a = (if t = Some a then map_option (\<lambda>ob. ob\<lparr>o_next := nxt h x\<rparr>) (sib_cut h p bs x a) else sib_cut h p bs x a)"
    and px: "g x = None" "g p = map_option (\<lambda>ob. ob\<lparr>o_count := o_count ob - 1\<rparr>) (sib_cut h p bs x p)"
  shows "g = destroyed h p bs x cs"
proof
  fix a
  have xp: "x \<noteq> p" using at by (auto elim!: child_atD)
  show "g a = destroyed h p bs x cs a"
  proof (cases "a = x \<or> a = p")
    case True
    then show ?thesis using px xp by (auto simp: destroyed_def sib_cut_def option.map_comp comp_def)
  next
    case False
    show ?thesis
    proof (cases "a \<in> set (bs @ cs)")
      case True
      then obtain ob where ob: "objs h a = Some ob"
        "sib_cut h p bs x a = Some (ob\<lparr>o_sibling := (if bs \<noteq> [] \<and> a = last bs then o_sibling (the (objs h x)) else o_sibling ob)\<rparr>)"
        using sib_cut_other [OF at, of a] False by auto
      have "t = Some a \<longleftrightarrow> o_next ob = Some x" using b True ob by (auto simp: nxt_def)
      moreover have "g a = (if t = Some a then map_option (\<lambda>ob. ob\<lparr>o_next := nxt h x\<rparr>) (sib_cut h p bs x a) else sib_cut h p bs x a)"
        using g False by blast
      ultimately show ?thesis using False True ob by (simp add: destroyed_def unlink_def)
    next
      case notin: False
      then have "t \<noteq> Some a" using b False by auto
      moreover have "\<not> (bs \<noteq> [] \<and> a = last bs)" using notin by auto
      then have "sib_cut h p bs x a = objs h a" using False by (auto simp: sib_cut_def)
      ultimately show ?thesis using False notin g by (simp add: destroyed_def)
    qed
  qed
qed

lemma x_object_destroy_no_cb_run:
  assumes at: "child_at h p bs x cs" and par: "o_parent (the (objs h x)) = Some p"
  shows "\<exists>h'. x_object_destroy_no_cb h (Some x) = Some h' \<and> objs h' = destroyed h p bs x cs \<and> brk h' = brk h"
proof -
  obtain po xo nm where po: "objs h p = Some po" and xo: "objs h x = Some xo" "o_name xo = Some nm"
    and d: "distinct (p # bs @ x # cs)"
    using at by (auto elim!: child_atD)
  have xp: "x \<noteq> p" using d by auto
  have par': "x_object_get_parent h (Some x) = Some (Some p)" using xo par by (simp add: x_object_get_parent_def fld_def)
  have sx: "fld h x o_sibling = Some (o_sibling (the (objs h x)))" using xo by (simp add: fld_def)
  obtain h1 h2 where s1: "fld h p o_sons \<bind> chain_prev o_sibling h x None = Some (if bs = [] then None else Some (last bs), Some x)"
    "(case if bs = [] then None else Some (last bs) of
        None \<Rightarrow> upd h p (\<lambda>ob. ob\<lparr>o_sons := o_sibling (the (objs h x))\<rparr>)
      | Some q \<Rightarrow> upd h q (\<lambda>ob. ob\<lparr>o_sibling := o_sibling (the (objs h x))\<rparr>)) = Some h1"
    "upd h1 x (\<lambda>ob. ob\<lparr>o_sibling := None\<rparr>) = Some h2" and h2: "objs h2 = sib_cut h p bs x" "brk h2 = brk h"
    by (rule destroy_siblings [OF at])
  have nm2: "x_object_get_name h2 x = Some (Some nm)" using xo by (simp add: x_object_get_name_def fld_def h2 sib_cut_def)
  have "o_name (the (objs h x)) = Some nm" using xo by simp
  then obtain pv r where n1: "x_object_get_child h2 (Some p) (Some nm) \<bind> chain_prev o_next h2 x None = Some (pv, r)"
    and b: "\<forall>a. (r = Some x \<and> pv = Some a) \<longleftrightarrow> (a \<in> set (bs @ x # cs) \<and> nxt h a = Some x)"
    "\<forall>a. r = Some x \<and> pv = Some a \<longrightarrow> a \<in> set (bs @ cs)"
    by (rule destroy_names [OF at _ h2(1)])
  let ?t = "if r = Some x then pv else None"
  let ?f = "map_option (\<lambda>ob. ob\<lparr>o_next := nxt h x\<rparr>)"
  let ?g3 = "\<lambda>a. if ?t = Some a then ?f (objs h2 a) else objs h2 a"
  have h3: "(if r = Some x then (case pv of None \<Rightarrow> Some h2
      | Some q \<Rightarrow> do { nx \<leftarrow> fld h2 x o_next; upd h2 q (\<lambda>ob. ob\<lparr>o_next := nx\<rparr>) }) else Some h2) = Some (h\<lparr>objs := ?g3\<rparr>)"
  proof (cases ?t)
    case None
    then show ?thesis using h2(2) by (cases h2; cases h) (auto split: option.splits)
  next
    case (Some q)
    then have q: "r = Some x" "pv = Some q" by (auto split: if_splits)
    then have "q \<in> set (bs @ x # cs)" using b(2) by auto
    then obtain ob where "objs h2 q = Some ob" using sib_cut_other [OF at] h2(1) by fastforce
    moreover have "fld h2 x o_next = Some (nxt h x)" using xo by (simp add: fld_def h2 sib_cut_def nxt_def)
    ultimately show ?thesis using q h2(2) by (cases h2; cases h) (auto simp: upd_def fun_eq_iff)
  qed
  have x3: "objs (h\<lparr>objs := ?g3\<rparr>) x = Some (xo\<lparr>o_sibling := None\<rparr>)" and p3: "objs (h\<lparr>objs := ?g3\<rparr>) p = sib_cut h p bs x p"
    using b(2) xo d by (auto simp: h2 sib_cut_def)
  obtain po' where po': "sib_cut h p bs x p = Some po'" using po xp by (simp add: sib_cut_def)
  let ?h9 = "h\<lparr>objs := (?g3(p \<mapsto> po'\<lparr>o_count := o_count po' - 1\<rparr>))(x := None)\<rparr>"
  have tail: "do { h4 \<leftarrow> upd (h\<lparr>objs := ?g3\<rparr>) x (\<lambda>ob. ob\<lparr>o_next := None, o_parent := None\<rparr>);
      h9 \<leftarrow> upd h4 p (\<lambda>ob. ob\<lparr>o_count := o_count ob - 1\<rparr>); x_object_destroy_raw h9 x } = Some ?h9"
    unfolding upd_Some [OF x3] Option.bind.bind_lunit
    using p3 po' xp by (subst upd_Some [of _ p po'])
      (auto simp: x_object_destroy_raw_def upd_def free_def fun_upd_twist)
  have "x_object_destroy_no_cb h (Some x) = Some ?h9"
    unfolding tail [symmetric] x_object_destroy_no_cb_def option.case par' Option.bind.bind_lunit
    unfolding Option.bind_assoc [symmetric] s1(1) Option.bind.bind_lunit prod.case if_P [OF refl] sx s1 nm2 n1 h3 ..
  moreover have "(?g3(p \<mapsto> po'\<lparr>o_count := o_count po' - 1\<rparr>))(x := None) = destroyed h p bs x cs"
    by (rule destroyed_sib_cut [OF at, of ?t]) (use b po' xp in \<open>auto simp: h2\<close>)
  ultimately show ?thesis by auto
qed


lemma kids_destroyed:
  assumes at: "child_at h p bs x cs" and h': "objs h' = destroyed h p bs x cs"
  shows "kids h' p (bs @ cs)"
proof -
  let ?as = "bs @ x # cs"
  obtain po xo nm where po: "objs h p = Some po" and xo: "objs h x = Some xo" "o_name xo = Some nm"
    and sg: "seg o_sibling h (o_sons po) ?as None" and d: "distinct (p # ?as)" and nam: "list_all (named h) ?as"
    using at by (auto elim!: child_atD)
  have other: "\<forall>a \<in> set (bs @ cs). objs h' a = map_option (unlink h x bs a) (objs h a)"
    using d by (auto simp: h' destroyed_def)
  have "named h' a" if "a \<in> set (bs @ cs)" for a
  proof -
    have "named h a" using nam that by (auto simp: list_all_iff)
    moreover have "objs h' a = map_option (unlink h x bs a) (objs h a)" using other that by blast
    ultimately show ?thesis by (auto simp: named_def)
  qed
  moreover have "distinct ?as" using d by simp
  then have "seg o_sibling h' (if bs = [] then o_sibling (the (objs h x)) else o_sons po) (bs @ cs) None"
    by (rule seg_unlink [OF sg _ other])
  moreover have "objs h' p = Some (po\<lparr>o_sons := (if bs = [] then o_sibling (the (objs h x)) else o_sons po), o_count := o_count po - 1\<rparr>)"
    using po d by (auto simp: h' destroyed_def)
  ultimately show ?thesis using d by (simp add: kids_def list_all_iff)
qed

lemma chain_ok_after:
  assumes at: "child_at h p bs x cs" and h': "objs h' = removed h p bs x cs \<or> objs h' = destroyed h p bs x cs"
  shows "chain_ok h' (bs @ cs)"
proof (rule chain_ok_unlink)
  have d: "distinct (p # bs @ x # cs)" using at by (auto elim!: child_atD)
  show "chain_ok h (bs @ x # cs)" "distinct (bs @ x # cs)" using at by (auto elim!: child_atD)
  show "list_all (\<lambda>a. objs h a \<noteq> None) (bs @ x # cs)" using at by (rule child_atD) (rule named_alive)
  show "\<forall>a \<in> set (bs @ cs). objs h' a = map_option (unlink h x bs a) (objs h a)"
    using h' d by (auto simp: removed_def destroyed_def)
qed

end
