(* ===== verification/Xw_Obj_Claims.thy ===== *)
theory Xw_Obj_Claims
  imports Xw_Obj_Remove
begin

text \<open>
  What the operations on the object tree promise: appending, unlinking and destroying a
  child, the search by name, inherited attributes, listeners, reference counts and writing
  to followers.
\<close>

section \<open>An example\<close>

text \<open>Object 0 has the children 2, 3 and 4; 2 and 4 have one name. Object 5 is not in the tree.\<close>

definition demo_obj :: "string \<Rightarrow> ptr \<Rightarrow> ptr \<Rightarrow> ptr \<Rightarrow> xobject" where
  "demo_obj nm par sib nx = (new_xobject 0)\<lparr>o_name := Some nm, o_parent := par, o_sibling := sib, o_next := nx\<rparr>"

definition demo_heap :: heap where
  "demo_heap = \<lparr>objs = map_of [(0, (demo_obj ''root'' None None None)\<lparr>o_sons := Some 2, o_count := 3\<rparr>),
     (2, demo_obj ''a'' (Some 0) (Some 3) (Some 4)), (3, demo_obj ''b'' (Some 0) (Some 4) None),
     (4, demo_obj ''A'' (Some 0) None None), (5, demo_obj ''a'' None None None)], brk = 6\<rparr>"

lemma demo_objs [simp]:
  "objs demo_heap 0 = Some ((demo_obj ''root'' None None None)\<lparr>o_sons := Some 2, o_count := 3\<rparr>)"
  "objs demo_heap 2 = Some (demo_obj ''a'' (Some 0) (Some 3) (Some 4))"
  "objs demo_heap 3 = Some (demo_obj ''b'' (Some 0) (Some 4) None)"
  "objs demo_heap 4 = Some (demo_obj ''A'' (Some 0) None None)"
  "objs demo_heap 5 = Some (demo_obj ''a'' None None None)"
  by (simp_all add: demo_heap_def)

lemma demo_obj_simps [simp]:
  "o_name (demo_obj nm par sib nx) = Some nm" "o_sibling (demo_obj nm par sib nx) = sib"
  "o_next (demo_obj nm par sib nx) = nx" "o_parent (demo_obj nm par sib nx) = par"
  "o_listeners (demo_obj nm par sib nx) = []" "o_refs (demo_obj nm par sib nx) = 1"
  "o_class (demo_obj nm par sib nx) = None" "o_writeout (demo_obj nm par sib nx) = []"
  by (simp_all add: demo_obj_def new_xobject_def)

lemma demo_names [simp]: "\<not> EQN ''a'' ''b''" "\<not> EQN ''b'' ''a''" "\<not> EQN ''A'' ''b''" "\<not> EQN ''b'' ''A''"
  "tolower_c CHR ''A'' = CHR ''a''" "tolower_c CHR ''a'' = CHR ''a''" "tolower_c CHR ''b'' = CHR ''b''"
  by code_simp+

lemma demo_kids: "kids demo_heap 0 [2, 3, 4]"
  by (simp add: kids_def named_def)

lemma demo_chain: "chain_ok demo_heap [2, 3, 4]"
  by (simp add: lname_def name_of_def nxt_def)

lemma demo_child_at: "child_at demo_heap 0 [2, 3] 4 []" "child_at demo_heap 0 [] 2 [3, 4]"
  using demo_kids demo_chain by (auto simp: child_at_def names_ok_def name_of_def)

section \<open>Appending\<close>

definition appended :: "heap \<Rightarrow> addr \<Rightarrow> addr list \<Rightarrow> addr \<Rightarrow> heap \<Rightarrow> bool" where
  "appended h p as x h' \<longleftrightarrow> kids h' p (as @ [x]) \<and> nexts_ok h' (as @ [x])
     \<and> objs h' p = map_option (\<lambda>po. po\<lparr>o_sons := (if as = [] then Some x else o_sons po), o_count := o_count po + 1,
           o_refs := o_refs po + 1, o_cr := o_cr po OR XOBJ_CR_DIRTY\<rparr>) (objs h p)
     \<and> objs h' x = map_option (\<lambda>xo. xo\<lparr>o_parent := Some p, o_next := None, o_sibling := None,
           o_refs := o_refs xo + 1, o_bus := o_bus (the (objs h p))\<rparr>) (objs h x)
     \<and> (\<forall>a. a \<notin> set (p # x # as) \<longrightarrow> objs h' a = objs h a)
     \<and> (\<forall>a \<in> set as. map_option (\<lambda>ob. ob\<lparr>o_sibling := None, o_next := None\<rparr>) (objs h' a)
           = map_option (\<lambda>ob. ob\<lparr>o_sibling := None, o_next := None\<rparr>) (objs h a))"

lemma x_object_append_child_no_cb_links:
  assumes k: "kids h p as" and n: "nexts_ok h as" and x: "objs h x = Some xo" "o_next xo = None" "o_name xo = Some nm"
    and new: "x \<notin> set (p # as)" and ins: "x_object_insert_into_tree h (Some p) (Some x) = Some (0, h1)"
  shows "\<exists>h'. x_object_append_child_no_cb h (Some p) x = Some (0, h') \<and> appended h p as x h' \<and> links_kept h1 h' \<and> brk h' = brk h"
proof -
  obtain po where po: "objs h p = Some po" using k by (auto simp: kids_def)
  let ?nl = "name_tail h as x nm"
  have h1: "x_object_insert_into_tree h (Some p) (Some x) = Some (0, h1)" "objs h1 = inserted h p as x ?nl"
    "brk h1 = brk h" "kids h1 p (as @ [x])" "nexts_ok h1 (as @ [x])"
    using x_object_insert_into_tree_kids [OF k n x new] ins by (metis (no_types, lifting) option.inject prod.inject)+
  let ?xo1 = "xo\<lparr>o_parent := Some p, o_next := None, o_sibling := None\<rparr>"
  let ?po1 = "po\<lparr>o_sons := (if as = [] then Some x else o_sons po), o_count := o_count po + 1\<rparr>"
  have at1: "objs h1 x = Some ?xo1" "objs h1 p = Some ?po1" using x po new by (simp_all add: h1(2) inserted_def)
  let ?h5 = "h1\<lparr>objs := (objs h1)(x \<mapsto> ?xo1\<lparr>o_refs := o_refs xo + 1, o_bus := o_bus po\<rparr>,
      p \<mapsto> ?po1\<lparr>o_refs := o_refs po + 1, o_cr := o_cr po OR XOBJ_CR_DIRTY\<rparr>)\<rparr>"
  have run: "x_object_append_child_no_cb h (Some p) x = Some (0, ?h5)"
    using at1 new x(1) po
    by (simp add: x_object_append_child_no_cb_def h1(1) x_object_ref_get_def set_dirty_def x_object_get_cr_def
        x_object_set_cr_def upd_def fld_def fun_upd_twist)
  let ?hx = "h1\<lparr>objs := (objs h1)(x \<mapsto> ?xo1\<lparr>o_refs := o_refs xo + 1, o_bus := o_bus po\<rparr>)\<rparr>"
  have "links_kept h1 ?hx" by (rule links_kept_upd [OF at1(1)]) (auto simp: same_links_def)
  moreover have "links_kept ?hx ?h5" by (rule links_kept_upd [of _ p ?po1]) (use at1 new in \<open>auto simp: same_links_def\<close>)
  ultimately have l: "links_kept h1 ?h5" by (rule links_kept_trans)
  have "\<forall>a \<in> set as. map_option (\<lambda>ob. ob\<lparr>o_sibling := None, o_next := None\<rparr>) (objs ?h5 a)
           = map_option (\<lambda>ob. ob\<lparr>o_sibling := None, o_next := None\<rparr>) (objs h a)"
  proof
    fix a assume "a \<in> set as"
    then have "a \<noteq> x" "a \<noteq> p" "objs h1 a = map_option (relink x (last as) ?nl a) (objs h a)"
      using new k by (auto simp: h1(2) inserted_def kids_def)
    then show "map_option (\<lambda>ob. ob\<lparr>o_sibling := None, o_next := None\<rparr>) (objs ?h5 a)
           = map_option (\<lambda>ob. ob\<lparr>o_sibling := None, o_next := None\<rparr>) (objs h a)"
      by (cases "objs h a") (simp_all add: relink_def)
  qed
  moreover have "objs ?h5 a = objs h a" if "a \<notin> set (p # x # as)" for a
    using that by (simp add: h1(2) inserted_def)
  moreover have "kids ?h5 p (as @ [x])" "nexts_ok ?h5 (as @ [x])"
    using kids_links_kept [OF l h1(4)] nexts_links_kept [OF l h1(5) kids_alive [OF h1(4)]] by simp_all
  ultimately have "appended h p as x ?h5" using x(1) po new by (simp add: appended_def)
  then show ?thesis using run l h1(3) by auto
qed


lemma chain_links_kept:
  "links_kept h h' \<Longrightarrow> list_all (\<lambda>a. objs h a \<noteq> None) as \<Longrightarrow> chain_ok h as \<Longrightarrow> chain_ok h' as"
proof (induction as)
  case (Cons a as)
  have eq: "lname h' b = lname h b \<and> nxt h' b = nxt h b" if "b \<in> set (a # as)" for b
  proof -
    have "objs h b \<noteq> None" using Cons.prems(2) that by (auto simp: list_all_iff)
    then obtain ob where "objs h b = Some ob" by blast
    then show ?thesis using links_kept_get [OF Cons.prems(1)] by (fastforce simp: lname_def name_of_def nxt_def same_links_def)
  qed
  have "find (\<lambda>b. lname h' b = lname h' a) as = find (\<lambda>b. lname h b = lname h a) as"
    by (rule find_cong) (use eq in auto)
  then show ?case using Cons eq by simp
qed simp

lemma appended_name_of:
  assumes "appended h p as x h'" "kids h p as" "objs h x = Some xo" "x \<notin> set (p # as)" "a \<in> set (as @ [x])"
  shows "name_of h' a = name_of h a"
proof (cases "a = x")
  case True
  then show ?thesis using assms(1,3) by (simp add: appended_def name_of_def)
next
  case False
  then have a: "a \<in> set as" using assms(5) by simp
  then obtain ob where ob: "objs h a = Some ob" using kids_alive [OF assms(2)] by (auto simp: list_all_iff)
  have "map_option (\<lambda>ob. ob\<lparr>o_sibling := None, o_next := None\<rparr>) (objs h' a)
      = map_option (\<lambda>ob. ob\<lparr>o_sibling := None, o_next := None\<rparr>) (objs h a)"
    using assms(1) a unfolding appended_def by blast
  then obtain ob' where "objs h' a = Some ob'" "ob'\<lparr>o_sibling := None, o_next := None\<rparr> = ob\<lparr>o_sibling := None, o_next := None\<rparr>"
    using ob by auto
  moreover from this(2) have "o_name ob' = o_name ob"
    by (metis xobject.select_convs(1) xobject.surjective xobject.update_convs(10) xobject.update_convs(11))
  ultimately show ?thesis using ob by (simp add: name_of_def)
qed

text \<open>
  C2. Appending an object that is not yet a child makes it the last child: the list of
  children grows by it, the links between children of one name stay in order, the parent
  and the child gain a reference each, the child count grows by one, the child takes the
  parent's bus, the parent is marked dirty, and no other object changes.
\<close>

theorem x_object_append_child_no_cb_appends:
  assumes k: "kids h p as" and n: "nexts_ok h as" and x: "objs h x = Some xo" "o_next xo = None" "o_name xo = Some nm"
    and new: "x \<notin> set (p # as)"
  shows "\<exists>h'. x_object_append_child_no_cb h (Some p) x = Some (0, h') \<and> appended h p as x h' \<and> brk h' = brk h"
proof -
  obtain h1 where "x_object_insert_into_tree h (Some p) (Some x) = Some (0, h1)"
    by (rule x_object_insert_into_tree_kids [OF k n x new])
  from x_object_append_child_no_cb_links [OF k n x new this] show ?thesis by blast
qed

theorem x_object_append_child_no_cb_appends_witness:
  "\<exists>h'. x_object_append_child_no_cb demo_heap (Some 0) 5 = Some (0, h') \<and> appended demo_heap 0 [2, 3, 4] 5 h'
     \<and> brk h' = brk demo_heap"
  by (rule x_object_append_child_no_cb_appends [OF demo_kids chain_ok_nexts_ok [OF demo_chain] demo_objs(5)]) simp_all

text \<open>
  C3. Where no child's name is a proper prefix of another's, appending keeps the chains of
  equal names exact: afterwards, for every name of a child, the search for the name followed
  by \<^verbatim>\<open>x_object_get_next\<close> enumerates exactly the children of that name, in the order they were
  appended, the new one last.
\<close>

theorem x_object_get_next_enumerates:
  assumes k: "kids h p as" and c: "chain_ok h as" and x: "objs h x = Some xo" "o_next xo = None" "o_name xo = Some nm"
    and new: "x \<notin> set (p # as)" and N: "names_ok (insert nm (name_of h ` set as))"
  shows "\<exists>h'. x_object_append_child_no_cb h (Some p) x = Some (0, h') \<and> chain_ok h' (as @ [x]) \<and>
    (\<forall>n \<in> insert nm (name_of h ` set as). x_object_get_child h' (Some p) (Some n) \<bind> walk_next h'
       = Some (filter (\<lambda>a. map tolower_c (name_of h a) = map tolower_c n) (as @ [x])))"
proof -
  obtain h1 where h1: "x_object_insert_into_tree h (Some p) (Some x) = Some (0, h1)"
    "objs h1 = inserted h p as x (name_tail h as x nm)" "kids h1 p (as @ [x])"
    by (rule x_object_insert_into_tree_kids [OF k chain_ok_nexts_ok [OF c] x new])
  have c1: "chain_ok h1 (as @ [x])" by (rule inserted_chain [OF k c x(1,3) new N h1(2)])
  obtain h' where h': "x_object_append_child_no_cb h (Some p) x = Some (0, h')" "appended h p as x h'" "links_kept h1 h'"
    using x_object_append_child_no_cb_links [OF k chain_ok_nexts_ok [OF c] x new h1(1)] by blast
  have alive: "list_all (\<lambda>a. objs h1 a \<noteq> None) (as @ [x])" by (rule kids_alive [OF h1(3)])
  have c': "chain_ok h' (as @ [x])" by (rule chain_links_kept [OF h'(3) alive c1])
  have k': "kids h' p (as @ [x])" by (rule kids_links_kept [OF h'(3) h1(3)])
  have nm: "name_of h' a = name_of h a" if "a \<in> set (as @ [x])" for a
    using appended_name_of [OF h'(2) k x(1) new that] .
  have nx: "name_of h x = nm" using x by (simp add: name_of_def)
  have "x_object_get_child h' (Some p) (Some n) \<bind> walk_next h'
       = Some (filter (\<lambda>a. map tolower_c (name_of h a) = map tolower_c n) (as @ [x]))"
    if n: "n \<in> insert nm (name_of h ` set as)" for n
  proof -
    have "name_of h' ` set (as @ [x]) \<subseteq> insert nm (name_of h ` set as)" using nm nx by force
    then have "x_object_get_child h' (Some p) (Some n) = Some (find (\<lambda>a. lname h' a = map tolower_c n) (as @ [x]))"
      using x_object_get_child_kids [OF k', of n] find_EQN [OF N n] by simp
    moreover have "filter (\<lambda>a. lname h' a = map tolower_c n) (as @ [x])
        = filter (\<lambda>a. map tolower_c (name_of h a) = map tolower_c n) (as @ [x])"
      by (rule filter_cong) (simp_all only: lname_def nm)
    ultimately show ?thesis using walk_next_find [OF c' kids_alive [OF k'], of "map tolower_c n"] by simp
  qed
  then show ?thesis using h'(1) c' by blast
qed

theorem x_object_get_next_enumerates_witness:
  "\<exists>h'. x_object_append_child_no_cb demo_heap (Some 0) 5 = Some (0, h') \<and> chain_ok h' ([2, 3, 4] @ [5]) \<and>
    (\<forall>n \<in> insert ''a'' (name_of demo_heap ` set [2, 3, 4]). x_object_get_child h' (Some 0) (Some n) \<bind> walk_next h'
       = Some (filter (\<lambda>a. map tolower_c (name_of demo_heap a) = map tolower_c n) ([2, 3, 4] @ [5])))"
  by (rule x_object_get_next_enumerates [OF demo_kids demo_chain demo_objs(5)]) (auto simp: names_ok_def name_of_def)

section \<open>Removing\<close>

text \<open>
  Unlinking a child that is not the first leaves exactly the other children, in order,
  with exact chains of names; the child is detached, the count of children falls by one, and
  no other object changes apart from the links between the remaining children.
\<close>

theorem x_object_remove_from_treenode_later:
  assumes at: "child_at h p bs x cs" and later: "bs \<noteq> []"
  shows "\<exists>h'. x_object_remove_from_treenode h (Some p) (Some x) = Some (0, h') \<and> kids h' p (bs @ cs) \<and> chain_ok h' (bs @ cs)
    \<and> map_option o_parent (objs h' x) = Some None \<and> (\<forall>a. a \<notin> set (p # bs @ x # cs) \<longrightarrow> objs h' a = objs h a)
    \<and> map_option o_count (objs h' p) = map_option (\<lambda>po. if o_count po \<le> 0 then o_count po else o_count po - 1) (objs h p)"
proof -
  obtain h' where h': "x_object_remove_from_treenode h (Some p) (Some x) = Some (0, h')" "objs h' = removed h p bs x cs"
    using x_object_remove_from_treenode_run [OF at] by blast
  obtain po xo where "objs h p = Some po" "objs h x = Some xo" "p \<noteq> x" using at by (auto elim!: child_atD)
  then show ?thesis
    using h' kids_removed [OF at h'(2)] chain_ok_after [OF at, of h'] later
    by (auto simp: removed_def)
qed

theorem x_object_remove_from_treenode_later_witness:
  "\<exists>h'. x_object_remove_from_treenode demo_heap (Some 0) (Some 4) = Some (0, h') \<and> kids h' 0 ([2, 3] @ []) \<and> chain_ok h' ([2, 3] @ [])
    \<and> map_option o_parent (objs h' 4) = Some None \<and> (\<forall>a. a \<notin> set (0 # [2, 3] @ 4 # []) \<longrightarrow> objs h' a = objs demo_heap a)
    \<and> map_option o_count (objs h' 0) = map_option (\<lambda>po. if o_count po \<le> 0 then o_count po else o_count po - 1) (objs demo_heap 0)"
  by (rule x_object_remove_from_treenode_later [OF demo_child_at(1)]) simp

text \<open>
  C27. Unlinking the first child leaves the parent with that child alone: the parent keeps
  its pointer to it while its link to the siblings is cleared, so all other children are lost.
\<close>

theorem x_object_remove_from_treenode_first:
  assumes at: "child_at h p [] x cs"
  shows "\<exists>h'. x_object_remove_from_treenode h (Some p) (Some x) = Some (0, h') \<and> kids h' p [x]"
  using x_object_remove_from_treenode_run [OF at] kids_removed [OF at] by fastforce

theorem x_object_remove_from_treenode_first_witness:
  "\<exists>h'. x_object_remove_from_treenode demo_heap (Some 0) (Some 2) = Some (0, h') \<and> kids h' 0 [2]"
  by (rule x_object_remove_from_treenode_first [OF demo_child_at(2)])

text \<open>
  C28. Dropping a reference. With references left only the counter changes. Dropping the last one of
  a child destroys it: its release callback runs, and, where the heap that the callback leaves has
  the child among the children of its parent, with exact chains of names of which none is a
  proper prefix of another, it is taken out of them, at any position, its memory is freed, the
  chains of names stay exact and the count falls by one.
\<close>

theorem x_object_ref_put_destroys:
  assumes x: "objs h x = Some xo"
  shows "(1 < o_refs xo \<longrightarrow> x_object_ref_put env h (Some x) None = Some (h\<lparr>objs := (objs h)(x \<mapsto> xo\<lparr>o_refs := o_refs xo - 1\<rparr>)\<rparr>))
    \<and> (\<forall>h1 p bs cs. o_refs xo \<le> 1 \<longrightarrow> call1 env on_release x (h\<lparr>objs := (objs h)(x \<mapsto> xo\<lparr>o_refs := o_refs xo - 1\<rparr>)\<rparr>) = Some h1 \<longrightarrow> child_at h1 p bs x cs \<longrightarrow> o_parent (the (objs h1 x)) = Some p \<longrightarrow>
         (\<exists>h'. x_object_ref_put env h (Some x) None = Some h' \<and> objs h' x = None \<and> kids h' p (bs @ cs) \<and> chain_ok h' (bs @ cs)
           \<and> map_option o_count (objs h' p) = map_option (\<lambda>po. o_count po - 1) (objs h1 p)))"
proof (intro conjI impI allI)
  assume "1 < o_refs xo"
  then show "x_object_ref_put env h (Some x) None = Some (h\<lparr>objs := (objs h)(x \<mapsto> xo\<lparr>o_refs := o_refs xo - 1\<rparr>)\<rparr>)"
    using x by (simp add: x_object_ref_put_def upd_def fld_def)
next
  fix h1 p bs cs
  assume last: "o_refs xo \<le> 1" and rel: "call1 env on_release x (h\<lparr>objs := (objs h)(x \<mapsto> xo\<lparr>o_refs := o_refs xo - 1\<rparr>)\<rparr>) = Some h1"
    and at: "child_at h1 p bs x cs" and par: "o_parent (the (objs h1 x)) = Some p"
  obtain h' where h': "x_object_destroy_no_cb h1 (Some x) = Some h'" "objs h' = destroyed h1 p bs x cs"
    using x_object_destroy_no_cb_run [OF at par] by blast
  obtain po where "objs h1 p = Some po" "p \<noteq> x" using at by (auto elim!: child_atD)
  moreover have "x_object_ref_put env h (Some x) None = Some h'"
    using x last rel h'(1) by (simp add: x_object_ref_put_def upd_def fld_def x_object_destroy_def)
  ultimately show "\<exists>h'. x_object_ref_put env h (Some x) None = Some h' \<and> objs h' x = None \<and> kids h' p (bs @ cs) \<and> chain_ok h' (bs @ cs)
         \<and> map_option o_count (objs h' p) = map_option (\<lambda>po. o_count po - 1) (objs h1 p)"
    using h'(2) kids_destroyed [OF at h'(2)] chain_ok_after [OF at, of h'] by (simp add: destroyed_def option.map_comp comp_def)
qed

text \<open>Classes without callbacks.\<close>

definition plain_class :: xclass where
  "plain_class = \<lparr>cname = ''plain'', psize = 0, c_match = None, on_create = None, on_append = None, on_remove = None,
     on_tree_destroy = None, on_child_append = None, on_child_remove = None, on_release = None, on_assign = None,
     c_commit = None, c_tx = None, c_rx = None, try_write = None, try_writev = None, try_writev2 = None\<rparr>"

definition demo_env :: obj_env where
  "demo_env = \<lparr>cls = (\<lambda>_. plain_class), get_class = (\<lambda>_ _ _ _. None), path_notify = (\<lambda>_ _ h. Some h), cjunk = (\<lambda>_. NUL)\<rparr>"

lemma child_at_links_kept:
  assumes l: "links_kept h h'" and at: "child_at h p bs x cs"
  shows "child_at h' p bs x cs"
proof -
  let ?as = "bs @ x # cs"
  have k: "kids h p ?as" and c: "chain_ok h ?as" and N: "names_ok (name_of h ` set ?as)" using at by (simp_all add: child_at_def)
  have "name_of h' a = name_of h a" if "a \<in> set ?as" for a
  proof -
    have "objs h a \<noteq> None" using kids_alive [OF k] that by (auto simp: list_all_iff)
    then obtain ob where "objs h a = Some ob" by blast
    then show ?thesis using links_kept_get [OF l] by (fastforce simp: name_of_def same_links_def)
  qed
  then have "name_of h' ` set ?as = name_of h ` set ?as" by (rule image_cong [OF refl])
  then show ?thesis
    using kids_links_kept [OF l k] chain_links_kept [OF l kids_alive [OF k] c] N unfolding child_at_def by simp
qed

theorem x_object_ref_put_destroys_witness:
  "\<exists>h'. x_object_ref_put demo_env demo_heap (Some 4) None = Some h' \<and> objs h' 4 = None \<and> kids h' 0 ([2, 3] @ []) \<and> chain_ok h' ([2, 3] @ [])
    \<and> map_option o_count (objs h' 0) = map_option (\<lambda>po. o_count po - 1)
        (objs (demo_heap\<lparr>objs := (objs demo_heap)(4 \<mapsto> (demo_obj ''A'' (Some 0) None None)\<lparr>o_refs := 0\<rparr>)\<rparr>) 0)"
proof -
  let ?h1 = "demo_heap\<lparr>objs := (objs demo_heap)(4 \<mapsto> (demo_obj ''A'' (Some 0) None None)\<lparr>o_refs := 0\<rparr>)\<rparr>"
  have "links_kept demo_heap ?h1" by (rule links_kept_upd [OF demo_objs(4)]) (auto simp: same_links_def)
  then have at: "child_at ?h1 0 [2, 3] 4 []" by (rule child_at_links_kept [OF _ demo_child_at(1)])
  have rel: "call1 demo_env on_release 4 (demo_heap\<lparr>objs := (objs demo_heap)(4 \<mapsto> (demo_obj ''A'' (Some 0) None None)
      \<lparr>o_refs := o_refs (demo_obj ''A'' (Some 0) None None) - 1\<rparr>)\<rparr>) = Some ?h1"
    by (simp_all add: call1_def slot_def)
  have "o_refs (demo_obj ''A'' (Some 0) None None) \<le> 1" "o_parent (the (objs ?h1 4)) = Some 0" by simp_all
  then show ?thesis using conjunct2 [OF x_object_ref_put_destroys [OF demo_objs(4), of demo_env], rule_format, OF _ rel at] by simp
qed

section \<open>Finding children\<close>

text \<open>The comparison of names is a test for a prefix.\<close>

lemma EQN_prefix:
  assumes s: "LF \<notin> set s" "CR \<notin> set s"
  shows "EQN s nm \<longleftrightarrow> (\<exists>rest. map tolower_c nm = map tolower_c s @ rest)"
proof -
  have "takeWhile (\<lambda>c. c \<notin> {LF, CR}) s = s"
    using s by (metis (mono_tags, lifting) insertE singletonD takeWhile_eq_all_conv)
  then have n: "strcspn s {LF, CR} = length s" by (simp only: strcspn_def)
  show ?thesis
  proof
    assume "EQN s nm"
    then have "map tolower_c s = map tolower_c (take (length s) nm)" unfolding EQN_def strncaseeq_def n by simp
    moreover have "map tolower_c nm = map tolower_c (take (length s) nm) @ map tolower_c (drop (length s) nm)"
      by (metis append_take_drop_id map_append)
    ultimately show "\<exists>rest. map tolower_c nm = map tolower_c s @ rest" by metis
  next
    assume "\<exists>rest. map tolower_c nm = map tolower_c s @ rest"
    then obtain rest where r: "map tolower_c nm = map tolower_c s @ rest" by blast
    have "map tolower_c (take (length s) nm) = take (length s) (map tolower_c nm)" by (simp add: take_map)
    also have "\<dots> = map tolower_c s" unfolding r by simp
    finally show "EQN s nm" unfolding EQN_def strncaseeq_def n by simp
  qed
qed

text \<open>
  \<^verbatim>\<open>x_object_get_child\<close> returns the first child whose name is a prefix of the requested one,
  case folded, and null when there is none; an exact match further back does not count.
\<close>

theorem x_object_get_child_first_prefix:
  assumes k: "kids h p as" and names: "\<forall>a \<in> set as. LF \<notin> set (name_of h a) \<and> CR \<notin> set (name_of h a)"
  shows "x_object_get_child h (Some p) (Some nm)
     = Some (find (\<lambda>a. \<exists>rest. map tolower_c nm = map tolower_c (name_of h a) @ rest) as)"
proof -
  have "find (\<lambda>a. EQN (name_of h a) nm) as = find (\<lambda>a. \<exists>rest. map tolower_c nm = map tolower_c (name_of h a) @ rest) as"
    by (rule find_cong) (use names EQN_prefix in \<open>simp_all\<close>)
  then show ?thesis using x_object_get_child_kids [OF k] by simp
qed

theorem x_object_get_child_first_prefix_witness:
  "x_object_get_child demo_heap (Some 0) (Some ''bc'')
     = Some (find (\<lambda>a. \<exists>rest. map tolower_c ''bc'' = map tolower_c (name_of demo_heap a) @ rest) [2, 3, 4])"
proof (rule x_object_get_child_first_prefix [OF demo_kids])
  have "LF \<notin> set ''a''" "CR \<notin> set ''a''" "LF \<notin> set ''b''" "CR \<notin> set ''b''" "LF \<notin> set ''A''" "CR \<notin> set ''A''" by code_simp+
  then show "\<forall>a \<in> set [2, 3, 4]. LF \<notin> set (name_of demo_heap a) \<and> CR \<notin> set (name_of demo_heap a)"
    by (simp add: name_of_def)
qed

lemma nth_loop_seg:
  "seg o_sibling h q as None \<Longrightarrow> i \<le> ind \<Longrightarrow>
     nth_loop h q i ind = Some (if nat (ind - i) < length as then Some (as ! nat (ind - i)) else None)"
proof (induction as arbitrary: q i)
  case Nil
  then show ?case by (simp add: nth_loop.simps)
next
  case (Cons a as)
  then obtain ob where q: "q = Some a" "objs h a = Some ob" "seg o_sibling h (o_sibling ob) as None" by (auto split: option.splits)
  show ?case
  proof (cases "i < ind")
    case True
    then have "nat (ind - i) = Suc (nat (ind - (i + 1)))" by simp
    then show ?thesis using True q Cons.IH [OF q(3), of "i + 1"] by (simp add: nth_loop.simps [of h "Some a"])
  next
    case False
    then show ?thesis using q Cons.prems(2) by (simp add: nth_loop.simps [of h "Some a"])
  qed
qed

lemma index_loop_seg:
  "seg o_sibling h q (bs @ x # cs) None \<Longrightarrow> x \<notin> set bs \<Longrightarrow> index_loop h x q i = Some (i + int (length bs))"
proof (induction bs arbitrary: q i)
  case Nil
  then show ?case by (auto simp: index_loop.simps [of h x "Some x"])
next
  case (Cons b bs)
  then obtain ob where q: "q = Some b" "objs h b = Some ob" "seg o_sibling h (o_sibling ob) (bs @ x # cs) None"
    by (auto split: option.splits)
  then show ?case using Cons.IH [OF q(3), of "i + 1"] Cons.prems(2) by (auto simp: index_loop.simps [of h x "Some b"])
qed

text \<open>
  Positions: the index of a child is the number of children before it, the child at that
  index is the child again, and an index behind the last child gives null.
\<close>

theorem x_object_get_index_inverse:
  assumes k: "kids h p (bs @ x # cs)" and par: "o_parent (the (objs h x)) = Some p"
  shows "x_object_get_index h x = Some (int (length bs))
    \<and> x_object_get_index h x \<bind> x_object_get_child_from_index h p = Some (Some x)
    \<and> (int (length (bs @ x # cs)) \<le> i \<longrightarrow> x_object_get_child_from_index h p i = Some None)"
proof -
  obtain po where po: "objs h p = Some po" and sg: "seg o_sibling h (o_sons po) (bs @ x # cs) None" and d: "distinct (bs @ x # cs)"
    using k by (auto simp: kids_def)
  obtain xo where xo: "objs h x = Some xo" using kids_alive [OF k] by auto
  have ix: "x_object_get_index h x = Some (int (length bs))"
    using index_loop_seg [OF sg] d par po xo by (simp add: x_object_get_index_def x_object_get_parent_def fld_def)
  moreover have "x_object_get_index h x \<bind> x_object_get_child_from_index h p = Some (Some x)"
    using nth_loop_seg [OF sg, of 0 "int (length bs)"] po by (simp add: ix x_object_get_child_from_index_def fld_def nth_append)
  moreover have "int (length (bs @ x # cs)) \<le> i \<longrightarrow> x_object_get_child_from_index h p i = Some None"
  proof
    assume i: "int (length (bs @ x # cs)) \<le> i"
    then have "\<not> nat (i - 0) < length (bs @ x # cs)" "0 \<le> i" by simp_all
    then show "x_object_get_child_from_index h p i = Some None"
      using nth_loop_seg [OF sg, of 0 i] po by (simp only: x_object_get_child_from_index_def fld_def option.map Option.bind.bind_lunit if_False)
  qed
  ultimately show ?thesis by blast
qed

theorem x_object_get_index_inverse_witness:
  "x_object_get_index demo_heap 4 = Some (int (length [2 :: nat, 3])) \<and>
   x_object_get_index demo_heap 4 \<bind> x_object_get_child_from_index demo_heap 0 = Some (Some 4) \<and>
   x_object_get_child_from_index demo_heap 0 7 = Some None"
proof -
  have k: "kids demo_heap 0 ([2, 3] @ 4 # [])" using demo_kids by simp
  have par: "o_parent (the (objs demo_heap 4)) = Some 0" by simp
  show ?thesis using x_object_get_index_inverse [OF k par, of 7] by auto
qed

section \<open>What an object inherits\<close>

lemma x_object_getenv_seg:
  "seg o_parent h q as None \<Longrightarrow> x_object_getenv h q k = Some (case find (\<lambda>a. getattr (Some k) (Some (o_attrs (the (objs h a)))) \<noteq> None) as of
     None \<Rightarrow> None | Some a \<Rightarrow> getattr (Some k) (Some (o_attrs (the (objs h a)))))"
proof (induction as arbitrary: q)
  case Nil
  then show ?case by (simp add: x_object_getenv.simps)
next
  case (Cons a as)
  then obtain ob where q: "q = Some a" "objs h a = Some ob" "seg o_parent h (o_parent ob) as None" by (auto split: option.splits)
  show ?case
    by (cases "getattr (Some k) (Some (o_attrs ob))")
      (use q Cons.IH [OF q(3)] in \<open>simp_all add: x_object_getenv.simps [of h "Some a"] x_object_getattr_def x_object_get_parent_def fld_def\<close>)
qed

text \<open>
  \<^verbatim>\<open>x_object_getenv\<close> returns the attribute of the nearest object on the way to the root that
  has it, the object itself included, and null when none has it.
\<close>

theorem x_object_getenv_nearest:
  assumes "seg o_parent h (Some x) as None"
  shows "x_object_getenv h (Some x) k = Some (case find (\<lambda>a. getattr (Some k) (Some (o_attrs (the (objs h a)))) \<noteq> None) as of
     None \<Rightarrow> None | Some a \<Rightarrow> getattr (Some k) (Some (o_attrs (the (objs h a)))))"
  by (rule x_object_getenv_seg [OF assms])

theorem x_object_getenv_nearest_witness:
  "x_object_getenv (demo_heap\<lparr>objs := (objs demo_heap)(0 \<mapsto> (demo_obj ''root'' None None None)\<lparr>o_attrs := [(''jid'', ''me'')]\<rparr>)\<rparr>)
     (Some 3) ''jid'' = Some (Some ''me'')"
  (is "x_object_getenv ?h _ _ = _")
proof -
  have "seg o_parent ?h (Some 3) [3, 0] None" by simp
  from x_object_getenv_nearest [OF this, of "''jid''"] show ?thesis
    by (simp add: demo_obj_def new_xobject_def attr_list_init_def getattr_def)
qed

lemma tx_owner_seg:
  "seg o_parent h q as None \<Longrightarrow> tx_owner env h q = Some (find (\<lambda>a. slot env c_tx (the (objs h a)) \<noteq> None) as)"
proof (induction as arbitrary: q)
  case Nil
  then show ?case by (simp add: tx_owner.simps)
next
  case (Cons a as)
  then obtain ob where q: "q = Some a" "objs h a = Some ob" "seg o_parent h (o_parent ob) as None" by (auto split: option.splits)
  show ?case
    by (cases "slot env c_tx ob")
      (use q Cons.IH [OF q(3)] in \<open>simp_all add: tx_owner.simps [of env h "Some a"] x_object_get_parent_def fld_def\<close>)
qed

end
