(* ===== verification/Xw_Obj_Events.thy ===== *)
theory Xw_Obj_Events
  imports Xw_Obj_Claims
begin

text \<open>Messages, subscriptions and the followers that an object writes to.\<close>

section \<open>Messages towards the network\<close>

text \<open>
  \<^verbatim>\<open>x_object_send_down\<close> hands the message to the transmit callback of the nearest object on
  the way to the root whose class has one, and to no other; without such an object it returns
  -1 and changes nothing.
\<close>

theorem x_object_send_down_nearest:
  assumes s: "seg o_parent h (Some x) as None"
  shows "x_object_send_down env h (Some x) msg ctx = (case find (\<lambda>a. slot env c_tx (the (objs h a)) \<noteq> None) as of
     None \<Rightarrow> Some (-1, h) | Some t \<Rightarrow> the (slot env c_tx (the (objs h t))) t msg ctx h)"
proof (cases "find (\<lambda>a. slot env c_tx (the (objs h a)) \<noteq> None) as")
  case None
  then show ?thesis using tx_owner_seg [OF s, of env] by (simp add: x_object_send_down_def)
next
  case (Some t)
  then have t: "t \<in> set as" "slot env c_tx (the (objs h t)) \<noteq> None" using find_SomeD [OF Some] by simp_all
  have "objs h t \<noteq> None" by (rule seg_alive [OF s t(1)])
  then show ?thesis using tx_owner_seg [OF s, of env] Some t(2) by (auto simp: x_object_send_down_def)
qed

definition tx_env :: obj_env where
  "tx_env = demo_env\<lparr>cls := (\<lambda>_. plain_class\<lparr>c_tx := Some (\<lambda>t msg ctx h. Some (int t, h))\<rparr>)\<rparr>"

theorem x_object_send_down_nearest_witness:
  "x_object_send_down tx_env (demo_heap\<lparr>objs := (objs demo_heap)(0 \<mapsto> (demo_obj ''root'' None None None)\<lparr>o_class := Some 7\<rparr>)\<rparr>)
     (Some 3) 5 None = Some (0, demo_heap\<lparr>objs := (objs demo_heap)(0 \<mapsto> (demo_obj ''root'' None None None)\<lparr>o_class := Some 7\<rparr>)\<rparr>)"
  (is "x_object_send_down _ ?h _ _ _ = _")
proof -
  have "seg o_parent ?h (Some 3) [3, 0] None" by simp
  from x_object_send_down_nearest [OF this, of tx_env 5 None] show ?thesis
    by (simp add: slot_def tx_env_def)
qed

section \<open>Subscriptions\<close>

lemma upd_upd_same:
  "objs h a = Some ob \<Longrightarrow> upd h a f \<bind> (\<lambda>h1. upd h1 a g) = upd h a (\<lambda>ob. g (f ob))"
  by (simp add: upd_def)

text \<open>Dropping one of several references only counts down.\<close>

lemma x_object_ref_put_kept:
  "objs h a = Some ob \<Longrightarrow> 1 < o_refs ob \<Longrightarrow> x_object_ref_put env h (Some a) cb = Some (h\<lparr>objs := (objs h)(a \<mapsto> ob\<lparr>o_refs := o_refs ob - 1\<rparr>)\<rparr>)"
  by (simp add: x_object_ref_put_def upd_def fld_def)

lemma x_object_ref_get_Some:
  "objs h a = Some ob \<Longrightarrow> x_object_ref_get h a = Some (h\<lparr>objs := (objs h)(a \<mapsto> ob\<lparr>o_refs := o_refs ob + 1\<rparr>)\<rparr>)"
  by (simp add: x_object_ref_get_def upd_def)

lemma xobject_refs_id [simp]: "ob\<lparr>o_refs := o_refs ob\<rparr> = ob" "ob\<lparr>o_listeners := o_listeners ob\<rparr> = ob"
  "ob\<lparr>o_refs := o_refs ob, o_listeners := ls\<rparr> = ob\<lparr>o_listeners := ls\<rparr>"
  by (cases ob; simp)+

lemma heap_objs_id [simp]: "h\<lparr>objs := objs h\<rparr> = h"
  by (cases h) simp

text \<open>
  Subscribing a new listener puts it in front of the list of listeners and takes one
  reference on it and none on the publisher; subscribing it again changes nothing; and
  unsubscribing it restores the heap as it was before.
\<close>

theorem x_object_subscribe_unsubscribe:
  assumes x: "objs h x = Some xo" "1 \<le> o_refs xo" and l: "objs h l = Some lo" "1 \<le> o_refs lo"
    and ne: "x \<noteq> l" and new: "l \<notin> set (o_listeners xo)"
  shows "\<exists>h1. x_object_subscribe env h x l = Some (0, h1)
    \<and> objs h1 = (objs h)(x \<mapsto> xo\<lparr>o_listeners := l # o_listeners xo\<rparr>, l \<mapsto> lo\<lparr>o_refs := o_refs lo + 1\<rparr>)
    \<and> x_object_subscribe env h1 x l = Some (0, h1) \<and> x_object_unsubscribe env h1 x l = Some (0, h)"
proof -
  let ?x1 = "xo\<lparr>o_listeners := l # o_listeners xo\<rparr>" and ?l1 = "lo\<lparr>o_refs := o_refs lo + 1\<rparr>"
  let ?h1 = "h\<lparr>objs := (objs h)(x \<mapsto> ?x1, l \<mapsto> ?l1)\<rparr>"
  have "x_object_subscribe env h x l = Some (0, ?h1)"
    using x l ne new
    by (simp add: x_object_subscribe_def x_object_ref_get_Some x_object_listeners_exists_def fld_def upd_def
        x_object_ref_put_kept fun_upd_twist)
  moreover have "x_object_subscribe env ?h1 x l = Some (0, ?h1)"
    using x l ne
    by (simp add: add.commute [of 1] x_object_subscribe_def x_object_ref_get_Some x_object_listeners_exists_def fld_def upd_def
        x_object_ref_put_kept fun_upd_twist)
  moreover have "x_object_unsubscribe env ?h1 x l = Some (0, h)"
  proof -
    have "(objs h)(x \<mapsto> xo, l \<mapsto> lo) = objs h" using x l ne by (auto simp: fun_eq_iff)
    then show ?thesis
      using x l ne
      by (simp add: x_object_unsubscribe_def x_object_ref_get_Some x_object_listeners_exists_def fld_def upd_def
          x_object_ref_put_kept fun_upd_twist)
  qed
  ultimately show ?thesis by (intro exI [of _ ?h1]) simp
qed

theorem x_object_subscribe_unsubscribe_witness:
  "\<exists>h1. x_object_subscribe demo_env demo_heap 2 5 = Some (0, h1)
    \<and> objs h1 = (objs demo_heap)(2 \<mapsto> (demo_obj ''a'' (Some 0) (Some 3) (Some 4))\<lparr>o_listeners := 5 # o_listeners (demo_obj ''a'' (Some 0) (Some 3) (Some 4))\<rparr>,
        5 \<mapsto> (demo_obj ''a'' None None None)\<lparr>o_refs := o_refs (demo_obj ''a'' None None None) + 1\<rparr>)
    \<and> x_object_subscribe demo_env h1 2 5 = Some (0, h1) \<and> x_object_unsubscribe demo_env h1 2 5 = Some (0, demo_heap)"
  by (rule x_object_subscribe_unsubscribe [OF demo_objs(2) _ demo_objs(5)]) simp_all

section \<open>Followers\<close>

text \<open>
  Followers are kept in the list that writing goes through, but \<^verbatim>\<open>x_object_add_follower\<close>
  looks for the new one among the listeners: an object that already follows and does not
  listen is added once more, so that it gets every buffer twice.
\<close>

theorem x_object_add_follower_duplicates:
  assumes x: "objs h x = Some xo" "1 \<le> o_refs xo" and l: "objs h l = Some lo" "1 \<le> o_refs lo"
    and ne: "x \<noteq> l" and no: "l \<notin> set (o_listeners xo)"
  shows "\<exists>h1. x_object_add_follower env h x l = Some (0, h1)
    \<and> objs h1 = (objs h)(x \<mapsto> xo\<lparr>o_writeout := l # o_writeout xo\<rparr>, l \<mapsto> lo\<lparr>o_refs := o_refs lo + 1\<rparr>)"
  using x l ne no
  by (simp add: x_object_add_follower_def x_object_ref_get_Some x_object_listeners_exists_def fld_def upd_def
      x_object_ref_put_kept fun_upd_twist)

theorem x_object_add_follower_duplicates_witness:
  "\<exists>h1. x_object_add_follower demo_env demo_heap 2 5 = Some (0, h1)
    \<and> objs h1 = (objs demo_heap)(2 \<mapsto> (demo_obj ''a'' (Some 0) (Some 3) (Some 4))\<lparr>o_writeout := 5 # o_writeout (demo_obj ''a'' (Some 0) (Some 3) (Some 4))\<rparr>,
        5 \<mapsto> (demo_obj ''a'' None None None)\<lparr>o_refs := o_refs (demo_obj ''a'' None None None) + 1\<rparr>)"
  by (rule x_object_add_follower_duplicates [OF demo_objs(2) _ demo_objs(5)]) simp_all

text \<open>
  The followers still to be served from position \<open>i\<close> on, and the effect of serving \<open>as\<close>: one unit
  of life for each time an object is in the list. Nothing is said of the parts of objects that
  the callbacks may change.
\<close>

definition served :: "xobject \<Rightarrow> nat \<Rightarrow> addr list" where
  "served ob i = filter (\<lambda>a. o_handler ob \<noteq> Some a) (drop i (o_writeout ob))"

definition credited :: "heap \<Rightarrow> heap \<Rightarrow> addr list \<Rightarrow> bool" where
  "credited h h' as \<longleftrightarrow> (\<forall>a ob. objs h a = Some ob \<longrightarrow> (\<exists>ob'. objs h' a = Some ob'
     \<and> o_writeout ob' = o_writeout ob \<and> o_handler ob' = o_handler ob \<and> o_life ob' = o_life ob + int (count_list as a)))"

lemma creditedD:
  "credited h h' as \<Longrightarrow> objs h a = Some ob \<Longrightarrow> \<exists>ob'. objs h' a = Some ob'
     \<and> o_writeout ob' = o_writeout ob \<and> o_handler ob' = o_handler ob \<and> o_life ob' = o_life ob + int (count_list as a)"
  by (simp add: credited_def)

lemma credited_refl: "credited h h []"
  by (simp add: credited_def)

lemma credited_trans: "credited h h1 as \<Longrightarrow> credited h1 h2 bs \<Longrightarrow> credited h h2 (as @ bs)"
  unfolding credited_def by fastforce

lemma credited_one: "objs h x = Some xo \<Longrightarrow> credited h (h\<lparr>objs := (objs h)(x \<mapsto> xo\<lparr>o_life := o_life xo + 1\<rparr>)\<rparr>) [x]"
  by (auto simp: credited_def)

text \<open>
  Callbacks that, on the heaps that satisfy \<open>I\<close>, return such a heap and leave the followers, the
  write handlers and the lives of the objects alone; \<open>I\<close> does not look at the lives.
\<close>

definition writes_return :: "(heap \<Rightarrow> bool) \<Rightarrow> (heap \<Rightarrow> addr \<Rightarrow> (int \<times> heap) option) \<Rightarrow> bool" where
  "writes_return I wr \<longleftrightarrow> (\<forall>h a ob. I h \<longrightarrow> objs h a = Some ob \<longrightarrow>
     (\<exists>e h'. wr h a = Some (e, h') \<and> I h' \<and> credited h h' []) \<and> (\<forall>n. I (h\<lparr>objs := (objs h)(a \<mapsto> ob\<lparr>o_life := n\<rparr>)\<rparr>)))"

lemma writes_returnD:
  assumes "writes_return I wr" "I h" "objs h a = Some ob"
  shows "\<exists>e h'. wr h a = Some (e, h') \<and> I h' \<and> credited h h' []" "I (h\<lparr>objs := (objs h)(a \<mapsto> ob\<lparr>o_life := n\<rparr>)\<rparr>)"
  using assms unfolding writes_return_def by blast+

lemma follower_loop_credits:
  assumes code: "\<And>e. 0 \<le> code e" and wr: "writes_return I wr"
  shows "I h \<Longrightarrow> objs h thiz = Some ob \<Longrightarrow> (\<forall>a \<in> set (o_writeout ob). objs h a \<noteq> None) \<Longrightarrow>
    \<exists>e' h'. follower_loop env wr code h thiz i e = Some (e', h') \<and> credited h h' (served ob i)"
proof (induction "length (o_writeout ob) - i" arbitrary: i e h ob rule: less_induct)
  case less
  show ?case
  proof (cases "length (o_writeout ob) \<le> i")
    case True
    then show ?thesis using less.prems(2) credited_refl by (subst follower_loop.simps) (simp add: served_def)
  next
    case False
    let ?x = "o_writeout ob ! i"
    have dr: "drop i (o_writeout ob) = ?x # drop (i + 1) (o_writeout ob)" using False by (simp add: Cons_nth_drop_Suc)
    have shorter: "length (o_writeout ob) - (i + 1) < length (o_writeout ob) - i" using False by simp
    show ?thesis
    proof (cases "o_handler ob = Some ?x")
      case True
      then have "served ob i = served ob (i + 1)" unfolding served_def dr by simp
      then show ?thesis using less.hyps [OF shorter less.prems, of e] less.prems(2) True False
        by (subst follower_loop.simps) auto
    next
      case other: False
      have "?x \<in> set (o_writeout ob)" using False by simp
      then obtain xo where xo: "objs h ?x = Some xo" using less.prems(3) by blast
      obtain e1 h1 where 1: "wr h ?x = Some (e1, h1)" "credited h h1 []" "I h1" using writes_returnD(1) [OF wr less.prems(1) xo] by blast
      obtain ob1 where ob1: "objs h1 thiz = Some ob1" "o_writeout ob1 = o_writeout ob" "o_handler ob1 = o_handler ob"
        using creditedD [OF 1(2) less.prems(2)] by blast
      obtain x1 where x1: "objs h1 ?x = Some x1" using creditedD [OF 1(2) xo] by blast
      let ?h2 = "h1\<lparr>objs := (objs h1)(?x \<mapsto> x1\<lparr>o_life := o_life x1 + 1\<rparr>)\<rparr>"
      have c2: "credited h ?h2 [?x]" using credited_trans [OF 1(2) credited_one [OF x1]] by simp
      have "\<not> code e1 < 0" using code [of e1] by simp
      then have upd: "x_object_io_update env h1 thiz i (code e1) = Some (i + 1, ?h2)"
        using ob1(1,2) x1 by (simp add: x_object_io_update_def fld_def upd_def)
      obtain ob2 where ob2: "objs ?h2 thiz = Some ob2" "o_writeout ob2 = o_writeout ob" "o_handler ob2 = o_handler ob"
        using creditedD [OF c2 less.prems(2)] by blast
      have alive: "\<forall>a \<in> set (o_writeout ob2). objs ?h2 a \<noteq> None"
        using less.prems(3) creditedD [OF c2] ob2(2) by fastforce
      have "length (o_writeout ob2) - (i + 1) < length (o_writeout ob) - i" using shorter ob2(2) by simp
      from less.hyps [OF this writes_returnD(2) [OF wr 1(3) x1] ob2(1) alive] obtain e' h' where
        r: "follower_loop env wr code ?h2 thiz (i + 1) e1 = Some (e', h')" "credited ?h2 h' (served ob2 (i + 1))" by blast
      have "served ob i = [?x] @ served ob2 (i + 1)" using other unfolding served_def dr ob2(2,3) by simp
      then have "credited h h' (served ob i)" using credited_trans [OF c2 r(2)] by simp
      moreover have "follower_loop env wr code h thiz i e = Some (e', h')"
        using less.prems(2) False other 1(1) ob1(1,2) upd r(1) by (subst follower_loop.simps) (simp add: fld_def)
      ultimately show ?thesis by blast
    qed
  qed
qed

text \<open>
  C34. Writing to the followers of an object. Where, on the heaps of some invariant, every call of a
  writing callback returns with the invariant and leaves the lists of followers, the write handlers
  and the lives of objects as they are (it may change anything else, and make objects),
  \<^verbatim>\<open>x_object_write_out\<close> returns, keeps the followers,
  and gives every follower other than the write handler one more unit of life for each time it
  is in the list, also when writing to it failed: the branch that takes life away and drops
  faulty followers is never taken from here, because the truth value of \<^verbatim>\<open>err < 0\<close> is passed on,
  which is never negative.
\<close>

theorem x_object_write_out_credits_all:
  assumes ob: "objs h thiz = Some ob" and alive: "\<forall>a \<in> set (o_writeout ob). objs h a \<noteq> None"
    and hd: "\<forall>t. o_handler ob = Some t \<longrightarrow> objs h t \<noteq> None"
    and i: "I h" and wr: "writes_return I (\<lambda>h a. x_object_try_write env h a buf hints)"
  shows "\<exists>e h'. x_object_write_out env h thiz buf hints = Some (e, h') \<and> credited h h' (served ob 0)"
proof -
  let ?wr = "\<lambda>h a. x_object_try_write env h a buf hints"
  obtain e0 h0 where 0: "(case o_handler ob of None \<Rightarrow> Some (-1, h) | Some t \<Rightarrow> ?wr h t) = Some (e0, h0)" "credited h h0 []" "I h0"
  proof (cases "o_handler ob")
    case None
    then show ?thesis using that [of "-1" h] i credited_refl by simp
  next
    case (Some t)
    then obtain o1 where "objs h t = Some o1" using hd by blast
    then show ?thesis using that Some writes_returnD(1) [OF wr i] by fastforce
  qed
  obtain ob0 where ob0: "objs h0 thiz = Some ob0" "o_writeout ob0 = o_writeout ob" "o_handler ob0 = o_handler ob"
    using creditedD [OF 0(2) ob] by blast
  have alive0: "\<forall>a \<in> set (o_writeout ob0). objs h0 a \<noteq> None" using alive creditedD [OF 0(2)] ob0(2) by fastforce
  have code: "0 \<le> (if e < 0 then 1 else 0 :: int)" for e :: int by simp
  obtain e h' where r: "follower_loop env ?wr (\<lambda>e. if e < 0 then 1 else 0) h0 thiz 0 e0 = Some (e, h')" "credited h0 h' (served ob0 0)"
    using follower_loop_credits [where code = "\<lambda>e. if e < 0 then 1 else 0", OF code wr 0(3) ob0(1) alive0] by blast
  have "x_object_write_out env h thiz buf hints = Some (e, h')"
    unfolding x_object_write_out_def write_with_handler_def ob Option.bind.bind_lunit 0(1) prod.case r(1) ..
  moreover have "credited h h' (served ob 0)" using credited_trans [OF 0(2) r(2)] ob0(2,3) by (simp add: served_def)
  ultimately show ?thesis by blast
qed

text \<open>
  An object with the write handler 3 and the followers 4, 3, 5 and 4, which fail every time and make
  an object for the report.
\<close>

definition fail_env :: obj_env where
  "fail_env = demo_env\<lparr>cls := (\<lambda>_. plain_class\<lparr>try_write := Some (\<lambda>a buf hints h. Some (-5, h\<lparr>objs := (objs h)(brk h := Some (new_xobject 0)), brk := brk h + 1\<rparr>))\<rparr>)\<rparr>"

definition followed :: xobject where
  "followed = (demo_obj ''a'' None None None)\<lparr>o_writeout := [4, 3, 5, 4], o_handler := Some 3\<rparr>"

definition follow_heap :: heap where
  "follow_heap = \<lparr>objs = (\<lambda>a. if a = 2 then Some followed else if a \<in> {3, 4, 5} then Some ((demo_obj ''f'' None None None)\<lparr>o_class := Some 1\<rparr>) else None), brk = 6\<rparr>"

lemma fail_returns: "writes_return (\<lambda>h. \<forall>a \<ge> brk h. objs h a = None) (\<lambda>h a. x_object_try_write fail_env h a buf hints)"
proof -
  have "credited h (h\<lparr>objs := (objs h)(brk h := Some (new_xobject 0)), brk := brk h + 1\<rparr>) []" if "\<forall>a \<ge> brk h. objs h a = None" for h
    using that by (auto simp: credited_def)
  then show ?thesis
    by (auto simp: writes_return_def x_object_try_write_def slot_def fail_env_def credited_refl split: option.split)
qed

theorem x_object_write_out_credits_all_witness:
  "\<exists>e h'. x_object_write_out fail_env follow_heap 2 ''hi'' None = Some (e, h') \<and> map_option o_life (objs h' 4) = Some 2
     \<and> map_option o_life (objs h' 3) = Some 0 \<and> map_option o_life (objs h' 5) = Some 1 \<and> map_option o_writeout (objs h' 2) = Some [4, 3, 5, 4]"
proof -
  have o: "objs follow_heap 2 = Some followed" "\<forall>a \<in> set (o_writeout followed). objs follow_heap a \<noteq> None"
    "\<forall>t. o_handler followed = Some t \<longrightarrow> objs follow_heap t \<noteq> None" "\<forall>a \<ge> brk follow_heap. objs follow_heap a = None"
    by (auto simp: follow_heap_def followed_def)
  have c: "served followed 0 = [4, 5, 4]" by (simp add: served_def followed_def)
  obtain e h' where r: "x_object_write_out fail_env follow_heap 2 ''hi'' None = Some (e, h')" "credited follow_heap h' [4, 5, 4]"
    using x_object_write_out_credits_all [OF o fail_returns, of "''hi''" None] unfolding c by blast
  let ?f = "(demo_obj ''f'' None None None)\<lparr>o_class := Some 1\<rparr>"
  have f: "objs follow_heap 3 = Some ?f" "objs follow_heap 4 = Some ?f" "objs follow_heap 5 = Some ?f" "o_life ?f = 0"
    by (simp_all add: follow_heap_def demo_obj_def new_xobject_def)
  from creditedD [OF r(2) f(1)] creditedD [OF r(2) f(2)] creditedD [OF r(2) f(3)] creditedD [OF r(2) o(1)] r(1) f(4)
  show ?thesis by (intro exI [of _ e] exI [of _ h']) (auto simp: followed_def)
qed

end
