(* ===== verification/Xw_Fifo.thy ===== *)
theory Xw_Fifo
  imports Xw_Prelude
begin

text \<open>
  The contract of a queue: what is put in comes out in the same order. The providers are the
  circular buffer and the message queue.
\<close>

datatype 'a fifo_op = Put 'a | Get

text \<open>
  \<open>rep s xs\<close>: the state \<open>s\<close> holds the elements \<open>xs\<close>, oldest first. \<open>room xs a\<close>: \<open>a\<close> may be put.
\<close>

locale fifo =
  fixes rep :: "'s \<Rightarrow> 'a list \<Rightarrow> bool"
    and room :: "'s \<Rightarrow> 'a list \<Rightarrow> 'a \<Rightarrow> bool"
    and put :: "'s \<Rightarrow> 'a \<Rightarrow> 's option"
    and get :: "'s \<Rightarrow> ('a \<times> 's) option"
  assumes put_rep: "rep s xs \<Longrightarrow> room s xs a \<Longrightarrow> \<exists>s'. put s a = Some s' \<and> rep s' (xs @ [a])"
    and get_rep: "rep s (a # xs) \<Longrightarrow> \<exists>s'. get s = Some (a, s') \<and> rep s' xs"
begin

fun run :: "'s \<Rightarrow> 'a fifo_op list \<Rightarrow> ('a list \<times> 's) option" where
  "run s [] = Some ([], s)"
| "run s (Put a # ops) = do { s1 \<leftarrow> put s a; run s1 ops }"
| "run s (Get # ops) = do { (a, s1) \<leftarrow> get s; (out, s2) \<leftarrow> run s1 ops; Some (a # out, s2) }"

text \<open>The operations are possible: there is room for every put and something for every get.\<close>

fun possible :: "'s \<Rightarrow> 'a list \<Rightarrow> 'a fifo_op list \<Rightarrow> bool" where
  "possible s xs [] \<longleftrightarrow> True"
| "possible s xs (Put a # ops) \<longleftrightarrow> room s xs a \<and> (\<forall>s1. put s a = Some s1 \<longrightarrow> possible s1 (xs @ [a]) ops)"
| "possible s xs (Get # ops) \<longleftrightarrow> xs \<noteq> [] \<and> (\<forall>a s1. get s = Some (a, s1) \<longrightarrow> possible s1 (tl xs) ops)"

definition puts_of :: "'a fifo_op list \<Rightarrow> 'a list" where
  "puts_of ops = concat (map (\<lambda>p. case p of Put a \<Rightarrow> [a] | Get \<Rightarrow> []) ops)"

lemma puts_of_simps [simp]: "puts_of [] = []" "puts_of (Put a # ops) = a # puts_of ops" "puts_of (Get # ops) = puts_of ops"
  by (simp_all add: puts_of_def)

text \<open>What came out followed by what is still inside is what was inside followed by what was put.\<close>

lemma run_order:
  "rep s xs \<Longrightarrow> possible s xs ops \<Longrightarrow> \<exists>out s' ys. run s ops = Some (out, s') \<and> rep s' ys \<and> out @ ys = xs @ puts_of ops"
proof (induction ops arbitrary: s xs)
  case (Cons p ops)
  show ?case
  proof (cases p)
    case (Put a)
    then obtain s1 where "put s a = Some s1" "rep s1 (xs @ [a])" using put_rep Cons.prems by fastforce
    then show ?thesis using Cons.IH [of s1 "xs @ [a]"] Cons.prems(2) Put by auto
  next
    case Get
    then obtain a ys where xs: "xs = a # ys" using Cons.prems(2) by (cases xs) auto
    then obtain s1 where "get s = Some (a, s1)" "rep s1 ys" using get_rep Cons.prems(1) by blast
    then show ?thesis using Cons.IH [of s1 ys] Cons.prems(2) Get xs by fastforce
  qed
qed auto

end

end
