(* ===== verification/Xw_Circbuf.thy ===== *)
theory Xw_Circbuf
  imports Xw_Fifo
begin

text \<open>
  Model of the circular buffer of \<^verbatim>\<open>xwlib/x_stuff.c\<close> (the compiled half of the file). Pointers
  into the block are offsets from \<^verbatim>\<open>start\<close>; \<^verbatim>\<open>end\<close> is the length of the block.
\<close>

record circular_buffer =
  cb_mem :: "u8 list"
  cb_head :: nat
  cb_tail :: nat
  wcnt :: u32
  rcnt :: u32

abbreviation cb_end :: "circular_buffer \<Rightarrow> nat" where
  "cb_end cb \<equiv> length (cb_mem cb)"

definition circbuf_init :: "(nat \<Rightarrow> u8) \<Rightarrow> nat \<Rightarrow> circular_buffer" where
  "circbuf_init junk sz = \<lparr>cb_mem = mem_resize junk [] (sz + 1), cb_head = 0, cb_tail = 0, wcnt = 0, rcnt = 0\<rparr>"

text \<open>All four pointers are equal afterwards; the block is gone.\<close>

definition circbuf_deinit :: "circular_buffer \<Rightarrow> circular_buffer" where
  "circbuf_deinit cb = cb\<lparr>cb_mem := [], cb_head := 0, cb_tail := 0\<rparr>"

definition circbuf_length :: "circular_buffer \<Rightarrow> nat" where
  "circbuf_length cb = (if cb_head cb \<le> cb_tail cb then cb_tail cb - cb_head cb else (cb_end cb - cb_head cb) + cb_tail cb)"

partial_function (option) circbuf_read_loop :: "circular_buffer \<Rightarrow> nat \<Rightarrow> u8 list \<Rightarrow> (u8 list \<times> circular_buffer) option" where
  "circbuf_read_loop cb n out =
     (if n = 0 then Some (out, cb)
      else do {
        let len = min (cb_end cb - cb_head cb) n;
        xs \<leftarrow> mem_read (cb_mem cb) (cb_head cb) len;
        let h = cb_head cb + len;
        circbuf_read_loop (cb\<lparr>cb_head := (if cb_end cb \<le> h then 0 else h)\<rparr>) (n - len) (out @ xs)
      })"

text \<open>The result -1 leaves the buffer alone; the bytes are those copied to the caller.\<close>

definition circbuf_read :: "circular_buffer \<Rightarrow> int \<Rightarrow> (int \<times> u8 list \<times> circular_buffer) option" where
  "circbuf_read cb buf_size =
     (let sz = int (cb_tail cb) - int (cb_head cb);
          sz = (if sz < 0 then sz + int (cb_end cb) else sz)
      in if sz < buf_size then Some (-1, [], cb)
         else do { (out, cb1) \<leftarrow> circbuf_read_loop cb (nat buf_size) []; Some (0, out, cb1) })"

partial_function (option) circbuf_write_loop :: "circular_buffer \<Rightarrow> u8 list \<Rightarrow> circular_buffer option" where
  "circbuf_write_loop cb data =
     (if data = [] then Some cb
      else do {
        let len = min (cb_end cb - cb_tail cb) (length data);
        m \<leftarrow> mem_write (cb_mem cb) (cb_tail cb) (take len data);
        let t = cb_tail cb + len;
        circbuf_write_loop (cb\<lparr>cb_mem := m, cb_tail := (if cb_end cb \<le> t then 0 else t)\<rparr>) (drop len data)
      })"

definition circbuf_write :: "circular_buffer \<Rightarrow> u8 list \<Rightarrow> circular_buffer option" where
  "circbuf_write cb buf = circbuf_write_loop cb buf"

section \<open>What the buffer holds\<close>

text \<open>The offset \<open>i\<close> places behind \<open>h\<close>, around the end.\<close>

definition around :: "nat \<Rightarrow> nat \<Rightarrow> nat \<Rightarrow> nat" where
  "around n h i = (if h + i < n then h + i else h + i - n)"

definition cb_rep :: "circular_buffer \<Rightarrow> u8 list \<Rightarrow> bool" where
  "cb_rep cb xs \<longleftrightarrow> cb_head cb < cb_end cb \<and> length xs < cb_end cb
     \<and> cb_tail cb = around (cb_end cb) (cb_head cb) (length xs)
     \<and> (\<forall>i < length xs. cb_mem cb ! around (cb_end cb) (cb_head cb) i = xs ! i)"

lemma circbuf_init_rep: "cb_rep (circbuf_init junk sz) []"
  by (simp add: cb_rep_def circbuf_init_def around_def)

lemma circbuf_length_rep: "cb_rep cb xs \<Longrightarrow> circbuf_length cb = length xs"
  by (auto simp: cb_rep_def circbuf_length_def around_def)

section \<open>Writing\<close>

lemma write_loop_Nil [simp]: "circbuf_write_loop cb [] = Some cb"
  by (simp add: circbuf_write_loop.simps)

text \<open>One pass of the loop, then the rest from the start of the block.\<close>

lemma write_loop_chunk:
  assumes "cb_tail cb < cb_end cb" "length data \<le> cb_end cb - cb_tail cb"
  shows "circbuf_write_loop cb data = Some (cb\<lparr>cb_mem := buf_put (cb_mem cb) (cb_tail cb) data,
     cb_tail := (if cb_end cb \<le> cb_tail cb + length data then 0 else cb_tail cb + length data)\<rparr>)"
  using assms by (subst circbuf_write_loop.simps) (auto simp: mem_write_def Let_def min_def buf_put_def)

lemma write_loop_wrap:
  assumes "cb_tail cb < cb_end cb" "cb_end cb - cb_tail cb < length data"
  shows "circbuf_write_loop cb data = circbuf_write_loop
     (cb\<lparr>cb_mem := buf_put (cb_mem cb) (cb_tail cb) (take (cb_end cb - cb_tail cb) data), cb_tail := 0\<rparr>)
     (drop (cb_end cb - cb_tail cb) data)"
  using assms by (subst circbuf_write_loop.simps) (auto simp: mem_write_def Let_def min_def)

text \<open>Up to a whole block is written around the end; other cells keep their contents.\<close>

lemma circbuf_write_spec:
  assumes t: "cb_tail cb < cb_end cb" and n: "length data \<le> cb_end cb"
  obtains m where "circbuf_write cb data = Some (cb\<lparr>cb_mem := m, cb_tail := around (cb_end cb) (cb_tail cb) (length data)\<rparr>)"
    "length m = cb_end cb" "\<And>i. i < length data \<Longrightarrow> m ! around (cb_end cb) (cb_tail cb) i = data ! i"
    "\<And>j. j < cb_end cb \<Longrightarrow> (\<And>i. i < length data \<Longrightarrow> j \<noteq> around (cb_end cb) (cb_tail cb) i) \<Longrightarrow> m ! j = cb_mem cb ! j"
proof -
  let ?N = "cb_end cb" and ?t = "cb_tail cb"
  show ?thesis
  proof (cases "length data \<le> ?N - ?t")
    case True
    let ?m = "buf_put (cb_mem cb) ?t data"
    have len: "?t + length data \<le> ?N" using True t by simp
    show ?thesis
    proof (rule that [of ?m])
      show "circbuf_write cb data = Some (cb\<lparr>cb_mem := ?m, cb_tail := around ?N ?t (length data)\<rparr>)"
        using write_loop_chunk [OF t True] len by (auto simp: circbuf_write_def around_def)
      show "length ?m = ?N" using len by simp
      show "?m ! around ?N ?t i = data ! i" if "i < length data" for i
        using that len by (simp add: around_def nth_buf_put)
      show "?m ! j = cb_mem cb ! j" if "j < ?N" "\<And>i. i < length data \<Longrightarrow> j \<noteq> around ?N ?t i" for j
      proof -
        have "\<not> (?t \<le> j \<and> j < ?t + length data)"
        proof
          assume j: "?t \<le> j \<and> j < ?t + length data"
          then have "j - ?t < length data" by linarith
          then show False using j that(1) that(2) [of "j - ?t"] by (simp add: around_def)
        qed
        then show ?thesis using that(1) len by (auto simp: nth_buf_put)
      qed
    qed
  next
    case False
    let ?k = "?N - ?t"
    let ?m1 = "buf_put (cb_mem cb) ?t (take ?k data)"
    let ?m = "buf_put ?m1 0 (drop ?k data)"
    have l1: "length ?m1 = ?N" using t False by simp
    have l2: "length (drop ?k data) \<le> ?N" "length (drop ?k data) = length data - ?k" using n by simp_all
    have rest: "length data - ?k < ?N \<or> ?t = 0" "length data - ?k \<le> ?t" using t n False by auto
    show ?thesis
    proof (rule that [of ?m])
      let ?cb0 = "cb\<lparr>cb_mem := ?m1, cb_tail := 0\<rparr>" and ?d = "drop ?k data"
      have fit: "cb_tail ?cb0 < cb_end ?cb0" "length ?d \<le> cb_end ?cb0 - cb_tail ?cb0" using l1 l2 t by auto
      have "(if cb_end ?cb0 \<le> cb_tail ?cb0 + length ?d then 0 else cb_tail ?cb0 + length ?d) = around ?N ?t (length data)"
        using t n False l1 by (auto simp: around_def)
      with write_loop_chunk [OF fit] have "circbuf_write_loop ?cb0 ?d = Some (cb\<lparr>cb_mem := ?m, cb_tail := around ?N ?t (length data)\<rparr>)"
        by simp
      then show "circbuf_write cb data = Some (cb\<lparr>cb_mem := ?m, cb_tail := around ?N ?t (length data)\<rparr>)"
        using write_loop_wrap [OF t, of data] False by (simp add: circbuf_write_def)
      show "length ?m = ?N" using l1 l2 by (simp del: length_drop)
      have nth: "?m ! j = (if j < length data - ?k then data ! (?k + j) else if ?t \<le> j then data ! (j - ?t) else cb_mem cb ! j)"
        if "j < ?N" for j
        using that l1 l2 False t n by (simp add: nth_buf_put)
      show "?m ! around ?N ?t i = data ! i" if i: "i < length data" for i
      proof (cases "?t + i < ?N")
        case True
        then have "\<not> ?t + i < length data - ?k" using rest(2) by simp
        then show ?thesis using True by (simp add: around_def nth)
      next
        case f: False
        then have "?t + i - ?N < length data - ?k" "?k + (?t + i - ?N) = i" using i t by simp_all
        then show ?thesis using f n i t by (simp add: around_def nth)
      qed
      show "?m ! j = cb_mem cb ! j" if "j < ?N" "\<And>i. i < length data \<Longrightarrow> j \<noteq> around ?N ?t i" for j
      proof -
        have "\<not> j < length data - ?k"
        proof
          assume "j < length data - ?k"
          then have "?k + j < length data" "j = around ?N ?t (?k + j)" using t by (simp_all add: around_def)
          then show False using that(2) by blast
        qed
        moreover have "\<not> ?t \<le> j"
        proof
          assume "?t \<le> j"
          then have "j - ?t < length data" "j = around ?N ?t (j - ?t)" using that(1) False by (simp_all add: around_def)
          then show False using that(2) by blast
        qed
        ultimately show ?thesis using nth that(1) by simp
      qed
    qed
  qed
qed


section \<open>Reading\<close>

lemma read_loop_0 [simp]: "circbuf_read_loop cb 0 out = Some (out, cb)"
  by (simp add: circbuf_read_loop.simps)

lemma read_loop_chunk:
  assumes "cb_head cb < cb_end cb" "n \<le> cb_end cb - cb_head cb"
  shows "circbuf_read_loop cb n out = Some (out @ take n (drop (cb_head cb) (cb_mem cb)),
     cb\<lparr>cb_head := (if n \<noteq> 0 \<and> cb_end cb \<le> cb_head cb + n then 0 else cb_head cb + n)\<rparr>)"
  using assms by (subst circbuf_read_loop.simps) (auto simp: mem_read_def Let_def min_def)

lemma read_loop_wrap:
  assumes "cb_head cb < cb_end cb" "cb_end cb - cb_head cb < n"
  shows "circbuf_read_loop cb n out = circbuf_read_loop (cb\<lparr>cb_head := 0\<rparr>) (n - (cb_end cb - cb_head cb)) (out @ drop (cb_head cb) (cb_mem cb))"
  using assms by (subst circbuf_read_loop.simps) (auto simp: mem_read_def Let_def min_def)

lemma circbuf_read_loop_spec:
  assumes h: "cb_head cb < cb_end cb" and n: "n \<le> cb_end cb"
  shows "circbuf_read_loop cb n [] = Some (map (\<lambda>i. cb_mem cb ! around (cb_end cb) (cb_head cb) i) [0..<n],
     cb\<lparr>cb_head := around (cb_end cb) (cb_head cb) n\<rparr>)"
proof -
  let ?N = "cb_end cb" and ?h = "cb_head cb"
  show ?thesis
  proof (cases "n \<le> ?N - ?h")
    case True
    have "take n (drop ?h (cb_mem cb)) = map (\<lambda>i. cb_mem cb ! around ?N ?h i) [0..<n]"
      using True h by (intro nth_equalityI) (auto simp: around_def)
    moreover have "(if n \<noteq> 0 \<and> ?N \<le> ?h + n then 0 else ?h + n) = around ?N ?h n"
      using True h by (auto simp: around_def)
    ultimately show ?thesis using read_loop_chunk [OF h True, of "[]"] by simp
  next
    case False
    let ?k = "?N - ?h"
    let ?cb0 = "cb\<lparr>cb_head := 0\<rparr>"
    have fit: "cb_head ?cb0 < cb_end ?cb0" "n - ?k \<le> cb_end ?cb0 - cb_head ?cb0" using h n by auto
    have "(if n - ?k \<noteq> 0 \<and> cb_end ?cb0 \<le> cb_head ?cb0 + (n - ?k) then 0 else cb_head ?cb0 + (n - ?k)) = around ?N ?h n"
      using h n False by (auto simp: around_def)
    with read_loop_chunk [OF fit, of "drop ?h (cb_mem cb)"] have "circbuf_read_loop ?cb0 (n - ?k) (drop ?h (cb_mem cb))
        = Some (drop ?h (cb_mem cb) @ take (n - ?k) (cb_mem cb), cb\<lparr>cb_head := around ?N ?h n\<rparr>)"
      by simp
    moreover have "drop ?h (cb_mem cb) @ take (n - ?k) (cb_mem cb) = map (\<lambda>i. cb_mem cb ! around ?N ?h i) [0..<n]"
    proof (rule nth_equalityI)
      show "length (drop ?h (cb_mem cb) @ take (n - ?k) (cb_mem cb)) = length (map (\<lambda>i. cb_mem cb ! around ?N ?h i) [0..<n])"
        using h n False by simp
      fix i assume "i < length (drop ?h (cb_mem cb) @ take (n - ?k) (cb_mem cb))"
      then have i: "i < n" using h n False by simp
      show "(drop ?h (cb_mem cb) @ take (n - ?k) (cb_mem cb)) ! i = map (\<lambda>i. cb_mem cb ! around ?N ?h i) [0..<n] ! i"
      proof (cases "i < ?k")
        case True
        then have "?h + i < ?N" by linarith
        then show ?thesis using i h True by (simp add: nth_append around_def)
      next
        case g: False
        then have "i - ?k = ?h + i - ?N" "i - ?k < n - ?k" "\<not> ?h + i < ?N" using h i by linarith+
        then show ?thesis using g i h by (simp add: nth_append around_def)
      qed
    qed
    ultimately show ?thesis using read_loop_wrap [OF h, of n "[]"] False by simp
  qed
qed

section \<open>The buffer as a queue of bytes\<close>

lemma around_around: "h < n \<Longrightarrow> i \<le> n \<Longrightarrow> j \<le> n \<Longrightarrow> i + j \<le> n \<Longrightarrow> around n (around n h i) j = around n h (i + j)"
  by (auto simp: around_def)

lemma around_inj: "h < n \<Longrightarrow> i < n \<Longrightarrow> j < n \<Longrightarrow> around n h i = around n h j \<Longrightarrow> i = j"
  by (auto simp: around_def split: if_splits)

lemma around_less: "h < n \<Longrightarrow> i < n \<Longrightarrow> around n h i < n"
  by (auto simp: around_def)

lemma cb_rep_write:
  assumes r: "cb_rep cb xs" and room: "length xs + length data < cb_end cb"
  shows "\<exists>cb'. circbuf_write cb data = Some cb' \<and> cb_rep cb' (xs @ data) \<and> cb_end cb' = cb_end cb"
proof -
  let ?N = "cb_end cb" and ?h = "cb_head cb" and ?t = "cb_tail cb"
  have h: "?h < ?N" and t: "?t = around ?N ?h (length xs)" "?t < ?N" and xs: "length xs < ?N"
    and old: "i < length xs \<Longrightarrow> cb_mem cb ! around ?N ?h i = xs ! i" for i
    using r around_less by (auto simp: cb_rep_def)
  have pos: "around ?N ?t i = around ?N ?h (length xs + i)" if "length xs + i \<le> ?N" for i
    unfolding t(1) using that h xs by (intro around_around) simp_all
  have "length data \<le> ?N" using room by simp
  from circbuf_write_spec [OF t(2) this] obtain m where m: "circbuf_write cb data = Some (cb\<lparr>cb_mem := m, cb_tail := around ?N ?t (length data)\<rparr>)"
    "length m = ?N" "\<And>i. i < length data \<Longrightarrow> m ! around ?N ?t i = data ! i"
    "\<And>j. j < ?N \<Longrightarrow> (\<And>i. i < length data \<Longrightarrow> j \<noteq> around ?N ?t i) \<Longrightarrow> m ! j = cb_mem cb ! j" by blast
  have "m ! around ?N ?h i = (xs @ data) ! i" if i: "i < length xs + length data" for i
  proof (cases "i < length xs")
    case True
    have "around ?N ?h i \<noteq> around ?N ?t j" if "j < length data" for j
      using around_inj [OF h, of i "length xs + j"] True that room pos [of j] by auto
    then have "m ! around ?N ?h i = cb_mem cb ! around ?N ?h i" using True xs h by (intro m(4) around_less) simp_all
    then show ?thesis using True old by (simp add: nth_append)
  next
    case False
    then have "around ?N ?h i = around ?N ?t (i - length xs)" using pos [of "i - length xs"] i room by simp
    then show ?thesis using False i m(3) [of "i - length xs"] by (simp add: nth_append)
  qed
  then show ?thesis using m(1,2) h room pos [of "length data"] by (simp add: cb_rep_def)
qed

lemma cb_rep_read:
  assumes r: "cb_rep cb (xs @ ys)"
  shows "\<exists>cb'. circbuf_read cb (int (length xs)) = Some (0, xs, cb') \<and> cb_rep cb' ys \<and> cb_end cb' = cb_end cb"
proof -
  let ?N = "cb_end cb" and ?h = "cb_head cb" and ?n = "length xs"
  have h: "?h < ?N" and t: "cb_tail cb = around ?N ?h (?n + length ys)" and n: "?n + length ys < ?N"
    and old: "i < ?n + length ys \<Longrightarrow> cb_mem cb ! around ?N ?h i = (xs @ ys) ! i" for i
    using r by (auto simp: cb_rep_def)
  have out: "map (\<lambda>i. cb_mem cb ! around ?N ?h i) [0..<?n] = xs"
    using old by (intro nth_equalityI) (simp_all add: nth_append)
  have avail: "\<not> (if int (cb_tail cb) - int ?h < 0 then int (cb_tail cb) - int ?h + int ?N else int (cb_tail cb) - int ?h) < int ?n"
    using h n by (auto simp: t around_def)
  let ?cb = "cb\<lparr>cb_head := around ?N ?h ?n\<rparr>"
  have "circbuf_read cb (int ?n) = Some (0, xs, ?cb)"
    using avail circbuf_read_loop_spec [OF h, of ?n] n by (simp add: circbuf_read_def Let_def out)
  moreover have shift: "around ?N (around ?N ?h ?n) i = around ?N ?h (?n + i)" if "?n + i \<le> ?N" for i
    using that h n by (intro around_around) simp_all
  have "cb_rep ?cb ys"
    using around_less [OF h, of ?n] n t old by (auto simp: cb_rep_def shift nth_append)
  ultimately show ?thesis by auto
qed

lemma circbuf_read_short: "cb_rep cb xs \<Longrightarrow> int (length xs) < k \<Longrightarrow> circbuf_read cb k = Some (-1, [], cb)"
  by (auto simp: cb_rep_def circbuf_read_def around_def Let_def)

text \<open>Single bytes, for the contract of a queue.\<close>

definition cb_put :: "circular_buffer \<Rightarrow> u8 \<Rightarrow> circular_buffer option" where
  "cb_put cb b = circbuf_write cb [b]"

definition cb_get :: "circular_buffer \<Rightarrow> (u8 \<times> circular_buffer) option" where
  "cb_get cb = do { (r, out, cb1) \<leftarrow> circbuf_read cb 1; if r = 0 then Some (hd out, cb1) else None }"

definition cb_room :: "circular_buffer \<Rightarrow> u8 list \<Rightarrow> u8 \<Rightarrow> bool" where
  "cb_room cb xs b \<longleftrightarrow> length xs + 1 < cb_end cb"

interpretation cbq: fifo cb_rep cb_room cb_put cb_get
proof
  show "\<exists>s'. cb_put s a = Some s' \<and> cb_rep s' (xs @ [a])" if "cb_rep s xs" "cb_room s xs a" for s xs a
    using cb_rep_write [OF that(1), of "[a]"] that(2) by (auto simp: cb_put_def cb_room_def)
  show "\<exists>s'. cb_get s = Some (a, s') \<and> cb_rep s' xs" if "cb_rep s (a # xs)" for s a xs
    using cb_rep_read [of s "[a]" xs] that by (auto simp: cb_get_def)
qed

section \<open>Claims\<close>

text \<open>
  C35. The circular buffer is a queue of bytes: after a write that fits (contents and data
  together at most the size it was created with), reading as many bytes as it holds returns
  the old contents followed by the data and empties it, wherever the contents wrap around;
  asking for one byte more returns -1 and changes nothing.
\<close>

theorem circbuf_write_read:
  assumes r: "cb_rep cb xs" and room: "length xs + length data < cb_end cb"
  shows "\<exists>cb1 cb2. circbuf_write cb data = Some cb1 \<and> circbuf_length cb1 = length xs + length data
    \<and> circbuf_read cb1 (int (length xs + length data)) = Some (0, xs @ data, cb2) \<and> cb_rep cb2 []
    \<and> circbuf_read cb1 (int (length xs + length data) + 1) = Some (-1, [], cb1)"
proof -
  obtain cb1 where cb1: "circbuf_write cb data = Some cb1" "cb_rep cb1 (xs @ data)" using cb_rep_write [OF r room] by blast
  have "cb_rep cb1 ((xs @ data) @ [])" using cb1(2) by simp
  from cb_rep_read [OF this] obtain cb2 where "circbuf_read cb1 (int (length xs + length data)) = Some (0, xs @ data, cb2)" "cb_rep cb2 []"
    by auto
  moreover have "circbuf_length cb1 = length xs + length data" using circbuf_length_rep [OF cb1(2)] by simp
  moreover have "circbuf_read cb1 (int (length xs + length data) + 1) = Some (-1, [], cb1)"
    by (rule circbuf_read_short [OF cb1(2)]) simp
  ultimately show ?thesis using cb1(1) by blast
qed

theorem circbuf_write_read_witness:
  "\<exists>cb1 cb2. circbuf_write (circbuf_init (\<lambda>_. 0) 3) [1, 2] = Some cb1 \<and> circbuf_length cb1 = length ([] :: u8 list) + length [1 :: u8, 2]
    \<and> circbuf_read cb1 (int (length ([] :: u8 list) + length [1 :: u8, 2])) = Some (0, [] @ [1, 2], cb2) \<and> cb_rep cb2 []
    \<and> circbuf_read cb1 (int (length ([] :: u8 list) + length [1 :: u8, 2]) + 1) = Some (-1, [], cb1)"
  by (rule circbuf_write_read [OF circbuf_init_rep]) (simp add: circbuf_init_def)

text \<open>
  Writing does not check for room: a write that fills the block exactly, one byte more
  than the buffer was created for, leaves a buffer that counts as empty, so that the old
  contents and the data are both lost.
\<close>

theorem circbuf_write_full_loses_all:
  assumes r: "cb_rep cb xs" and full: "length xs + length data = cb_end cb"
  shows "\<exists>cb'. circbuf_write cb data = Some cb' \<and> cb_rep cb' [] \<and> circbuf_length cb' = 0"
proof -
  let ?N = "cb_end cb" and ?h = "cb_head cb" and ?t = "cb_tail cb"
  have h: "?h < ?N" and t: "?t = around ?N ?h (length xs)" "?t < ?N" using r around_less by (auto simp: cb_rep_def)
  have "length data \<le> ?N" using full by simp
  from circbuf_write_spec [OF t(2) this] obtain m where
    m: "circbuf_write cb data = Some (cb\<lparr>cb_mem := m, cb_tail := around ?N ?t (length data)\<rparr>)" "length m = ?N" by metis
  have "around ?N ?t (length data) = around ?N ?h ?N" unfolding t(1) using h full by (auto simp: around_def)
  then have "cb_rep (cb\<lparr>cb_mem := m, cb_tail := around ?N ?t (length data)\<rparr>) []"
    using h m(2) by (auto simp: cb_rep_def around_def)
  from m(1) this circbuf_length_rep [OF this] show ?thesis by simp
qed

theorem circbuf_write_full_loses_all_witness:
  "\<exists>cb'. circbuf_write (circbuf_init (\<lambda>_. 0) 3) [1, 2, 3, 4] = Some cb' \<and> cb_rep cb' [] \<and> circbuf_length cb' = 0"
  by (rule circbuf_write_full_loses_all [OF circbuf_init_rep]) (simp add: circbuf_init_def)

end
