(* ===== verification/Xw_Queue.thy ===== *)
theory Xw_Queue
  imports Xw_Fifo
begin

text \<open>
  Model of the message queue \<^verbatim>\<open>xwlib/x_queue.c\<close> that threads share. A message is linked by its
  \<^verbatim>\<open>prev\<close> pointer to the one sent after it. The critical sections run under a mutex and are one
  step each; the semaphore and the unprotected look at \<^verbatim>\<open>qlen\<close> are steps of their own.
\<close>

section \<open>The queue\<close>

record x_msg =
  m_prev :: "nat option"

record x_queue =
  cs_sem :: nat
  cs_mx :: "nat option"
  qlen :: u32
  q_head :: "nat option"
  q_tail :: "nat option"

text \<open>The queue together with the store of the messages it points into.\<close>

record qstore = x_queue +
  msgs :: "nat \<rightharpoonup> x_msg"

definition x_queue_init :: "qstore \<Rightarrow> qstore" where
  "x_queue_init q = q\<lparr>q_head := None, q_tail := None, qlen := 0, cs_sem := 0, cs_mx := None\<rparr>"

text \<open>The two critical sections; \<^theory_text>\<open>None\<close> is a dereferenced null or dangling pointer.\<close>

definition deq_body :: "qstore \<Rightarrow> (nat option \<times> qstore) option" where
  "deq_body q =
     (if q_tail q = q_head q then Some (q_head q, q\<lparr>q_tail := None, q_head := None\<rparr>)
      else do {
        h \<leftarrow> q_head q;
        m \<leftarrow> msgs q h;
        Some (q_head q, q\<lparr>q_head := m_prev m\<rparr>)
      })"

definition enq_body :: "qstore \<Rightarrow> nat option \<Rightarrow> qstore option" where
  "enq_body q mbuf = do {
     q1 \<leftarrow> (case q_tail q of
         None \<Rightarrow> Some (q\<lparr>q_tail := mbuf, q_head := mbuf\<rparr>)
       | Some t \<Rightarrow> do {
           m \<leftarrow> msgs q t;
           Some (q\<lparr>msgs := (msgs q)(t \<mapsto> m\<lparr>m_prev := mbuf\<rparr>), q_tail := mbuf\<rparr>)
         });
     Some (q1\<lparr>qlen := qlen q1 + 1\<rparr>)
   }"

text \<open>The calls as a thread makes them that runs alone; a wait at zero never returns.\<close>

datatype 'a call = Blocks | Returns 'a

definition x_queue_dequeue_head :: "qstore \<Rightarrow> (nat option \<times> qstore) call option" where
  "x_queue_dequeue_head q =
     (if cs_sem q = 0 then Some Blocks
      else let q = q\<lparr>cs_sem := cs_sem q - 1\<rparr>
           in if qlen q = 0 then Some (Returns (None, q))
              else if cs_mx q \<noteq> None then Some Blocks
              else map_option Returns (deq_body q))"

definition x_queue_queue_tail :: "qstore \<Rightarrow> nat option \<Rightarrow> qstore call option" where
  "x_queue_queue_tail q mbuf =
     (if cs_mx q \<noteq> None then Some Blocks
      else do { q1 \<leftarrow> enq_body q mbuf; Some (Returns (q1\<lparr>cs_sem := cs_sem q1 + 1\<rparr>)) })"

section \<open>What the queue holds\<close>

fun qchain :: "(nat \<rightharpoonup> x_msg) \<Rightarrow> nat list \<Rightarrow> bool" where
  "qchain ms [] \<longleftrightarrow> True"
| "qchain ms [m] \<longleftrightarrow> ms m \<noteq> None"
| "qchain ms (m # n # xs) \<longleftrightarrow> (\<exists>x. ms m = Some x \<and> m_prev x = Some n) \<and> qchain ms (n # xs)"

definition qrep :: "qstore \<Rightarrow> nat list \<Rightarrow> bool" where
  "qrep q xs \<longleftrightarrow> distinct xs \<and> qchain (msgs q) xs
     \<and> q_head q = (if xs = [] then None else Some (hd xs)) \<and> q_tail q = (if xs = [] then None else Some (last xs))"

lemma qrep_init [simp]: "qrep (x_queue_init q) []"
  by (simp add: qrep_def x_queue_init_def)

lemma qrep_sync [simp]: "qrep (q\<lparr>cs_sem := n\<rparr>) xs = qrep q xs" "qrep (q\<lparr>cs_mx := t\<rparr>) xs = qrep q xs"
  "qrep (q\<lparr>qlen := w\<rparr>) xs = qrep q xs"
  by (simp_all add: qrep_def)

lemma qchain_alive: "qchain ms xs \<Longrightarrow> m \<in> set xs \<Longrightarrow> ms m \<noteq> None"
  by (induction ms xs rule: qchain.induct) auto

lemma qchain_snoc:
  "qchain ms (xs @ [t]) \<Longrightarrow> distinct (xs @ [t]) \<Longrightarrow> ms t = Some x \<Longrightarrow> ms n \<noteq> None \<Longrightarrow> n \<notin> set (xs @ [t])
   \<Longrightarrow> qchain (ms(t \<mapsto> x\<lparr>m_prev := Some n\<rparr>)) (xs @ [t, n])"
proof (induction xs)
  case (Cons a xs)
  then show ?case by (cases xs) auto
qed auto

lemma enq_body_rep:
  assumes r: "qrep q xs" and m: "m \<notin> set xs" "msgs q m \<noteq> None"
  shows "\<exists>q'. enq_body q (Some m) = Some q' \<and> qrep q' (xs @ [m]) \<and> qlen q' = qlen q + 1
    \<and> cs_sem q' = cs_sem q \<and> cs_mx q' = cs_mx q \<and> (\<forall>a. msgs q' a = None \<longleftrightarrow> msgs q a = None)"
proof (cases xs rule: rev_cases)
  case Nil
  then show ?thesis using r m by (auto simp: qrep_def enq_body_def)
next
  case (snoc ys t)
  then obtain x where x: "msgs q t = Some x" using r qchain_alive [of "msgs q" xs t] by (auto simp: qrep_def)
  have "qchain ((msgs q)(t \<mapsto> x\<lparr>m_prev := Some m\<rparr>)) (ys @ [t, m])"
    using r m x snoc by (intro qchain_snoc) (simp_all add: qrep_def)
  then show ?thesis using r m x snoc by (auto simp: qrep_def enq_body_def hd_append)
qed

lemma deq_body_rep:
  assumes r: "qrep q (m # xs)"
  shows "\<exists>q'. deq_body q = Some (Some m, q') \<and> qrep q' xs \<and> qlen q' = qlen q \<and> cs_sem q' = cs_sem q \<and> cs_mx q' = cs_mx q \<and> msgs q' = msgs q"
proof (cases xs)
  case Nil
  then show ?thesis using r by (auto simp: qrep_def deq_body_def)
next
  case (Cons n ys)
  have "m \<noteq> last (n # ys)" using r Cons last_in_set [of "n # ys"] by (auto simp: qrep_def)
  then show ?thesis using r Cons by (auto simp: qrep_def deq_body_def)
qed

lemma deq_body_empty: "qrep q [] \<Longrightarrow> deq_body q = Some (None, q\<lparr>q_tail := None, q_head := None\<rparr>)"
  by (simp add: qrep_def deq_body_def)

section \<open>The calls of a single thread\<close>

text \<open>Between calls of a single thread the semaphore counts the messages that wait.\<close>

definition qseq :: "qstore \<Rightarrow> nat list \<Rightarrow> bool" where
  "qseq q xs \<longleftrightarrow> qrep q xs \<and> cs_sem q = length xs \<and> cs_mx q = None \<and> (xs \<noteq> [] \<longrightarrow> qlen q \<noteq> 0)"

definition q_room :: "qstore \<Rightarrow> nat list \<Rightarrow> nat \<Rightarrow> bool" where
  "q_room q xs m \<longleftrightarrow> m \<notin> set xs \<and> msgs q m \<noteq> None \<and> qlen q + 1 \<noteq> 0"

definition q_put :: "qstore \<Rightarrow> nat \<Rightarrow> qstore option" where
  "q_put q m = do { c \<leftarrow> x_queue_queue_tail q (Some m); case c of Blocks \<Rightarrow> None | Returns q1 \<Rightarrow> Some q1 }"

definition q_get :: "qstore \<Rightarrow> (nat \<times> qstore) option" where
  "q_get q = do { c \<leftarrow> x_queue_dequeue_head q; case c of Returns (Some m, q1) \<Rightarrow> Some (m, q1) | _ \<Rightarrow> None }"

interpretation msgq: fifo qseq q_room q_put q_get
proof
  show "\<exists>s'. q_put s a = Some s' \<and> qseq s' (xs @ [a])" if "qseq s xs" "q_room s xs a" for s xs a
    using enq_body_rep [of s xs a] that by (auto simp: qseq_def q_room_def q_put_def x_queue_queue_tail_def)
  show "\<exists>s'. q_get s = Some (a, s') \<and> qseq s' xs" if r: "qseq s (a # xs)" for s a xs
  proof -
    have "qrep (s\<lparr>cs_sem := cs_sem s - 1\<rparr>) (a # xs)" using r by (simp add: qseq_def)
    from deq_body_rep [OF this] show ?thesis
      using r by (auto simp: qseq_def q_get_def x_queue_dequeue_head_def)
  qed
qed

end
