(* ===== verification/Xw_Queue_Threads.thy ===== *)
theory Xw_Queue_Threads
  imports Xw_Queue
begin

text \<open>
  Threads that share a message queue: each runs calls of \<^verbatim>\<open>x_queue_queue_tail\<close> and
  \<^verbatim>\<open>x_queue_dequeue_head\<close> one statement at a time, in any interleaving. A thread sends only
  messages that it owns and owns what it receives.
\<close>

section \<open>The steps of a call\<close>

datatype pc = Idle
  | Enq_enter nat | Enq_crit nat | Enq_exit | Enq_post
  | Deq_wait | Deq_test | Deq_enter | Deq_crit | Deq_exit "nat option" | Deq_ret "nat option"

text \<open>\<open>owned\<close>: messages outside the queue; \<open>sent\<close>, \<open>recvd\<close>: what went through the queue so far.\<close>

record sys =
  que :: qstore
  pcs :: "pc list"
  owned :: "nat set"
  sent :: "nat list"
  recvd :: "nat list"

definition at :: "sys \<Rightarrow> nat \<Rightarrow> pc \<Rightarrow> bool" where
  "at s t p \<longleftrightarrow> t < length (pcs s) \<and> pcs s ! t = p"

definition goto :: "nat \<Rightarrow> pc \<Rightarrow> sys \<Rightarrow> sys" where
  "goto t p s = s\<lparr>pcs := (pcs s)[t := p]\<rparr>"

definition with_mx :: "nat option \<Rightarrow> sys \<Rightarrow> sys" where
  "with_mx x s = s\<lparr>que := (que s)\<lparr>cs_mx := x\<rparr>\<rparr>"

definition with_sem :: "nat \<Rightarrow> sys \<Rightarrow> sys" where
  "with_sem n s = s\<lparr>que := (que s)\<lparr>cs_sem := n\<rparr>\<rparr>"

definition opt_list :: "'a option \<Rightarrow> 'a list" where
  "opt_list r = (case r of None \<Rightarrow> [] | Some m \<Rightarrow> [m])"

lemma opt_list_simps [simp]: "opt_list None = []" "opt_list (Some m) = [m]"
  by (simp_all add: opt_list_def)

text \<open>With \<open>intr\<close> a signal may interrupt a wait; the code does not look at the result of the wait.\<close>

inductive qstep :: "bool \<Rightarrow> sys \<Rightarrow> sys \<Rightarrow> bool" for intr where
  enq_enter: "at s t (Enq_enter m) \<Longrightarrow> cs_mx (que s) = None \<Longrightarrow> qstep intr s (goto t (Enq_crit m) (with_mx (Some t) s))"
| enq_crit: "at s t (Enq_crit m) \<Longrightarrow> enq_body (que s) (Some m) = Some q
    \<Longrightarrow> qstep intr s (goto t Enq_exit (s\<lparr>que := q, sent := sent s @ [m]\<rparr>))"
| enq_exit: "at s t Enq_exit \<Longrightarrow> qstep intr s (goto t Enq_post (with_mx None s))"
| enq_post: "at s t Enq_post \<Longrightarrow> qstep intr s (goto t Idle (with_sem (cs_sem (que s) + 1) s))"
| deq_wait: "at s t Deq_wait \<Longrightarrow> 0 < cs_sem (que s) \<Longrightarrow> qstep intr s (goto t Deq_test (with_sem (cs_sem (que s) - 1) s))"
| deq_intr: "at s t Deq_wait \<Longrightarrow> intr \<Longrightarrow> qstep intr s (goto t Deq_test s)"
| deq_none: "at s t Deq_test \<Longrightarrow> qlen (que s) = 0 \<Longrightarrow> qstep intr s (goto t (Deq_ret None) s)"
| deq_some: "at s t Deq_test \<Longrightarrow> qlen (que s) \<noteq> 0 \<Longrightarrow> qstep intr s (goto t Deq_enter s)"
| deq_enter: "at s t Deq_enter \<Longrightarrow> cs_mx (que s) = None \<Longrightarrow> qstep intr s (goto t Deq_crit (with_mx (Some t) s))"
| deq_crit: "at s t Deq_crit \<Longrightarrow> deq_body (que s) = Some (r, q)
    \<Longrightarrow> qstep intr s (goto t (Deq_exit r) (s\<lparr>que := q, recvd := recvd s @ opt_list r\<rparr>))"
| deq_exit: "at s t (Deq_exit r) \<Longrightarrow> qstep intr s (goto t (Deq_ret r) (with_mx None s))"

text \<open>What the callers do: start a call, or take the result of one.\<close>

inductive qcall :: "sys \<Rightarrow> sys \<Rightarrow> bool" where
  send: "at s t Idle \<Longrightarrow> m \<in> owned s \<Longrightarrow> qcall s (goto t (Enq_enter m) (s\<lparr>owned := owned s - {m}\<rparr>))"
| receive: "at s t Idle \<Longrightarrow> qcall s (goto t Deq_wait s)"
| return: "at s t (Deq_ret r) \<Longrightarrow> qcall s (goto t Idle (s\<lparr>owned := owned s \<union> set (opt_list r)\<rparr>))"

definition start_sys :: "qstore \<Rightarrow> nat \<Rightarrow> nat set \<Rightarrow> sys" where
  "start_sys q n ms = \<lparr>que = x_queue_init q, pcs = replicate n Idle, owned = ms, sent = [], recvd = []\<rparr>"

inductive qreach :: "bool \<Rightarrow> sys \<Rightarrow> bool" for intr where
  start: "\<forall>m\<in>ms. msgs q m \<noteq> None \<Longrightarrow> qreach intr (start_sys q n ms)"
| step: "qreach intr s \<Longrightarrow> qstep intr s s' \<Longrightarrow> qreach intr s'"
| call: "qreach intr s \<Longrightarrow> qcall s s' \<Longrightarrow> qreach intr s'"

text \<open>The same steps as a function: what thread \<open>t\<close> does next, unless it has to wait.\<close>

definition thread_step :: "nat \<Rightarrow> sys \<Rightarrow> sys option" where
  "thread_step t s =
     (if length (pcs s) \<le> t then None
      else case pcs s ! t of
        Enq_enter m \<Rightarrow> if cs_mx (que s) = None then Some (goto t (Enq_crit m) (with_mx (Some t) s)) else None
      | Enq_crit m \<Rightarrow> do { q \<leftarrow> enq_body (que s) (Some m); Some (goto t Enq_exit (s\<lparr>que := q, sent := sent s @ [m]\<rparr>)) }
      | Enq_exit \<Rightarrow> Some (goto t Enq_post (with_mx None s))
      | Enq_post \<Rightarrow> Some (goto t Idle (with_sem (cs_sem (que s) + 1) s))
      | Deq_wait \<Rightarrow> if 0 < cs_sem (que s) then Some (goto t Deq_test (with_sem (cs_sem (que s) - 1) s)) else None
      | Deq_test \<Rightarrow> Some (goto t (if qlen (que s) = 0 then Deq_ret None else Deq_enter) s)
      | Deq_enter \<Rightarrow> if cs_mx (que s) = None then Some (goto t Deq_crit (with_mx (Some t) s)) else None
      | Deq_crit \<Rightarrow> do { (r, q) \<leftarrow> deq_body (que s); Some (goto t (Deq_exit r) (s\<lparr>que := q, recvd := recvd s @ opt_list r\<rparr>)) }
      | Deq_exit r \<Rightarrow> Some (goto t (Deq_ret r) (with_mx None s))
      | Idle \<Rightarrow> None
      | Deq_ret r \<Rightarrow> None)"

lemma thread_step_sound: "thread_step t s = Some s' \<Longrightarrow> qstep intr s s'"
  by (cases "t < length (pcs s)"; cases "pcs s ! t")
    (auto simp: thread_step_def at_def intro: qstep.intros qstep.intros [simplified] split: if_splits bind_splits)

lemma thread_exI: "at s t p \<Longrightarrow> thread_step t s = Some s' \<Longrightarrow> \<exists>t. thread_step t s = Some s'"
  by blast

lemma qstep_iff: "qstep False s s' \<longleftrightarrow> (\<exists>t. thread_step t s = Some s')"
proof
  assume "qstep False s s'"
  then show "\<exists>t. thread_step t s = Some s'"
    by (induction rule: qstep.induct) ((rule thread_exI, assumption), simp add: thread_step_def at_def)+
qed (use thread_step_sound in blast)

fun play :: "nat list \<Rightarrow> sys \<Rightarrow> sys option" where
  "play [] s = Some s"
| "play (t # ts) s = do { s1 \<leftarrow> thread_step t s; play ts s1 }"

lemma play_reach: "qreach intr s \<Longrightarrow> play ts s = Some s' \<Longrightarrow> qreach intr s'"
proof (induction ts arbitrary: s)
  case (Cons t ts)
  from Cons.prems(2) obtain s1 where "thread_step t s = Some s1" "play ts s1 = Some s'" by (auto split: bind_splits)
  then show ?case using Cons.IH [of s1] qreach.step [OF Cons.prems(1) thread_step_sound] by blast
qed simp

section \<open>Mutual exclusion\<close>

fun crit :: "pc \<Rightarrow> bool" where
  "crit (Enq_crit m) = True" | "crit Enq_exit = True" | "crit Deq_crit = True" | "crit (Deq_exit r) = True" | "crit _ = False"

definition inside :: "sys \<Rightarrow> nat \<Rightarrow> bool" where
  "inside s t \<longleftrightarrow> t < length (pcs s) \<and> crit (pcs s ! t)"

definition mx_inv :: "sys \<Rightarrow> bool" where
  "mx_inv s \<longleftrightarrow> inside s = (\<lambda>t. cs_mx (que s) = Some t)"

lemma enq_body_sync: "enq_body q m = Some q' \<Longrightarrow> cs_mx q' = cs_mx q \<and> cs_sem q' = cs_sem q \<and> qlen q' = qlen q + 1"
  by (auto simp: enq_body_def split: option.splits bind_splits)

lemma deq_body_sync: "deq_body q = Some (r, q') \<Longrightarrow> cs_mx q' = cs_mx q \<and> cs_sem q' = cs_sem q \<and> qlen q' = qlen q \<and> msgs q' = msgs q"
  by (auto simp: deq_body_def split: if_splits option.splits bind_splits)

lemmas sys_defs = at_def goto_def with_mx_def with_sem_def

lemma goto_simps [simp]: "pcs (goto t p s) = (pcs s)[t := p]" "que (goto t p s) = que s" "owned (goto t p s) = owned s"
  "sent (goto t p s) = sent s" "recvd (goto t p s) = recvd s"
  by (simp_all add: goto_def)

lemma with_simps [simp]: "pcs (with_mx x s) = pcs s" "que (with_mx x s) = (que s)\<lparr>cs_mx := x\<rparr>" "owned (with_mx x s) = owned s"
  "sent (with_mx x s) = sent s" "recvd (with_mx x s) = recvd s"
  "pcs (with_sem n s) = pcs s" "que (with_sem n s) = (que s)\<lparr>cs_sem := n\<rparr>" "owned (with_sem n s) = owned s"
  "sent (with_sem n s) = sent s" "recvd (with_sem n s) = recvd s"
  by (simp_all add: with_mx_def with_sem_def)

lemma inside_goto: "at s t p0 \<Longrightarrow> pcs s0 = pcs s \<Longrightarrow> inside (goto t p s0) = (inside s)(t := crit p)"
  by (rule ext) (simp add: inside_def at_def nth_list_update)

lemma inside_at: "at s t p \<Longrightarrow> inside s t = crit p"
  by (simp add: inside_def at_def)

lemma mx_inv_goto:
  assumes "mx_inv s" "at s t p0" "pcs s0 = pcs s" "cs_mx (que s0) = cs_mx (que s)" "crit p = crit p0"
  shows "mx_inv (goto t p s0)"
  using assms(1) inside_at [OF assms(2)] by (simp add: mx_inv_def inside_goto [OF assms(2,3)] assms(4,5) fun_upd_idem)

lemma mx_inv_take:
  assumes "mx_inv s" "at s t p0" "cs_mx (que s) = None" "crit p"
  shows "mx_inv (goto t p (with_mx (Some t) s))"
  using assms(1) by (auto simp: mx_inv_def inside_goto [OF assms(2)] assms(3,4) fun_eq_iff)

lemma mx_inv_leave:
  assumes "mx_inv s" "at s t p0" "crit p0" "\<not> crit p"
  shows "mx_inv (goto t p (with_mx None s))"
proof -
  have "cs_mx (que s) = Some t" using assms(1,3) inside_at [OF assms(2)] by (simp add: mx_inv_def)
  then show ?thesis using assms(1) by (auto simp: mx_inv_def inside_goto [OF assms(2)] assms(4) fun_eq_iff)
qed

lemma mx_inv_step: "qstep intr s s' \<Longrightarrow> mx_inv s \<Longrightarrow> mx_inv s'"
proof (induction rule: qstep.induct)
  case (enq_crit s t m q)
  then show ?case using enq_body_sync [OF enq_crit(2)] by (intro mx_inv_goto [OF enq_crit(3,1)]) simp_all
next
  case (deq_crit s t r q)
  then show ?case using deq_body_sync [OF deq_crit(2)] by (intro mx_inv_goto [OF deq_crit(3,1)]) simp_all
qed (erule (1) mx_inv_goto mx_inv_take mx_inv_leave; simp)+

lemma mx_inv_call: "qcall s s' \<Longrightarrow> mx_inv s \<Longrightarrow> mx_inv s'"
  by (induction rule: qcall.induct) (erule (1) mx_inv_goto; simp)+

section \<open>Contents and ownership\<close>

fun holds :: "pc \<Rightarrow> nat option" where
  "holds (Enq_enter m) = Some m" | "holds (Enq_crit m) = Some m" | "holds (Deq_exit r) = r" | "holds (Deq_ret r) = r"
| "holds _ = None"

definition holder :: "sys \<Rightarrow> nat \<Rightarrow> nat option" where
  "holder s t = (if t < length (pcs s) then holds (pcs s ! t) else None)"

lemma holder_goto: "at s t p0 \<Longrightarrow> pcs s0 = pcs s \<Longrightarrow> holder (goto t p s0) = (holder s)(t := holds p)"
  by (rule ext) (simp add: holder_def at_def nth_list_update)

lemma holder_at: "at s t p \<Longrightarrow> holder s t = holds p"
  by (simp add: holder_def at_def)

text \<open>A message is in the queue, owned, or in the hands of one call.\<close>

definition own :: "(nat \<Rightarrow> nat option) \<Rightarrow> nat list \<Rightarrow> nat set \<Rightarrow> nat set \<Rightarrow> bool" where
  "own H xs ow al \<longleftrightarrow> set xs \<inter> ow = {} \<and> ow \<subseteq> al \<and> inj_on H {t. H t \<noteq> None}
     \<and> (\<forall>t m. H t = Some m \<longrightarrow> m \<notin> set xs \<and> m \<notin> ow \<and> m \<in> al)"

definition own_inv :: "sys \<Rightarrow> nat list \<Rightarrow> bool" where
  "own_inv s xs \<longleftrightarrow> own (holder s) xs (owned s) (dom (msgs (que s)))"

definition fifo_inv :: "sys \<Rightarrow> nat list \<Rightarrow> bool" where
  "fifo_inv s xs \<longleftrightarrow> qrep (que s) xs \<and> sent s = recvd s @ xs \<and> qlen (que s) = of_nat (length (sent s))"

lemma own_drop: "own H xs ow al \<Longrightarrow> own (H(t := None)) xs ow al"
  unfolding own_def inj_on_def by simp

lemma own_put: "own H xs ow al \<Longrightarrow> H t = Some m \<Longrightarrow> own (H(t := None)) (xs @ [m]) ow al"
  unfolding own_def inj_on_def by auto

lemma own_get: "own H (m # xs) ow al \<Longrightarrow> m \<notin> set xs \<Longrightarrow> m \<in> al \<Longrightarrow> own (H(t := Some m)) xs ow al"
  unfolding own_def inj_on_def by (auto, force+)

lemma own_send: "own H xs ow al \<Longrightarrow> m \<in> ow \<Longrightarrow> own (H(t := Some m)) xs (ow - {m}) al"
  unfolding own_def inj_on_def by auto

lemma own_return: "own H xs ow al \<Longrightarrow> H t = r \<Longrightarrow> own (H(t := None)) xs (ow \<union> set (opt_list r)) al"
  unfolding own_def inj_on_def by (cases r) auto

lemma own_inv_goto:
  assumes "own_inv s xs" "at s t p0" "pcs s0 = pcs s" "dom (msgs (que s0)) = dom (msgs (que s))"
    "owned s0 = owned s" "holds p = holds p0 \<or> holds p = None"
  shows "own_inv (goto t p s0) xs"
proof -
  have "holder (goto t p s0) = holder s \<or> holder (goto t p s0) = (holder s)(t := None)"
    using assms(6) holder_at [OF assms(2)] by (auto simp: holder_goto [OF assms(2,3)])
  then show ?thesis using assms(1,4,5) own_drop by (auto simp: own_inv_def)
qed

lemma enq_body_cases:
  assumes "fifo_inv s xs" "own_inv s xs" "at s t (Enq_crit m)"
  obtains q where "enq_body (que s) (Some m) = Some q" "qrep q (xs @ [m])" "dom (msgs q) = dom (msgs (que s))"
proof -
  have "m \<notin> set xs" "msgs (que s) m \<noteq> None"
    using assms(2) holder_at [OF assms(3)] by (auto simp: own_inv_def own_def)
  with enq_body_rep [of "que s" xs m] assms(1) obtain q where
    q: "enq_body (que s) (Some m) = Some q" "qrep q (xs @ [m])" "\<forall>a. msgs q a = None \<longleftrightarrow> msgs (que s) a = None"
    by (auto simp: fifo_inv_def)
  then have "dom (msgs q) = dom (msgs (que s))" by (auto simp: dom_def)
  with q(1,2) that show ?thesis by blast
qed

lemma deq_body_cases:
  assumes "fifo_inv s xs"
  obtains q where "deq_body (que s) = Some (if xs = [] then None else Some (hd xs), q)" "qrep q (tl xs)"
proof (cases xs)
  case Nil
  then show ?thesis using assms deq_body_empty [of "que s"] that by (auto simp: fifo_inv_def qrep_def)
next
  case (Cons m ys)
  then show ?thesis using assms deq_body_rep [of "que s" m ys] that by (auto simp: fifo_inv_def)
qed

lemma inv_quiet:
  assumes "fifo_inv s xs" "own_inv s xs" "at s t p0" "pcs s0 = pcs s" "qrep (que s0) xs = qrep (que s) xs"
    "msgs (que s0) = msgs (que s)" "qlen (que s0) = qlen (que s)" "owned s0 = owned s" "sent s0 = sent s" "recvd s0 = recvd s"
    "holds p = holds p0 \<or> holds p = None"
  shows "\<exists>xs'. fifo_inv (goto t p s0) xs' \<and> own_inv (goto t p s0) xs'"
proof -
  have "own_inv (goto t p s0) xs" by (rule own_inv_goto [OF assms(2-4)]) (simp_all add: assms)
  moreover have "fifo_inv (goto t p s0) xs" using assms by (simp add: fifo_inv_def)
  ultimately show ?thesis by blast
qed

lemma inv_step: "qstep intr s s' \<Longrightarrow> fifo_inv s xs \<Longrightarrow> own_inv s xs \<Longrightarrow> \<exists>xs'. fifo_inv s' xs' \<and> own_inv s' xs'"
proof (induction rule: qstep.induct)
  case (enq_crit s t m q)
  obtain q' where q: "enq_body (que s) (Some m) = Some q'" "qrep q' (xs @ [m])" "dom (msgs q') = dom (msgs (que s))"
    using enq_body_cases [OF enq_crit(3,4,1)] by blast
  let ?s = "goto t Enq_exit (s\<lparr>que := q, sent := sent s @ [m]\<rparr>)"
  have "fifo_inv ?s (xs @ [m])"
    using q(1,2) enq_crit(2,3) enq_body_sync [OF enq_crit(2)] by (simp add: fifo_inv_def)
  moreover have "own_inv ?s (xs @ [m])"
    using own_put [of "holder s"] holder_at [OF enq_crit(1)] q(1,3) enq_crit(2,4)
    by (simp add: own_inv_def holder_goto [OF enq_crit(1)])
  ultimately show ?case by blast
next
  case (deq_crit s t r q)
  let ?s = "goto t (Deq_exit r) (s\<lparr>que := q, recvd := recvd s @ opt_list r\<rparr>)"
  obtain q' where q: "deq_body (que s) = Some (if xs = [] then None else Some (hd xs), q')" "qrep q' (tl xs)"
    using deq_body_cases [OF deq_crit(3)] by blast
  have r: "r = (if xs = [] then None else Some (hd xs))" "qrep q (tl xs)" using q deq_crit(2) by simp_all
  have hist: "recvd s @ xs = (recvd s @ opt_list r) @ tl xs" using r(1) by simp
  have "sent s = (recvd s @ opt_list r) @ tl xs" using deq_crit(3) hist by (simp add: fifo_inv_def)
  moreover have "qlen q = of_nat (length (sent s))"
    using deq_crit(3) deq_body_sync [OF deq_crit(2)] unfolding fifo_inv_def by (elim conjE) simp
  ultimately have "fifo_inv ?s (tl xs)" using r(2) unfolding fifo_inv_def by simp
  moreover have "own_inv ?s (tl xs)"
  proof (cases xs)
    case Nil
    then show ?thesis using deq_crit(4) own_drop r(1) deq_body_sync [OF deq_crit(2)]
      by (simp add: own_inv_def holder_goto [OF deq_crit(1)])
  next
    case (Cons m ys)
    have "m \<notin> set ys" "m \<in> dom (msgs (que s))"
      using deq_crit(3) qchain_alive [of "msgs (que s)" xs m] Cons by (auto simp: fifo_inv_def qrep_def)
    then show ?thesis using deq_crit(4) own_get r(1) deq_body_sync [OF deq_crit(2)] Cons
      by (simp add: own_inv_def holder_goto [OF deq_crit(1)])
  qed
  ultimately show ?case by blast
qed (erule (2) inv_quiet; simp)+

lemma inv_call: "qcall s s' \<Longrightarrow> fifo_inv s xs \<Longrightarrow> own_inv s xs \<Longrightarrow> fifo_inv s' xs \<and> own_inv s' xs"
proof (induction rule: qcall.induct)
  case (send s t m)
  then show ?case using own_send [of "holder s" xs "owned s" _ m t]
    by (simp add: fifo_inv_def own_inv_def holder_goto [OF send(1)])
next
  case (receive s t)
  then show ?case using own_inv_goto [OF receive(3,1), of s Deq_wait] by (simp add: fifo_inv_def)
next
  case (return s t r)
  then show ?case using own_return [of "holder s" xs "owned s" _ t r] holder_at [OF return(1)]
    by (simp add: fifo_inv_def own_inv_def holder_goto [OF return(1)])
qed

section \<open>The semaphore counts\<close>

text \<open>Calls that passed the wait but did not take a message yet, or that added one and did not post it.\<close>

fun pend :: "pc \<Rightarrow> bool" where
  "pend Deq_test = True" | "pend Deq_enter = True" | "pend Deq_crit = True" | "pend Enq_exit = True" | "pend Enq_post = True"
| "pend _ = False"

definition cnt :: "(pc \<Rightarrow> bool) \<Rightarrow> sys \<Rightarrow> nat" where
  "cnt P s = length (filter P (pcs s))"

definition sem_inv :: "sys \<Rightarrow> bool" where
  "sem_inv s \<longleftrightarrow> cs_sem (que s) + cnt pend s + length (recvd s) = length (sent s)"

fun got_null :: "pc \<Rightarrow> bool" where
  "got_null (Deq_exit r) \<longleftrightarrow> r = None" | "got_null (Deq_ret r) \<longleftrightarrow> r = None" | "got_null _ = False"

lemma filter_update: "t < length ps \<Longrightarrow> length (filter P (ps[t := p])) + (if P (ps ! t) then 1 else 0) = length (filter P ps) + (if P p then 1 else 0)"
proof (induction ps arbitrary: t)
  case (Cons x ps)
  then show ?case by (cases t) auto
qed simp

lemma cnt_goto: "at s t p0 \<Longrightarrow> pcs s0 = pcs s \<Longrightarrow> cnt P (goto t p s0) + (if P p0 then 1 else 0) = cnt P s + (if P p then 1 else 0)"
  using filter_update [of t "pcs s" P p] by (auto simp: cnt_def at_def)

lemma cnt_at: "at s t p \<Longrightarrow> P p \<Longrightarrow> 0 < cnt P s"
  by (auto simp: cnt_def at_def filter_empty_conv intro: nth_mem)

lemma cnt_zero: "cnt P s = 0 \<longleftrightarrow> (\<forall>t p. at s t p \<longrightarrow> \<not> P p)"
  by (simp add: cnt_def at_def filter_empty_conv) (metis in_set_conv_nth)

lemma sem_step:
  "qstep False s s' \<Longrightarrow> fifo_inv s xs \<Longrightarrow> length (sent s') < 2 ^ 32 \<Longrightarrow> sem_inv s \<and> cnt got_null s = 0 \<Longrightarrow> sem_inv s' \<and> cnt got_null s' = 0"
proof (induction rule: qstep.induct)
  case (enq_crit s t m q)
  then show ?case
    using cnt_goto [OF enq_crit(1), of _ pend Enq_exit] cnt_goto [OF enq_crit(1), of _ got_null Enq_exit] enq_body_sync [OF enq_crit(2)]
    by (simp add: sem_inv_def)
next
  case (deq_none s t)
  have "0 < cnt pend s" by (rule cnt_at [OF deq_none(1)]) simp
  then have "0 < length (sent s)" using deq_none(5) unfolding sem_inv_def by linarith
  moreover have "(of_nat (length (sent s)) :: u32) = 0" using deq_none(2,3) unfolding fifo_inv_def by metis
  ultimately show ?case using deq_none(4) by (auto simp: word_of_nat_eq_0_iff dest: dvd_imp_le)
next
  case (deq_crit s t r q)
  have "length (recvd s) < length (sent s)" using deq_crit(5) cnt_at [OF deq_crit(1), of pend] by (simp add: sem_inv_def)
  then have xs: "xs \<noteq> []" using deq_crit(3) by (auto simp: fifo_inv_def)
  have "r = Some (hd xs)" using deq_body_cases [OF deq_crit(3)] deq_crit(2) xs by fastforce
  let ?s = "s\<lparr>que := q, recvd := recvd s @ opt_list r\<rparr>"
  have "cnt pend (goto t (Deq_exit r) ?s) + 1 = cnt pend s" "cnt got_null (goto t (Deq_exit r) ?s) = cnt got_null s"
    using cnt_goto [OF deq_crit(1), of ?s pend "Deq_exit r"] cnt_goto [OF deq_crit(1), of ?s got_null "Deq_exit r"]
      \<open>r = Some (hd xs)\<close> by simp_all
  moreover have "length (opt_list r) = 1" using \<open>r = Some (hd xs)\<close> by simp
  ultimately show ?case using deq_crit(5) deq_body_sync [OF deq_crit(2)] by (simp add: sem_inv_def)
next
  case (deq_exit s t r)
  then have "\<not> got_null (Deq_exit r)" unfolding cnt_zero by metis
  then show ?case
    using deq_exit cnt_goto [OF deq_exit(1), of _ pend "Deq_ret r"] cnt_goto [OF deq_exit(1), of _ got_null "Deq_ret r"]
    by (simp add: sem_inv_def)
next
  case (enq_enter s t m)
  then show ?case using cnt_goto [OF enq_enter(1), of _ pend "Enq_crit m"] cnt_goto [OF enq_enter(1), of _ got_null "Enq_crit m"]
    by (simp add: sem_inv_def)
next
  case (enq_exit s t)
  then show ?case using cnt_goto [OF enq_exit(1), of _ pend Enq_post] cnt_goto [OF enq_exit(1), of _ got_null Enq_post]
    by (simp add: sem_inv_def)
next
  case (enq_post s t)
  then show ?case using cnt_goto [OF enq_post(1), of "with_sem (cs_sem (que s) + 1) s" pend Idle] cnt_goto [OF enq_post(1), of _ got_null Idle]
    by (simp add: sem_inv_def)
next
  case (deq_wait s t)
  then show ?case using cnt_goto [OF deq_wait(1), of _ pend Deq_test] cnt_goto [OF deq_wait(1), of _ got_null Deq_test]
    by (simp add: sem_inv_def)
next
  case (deq_some s t)
  then show ?case using cnt_goto [OF deq_some(1), of _ pend Deq_enter] cnt_goto [OF deq_some(1), of _ got_null Deq_enter]
    by (simp add: sem_inv_def)
next
  case (deq_enter s t)
  then show ?case using cnt_goto [OF deq_enter(1), of _ pend Deq_crit] cnt_goto [OF deq_enter(1), of _ got_null Deq_crit]
    by (simp add: sem_inv_def)
qed simp

lemma sem_call: "qcall s s' \<Longrightarrow> sem_inv s \<and> cnt got_null s = 0 \<Longrightarrow> sem_inv s' \<and> cnt got_null s' = 0"
proof (induction rule: qcall.induct)
  case (send s t m)
  then show ?case using cnt_goto [OF send(1), of _ pend "Enq_enter m"] cnt_goto [OF send(1), of _ got_null "Enq_enter m"]
    by (simp add: sem_inv_def)
next
  case (receive s t)
  then show ?case using cnt_goto [OF receive(1), of _ pend Deq_wait] cnt_goto [OF receive(1), of _ got_null Deq_wait]
    by (simp add: sem_inv_def)
next
  case (return s t r)
  then show ?case using cnt_goto [OF return(1), of _ pend Idle] cnt_goto [OF return(1), of _ got_null Idle]
    by (simp add: sem_inv_def split: if_splits)
qed

lemma step_sent: "qstep intr s s' \<Longrightarrow> length (sent s) \<le> length (sent s')"
  by (induction rule: qstep.induct) simp_all

lemma call_sent: "qcall s s' \<Longrightarrow> sent s' = sent s"
  by (induction rule: qcall.induct) simp_all

section \<open>Reachable states\<close>

lemma start_inv:
  assumes "\<forall>m\<in>ms. msgs q m \<noteq> None"
  shows "mx_inv (start_sys q n ms)" "fifo_inv (start_sys q n ms) []" "own_inv (start_sys q n ms) []"
    "sem_inv (start_sys q n ms)" "cnt got_null (start_sys q n ms) = 0"
proof -
  let ?s = "start_sys q n ms"
  have idle: "p = Idle" if "at ?s t p" for t p using that by (auto simp: at_def start_sys_def)
  show "mx_inv ?s" by (auto simp: mx_inv_def inside_def start_sys_def x_queue_init_def fun_eq_iff)
  show "fifo_inv ?s []" by (simp add: fifo_inv_def start_sys_def) (simp add: x_queue_init_def)
  show "own_inv ?s []" using assms by (auto simp: own_inv_def own_def holder_def start_sys_def x_queue_init_def inj_on_def)
  have "cnt pend ?s = 0" "cnt got_null ?s = 0" unfolding cnt_zero using idle by (metis pend.simps(6), metis got_null.simps(3))
  then show "sem_inv ?s" "cnt got_null ?s = 0" by (simp_all add: sem_inv_def start_sys_def x_queue_init_def)
qed

lemma qreach_inv: "qreach intr s \<Longrightarrow> mx_inv s \<and> (\<exists>xs. fifo_inv s xs \<and> own_inv s xs)"
proof (induction rule: qreach.induct)
  case (start ms q n)
  show ?case using start_inv(1-3) [OF start] by blast
next
  case (step s s')
  then obtain xs where "mx_inv s" "fifo_inv s xs" "own_inv s xs" by blast
  then show ?case using mx_inv_step [OF step(2)] inv_step [OF step(2)] by simp
next
  case (call s s')
  then obtain xs where "mx_inv s" "fifo_inv s xs" "own_inv s xs" by blast
  then show ?case using mx_inv_call [OF call(2)] inv_call [OF call(2)] by blast
qed

lemma qreach_sem: "qreach intr s \<Longrightarrow> \<not> intr \<Longrightarrow> length (sent s) < 2 ^ 32 \<Longrightarrow> sem_inv s \<and> cnt got_null s = 0"
proof (induction rule: qreach.induct)
  case (start ms q n)
  show ?case using start_inv(4,5) [OF start(1)] by simp
next
  case (step s s')
  obtain xs where "fifo_inv s xs" using qreach_inv [OF step(1)] by blast
  moreover have "sem_inv s \<and> cnt got_null s = 0" using step step_sent [OF step(2)] by simp
  ultimately show ?case using sem_step [of s s' xs] step(2,4,5) by simp
next
  case (call s s')
  then show ?case using sem_call [OF call(2)] call_sent [OF call(2)] by simp
qed

section \<open>Claims\<close>

text \<open>
  C19. Threads may interleave the statements of their calls in any way, and signals may
  interrupt their waits: the queue hands the messages out in the order in which they entered
  it, none is lost, duplicated or invented, no pointer is dangling, and at most one thread is
  in a critical section.
\<close>

theorem queue_fifo:
  assumes r: "qreach intr s"
  shows "\<exists>xs. qrep (que s) xs \<and> sent s = recvd s @ xs
     \<and> (\<forall>t m. at s t (Enq_crit m) \<longrightarrow> enq_body (que s) (Some m) \<noteq> None) \<and> deq_body (que s) \<noteq> None
     \<and> (\<forall>t u p q. at s t p \<and> crit p \<and> at s u q \<and> crit q \<longrightarrow> t = u)"
proof -
  obtain xs where inv: "mx_inv s" "fifo_inv s xs" "own_inv s xs" using qreach_inv [OF r] by blast
  have "enq_body (que s) (Some m) \<noteq> None" if "at s t (Enq_crit m)" for t m
    by (rule enq_body_cases [OF inv(2,3) that]) simp
  moreover have "deq_body (que s) \<noteq> None" by (rule deq_body_cases [OF inv(2)]) simp
  moreover have "t = u" if "at s t p \<and> crit p \<and> at s u q \<and> crit q" for t u p q
  proof -
    have "inside s t" "inside s u" using that inside_at by blast+
    then show ?thesis using inv(1) by (simp add: mx_inv_def)
  qed
  ultimately show ?thesis using inv(2) by (auto simp: fifo_inv_def)
qed

definition queue_demo :: sys where
  "queue_demo = goto 1 Deq_wait (goto 0 (Enq_enter 5)
     (start_sys \<lparr>cs_sem = 0, cs_mx = None, qlen = 0, q_head = None, q_tail = None, msgs = [5 \<mapsto> \<lparr>m_prev = None\<rparr>]\<rparr> 2 {}))"

definition queue_demo_end :: sys where
  "queue_demo_end = \<lparr>que = \<lparr>cs_sem = 0, cs_mx = None, qlen = 1, q_head = None, q_tail = None, msgs = [5 \<mapsto> \<lparr>m_prev = None\<rparr>]\<rparr>,
     pcs = [Idle, Deq_ret (Some 5)], owned = {}, sent = [5], recvd = [5]\<rparr>"

lemma queue_demo_reach: "qreach intr queue_demo"
proof -
  let ?q = "\<lparr>cs_sem = 0, cs_mx = None, qlen = 0, q_head = None, q_tail = None, msgs = [5 \<mapsto> \<lparr>m_prev = None\<rparr>]\<rparr>"
  have "qreach intr (start_sys ?q 2 {5})" by (rule qreach.start) simp
  moreover have "qcall (start_sys ?q 2 {5}) (goto 0 (Enq_enter 5) (start_sys ?q 2 {}))"
    using qcall.send [of "start_sys ?q 2 {5}" 0 5] by (simp add: at_def start_sys_def)
  ultimately have "qreach intr (goto 0 (Enq_enter 5) (start_sys ?q 2 {}))" by (rule qreach.call)
  then show ?thesis unfolding queue_demo_def
    by (rule qreach.call) (rule qcall.receive, simp add: at_def start_sys_def)
qed

lemma queue_demo_play: "play [0, 0, 0, 0, 1, 1, 1, 1, 1] queue_demo = Some queue_demo_end"
  by (simp add: queue_demo_def queue_demo_end_def start_sys_def x_queue_init_def thread_step_def goto_def with_mx_def with_sem_def
      numeral_2_eq_2 enq_body_def deq_body_def)

lemma queue_demo_end_reach: "qreach intr queue_demo_end"
  by (rule play_reach [OF queue_demo_reach queue_demo_play])

theorem queue_fifo_witness:
  "\<exists>xs. qrep (que queue_demo_end) xs \<and> sent queue_demo_end = recvd queue_demo_end @ xs
     \<and> (\<forall>t m. at queue_demo_end t (Enq_crit m) \<longrightarrow> enq_body (que queue_demo_end) (Some m) \<noteq> None) \<and> deq_body (que queue_demo_end) \<noteq> None
     \<and> (\<forall>t u p q. at queue_demo_end t p \<and> crit p \<and> at queue_demo_end u q \<and> crit q \<longrightarrow> t = u)"
  by (rule queue_fifo [OF queue_demo_end_reach])

text \<open>
  C22. Without signals, as long as fewer than 2^32 messages were sent, no call to dequeue returns
  a null pointer: whoever passed the semaphore finds a message. (The counter \<^verbatim>\<open>qlen\<close> that the code
  looks at is never decremented; it counts what was sent modulo 2^32.)
\<close>

theorem queue_no_null:
  assumes r: "qreach False s" and n: "length (sent s) < 2 ^ 32"
  shows "\<not> at s t (Deq_ret None)"
  using qreach_sem [OF r _ n] unfolding cnt_zero by (metis got_null.simps(2))

theorem queue_no_null_witness: "\<not> at queue_demo_end 1 (Deq_ret None)"
  by (rule queue_no_null [OF queue_demo_end_reach]) (simp add: queue_demo_end_def)

fun rank :: "pc \<Rightarrow> nat" where
  "rank (Enq_enter m) = 4" | "rank (Enq_crit m) = 3" | "rank Enq_exit = 2" | "rank Enq_post = 1"
| "rank Deq_wait = 5" | "rank Deq_test = 4" | "rank Deq_enter = 3" | "rank Deq_crit = 2" | "rank (Deq_exit r) = 1"
| "rank _ = 0"

definition work :: "sys \<Rightarrow> nat" where
  "work s = sum_list (map rank (pcs s))"

lemma work_goto: "at s t p0 \<Longrightarrow> pcs s0 = pcs s \<Longrightarrow> rank p < rank p0 \<Longrightarrow> work (goto t p s0) < work s"
  using member_le_sum_list [of "rank p0" "map rank (pcs s)"]
  by (auto simp: work_def at_def map_update sum_list_update)

lemma step_work: "qstep intr s s' \<Longrightarrow> work s' < work s"
  by (induction rule: qstep.induct) (erule work_goto; simp)+

text \<open>A state in which no call can go on: nobody is in a critical section or about to post.\<close>

lemma stuck_at:
  assumes inv: "mx_inv s" "fifo_inv s xs" "own_inv s xs" and stuck: "\<forall>s'. \<not> qstep False s s'" and t: "at s t p"
  shows "p = Idle \<or> p = Deq_wait \<and> cs_sem (que s) = 0 \<or> (\<exists>r. p = Deq_ret r)"
proof -
  have none: "thread_step u s = None" for u
    using stuck qstep_iff by (cases "thread_step u s") blast+
  have no_crit: "\<not> crit p'" if u: "at s u p'" for u p'
  proof
    assume c: "crit p'"
    have "enq_body (que s) (Some m) \<noteq> None" if "p' = Enq_crit m" for m
      by (rule enq_body_cases [OF inv(2,3), of u m]) (use u that in simp_all)
    moreover have "deq_body (que s) \<noteq> None" by (rule deq_body_cases [OF inv(2)]) simp
    ultimately show False using none [of u] u c by (cases p') (auto simp: thread_step_def at_def)
  qed
  have "cs_mx (que s) = None"
  proof (cases "cs_mx (que s)")
    case (Some u)
    then have "inside s u" using inv(1) by (simp add: mx_inv_def)
    then show ?thesis using no_crit [of u "pcs s ! u"] by (simp add: inside_def at_def)
  qed
  then show ?thesis using none [of t] t no_crit [OF t] by (cases p) (auto simp: thread_step_def at_def split: if_splits)
qed

text \<open>
  C23. Calls get on: from a reachable state there is no infinite run without new calls, and when
  no call can go on any more (with fewer than 2^32 messages sent), every thread is idle, has
  received a message, or waits in dequeue, and somebody waits only if the queue is empty. So no
  call is stuck at the mutex and no wake-up is lost.
\<close>

theorem queue_calls_finish:
  assumes r: "qreach False s"
  shows "\<not> (\<exists>f. f 0 = s \<and> (\<forall>i. qstep False (f i) (f (Suc i))))
    \<and> (\<forall>s'. (qstep False)\<^sup>*\<^sup>* s s' \<and> (\<forall>s''. \<not> qstep False s' s'') \<and> length (sent s') < 2 ^ 32 \<longrightarrow>
        (\<forall>t p. at s' t p \<longrightarrow> p = Idle \<or> p = Deq_wait \<or> (\<exists>m. p = Deq_ret (Some m)))
        \<and> (\<forall>t. at s' t Deq_wait \<longrightarrow> sent s' = recvd s'))"
proof (intro conjI allI impI)
  show "\<not> (\<exists>f. f 0 = s \<and> (\<forall>i. qstep False (f i) (f (Suc i))))"
  proof
    assume "\<exists>f. f 0 = s \<and> (\<forall>i. qstep False (f i) (f (Suc i)))"
    then obtain f where f: "\<And>i. work (f (Suc i)) < work (f i)" using step_work by blast
    have "work (f i) + i \<le> work (f 0)" for i
    proof (induction i)
      case (Suc i)
      then show ?case using f [of i] by linarith
    qed simp
    from this [of "Suc (work (f 0))"] show False by simp
  qed
next
  fix s' assume s': "(qstep False)\<^sup>*\<^sup>* s s' \<and> (\<forall>s''. \<not> qstep False s' s'') \<and> length (sent s') < 2 ^ 32"
  from s' have "(qstep False)\<^sup>*\<^sup>* s s'" by blast
  then have r': "qreach False s'" using r by induction (auto intro: qreach.step)
  then obtain xs where inv: "mx_inv s'" "fifo_inv s' xs" "own_inv s' xs" using qreach_inv by blast
  have sem: "sem_inv s'" "cnt got_null s' = 0" using qreach_sem [OF r'] s' by simp_all
  have rest: "p = Idle \<or> p = Deq_wait \<and> cs_sem (que s') = 0 \<or> (\<exists>r. p = Deq_ret r)" if "at s' t p" for t p
    using stuck_at [OF inv _ that] s' by blast
  show "p = Idle \<or> p = Deq_wait \<or> (\<exists>m. p = Deq_ret (Some m))" if "at s' t p" for t p
    using rest [OF that] sem(2) that unfolding cnt_zero by (metis got_null.simps(2) option.exhaust)
  show "sent s' = recvd s'" if w: "at s' t Deq_wait" for t
  proof -
    have "cnt pend s' = 0" unfolding cnt_zero using rest by fastforce
    moreover have "cs_sem (que s') = 0" using rest [OF w] by simp
    ultimately have "length (recvd s') = length (sent s')" using sem(1) by (simp add: sem_inv_def)
    then show ?thesis using inv(2) by (auto simp: fifo_inv_def)
  qed
qed

text \<open>A single thread that waits at an empty queue.\<close>

definition queue_wait :: sys where
  "queue_wait = goto 0 Deq_wait (start_sys \<lparr>cs_sem = 0, cs_mx = None, qlen = 0, q_head = None, q_tail = None, msgs = Map.empty\<rparr> 1 {})"

lemma queue_wait_reach: "qreach intr queue_wait"
proof -
  let ?q = "\<lparr>cs_sem = 0, cs_mx = None, qlen = 0, q_head = None, q_tail = None, msgs = Map.empty\<rparr>"
  have "qreach intr (start_sys ?q 1 {})" by (rule qreach.start) simp
  then show ?thesis unfolding queue_wait_def
    by (rule qreach.call) (rule qcall.receive, simp add: at_def start_sys_def)
qed

lemma queue_wait_stuck: "\<not> qstep False queue_wait s'"
proof -
  have "thread_step t queue_wait = None" for t
    by (cases t) (simp_all add: queue_wait_def start_sys_def x_queue_init_def thread_step_def goto_def)
  then show ?thesis by (simp add: qstep_iff)
qed

theorem queue_calls_finish_witness:
  "\<not> (\<exists>f. f 0 = queue_wait \<and> (\<forall>i. qstep False (f i) (f (Suc i)))) \<and> sent queue_wait = recvd queue_wait"
proof -
  have "at queue_wait 0 Deq_wait" "length (sent queue_wait) < 2 ^ 32"
    by (simp_all add: queue_wait_def start_sys_def at_def goto_def)
  then show ?thesis using queue_calls_finish [OF queue_wait_reach] queue_wait_stuck by blast
qed

end
