(* ===== verification/Xw_Ring.thy ===== *)
theory Xw_Ring
  imports Xw_Prelude
begin

text \<open>
  The doubly linked lists of \<^verbatim>\<open>xwlib/x_utils.c\<close>: rings of entries embedded in larger structures.
  The two pointer fields of all entries are two maps from the entry's address.
\<close>

record links =
  l_next :: "addr \<rightharpoonup> addr"
  l_prev :: "addr \<rightharpoonup> addr"

definition set_next :: "addr \<Rightarrow> addr \<Rightarrow> links \<Rightarrow> links" where
  "set_next a b L = L\<lparr>l_next := (l_next L)(a \<mapsto> b)\<rparr>"

definition set_prev :: "addr \<Rightarrow> addr \<Rightarrow> links \<Rightarrow> links" where
  "set_prev a b L = L\<lparr>l_prev := (l_prev L)(a \<mapsto> b)\<rparr>"

lemma set_links [simp]: "l_next (set_next a b L) = (l_next L)(a \<mapsto> b)" "l_prev (set_next a b L) = l_prev L"
  "l_next (set_prev a b L) = l_next L" "l_prev (set_prev a b L) = (l_prev L)(a \<mapsto> b)"
  by (simp_all add: set_next_def set_prev_def)

definition xw_list_init :: "links \<Rightarrow> addr \<Rightarrow> links" where
  "xw_list_init L l = set_next l l (set_prev l l L)"

definition xw_list_insert :: "links \<Rightarrow> addr \<Rightarrow> addr \<Rightarrow> links option" where
  "xw_list_insert L l e = do {
     let L1 = set_prev e l L;
     n \<leftarrow> l_next L1 l;
     let L2 = set_next l e (set_next e n L1);
     n2 \<leftarrow> l_next L2 e;
     Some (set_prev n2 e L2)
   }"

definition xw_list_remove :: "links \<Rightarrow> addr \<Rightarrow> links option" where
  "xw_list_remove L e = do {
     p \<leftarrow> l_prev L e;
     n \<leftarrow> l_next L e;
     let L1 = set_next p n L;
     n2 \<leftarrow> l_next L1 e;
     p2 \<leftarrow> l_prev L1 e;
     Some (set_prev n2 p2 L1)
   }"

definition xw_list_is_empty :: "links \<Rightarrow> addr \<Rightarrow> bool option" where
  "xw_list_is_empty L e = do { n \<leftarrow> l_next L e; Some (n = e) }"

section \<open>Rings\<close>

fun chain :: "links \<Rightarrow> addr list \<Rightarrow> bool" where
  "chain L (a # b # xs) \<longleftrightarrow> l_next L a = Some b \<and> l_prev L b = Some a \<and> chain L (b # xs)"
| "chain L _ \<longleftrightarrow> True"

text \<open>\<open>ring L xs\<close>: the entries \<open>xs\<close>, in this order, are a ring.\<close>

definition ring :: "links \<Rightarrow> addr list \<Rightarrow> bool" where
  "ring L xs \<longleftrightarrow> xs \<noteq> [] \<and> distinct xs \<and> chain L (xs @ [hd xs])"

lemma chain_append: "chain L (xs @ a # ys) \<longleftrightarrow> chain L (xs @ [a]) \<and> chain L (a # ys)"
proof (induction xs)
  case (Cons x xs)
  then show ?case by (cases xs) auto
qed simp

lemma chain_cong:
  "(\<And>a. a \<in> set (butlast xs) \<Longrightarrow> l_next L' a = l_next L a) \<Longrightarrow> (\<And>a. a \<in> set (tl xs) \<Longrightarrow> l_prev L' a = l_prev L a)
   \<Longrightarrow> chain L' xs = chain L xs"
proof (induction xs rule: chain.induct [of _ L])
  case (1 L0 a b xs)
  then show ?case by (simp split: if_splits)
qed auto

lemma ring_rotate: "ring L (x # xs) \<Longrightarrow> ring L (xs @ [x])"
proof (cases xs)
  case (Cons y ys)
  assume "ring L (x # xs)"
  then show ?thesis using chain_append [of L "y # ys" x "[y]"] Cons by (simp add: ring_def)
qed simp

lemma ring_rotates: "ring L (xs @ ys) \<Longrightarrow> ring L (ys @ xs)"
proof (induction xs arbitrary: ys)
  case (Cons x xs)
  then show ?case using ring_rotate [of L x "xs @ ys"] Cons.IH [of "ys @ [x]"] by simp
qed simp

lemma ring_init: "ring (xw_list_init L a) [a]"
  by (simp add: ring_def xw_list_init_def)

lemma ring_next: "ring L (xs @ a # b # ys) \<Longrightarrow> l_next L a = Some b"
  using chain_append [of L xs a "b # ys @ [hd (xs @ [a])]"] by (cases xs) (simp_all add: ring_def)

lemma ring_last: "ring L (x # xs) \<Longrightarrow> l_next L (last (x # xs)) = Some x"
  using chain_append [of L "x # butlast xs" "last xs" "[x]"] by (cases xs rule: rev_cases) (auto simp: ring_def)

lemma xw_list_is_empty_ring: "ring L (x # xs) \<Longrightarrow> xw_list_is_empty L x = Some (xs = [])"
  by (cases xs) (auto simp: ring_def xw_list_is_empty_def)

text \<open>A new entry goes behind the first one.\<close>

lemma ring_insert:
  assumes r: "ring L (a # xs)" and e: "e \<notin> set (a # xs)"
  shows "\<exists>L'. xw_list_insert L a e = Some L' \<and> ring L' (a # e # xs)
    \<and> (\<forall>y. y \<notin> set (a # e # xs) \<longrightarrow> l_next L' y = l_next L y \<and> l_prev L' y = l_prev L y)"
proof -
  obtain n where n: "l_next L a = Some n" "n = hd (xs @ [a])"
    using r by (cases xs) (auto simp: ring_def)
  let ?L = "set_prev n e (set_next a e (set_next e n (set_prev e a L)))"
  have "xw_list_insert L a e = Some ?L" using n(1) e by (simp add: xw_list_insert_def Let_def)
  moreover have "chain ?L (xs @ [a])"
  proof -
    have "chain ?L (xs @ [a]) = chain L (xs @ [a])"
      using r e n(2) by (intro chain_cong) (cases xs; auto simp: ring_def)+
    moreover have "chain L (xs @ [a])" using r by (cases xs) (simp_all add: ring_def)
    ultimately show ?thesis by simp
  qed
  then have "ring ?L (a # e # xs)" using r e n(2) by (cases xs) (auto simp: ring_def)
  ultimately show ?thesis using n(2) by (cases xs) auto
qed

lemma ring_remove:
  assumes r: "ring L (e # xs)" and ne: "xs \<noteq> []"
  shows "\<exists>L'. xw_list_remove L e = Some L' \<and> ring L' xs
    \<and> (\<forall>y. y \<notin> set (e # xs) \<longrightarrow> l_next L' y = l_next L y \<and> l_prev L' y = l_prev L y)"
proof -
  obtain ys c where xs: "xs = ys @ [c]" using ne by (cases xs rule: rev_cases) simp_all
  let ?b = "hd (ys @ [c])"
  have ch: "chain L (e # ys @ c # [e])" and d: "distinct (e # ys @ [c])" using r xs by (simp_all add: ring_def)
  have b: "l_next L e = Some ?b" "?b \<noteq> e" "?b \<in> set xs" using ch d xs by (cases ys; auto)+
  have c: "l_prev L e = Some c" "chain L (e # ys @ [c])" using ch chain_append [of L "e # ys" c "[e]"] by simp_all
  let ?L = "set_prev ?b c (set_next c ?b L)"
  have rem: "xw_list_remove L e = Some ?L" using b c d by (auto simp: xw_list_remove_def Let_def)
  have "chain ?L (ys @ [c]) = chain L (ys @ [c])" using d by (intro chain_cong) (cases ys; auto)+
  also have "chain L (ys @ [c])" using c(2) by (cases ys) simp_all
  finally have "chain ?L (ys @ c # [?b])" using chain_append [of ?L ys c "[?b]"] by simp
  then have "ring ?L xs" using d xs by (cases ys) (simp_all add: ring_def)
  then show ?thesis using rem b(3) xs by auto
qed

end
