(* ===== verification/Xw_Factory.thy ===== *)
theory Xw_Factory
  imports Xw_Ring Xw_Obj
begin

text \<open>
  Model of \<^verbatim>\<open>xwlib/x_objfactory.c\<close>: the registry of object classes by namespace and name, and
  the listeners of paths. Classes and listeners are addresses; the entries of their rings are
  the entries of one \<^verbatim>\<open>links\<close>. The lock that guards the tables is left out.
\<close>

section \<open>The registry\<close>

record factory =
  nsmap :: "nat htable"
  classmap :: "nat \<Rightarrow> addr htable"
  ns_brk :: nat
  lentry :: links
  protoclass :: addr

definition DFL_NAMESPACE_NAME :: string where
  "DFL_NAMESPACE_NAME = ''defaultns''"

text \<open>A namespace is found by its folded name but stored under the name as given.\<close>

definition x_class_get_ns :: "factory \<Rightarrow> string \<Rightarrow> (nat \<times> factory) option" where
  "x_class_get_ns fa nsname = do {
     (v, i) \<leftarrow> ht_lowcase_get nsname (nsmap fa);
     case v of
       Some n \<Rightarrow> Some (n, fa)
     | None \<Rightarrow> (let n = ns_brk fa in
         Some (n, fa\<lparr>ns_brk := n + 1, classmap := (classmap fa)(n := ht_empty), nsmap := ht_set True nsname n (nsmap fa)\<rparr>))
   }"

text \<open>The loop over the ring of classes of one name; \<open>cm\<close> are the match callbacks.\<close>

partial_function (option) class_loop ::
  "links \<Rightarrow> (addr \<Rightarrow> (attr_list option \<Rightarrow> int) option) \<Rightarrow> attr_list option \<Rightarrow> addr \<Rightarrow> addr \<Rightarrow> addr option" where
  "class_loop L cm attrs ret e =
     (if (case cm e of None \<Rightarrow> False | Some f \<Rightarrow> 0 < f attrs) then Some e
      else if e = ret then Some ret
      else do { n \<leftarrow> l_next L e; class_loop L cm attrs ret n })"

definition x_obj_get_class ::
  "factory \<Rightarrow> (addr \<Rightarrow> (attr_list option \<Rightarrow> int) option) \<Rightarrow> string \<Rightarrow> string option \<Rightarrow> attr_list option \<Rightarrow> bool \<Rightarrow> (ptr \<times> factory) option" where
  "x_obj_get_class fa cm name ns attrs proto_on_fail = do {
     (n, fa1) \<leftarrow> x_class_get_ns fa (case ns of None \<Rightarrow> DFL_NAMESPACE_NAME | Some s \<Rightarrow> s);
     (v, i) \<leftarrow> ht_lowcase_get name (classmap fa1 n);
     case v of
       None \<Rightarrow> Some (if proto_on_fail then Some (protoclass fa1) else None, fa1)
     | Some c \<Rightarrow> do { r \<leftarrow> class_loop (lentry fa1) cm attrs c c; Some (Some r, fa1) }
   }"

definition x_class_register_ns :: "factory \<Rightarrow> string \<Rightarrow> addr \<Rightarrow> string option \<Rightarrow> (int \<times> factory) option" where
  "x_class_register_ns fa nick oclass ns = do {
     (n, fa1) \<leftarrow> x_class_get_ns (fa\<lparr>lentry := xw_list_init (lentry fa) oclass\<rparr>)
                   (case ns of None \<Rightarrow> DFL_NAMESPACE_NAME | Some s \<Rightarrow> s);
     (case fst (ht_get nick (classmap fa1 n)) of
        None \<Rightarrow> Some (0, fa1\<lparr>classmap := (classmap fa1)(n := ht_set True nick oclass (classmap fa1 n))\<rparr>)
      | Some c \<Rightarrow> do { L \<leftarrow> xw_list_insert (lentry fa1) c oclass; Some (0, fa1\<lparr>lentry := L\<rparr>) })
   }"

definition x_class_register :: "factory \<Rightarrow> string \<Rightarrow> addr \<Rightarrow> (int \<times> factory) option" where
  "x_class_register fa nick oclass = x_class_register_ns fa nick oclass None"

text \<open>The name that is removed is the class's own, \<open>cn\<close>.\<close>

definition x_class_unregister_ns :: "(addr \<Rightarrow> string) \<Rightarrow> factory \<Rightarrow> addr \<Rightarrow> string option \<Rightarrow> factory option" where
  "x_class_unregister_ns cn fa oclass ns = do {
     (n, fa1) \<leftarrow> x_class_get_ns fa (case ns of None \<Rightarrow> DFL_NAMESPACE_NAME | Some s \<Rightarrow> s);
     Some (fa1\<lparr>classmap := (classmap fa1)(n := snd (ht_del (cn oclass) (classmap fa1 n)))\<rparr>)
   }"

definition x_class_unregister :: "(addr \<Rightarrow> string) \<Rightarrow> factory \<Rightarrow> addr \<Rightarrow> factory option" where
  "x_class_unregister cn fa oclass = x_class_unregister_ns cn fa oclass None"

section \<open>The registry is a map\<close>

definition fa_map :: "factory \<Rightarrow> string \<Rightarrow> string \<Rightarrow> addr option" where
  "fa_map fa ns nm = (case ht_map (nsmap fa) ns of None \<Rightarrow> None | Some n \<Rightarrow> ht_map (classmap fa n) nm)"

definition low :: "string \<Rightarrow> string" where
  "low s = map tolower_c s"

definition fa_inv :: "factory \<Rightarrow> bool" where
  "fa_inv fa \<longleftrightarrow> ht_inv (nsmap fa) \<and> lower_keys (nsmap fa)
     \<and> (\<forall>n < ns_brk fa. ht_inv (classmap fa n) \<and> lower_keys (classmap fa n))
     \<and> (\<forall>ns n. ht_map (nsmap fa) ns = Some n \<longrightarrow> n < ns_brk fa)
     \<and> (\<forall>ns ns' n. ht_map (nsmap fa) ns = Some n \<longrightarrow> ht_map (nsmap fa) ns' = Some n \<longrightarrow> ns = ns')
     \<and> (\<forall>ns nm c. fa_map fa ns nm = Some c \<longrightarrow> l_next (lentry fa) c \<noteq> None)"

definition new_factory :: factory where
  "new_factory = \<lparr>nsmap = ht_empty, classmap = (\<lambda>_. ht_empty), ns_brk = 0, lentry = \<lparr>l_next = Map.empty, l_prev = Map.empty\<rparr>, protoclass = 0\<rparr>"

lemma low_low [simp]: "low (low s) = low s"
  by (simp add: low_def tolower_c_def)

lemma ht_map_empty [simp]: "ht_map ht_empty k = None"
  by (simp add: ht_map_bucket ht_empty_def)

lemma lower_empty [simp]: "lower_keys ht_empty"
  by (simp add: lower_keys_iff ht_inv_empty)

lemma fa_inv_new: "fa_inv new_factory"
  by (simp add: fa_inv_def new_factory_def ht_inv_empty fa_map_def)

lemma lower_set: "ht_inv t \<Longrightarrow> lower_keys t \<Longrightarrow> low k = k \<Longrightarrow> lower_keys (ht_set True k v t)"
  using htab.inv_put [of t k v] htab.get_put [of t k v] by (simp add: lower_keys_iff ht_put_def low_def)

lemma lower_del: "ht_inv t \<Longrightarrow> lower_keys t \<Longrightarrow> lower_keys (snd (ht_del k t))"
  using htab.inv_del [of t k] htab.get_del [of t k] by (simp add: lower_keys_iff ht_rem_def)

lemma lookup_low: "ht_inv t \<Longrightarrow> lower_keys t \<Longrightarrow> length k < 512 \<Longrightarrow> \<exists>i. ht_lowcase_get k t = Some (ht_map t (low k), i)"
  using ht_lowcase_get_folds [of t k] by (auto simp: ht_map_def ht_inv_def low_def intro!: exI prod_eqI)

text \<open>Looking a namespace up leaves the map as it is; the namespace exists afterwards.\<close>

lemma get_ns:
  assumes inv: "fa_inv fa" and ns: "length ns < 512" "low ns = ns"
  shows "\<exists>n fa1. x_class_get_ns fa ns = Some (n, fa1) \<and> fa_inv fa1 \<and> fa_map fa1 = fa_map fa
    \<and> ht_map (nsmap fa1) ns = Some n \<and> lentry fa1 = lentry fa \<and> protoclass fa1 = protoclass fa"
proof -
  obtain i where look: "ht_lowcase_get ns (nsmap fa) = Some (ht_map (nsmap fa) ns, i)"
    using lookup_low [of "nsmap fa" ns] inv ns by (auto simp: fa_inv_def)
  show ?thesis
  proof (cases "ht_map (nsmap fa) ns")
    case (Some n)
    then show ?thesis using look inv by (auto simp: x_class_get_ns_def)
  next
    case None
    let ?n = "ns_brk fa"
    let ?fa = "fa\<lparr>ns_brk := ?n + 1, classmap := (classmap fa)(?n := ht_empty), nsmap := ht_set True ns ?n (nsmap fa)\<rparr>"
    have put: "ht_inv (nsmap ?fa)" "ht_map (nsmap ?fa) = (ht_map (nsmap fa))(ns \<mapsto> ?n)"
      using inv htab.inv_put [of "nsmap fa" ns ?n] htab.get_put [of "nsmap fa" ns ?n] by (simp_all add: fa_inv_def ht_put_def)
    have less: "m < ?n" if "ht_map (nsmap fa) s = Some m" for s m using inv that by (simp add: fa_inv_def)
    have map: "fa_map ?fa = fa_map fa"
      using less put(2) None by (fastforce simp: fa_map_def fun_eq_iff split: option.split)
    have "fa_inv ?fa"
      unfolding fa_inv_def
    proof (intro conjI allI impI)
      show "ht_inv (nsmap ?fa)" by (rule put(1))
      show "lower_keys (nsmap ?fa)" using lower_set [of "nsmap fa" ns ?n] inv ns by (simp add: fa_inv_def)
      show "ht_inv (classmap ?fa n)" "lower_keys (classmap ?fa n)" if "n < ns_brk ?fa" for n
        using inv that by (auto simp: fa_inv_def ht_inv_empty less_Suc_eq)
      show "n < ns_brk ?fa" if "ht_map (nsmap ?fa) s = Some n" for s n
        using that less unfolding put(2) by (fastforce split: if_splits)
      show "s = s'" if "ht_map (nsmap ?fa) s = Some n" "ht_map (nsmap ?fa) s' = Some n" for s s' n
        using that inv less unfolding put(2) by (fastforce simp: fa_inv_def split: if_splits)
      show "l_next (lentry ?fa) c \<noteq> None" if "fa_map ?fa s nm = Some c" for s nm c
        using that inv unfolding map by (simp add: fa_inv_def)
    qed
    then show ?thesis using look None put(2) map by (auto simp: x_class_get_ns_def Let_def)
  qed
qed

lemma fa_inv_class: "fa_inv fa \<Longrightarrow> ht_map (nsmap fa) ns = Some n \<Longrightarrow> ht_inv (classmap fa n) \<and> lower_keys (classmap fa n)"
  by (auto simp: fa_inv_def)

lemma fa_next: "fa_inv fa \<Longrightarrow> ht_map (nsmap fa) ns = Some n \<Longrightarrow> ht_map (classmap fa n) nm = Some c \<Longrightarrow> l_next (lentry fa) c \<noteq> None"
proof -
  assume "fa_inv fa" "ht_map (nsmap fa) ns = Some n" "ht_map (classmap fa n) nm = Some c"
  then have "fa_map fa ns nm = Some c" by (simp add: fa_map_def)
  then show ?thesis using \<open>fa_inv fa\<close> unfolding fa_inv_def by blast
qed

text \<open>Changing the table of one namespace changes the map there and nowhere else.\<close>

lemma fa_update:
  assumes inv: "fa_inv fa" and n: "ht_map (nsmap fa) ns = Some n" and t: "ht_inv t" "lower_keys t"
    and nx: "\<And>nm c. ht_map t nm = Some c \<Longrightarrow> l_next (lentry fa) c \<noteq> None"
  shows "fa_inv (fa\<lparr>classmap := (classmap fa)(n := t)\<rparr>)" "fa_map (fa\<lparr>classmap := (classmap fa)(n := t)\<rparr>) = (fa_map fa)(ns := ht_map t)"
proof -
  let ?fa = "fa\<lparr>classmap := (classmap fa)(n := t)\<rparr>"
  have inj: "s = ns" if "ht_map (nsmap fa) s = Some n" for s using inv n that by (simp add: fa_inv_def)
  show map: "fa_map ?fa = (fa_map fa)(ns := ht_map t)"
  proof (rule ext)
    fix s show "fa_map ?fa s = ((fa_map fa)(ns := ht_map t)) s"
    proof (cases "s = ns")
      case True
      then show ?thesis using n by (simp add: fa_map_def fun_eq_iff)
    next
      case False
      then have "ht_map (nsmap fa) s \<noteq> Some n" using inj by blast
      then show ?thesis using False by (cases "ht_map (nsmap fa) s") (simp_all add: fa_map_def fun_eq_iff)
    qed
  qed
  show "fa_inv ?fa"
    unfolding fa_inv_def
  proof (intro conjI allI impI)
    show "l_next (lentry ?fa) c \<noteq> None" if "fa_map ?fa s nm = Some c" for s nm c
      using that inv nx unfolding map by (auto simp: fa_inv_def split: if_splits)
    show "ht_inv (classmap ?fa m)" "lower_keys (classmap ?fa m)" if "m < ns_brk ?fa" for m
      using that inv t by (simp_all add: fa_inv_def)
  qed (use inv in \<open>auto simp: fa_inv_def\<close>)
qed

lemma fa_links:
  assumes "fa_inv fa" "\<And>a. l_next (lentry fa) a \<noteq> None \<Longrightarrow> l_next L a \<noteq> None"
  shows "fa_inv (fa\<lparr>lentry := L\<rparr>)" "fa_map (fa\<lparr>lentry := L\<rparr>) = fa_map fa"
proof -
  show map: "fa_map (fa\<lparr>lentry := L\<rparr>) = fa_map fa" by (simp add: fa_map_def fun_eq_iff split: option.split)
  show "fa_inv (fa\<lparr>lentry := L\<rparr>)" using assms unfolding fa_inv_def map by auto
qed

lemma insert_total: "l_next L c \<noteq> None \<Longrightarrow> \<exists>L'. xw_list_insert L c e = Some L' \<and> (\<forall>a. l_next L a \<noteq> None \<longrightarrow> l_next L' a \<noteq> None)"
  by (auto simp: xw_list_insert_def Let_def)

lemma x_class_register_ns_map:
  assumes inv: "fa_inv fa" and ns: "length ns < 512" "low ns = ns" and al: "low nick = nick"
  shows "\<exists>fa1. x_class_register_ns fa nick c (Some ns) = Some (0, fa1) \<and> fa_inv fa1 \<and> protoclass fa1 = protoclass fa
    \<and> fa_map fa1 = (if fa_map fa ns nick = None then (fa_map fa)(ns := (fa_map fa ns)(nick \<mapsto> c)) else fa_map fa)"
proof -
  let ?fa = "fa\<lparr>lentry := xw_list_init (lentry fa) c\<rparr>"
  have i0: "fa_inv ?fa" "fa_map ?fa = fa_map fa" by (rule fa_links [OF inv]; simp add: xw_list_init_def)+
  from get_ns [OF i0(1) ns] obtain n fa1 where g: "x_class_get_ns ?fa ns = Some (n, fa1)" "fa_inv fa1" "fa_map fa1 = fa_map fa"
    "ht_map (nsmap fa1) ns = Some n" "lentry fa1 = xw_list_init (lentry fa) c" "protoclass fa1 = protoclass fa"
    unfolding i0(2) by auto
  let ?t = "classmap fa1 n"
  have t: "ht_inv ?t" "lower_keys ?t" using fa_inv_class [OF g(2,4)] by simp_all
  have tm: "fa_map fa ns = ht_map ?t" using g(4) unfolding g(3) [symmetric] by (simp add: fa_map_def fun_eq_iff)
  show ?thesis
  proof (cases "ht_map ?t nick")
    case None
    have put: "ht_inv (ht_set True nick c ?t)" "ht_map (ht_set True nick c ?t) = (ht_map ?t)(nick \<mapsto> c)"
      using htab.inv_put [OF t(1), of nick c] htab.get_put [OF t(1), of nick c] by (simp_all add: ht_put_def)
    have "l_next (lentry fa1) d \<noteq> None" if "ht_map (ht_set True nick c ?t) nm = Some d" for nm d
      using that fa_next [OF g(2,4), of nm d] g(5) unfolding put(2) by (auto simp: xw_list_init_def split: if_splits)
    from fa_update [OF g(2,4) put(1) lower_set [OF t al] this] g(1,3,6) None tm put(2) show ?thesis
      by (simp add: x_class_register_ns_def ht_map_def)
  next
    case (Some d)
    then have "l_next (lentry fa1) d \<noteq> None" by (rule fa_next [OF g(2,4)])
    from insert_total [OF this] obtain L where L: "xw_list_insert (lentry fa1) d c = Some L"
      "\<forall>a. l_next (lentry fa1) a \<noteq> None \<longrightarrow> l_next L a \<noteq> None" by blast
    from fa_links [OF g(2), of L] L g(1,3,6) Some tm show ?thesis
      by (auto simp: x_class_register_ns_def ht_map_def)
  qed
qed

lemma x_class_unregister_ns_map:
  assumes inv: "fa_inv fa" and ns: "length ns < 512" "low ns = ns"
  shows "\<exists>fa1. x_class_unregister_ns cn fa c (Some ns) = Some fa1 \<and> fa_inv fa1 \<and> protoclass fa1 = protoclass fa
    \<and> fa_map fa1 = (fa_map fa)(ns := (fa_map fa ns)(cn c := None))"
proof -
  from get_ns [OF inv ns] obtain n fa1 where g: "x_class_get_ns fa ns = Some (n, fa1)" "fa_inv fa1" "fa_map fa1 = fa_map fa"
    "ht_map (nsmap fa1) ns = Some n" "protoclass fa1 = protoclass fa" by blast
  let ?t = "classmap fa1 n"
  have t: "ht_inv ?t" "lower_keys ?t" using fa_inv_class [OF g(2,4)] by simp_all
  have tm: "fa_map fa ns = ht_map ?t" using g(4) unfolding g(3) [symmetric] by (simp add: fa_map_def fun_eq_iff)
  have del: "ht_inv (snd (ht_del (cn c) ?t))" "ht_map (snd (ht_del (cn c) ?t)) = (ht_map ?t)(cn c := None)"
    using htab.inv_del [OF t(1), of "cn c"] htab.get_del [OF t(1), of "cn c"] by (simp_all add: ht_rem_def)
  have "l_next (lentry fa1) d \<noteq> None" if "ht_map (snd (ht_del (cn c) ?t)) nm = Some d" for nm d
    using that fa_next [OF g(2,4), of nm d] unfolding del(2) by (auto split: if_splits)
  from fa_update [OF g(2,4) del(1) lower_del [OF t] this] g(1,3,5) tm del(2) show ?thesis
    by (simp add: x_class_unregister_ns_def)
qed

lemma class_loop_first: "class_loop L cm attrs c c = Some c"
  by (simp add: class_loop.simps)

lemma x_obj_get_class_map:
  assumes inv: "fa_inv fa" and ns: "length ns < 512" "low ns = ns" and nm: "length name < 512"
  shows "\<exists>fa1. x_obj_get_class fa cm name (Some ns) attrs proto = Some (case fa_map fa ns (low name) of
       Some c \<Rightarrow> Some c | None \<Rightarrow> if proto then Some (protoclass fa) else None, fa1)
     \<and> fa_inv fa1 \<and> fa_map fa1 = fa_map fa \<and> protoclass fa1 = protoclass fa"
proof -
  from get_ns [OF inv ns] obtain n fa1 where g: "x_class_get_ns fa ns = Some (n, fa1)" "fa_inv fa1" "fa_map fa1 = fa_map fa"
    "ht_map (nsmap fa1) ns = Some n" "protoclass fa1 = protoclass fa" by blast
  obtain i where "ht_lowcase_get name (classmap fa1 n) = Some (ht_map (classmap fa1 n) (low name), i)"
    using lookup_low fa_inv_class [OF g(2,4)] nm by blast
  moreover have "fa_map fa ns (low name) = ht_map (classmap fa1 n) (low name)" using g(4) unfolding g(3) [symmetric] by (simp add: fa_map_def fun_eq_iff)
  ultimately show ?thesis
    using g by (auto simp: x_obj_get_class_def class_loop_first split: option.split)
qed

section \<open>Claims\<close>

datatype reg_cmd = Register string string addr | Unregister string addr

fun do_cmds :: "(addr \<Rightarrow> string) \<Rightarrow> factory \<Rightarrow> reg_cmd list \<Rightarrow> factory option" where
  "do_cmds cn fa [] = Some fa"
| "do_cmds cn fa (Register ns nick c # cs) = do { (r, fa1) \<leftarrow> x_class_register_ns fa nick c (Some ns); do_cmds cn fa1 cs }"
| "do_cmds cn fa (Unregister ns c # cs) = do { fa1 \<leftarrow> x_class_unregister_ns cn fa c (Some ns); do_cmds cn fa1 cs }"

text \<open>What the commands mean: the first class registered under a name stays until the name is removed.\<close>

fun spec_cmd :: "(addr \<Rightarrow> string) \<Rightarrow> (string \<Rightarrow> string \<Rightarrow> addr option) \<Rightarrow> reg_cmd \<Rightarrow> string \<Rightarrow> string \<Rightarrow> addr option" where
  "spec_cmd cn m (Register ns nick c) = (if m ns nick = None then m(ns := (m ns)(nick \<mapsto> c)) else m)"
| "spec_cmd cn m (Unregister ns c) = m(ns := (m ns)(cn c := None))"

fun cmd_ok :: "reg_cmd \<Rightarrow> bool" where
  "cmd_ok (Register ns nick c) \<longleftrightarrow> length ns < 512 \<and> low ns = ns \<and> low nick = nick"
| "cmd_ok (Unregister ns c) \<longleftrightarrow> length ns < 512 \<and> low ns = ns"

lemma do_cmds_map:
  "fa_inv fa \<Longrightarrow> list_all cmd_ok cs \<Longrightarrow> \<exists>fa1. do_cmds cn fa cs = Some fa1 \<and> fa_inv fa1 \<and> protoclass fa1 = protoclass fa
     \<and> fa_map fa1 = foldl (spec_cmd cn) (fa_map fa) cs"
proof (induction cs arbitrary: fa)
  case (Cons c cs)
  show ?case
  proof (cases c)
    case (Register ns nick d)
    then obtain fa1 where "x_class_register_ns fa nick d (Some ns) = Some (0, fa1)" "fa_inv fa1" "protoclass fa1 = protoclass fa"
      "fa_map fa1 = spec_cmd cn (fa_map fa) c"
      using x_class_register_ns_map [of fa ns nick d] Cons.prems by auto
    then show ?thesis using Cons.IH [of fa1] Cons.prems Register by (simp del: spec_cmd.simps)
  next
    case (Unregister ns d)
    then obtain fa1 where "x_class_unregister_ns cn fa d (Some ns) = Some fa1" "fa_inv fa1" "protoclass fa1 = protoclass fa"
      "fa_map fa1 = spec_cmd cn (fa_map fa) c"
      using x_class_unregister_ns_map [of fa ns cn d] Cons.prems by auto
    then show ?thesis using Cons.IH [of fa1] Cons.prems Unregister by (simp del: spec_cmd.simps)
  qed
qed simp

text \<open>
  C20. The class registry is a map from namespaces and names to classes: after any registrations
  and removals under lower-case names, a lookup, in any case, returns the first class that was
  registered under the folded name since it was last removed, else the prototype class or null.
  Classes that were registered for the same name later are never chosen, whatever their match
  callbacks say.
\<close>

theorem class_registry_history:
  assumes cs: "list_all cmd_ok cs" and ns: "length ns < 512" "low ns = ns" and nm: "length name < 512"
  shows "\<exists>fa fa1. do_cmds cn new_factory cs = Some fa
     \<and> x_obj_get_class fa cm name (Some ns) attrs proto = Some (case foldl (spec_cmd cn) (\<lambda>_ _. None) cs ns (low name) of
         Some c \<Rightarrow> Some c | None \<Rightarrow> if proto then Some (protoclass new_factory) else None, fa1)"
proof -
  have "fa_map new_factory = (\<lambda>_ _. None)" by (simp add: fa_map_def new_factory_def fun_eq_iff)
  then obtain fa where fa: "do_cmds cn new_factory cs = Some fa" "fa_inv fa" "protoclass fa = protoclass new_factory"
    "fa_map fa = foldl (spec_cmd cn) (\<lambda>_ _. None) cs"
    using do_cmds_map [OF fa_inv_new cs, of cn] by auto
  from x_obj_get_class_map [OF fa(2) ns nm, of cm attrs proto, unfolded fa(3,4)] fa(1) show ?thesis by blast
qed

lemma low_facts: "low ''n'' = ''n''" "low ''iq'' = ''iq''" "low ''IQ'' = ''iq''"
  by code_simp+

theorem class_registry_history_witness:
  "\<exists>fa fa1. do_cmds (\<lambda>_. ''iq'') new_factory [Register ''n'' ''iq'' 7, Register ''n'' ''iq'' 8] = Some fa
     \<and> x_obj_get_class fa (\<lambda>_. Some (\<lambda>_. 1)) ''IQ'' (Some ''n'') None True = Some (Some 7, fa1)"
  using class_registry_history [of "[Register ''n'' ''iq'' 7, Register ''n'' ''iq'' 8]" "''n''" "''IQ''" "\<lambda>_. ''iq''" "\<lambda>_. Some (\<lambda>_. 1)" None True]
  by (simp add: low_facts)

end
