(* ===== verification/Xw_Paths.thy ===== *)
theory Xw_Paths
  imports Xw_Ring Xw_Utils
begin

text \<open>
  The path listeners of \<^verbatim>\<open>xwlib/x_objfactory.c\<close>: a table from paths to rings of listeners. The
  callbacks of the listeners work on a state of their own and may change the tables as well.
\<close>

record 's plist =
  pl_tbl :: "addr htable"
  pl_links :: links
  pl_world :: 's

type_synonym 's listeners = "addr \<Rightarrow> (ptr \<Rightarrow> 's plist \<Rightarrow> 's plist option) option"

partial_function (option) notify_loop :: "'s listeners \<Rightarrow> addr \<Rightarrow> ptr \<Rightarrow> addr \<Rightarrow> 's plist \<Rightarrow> 's plist option" where
  "notify_loop on l0 xobj le pl = do {
     pl1 \<leftarrow> (case on le of None \<Rightarrow> Some pl | Some f \<Rightarrow> f xobj pl);
     n \<leftarrow> l_next (pl_links pl1) le;
     if n = l0 then Some pl1 else notify_loop on l0 xobj n pl1
   }"

definition x_path_listeners_notify :: "'s listeners \<Rightarrow> string \<Rightarrow> ptr \<Rightarrow> 's plist \<Rightarrow> 's plist option" where
  "x_path_listeners_notify on path xobj pl = (case fst (ht_get path (pl_tbl pl)) of
       None \<Rightarrow> Some pl
     | Some l \<Rightarrow> notify_loop on l xobj l pl)"

definition x_path_listener_add :: "string \<Rightarrow> addr \<Rightarrow> 's plist \<Rightarrow> (int \<times> 's plist) option" where
  "x_path_listener_add path lstnr pl =
     (let pl1 = pl\<lparr>pl_links := xw_list_init (pl_links pl) lstnr\<rparr>
      in case fst (ht_get path (pl_tbl pl1)) of
           None \<Rightarrow> Some (0, pl1\<lparr>pl_tbl := ht_set True path lstnr (pl_tbl pl1)\<rparr>)
         | Some l \<Rightarrow> do { L \<leftarrow> xw_list_insert (pl_links pl1) l lstnr; Some (0, pl1\<lparr>pl_links := L\<rparr>) })"

text \<open>
  The search: at the end of the ring the loop sets its variable to null, and its increment then
  follows the null pointer.
\<close>

partial_function (option) find_loop :: "links \<Rightarrow> addr \<Rightarrow> addr \<Rightarrow> addr \<Rightarrow> addr option" where
  "find_loop L l0 x a =
     (if a = x then Some a
      else do { n \<leftarrow> l_next L a; if n = l0 then None else find_loop L l0 x n })"

definition x_path_listener_remove :: "string \<Rightarrow> addr \<Rightarrow> 's plist \<Rightarrow> 's plist option" where
  "x_path_listener_remove path lstnr pl = (case fst (ht_get path (pl_tbl pl)) of
       None \<Rightarrow> Some pl
     | Some l \<Rightarrow> do {
         e \<leftarrow> xw_list_is_empty (pl_links pl) l;
         if e then Some (if lstnr = l then pl\<lparr>pl_tbl := snd (ht_del path (pl_tbl pl))\<rparr> else pl)
         else do {
           a \<leftarrow> find_loop (pl_links pl) l lstnr l;
           pl1 \<leftarrow> (if a = l then do { n \<leftarrow> l_next (pl_links pl) a; Some (pl\<lparr>pl_tbl := ht_set True path n (pl_tbl pl)\<rparr>) }
                  else Some pl);
           L \<leftarrow> xw_list_remove (pl_links pl1) a;
           Some (pl1\<lparr>pl_links := L\<rparr>)
         }
       })"

section \<open>The listeners of a path\<close>

text \<open>\<open>pl_rep pl path xs\<close>: the listeners of the path, in the order in which they are told.\<close>

definition pl_rep :: "'s plist \<Rightarrow> string \<Rightarrow> addr list \<Rightarrow> bool" where
  "pl_rep pl path xs \<longleftrightarrow> ht_inv (pl_tbl pl)
     \<and> (if xs = [] then ht_map (pl_tbl pl) path = None else ht_map (pl_tbl pl) path = Some (hd xs) \<and> ring (pl_links pl) xs)"

lemma pl_add_first:
  assumes "pl_rep pl path []"
  shows "\<exists>pl'. x_path_listener_add path l pl = Some (0, pl') \<and> pl_rep pl' path [l] \<and> pl_world pl' = pl_world pl"
  using assms htab.inv_put [of "pl_tbl pl" path l] htab.get_put [of "pl_tbl pl" path l]
  by (simp add: pl_rep_def x_path_listener_add_def Let_def ht_map_def [symmetric] ht_put_def ring_init)

lemma ring_cong:
  assumes "\<And>y. y \<in> set xs \<Longrightarrow> l_next L' y = l_next L y \<and> l_prev L' y = l_prev L y"
  shows "ring L' xs = ring L xs"
proof -
  have "chain L' (xs @ [hd xs]) = chain L (xs @ [hd xs])" if "xs \<noteq> []"
    using assms that by (intro chain_cong) (cases xs; auto)+
  then show ?thesis by (auto simp: ring_def)
qed

lemma pl_add_more:
  assumes r: "pl_rep pl path (x # xs)" and l: "l \<notin> set (x # xs)"
  shows "\<exists>pl'. x_path_listener_add path l pl = Some (0, pl') \<and> pl_rep pl' path (x # l # xs) \<and> pl_world pl' = pl_world pl"
proof -
  have "ring (xw_list_init (pl_links pl) l) (x # xs) = ring (pl_links pl) (x # xs)"
    using l by (intro ring_cong) (auto simp: xw_list_init_def)
  then have "ring (xw_list_init (pl_links pl) l) (x # xs)" using r by (simp add: pl_rep_def)
  from ring_insert [OF this l] r show ?thesis
    by (auto simp: pl_rep_def x_path_listener_add_def Let_def ht_map_def [symmetric])
qed

text \<open>Callbacks that leave the tables alone.\<close>

definition quiet :: "'s listeners \<Rightarrow> (addr \<Rightarrow> ptr \<Rightarrow> 's \<Rightarrow> 's) \<Rightarrow> bool" where
  "quiet on g \<longleftrightarrow> (\<forall>a. on a = Some (\<lambda>xobj pl. Some (pl\<lparr>pl_world := g a xobj (pl_world pl)\<rparr>)))"

lemma notify_loop_chain:
  assumes q: "quiet on g"
  shows "chain (pl_links pl) (a # xs @ [h]) \<Longrightarrow> h \<notin> set xs
    \<Longrightarrow> notify_loop on h xobj a pl = Some (pl\<lparr>pl_world := foldl (\<lambda>w b. g b xobj w) (pl_world pl) (a # xs)\<rparr>)"
proof (induction xs arbitrary: a pl)
  case Nil
  then show ?case using q by (subst notify_loop.simps) (simp add: quiet_def)
next
  case (Cons b xs)
  have "notify_loop on h xobj a pl = notify_loop on h xobj b (pl\<lparr>pl_world := g a xobj (pl_world pl)\<rparr>)"
    using Cons.prems q by (subst notify_loop.simps) (simp add: quiet_def)
  then show ?case using Cons.IH [of "pl\<lparr>pl_world := g a xobj (pl_world pl)\<rparr>" b] Cons.prems by simp
qed

lemma notify_rep:
  assumes q: "quiet on g" and r: "pl_rep pl path xs"
  shows "x_path_listeners_notify on path xobj pl = Some (pl\<lparr>pl_world := foldl (\<lambda>w b. g b xobj w) (pl_world pl) xs\<rparr>)"
proof (cases xs)
  case Nil
  then show ?thesis using r by (simp add: pl_rep_def x_path_listeners_notify_def ht_map_def [symmetric])
next
  case (Cons a ys)
  then show ?thesis using r notify_loop_chain [OF q, of pl a ys a xobj]
    by (simp add: pl_rep_def x_path_listeners_notify_def ht_map_def [symmetric] ring_def)
qed

lemma find_loop_found:
  "chain L (xs @ [a]) \<Longrightarrow> a \<notin> set xs \<Longrightarrow> l0 \<notin> set (tl (xs @ [a])) \<Longrightarrow> find_loop L l0 a (hd (xs @ [a])) = Some a"
proof (induction xs)
  case Nil
  then show ?case by (simp add: find_loop.simps)
next
  case (Cons b xs)
  have n: "l_next L b = Some (hd (xs @ [a]))" "chain L (xs @ [a])" using Cons.prems(1) by (cases xs; simp)+
  have "hd (xs @ [a]) \<noteq> l0" "l0 \<notin> set (tl (xs @ [a]))" using Cons.prems(3) by (cases xs; auto)+
  then show ?case using Cons.IH Cons.prems n by (subst find_loop.simps) auto
qed

lemma find_loop_missing:
  "chain L (xs @ [l0]) \<Longrightarrow> xs \<noteq> [] \<Longrightarrow> a \<notin> set xs \<Longrightarrow> find_loop L l0 a (hd xs) = None"
proof (induction xs)
  case (Cons b xs)
  then show ?case
  proof (cases xs)
    case Nil
    then show ?thesis using Cons.prems by (subst find_loop.simps) simp
  next
    case (Cons c ys)
    then show ?thesis using Cons.IH Cons.prems by (subst find_loop.simps) auto
  qed
qed simp

text \<open>Removing a listener of the path, or one that is not there.\<close>

lemma pl_remove:
  assumes r: "pl_rep pl path (xs @ a # ys)" and d: "distinct (xs @ a # ys)"
  shows "\<exists>pl'. x_path_listener_remove path a pl = Some pl' \<and> pl_rep pl' path (xs @ ys) \<and> pl_world pl' = pl_world pl"
proof (cases "xs @ ys = []")
  case True
  then have "ring (pl_links pl) [a]" using r by (simp add: pl_rep_def)
  from xw_list_is_empty_ring [OF this] True show ?thesis using r htab.inv_del [of "pl_tbl pl" path] htab.get_del [of "pl_tbl pl" path]
    by (simp add: pl_rep_def x_path_listener_remove_def ht_map_def [symmetric] ht_rem_def)
next
  case ne: False
  let ?L = "pl_links pl" and ?h = "hd (xs @ a # ys)"
  have rg: "ring ?L (xs @ a # ys)" and tb: "ht_map (pl_tbl pl) path = Some ?h" and ht: "ht_inv (pl_tbl pl)"
    using r by (auto simp: pl_rep_def split: if_splits)
  have "ring ?L (a # ys @ xs)" using ring_rotates [OF rg] by simp
  from ring_remove [OF this] ne obtain L' where L': "xw_list_remove ?L a = Some L'" "ring L' (ys @ xs)" by auto
  have left: "ring L' (xs @ ys)" using ring_rotates [OF L'(2)] by simp
  have many: "xw_list_is_empty ?L ?h = Some False"
    using xw_list_is_empty_ring [of ?L ?h "tl (xs @ a # ys)"] rg ne by (cases xs) auto
  have found: "find_loop ?L ?h a ?h = Some a"
    using find_loop_found [of ?L xs a ?h] rg d chain_append [of ?L xs a "ys @ [?h]"] by (cases xs) (auto simp: ring_def)
  show ?thesis
  proof (cases xs)
    case Nil
    then obtain b zs where ys: "ys = b # zs" using ne by (cases ys) auto
    then have "l_next ?L a = Some b" using rg Nil by (simp add: ring_def)
    then show ?thesis
      using tb many found L'(1) left ht Nil ys htab.inv_put [OF ht, of path b] htab.get_put [OF ht, of path b]
      by (simp add: x_path_listener_remove_def pl_rep_def ht_map_def [symmetric] ht_put_def)
  next
    case (Cons b zs)
    then have "a \<noteq> ?h" using d by auto
    then show ?thesis using tb many found L'(1) left ht Cons
      by (simp add: x_path_listener_remove_def pl_rep_def ht_map_def [symmetric])
  qed
qed

lemma pl_remove_missing:
  assumes r: "pl_rep pl path (x # y # xs)" and a: "a \<notin> set (x # y # xs)"
  shows "x_path_listener_remove path a pl = None"
proof -
  have rg: "ring (pl_links pl) (x # y # xs)" using r by (simp add: pl_rep_def)
  then have "find_loop (pl_links pl) x a (hd (x # y # xs)) = None"
    using a by (intro find_loop_missing) (simp_all add: ring_def)
  then show ?thesis using r xw_list_is_empty_ring [OF rg]
    by (simp add: x_path_listener_remove_def pl_rep_def ht_map_def [symmetric])
qed

section \<open>Claims\<close>

fun add_all :: "string \<Rightarrow> addr list \<Rightarrow> 's plist \<Rightarrow> 's plist option" where
  "add_all path [] pl = Some pl"
| "add_all path (l # ls) pl = do { (r, pl1) \<leftarrow> x_path_listener_add path l pl; add_all path ls pl1 }"

lemma add_all_more:
  "pl_rep pl path (x # xs) \<Longrightarrow> distinct (ls @ x # xs) \<Longrightarrow>
     \<exists>pl'. add_all path ls pl = Some pl' \<and> pl_rep pl' path (x # rev ls @ xs) \<and> pl_world pl' = pl_world pl"
proof (induction ls arbitrary: pl xs)
  case (Cons l ls)
  from pl_add_more [OF Cons.prems(1), of l] Cons.prems(2) obtain pl1 where
    "x_path_listener_add path l pl = Some (0, pl1)" "pl_rep pl1 path (x # l # xs)" "pl_world pl1 = pl_world pl" by auto
  then show ?case using Cons.IH [of pl1 "l # xs"] Cons.prems(2) by auto
qed simp

text \<open>
  Every listener of a path is told exactly once about an event: the one that was added
  first, then the others, the latest first; a listener that was removed in between is not told,
  the others are.
\<close>

theorem path_listeners_told:
  assumes q: "quiet on g" and none: "pl_rep pl path []" and d: "distinct (l # ls)" and x: "x \<in> set (l # ls)"
  shows "\<exists>pl1 pl2 pl3. add_all path (l # ls) pl = Some pl1
     \<and> x_path_listeners_notify on path xobj pl1 = Some pl2 \<and> pl_world pl2 = foldl (\<lambda>w b. g b xobj w) (pl_world pl) (l # rev ls)
     \<and> x_path_listener_remove path x pl1 = Some pl3
     \<and> map_option pl_world (x_path_listeners_notify on path xobj pl3) = Some (foldl (\<lambda>w b. g b xobj w) (pl_world pl) (remove1 x (l # rev ls)))"
proof -
  from pl_add_first [OF none, of l] obtain pl0 where p0: "x_path_listener_add path l pl = Some (0, pl0)"
    "pl_rep pl0 path [l]" "pl_world pl0 = pl_world pl" by blast
  from add_all_more [OF p0(2), of ls] d p0(3) obtain pl1 where p1: "add_all path ls pl0 = Some pl1"
    "pl_rep pl1 path (l # rev ls)" "pl_world pl1 = pl_world pl" by auto
  have "x \<in> set (l # rev ls)" using x by simp
  then obtain us vs where uv: "l # rev ls = us @ x # vs" by (meson split_list)
  have dd: "distinct (us @ x # vs)" using d unfolding uv [symmetric] by simp
  have r1: "remove1 x (l # rev ls) = us @ vs" unfolding uv using dd by (simp add: remove1_append)
  from pl_remove [of pl1 path us x vs] p1(2) dd uv obtain pl3 where p3: "x_path_listener_remove path x pl1 = Some pl3"
    "pl_rep pl3 path (us @ vs)" "pl_world pl3 = pl_world pl1" by auto
  have n3: "map_option pl_world (x_path_listeners_notify on path xobj pl3) = Some (foldl (\<lambda>w b. g b xobj w) (pl_world pl) (us @ vs))"
    unfolding notify_rep [OF q p3(2)] using p3(3) p1(3) by simp
  show ?thesis
    unfolding r1 using p0(1) p1(1,3) p3(1) n3 notify_rep [OF q p1(2), of xobj] by auto
qed

definition no_listeners :: "addr list plist" where
  "no_listeners = \<lparr>pl_tbl = ht_empty, pl_links = \<lparr>l_next = Map.empty, l_prev = Map.empty\<rparr>, pl_world = []\<rparr>"

definition log_told :: "addr list listeners" where
  "log_told a = Some (\<lambda>xobj pl. Some (pl\<lparr>pl_world := pl_world pl @ [a]\<rparr>))"

lemma no_listeners_rep: "pl_rep no_listeners path []"
  by (simp add: pl_rep_def no_listeners_def ht_inv_empty ht_map_bucket) (simp add: ht_empty_def)

lemma log_told_quiet: "quiet log_told (\<lambda>a _ w. w @ [a])"
  by (simp add: quiet_def log_told_def)

theorem path_listeners_told_witness:
  "\<exists>pl1 pl2 pl3. add_all ''/'' [5, 6, 7] no_listeners = Some pl1
     \<and> x_path_listeners_notify log_told ''/'' None pl1 = Some pl2 \<and> pl_world pl2 = [5, 7, 6]
     \<and> x_path_listener_remove ''/'' 6 pl1 = Some pl3
     \<and> map_option pl_world (x_path_listeners_notify log_told ''/'' None pl3) = Some [5, 7]"
  using path_listeners_told [OF log_told_quiet no_listeners_rep [of "''/''"], of 5 "[6, 7]" 6 None]
  by (simp add: no_listeners_def)

text \<open>
  Removing a listener that is not registered for the path does nothing when the path has at
  most one listener; when it has more, the search reaches the end of the ring, sets its
  variable to null and then follows it.
\<close>

theorem path_remove_missing:
  assumes "pl_rep pl path xs" "a \<notin> set xs"
  shows "x_path_listener_remove path a pl = (if length xs < 2 then Some pl else None)"
proof (cases xs)
  case Nil
  then show ?thesis using assms by (simp add: pl_rep_def x_path_listener_remove_def ht_map_def [symmetric])
next
  case (Cons x ys)
  then have "ring (pl_links pl) (x # ys)" using assms(1) by (simp add: pl_rep_def)
  from xw_list_is_empty_ring [OF this] show ?thesis
    using assms Cons pl_remove_missing [of pl path x "hd ys" "tl ys" a]
    by (cases ys) (auto simp: pl_rep_def x_path_listener_remove_def ht_map_def [symmetric])
qed

lemma two_listeners: "\<exists>pl. pl_rep pl ''/'' [5, 6] \<and> pl_world pl = ([] :: addr list)"
proof -
  obtain pl0 where "pl_rep pl0 ''/'' [5]" "pl_world pl0 = pl_world no_listeners"
    using pl_add_first [OF no_listeners_rep, of "''/''" 5] by blast
  then show ?thesis using pl_add_more [of pl0 "''/''" 5 "[]" 6] by (auto simp: no_listeners_def)
qed

theorem path_remove_missing_witness:
  "\<exists>pl. pl_rep pl ''/'' [5, 6] \<and> pl_world pl = ([] :: addr list) \<and> x_path_listener_remove ''/'' 7 pl = None"
  using two_listeners path_remove_missing [of _ "''/''" "[5, 6]" 7] by fastforce

end
