(* ===== verification/Xw_Parser.thy ===== *)
theory Xw_Parser
  imports Xw_Obj
begin

text \<open>
  Model of \<^verbatim>\<open>x_parser.c\<close>: the push parser, a state machine fed one character at a time that
  reports elements and text through callbacks, and the serializer of object trees. \<^theory_text>\<open>None\<close> is
  undefined behaviour or the end of the process.
\<close>

section \<open>Character classes\<close>

definition x_isupper :: "char \<Rightarrow> bool" where
  "x_isupper c \<longleftrightarrow> (65 :: nat) \<le> of_char c \<and> of_char c \<le> (90 :: nat)"

definition x_islower :: "char \<Rightarrow> bool" where
  "x_islower c \<longleftrightarrow> (97 :: nat) \<le> of_char c \<and> of_char c \<le> (122 :: nat)"

definition x_isalpha :: "char \<Rightarrow> bool" where
  "x_isalpha c \<longleftrightarrow> x_isupper c \<or> x_islower c"

definition x_isdigit :: "char \<Rightarrow> bool" where
  "x_isdigit c \<longleftrightarrow> (48 :: nat) \<le> of_char c \<and> of_char c \<le> (57 :: nat)"

text \<open>A \<^verbatim>\<open>char\<close> is signed: bytes from 128 on are negative.\<close>

definition negc :: "char \<Rightarrow> bool" where
  "negc c \<longleftrightarrow> (128 :: nat) \<le> of_char c"

text \<open>\<^verbatim>\<open>strchr\<close> finds the terminator too, so the zero character counts as white space.\<close>

definition wsc :: "char \<Rightarrow> bool" where
  "wsc c \<longleftrightarrow> c = char_of (9 :: nat) \<or> c = CR \<or> c = LF \<or> c = CHR '' '' \<or> c = NUL"

definition name_start :: "char \<Rightarrow> bool" where
  "name_start c \<longleftrightarrow> x_isalpha c \<or> c = CHR ''_'' \<or> c = CHR '':'' \<or> negc c"

definition name_char :: "char \<Rightarrow> bool" where
  "name_char c \<longleftrightarrow> x_isalpha c \<or> c = CHR ''-'' \<or> x_isdigit c \<or> c = CHR ''_'' \<or> c = CHR ''.'' \<or> c = CHR '':'' \<or> negc c"

definition key_char :: "char \<Rightarrow> bool" where
  "key_char c \<longleftrightarrow> x_isalpha c \<or> x_isdigit c \<or> c = CHR '':'' \<or> c = CHR ''_'' \<or> negc c"

section \<open>The parser\<close>

datatype ctx = Ctx_txt | Ctx_tag | Ctx_attr | Ctx_idle

datatype x_pp = X_PP_INI | X_PP_KV_VAL | X_PP_KV_LAV | X_PP_KV_WANT_VAL | X_PP_KV_KEY | X_PP_OBJ_OPENING | X_PP_OBJ_CLOSING

text \<open>
  \<open>g2\<close> only ever points to \<open>r2\<close> or is null. The stack holds return contexts. \<open>cbdata\<close> is the
  state of the application behind the callbacks.
\<close>

record 's pparser =
  attrs :: attr_list
  r0 :: x_string
  r1 :: x_string
  r2 :: x_string
  g1 :: char
  g2 :: bool
  cr0 :: u32
  cr1 :: x_pp
  r_putc :: ctx
  stack :: "ctx list"
  cbdata :: 's

text \<open>The callbacks; the one for an opening tag may change the list of attributes it is given.\<close>

record 's pp_cb =
  xobjopen :: "(string \<Rightarrow> attr_list \<Rightarrow> 's \<Rightarrow> (attr_list \<times> 's) option) option"
  xputchar :: "(char \<Rightarrow> 's \<Rightarrow> 's option) option"
  xobjclose :: "(string \<Rightarrow> 's \<Rightarrow> 's option) option"

definition X_INI_STACK_SIZE :: nat where "X_INI_STACK_SIZE = 64"

definition PP_ATTR_F :: u32 where "PP_ATTR_F = 1"

text \<open>The C string in a register; reading one without terminator is undefined.\<close>

definition xs_read :: "x_string \<Rightarrow> string option" where
  "xs_read x = (case cbuf x of Block b \<Rightarrow> if NUL \<in> set b then Some (xs_cstr x) else None | _ \<Rightarrow> None)"

definition x_parser_set_context :: "'s pparser \<Rightarrow> ctx \<Rightarrow> 's pparser" where
  "x_parser_set_context p f = p\<lparr>r_putc := f\<rparr>"

definition x_parser_push :: "'s pparser \<Rightarrow> ctx \<Rightarrow> 's pparser option" where
  "x_parser_push p v = (if length (stack p) < X_INI_STACK_SIZE then Some (p\<lparr>stack := v # stack p\<rparr>) else None)"

definition x_parser_pop :: "'s pparser \<Rightarrow> (ctx \<times> 's pparser) option" where
  "x_parser_pop p = (case stack p of [] \<Rightarrow> None | v # vs \<Rightarrow> Some (v, p\<lparr>stack := vs\<rparr>))"

definition clear_r0 :: "(nat \<Rightarrow> char) \<Rightarrow> 's pparser \<Rightarrow> 's pparser option" where
  "clear_r0 junk p = do { x \<leftarrow> x_string_clear junk (r0 p); Some (p\<lparr>r0 := x\<rparr>) }"

definition clear_r1 :: "(nat \<Rightarrow> char) \<Rightarrow> 's pparser \<Rightarrow> 's pparser option" where
  "clear_r1 junk p = do { x \<leftarrow> x_string_clear junk (r1 p); Some (p\<lparr>r1 := x\<rparr>) }"

definition clear_r2 :: "(nat \<Rightarrow> char) \<Rightarrow> 's pparser \<Rightarrow> 's pparser option" where
  "clear_r2 junk p = do { x \<leftarrow> x_string_clear junk (r2 p); Some (p\<lparr>r2 := x\<rparr>) }"

definition putc_r0 :: "(nat \<Rightarrow> char) \<Rightarrow> char \<Rightarrow> 's pparser \<Rightarrow> 's pparser option" where
  "putc_r0 junk c p = do { x \<leftarrow> x_string_putc junk (r0 p) c; Some (p\<lparr>r0 := x\<rparr>) }"

definition putc_r1 :: "(nat \<Rightarrow> char) \<Rightarrow> char \<Rightarrow> 's pparser \<Rightarrow> 's pparser option" where
  "putc_r1 junk c p = do { x \<leftarrow> x_string_putc junk (r1 p) c; Some (p\<lparr>r1 := x\<rparr>) }"

definition putc_r2 :: "(nat \<Rightarrow> char) \<Rightarrow> char \<Rightarrow> 's pparser \<Rightarrow> 's pparser option" where
  "putc_r2 junk c p = do { x \<leftarrow> x_string_putc junk (r2 p) c; Some (p\<lparr>r2 := x\<rparr>) }"

text \<open>The block that resets the value registers and the general purpose ones.\<close>

definition clear_vals :: "(nat \<Rightarrow> char) \<Rightarrow> 's pparser \<Rightarrow> 's pparser option" where
  "clear_vals junk p = do {
     p1 \<leftarrow> clear_r1 junk p;
     p2 \<leftarrow> clear_r2 junk p1;
     Some (p2\<lparr>g1 := NUL, g2 := False\<rparr>)
   }"

definition set_pair :: "'s pparser \<Rightarrow> 's pparser option" where
  "set_pair p = do {
     k \<leftarrow> xs_read (r1 p);
     v \<leftarrow> xs_read (r2 p);
     Some (p\<lparr>attrs := snd (setattr True k (Some v) (attrs p))\<rparr>)
   }"

definition x_parser_ctx_txt :: "'s pp_cb \<Rightarrow> 's pparser \<Rightarrow> char \<Rightarrow> (int \<times> 's pparser) option" where
  "x_parser_ctx_txt cb p c =
     (if c = CHR ''<'' then Some (0, x_parser_set_context p Ctx_tag)
      else case xputchar cb of
          None \<Rightarrow> Some (0, p)
        | Some f \<Rightarrow> do { s \<leftarrow> f c (cbdata p); Some (0, p\<lparr>cbdata := s\<rparr>) })"

definition x_parser_ctx_idle :: "(nat \<Rightarrow> char) \<Rightarrow> 's pparser \<Rightarrow> char \<Rightarrow> (int \<times> 's pparser) option" where
  "x_parser_ctx_idle junk p c =
     (if g1 p \<noteq> c \<or> negc c then
        (if g2 p then do { p1 \<leftarrow> putc_r2 junk c p; Some (0, p1) } else Some (0, p))
      else do { (f, p1) \<leftarrow> x_parser_pop p; Some (0, x_parser_set_context p1 f) })"

definition call_open :: "'s pp_cb \<Rightarrow> 's pparser \<Rightarrow> 's pparser option" where
  "call_open cb p = (case xobjopen cb of
       None \<Rightarrow> Some p
     | Some f \<Rightarrow> do { name \<leftarrow> xs_read (r0 p); (as, s) \<leftarrow> f name (attrs p) (cbdata p); Some (p\<lparr>attrs := as, cbdata := s\<rparr>) })"

definition call_close :: "'s pp_cb \<Rightarrow> 's pparser \<Rightarrow> 's pparser option" where
  "call_close cb p = (case xobjclose cb of
       None \<Rightarrow> Some p
     | Some f \<Rightarrow> do { name \<leftarrow> xs_read (r0 p); s \<leftarrow> f name (cbdata p); Some (p\<lparr>cbdata := s\<rparr>) })"

definition tag_ini :: "(nat \<Rightarrow> char) \<Rightarrow> 's pparser \<Rightarrow> char \<Rightarrow> (int \<times> 's pparser) option" where
  "tag_ini junk p c =
     (if name_start c then do {
        p1 \<leftarrow> clear_r0 junk (p\<lparr>cr1 := X_PP_OBJ_OPENING\<rparr>);
        p2 \<leftarrow> putc_r0 junk c p1;
        Some (0, p2)
      } else if c = CHR ''?'' then do {
        p1 \<leftarrow> x_parser_push (p\<lparr>g1 := c\<rparr>) Ctx_tag;
        Some (0, x_parser_set_context p1 Ctx_idle)
      } else if c = CHR ''>'' then do {
        p1 \<leftarrow> clear_r0 junk (p\<lparr>cr1 := X_PP_INI\<rparr>);
        Some (0, x_parser_set_context p1 Ctx_txt)
      } else if c = CHR ''/'' then do {
        p1 \<leftarrow> clear_vals junk p;
        Some (0, p1\<lparr>cr1 := X_PP_OBJ_CLOSING\<rparr>)
      } else Some (-1, p))"

definition tag_opening :: "(nat \<Rightarrow> char) \<Rightarrow> 's pp_cb \<Rightarrow> 's pparser \<Rightarrow> char \<Rightarrow> (int \<times> 's pparser) option" where
  "tag_opening junk cb p c =
     (if name_char c then do { p1 \<leftarrow> putc_r0 junk c p; Some (0, p1) }
      else if c = CHR ''/'' then do {
        p1 \<leftarrow> call_open cb p;
        p2 \<leftarrow> clear_vals junk p1;
        Some (0, p2\<lparr>cr1 := X_PP_OBJ_CLOSING\<rparr>)
      } else if c = CHR ''>'' then do {
        p1 \<leftarrow> call_open cb p;
        p2 \<leftarrow> clear_r0 junk p1;
        p3 \<leftarrow> clear_vals junk p2;
        Some (0, x_parser_set_context (p3\<lparr>cr1 := X_PP_INI, cr0 := cr0 p3 AND NOT PP_ATTR_F\<rparr>) Ctx_txt)
      } else if wsc c then do {
        p1 \<leftarrow> clear_vals junk (p\<lparr>attrs := attr_list_clear (attrs p)\<rparr>);
        Some (0, x_parser_set_context (p1\<lparr>cr0 := cr0 p1 OR PP_ATTR_F\<rparr>) Ctx_attr)
      } else None)"

definition tag_closing :: "(nat \<Rightarrow> char) \<Rightarrow> 's pp_cb \<Rightarrow> 's pparser \<Rightarrow> char \<Rightarrow> (int \<times> 's pparser) option" where
  "tag_closing junk cb p c =
     (if c = CHR ''>'' then do {
        p1 \<leftarrow> call_close cb p;
        p2 \<leftarrow> clear_r0 junk (p1\<lparr>cr1 := X_PP_INI\<rparr>);
        p3 \<leftarrow> clear_vals junk p2;
        Some (0, x_parser_set_context p3 Ctx_txt)
      } else if name_char c then do { p1 \<leftarrow> putc_r0 junk c p; Some (0, p1) }
      else Some (-1, p))"

definition x_parser_ctx_tag :: "(nat \<Rightarrow> char) \<Rightarrow> 's pp_cb \<Rightarrow> 's pparser \<Rightarrow> char \<Rightarrow> (int \<times> 's pparser) option" where
  "x_parser_ctx_tag junk cb p c =
     (if cr1 p = X_PP_INI then tag_ini junk p c
      else if cr1 p = X_PP_OBJ_OPENING then tag_opening junk cb p c
      else if cr1 p = X_PP_OBJ_CLOSING then tag_closing junk cb p c
      else None)"

text \<open>The label \<^verbatim>\<open>ret_to_tag\<close>: the character is handed on to the tag context; its result is dropped.\<close>

definition ret_to_tag :: "(nat \<Rightarrow> char) \<Rightarrow> 's pp_cb \<Rightarrow> 's pparser \<Rightarrow> char \<Rightarrow> (int \<times> 's pparser) option" where
  "ret_to_tag junk cb p c = do {
     p1 \<leftarrow> clear_r1 junk p;
     p2 \<leftarrow> clear_r2 junk p1;
     (r, p3) \<leftarrow> x_parser_ctx_tag junk cb (x_parser_set_context (p2\<lparr>cr1 := X_PP_OBJ_OPENING\<rparr>) Ctx_tag) c;
     Some (0, p3)
   }"

definition x_parser_ctx_attr :: "(nat \<Rightarrow> char) \<Rightarrow> 's pp_cb \<Rightarrow> 's pparser \<Rightarrow> char \<Rightarrow> (int \<times> 's pparser) option" where
  "x_parser_ctx_attr junk cb p c =
     (case cr1 p of
        X_PP_KV_LAV \<Rightarrow>
          if name_start c then do { p1 \<leftarrow> putc_r2 junk c p; Some (0, p1) }
          else if wsc c then do {
            p1 \<leftarrow> set_pair p;
            p2 \<leftarrow> clear_r1 junk p1;
            p3 \<leftarrow> clear_r2 junk p2;
            Some (0, p3\<lparr>cr1 := X_PP_INI\<rparr>)
          } else do { p1 \<leftarrow> set_pair p; ret_to_tag junk cb p1 c }
      | X_PP_KV_VAL \<Rightarrow>
          if wsc c then Some (0, p)
          else if c = CHR 0x27 \<or> c = CHR 0x22 then do {
            p1 \<leftarrow> x_parser_push (p\<lparr>g1 := c, cr1 := X_PP_KV_LAV\<rparr>) Ctx_attr;
            p2 \<leftarrow> clear_r2 junk p1;
            Some (0, x_parser_set_context (p2\<lparr>g2 := True\<rparr>) Ctx_idle)
          } else if key_char c then do { p1 \<leftarrow> putc_r2 junk c p; Some (0, p1\<lparr>cr1 := X_PP_KV_LAV\<rparr>) }
          else ret_to_tag junk cb p c
      | X_PP_KV_WANT_VAL \<Rightarrow>
          if c = CHR ''='' then Some (0, p\<lparr>cr1 := X_PP_KV_VAL\<rparr>)
          else if wsc c then Some (0, p)
          else if name_start c then do {
            k \<leftarrow> xs_read (r1 p);
            p1 \<leftarrow> clear_r1 junk (p\<lparr>attrs := snd (setattr True k None (attrs p))\<rparr>);
            p2 \<leftarrow> clear_r2 junk p1;
            p3 \<leftarrow> putc_r1 junk c p2;
            Some (0, p3\<lparr>cr1 := X_PP_KV_KEY\<rparr>)
          } else ret_to_tag junk cb p c
      | X_PP_KV_KEY \<Rightarrow>
          if key_char c then do { p1 \<leftarrow> putc_r1 junk c p; Some (0, p1) }
          else if c = CHR ''='' then Some (0, p\<lparr>cr1 := X_PP_KV_VAL\<rparr>)
          else if wsc c then Some (0, p\<lparr>cr1 := X_PP_KV_WANT_VAL\<rparr>)
          else Some (0, p)
      | _ \<Rightarrow>
          if name_start c then do { p1 \<leftarrow> putc_r1 junk c p; Some (0, p1\<lparr>cr1 := X_PP_KV_KEY\<rparr>) }
          else if wsc c then Some (0, p)
          else ret_to_tag junk cb p c)"

text \<open>\<^verbatim>\<open>p->r_putc(p, c)\<close>, and a loop over a buffer that ignores the results, as the bus does it.\<close>

definition pp_putc :: "(nat \<Rightarrow> char) \<Rightarrow> 's pp_cb \<Rightarrow> 's pparser \<Rightarrow> char \<Rightarrow> (int \<times> 's pparser) option" where
  "pp_putc junk cb p c = (case r_putc p of
       Ctx_txt \<Rightarrow> x_parser_ctx_txt cb p c
     | Ctx_tag \<Rightarrow> x_parser_ctx_tag junk cb p c
     | Ctx_attr \<Rightarrow> x_parser_ctx_attr junk cb p c
     | Ctx_idle \<Rightarrow> x_parser_ctx_idle junk p c)"

fun pp_feed :: "(nat \<Rightarrow> char) \<Rightarrow> 's pp_cb \<Rightarrow> 's pparser \<Rightarrow> string \<Rightarrow> 's pparser option" where
  "pp_feed junk cb p [] = Some p"
| "pp_feed junk cb p (c # cs) = do { (r, p1) \<leftarrow> pp_putc junk cb p c; pp_feed junk cb p1 cs }"

definition x_parser_init :: "(nat \<Rightarrow> char) \<Rightarrow> 's pparser \<Rightarrow> 's pparser option" where
  "x_parser_init junk p = do {
     p1 \<leftarrow> clear_r1 junk (p\<lparr>cr0 := 0\<rparr>);
     p2 \<leftarrow> clear_r2 junk p1;
     Some (x_parser_set_context (p2\<lparr>stack := [], cr0 := 0, cr1 := X_PP_INI, g1 := NUL, g2 := False, attrs := attr_list_init\<rparr>) Ctx_txt)
   }"

section \<open>The serializer\<close>

datatype ser_state = STATE_OPEN | STATE_CLOSE | STATE_STOP

fun ser_attrs :: "(string \<Rightarrow> 'o \<Rightarrow> 'o option) \<Rightarrow> attr_list \<Rightarrow> 'o \<Rightarrow> 'o option" where
  "ser_attrs cbf [] out = Some out"
| "ser_attrs cbf ((k, v) # as) out = do {
     o1 \<leftarrow> cbf '' '' out;
     o2 \<leftarrow> cbf k o1;
     o3 \<leftarrow> cbf [CHR ''='', CHR 0x27] o2;
     o4 \<leftarrow> cbf v o3;
     o5 \<leftarrow> cbf [CHR 0x27] o4;
     ser_attrs cbf as o5
   }"

text \<open>
  One pass through the loop: \<open>x\<close> is the current object, \<open>p\<close> the one to serialize. \<open>cbf\<close> is given
  the text and the output so far. The content of an object is written with its length.
\<close>

definition ser_leave :: "addr \<Rightarrow> addr \<Rightarrow> xobject \<Rightarrow> (ser_state \<times> addr) option" where
  "ser_leave p x ob =
     (if x = p then Some (STATE_STOP, x)
      else case o_sibling ob of
        Some s \<Rightarrow> Some (STATE_OPEN, s)
      | None \<Rightarrow> do { q \<leftarrow> o_parent ob; Some (STATE_CLOSE, q) })"

definition ser_open :: "(string \<Rightarrow> 'o \<Rightarrow> 'o option) \<Rightarrow> addr \<Rightarrow> addr \<Rightarrow> xobject \<Rightarrow> 'o \<Rightarrow> ((ser_state \<times> addr) \<times> 'o) option" where
  "ser_open cbf p x ob out = do {
     name \<leftarrow> o_name ob;
     o1 \<leftarrow> cbf ''<'' out;
     o2 \<leftarrow> cbf name o1;
     o3 \<leftarrow> ser_attrs cbf (o_attrs ob) o2;
     if o_sons ob \<noteq> None \<or> 0 < pos (o_content ob) then do {
       o4 \<leftarrow> cbf ''>'' o3;
       Some (case o_sons ob of Some s \<Rightarrow> (STATE_OPEN, s) | None \<Rightarrow> (STATE_CLOSE, x), o4)
     } else do {
       o4 \<leftarrow> cbf ''/>'' o3;
       nx \<leftarrow> ser_leave p x ob;
       Some (nx, o4)
     }
   }"

definition ser_close :: "(string \<Rightarrow> 'o \<Rightarrow> 'o option) \<Rightarrow> addr \<Rightarrow> addr \<Rightarrow> xobject \<Rightarrow> 'o \<Rightarrow> ((ser_state \<times> addr) \<times> 'o) option" where
  "ser_close cbf p x ob out = do {
     name \<leftarrow> o_name ob;
     o1 \<leftarrow> (if 0 < pos (o_content ob) then cbf (xs_str (o_content ob)) out else Some out);
     o2 \<leftarrow> cbf ''</'' o1;
     o3 \<leftarrow> cbf name o2;
     o4 \<leftarrow> cbf ''>'' o3;
     nx \<leftarrow> ser_leave p x ob;
     Some (nx, o4)
   }"

definition ser_step :: "(string \<Rightarrow> 'o \<Rightarrow> 'o option) \<Rightarrow> heap \<Rightarrow> addr \<Rightarrow> ser_state \<Rightarrow> addr \<Rightarrow> 'o \<Rightarrow> ((ser_state \<times> addr) \<times> 'o) option" where
  "ser_step cbf h p st x out = do {
     ob \<leftarrow> objs h x;
     if st = STATE_OPEN then ser_open cbf p x ob out
     else if st = STATE_CLOSE then ser_close cbf p x ob out
     else Some ((STATE_STOP, x), out)
   }"

partial_function (option) ser_loop ::
  "(string \<Rightarrow> 'o \<Rightarrow> 'o option) \<Rightarrow> heap \<Rightarrow> addr \<Rightarrow> ser_state \<Rightarrow> addr \<Rightarrow> 'o \<Rightarrow> 'o option" where
  "ser_loop cbf h p st x out = do {
     ((st1, x1), out1) \<leftarrow> ser_step cbf h p st x out;
     if st1 = STATE_STOP then Some out1 else ser_loop cbf h p st1 x1 out1
   }"

definition x_parser_object_serialize :: "(string \<Rightarrow> 'o \<Rightarrow> 'o option) \<Rightarrow> heap \<Rightarrow> addr \<Rightarrow> 'o \<Rightarrow> 'o option" where
  "x_parser_object_serialize cbf h x out = ser_loop cbf h x STATE_OPEN x out"

definition x_parser_object_to_string :: "(nat \<Rightarrow> char) \<Rightarrow> heap \<Rightarrow> addr \<Rightarrow> x_string \<Rightarrow> x_string option" where
  "x_parser_object_to_string junk h x xstr = x_parser_object_serialize (\<lambda>s xs. x_string_write junk xs s (length s)) h x xstr"

end
