(* ===== verification/Xw_Parser_Proofs.thy ===== *)
theory Xw_Parser_Proofs
  imports Xw_Parser
begin

text \<open>
  The parser on the text of an element tree: what every piece of the text does to the
  registers and contexts, and the callbacks it leads to.
\<close>

section \<open>Registers\<close>

text \<open>\<open>reg x s\<close>: the register holds the string \<open>s\<close>, terminated unless it is empty, in a buffer of bounded size.\<close>

definition reg :: "x_string \<Rightarrow> string \<Rightarrow> bool" where
  "reg x s \<longleftrightarrow> xs_ok x \<and> xs_str x = s \<and> (s \<noteq> [] \<longrightarrow> cbuf x \<noteq> Null \<and> xs_block x ! unat (pos x) = NUL)
     \<and> unat (capacity x) \<le> 32 + 34 * length s"

definition reg_max :: nat where "reg_max = 100000000"

lemma reg_init: "reg X_STRING_STATIC_INIT []"
  using xs_ok_init by (simp add: reg_def X_STRING_STATIC_INIT_def)

lemma reg_putc: "reg x s \<Longrightarrow> length s < reg_max \<Longrightarrow> \<exists>x'. x_string_putc junk x c = Some x' \<and> reg x' (s @ [c])"
proof -
  assume r: "reg x s" and l: "length s < reg_max"
  obtain x' where "x_string_write junk x [c] 1 = Some x'" "xs_ok x'" "xs_str x' = xs_str x @ take 1 [c]"
    "xs_block x' ! unat (pos x') = NUL" "unat (capacity x') \<le> unat (capacity x) + 1 + 33"
    by (rule x_string_write_ok [of x 1 "[c]" junk]) (use r l in \<open>simp_all add: reg_def reg_max_def\<close>)
  moreover from this(2,3) have "cbuf x' \<noteq> Null" by (auto simp: xs_ok_def xs_str_def)
  ultimately show ?thesis using r by (auto simp: reg_def x_string_putc_write)
qed

lemma reg_clear: "reg x s \<Longrightarrow> \<exists>x'. x_string_clear junk x = Some x' \<and> reg x' []"
proof -
  assume "reg x s"
  then have "xs_ok x" by (simp add: reg_def)
  then obtain x' where "x_string_clear junk x = Some x'" "xs_ok x'" "xs_str x' = []" "unat (capacity x') = 32"
    by (rule x_string_clear_ok)
  then show ?thesis by (auto simp: reg_def)
qed

lemma reg_read: "reg x s \<Longrightarrow> s \<noteq> [] \<Longrightarrow> NUL \<notin> set s \<Longrightarrow> xs_read x = Some s"
proof -
  assume r: "reg x s" and s: "s \<noteq> []" "NUL \<notin> set s"
  then obtain b where b: "cbuf x = Block b" by (cases "cbuf x") (auto simp: reg_def xs_ok_def)
  let ?n = "unat (pos x)"
  have n: "?n < length b" "b ! ?n = NUL" "take ?n b = s"
    using r s b by (auto simp: reg_def xs_ok_def xs_block_def xs_str_def)
  then have "b = s @ NUL # drop (Suc ?n) b" by (metis id_take_nth_drop)
  then have "takeWhile (\<lambda>c. c \<noteq> NUL) b = s"
    using s(2) by (metis (mono_tags, lifting) takeWhile_append2 takeWhile.simps(2) append_Nil2)
  moreover have "NUL \<in> set b" using n by (metis nth_mem)
  ultimately show ?thesis using b by (simp add: xs_read_def xs_cstr_def xs_block_def)
qed

section \<open>Running the parser\<close>

definition runs :: "(nat \<Rightarrow> char) \<Rightarrow> 's pp_cb \<Rightarrow> 's pparser \<Rightarrow> string \<Rightarrow> ('s pparser \<Rightarrow> bool) \<Rightarrow> bool" where
  "runs junk cb p s Q \<longleftrightarrow> (\<exists>p'. pp_feed junk cb p s = Some p' \<and> Q p')"

lemma runs_Nil [simp]: "runs junk cb p [] Q \<longleftrightarrow> Q p"
  by (simp add: runs_def)

lemma runs_Cons: "runs junk cb p (c # s) Q \<longleftrightarrow> (\<exists>r p'. pp_putc junk cb p c = Some (r, p') \<and> runs junk cb p' s Q)"
  by (auto simp: runs_def bind_eq_Some_conv)

lemma pp_feed_append: "pp_feed junk cb p (s @ t) = do { p1 \<leftarrow> pp_feed junk cb p s; pp_feed junk cb p1 t }"
proof (induction s arbitrary: p)
  case (Cons c s)
  then show ?case by (cases "pp_putc junk cb p c") auto
qed simp

lemma runs_append: "runs junk cb p s (\<lambda>p1. runs junk cb p1 t Q) \<Longrightarrow> runs junk cb p (s @ t) Q"
  by (auto simp: runs_def pp_feed_append bind_eq_Some_conv)

lemma runs_mono: "runs junk cb p s P \<Longrightarrow> (\<And>p'. P p' \<Longrightarrow> Q p') \<Longrightarrow> runs junk cb p s Q"
  by (auto simp: runs_def)

lemma runs_seq: "runs junk cb p s P \<Longrightarrow> (\<And>p1. P p1 \<Longrightarrow> runs junk cb p1 t Q) \<Longrightarrow> runs junk cb p (s @ t) Q"
  by (rule runs_append, rule runs_mono)

lemma runs_step: "runs junk cb p [c] P \<Longrightarrow> (\<And>p1. P p1 \<Longrightarrow> runs junk cb p1 t Q) \<Longrightarrow> runs junk cb p (c # t) Q"
  using runs_seq [of junk cb p "[c]"] by simp

text \<open>The visible state: context, phase, the strings in the registers, the attributes and the application.\<close>

definition st :: "ctx \<Rightarrow> x_pp \<Rightarrow> string \<Rightarrow> string \<Rightarrow> string \<Rightarrow> attr_list \<Rightarrow> 's \<Rightarrow> 's pparser \<Rightarrow> bool" where
  "st f ph s0 s1 s2 as d p \<longleftrightarrow> r_putc p = f \<and> cr1 p = ph \<and> reg (r0 p) s0 \<and> reg (r1 p) s1 \<and> reg (r2 p) s2
     \<and> attrs p = as \<and> cbdata p = d \<and> stack p = []"

text \<open>Inside a quoted value.\<close>

definition st_val :: "string \<Rightarrow> string \<Rightarrow> string \<Rightarrow> attr_list \<Rightarrow> 's \<Rightarrow> 's pparser \<Rightarrow> bool" where
  "st_val s0 s1 s2 as d p \<longleftrightarrow> r_putc p = Ctx_idle \<and> cr1 p = X_PP_KV_LAV \<and> reg (r0 p) s0 \<and> reg (r1 p) s1 \<and> reg (r2 p) s2
     \<and> attrs p = as \<and> cbdata p = d \<and> stack p = [Ctx_attr] \<and> g1 p = CHR 0x27 \<and> g2 p"

text \<open>Callbacks that record what they are told and leave the attributes alone.\<close>

datatype xev = EOpen string attr_list | EChar char | EClose string

definition log_cb :: "xev list pp_cb" where
  "log_cb = \<lparr>xobjopen = Some (\<lambda>n as es. Some (as, es @ [EOpen n as])), xputchar = Some (\<lambda>c es. Some (es @ [EChar c])),
     xobjclose = Some (\<lambda>n es. Some (es @ [EClose n]))\<rparr>"

text \<open>
  What a report does to the state of the application; \<^theory_text>\<open>None\<close> if the callback fails or changes
  the attributes.
\<close>

fun play_ev :: "'s pp_cb \<Rightarrow> xev \<Rightarrow> 's \<Rightarrow> 's option" where
  "play_ev cb (EOpen n as) d = (case xobjopen cb of None \<Rightarrow> Some d
     | Some f \<Rightarrow> do { (as', d') \<leftarrow> f n as d; if as' = as then Some d' else None })"
| "play_ev cb (EChar c) d = (case xputchar cb of None \<Rightarrow> Some d | Some f \<Rightarrow> f c d)"
| "play_ev cb (EClose n) d = (case xobjclose cb of None \<Rightarrow> Some d | Some f \<Rightarrow> f n d)"

fun play_evs :: "'s pp_cb \<Rightarrow> xev list \<Rightarrow> 's \<Rightarrow> 's option" where
  "play_evs cb [] d = Some d"
| "play_evs cb (e # es) d = do { d1 \<leftarrow> play_ev cb e d; play_evs cb es d1 }"

lemma play_evs_append: "play_evs cb (es @ fs) d = do { d1 \<leftarrow> play_evs cb es d; play_evs cb fs d1 }"
proof (induction es arbitrary: d)
  case (Cons e es)
  then show ?case by (cases "play_ev cb e d") simp_all
qed simp

lemma play_evs_appendE:
  assumes "play_evs cb (es @ fs) d = Some d'"
  obtains d1 where "play_evs cb es d = Some d1" "play_evs cb fs d1 = Some d'"
  using assms by (auto simp: play_evs_append bind_eq_Some_conv)

lemma play_log: "play_evs log_cb es d = Some (d @ es)"
proof (induction es arbitrary: d)
  case (Cons e es)
  then show ?case by (cases e) (simp_all add: log_cb_def)
qed simp

lemma name_start_char: "name_start c \<Longrightarrow> name_char c" "name_start c \<Longrightarrow> key_char c" "key_char c \<Longrightarrow> name_char c"
  by (auto simp: name_start_def name_char_def key_char_def)

lemma name_char_not: "name_char c \<Longrightarrow> c \<noteq> CHR ''>'' \<and> c \<noteq> CHR ''/'' \<and> c \<noteq> CHR ''='' \<and> c \<noteq> CHR ''<'' \<and> c \<noteq> CHR '' '' \<and> c \<noteq> NUL \<and> c \<noteq> CHR 0x27"
proof -
  have "\<not> name_char (CHR ''>'')" "\<not> name_char (CHR ''/'')" "\<not> name_char (CHR ''='')" "\<not> name_char (CHR ''<'')"
    "\<not> name_char (CHR '' '')" "\<not> name_char NUL" "\<not> name_char (CHR 0x27)" by code_simp+
  then show "name_char c \<Longrightarrow> ?thesis" by auto
qed

lemma punct_classes [simp]:
  "\<not> name_char (CHR ''>'')" "\<not> name_char (CHR ''/'')" "\<not> name_char (CHR ''='')" "\<not> name_char (CHR '' '')"
  "\<not> name_start (CHR ''>'')" "\<not> name_start (CHR ''/'')" "\<not> name_start (CHR '' '')" "\<not> name_start (CHR 0x27)"
  "\<not> key_char (CHR ''='')" "\<not> wsc (CHR ''>'')" "\<not> wsc (CHR ''/'')" "wsc (CHR '' '')" "\<not> wsc (CHR 0x27)" "\<not> negc (CHR 0x27)"
  by code_simp+

text \<open>Updates of one register.\<close>

lemma regs:
  "reg (r0 p) s \<Longrightarrow> \<exists>x. clear_r0 junk p = Some (p\<lparr>r0 := x\<rparr>) \<and> reg x []"
  "reg (r1 p) s \<Longrightarrow> \<exists>x. clear_r1 junk p = Some (p\<lparr>r1 := x\<rparr>) \<and> reg x []"
  "reg (r2 p) s \<Longrightarrow> \<exists>x. clear_r2 junk p = Some (p\<lparr>r2 := x\<rparr>) \<and> reg x []"
  "reg (r0 p) s \<Longrightarrow> length s < reg_max \<Longrightarrow> \<exists>x. putc_r0 junk c p = Some (p\<lparr>r0 := x\<rparr>) \<and> reg x (s @ [c])"
  "reg (r1 p) s \<Longrightarrow> length s < reg_max \<Longrightarrow> \<exists>x. putc_r1 junk c p = Some (p\<lparr>r1 := x\<rparr>) \<and> reg x (s @ [c])"
  "reg (r2 p) s \<Longrightarrow> length s < reg_max \<Longrightarrow> \<exists>x. putc_r2 junk c p = Some (p\<lparr>r2 := x\<rparr>) \<and> reg x (s @ [c])"
  using reg_clear [of _ s junk] reg_putc [of _ s junk c]
  by (fastforce simp: clear_r0_def clear_r1_def clear_r2_def putc_r0_def putc_r1_def putc_r2_def)+

lemma clear_vals_reg:
  "reg (r1 p) s1 \<Longrightarrow> reg (r2 p) s2 \<Longrightarrow>
     \<exists>x y. clear_vals junk p = Some (p\<lparr>r1 := x, r2 := y, g1 := NUL, g2 := False\<rparr>) \<and> reg x [] \<and> reg y []"
proof -
  assume r: "reg (r1 p) s1" "reg (r2 p) s2"
  obtain x where x: "clear_r1 junk p = Some (p\<lparr>r1 := x\<rparr>)" "reg x []" using regs(2) [OF r(1)] by blast
  obtain y where y: "clear_r2 junk (p\<lparr>r1 := x\<rparr>) = Some (p\<lparr>r1 := x, r2 := y\<rparr>)" "reg y []"
    using regs(3) [of "p\<lparr>r1 := x\<rparr>" s2 junk] r(2) by auto
  show ?thesis using x y by (auto simp: clear_vals_def)
qed


lemmas pp_defs = st_def st_val_def runs_Cons pp_putc_def x_parser_set_context_def

section \<open>Single characters\<close>

lemma run_txt_lt: "st Ctx_txt X_PP_INI s0 s1 s2 as d p \<Longrightarrow> runs junk cb p ''<'' (st Ctx_tag X_PP_INI s0 s1 s2 as d)"
  by (simp add: pp_defs x_parser_ctx_txt_def)

lemma run_txt_char:
  "c \<noteq> CHR ''<'' \<Longrightarrow> st Ctx_txt X_PP_INI s0 s1 s2 as d p \<Longrightarrow> play_ev cb (EChar c) d = Some d' \<Longrightarrow>
     runs junk cb p [c] (st Ctx_txt X_PP_INI s0 s1 s2 as d')"
  by (auto simp: pp_defs x_parser_ctx_txt_def split: option.splits)

lemma run_tag_start:
  assumes "name_start c" "st Ctx_tag X_PP_INI s0 s1 s2 as d p"
  shows "runs junk cb p [c] (st Ctx_tag X_PP_OBJ_OPENING [c] s1 s2 as d)"
proof -
  let ?p = "p\<lparr>cr1 := X_PP_OBJ_OPENING\<rparr>"
  have r: "reg (r0 ?p) s0" using assms by (simp add: pp_defs)
  obtain x where x: "clear_r0 junk ?p = Some (?p\<lparr>r0 := x\<rparr>)" "reg x []" using regs(1) [OF r] by blast
  have "reg (r0 (?p\<lparr>r0 := x\<rparr>)) []" using x by simp
  then obtain y where "putc_r0 junk c (?p\<lparr>r0 := x\<rparr>) = Some (?p\<lparr>r0 := y\<rparr>)" "reg y [c]"
    using regs(4) [of "?p\<lparr>r0 := x\<rparr>" "[]" junk c] by (auto simp: reg_max_def)
  then show ?thesis using x assms by (simp add: pp_defs x_parser_ctx_tag_def tag_ini_def)
qed

lemma run_tag_name:
  assumes "name_char c" "ph = X_PP_OBJ_OPENING \<or> ph = X_PP_OBJ_CLOSING" "st Ctx_tag ph s0 s1 s2 as d p" "length s0 < reg_max"
  shows "runs junk cb p [c] (st Ctx_tag ph (s0 @ [c]) s1 s2 as d)"
proof -
  obtain y where "putc_r0 junk c p = Some (p\<lparr>r0 := y\<rparr>)" "reg y (s0 @ [c])"
    using regs(4) [of p s0 junk c] assms by (auto simp: st_def)
  then show ?thesis using assms name_char_not [OF assms(1)]
    by (auto simp: pp_defs x_parser_ctx_tag_def tag_opening_def tag_closing_def)
qed

lemma run_tag_ws:
  assumes "st Ctx_tag X_PP_OBJ_OPENING s0 s1 s2 as d p"
  shows "runs junk cb p '' '' (st Ctx_attr X_PP_OBJ_OPENING s0 [] [] [] d)"
proof -
  let ?p = "p\<lparr>attrs := attr_list_clear (attrs p)\<rparr>"
  have "reg (r1 ?p) s1" "reg (r2 ?p) s2" using assms by (simp_all add: st_def)
  from clear_vals_reg [OF this]
  obtain x y where "clear_vals junk ?p = Some (?p\<lparr>r1 := x, r2 := y, g1 := NUL, g2 := False\<rparr>)" "reg x []" "reg y []" by blast
  then show ?thesis using assms by (simp add: pp_defs x_parser_ctx_tag_def tag_opening_def attr_list_clear_def)
qed

lemma run_key_start:
  assumes "name_start c" "ph = X_PP_OBJ_OPENING \<or> ph = X_PP_INI" "st Ctx_attr ph s0 [] s2 as d p"
  shows "runs junk cb p [c] (st Ctx_attr X_PP_KV_KEY s0 [c] s2 as d)"
proof -
  obtain y where "putc_r1 junk c p = Some (p\<lparr>r1 := y\<rparr>)" "reg y [c]"
    using regs(5) [of p "[]" junk c] assms by (auto simp: st_def reg_max_def)
  then show ?thesis using assms by (auto simp: pp_defs x_parser_ctx_attr_def)
qed

lemma run_key:
  assumes "key_char c" "st Ctx_attr X_PP_KV_KEY s0 s1 s2 as d p" "length s1 < reg_max"
  shows "runs junk cb p [c] (st Ctx_attr X_PP_KV_KEY s0 (s1 @ [c]) s2 as d)"
proof -
  obtain y where "putc_r1 junk c p = Some (p\<lparr>r1 := y\<rparr>)" "reg y (s1 @ [c])"
    using regs(5) [of p s1 junk c] assms by (auto simp: st_def)
  then show ?thesis using assms by (auto simp: pp_defs x_parser_ctx_attr_def)
qed

lemma run_eq: "st Ctx_attr X_PP_KV_KEY s0 s1 s2 as d p \<Longrightarrow> runs junk cb p ''='' (st Ctx_attr X_PP_KV_VAL s0 s1 s2 as d)"
  by (simp add: pp_defs x_parser_ctx_attr_def)

lemma run_quote:
  assumes "st Ctx_attr X_PP_KV_VAL s0 s1 s2 as d p"
  shows "runs junk cb p [CHR 0x27] (st_val s0 s1 [] as d)"
proof -
  let ?p = "p\<lparr>g1 := CHR 0x27, cr1 := X_PP_KV_LAV, stack := [Ctx_attr]\<rparr>"
  have push: "x_parser_push (p\<lparr>g1 := CHR 0x27, cr1 := X_PP_KV_LAV\<rparr>) Ctx_attr = Some ?p"
    using assms by (simp add: x_parser_push_def X_INI_STACK_SIZE_def st_def)
  have "reg (r2 ?p) s2" using assms by (simp add: st_def)
  then obtain y where "clear_r2 junk ?p = Some (?p\<lparr>r2 := y\<rparr>)" "reg y []" using regs(3) by blast
  then show ?thesis using assms push by (simp add: pp_defs x_parser_ctx_attr_def)
qed

lemma run_val:
  assumes "c \<noteq> CHR 0x27" "st_val s0 s1 s2 as d p" "length s2 < reg_max"
  shows "runs junk cb p [c] (st_val s0 s1 (s2 @ [c]) as d)"
proof -
  obtain y where "putc_r2 junk c p = Some (p\<lparr>r2 := y\<rparr>)" "reg y (s2 @ [c])"
    using regs(6) [of p s2 junk c] assms by (auto simp: st_val_def)
  then show ?thesis using assms by (auto simp: pp_defs x_parser_ctx_idle_def)
qed

lemma run_end_quote:
  "st_val s0 s1 s2 as d p \<Longrightarrow> runs junk cb p [CHR 0x27] (st Ctx_attr X_PP_KV_LAV s0 s1 s2 as d)"
  by (simp add: pp_defs x_parser_ctx_idle_def x_parser_pop_def)

definition readable :: "string \<Rightarrow> bool" where
  "readable s \<longleftrightarrow> s \<noteq> [] \<and> NUL \<notin> set s"

lemma set_pair_st:
  "st Ctx_attr ph s0 k v as d p \<Longrightarrow> readable k \<Longrightarrow> readable v \<Longrightarrow> set_pair p = Some (p\<lparr>attrs := snd (setattr True k (Some v) as)\<rparr>)"
  using reg_read [of "r1 p" k] reg_read [of "r2 p" v] by (simp add: set_pair_def st_def readable_def)

lemma run_lav_ws:
  assumes "st Ctx_attr X_PP_KV_LAV s0 k v as d p" "readable k" "readable v"
  shows "runs junk cb p '' '' (st Ctx_attr X_PP_INI s0 [] [] (snd (setattr True k (Some v) as)) d)"
proof -
  let ?p = "p\<lparr>attrs := snd (setattr True k (Some v) as)\<rparr>"
  have r: "reg (r1 ?p) k" "reg (r2 ?p) v" using assms by (simp_all add: st_def)
  obtain x where x: "clear_r1 junk ?p = Some (?p\<lparr>r1 := x\<rparr>)" "reg x []" using regs(2) [OF r(1)] by blast
  have "reg (r2 (?p\<lparr>r1 := x\<rparr>)) v" using r by simp
  then obtain y where "clear_r2 junk (?p\<lparr>r1 := x\<rparr>) = Some (?p\<lparr>r1 := x, r2 := y\<rparr>)" "reg y []"
    using regs(3) [of "?p\<lparr>r1 := x\<rparr>" v junk] by auto
  then show ?thesis using x assms set_pair_st [OF assms] by (simp add: pp_defs x_parser_ctx_attr_def)
qed

text \<open>Leaving the attributes hands the character to the tag context.\<close>

lemma run_lav_punct:
  assumes s: "st Ctx_attr X_PP_KV_LAV s0 k v as d p" "readable k" "readable v" and c: "c = CHR ''>'' \<or> c = CHR ''/''"
    and go: "\<And>p'. st Ctx_tag X_PP_OBJ_OPENING s0 [] [] (snd (setattr True k (Some v) as)) d p' \<Longrightarrow> runs junk cb p' [c] Q"
  shows "runs junk cb p [c] Q"
proof -
  let ?p = "p\<lparr>attrs := snd (setattr True k (Some v) as)\<rparr>"
  have r: "reg (r1 ?p) k" "reg (r2 ?p) v" using s by (simp_all add: st_def)
  obtain x where x: "clear_r1 junk ?p = Some (?p\<lparr>r1 := x\<rparr>)" "reg x []" using regs(2) [OF r(1)] by blast
  have "reg (r2 (?p\<lparr>r1 := x\<rparr>)) v" using r by simp
  then obtain y where y: "clear_r2 junk (?p\<lparr>r1 := x\<rparr>) = Some (?p\<lparr>r1 := x, r2 := y\<rparr>)" "reg y []"
    using regs(3) [of "?p\<lparr>r1 := x\<rparr>" v junk] by auto
  let ?q = "?p\<lparr>r1 := x, r2 := y, cr1 := X_PP_OBJ_OPENING, r_putc := Ctx_tag\<rparr>"
  have "st Ctx_tag X_PP_OBJ_OPENING s0 [] [] (snd (setattr True k (Some v) as)) d ?q"
    using s x y by (simp add: st_def)
  from go [OF this] obtain t p' where q: "x_parser_ctx_tag junk cb ?q c = Some (t, p')" "Q p'"
    by (auto simp: runs_Cons pp_putc_def)
  have "ret_to_tag junk cb ?p c = Some (0, p')"
    using x y q(1) by (simp add: ret_to_tag_def x_parser_set_context_def)
  then have "x_parser_ctx_attr junk cb p c = Some (0, p')"
    using s c set_pair_st [OF s(1-3)] by (auto simp: x_parser_ctx_attr_def st_def)
  moreover have "r_putc p = Ctx_attr" using s(1) by (simp add: st_def)
  ultimately show ?thesis using q(2) by (simp add: runs_Cons pp_putc_def)
qed

lemma clear_all:
  assumes "reg (r0 p) a" "reg (r1 p) b" "reg (r2 p) c"
  shows "\<exists>x y z. clear_r0 junk p = Some (p\<lparr>r0 := x\<rparr>)
    \<and> clear_vals junk (p\<lparr>r0 := x\<rparr>) = Some (p\<lparr>r0 := x, r1 := y, r2 := z, g1 := NUL, g2 := False\<rparr>)
    \<and> reg x [] \<and> reg y [] \<and> reg z []"
proof -
  obtain x where x: "clear_r0 junk p = Some (p\<lparr>r0 := x\<rparr>)" "reg x []" using regs(1) [OF assms(1)] by blast
  have "reg (r1 (p\<lparr>r0 := x\<rparr>)) b" "reg (r2 (p\<lparr>r0 := x\<rparr>)) c" using assms by simp_all
  from clear_vals_reg [OF this, of junk] x show ?thesis by auto
qed

lemma run_open_gt:
  assumes s: "st Ctx_tag X_PP_OBJ_OPENING s0 s1 s2 as d p" "readable s0" and d: "play_ev cb (EOpen s0 as) d = Some d'"
  shows "runs junk cb p ''>'' (st Ctx_txt X_PP_INI [] [] [] as d')"
proof -
  let ?p = "p\<lparr>cbdata := d'\<rparr>"
  have "xs_read (r0 p) = Some s0" using s reg_read by (simp add: st_def readable_def)
  then have o1: "call_open cb p = Some ?p"
    using s(1) d by (cases p) (auto simp: call_open_def st_def bind_eq_Some_conv split: option.splits if_splits)
  have "reg (r0 ?p) s0" "reg (r1 ?p) s1" "reg (r2 ?p) s2" using s by (simp_all add: st_def)
  from clear_all [OF this, of junk]
  obtain x y z where "clear_r0 junk ?p = Some (?p\<lparr>r0 := x\<rparr>)"
    "clear_vals junk (?p\<lparr>r0 := x\<rparr>) = Some (?p\<lparr>r0 := x, r1 := y, r2 := z, g1 := NUL, g2 := False\<rparr>)" "reg x []" "reg y []" "reg z []"
    by blast
  then show ?thesis using s(1) o1
    by (simp add: pp_defs x_parser_ctx_tag_def tag_opening_def)
qed

lemma run_open_slash:
  assumes s: "st Ctx_tag X_PP_OBJ_OPENING s0 s1 s2 as d p" "readable s0" and d: "play_ev cb (EOpen s0 as) d = Some d'"
  shows "runs junk cb p ''/'' (st Ctx_tag X_PP_OBJ_CLOSING s0 [] [] as d')"
proof -
  let ?p = "p\<lparr>cbdata := d'\<rparr>"
  have "xs_read (r0 p) = Some s0" using s reg_read by (simp add: st_def readable_def)
  then have o1: "call_open cb p = Some ?p"
    using s(1) d by (cases p) (auto simp: call_open_def st_def bind_eq_Some_conv split: option.splits if_splits)
  have "reg (r1 ?p) s1" "reg (r2 ?p) s2" using s by (simp_all add: st_def)
  from clear_vals_reg [OF this, of junk]
  obtain y z where "clear_vals junk ?p = Some (?p\<lparr>r1 := y, r2 := z, g1 := NUL, g2 := False\<rparr>)" "reg y []" "reg z []" by blast
  then show ?thesis using s(1) o1
    by (simp add: pp_defs x_parser_ctx_tag_def tag_opening_def)
qed

lemma run_ini_slash:
  assumes s: "st Ctx_tag X_PP_INI s0 s1 s2 as d p"
  shows "runs junk cb p ''/'' (st Ctx_tag X_PP_OBJ_CLOSING s0 [] [] as d)"
proof -
  have "reg (r1 p) s1" "reg (r2 p) s2" using s by (simp_all add: st_def)
  from clear_vals_reg [OF this, of junk]
  obtain y z where "clear_vals junk p = Some (p\<lparr>r1 := y, r2 := z, g1 := NUL, g2 := False\<rparr>)" "reg y []" "reg z []" by blast
  then show ?thesis using s by (simp add: pp_defs x_parser_ctx_tag_def tag_ini_def)
qed

lemma run_close_gt:
  assumes s: "st Ctx_tag X_PP_OBJ_CLOSING s0 s1 s2 as d p" "readable s0" and d: "play_ev cb (EClose s0) d = Some d'"
  shows "runs junk cb p ''>'' (st Ctx_txt X_PP_INI [] [] [] as d')"
proof -
  let ?p = "p\<lparr>cbdata := d', cr1 := X_PP_INI\<rparr>"
  have "xs_read (r0 p) = Some s0" using s reg_read by (simp add: st_def readable_def)
  then have o1: "call_close cb p = Some (p\<lparr>cbdata := d'\<rparr>)"
    using s(1) d by (cases p) (auto simp: call_close_def st_def split: option.splits)
  have "reg (r0 ?p) s0" "reg (r1 ?p) s1" "reg (r2 ?p) s2" using s by (simp_all add: st_def)
  from clear_all [OF this, of junk]
  obtain x y z where "clear_r0 junk ?p = Some (?p\<lparr>r0 := x\<rparr>)"
    "clear_vals junk (?p\<lparr>r0 := x\<rparr>) = Some (?p\<lparr>r0 := x, r1 := y, r2 := z, g1 := NUL, g2 := False\<rparr>)" "reg x []" "reg y []" "reg z []"
    by blast
  then show ?thesis using s(1) o1
    by (simp add: pp_defs x_parser_ctx_tag_def tag_closing_def)
qed

end
