(* ===== verification/Xw_Parser_Claims.thy ===== *)
theory Xw_Parser_Claims
  imports Xw_Parser_Proofs
begin

text \<open>
  Element trees as text: what the serializer writes for an object tree, what the parser
  reports for such a text, and both together.
\<close>

section \<open>Element trees\<close>

datatype xml = Elem string attr_list string "xml list"

definition att_str :: "string \<times> string \<Rightarrow> string" where
  "att_str kv = '' '' @ fst kv @ ''='' @ [CHR 0x27] @ snd kv @ [CHR 0x27]"

text \<open>The text of an element: the content stands behind the children.\<close>

fun xml_str :: "xml \<Rightarrow> string" and xmls_str :: "xml list \<Rightarrow> string" where
  "xml_str (Elem n as c ks) = ''<'' @ n @ concat (map att_str as) @
     (if ks = [] \<and> c = [] then ''/>'' else ''>'' @ xmls_str ks @ c @ ''</'' @ n @ ''>'')"
| "xmls_str [] = []"
| "xmls_str (t # ts) = xml_str t @ xmls_str ts"

text \<open>The list of attributes that a text leads to.\<close>

definition put_attrs :: "attr_list \<Rightarrow> attr_list \<Rightarrow> attr_list" where
  "put_attrs acc as = foldl (\<lambda>h (k, v). snd (setattr True k (Some v) h)) acc as"

lemma put_attrs_simps [simp]:
  "put_attrs acc [] = acc" "put_attrs acc (kv # as) = put_attrs (snd (setattr True (fst kv) (Some (snd kv)) acc)) as"
  by (simp_all add: put_attrs_def split: prod.splits)

text \<open>
  The reports of the parser. The list of attributes is a register of the parser: an element
  without attributes reports the ones of the element opened before it, \<open>carry\<close>.
\<close>

fun xml_ev :: "attr_list \<Rightarrow> xml \<Rightarrow> xev list \<times> attr_list" and xmls_ev :: "attr_list \<Rightarrow> xml list \<Rightarrow> xev list \<times> attr_list" where
  "xml_ev carry (Elem n as c ks) =
     (let as' = (if as = [] then carry else put_attrs [] as); (es, carry') = xmls_ev as' ks
      in ([EOpen n as'] @ es @ map EChar c @ [EClose n], carry'))"
| "xmls_ev carry [] = ([], carry)"
| "xmls_ev carry (t # ts) = (let (e1, c1) = xml_ev carry t; (e2, c2) = xmls_ev c1 ts in (e1 @ e2, c2))"

definition good_name :: "(char \<Rightarrow> bool) \<Rightarrow> string \<Rightarrow> bool" where
  "good_name P n \<longleftrightarrow> n \<noteq> [] \<and> name_start (hd n) \<and> list_all P (tl n) \<and> length n < reg_max"

definition good_attr :: "string \<times> string \<Rightarrow> bool" where
  "good_attr kv \<longleftrightarrow> good_name key_char (fst kv) \<and> readable (snd kv) \<and> CHR 0x27 \<notin> set (snd kv) \<and> length (snd kv) < reg_max"

fun xml_ok :: "xml \<Rightarrow> bool" and xmls_ok :: "xml list \<Rightarrow> bool" where
  "xml_ok (Elem n as c ks) \<longleftrightarrow> good_name name_char n \<and> list_all good_attr as \<and> CHR ''<'' \<notin> set c \<and> xmls_ok ks"
| "xmls_ok [] \<longleftrightarrow> True"
| "xmls_ok (t # ts) \<longleftrightarrow> xml_ok t \<and> xmls_ok ts"

lemma good_name_readable: "good_name P n \<Longrightarrow> (\<And>c. P c \<Longrightarrow> name_char c) \<Longrightarrow> readable n"
  using name_char_not name_start_char(1) by (cases n) (fastforce simp: good_name_def readable_def list_all_iff)+

section \<open>Strings of characters\<close>

lemma run_tag_names:
  "list_all name_char cs \<Longrightarrow> ph = X_PP_OBJ_OPENING \<or> ph = X_PP_OBJ_CLOSING \<Longrightarrow> st Ctx_tag ph s0 s1 s2 as d p \<Longrightarrow>
     length s0 + length cs \<le> reg_max \<Longrightarrow> runs junk cb p cs (st Ctx_tag ph (s0 @ cs) s1 s2 as d)"
proof (induction cs arbitrary: s0 p)
  case (Cons c cs)
  show ?case
  proof (rule runs_step)
    show "runs junk cb p [c] (st Ctx_tag ph (s0 @ [c]) s1 s2 as d)" by (rule run_tag_name) (use Cons.prems in simp_all)
    show "runs junk cb p1 cs (st Ctx_tag ph (s0 @ c # cs) s1 s2 as d)" if "st Ctx_tag ph (s0 @ [c]) s1 s2 as d p1" for p1
      using Cons.IH [OF _ _ that] Cons.prems by simp
  qed
qed simp

lemma run_keys:
  "list_all key_char cs \<Longrightarrow> st Ctx_attr X_PP_KV_KEY s0 s1 s2 as d p \<Longrightarrow> length s1 + length cs \<le> reg_max \<Longrightarrow>
     runs junk cb p cs (st Ctx_attr X_PP_KV_KEY s0 (s1 @ cs) s2 as d)"
proof (induction cs arbitrary: s1 p)
  case (Cons c cs)
  show ?case
  proof (rule runs_step)
    show "runs junk cb p [c] (st Ctx_attr X_PP_KV_KEY s0 (s1 @ [c]) s2 as d)" by (rule run_key) (use Cons.prems in simp_all)
    show "runs junk cb p1 cs (st Ctx_attr X_PP_KV_KEY s0 (s1 @ c # cs) s2 as d)"
      if "st Ctx_attr X_PP_KV_KEY s0 (s1 @ [c]) s2 as d p1" for p1
      using Cons.IH [OF _ that] Cons.prems by simp
  qed
qed simp

lemma run_vals:
  "CHR 0x27 \<notin> set cs \<Longrightarrow> st_val s0 s1 s2 as d p \<Longrightarrow> length s2 + length cs \<le> reg_max \<Longrightarrow>
     runs junk cb p cs (st_val s0 s1 (s2 @ cs) as d)"
proof (induction cs arbitrary: s2 p)
  case (Cons c cs)
  show ?case
  proof (rule runs_step)
    show "runs junk cb p [c] (st_val s0 s1 (s2 @ [c]) as d)" by (rule run_val) (use Cons.prems in auto)
    show "runs junk cb p1 cs (st_val s0 s1 (s2 @ c # cs) as d)" if "st_val s0 s1 (s2 @ [c]) as d p1" for p1
      using Cons.IH [OF _ that] Cons.prems by simp
  qed
qed simp

lemma run_text:
  "CHR ''<'' \<notin> set cs \<Longrightarrow> st Ctx_txt X_PP_INI s0 s1 s2 as d p \<Longrightarrow> play_evs cb (map EChar cs) d = Some d' \<Longrightarrow>
     runs junk cb p cs (st Ctx_txt X_PP_INI s0 s1 s2 as d')"
proof (induction cs arbitrary: d p)
  case (Cons c cs)
  from Cons.prems(3) obtain d1 where d1: "play_ev cb (EChar c) d = Some d1" "play_evs cb (map EChar cs) d1 = Some d'"
    by (auto simp: bind_eq_Some_conv)
  show ?case
  proof (rule runs_step)
    show "runs junk cb p [c] (st Ctx_txt X_PP_INI s0 s1 s2 as d1)" by (rule run_txt_char) (use Cons.prems d1 in auto)
    show "runs junk cb p1 cs (st Ctx_txt X_PP_INI s0 s1 s2 as d')" if "st Ctx_txt X_PP_INI s0 s1 s2 as d1 p1" for p1
      using Cons.IH [OF _ that d1(2)] Cons.prems by simp
  qed
qed simp

section \<open>Tags\<close>

lemma run_open_name:
  assumes "good_name name_char n" "st Ctx_txt X_PP_INI s0 s1 s2 as d p"
  shows "runs junk cb p (''<'' @ n) (st Ctx_tag X_PP_OBJ_OPENING n s1 s2 as d)"
proof (rule runs_seq [OF run_txt_lt [OF assms(2)]])
  fix p1 assume p1: "st Ctx_tag X_PP_INI s0 s1 s2 as d p1"
  obtain c cs where n: "n = c # cs" "name_start c" "list_all name_char cs" "length n < reg_max"
    using assms(1) by (cases n) (auto simp: good_name_def)
  show "runs junk cb p1 n (st Ctx_tag X_PP_OBJ_OPENING n s1 s2 as d)" unfolding n(1)
  proof (rule runs_step [OF run_tag_start [OF n(2) p1]])
    fix p2 assume "st Ctx_tag X_PP_OBJ_OPENING [c] s1 s2 as d p2"
    from run_tag_names [OF n(3) _ this] n(1,4) show "runs junk cb p2 cs (st Ctx_tag X_PP_OBJ_OPENING (c # cs) s1 s2 as d)" by simp
  qed
qed

lemma run_attr:
  assumes "good_attr kv" "ph = X_PP_OBJ_OPENING \<or> ph = X_PP_INI" "st Ctx_attr ph s0 [] s2 as d p"
  shows "runs junk cb p (fst kv @ ''='' @ [CHR 0x27] @ snd kv @ [CHR 0x27]) (st Ctx_attr X_PP_KV_LAV s0 (fst kv) (snd kv) as d)"
proof -
  obtain c cs where k: "fst kv = c # cs" "name_start c" "list_all key_char cs" "length (fst kv) < reg_max"
    using assms(1) by (cases "fst kv") (auto simp: good_attr_def good_name_def)
  have v: "CHR 0x27 \<notin> set (snd kv)" "length (snd kv) < reg_max" using assms(1) by (simp_all add: good_attr_def)
  have "runs junk cb p (fst kv) (st Ctx_attr X_PP_KV_KEY s0 (fst kv) s2 as d)" unfolding k(1)
  proof (rule runs_step [OF run_key_start [OF k(2) assms(2,3)]])
    fix p1 assume "st Ctx_attr X_PP_KV_KEY s0 [c] s2 as d p1"
    from run_keys [OF k(3) this] k(1,4) show "runs junk cb p1 cs (st Ctx_attr X_PP_KV_KEY s0 (c # cs) s2 as d)" by simp
  qed
  then show ?thesis
  proof (rule runs_seq)
    fix p1 assume "st Ctx_attr X_PP_KV_KEY s0 (fst kv) s2 as d p1"
    from run_eq [OF this] show "runs junk cb p1 (''='' @ [CHR 0x27] @ snd kv @ [CHR 0x27]) (st Ctx_attr X_PP_KV_LAV s0 (fst kv) (snd kv) as d)"
    proof (rule runs_seq)
      fix p2 assume "st Ctx_attr X_PP_KV_VAL s0 (fst kv) s2 as d p2"
      from run_quote [OF this] show "runs junk cb p2 ([CHR 0x27] @ snd kv @ [CHR 0x27]) (st Ctx_attr X_PP_KV_LAV s0 (fst kv) (snd kv) as d)"
      proof (rule runs_seq)
        fix p3 assume "st_val s0 (fst kv) [] as d p3"
        then have "runs junk cb p3 (snd kv) (st_val s0 (fst kv) ([] @ snd kv) as d)" using v by (intro run_vals) simp_all
        then show "runs junk cb p3 (snd kv @ [CHR 0x27]) (st Ctx_attr X_PP_KV_LAV s0 (fst kv) (snd kv) as d)"
          by (rule runs_seq) (simp add: run_end_quote)
      qed
    qed
  qed
qed

lemma good_attr_readable: "good_attr kv \<Longrightarrow> readable (fst kv) \<and> readable (snd kv)"
  using good_name_readable [of key_char] name_start_char(3) by (auto simp: good_attr_def)

lemma run_attrs:
  "list_all good_attr as \<Longrightarrow> st Ctx_attr X_PP_KV_LAV s0 k v acc d p \<Longrightarrow> readable k \<Longrightarrow> readable v \<Longrightarrow>
     runs junk cb p (concat (map att_str as))
       (\<lambda>p1. \<exists>k' v' acc'. st Ctx_attr X_PP_KV_LAV s0 k' v' acc' d p1 \<and> readable k' \<and> readable v'
          \<and> snd (setattr True k' (Some v') acc') = put_attrs (snd (setattr True k (Some v) acc)) as)"
proof (induction as arbitrary: k v acc p)
  case Nil
  then show ?case by auto
next
  case (Cons kv as)
  let ?acc = "snd (setattr True k (Some v) acc)"
  have str: "concat (map att_str (kv # as)) = '' '' @ (fst kv @ ''='' @ [CHR 0x27] @ snd kv @ [CHR 0x27]) @ concat (map att_str as)"
    by (simp add: att_str_def)
  show ?case unfolding str
  proof (rule runs_seq [OF run_lav_ws [OF Cons.prems(2-4)]], rule runs_seq [OF run_attr])
    fix p1 p2
    show "good_attr kv" using Cons.prems(1) by simp
    show "X_PP_INI = X_PP_OBJ_OPENING \<or> X_PP_INI = X_PP_INI" by simp
    assume "st Ctx_attr X_PP_INI s0 [] [] ?acc d p1"
    then show "st Ctx_attr X_PP_INI s0 [] [] ?acc d p1" .
  next
    fix p1 p2 assume p2: "st Ctx_attr X_PP_KV_LAV s0 (fst kv) (snd kv) ?acc d p2"
    have "readable (fst kv)" "readable (snd kv)" using good_attr_readable Cons.prems(1) by simp_all
    from Cons.IH [OF _ p2 this] Cons.prems(1)
    show "runs junk cb p2 (concat (map att_str as)) (\<lambda>p1. \<exists>k' v' acc'. st Ctx_attr X_PP_KV_LAV s0 k' v' acc' d p1 \<and> readable k' \<and> readable v'
          \<and> snd (setattr True k' (Some v') acc') = put_attrs ?acc (kv # as))"
      by simp
  qed
qed

text \<open>The attributes and the character that ends the tag.\<close>

lemma run_tag_end:
  assumes as: "list_all good_attr as" and s: "st Ctx_tag X_PP_OBJ_OPENING n s1 s2 carry d p" and c: "c = CHR ''>'' \<or> c = CHR ''/''"
    and go: "\<And>s1 s2 p'. st Ctx_tag X_PP_OBJ_OPENING n s1 s2 (if as = [] then carry else put_attrs [] as) d p' \<Longrightarrow> runs junk cb p' [c] Q"
  shows "runs junk cb p (concat (map att_str as) @ [c]) Q"
proof (cases as)
  case Nil
  then show ?thesis using go s by simp
next
  case (Cons kv rest)
  have str: "concat (map att_str as) @ [c] = '' '' @ (fst kv @ ''='' @ [CHR 0x27] @ snd kv @ [CHR 0x27]) @ concat (map att_str rest) @ [c]"
    by (simp add: Cons att_str_def)
  have kv: "good_attr kv" "readable (fst kv)" "readable (snd kv)" "list_all good_attr rest"
    using as Cons good_attr_readable by simp_all
  have put: "put_attrs (snd (setattr True (fst kv) (Some (snd kv)) [])) rest = put_attrs [] as"
    by (simp add: Cons)
  show ?thesis unfolding str
  proof (rule runs_seq [OF run_tag_ws [OF s]], rule runs_seq [OF run_attr [OF kv(1)]])
    fix p1 assume "st Ctx_attr X_PP_OBJ_OPENING n [] [] [] d p1"
    then show "st Ctx_attr X_PP_OBJ_OPENING n [] [] [] d p1" .
  next
    fix p2 assume p2: "st Ctx_attr X_PP_KV_LAV n (fst kv) (snd kv) [] d p2"
    show "runs junk cb p2 (concat (map att_str rest) @ [c]) Q"
    proof (rule runs_seq [OF run_attrs [OF kv(4) p2 kv(2,3)]], elim exE conjE)
      fix p3 k v acc assume p3: "st Ctx_attr X_PP_KV_LAV n k v acc d p3" "readable k" "readable v"
        and acc: "snd (setattr True k (Some v) acc) = put_attrs (snd (setattr True (fst kv) (Some (snd kv)) [])) rest"
      have end_as: "snd (setattr True k (Some v) acc) = (if as = [] then carry else put_attrs [] as)"
        unfolding acc put by (simp add: Cons)
      show "runs junk cb p3 [c] Q"
        by (rule run_lav_punct [OF p3 c], rule go) (simp only: end_as)
    qed
  qed simp
qed

lemma run_close_tag:
  assumes "good_name name_char n" "st Ctx_txt X_PP_INI [] s1 s2 as d p" "play_ev cb (EClose n) d = Some d'"
  shows "runs junk cb p (''</'' @ n @ ''>'') (st Ctx_txt X_PP_INI [] [] [] as d')"
proof -
  have n: "list_all name_char n" "length n < reg_max"
    using assms(1) name_start_char(1) by (cases n; simp add: good_name_def)+
  have "runs junk cb p (''<'' @ ''/'' @ n @ ''>'') (st Ctx_txt X_PP_INI [] [] [] as d')"
  proof (rule runs_seq [OF run_txt_lt [OF assms(2)]], rule runs_seq [OF run_ini_slash], assumption)
    fix p2 assume p2: "st Ctx_tag X_PP_OBJ_CLOSING [] [] [] as d p2"
    have "runs junk cb p2 n (st Ctx_tag X_PP_OBJ_CLOSING ([] @ n) [] [] as d)"
      by (rule run_tag_names [OF _ _ p2]) (use n in simp_all)
    then show "runs junk cb p2 (n @ ''>'') (st Ctx_txt X_PP_INI [] [] [] as d')"
    proof (rule runs_seq)
      fix p3 assume "st Ctx_tag X_PP_OBJ_CLOSING ([] @ n) [] [] as d p3"
      then show "runs junk cb p3 ''>'' (st Ctx_txt X_PP_INI [] [] [] as d')"
        using good_name_readable [OF assms(1)] assms(3) by (simp add: run_close_gt)
    qed
  qed
  then show ?thesis by simp
qed

section \<open>Elements\<close>

text \<open>
  The text of a tree, with callbacks that accept its reports one after the other.
\<close>

lemma run_xml:
  "xml_ok t \<Longrightarrow> st Ctx_txt X_PP_INI s0 s1 s2 carry d p \<Longrightarrow> play_evs cb (fst (xml_ev carry t)) d = Some d' \<Longrightarrow>
     runs junk cb p (xml_str t) (st Ctx_txt X_PP_INI [] [] [] (snd (xml_ev carry t)) d')"
  "xmls_ok ts \<Longrightarrow> st Ctx_txt X_PP_INI [] [] [] carry d p \<Longrightarrow> play_evs cb (fst (xmls_ev carry ts)) d = Some d' \<Longrightarrow>
     runs junk cb p (xmls_str ts) (st Ctx_txt X_PP_INI [] [] [] (snd (xmls_ev carry ts)) d')"
proof (induction t and ts arbitrary: s0 s1 s2 carry d p d' and carry d p d' rule: xml_str_xmls_str.induct)
  case (1 n as c ks)
  let ?as = "if as = [] then carry else put_attrs [] as"
  have n: "good_name name_char n" "readable n" and as: "list_all good_attr as" and c: "CHR ''<'' \<notin> set c" and ks: "xmls_ok ks"
    using 1 good_name_readable [of name_char n] by auto
  have run_name: "runs junk cb p (''<'' @ n) (st Ctx_tag X_PP_OBJ_OPENING n s1 s2 carry d)"
    by (rule run_open_name [OF n(1) 1(3)])
  obtain es carry' where ev: "xmls_ev ?as ks = (es, carry')" by fastforce
  have "play_evs cb (EOpen n ?as # (es @ map EChar c @ [EClose n])) d = Some d'" using 1(4) ev by (simp add: Let_def)
  then obtain d1 d2 d3 where d: "play_ev cb (EOpen n ?as) d = Some d1" "play_evs cb es d1 = Some d2"
    "play_evs cb (map EChar c) d2 = Some d3" "play_ev cb (EClose n) d3 = Some d'"
    by (auto simp: play_evs_append bind_eq_Some_conv)
  show ?case
  proof (cases "ks = [] \<and> c = []")
    case True
    then have "d3 = d1" using d(2,3) ev by auto
    with d(4) have d4: "play_ev cb (EClose n) d1 = Some d'" by (simp only:)
    have "runs junk cb p ((''<'' @ n) @ (concat (map att_str as) @ ''/'') @ ''>'') (st Ctx_txt X_PP_INI [] [] [] ?as d')"
    proof (rule runs_seq [OF run_name], rule runs_seq)
      fix p1 assume p1: "st Ctx_tag X_PP_OBJ_OPENING n s1 s2 carry d p1"
      show "runs junk cb p1 (concat (map att_str as) @ ''/'') (st Ctx_tag X_PP_OBJ_CLOSING n [] [] ?as d1)"
        by (rule run_tag_end [OF as p1], simp) (erule run_open_slash, rule n(2), rule d(1))
      fix p2 assume "st Ctx_tag X_PP_OBJ_CLOSING n [] [] ?as d1 p2"
      then show "runs junk cb p2 ''>'' (st Ctx_txt X_PP_INI [] [] [] ?as d')"
        by (rule run_close_gt [OF _ n(2) d4])
    qed
    then show ?thesis using True by (simp add: Let_def)
  next
    case False
    have "runs junk cb p ((''<'' @ n) @ (concat (map att_str as) @ ''>'') @ xmls_str ks @ c @ (''</'' @ n @ ''>''))
        (st Ctx_txt X_PP_INI [] [] [] carry' d')"
    proof (rule runs_seq [OF run_name], rule runs_seq)
      fix p1 assume p1: "st Ctx_tag X_PP_OBJ_OPENING n s1 s2 carry d p1"
      show "runs junk cb p1 (concat (map att_str as) @ ''>'') (st Ctx_txt X_PP_INI [] [] [] ?as d1)"
        by (rule run_tag_end [OF as p1], simp) (erule run_open_gt, rule n(2), rule d(1))
      fix p2 assume "st Ctx_txt X_PP_INI [] [] [] ?as d1 p2"
      from 1(1) [OF False ks this] ev d(2)
      have "runs junk cb p2 (xmls_str ks) (st Ctx_txt X_PP_INI [] [] [] carry' d2)" by simp
      then show "runs junk cb p2 (xmls_str ks @ c @ (''</'' @ n @ ''>'')) (st Ctx_txt X_PP_INI [] [] [] carry' d')"
      proof (rule runs_seq, intro runs_seq [OF run_text [OF c _ d(3)]])
        fix p3 assume "st Ctx_txt X_PP_INI [] [] [] carry' d2 p3"
        then show "st Ctx_txt X_PP_INI [] [] [] carry' d2 p3" .
      next
        fix p4 assume "st Ctx_txt X_PP_INI [] [] [] carry' d3 p4"
        then show "runs junk cb p4 (''</'' @ n @ ''>'') (st Ctx_txt X_PP_INI [] [] [] carry' d')"
          by (rule run_close_tag [OF n(1) _ d(4)])
      qed
    qed
    then show ?thesis using False ev by (auto simp: Let_def)
  qed
next
  case 2
  then show ?case by simp
next
  case (3 t ts)
  obtain e1 c1 where e1: "xml_ev carry t = (e1, c1)" by fastforce
  obtain e2 c2 where e2: "xmls_ev c1 ts = (e2, c2)" by fastforce
  have "play_evs cb (e1 @ e2) d = Some d'" using 3(5) e1 e2 by simp
  then obtain d1 where d1: "play_evs cb e1 d = Some d1" "play_evs cb e2 d1 = Some d'" by (rule play_evs_appendE)
  have "runs junk cb p (xml_str t @ xmls_str ts) (st Ctx_txt X_PP_INI [] [] [] c2 d')"
  proof (rule runs_seq)
    show "runs junk cb p (xml_str t) (st Ctx_txt X_PP_INI [] [] [] c1 d1)"
      using 3(1) [OF _ 3(4), of d1] 3(3) e1 d1 by simp
    fix p1 assume "st Ctx_txt X_PP_INI [] [] [] c1 d1 p1"
    then show "runs junk cb p1 (xmls_str ts) (st Ctx_txt X_PP_INI [] [] [] c2 d')"
      using 3(2) [of c1 d1 p1 d'] 3(3) e2 d1 by simp
  qed
  then show ?case using e1 e2 by simp
qed

end
