(* ===== verification/Xw_Serialize.thy ===== *)
theory Xw_Serialize
  imports Xw_Parser_Claims
begin

text \<open>
  The serializer on object trees, and the way back through the parser.
\<close>

section \<open>Object trees that represent elements\<close>

text \<open>
  \<open>xml_at h p x t\<close>: the object \<open>x\<close> with its subtree represents \<open>t\<close>, and \<open>p\<close> is not among the
  objects below \<open>x\<close>. \<open>xmls_at h p par q ts\<close>: so do the objects from \<open>q\<close> on along the siblings,
  all of them children of \<open>par\<close> and none of them \<open>p\<close>.
\<close>

definition obj_is :: "xobject \<Rightarrow> string \<Rightarrow> attr_list \<Rightarrow> string \<Rightarrow> bool" where
  "obj_is ob n as c \<longleftrightarrow> o_name ob = Some n \<and> o_attrs ob = as \<and> xs_ok (o_content ob) \<and> xs_str (o_content ob) = c"

fun xml_at :: "heap \<Rightarrow> addr \<Rightarrow> addr \<Rightarrow> xml \<Rightarrow> bool" and xmls_at :: "heap \<Rightarrow> addr \<Rightarrow> addr \<Rightarrow> ptr \<Rightarrow> xml list \<Rightarrow> bool" where
  "xml_at h p x (Elem n as c ks) \<longleftrightarrow>
     (case objs h x of None \<Rightarrow> False | Some ob \<Rightarrow> obj_is ob n as c \<and> xmls_at h p x (o_sons ob) ks)"
| "xmls_at h p par q [] \<longleftrightarrow> q = None"
| "xmls_at h p par q (t # ts) \<longleftrightarrow>
     (case q of None \<Rightarrow> False
      | Some a \<Rightarrow> (case objs h a of None \<Rightarrow> False
          | Some ob \<Rightarrow> a \<noteq> p \<and> o_parent ob = Some par \<and> xml_at h p a t \<and> xmls_at h p par (o_sibling ob) ts))"

text \<open>The pieces in which the text is handed to the callback.\<close>

fun att_pieces :: "attr_list \<Rightarrow> string list" where
  "att_pieces [] = []"
| "att_pieces ((k, v) # as) = ['' '', k, [CHR ''='', CHR 0x27], v, [CHR 0x27]] @ att_pieces as"

definition end_pieces :: "string \<Rightarrow> string \<Rightarrow> string list" where
  "end_pieces n c = (if c = [] then [] else [c]) @ [''</'', n, ''>'']"

fun xml_pieces :: "xml \<Rightarrow> string list" and xmls_pieces :: "xml list \<Rightarrow> string list" where
  "xml_pieces (Elem n as c ks) = [''<'', n] @ att_pieces as @
     (if ks = [] \<and> c = [] then [''/>''] else [''>''] @ xmls_pieces ks @ end_pieces n c)"
| "xmls_pieces [] = []"
| "xmls_pieces (t # ts) = xml_pieces t @ xmls_pieces ts"

lemma concat_att_pieces: "concat (att_pieces as) = concat (map att_str as)"
  by (induction as rule: att_pieces.induct) (simp_all add: att_str_def)

lemma concat_pieces: "concat (xml_pieces t) = xml_str t" "concat (xmls_pieces ts) = xmls_str ts"
  by (induction t and ts rule: xml_str_xmls_str.induct) (auto simp: concat_att_pieces end_pieces_def)

fun puts :: "(string \<Rightarrow> 'o \<Rightarrow> 'o option) \<Rightarrow> string list \<Rightarrow> 'o \<Rightarrow> 'o option" where
  "puts cbf [] out = Some out"
| "puts cbf (s # ss) out = do { o1 \<leftarrow> cbf s out; puts cbf ss o1 }"

lemma puts_append: "puts cbf (ss @ ts) out = do { o1 \<leftarrow> puts cbf ss out; puts cbf ts o1 }"
proof (induction ss arbitrary: out)
  case (Cons s ss)
  then show ?case by (cases "cbf s out") simp_all
qed simp

lemma ser_attrs_puts: "ser_attrs cbf as out = puts cbf (att_pieces as) out"
proof (induction as arbitrary: out)
  case (Cons kv as)
  then have "ser_attrs cbf as = puts cbf (att_pieces as)" by (rule ext)
  moreover have "puts cbf (s # ss) = (\<lambda>out. cbf s out \<bind> puts cbf ss)" for s ss by (rule ext) simp
  ultimately show ?case by (cases kv) (simp del: puts.simps)
qed simp

section \<open>The loop\<close>

text \<open>Going on after an object has been written.\<close>

definition ser_go :: "(string \<Rightarrow> 'o \<Rightarrow> 'o option) \<Rightarrow> heap \<Rightarrow> addr \<Rightarrow> ser_state \<times> addr \<Rightarrow> 'o \<Rightarrow> 'o option" where
  "ser_go cbf h p nx out = (if fst nx = STATE_STOP then Some out else ser_loop cbf h p (fst nx) (snd nx) out)"

lemma ser_loop_go: "ser_loop cbf h p s x out = do { r \<leftarrow> ser_step cbf h p s x out; ser_go cbf h p (fst r) (snd r) }"
  by (subst ser_loop.simps, cases "ser_step cbf h p s x out") (auto simp: ser_go_def)

definition ser_after :: "(string \<Rightarrow> 'o \<Rightarrow> 'o option) \<Rightarrow> heap \<Rightarrow> addr \<Rightarrow> addr \<Rightarrow> 'o \<Rightarrow> 'o option" where
  "ser_after cbf h p x out = do {
     ob \<leftarrow> objs h x;
     nx \<leftarrow> ser_leave p x ob;
     ser_go cbf h p nx out
   }"

lemma content_pos: "xs_ok x \<Longrightarrow> 0 < pos x \<longleftrightarrow> xs_str x \<noteq> []"
proof -
  assume ok: "xs_ok x"
  have "0 < pos x \<longleftrightarrow> unat (pos x) \<noteq> 0" by (simp add: word_neq_0_conv [symmetric] unat_eq_zero)
  also have "\<dots> \<longleftrightarrow> xs_str x \<noteq> []" using ok by (auto simp: xs_ok_def xs_str_def split: if_splits)
  finally show ?thesis .
qed

lemma ser_open_leaf:
  "objs h x = Some ob \<Longrightarrow> obj_is ob n as [] \<Longrightarrow> o_sons ob = None \<Longrightarrow>
     ser_loop cbf h p STATE_OPEN x out = do { o1 \<leftarrow> puts cbf ([''<'', n] @ att_pieces as @ [''/>'']) out; ser_after cbf h p x o1 }"
proof -
  assume ob: "objs h x = Some ob" "obj_is ob n as []" "o_sons ob = None"
  then have "\<not> 0 < pos (o_content ob)" using content_pos by (auto simp: obj_is_def)
  then show ?thesis using ob
    by (simp add: ser_loop_go ser_step_def ser_open_def obj_is_def puts_append ser_attrs_puts ser_after_def)
qed

lemma ser_open_inner:
  "objs h x = Some ob \<Longrightarrow> obj_is ob n as c \<Longrightarrow> o_sons ob \<noteq> None \<or> c \<noteq> [] \<Longrightarrow>
     ser_loop cbf h p STATE_OPEN x out = do {
       o1 \<leftarrow> puts cbf ([''<'', n] @ att_pieces as @ [''>'']) out;
       case o_sons ob of Some s \<Rightarrow> ser_loop cbf h p STATE_OPEN s o1 | None \<Rightarrow> ser_loop cbf h p STATE_CLOSE x o1 }"
proof -
  assume ob: "objs h x = Some ob" "obj_is ob n as c" "o_sons ob \<noteq> None \<or> c \<noteq> []"
  then have "o_sons ob \<noteq> None \<or> 0 < pos (o_content ob)" using content_pos by (auto simp: obj_is_def)
  then show ?thesis using ob
    by (subst ser_loop_go, cases "o_sons ob")
      (simp_all add: ser_step_def ser_open_def ser_go_def obj_is_def puts_append ser_attrs_puts)
qed

lemma ser_close_obj:
  "objs h x = Some ob \<Longrightarrow> obj_is ob n as c \<Longrightarrow>
     ser_loop cbf h p STATE_CLOSE x out = do { o1 \<leftarrow> puts cbf (end_pieces n c) out; ser_after cbf h p x o1 }"
proof -
  assume ob: "objs h x = Some ob" "obj_is ob n as c"
  then have "0 < pos (o_content ob) \<longleftrightarrow> c \<noteq> []" using content_pos by (auto simp: obj_is_def)
  then show ?thesis using ob
    by (cases "c = []") (simp_all add: ser_loop_go ser_step_def ser_close_def obj_is_def end_pieces_def ser_after_def)
qed

lemma ser_loop_xml:
  "xml_at h p x t \<Longrightarrow> ser_loop cbf h p STATE_OPEN x out = do { o1 \<leftarrow> puts cbf (xml_pieces t) out; ser_after cbf h p x o1 }"
  "xmls_at h p par (Some a) ts \<Longrightarrow>
     ser_loop cbf h p STATE_OPEN a out = do { o1 \<leftarrow> puts cbf (xmls_pieces ts) out; ser_loop cbf h p STATE_CLOSE par o1 }"
proof (induction t and ts arbitrary: x out and par a out rule: xml_str_xmls_str.induct)
  case (1 n as c ks)
  then obtain ob where ob: "objs h x = Some ob" "obj_is ob n as c" "xmls_at h p x (o_sons ob) ks" by (auto split: option.splits)
  show ?case
  proof (cases "ks = [] \<and> c = []")
    case True
    then show ?thesis using ob ser_open_leaf [of h x ob n as cbf p out] by simp
  next
    case False
    then have inner: "o_sons ob \<noteq> None \<or> c \<noteq> []" using ob(3) by (cases ks) auto
    have "(case o_sons ob of Some s \<Rightarrow> ser_loop cbf h p STATE_OPEN s o1 | None \<Rightarrow> ser_loop cbf h p STATE_CLOSE x o1)
        = do { o2 \<leftarrow> puts cbf (xmls_pieces ks) o1; ser_loop cbf h p STATE_CLOSE x o2 }" for o1
    proof (cases "o_sons ob")
      case None
      then have "ks = []" using ob(3) by (cases ks) auto
      then show ?thesis using None by simp
    next
      case (Some s)
      then show ?thesis using 1(1) [OF False, of x s o1] ob(3) by simp
    qed
    then show ?thesis
      unfolding ser_open_inner [OF ob(1,2) inner] ser_close_obj [OF ob(1,2)]
      using False by (auto simp: puts_append)
  qed
next
  case 2
  then show ?case by simp
next
  case (3 t ts)
  then obtain ob where ob: "objs h a = Some ob" "a \<noteq> p" "o_parent ob = Some par" "xml_at h p a t" "xmls_at h p par (o_sibling ob) ts"
    by (auto split: option.splits)
  have after: "ser_after cbf h p a o1 = do { o2 \<leftarrow> puts cbf (xmls_pieces ts) o1; ser_loop cbf h p STATE_CLOSE par o2 }" for o1
  proof (cases "o_sibling ob")
    case None
    then have "ts = []" using ob(5) by (cases ts) auto
    then show ?thesis using None ob by (simp add: ser_after_def ser_leave_def ser_go_def)
  next
    case (Some s)
    then show ?thesis using 3(2) [of par s o1] ob by (simp add: ser_after_def ser_leave_def ser_go_def)
  qed
  show ?case using 3(1) [OF ob(4), of out] by (simp add: after puts_append)
qed

text \<open>The reports of a tree in which every element has attributes do not depend on the register.\<close>

fun xml_tree_ev :: "xml \<Rightarrow> xev list" and xmls_tree_ev :: "xml list \<Rightarrow> xev list" where
  "xml_tree_ev (Elem n as c ks) = [EOpen n (put_attrs [] as)] @ xmls_tree_ev ks @ map EChar c @ [EClose n]"
| "xmls_tree_ev [] = []"
| "xmls_tree_ev (t # ts) = xml_tree_ev t @ xmls_tree_ev ts"

fun all_attrs :: "xml \<Rightarrow> bool" and alls_attrs :: "xml list \<Rightarrow> bool" where
  "all_attrs (Elem n as c ks) \<longleftrightarrow> as \<noteq> [] \<and> alls_attrs ks"
| "alls_attrs [] \<longleftrightarrow> True"
| "alls_attrs (t # ts) \<longleftrightarrow> all_attrs t \<and> alls_attrs ts"

lemma xml_tree_ev_eq: "all_attrs t \<Longrightarrow> fst (xml_ev carry t) = xml_tree_ev t"
  "alls_attrs ts \<Longrightarrow> fst (xmls_ev carry ts) = xmls_tree_ev ts"
proof (induction t and ts arbitrary: carry and carry rule: xml_tree_ev_xmls_tree_ev.induct)
  case (1 n as c ks)
  then have "fst (xmls_ev (put_attrs [] as) ks) = xmls_tree_ev ks" by simp
  then show ?case using 1(2) by (simp add: Let_def split_beta)
next
  case (3 t ts)
  then show ?case by (simp add: Let_def split_beta)
qed simp


lemma x_parser_object_to_string_run:
  assumes t: "xml_at h x x t" and ok: "xs_ok xstr"
    and size: "unat (capacity xstr) + (\<Sum>s \<leftarrow> xml_pieces t. length s + 33) < 2 ^ 32"
  shows "\<exists>xs. x_parser_object_to_string junk h x xstr = Some xs \<and> xs_ok xs \<and> xs_str xs = xs_str xstr @ xml_str t"
proof -
  let ?cbf = "\<lambda>s xs. x_string_write junk xs s (length s)"
  have puts: "puts ?cbf ss xs = xs_run junk xs (map XWrite ss)" for ss xs
  proof (induction ss arbitrary: xs)
    case (Cons s ss)
    then show ?case by (cases "x_string_write junk xs s (length s)") simp_all
  qed simp
  have spec: "foldl xs_spec s (map XWrite ss) = s @ concat ss" for s ss
    by (induction ss arbitrary: s) simp_all
  have "sum_list (map xs_cost (map XWrite ss)) = (\<Sum>s \<leftarrow> ss. length s + 33)" for ss
    by (induction ss) simp_all
  then obtain xs where xs: "xs_run junk xstr (map XWrite (xml_pieces t)) = Some xs" "xs_ok xs"
    "xs_str xs = xs_str xstr @ xml_str t"
    using xs_run_ok [OF ok, of "map XWrite (xml_pieces t)" junk] size by (auto simp: spec concat_pieces)
  obtain ob where "objs h x = Some ob" using t by (cases t) (auto split: option.splits)
  then have "x_parser_object_to_string junk h x xstr = Some xs"
    using ser_loop_xml(1) [OF t, of ?cbf xstr] xs(1)
    by (simp add: x_parser_object_to_string_def x_parser_object_serialize_def puts ser_after_def ser_leave_def ser_go_def)
  then show ?thesis using xs by blast
qed

section \<open>Claims\<close>

text \<open>
  C6. Serializing an object whose subtree represents an element tree appends exactly the
  text of the tree to the output string: each element with its attributes in list order, its
  children in sibling order, its content behind them. The loop through the links always
  ends, and stays within the subtree whatever siblings the object has.
\<close>

theorem x_parser_object_to_string_text:
  assumes t: "xml_at h x x t" and ok: "xs_ok xstr"
    and size: "unat (capacity xstr) + (\<Sum>s \<leftarrow> xml_pieces t. length s + 33) < 2 ^ 32"
  shows "\<exists>xs. x_parser_object_to_string junk h x xstr = Some xs \<and> xs_ok xs \<and> xs_str xs = xs_str xstr @ xml_str t"
  using assms by (rule x_parser_object_to_string_run)

text \<open>A string object that holds a short text, as the appends leave it.\<close>

definition xs_of :: "string \<Rightarrow> x_string" where
  "xs_of s = \<lparr>capacity = of_nat (length s + 1), pos = of_nat (length s), cbuf = Block (s @ [NUL])\<rparr>"

lemma xs_of_ok: "length s < 1000 \<Longrightarrow> xs_ok (xs_of s) \<and> xs_str (xs_of s) = s"
  using unat_of_nat_u32 [of "length s"] unat_of_nat_u32 [of "Suc (length s)"]
  by (simp add: xs_of_def xs_ok_def xs_str_def xs_block_def)

lemma reg_xs_of: "length s < 1000 \<Longrightarrow> reg (xs_of s) s"
  using xs_of_ok [of s] unat_of_nat_u32 [of "length s"] unat_of_nat_u32 [of "Suc (length s)"]
  by (simp add: reg_def) (simp add: xs_of_def xs_block_def)

definition demo_xml :: xml where
  "demo_xml = Elem ''iq'' [(''id'', ''1''), (''to'', ''me'')] ''hi'' [Elem ''q'' [(''x'', ''y'')] [] []]"

definition demo_dom :: heap where
  "demo_dom = \<lparr>objs = map_of
     [(2, (new_xobject 0)\<lparr>o_name := Some ''iq'', o_sons := Some 3, o_attrs := [(''id'', ''1''), (''to'', ''me'')], o_content := xs_of ''hi''\<rparr>),
      (3, (new_xobject 0)\<lparr>o_name := Some ''q'', o_parent := Some 2, o_attrs := [(''x'', ''y'')]\<rparr>)], brk = 4\<rparr>"

lemma demo_dom_xml: "xml_at demo_dom 2 2 demo_xml"
  using xs_of_ok [of "''hi''"] xs_ok_init
  by (simp add: demo_xml_def demo_dom_def obj_is_def new_xobject_def)

lemma demo_chars:
  "name_start CHR ''i''" "name_char CHR ''q''" "name_start CHR ''q''" "key_char CHR ''d''" "name_start CHR ''t''" "key_char CHR ''o''"
  "name_start CHR ''x''" "NUL \<noteq> CHR ''1''" "NUL \<noteq> CHR ''m''" "NUL \<noteq> CHR ''e''" "NUL \<noteq> CHR ''y''"
  by code_simp+

lemma demo_xml_ok: "xml_ok demo_xml" "all_attrs demo_xml"
  using demo_chars by (simp_all add: demo_xml_def good_name_def good_attr_def readable_def reg_max_def)

lemma demo_xml_size: "(\<Sum>s \<leftarrow> xml_pieces demo_xml. length s + 33) < 2 ^ 32"
  by (simp add: demo_xml_def end_pieces_def)

theorem x_parser_object_to_string_text_witness:
  "\<exists>xs. x_parser_object_to_string (\<lambda>_. NUL) demo_dom 2 X_STRING_STATIC_INIT = Some xs \<and> xs_ok xs
     \<and> xs_str xs = xs_str X_STRING_STATIC_INIT @ xml_str demo_xml"
  by (rule x_parser_object_to_string_text [OF demo_dom_xml xs_ok_init(1)])
    (use demo_xml_size in \<open>simp add: X_STRING_STATIC_INIT_def\<close>)

definition pp_zero :: "'s \<Rightarrow> 's pparser" where
  "pp_zero d = \<lparr>attrs = [], r0 = X_STRING_STATIC_INIT, r1 = X_STRING_STATIC_INIT, r2 = X_STRING_STATIC_INIT, g1 = NUL, g2 = False,
     cr0 = 0, cr1 = X_PP_INI, r_putc = Ctx_txt, stack = [], cbdata = d\<rparr>"

lemma pp_zero_st: "st Ctx_txt X_PP_INI [] [] [] [] d (pp_zero d)"
  by (simp add: st_def pp_zero_def reg_init)

text \<open>
  C5. The reports of the parser for the text of an element tree, fed one character at a time
  from the state between elements: an opening with its attributes, the children, the
  characters of the content, the closing, for every tree with well-formed names, keys and
  non-empty values. An element without attributes reports those of the element that was
  opened last, since nothing clears the register in between.
\<close>

theorem x_parser_reports_tree:
  assumes t: "xml_ok t" and p: "st Ctx_txt X_PP_INI s0 s1 s2 carry d p"
  shows "\<exists>p'. pp_feed junk log_cb p (xml_str t) = Some p' \<and> cbdata p' = d @ fst (xml_ev carry t)
    \<and> st Ctx_txt X_PP_INI [] [] [] (snd (xml_ev carry t)) (cbdata p') p'"
  using run_xml(1) [OF t p play_log, of junk] by (auto simp: runs_def st_def)

text \<open>Resetting puts the parser into the state between elements.\<close>

lemma x_parser_init_st:
  assumes "reg (r0 p) s0" "reg (r1 p) s1" "reg (r2 p) s2"
  shows "\<exists>p'. x_parser_init junk p = Some p' \<and> st Ctx_txt X_PP_INI s0 [] [] [] (cbdata p) p'"
proof -
  let ?p = "p\<lparr>cr0 := 0\<rparr>"
  have r: "reg (r1 ?p) s1" using assms by simp
  obtain x where x: "clear_r1 junk ?p = Some (?p\<lparr>r1 := x\<rparr>)" "reg x []" using regs(2) [OF r] by blast
  have "reg (r2 (?p\<lparr>r1 := x\<rparr>)) s2" using assms by simp
  then obtain y where "clear_r2 junk (?p\<lparr>r1 := x\<rparr>) = Some (?p\<lparr>r1 := x, r2 := y\<rparr>)" "reg y []"
    using regs(3) [of "?p\<lparr>r1 := x\<rparr>" s2 junk] by auto
  then show ?thesis using x assms by (simp add: x_parser_init_def x_parser_set_context_def st_def attr_list_init_def)
qed


theorem x_parser_reports_tree_witness:
  "\<exists>p'. pp_feed (\<lambda>_. NUL) log_cb (pp_zero []) (xml_str demo_xml) = Some p' \<and> cbdata p' = [] @ fst (xml_ev [] demo_xml)
    \<and> st Ctx_txt X_PP_INI [] [] [] (snd (xml_ev [] demo_xml)) (cbdata p') p'"
  by (rule x_parser_reports_tree [OF demo_xml_ok(1) pp_zero_st])

text \<open>
  C4. Serializing a subtree and parsing the text reports exactly that tree: openings with the
  attributes (of a key that repeats, the last value), children, content and closings in the order of the tree, whatever fresh memory
  contains on either side, and whatever the parser has read before, when it is between two elements.
  This holds for a tree in which every element has an attribute; names and keys are of the
  characters that the parser takes for them; values are not empty and have no apostrophe and no zero
  byte; the content has no less-than sign; all but the content are shorter than the bound of the
  registers, and the pieces that are written, with 33 bytes for each, shorter than 2 to the 32nd.
\<close>

theorem serialize_then_parse:
  assumes t: "xml_at h x x t" "xml_ok t" "all_attrs t"
    and size: "(\<Sum>s \<leftarrow> xml_pieces t. length s + 33) < 2 ^ 32"
    and p: "st Ctx_txt X_PP_INI s0 s1 s2 carry d p"
  shows "\<exists>xs p'. x_parser_object_to_string junk h x X_STRING_STATIC_INIT = Some xs
    \<and> pp_feed junk' log_cb p (xs_str xs) = Some p' \<and> cbdata p' = d @ xml_tree_ev t"
proof -
  obtain xs where "x_parser_object_to_string junk h x X_STRING_STATIC_INIT = Some xs" "xs_str xs = xml_str t"
    using x_parser_object_to_string_run [OF t(1) xs_ok_init(1), of junk] size xs_ok_init(2)
    by (auto simp: X_STRING_STATIC_INIT_def)
  moreover obtain p' where "pp_feed junk' log_cb p (xml_str t) = Some p'" "cbdata p' = d @ fst (xml_ev carry t)"
    using run_xml(1) [OF t(2) p play_log, of junk'] by (auto simp: runs_def st_def)
  ultimately show ?thesis using xml_tree_ev_eq(1) [OF t(3)] by auto
qed

theorem serialize_then_parse_witness:
  "\<exists>xs p'. x_parser_object_to_string (\<lambda>_. NUL) demo_dom 2 X_STRING_STATIC_INIT = Some xs
    \<and> pp_feed (\<lambda>_. NUL) log_cb (pp_zero []) (xs_str xs) = Some p' \<and> cbdata p' = [] @ xml_tree_ev demo_xml"
  by (rule serialize_then_parse [OF demo_dom_xml demo_xml_ok demo_xml_size pp_zero_st])

text \<open>
  An attribute with an empty value gets a stale one: clearing the value register resets
  its position only, nothing is appended between the quotes, and what the attribute is set to
  is the C string the register's buffer still holds from the value read before.
\<close>

theorem x_parser_empty_value_stale:
  assumes p: "st Ctx_attr X_PP_KV_VAL s0 k s2 as d p" and k: "readable k"
    and stale: "xs_read (r2 p) = Some w" "capacity (r2 p) = X_STR_BUFSIZ"
  shows "\<exists>p'. pp_feed junk cb p [CHR 0x27, CHR 0x27, CHR '' ''] = Some p' \<and> attrs p' = snd (setattr True k (Some w) as)"
proof -
  let ?y = "(r2 p)\<lparr>pos := 0\<rparr>"
  let ?q = "p\<lparr>r2 := ?y, g1 := CHR 0x27, g2 := True, cr1 := X_PP_KV_LAV, r_putc := Ctx_idle, stack := [Ctx_attr]\<rparr>"
  have clear: "x_string_clear junk (r2 p) = Some ?y" using stale(2) by (simp add: x_string_clear_def)
  have one: "pp_putc junk cb p (CHR 0x27) = Some (0, ?q)"
    using p clear by (simp add: st_def pp_putc_def x_parser_ctx_attr_def x_parser_push_def X_INI_STACK_SIZE_def clear_r2_def x_parser_set_context_def)
  let ?q2 = "?q\<lparr>r_putc := Ctx_attr, stack := []\<rparr>"
  have two: "pp_putc junk cb ?q (CHR 0x27) = Some (0, ?q2)"
    by (simp add: pp_putc_def x_parser_ctx_idle_def x_parser_pop_def x_parser_set_context_def)
  have rk: "xs_read (r1 ?q2) = Some k" using p k reg_read by (simp add: st_def readable_def)
  have "xs_cstr ?y = xs_cstr (r2 p)" by (simp add: xs_cstr_def xs_block_def)
  then have "xs_read ?y = xs_read (r2 p)" unfolding xs_read_def by (cases "cbuf (r2 p)") simp_all
  then have rw: "xs_read (r2 ?q2) = Some w" using stale(1) by simp
  let ?q3 = "?q2\<lparr>attrs := snd (setattr True k (Some w) as)\<rparr>"
  have set: "set_pair ?q2 = Some ?q3" using rk rw p by (simp add: set_pair_def st_def)
  have r1: "reg (r1 ?q3) k" using p by (simp add: st_def)
  obtain x where x: "clear_r1 junk ?q3 = Some (?q3\<lparr>r1 := x\<rparr>)" using regs(2) [OF r1] by blast
  have "x_string_clear junk ?y = Some ?y" using stale(2) by (simp add: x_string_clear_def)
  then have "clear_r2 junk (?q3\<lparr>r1 := x\<rparr>) = Some (?q3\<lparr>r1 := x\<rparr>)" by (simp add: clear_r2_def)
  then have three: "pp_putc junk cb ?q2 (CHR '' '') = Some (0, ?q3\<lparr>r1 := x, cr1 := X_PP_INI\<rparr>)"
    using set x by (simp add: pp_putc_def x_parser_ctx_attr_def)
  show ?thesis using one two three by simp
qed

definition stale_pp :: "unit pparser" where
  "stale_pp = (pp_zero ())\<lparr>r0 := xs_of ''a'', r1 := xs_of ''y'', cr1 := X_PP_KV_VAL, r_putc := Ctx_attr,
     r2 := \<lparr>capacity = 32, pos = 0, cbuf = Block (CHR ''1'' # replicate 31 NUL)\<rparr>\<rparr>"

theorem x_parser_empty_value_stale_witness:
  "\<exists>p'. pp_feed (\<lambda>_. NUL) \<lparr>xobjopen = None, xputchar = None, xobjclose = None\<rparr> stale_pp [CHR 0x27, CHR 0x27, CHR '' ''] = Some p' \<and> attrs p' = [(''y'', ''1'')]"
proof -
  have "reg (r2 stale_pp) []"
    by (simp add: stale_pp_def reg_def xs_ok_def xs_str_def xs_block_def)
  then have s: "st Ctx_attr X_PP_KV_VAL ''a'' ''y'' [] [] () stale_pp"
    using reg_xs_of [of "''a''"] reg_xs_of [of "''y''"] by (simp add: st_def stale_pp_def pp_zero_def)
  have one: "CHR ''1'' \<noteq> NUL" by code_simp
  then have r: "xs_read (r2 stale_pp) = Some ''1''"
    by (simp add: stale_pp_def xs_read_def xs_cstr_def xs_block_def replicate_Suc numeral_eq_Suc)
  have k: "readable ''y''" by code_simp
  have c: "capacity (r2 stale_pp) = X_STR_BUFSIZ" by (simp add: stale_pp_def X_STR_BUFSIZ_def)
  from x_parser_empty_value_stale [OF s k r c] show ?thesis
    by (simp add: setattr_def get_attr_cell_def)
qed

end
