(* ===== verification/Xw_Bus.thy ===== *)
theory Xw_Bus
  imports Xw_Serialize
begin

text \<open>
  Model of \<^verbatim>\<open>x_bus.c\<close>: the session object that turns the reports of the parser into a tree of
  objects below itself. The short-lived growing strings that hold a name or a namespace are
  represented by their contents; \<^theory_text>\<open>None\<close> in place of a string is a null buffer. Sockets and the
  event loop are outside: the transport is a function that delivers or takes bytes.
\<close>

section \<open>The session\<close>

datatype bus_state = BUS_STATE_INI | BUS_STATE_RESET | BUS_STATE_CONNECTED | BUS_STATE_STREAMING | BUS_STATE_CLOSED

text \<open>\<open>self\<close> is the address of the session object itself, \<open>r_obj\<close> the object that is open.\<close>

record bus =
  hp :: heap
  self :: addr
  bstate :: bus_state
  r_obj :: ptr
  bus_ns :: "string htable"

text \<open>The state to set is ignored.\<close>

definition bus_set_state :: "bus \<Rightarrow> bus_state \<Rightarrow> bus" where
  "bus_set_state b state = b\<lparr>bstate := BUS_STATE_CONNECTED\<rparr>"

section \<open>The address of the account\<close>

text \<open>Splitting at the first occurrence of a character.\<close>

definition split_at :: "char \<Rightarrow> string \<Rightarrow> (string \<times> string) option" where
  "split_at c s = (if c \<in> set s then Some (takeWhile (\<lambda>x. x \<noteq> c) s, tl (dropWhile (\<lambda>x. x \<noteq> c) s)) else None)"

definition host_for :: "string \<Rightarrow> string" where
  "host_for d = (if strcaseeq d ''gmail.com'' then ''talk.google.com''
     else if strcaseeq d ''vk.com'' then ''vkmessenger.ru''
     else if strcaseeq d ''qip.ru'' then ''xmpp-server.qip.ru''
     else d)"

text \<open>Without the attribute \<^verbatim>\<open>jid\<close> the process ends.\<close>

definition bus_jid_commit :: "heap \<Rightarrow> addr \<Rightarrow> (int \<times> heap) option" where
  "bus_jid_commit h bus = do {
     v \<leftarrow> x_object_getattr h bus (Some ''jid'');
     jid \<leftarrow> v;
     case split_at (CHR ''@'') jid of
       None \<Rightarrow> Some (-1, h)
     | Some (user, rest) \<Rightarrow> (case split_at (CHR ''/'') rest of
           None \<Rightarrow> Some (-1, h)
         | Some (dmn, res) \<Rightarrow> do {
             h1 \<leftarrow> x_object_setattr h bus ''username'' (Some user);
             h2 \<leftarrow> x_object_setattr h1 bus ''resource'' (Some res);
             (d, h3) \<leftarrow> (case split_at (CHR '':'') dmn of
                 Some (d, port) \<Rightarrow> do { h' \<leftarrow> x_object_setattr h2 bus ''servicename'' (Some port); Some (d, h') }
               | None \<Rightarrow> do { h' \<leftarrow> x_object_setattr h2 bus ''servicename'' (Some ''5222''); Some (dmn, h') });
             h4 \<leftarrow> x_object_setattr h3 bus ''domain'' (Some d);
             hn \<leftarrow> x_object_getattr h4 bus (Some ''hostname'');
             h5 \<leftarrow> (case hn of Some _ \<Rightarrow> Some h4 | None \<Rightarrow> x_object_setattr h4 bus ''hostname'' (Some (host_for d)));
             Some (0, h5)
           })
   }"

section \<open>Opening and closing elements\<close>

text \<open>The loop that copies a name up to a colon: whether there was one, the part before, the part after.\<close>

fun ns_loop :: "string \<Rightarrow> string \<Rightarrow> bool \<times> string \<times> string" where
  "ns_loop acc [] = (False, acc, [])"
| "ns_loop acc (c # cs) = (if c = CHR '':'' then (True, acc, cs) else ns_loop (acc @ [c]) cs)"

definition cbuf_of :: "string \<Rightarrow> string option" where
  "cbuf_of s = (if s = [] then None else Some s)"

fun fill_loop :: "string option \<Rightarrow> attr_list \<Rightarrow> string htable \<Rightarrow> string option \<Rightarrow> string htable \<times> string option" where
  "fill_loop ns [] t p2 = (t, p2)"
| "fill_loop ns ((k, v) # as) t p2 =
     (if strncaseeq k ''xmlns:'' 6 then
        (let p = tl (dropWhile (\<lambda>c. c \<noteq> CHR '':'') k)
         in fill_loop ns as (ht_set True p v t) (case ns of Some s \<Rightarrow> if strcaseeq p s then Some v else p2 | None \<Rightarrow> p2))
      else fill_loop ns as t p2)"

text \<open>The attribute that declares the prefix is replaced by a plain one; its name is cut to the size of the array.\<close>

definition bus_fill_nsmap :: "bus \<Rightarrow> attr_list \<Rightarrow> string option \<Rightarrow> attr_list \<times> bus" where
  "bus_fill_nsmap b atts ns = (case fill_loop ns atts (bus_ns b) None of (t, p2) \<Rightarrow>
     (case (ns, p2) of
        (Some s, Some v) \<Rightarrow>
          (let as1 = snd (setattr True ''xmlns'' (Some v) atts);
               as2 = snd (setattr True (take 54 (''xmlns:'' @ s)) None as1)
           in (as2, b\<lparr>bus_ns := t\<rparr>))
      | _ \<Rightarrow> (atts, b\<lparr>bus_ns := t\<rparr>)))"

definition bus_enter :: "obj_env \<Rightarrow> attr_list \<Rightarrow> bus \<Rightarrow> addr \<Rightarrow> heap \<Rightarrow> (int \<times> attr_list \<times> bus) option" where
  "bus_enter env atts b x h = do {
     h1 \<leftarrow> x_object_assign env h x (Some atts);
     Some (0, atts, b\<lparr>hp := h1, r_obj := Some x\<rparr>)
   }"

text \<open>The name and the namespace of an element; searching a null namespace for a hash sign is undefined.\<close>

definition bus_resolve :: "bus \<Rightarrow> attr_list \<Rightarrow> bool \<Rightarrow> string \<Rightarrow> string \<Rightarrow> (string option \<times> string) option" where
  "bus_resolve b atts has_ns pre rest = do {
     (nm, v) \<leftarrow> (if has_ns then do { pfx \<leftarrow> cbuf_of pre; Some (cbuf_of rest, fst (ht_get pfx (bus_ns b))) }
        else case getattr (Some ''xmlns'') (Some atts) of
            Some v \<Rightarrow> Some (cbuf_of pre, Some v)
          | None \<Rightarrow> do { e \<leftarrow> x_object_getenv (hp b) (r_obj b) ''xmlns''; Some (cbuf_of pre, e) });
     ns \<leftarrow> v;
     Some (nm, if CHR ''#'' \<in> set ns then takeWhile (\<lambda>c. c \<noteq> CHR ''#'') ns else ns)
   }"

definition bus_objopen :: "obj_env \<Rightarrow> string \<Rightarrow> attr_list \<Rightarrow> bus \<Rightarrow> (int \<times> attr_list \<times> bus) option" where
  "bus_objopen env name atts b = (case ns_loop [] name of (has_ns, pre, rest) \<Rightarrow>
     (case bus_fill_nsmap b atts (if has_ns then cbuf_of pre else None) of (as, b1) \<Rightarrow> do {
        (nm, ns) \<leftarrow> bus_resolve b1 as has_ns pre rest;
        first \<leftarrow> x_object_get_child (hp b1) (r_obj b1) nm;
        (found, h1) \<leftarrow> x_object_find env (hp b1) first (Some as);
        case found of
          Some x \<Rightarrow> bus_enter env as b1 x h1
        | None \<Rightarrow> do {
            (n, h2) \<leftarrow> x_object_new_ns_match env h1 nm (Some ns) (Some as) True;
            case n of
              None \<Rightarrow> Some (-1, as, b1\<lparr>hp := h2\<rparr>)
            | Some x \<Rightarrow> do {
                (r, h3) \<leftarrow> x_object_append_child env h2 (r_obj b1) x;
                if r \<noteq> 0 then Some (-1, as, b1\<lparr>hp := h3\<rparr>) else bus_enter env as b1 x h3
              }
          }
      }))"

definition bus_objclose :: "obj_env \<Rightarrow> string \<Rightarrow> bus \<Rightarrow> (int \<times> bus) option" where
  "bus_objclose env name b = (case ns_loop [] name of (has_ns, pre, rest) \<Rightarrow> do {
     ob \<leftarrow> r_obj b;
     nm \<leftarrow> (if has_ns then do { pfx \<leftarrow> cbuf_of pre; Some (cbuf_of rest) }
           else do { e \<leftarrow> x_object_getenv (hp b) (Some ob) ''xmlns''; Some (cbuf_of pre) });
     on \<leftarrow> x_object_get_name (hp b) ob;
     s1 \<leftarrow> nm;
     s2 \<leftarrow> on;
     if \<not> strcaseeq s1 s2 then Some (-1, b)
     else do {
       p \<leftarrow> x_object_get_parent (hp b) (Some ob);
       h1 \<leftarrow> x_object_lost_focus env (hp b) ob;
       Some (0, b\<lparr>hp := h1, r_obj := p\<rparr>)
     }
   })"

definition bus_putchar :: "obj_env \<Rightarrow> char \<Rightarrow> bus \<Rightarrow> bus option" where
  "bus_putchar env c b = do {
     x \<leftarrow> r_obj b;
     ob \<leftarrow> objs (hp b) x;
     s \<leftarrow> x_string_putc (cjunk env) (o_content ob) c;
     h1 \<leftarrow> upd (hp b) x (\<lambda>ob. ob\<lparr>o_content := s\<rparr>);
     Some (b\<lparr>hp := h1\<rparr>)
   }"

text \<open>The callbacks the session gives to its parser, which drops their results.\<close>

definition bus_cb :: "obj_env \<Rightarrow> bus pp_cb" where
  "bus_cb env = \<lparr>xobjopen = Some (\<lambda>n as b. map_option snd (bus_objopen env n as b)),
     xputchar = Some (bus_putchar env),
     xobjclose = Some (\<lambda>n b. map_option snd (bus_objclose env n b))\<rparr>"

section \<open>The stream\<close>

text \<open>A new session: the parser's registers are zero before its constructor runs.\<close>

definition bus_on_create :: "obj_env \<Rightarrow> heap \<Rightarrow> addr \<Rightarrow> bus pparser option" where
  "bus_on_create env h a = (let b = \<lparr>hp = h, self = a, bstate = BUS_STATE_INI, r_obj = Some a, bus_ns = ht_empty\<rparr>
     in do {
       h1 \<leftarrow> upd h a (\<lambda>ob. ob\<lparr>o_bus := Some a\<rparr>);
       x_parser_init (cjunk env) (pp_zero ((bus_set_state b BUS_STATE_INI)\<lparr>hp := h1\<rparr>))
     })"

definition x_bus_reset_stream :: "obj_env \<Rightarrow> bus pparser \<Rightarrow> bus pparser option" where
  "x_bus_reset_stream env p = (let b = cbdata p; b1 = bus_set_state (b\<lparr>r_obj := Some (self b)\<rparr>) BUS_STATE_INI
     in do {
       p1 \<leftarrow> x_parser_init (cjunk env) (p\<lparr>cbdata := b1\<rparr>);
       old \<leftarrow> x_object_get_child (hp b1) (Some (self b1)) (Some ''stream'');
       h1 \<leftarrow> x_object_ref_put env (hp b1) old None;
       (n, h2) \<leftarrow> x_object_new_ns env h1 (Some ''stream'') (Some ''http://etherx.jabber.org/streams'');
       s \<leftarrow> n;
       dmn \<leftarrow> x_object_getattr h2 (self b1) (Some ''domain'');
       h3 \<leftarrow> x_object_setattr h2 s ''remote'' dmn;
       jid \<leftarrow> x_object_getattr h3 (self b1) (Some ''jid'');
       h4 \<leftarrow> x_object_setattr h3 s ''local'' jid;
       (r, h5) \<leftarrow> x_object_append_child env h4 (Some (self b1)) s;
       Some (p1\<lparr>cbdata := bus_set_state (b1\<lparr>hp := h5\<rparr>) BUS_STATE_STREAMING\<rparr>)
     })"

text \<open>
  The loop over what the transport delivers: \<open>rd\<close> reads at most 255 bytes and returns their
  number, which ends the loop when it is not positive.
\<close>

partial_function (option) bus_read_loop ::
  "obj_env \<Rightarrow> ('w \<Rightarrow> int \<times> string \<times> 'w) \<Rightarrow> bus pparser \<Rightarrow> 'w \<Rightarrow> (bus pparser \<times> 'w) option" where
  "bus_read_loop env rd p w =
     (let err = fst (rd w); buf = fst (snd (rd w)); w1 = snd (snd (rd w))
      in if err \<le> 0 then Some (p, w1)
         else do { p1 \<leftarrow> pp_feed (cjunk env) (bus_cb env) p (take (nat err) buf); bus_read_loop env rd p1 w1 })"

text \<open>Sending a message: the text goes to the transport with its length; the result is always 0.\<close>

definition x_bus_tx :: "obj_env \<Rightarrow> (string \<Rightarrow> 'w \<Rightarrow> 'w) \<Rightarrow> heap \<Rightarrow> addr \<Rightarrow> 'w \<Rightarrow> (int \<times> 'w) option" where
  "x_bus_tx env wr h msg w = do {
     xs \<leftarrow> x_string_clear (cjunk env) X_STRING_STATIC_INIT;
     xs1 \<leftarrow> x_parser_object_to_string (cjunk env) h msg xs;
     Some (0, wr (xs_str xs1) w)
   }"

end
