(* ===== verification/Auth_Sasl.thy ===== *)
theory Auth_Sasl
  imports Crypt_Md5 Crypt_Base64 Xw_Bus "HOL-Library.Sublist"
begin

text \<open>
  Model of \<^verbatim>\<open>plugins/auth_plain/auth_plain.c\<close> and \<^verbatim>\<open>plugins/auth_md5/auth_md5.c\<close>: the two ways a
  session proves its password. Strings are lists of characters; where the code works on a
  buffer, the buffer is a list of bytes with its terminator. \<^theory_text>\<open>None\<close> is undefined behaviour.
\<close>

section \<open>Bytes as characters\<close>

definition chr_of :: "u8 \<Rightarrow> char" where
  "chr_of b = char_of (unat b)"

lemma byte_of_chr_of [simp]: "byte_of (chr_of b) = b"
  using unat_u8_lt [of b] by (simp add: byte_of_def chr_of_def)

lemma chr_of_byte_of [simp]: "chr_of (byte_of c) = c"
  by (simp add: byte_of_def chr_of_def unat_of_nat)

lemma bytes_of_chars [simp]: "bytes_of (map chr_of bs) = bs" "map chr_of (bytes_of s) = s"
  by (simp_all add: bytes_of_def comp_def)

text \<open>The C string that \<^verbatim>\<open>x_base64_encode\<close> returns.\<close>

definition b64_string :: "u8 list \<Rightarrow> string" where
  "b64_string bs = map chr_of (butlast (x_base64_encode bs))"

lemma decode_b64_string: "length garbage = 4 \<Longrightarrow> base64_decode garbage (bytes_of (b64_string bs)) = (bs @ [0], length bs)"
  by (simp add: b64_string_def base64_decode_def encode_is_ref decode_ref)

section \<open>PLAIN\<close>

definition X_STR_MEMLEN_ALIGN :: "nat \<Rightarrow> nat" where
  "X_STR_MEMLEN_ALIGN n = (n + 31) div 32 * 32"

text \<open>The message is put together in a block of memory, from user name, domain and password.\<close>

definition xmpp_auth_get_plain_hash :: "(nat \<Rightarrow> char) \<Rightarrow> string \<Rightarrow> string \<Rightarrow> string \<Rightarrow> string option" where
  "xmpp_auth_get_plain_hash junk uname pw jiddomain =
     (let ulen = length uname; hlen = length jiddomain; plen = length pw;
          n = 2 * ulen + hlen + plen + 3;
          tmp = mem_resize junk [] (X_STR_MEMLEN_ALIGN n)
      in do {
        t1 \<leftarrow> mem_write tmp 0 (uname @ ''@'' @ jiddomain @ [NUL]);
        t2 \<leftarrow> mem_write t1 (ulen + hlen + 2) (uname @ [NUL]);
        t3 \<leftarrow> mem_write t2 (2 * ulen + hlen + 3) (pw @ [NUL]);
        Some (b64_string (bytes_of (take n t3)))
      })"

definition auth_plain_match :: "heap \<Rightarrow> addr \<Rightarrow> attr_list option \<Rightarrow> bool" where
  "auth_plain_match h a as = (case getattr (Some ''xmlns'') as of
       None \<Rightarrow> True
     | Some v \<Rightarrow> strcaseeq v ''urn:ietf:params:xml:ns:xmpp-sasl'')"

text \<open>The content of a new object is written as \<^verbatim>\<open>x_string_write\<close> does it.\<close>

definition write_content :: "obj_env \<Rightarrow> heap \<Rightarrow> addr \<Rightarrow> string \<Rightarrow> heap option" where
  "write_content env h a s = do {
     ob \<leftarrow> objs h a;
     c \<leftarrow> x_string_write (cjunk env) (o_content ob) s (length s);
     upd h a (\<lambda>ob. ob\<lparr>o_content := c\<rparr>)
   }"

definition auth_plain_on_append :: "obj_env \<Rightarrow> heap \<Rightarrow> addr \<Rightarrow> addr \<Rightarrow> (int \<times> heap) option" where
  "auth_plain_on_append env h me parent = do {
     unam \<leftarrow> x_object_getenv h (Some me) ''username'';
     pw \<leftarrow> x_object_getenv h (Some me) ''pword'';
     jid \<leftarrow> x_object_getenv h (Some me) ''jid'';
     jiddomain \<leftarrow> x_object_getenv h (Some me) ''domain'';
     hostname \<leftarrow> x_object_getenv h (Some me) ''hostname'';
     u \<leftarrow> unam; p \<leftarrow> pw; d \<leftarrow> jiddomain;
     str \<leftarrow> xmpp_auth_get_plain_hash (cjunk env) u p d;
     (n, h1) \<leftarrow> x_object_new_ns env h (Some ''$message'') None;
     msg \<leftarrow> n;
     h2 \<leftarrow> x_object_set_name h1 msg ''auth'';
     h3 \<leftarrow> x_object_setattr h2 msg ''xmlns'' (Some ''urn:ietf:params:xml:ns:xmpp-sasl'');
     h4 \<leftarrow> x_object_setattr h3 msg ''mechanism'' (Some ''PLAIN'');
     h5 \<leftarrow> write_content env h4 msg str;
     (r, h6) \<leftarrow> x_object_send_down env h5 (Some parent) msg None;
     Some (0, h6)
   }"

section \<open>DIGEST-MD5\<close>

record md5_sess =
  ms_state :: int
  ms_realm :: "string option"
  ms_nonce :: string
  ms_cnonce :: string
  ms_qop :: "string option"

definition DQ :: char where "DQ = CHR 0x22"

definition cstr :: "string \<Rightarrow> string" where
  "cstr buf = takeWhile (\<lambda>c. c \<noteq> NUL) buf"

fun strstr :: "string \<Rightarrow> string \<Rightarrow> nat option" where
  "strstr [] pat = (if pat = [] then Some 0 else None)"
| "strstr (c # cs) pat = (if prefix pat (c # cs) then Some 0 else map_option Suc (strstr cs pat))"

text \<open>
  The value that starts at \<open>p\<close>: blanks and quotes are skipped, then it goes up to a quote or a
  comma, which is overwritten by a terminator. The search for it does not stop at the end of
  the string.
\<close>

definition blanks :: "char set" where
  "blanks = {char_of (9 :: nat), CHR '' '', LF, CR, DQ}"

definition take_field :: "string \<Rightarrow> nat \<Rightarrow> (string \<times> string) option" where
  "take_field buf p =
     (let q = p + length (takeWhile (\<lambda>c. c \<in> blanks) (drop p buf));
          n = length (takeWhile (\<lambda>c. c \<noteq> DQ \<and> c \<noteq> CHR '','') (drop q buf))
      in if q + n < length buf then Some (cstr (take n (drop q buf)), buf[q + n := NUL]) else None)"

definition opt_field :: "string \<Rightarrow> nat option \<Rightarrow> (string option \<times> string) option" where
  "opt_field buf p = (case p of None \<Rightarrow> Some (None, buf) | Some i \<Rightarrow> do { (v, b) \<leftarrow> take_field buf i; Some (Some v, b) })"

definition CNONCE :: string where "CNONCE = ''UrRqNwb8BU+JqpmnhoM=''"

definition md5_sess_new_from_string :: "string option \<Rightarrow> md5_sess option option" where
  "md5_sess_new_from_string str = (case str of None \<Rightarrow> Some None | Some buf \<Rightarrow>
     (case strstr (cstr buf) ''nonce='' of
        None \<Rightarrow> Some None
      | Some i \<Rightarrow> do {
          (realm, b1) \<leftarrow> opt_field buf (map_option (\<lambda>k. k + 6) (strstr (cstr buf) ''realm=''));
          (nonce, b2) \<leftarrow> take_field b1 (i + 6);
          (qop, b3) \<leftarrow> opt_field b2 (map_option (\<lambda>k. k + 4) (strstr (cstr buf) ''qop=''));
          Some (Some \<lparr>ms_state = 0, ms_realm = realm, ms_nonce = nonce, ms_cnonce = CNONCE, ms_qop = qop\<rparr>)
        }))"

definition hex2 :: "u8 \<Rightarrow> string" where
  "hex2 b = [''0123456789abcdef'' ! (unat b div 16), ''0123456789abcdef'' ! (unat b mod 16)]"

text \<open>\<open>ctx\<close> is the context on the stack, whatever it holds; \<open>raw_md5\<close> the three calls on it.\<close>

definition raw_md5 :: "md5_state \<Rightarrow> u8 list \<Rightarrow> u8 list" where
  "raw_md5 ctx bs = snd (md5_finish (md5_append (md5_init ctx) bs))"

definition get_md5 :: "md5_state \<Rightarrow> u8 list \<Rightarrow> string" where
  "get_md5 ctx bs = concat (map hex2 (raw_md5 ctx bs))"

text \<open>The length that is hashed leaves out the account address, which is written behind it.\<close>

definition get_HA1 :: "md5_state \<Rightarrow> md5_state \<Rightarrow> md5_sess \<Rightarrow> string \<Rightarrow> string \<Rightarrow> string \<Rightarrow> string option" where
  "get_HA1 ctx1 ctx2 ms uname pw jid = do {
     realm \<leftarrow> ms_realm ms;
     let digest = raw_md5 ctx1 (bytes_of (uname @ '':'' @ realm @ '':'' @ pw));
         str = digest @ bytes_of ('':'' @ ms_nonce ms @ '':'' @ ms_cnonce ms @ '':'' @ jid @ [NUL])
     in Some (get_md5 ctx2 (take (16 + length (ms_nonce ms) + length (ms_cnonce ms) + 2) str))
   }"

definition get_HA2 :: "md5_state \<Rightarrow> string \<Rightarrow> string" where
  "get_HA2 ctx realm = get_md5 ctx (bytes_of (''AUTHENTICATE:xmpp/'' @ realm))"

definition quoted :: "string \<Rightarrow> string" where
  "quoted s = DQ # s @ [DQ]"

definition rsp_text :: "string \<Rightarrow> string \<Rightarrow> string \<Rightarrow> string \<Rightarrow> string \<Rightarrow> string \<Rightarrow> string" where
  "rsp_text uname realm nonce cnonce jiddomain response =
     ''username='' @ quoted uname @ '',realm='' @ quoted realm @ '',nonce='' @ quoted nonce @ '',cnonce='' @ quoted cnonce
     @ '',nc=00000001,qop=auth,digest-uri='' @ quoted (''xmpp/'' @ jiddomain) @ '',response='' @ response @ '',charset=utf-8''"

text \<open>
  A session that is made here is not stored for the caller. Both texts are printed into a
  block of 1024 bytes.
\<close>

definition rspauth ::
  "u8 list \<Rightarrow> (nat \<Rightarrow> md5_state) \<Rightarrow> md5_sess option \<Rightarrow> string \<Rightarrow> string \<Rightarrow> string \<Rightarrow> string \<Rightarrow> string \<Rightarrow> (string \<times> md5_sess option) option" where
  "rspauth garbage ctx mds b64str uname pw jid jiddomain =
     (let str = map chr_of (fst (base64_decode garbage (bytes_of b64str)))
      in if strstr (cstr str) ''rspauth'' \<noteq> None then Some ([], mds)
         else do {
           new \<leftarrow> (case mds of Some ms \<Rightarrow> Some (Some ms) | None \<Rightarrow> md5_sess_new_from_string (Some str));
           ms0 \<leftarrow> new;
           let ms = (case ms_realm ms0 of None \<Rightarrow> ms0\<lparr>ms_realm := Some jiddomain\<rparr> | Some _ \<Rightarrow> ms0);
           realm \<leftarrow> ms_realm ms;
           a1 \<leftarrow> get_HA1 (ctx 0) (ctx 1) ms uname pw jid;
           let a2 = get_HA2 (ctx 2) jiddomain;
           qop \<leftarrow> ms_qop ms;
           let t = a1 @ '':'' @ ms_nonce ms @ '':00000001:'' @ ms_cnonce ms @ '':'' @ qop @ '':'' @ a2;
           let out = rsp_text uname realm (ms_nonce ms) (ms_cnonce ms) jiddomain (get_md5 (ctx 3) (bytes_of t));
           if length t < 1024 \<and> length out < 1024
           then Some (b64_string (bytes_of out), map_option (\<lambda>_. ms\<lparr>ms_state := ms_state ms + 1\<rparr>) mds)
           else None
         })"

definition auth_digest_md5_match :: "heap \<Rightarrow> addr \<Rightarrow> attr_list option \<Rightarrow> bool" where
  "auth_digest_md5_match h a as = (case getattr (Some ''xmlns'') as of
       None \<Rightarrow> True
     | Some v \<Rightarrow> strcaseeq v ''urn:ietf:params:xml:ns:xmpp-sasl'')"

definition auth_digest_md5_on_append :: "obj_env \<Rightarrow> heap \<Rightarrow> addr \<Rightarrow> addr \<Rightarrow> (int \<times> heap) option" where
  "auth_digest_md5_on_append env h me parent = do {
     (n, h1) \<leftarrow> x_object_new env h (Some ''auth'');
     msg \<leftarrow> n;
     h2 \<leftarrow> x_object_setattr h1 msg ''xmlns'' (Some ''urn:ietf:params:xml:ns:xmpp-sasl'');
     h3 \<leftarrow> x_object_setattr h2 msg ''mechanism'' (Some ''DIGEST-MD5'');
     (r, h4) \<leftarrow> x_object_send_down env h3 (Some parent) msg None;
     Some (0, h4)
   }"

definition auth_digest_md5_exit :: "u8 list \<Rightarrow> (nat \<Rightarrow> md5_state) \<Rightarrow> obj_env \<Rightarrow> heap \<Rightarrow> addr \<Rightarrow> heap option" where
  "auth_digest_md5_exit garbage ctx env h this = do {
     nm \<leftarrow> x_object_get_name h this;
     name \<leftarrow> nm;
     if \<not> strcaseeq name ''challenge'' then Some h
     else do {
       unam \<leftarrow> x_object_getenv h (Some this) ''username'';
       pw \<leftarrow> x_object_getenv h (Some this) ''pword'';
       jid \<leftarrow> x_object_getenv h (Some this) ''jid'';
       jiddomain \<leftarrow> x_object_getenv h (Some this) ''domain'';
       hostname \<leftarrow> x_object_getenv h (Some this) ''hostname'';
       ob \<leftarrow> objs h this;
       c \<leftarrow> xs_read (o_content ob);
       u \<leftarrow> unam; p \<leftarrow> pw; j \<leftarrow> jid; d \<leftarrow> jiddomain;
       (str, ms) \<leftarrow> rspauth garbage ctx None c u p j d;
       (n, h1) \<leftarrow> x_object_new env h (Some ''response'');
       msg \<leftarrow> n;
       h2 \<leftarrow> x_object_setattr h1 msg ''xmlns'' (Some ''urn:ietf:params:xml:ns:xmpp-sasl'');
       h3 \<leftarrow> write_content env h2 msg str;
       par \<leftarrow> x_object_get_parent h3 (Some this);
       (r, h4) \<leftarrow> x_object_send_down env h3 par msg None;
       Some h4
     }
   }"

end
