(* ===== verification/Core_Stanzas.thy ===== *)
theory Core_Stanzas
  imports Auth_Sasl
begin

text \<open>
  Model of the stanza classes of \<^verbatim>\<open>plugins/core\<close> and \<^verbatim>\<open>plugins/bind\<close>: the callbacks of the
  stream header, the stream features, TLS, SASL, resource binding, \<^verbatim>\<open>iq\<close>, presence and messages.
  A callback takes the heap of objects and returns it changed; what it writes to the transport of
  the session itself is part of its result. \<^theory_text>\<open>None\<close> is undefined behaviour or the end of the
  process. Trace output and callbacks without effect are left out.
\<close>

section \<open>Messages\<close>

text \<open>A new message object with its own name, which is how the callbacks make stanzas.\<close>

definition new_message :: "obj_env \<Rightarrow> heap \<Rightarrow> string \<Rightarrow> (addr \<times> heap) option" where
  "new_message env h nm = do {
     (m, h1) \<leftarrow> x_object_new_ns env h (Some ''$message'') None;
     msg \<leftarrow> m;
     h2 \<leftarrow> x_object_set_name h1 msg nm;
     Some (msg, h2)
   }"

definition new_named :: "obj_env \<Rightarrow> heap \<Rightarrow> string \<Rightarrow> (addr \<times> heap) option" where
  "new_named env h nm = do { (m, h1) \<leftarrow> x_object_new_ns env h (Some nm) None; msg \<leftarrow> m; Some (msg, h1) }"

fun set_attrs :: "heap \<Rightarrow> addr \<Rightarrow> (string \<times> string option) list \<Rightarrow> heap option" where
  "set_attrs h a [] = Some h"
| "set_attrs h a ((k, v) # kvs) = do { h1 \<leftarrow> x_object_setattr h a k v; set_attrs h1 a kvs }"

text \<open>Sending a message towards the network, and dropping it.\<close>

definition send_and_put :: "obj_env \<Rightarrow> heap \<Rightarrow> ptr \<Rightarrow> addr \<Rightarrow> heap option" where
  "send_and_put env h to msg = do {
     (r, h1) \<leftarrow> x_object_send_down env h to msg None;
     x_object_ref_put env h1 (Some msg) None
   }"

section \<open>The stream\<close>

definition stream_match :: "heap \<Rightarrow> addr \<Rightarrow> attr_list option \<Rightarrow> bool option" where
  "stream_match h a as = do {
     a1 \<leftarrow> x_object_getattr h a (Some ''remote'');
     case getattr (Some ''from'') as of
       None \<Rightarrow> Some False
     | Some a2 \<Rightarrow> do { r \<leftarrow> a1; Some (strcaseeq r a2) }
   }"

text \<open>Names of attributes are compared up to their fifth character.\<close>

definition stream_key :: "string \<Rightarrow> string" where
  "stream_key k = (if strncaseeq ''remote'' k 5 then ''to'' else if strncaseeq ''local'' k 5 then ''from'' else k)"

definition APOS :: char where "APOS = CHR 0x27"

definition XML_DECL :: string where
  "XML_DECL = ''<?xml version='' @ [APOS] @ ''1.0'' @ [APOS] @ ''?>''"

definition stream_publish :: "heap \<Rightarrow> addr \<Rightarrow> string option" where
  "stream_publish h stm = do {
     ob \<leftarrow> objs h stm;
     nm \<leftarrow> o_name ob;
     Some (XML_DECL @ ''<'' @ nm @ '':'' @ nm
       @ concat (map (\<lambda>(k, v). '' '' @ stream_key k @ ''='' @ [APOS] @ v @ [APOS]) (o_attrs ob)) @ ''>'')
   }"

definition stream_append :: "heap \<Rightarrow> addr \<Rightarrow> addr \<Rightarrow> (string \<times> int \<times> heap) option" where
  "stream_append h so parent = do {
     h1 \<leftarrow> set_attrs h so [(''xmlns'', Some ''jabber:client''), (''xmlns:stream'', Some ''http://etherx.jabber.org/streams''),
        (''version'', Some ''1.0''), (''xml:lang'', Some ''en''), (''xmlns:xml'', Some ''http://www.w3.org/XML/1998/namespace'')];
     out \<leftarrow> stream_publish h1 so;
     Some (out, 0, h1)
   }"

section \<open>Stream features and TLS\<close>

text \<open>The message that waits for the end of the features is a field of each features object.\<close>

type_synonym slots = "addr \<Rightarrow> ptr"

definition features_tx :: "obj_env \<Rightarrow> addr \<Rightarrow> addr \<Rightarrow> heap \<times> slots \<Rightarrow> (int \<times> heap \<times> slots) option" where
  "features_tx env o1 msg hs = (case hs of (h, sl) \<Rightarrow>
     (case sl o1 of
        Some _ \<Rightarrow> Some (0, h, sl)
      | None \<Rightarrow> do { (c, h1) \<leftarrow> x_object_full_copy env h msg; Some (0, h1, sl(o1 := c)) }))"

definition features_exit :: "obj_env \<Rightarrow> addr \<Rightarrow> heap \<times> slots \<Rightarrow> (heap \<times> slots) option" where
  "features_exit env this hs = (case hs of (h, sl) \<Rightarrow>
     (case sl this of
        None \<Rightarrow> Some (h, sl(this := None))
      | Some m \<Rightarrow> do {
          par \<leftarrow> x_object_get_parent h (Some this);
          h1 \<leftarrow> send_and_put env h par m;
          Some (h1, sl(this := None))
        }))"

definition NS_TLS :: string where "NS_TLS = ''urn:ietf:params:xml:ns:xmpp-tls''"
definition NS_SASL :: string where "NS_SASL = ''urn:ietf:params:xml:ns:xmpp-sasl''"
definition NS_BIND :: string where "NS_BIND = ''urn:ietf:params:xml:ns:xmpp-bind''"

definition tls_match :: "attr_list option \<Rightarrow> bool" where
  "tls_match as = (case as of None \<Rightarrow> True | Some _ \<Rightarrow>
     (case getattr (Some ''xmlns'') as of None \<Rightarrow> True | Some a \<Rightarrow> strcaseeq a NS_TLS))"

definition tls_append :: "obj_env \<Rightarrow> heap \<Rightarrow> addr \<Rightarrow> addr \<Rightarrow> (int \<times> heap) option" where
  "tls_append env h me parent = do {
     nm \<leftarrow> x_object_get_name h me;
     name \<leftarrow> nm;
     if strcaseeq name ''starttls'' then do {
       (msg, h1) \<leftarrow> new_named env h ''starttls'';
       h2 \<leftarrow> x_object_setattr h1 msg ''xmlns'' (Some NS_TLS);
       h3 \<leftarrow> send_and_put env h2 (Some parent) msg;
       Some (0, h3)
     } else Some (0, h)
   }"

text \<open>
  \<open>start\<close> is the result of \<^verbatim>\<open>xmpp_start_tls\<close>, whether there is a new transport; the first
  component of the result tells whether the session has got it.
\<close>

definition tls_exit :: "obj_env \<Rightarrow> bool \<Rightarrow> bus pparser \<Rightarrow> addr \<Rightarrow> (bool \<times> bus pparser) option" where
  "tls_exit env start p o1 = do {
     nm \<leftarrow> x_object_get_name (hp (cbdata p)) o1;
     name \<leftarrow> nm;
     if strcaseeq name ''proceed'' then do { p1 \<leftarrow> x_bus_reset_stream env p; Some (start, p1) }
     else if strcaseeq name ''failure'' then Some (False, p)
     else if strcaseeq name ''starttls'' then Some (False, p)
     else None
   }"

section \<open>SASL\<close>

definition sasl_match :: "attr_list option \<Rightarrow> bool" where
  "sasl_match as = (case as of None \<Rightarrow> False | Some _ \<Rightarrow>
     (case getattr (Some ''xmlns'') as of None \<Rightarrow> True | Some a \<Rightarrow> strcaseeq a NS_SASL))"

definition sasl_class_match :: "attr_list option \<Rightarrow> bool" where
  "sasl_class_match as = (case as of None \<Rightarrow> False | Some _ \<Rightarrow>
     (case getattr (Some ''xmlns'') as of None \<Rightarrow> False | Some a \<Rightarrow> strcaseeq a NS_SASL))"

definition sasl_assign :: "heap \<Rightarrow> addr \<Rightarrow> attr_list \<Rightarrow> heap option" where
  "sasl_assign h a as = x_object_default_assign_cb h a as"

text \<open>The first mechanism that is PLAIN, among the children of that name.\<close>

partial_function (option) mech_loop :: "heap \<Rightarrow> ptr \<Rightarrow> bool option" where
  "mech_loop h p = (case p of
       None \<Rightarrow> Some False
     | Some a \<Rightarrow> do {
         ob \<leftarrow> objs h a;
         c \<leftarrow> xs_read (o_content ob);
         if strcaseeq c ''PLAIN'' then Some True else mech_loop h (o_next ob)
       })"

definition sasl_exit :: "obj_env \<Rightarrow> bus pparser \<Rightarrow> addr \<Rightarrow> bus pparser option" where
  "sasl_exit env p o1 = (let h = hp (cbdata p) in do {
     ns \<leftarrow> x_object_getattr h o1 (Some ''xmlns'');
     (case ns of
        None \<Rightarrow> Some p
      | Some v \<Rightarrow>
          if \<not> strcaseeq v NS_SASL then Some p
          else do {
            nm \<leftarrow> x_object_get_name h o1;
            name \<leftarrow> nm;
            if strcaseeq name ''success'' \<or> strcaseeq name ''failure'' then x_bus_reset_stream env p
            else do {
              first \<leftarrow> x_object_get_child h (Some o1) (Some ''mechanism'');
              plain \<leftarrow> mech_loop h first;
              if plain then do {
                (msg, h1) \<leftarrow> new_named env h ''auth-plain'';
                par \<leftarrow> x_object_get_parent h1 (Some o1);
                (r, h2) \<leftarrow> x_object_append_child env h1 par msg;
                Some (p\<lparr>cbdata := (cbdata p)\<lparr>hp := h2\<rparr>\<rparr>)
              } else Some p
            }
          })
   })"

section \<open>Resource binding\<close>

definition bind_match :: "attr_list option \<Rightarrow> bool" where
  "bind_match as = (case getattr (Some ''xmlns'') as of None \<Rightarrow> False | Some a \<Rightarrow> strcaseeq a NS_BIND)"

definition bind_state_is :: "string option \<Rightarrow> string \<Rightarrow> bool" where
  "bind_state_is bs v \<longleftrightarrow> (case bs of None \<Rightarrow> False | Some s \<Rightarrow> strcaseeq s v)"

text \<open>The request goes out with the first attributes that the object is given.\<close>

definition bind_on_assign :: "obj_env \<Rightarrow> heap \<Rightarrow> addr \<Rightarrow> attr_list \<Rightarrow> heap option" where
  "bind_on_assign env h this as = do {
     val \<leftarrow> x_object_getattr h this (Some ''$bind_state'');
     if bind_state_is val ''BIND_SENT'' \<or> bind_state_is val ''BIND_OK'' then Some h
     else do {
       (msg, h1) \<leftarrow> new_named env h ''bind'';
       h2 \<leftarrow> x_object_setattr h1 msg ''xmlns'' (Some NS_BIND);
       (res, h3) \<leftarrow> new_named env h2 ''resource'';
       r \<leftarrow> x_object_getenv h3 (Some this) ''resource'';
       rs \<leftarrow> r;
       h4 \<leftarrow> write_content env h3 res rs;
       (r1, h5) \<leftarrow> x_object_append_child env h4 (Some msg) res;
       (iq, h6) \<leftarrow> new_named env h5 ''iq'';
       h7 \<leftarrow> set_attrs h6 iq [(''type'', Some ''set''), (''id'', Some ''bind_1'')];
       (r2, h8) \<leftarrow> x_object_append_child env h7 (Some iq) msg;
       h9 \<leftarrow> x_object_setattr h8 this ''$bind_state'' (Some ''BIND_SENT'');
       bus \<leftarrow> fld h9 this o_bus;
       send_and_put env h9 bus iq
     }
   }"

text \<open>What is behind the last slash.\<close>

definition after_slash :: "string \<Rightarrow> string option" where
  "after_slash s = (if CHR ''/'' \<in> set s then Some (rev (takeWhile (\<lambda>c. c \<noteq> CHR ''/'') (rev s))) else None)"

definition bind_exit :: "obj_env \<Rightarrow> heap \<Rightarrow> addr \<Rightarrow> heap option" where
  "bind_exit env h this = do {
     state \<leftarrow> x_object_getattr h this (Some ''$bind_state'');
     if \<not> bind_state_is state ''BIND_SENT'' then Some h
     else do {
       o1 \<leftarrow> x_object_get_child h (Some this) (Some ''jid'');
       (case o1 of
          None \<Rightarrow> Some h
        | Some j \<Rightarrow> do {
            h1 \<leftarrow> x_object_setattr h this ''$bind_state'' (Some ''BIND_OK'');
            job \<leftarrow> objs h1 j;
            jid \<leftarrow> xs_read (o_content job);
            b \<leftarrow> fld h1 this o_bus;
            bus \<leftarrow> b;
            h2 \<leftarrow> x_object_setattr h1 bus ''jid'' (Some jid);
            h3 \<leftarrow> (case after_slash jid of None \<Rightarrow> Some h2 | Some r \<Rightarrow> x_object_setattr h2 bus ''resource'' (Some r));
            tmp \<leftarrow> x_object_get_child h3 (Some bus) (Some ''stream:stream'');
            (case tmp of
               None \<Rightarrow> Some h3
             | Some _ \<Rightarrow> do {
                 (m, h4) \<leftarrow> new_named env h3 ''iq'';
                 h5 \<leftarrow> set_attrs h4 m [(''type'', Some ''set''), (''id'', Some ''bind_2'')];
                 (msg, h6) \<leftarrow> new_named env h5 ''session'';
                 h7 \<leftarrow> x_object_setattr h6 msg ''xmlns'' (Some ''urn:ietf:params:xml:ns:xmpp-session'');
                 (r1, h8) \<leftarrow> x_object_append_child env h7 (Some m) msg;
                 h9 \<leftarrow> send_and_put env h8 tmp m;
                 (pres, h10) \<leftarrow> new_named env h9 ''presence'';
                 (r2, h11) \<leftarrow> x_object_append_child env h10 tmp pres;
                 Some h11
               })
          })
     }
   }"

section \<open>Iq\<close>

definition iq_match :: "heap \<Rightarrow> addr \<Rightarrow> attr_list option \<Rightarrow> bool option" where
  "iq_match h a as = do {
     from2 \<leftarrow> x_object_getattr h a (Some ''from'');
     Some (case (getattr (Some ''from'') as, from2) of
       (None, None) \<Rightarrow> True
     | (Some f1, Some f2) \<Rightarrow> strcaseeq f1 f2
     | _ \<Rightarrow> False)
   }"

text \<open>The result is null for an iq without a type.\<close>

definition iq_on_assign :: "heap \<Rightarrow> addr \<Rightarrow> attr_list \<Rightarrow> (ptr \<times> heap) option" where
  "iq_on_assign h a as = do {
     h1 \<leftarrow> x_object_default_assign_cb h a as;
     Some (case getattr (Some ''type'') (Some as) of None \<Rightarrow> None | Some _ \<Rightarrow> Some a, h1)
   }"

text \<open>The attributes of the answer to the iq \<open>o1\<close>; setting an attribute to null removes it.\<close>

definition iq_tx_attrs :: "heap \<Rightarrow> addr \<Rightarrow> addr \<Rightarrow> attr_list option \<Rightarrow> heap option" where
  "iq_tx_attrs h iqo o1 ctx = do {
     id1 \<leftarrow> x_object_getattr h o1 (Some ''id'');
     h1 \<leftarrow> x_object_setattr h iqo ''id'' id1;
     (case ctx of
        None \<Rightarrow> x_object_setattr h1 iqo ''type'' (Some ''get'')
      | Some _ \<Rightarrow> do {
          h2 \<leftarrow> x_object_setattr h1 iqo ''type'' (getattr (Some ''#type'') ctx);
          case getattr (Some ''#id'') ctx of None \<Rightarrow> Some h2 | Some v \<Rightarrow> x_object_setattr h2 iqo ''id'' (Some v)
        })
   }"

definition iq_tx :: "obj_env \<Rightarrow> heap \<Rightarrow> addr \<Rightarrow> ptr \<Rightarrow> attr_list option \<Rightarrow> (int \<times> heap) option" where
  "iq_tx env h o1 msg ctx = do {
     (iqo, h1) \<leftarrow> new_message env h ''iq'';
     h2 \<leftarrow> iq_tx_attrs h1 iqo o1 ctx;
     h3 \<leftarrow> (case msg of
         None \<Rightarrow> Some h2
       | Some m \<Rightarrow> do {
           (c, h') \<leftarrow> x_object_full_copy env h2 m;
           copy \<leftarrow> c;
           (r, h'') \<leftarrow> x_object_append_child_no_cb h' (Some iqo) copy;
           Some h''
         });
     to \<leftarrow> x_object_getattr h3 o1 (Some ''to'');
     h4 \<leftarrow> x_object_setattr h3 iqo ''from'' to;
     fr \<leftarrow> x_object_getattr h4 o1 (Some ''from'');
     h5 \<leftarrow> x_object_setattr h4 iqo ''to'' fr;
     _ \<leftarrow> (case msg of None \<Rightarrow> Some [] | Some m \<Rightarrow> do { nm \<leftarrow> x_object_get_name h5 m; nm });
     par \<leftarrow> x_object_get_parent h5 (Some o1);
     h6 \<leftarrow> send_and_put env h5 par iqo;
     Some (0, h6)
   }"

section \<open>Presence\<close>

text \<open>The own presence, sent when the object is appended; a timer is started as well.\<close>

definition presence_on_append :: "obj_env \<Rightarrow> heap \<Rightarrow> addr \<Rightarrow> addr \<Rightarrow> (int \<times> heap) option" where
  "presence_on_append env h so parent = do {
     (msg, h1) \<leftarrow> new_message env h ''presence'';
     (pr, h2) \<leftarrow> new_message env h1 ''priority'';
     (r1, h3) \<leftarrow> x_object_set_content env h2 pr ''50'' 2;
     (r2, h4) \<leftarrow> x_object_append_child_no_cb h3 (Some msg) pr;
     (c, h5) \<leftarrow> new_message env h4 ''c'';
     h6 \<leftarrow> set_attrs h5 c [(''xmlns'', Some ''http://jabber.org/protocol/caps''), (''node'', Some ''http://xmppbot.gobee.org/caps''),
        (''ver'', Some ''0.0001''), (''ext'', Some ''ca cs cv e-time ep-notify-2 html last-actmr sxe whiteboard camera-v1 video-v1 voice-v1'')];
     (r3, h7) \<leftarrow> x_object_append_child_no_cb h6 (Some msg) c;
     h8 \<leftarrow> send_and_put env h7 (Some parent) msg;
     Some (0, h8)
   }"

text \<open>The timer writes one blank.\<close>

definition presence_keepalive :: string where "presence_keepalive = '' ''"

text \<open>
  A presence that came in is entered below the directory \<open>entry\<close> once; \<open>tail\<close> is what memory
  holds behind the copy of the address.
\<close>

definition presence_exit :: "obj_env \<Rightarrow> ptr \<Rightarrow> string \<Rightarrow> heap \<Rightarrow> addr \<Rightarrow> heap option" where
  "presence_exit env entry tail h this = do {
     v \<leftarrow> x_object_getattr h this (Some ''from'');
     h3 \<leftarrow> (case v of
         None \<Rightarrow> Some h
       | Some jid \<Rightarrow> do {
           r \<leftarrow> from_path_loop h entry jid tail;
           if r = None \<or> r = entry then do {
             (q, h1) \<leftarrow> x_object_add_path env h entry jid None;
             (m, h2) \<leftarrow> x_object_new_ns env h1 (Some ''$message'') None;
             msg \<leftarrow> m;
             h' \<leftarrow> set_attrs h2 msg [(''subject'', Some ''presence-update''), (''jid'', Some jid)];
             h'' \<leftarrow> x_object_sendmsg_multicast env h' this msg;
             x_object_ref_put env h'' (Some msg) None
           } else Some h
         });
     c \<leftarrow> x_object_get_child h3 (Some this) (Some ''c'');
     h4 \<leftarrow> x_object_ref_put env h3 c None;
     pr \<leftarrow> x_object_get_child h4 (Some this) (Some ''priority'');
     x_object_ref_put env h4 pr None
   }"

section \<open>Messages of a chat\<close>

definition msg_match :: "heap \<Rightarrow> addr \<Rightarrow> attr_list option \<Rightarrow> bool option" where
  "msg_match h a as = do {
     from2 \<leftarrow> x_object_getattr h a (Some ''from'');
     Some (case (getattr (Some ''from'') as, from2) of (Some f1, Some f2) \<Rightarrow> strcaseeq f1 f2 | _ \<Rightarrow> False)
   }"

definition chat_attrs :: "heap \<Rightarrow> addr \<Rightarrow> addr \<Rightarrow> heap option" where
  "chat_attrs h msg a = do {
     jid \<leftarrow> x_object_getenv h (Some a) ''jid'';
     h1 \<leftarrow> x_object_setattr h msg ''from'' jid;
     peer \<leftarrow> x_object_getattr h1 a (Some ''from'');
     set_attrs h1 msg [(''to'', peer), (''type'', Some ''chat''), (''id'', Some ''12345''), (''xml:lang'', Some ''en'')]
   }"

text \<open>What is written to the object goes to the peer as the body of a chat message.\<close>

definition msg_write_back_handler :: "obj_env \<Rightarrow> heap \<Rightarrow> addr \<Rightarrow> string \<Rightarrow> nat \<Rightarrow> (int \<times> heap) option" where
  "msg_write_back_handler env h a buf len = do {
     ob \<leftarrow> objs h a;
     c \<leftarrow> o_class ob;
     (msg, h1) \<leftarrow> new_message env h (cname (cls env c));
     h2 \<leftarrow> chat_attrs h1 msg a;
     (tmp, h3) \<leftarrow> new_named env h2 ''body'';
     tob \<leftarrow> objs h3 tmp;
     x \<leftarrow> x_string_write (cjunk env) (o_content tob) buf len;
     h4 \<leftarrow> upd h3 tmp (\<lambda>ob. ob\<lparr>o_content := x\<rparr>);
     (r, h5) \<leftarrow> x_object_append_child env h4 (Some msg) tmp;
     bus \<leftarrow> fld h5 a o_bus;
     h6 \<leftarrow> send_and_put env h5 bus msg;
     Some (0, h6)
   }"

text \<open>A message that the object receives inside the program is sent to the peer.\<close>

definition msg_msg_recv :: "obj_env \<Rightarrow> heap \<Rightarrow> addr \<Rightarrow> addr \<Rightarrow> (int \<times> heap) option" where
  "msg_msg_recv env h to msg0 = do {
     (msg, h1) \<leftarrow> new_message env h ''message'';
     h2 \<leftarrow> chat_attrs h1 msg to;
     (tmp, h3) \<leftarrow> new_message env h2 ''body'';
     mob \<leftarrow> objs h3 msg0;
     (r, h4) \<leftarrow> x_object_set_content env h3 tmp (xs_block (o_content mob)) (unat (pos (o_content mob)));
     (r1, h5) \<leftarrow> x_object_append_child_no_cb h4 (Some msg) tmp;
     par \<leftarrow> x_object_get_parent h5 (Some to);
     h6 \<leftarrow> send_and_put env h5 par msg;
     Some (0, h6)
   }"

end
