(* ===== verification/Xw_Bus_Proofs.thy ===== *)
theory Xw_Bus_Proofs
  imports Xw_Bus Xw_Obj_Claims
begin

text \<open>
  What an opening, a character and a closing do to the heap when the classes have no
  callbacks: the step lemmas from which the session rebuilds a tree.
\<close>

section \<open>Classes without callbacks\<close>

definition plain_env :: "obj_env \<Rightarrow> bool" where
  "plain_env env \<longleftrightarrow> (\<forall>c. on_create (cls env c) = None \<and> on_append (cls env c) = None \<and> on_child_append (cls env c) = None
     \<and> c_match (cls env c) = None \<and> on_assign (cls env c) = None \<and> c_commit (cls env c) = None \<and> on_release (cls env c) = None)
     \<and> (\<forall>nm x h. path_notify env nm x h = Some h)"

lemma plain_slots:
  assumes "plain_env env"
  shows "slot env on_create ob = None" "slot env on_append ob = None" "slot env on_child_append ob = None" "slot env c_match ob = None"
    "slot env on_assign ob = None" "slot env c_commit ob = None" "slot env on_release ob = None"
  using assms by (simp_all add: plain_env_def slot_def split: option.split)

lemma plain_calls:
  assumes "plain_env env" "objs h a = Some ob"
  shows "call1 env on_create a h = Some h" "call1 env on_release a h = Some h" "call1 env c_commit a h = Some h"
    "call2 env on_append a b h = Some h" "call2 env on_child_append a b h = Some h"
  using assms plain_slots [OF assms(1), of ob] by (simp_all add: call1_def call2_def)

text \<open>Addresses from \<open>brk\<close> on are unused, also as parents.\<close>

definition heap_ok :: "heap \<Rightarrow> bool" where
  "heap_ok h \<longleftrightarrow> (\<forall>a. brk h \<le> a \<longrightarrow> objs h a = None) \<and> (\<forall>a ob p. objs h a = Some ob \<longrightarrow> o_parent ob = Some p \<longrightarrow> p < brk h)"

lemma heap_ok_less: "heap_ok h \<Longrightarrow> objs h a = Some ob \<Longrightarrow> a < brk h"
  unfolding heap_ok_def by (metis not_le option.distinct(1))

text \<open>A new object.\<close>

definition is_new :: "string \<Rightarrow> xobject \<Rightarrow> bool" where
  "is_new nm ob \<longleftrightarrow> o_name ob = Some nm \<and> o_attrs ob = [] \<and> o_content ob = X_STRING_STATIC_INIT \<and> o_refs ob = 1
     \<and> o_parent ob = None \<and> o_next ob = None \<and> o_sibling ob = None \<and> o_sons ob = None \<and> o_listeners ob = []"

lemma new_object:
  assumes e: "plain_env env" and nm: "LF \<notin> set nm"
  shows "\<exists>ob h1. x_object_new_ns_match env h (Some nm) ns hints True = Some (Some (brk h), h1) \<and> is_new nm ob
    \<and> objs h1 = (objs h)(brk h \<mapsto> ob) \<and> brk h1 = brk h + 1"
proof -
  let ?cl = "get_class env nm ns hints True"
  let ?ob = "(new_xobject (case ?cl of None \<Rightarrow> 0 | Some c \<Rightarrow> psize (cls env c)))\<lparr>o_name := Some nm, o_class := ?cl\<rparr>"
  have tw: "takeWhile (\<lambda>c. c \<noteq> LF) nm = nm" using nm by (auto simp: takeWhile_eq_all_conv)
  have "x_object_new_ns_match env h (Some nm) ns hints True = Some (Some (brk h), h\<lparr>objs := (objs h)(brk h \<mapsto> ?ob), brk := brk h + 1\<rparr>)"
    unfolding x_object_new_ns_match_def option.case tw
    by (simp add: Let_def x_object_alloc_def x_object_init_def x_object_set_name_def upd_def
        x_string_trunc_def X_STRING_STATIC_INIT_def new_xobject_def plain_calls [OF e] attr_list_init_def)
  moreover have "is_new nm ?ob" by (simp add: is_new_def new_xobject_def attr_list_init_def)
  ultimately show ?thesis by (intro exI [of _ ?ob] exI conjI) (assumption, assumption, simp_all)
qed

lemma index_loop_child: "seg o_sibling h q as None \<Longrightarrow> \<exists>i. index_loop h x q n = Some i"
proof (induction as arbitrary: q n)
  case Nil
  then show ?case by (simp add: index_loop.simps)
next
  case (Cons a as)
  then obtain ob where "q = Some a" "objs h a = Some ob" "seg o_sibling h (o_sibling ob) as None" by (auto split: option.splits)
  then show ?case using Cons.IH by (subst index_loop.simps) auto
qed

lemma message_name: "LF \<notin> set ''$message''"
  by code_simp

text \<open>The event of a parent without listeners: a message that lives no longer than the call.\<close>

lemma child_event_quiet:
  assumes e: "plain_env env" and h: "heap_ok h" and p: "objs h p = Some po" "o_listeners po = []" and c: "objs h c = Some co" "o_name co = Some nm"
  shows "child_event env h p c subj ix = Some (h\<lparr>brk := brk h + 1\<rparr>)"
proof -
  obtain ob h1 where n: "x_object_new_ns_match env h (Some ''$message'') None None True = Some (Some (brk h), h1)" "is_new ''$message'' ob"
    "objs h1 = (objs h)(brk h \<mapsto> ob)" "brk h1 = brk h + 1"
    using new_object [OF e message_name, of h None None] by blast
  have h1: "h1 = \<lparr>objs = (objs h)(brk h \<mapsto> ob), brk = brk h + 1\<rparr>" using n(3,4) by (cases h1) simp
  have ne: "p \<noteq> brk h" "c \<noteq> brk h" using heap_ok_less [OF h] p(1) c(1) by blast+
  have fr: "(objs h)(brk h := None) = objs h" using h by (auto simp: heap_ok_def)
  show ?thesis
    using n(1,2) ne p c fr plain_slots [OF e]
    by (simp add: child_event_def x_object_new_ns_def h1 x_object_setattr_def upd_def x_object_get_name_def fld_def
        x_object_sendmsg_multicast_def mcast_loop.simps x_object_ref_put_def is_new_def x_object_destroy_def call1_def
        x_object_destroy_no_cb_def x_object_get_parent_def x_object_destroy_raw_def free_def)
qed

section \<open>What a child list keeps\<close>

text \<open>
  From \<open>h\<close> to \<open>h'\<close> at most the list of the children of \<open>p\<close> changed, and the contents of no object
  that \<open>h\<close> has.
\<close>

definition keeps :: "addr \<Rightarrow> addr \<Rightarrow> xobject \<Rightarrow> xobject \<Rightarrow> bool" where
  "keeps p a ob ob' \<longleftrightarrow> o_name ob' = o_name ob \<and> o_attrs ob' = o_attrs ob \<and> o_content ob' = o_content ob
     \<and> o_parent ob' = o_parent ob \<and> o_listeners ob' = o_listeners ob
     \<and> (a \<noteq> p \<longrightarrow> o_sons ob' = o_sons ob)
     \<and> (o_parent ob \<noteq> Some p \<longrightarrow> o_sibling ob' = o_sibling ob \<and> o_next ob' = o_next ob)"

definition kept :: "addr \<Rightarrow> heap \<Rightarrow> heap \<Rightarrow> bool" where
  "kept p h h' \<longleftrightarrow> brk h \<le> brk h' \<and> (\<forall>a ob. objs h a = Some ob \<longrightarrow> (\<exists>ob'. objs h' a = Some ob' \<and> keeps p a ob ob'))"

lemma keptD: "kept p h h' \<Longrightarrow> objs h a = Some ob \<Longrightarrow> \<exists>ob'. objs h' a = Some ob' \<and> keeps p a ob ob'"
  by (simp add: kept_def)

lemma kept_brk: "kept p h h' \<Longrightarrow> brk h \<le> brk h'"
  by (simp add: kept_def)

text \<open>Work below a new object does not count.\<close>

lemma kept_trans:
  assumes k1: "kept p h h1" and k2: "kept x h1 h2" and h: "heap_ok h" and x: "x = p \<or> brk h \<le> x"
  shows "kept p h h2"
  unfolding kept_def
proof (intro conjI allI impI)
  show "brk h \<le> brk h2" using k1 k2 kept_brk by (meson order_trans)
  fix a ob assume a: "objs h a = Some ob"
  obtain o1 where o1: "objs h1 a = Some o1" "keeps p a ob o1" using keptD [OF k1 a] by blast
  obtain o2 where o2: "objs h2 a = Some o2" "keeps x a o1 o2" using keptD [OF k2 o1(1)] by blast
  have "a < brk h" using heap_ok_less [OF h a] .
  moreover have "q < brk h" if "o_parent ob = Some q" for q using h a that by (auto simp: heap_ok_def)
  ultimately have "keeps p a ob o2" using o1(2) o2(2) x unfolding keeps_def by auto
  then show "\<exists>ob'. objs h2 a = Some ob' \<and> keeps p a ob ob'" using o2(1) by blast
qed

text \<open>Objects that only \<open>h'\<close> has do not matter.\<close>

lemma kept_new:
  assumes "heap_ok h" "\<And>a. a < brk h \<Longrightarrow> objs h' a = objs h a" "brk h \<le> brk h'"
  shows "kept p h h'"
  unfolding kept_def keeps_def using assms heap_ok_less [OF assms(1)] by auto

definition family :: "heap \<Rightarrow> addr \<Rightarrow> addr list \<Rightarrow> bool" where
  "family h p as \<longleftrightarrow> kids h p as \<and> nexts_ok h as \<and> (\<forall>a \<in> set as. map_option o_parent (objs h a) = Some (Some p))"

lemma family_alive: "family h p as \<Longrightarrow> a \<in> set (p # as) \<Longrightarrow> \<exists>ob. objs h a = Some ob"
  by (auto simp: family_def kids_def list_all_iff named_def)

lemma family_kept:
  assumes f: "family h p as" and k: "kept q h h'" and ne: "q \<noteq> p"
  shows "family h' p as"
proof -
  obtain po where po: "objs h p = Some po" "seg o_sibling h (o_sons po) as None" "distinct (p # as)" "list_all (named h) as"
    using f by (auto simp: family_def kids_def)
  have mem: "\<exists>ob ob'. objs h a = Some ob \<and> objs h' a = Some ob' \<and> o_name ob' = o_name ob \<and> o_parent ob' = Some p
     \<and> o_sibling ob' = o_sibling ob \<and> o_next ob' = o_next ob" if a: "a \<in> set as" for a
  proof -
    obtain ob where ob: "objs h a = Some ob" "o_parent ob = Some p" using f a by (auto simp: family_def)
    then show ?thesis using keptD [OF k ob(1)] ne by (auto simp: keeps_def)
  qed
  obtain po' where po': "objs h' p = Some po'" "o_sons po' = o_sons po" using keptD [OF k po(1)] ne by (auto simp: keeps_def)
  have "list_all (\<lambda>a. map_option o_sibling (objs h' a) = map_option o_sibling (objs h a)) as"
    using mem by (fastforce simp: list_all_iff)
  then have "seg o_sibling h' (o_sons po') as None" using po(2) po'(2) seg_cong by simp
  moreover have "list_all (named h') as" using po(4) mem by (fastforce simp: list_all_iff named_def)
  ultimately have "kids h' p as" using po(3) po'(1) by (simp add: kids_def)
  moreover have "nexts_ok h' as"
    unfolding nexts_ok_def
  proof (intro allI impI)
    fix i ob' assume i: "i < length as" "objs h' (as ! i) = Some ob'"
    then obtain ob where "objs h (as ! i) = Some ob" "o_next ob' = o_next ob" using mem [of "as ! i"] by auto
    then show "case o_next ob' of None \<Rightarrow> True | Some b \<Rightarrow> b \<in> set (drop (i + 1) as)"
      using f i(1) by (simp add: family_def nexts_ok_def)
  qed
  moreover have "\<forall>a \<in> set as. map_option o_parent (objs h' a) = Some (Some p)" using mem by fastforce
  ultimately show ?thesis by (simp add: family_def)
qed

section \<open>A new child\<close>

text \<open>Appending a new object, with the event it leads to.\<close>

lemma append_step:
  assumes h: "heap_ok h" and f: "family h p as" and po: "objs h p = Some po"
    and x: "objs h x = Some xo" "o_next xo = None" "o_name xo = Some nm" "x \<notin> set (p # as)"
  defines "xo' \<equiv> xo\<lparr>o_parent := Some p, o_next := None, o_sibling := None, o_refs := o_refs xo + 1, o_bus := o_bus po\<rparr>"
    and "po' \<equiv> po\<lparr>o_sons := (if as = [] then Some x else o_sons po), o_count := o_count po + 1, o_refs := o_refs po + 1, o_cr := o_cr po OR XOBJ_CR_DIRTY\<rparr>"
  shows "\<exists>h1. x_object_append_child_no_cb h (Some p) x = Some (0, h1) \<and> heap_ok h1 \<and> family h1 p (as @ [x]) \<and> brk h1 = brk h
    \<and> objs h1 x = Some xo' \<and> objs h1 p = Some po' \<and> (\<forall>a. a \<notin> set (p # x # as) \<longrightarrow> objs h1 a = objs h a)
    \<and> (\<forall>a ob. a \<noteq> x \<longrightarrow> objs h a = Some ob \<longrightarrow> (\<exists>ob'. objs h1 a = Some ob' \<and> keeps p a ob ob'))"
proof -
  have k: "kids h p as" "nexts_ok h as" using f by (simp_all add: family_def)
  obtain h0 where "x_object_insert_into_tree h (Some p) (Some x) = Some (0, h0)"
    by (rule x_object_insert_into_tree_kids [OF k x])
  from x_object_append_child_no_cb_links [OF k x this] obtain h1 where
    h1: "x_object_append_child_no_cb h (Some p) x = Some (0, h1)" "appended h p as x h1" "brk h1 = brk h" by blast
  have at: "objs h1 x = Some xo'" "objs h1 p = Some po'" "kids h1 p (as @ [x])" "nexts_ok h1 (as @ [x])"
    and far: "\<And>a. a \<notin> set (p # x # as) \<Longrightarrow> objs h1 a = objs h a"
    and near: "\<And>a. a \<in> set as \<Longrightarrow> map_option (\<lambda>ob. ob\<lparr>o_sibling := None, o_next := None\<rparr>) (objs h1 a)
           = map_option (\<lambda>ob. ob\<lparr>o_sibling := None, o_next := None\<rparr>) (objs h a)"
    using h1(2) x(1) po by (simp_all add: appended_def xo'_def po'_def)
  have mem: "\<exists>ob ob'. objs h a = Some ob \<and> o_parent ob = Some p \<and> objs h1 a = Some ob' \<and> keeps p a ob ob'" if a: "a \<in> set as" for a
  proof -
    obtain ob where ob: "objs h a = Some ob" "o_parent ob = Some p" using f a by (auto simp: family_def)
    then obtain ob' where ob': "objs h1 a = Some ob'" "ob'\<lparr>o_sibling := None, o_next := None\<rparr> = ob\<lparr>o_sibling := None, o_next := None\<rparr>"
      using near [OF a] by (cases "objs h1 a") auto
    have "keeps p a ob ob'" using ob'(2) ob(2) by (cases ob; cases ob') (simp add: keeps_def)
    then show ?thesis using ob ob' by blast
  qed
  have kp: "\<exists>ob'. objs h1 a = Some ob' \<and> keeps p a ob ob'" if a: "a \<noteq> x" "objs h a = Some ob" for a ob
  proof (cases "a \<in> set as")
    case True
    then show ?thesis using mem a(2) by fastforce
  next
    case False
    then show ?thesis using far [of a] a po at(2) by (cases "a = p") (auto simp: keeps_def po'_def)
  qed
  have ok1: "heap_ok h1"
    unfolding heap_ok_def
  proof (intro conjI allI impI)
    show "objs h1 a = None" if "brk h1 \<le> a" for a
    proof (cases "a \<in> set (p # x # as)")
      case True
      then have "objs h a \<noteq> None" using po x(1) mem by auto
      then show ?thesis using h that h1(3) by (auto simp: heap_ok_def)
    next
      case False
      then show ?thesis using far h that h1(3) by (simp add: heap_ok_def)
    qed
    show "q < brk h1" if "objs h1 a = Some ob'" "o_parent ob' = Some q" for a ob' q
    proof (cases "a = x")
      case True
      then show ?thesis using that at(1) heap_ok_less [OF h po] h1(3) by (auto simp: xo'_def)
    next
      case False
      then have "objs h a \<noteq> None" using that(1) far [of a] po mem by (cases "a \<in> set (p # as)") (auto dest: sym)
      then obtain ob where ob: "objs h a = Some ob" by blast
      then show ?thesis using kp [OF False ob] that h h1(3) by (auto simp: keeps_def heap_ok_def)
    qed
  qed
  have "\<forall>a \<in> set (as @ [x]). map_option o_parent (objs h1 a) = Some (Some p)"
    using mem at(1) by (fastforce simp: keeps_def xo'_def)
  then have "family h1 p (as @ [x])" using at by (simp add: family_def)
  with h1(1,3) ok1 at(1,2) far kp show ?thesis by blast
qed

lemma append_new:
  assumes e: "plain_env env" and h: "heap_ok h" and f: "family h p as" and po: "objs h p = Some po" "o_listeners po = []"
    and x: "objs h x = Some xo" "is_new nm xo" "x \<notin> set (p # as)" and up: "\<forall>a ob. objs h a = Some ob \<longrightarrow> o_parent ob \<noteq> Some x"
  shows "\<exists>h' xo'. x_object_append_child env h (Some p) x = Some (0, h') \<and> heap_ok h' \<and> family h' p (as @ [x])
    \<and> brk h' = brk h + 1 \<and> objs h' x = Some xo' \<and> o_name xo' = Some nm \<and> o_attrs xo' = [] \<and> o_content xo' = X_STRING_STATIC_INIT
    \<and> o_parent xo' = Some p \<and> o_sons xo' = None \<and> o_listeners xo' = []
    \<and> (\<forall>a ob. a \<noteq> x \<longrightarrow> objs h a = Some ob \<longrightarrow> (\<exists>ob'. objs h' a = Some ob' \<and> keeps p a ob ob'))"
proof -
  have xo: "o_next xo = None" "o_name xo = Some nm" using x(2) by (simp_all add: is_new_def)
  let ?xo = "xo\<lparr>o_parent := Some p, o_next := None, o_sibling := None, o_refs := o_refs xo + 1, o_bus := o_bus po\<rparr>"
  let ?po = "po\<lparr>o_sons := (if as = [] then Some x else o_sons po), o_count := o_count po + 1, o_refs := o_refs po + 1, o_cr := o_cr po OR XOBJ_CR_DIRTY\<rparr>"
  obtain h1 where h1: "x_object_append_child_no_cb h (Some p) x = Some (0, h1)" "brk h1 = brk h" and ok1: "heap_ok h1" and fam: "family h1 p (as @ [x])"
    and at: "objs h1 x = Some ?xo" "objs h1 p = Some ?po"
    and kp: "\<And>a ob. a \<noteq> x \<Longrightarrow> objs h a = Some ob \<Longrightarrow> \<exists>ob'. objs h1 a = Some ob' \<and> keeps p a ob ob'"
    using append_step [OF h f po(1) x(1) xo x(3)] by blast
  have "\<exists>i. x_object_get_index h1 x = Some i"
    using at fam index_loop_child [of h1 _ "as @ [x]" x 0] by (auto simp: x_object_get_index_def x_object_get_parent_def fld_def family_def kids_def)
  then obtain i where i: "x_object_get_index h1 x = Some i" by blast
  have "child_event env h1 p x ''child-append'' i = Some (h1\<lparr>brk := brk h1 + 1\<rparr>)"
    by (rule child_event_quiet [OF e ok1 at(2) _ at(1)]) (use po xo in simp_all)
  moreover have "path_notify env n x h1 = Some h1" for n using e by (simp add: plain_env_def)
  ultimately have run: "x_object_append_child env h (Some p) x = Some (0, h1\<lparr>brk := brk h + 1\<rparr>)"
    using i at(1) h1(2) by (simp add: x_object_append_child_def h1(1) plain_calls [OF e at(1)] plain_calls [OF e at(2)] x_object_get_name_def fld_def)
  let ?h = "h1\<lparr>brk := brk h + 1\<rparr>"
  have "heap_ok ?h" using ok1 h1(2) unfolding heap_ok_def by (auto intro: less_SucI)
  moreover have "seg lnk ?h q cs r = seg lnk h1 q cs r" for lnk q cs r by (rule seg_cong) (simp add: list_all_iff)
  then have "family ?h p (as @ [x])" using fam by (simp add: family_def kids_def nexts_ok_def named_def [abs_def])
  ultimately show ?thesis using run at(1) x(2) kp by (intro exI [of _ ?h] exI [of _ ?xo]) (simp add: is_new_def)
qed

section \<open>Opening\<close>

lemma put_attrs_rev: "distinct (map fst (acc @ as)) \<Longrightarrow> put_attrs acc as = rev as @ acc"
proof (induction as arbitrary: acc)
  case (Cons kv as)
  have "attr_find (fst kv) acc = None" if "fst kv \<notin> fst ` set acc" using that by (induction acc) auto
  then have "snd (setattr True (fst kv) (Some (snd kv)) acc) = kv # acc"
    using Cons.prems by (simp add: setattr_def get_attr_cell_def)
  then show ?case using Cons.IH [of "kv # acc"] Cons.prems by (auto simp: put_attrs_simps)
qed simp

lemma put_attrs_twice: "distinct (map fst as) \<Longrightarrow> put_attrs [] (put_attrs [] as) = as"
  by (simp add: put_attrs_rev rev_map [symmetric])

lemma default_assign:
  "objs h a = Some ob \<Longrightarrow> x_object_default_assign_cb h a as = Some (h\<lparr>objs := (objs h)(a \<mapsto> ob\<lparr>o_attrs := put_attrs (o_attrs ob) as\<rparr>)\<rparr>)"
proof (induction as arbitrary: h ob)
  case Nil
  then show ?case by (cases h) (simp add: fun_upd_idem)
next
  case (Cons kv as)
  obtain k v where kv: "kv = (k, v)" by fastforce
  let ?ob = "ob\<lparr>o_attrs := snd (setattr True k (Some v) (o_attrs ob))\<rparr>"
  have "x_object_setattr h a k (Some v) = Some (h\<lparr>objs := (objs h)(a \<mapsto> ?ob)\<rparr>)"
    using Cons.prems by (simp add: x_object_setattr_def upd_def)
  moreover have "objs (h\<lparr>objs := (objs h)(a \<mapsto> ?ob)\<rparr>) a = Some ?ob" by simp
  note Cons.IH [OF this]
  ultimately show ?case by (simp add: kv del: fun_upd_apply)
qed

lemma match_loop_plain:
  assumes e: "plain_env env"
  shows "nexts_ok h as \<Longrightarrow> list_all (\<lambda>a. objs h a \<noteq> None) as \<Longrightarrow> i < length as \<Longrightarrow> match_loop o_next env h (Some (as ! i)) hints = Some (None, h)"
proof (induction "length as - i" arbitrary: i rule: less_induct)
  case less
  obtain ob where ob: "objs h (as ! i) = Some ob" using less.prems by (auto simp: list_all_length)
  have one: "match_loop o_next env h (Some (as ! i)) hints = match_loop o_next env h (o_next ob) hints"
    using ob plain_slots [OF e, of ob] by (subst match_loop.simps) (simp add: x_object_match_def)
  show ?case
  proof (cases "o_next ob")
    case None
    then show ?thesis unfolding one by (simp add: match_loop.simps)
  next
    case (Some b)
    then have "b \<in> set (drop (i + 1) as)" using less.prems ob by (auto simp: nexts_ok_def)
    then obtain j where j: "i < j" "j < length as" "b = as ! j" by (auto simp: in_set_conv_nth) (metis add_Suc less_add_Suc1 less_diff_conv add.commute)
    then show ?thesis unfolding one Some using less.hyps [of j] less.prems by auto
  qed
qed

end
