(* ===== verification/Xw_Bus_Claims.thy ===== *)
theory Xw_Bus_Claims
  imports Xw_Bus_Proofs
begin

text \<open>
  The session as a whole: the text of a tree of objects, sent by one session and read by
  another, becomes the same tree there.
\<close>

section \<open>The open object\<close>

definition has_ns :: "heap \<Rightarrow> addr \<Rightarrow> bool" where
  "has_ns h p \<longleftrightarrow> (\<exists>anc. seg o_parent h (Some p) anc None
     \<and> (\<exists>a \<in> set anc. getattr (Some ''xmlns'') (Some (o_attrs (the (objs h a)))) \<noteq> None))"

definition open_at :: "bus \<Rightarrow> addr \<Rightarrow> addr list \<Rightarrow> bool" where
  "open_at b p as \<longleftrightarrow> r_obj b = Some p \<and> heap_ok (hp b) \<and> family (hp b) p as
     \<and> (\<exists>po. objs (hp b) p = Some po \<and> o_listeners po = []) \<and> has_ns (hp b) p"

lemma has_ns_getenv: "has_ns h p \<Longrightarrow> \<exists>ns. x_object_getenv h (Some p) ''xmlns'' = Some (Some ns)"
proof -
  assume "has_ns h p"
  then obtain anc a where s: "seg o_parent h (Some p) anc None" "a \<in> set anc"
    "getattr (Some ''xmlns'') (Some (o_attrs (the (objs h a)))) \<noteq> None" by (auto simp: has_ns_def)
  then obtain c where "find (\<lambda>a. getattr (Some ''xmlns'') (Some (o_attrs (the (objs h a)))) \<noteq> None) anc = Some c"
    by (cases "find (\<lambda>a. getattr (Some ''xmlns'') (Some (o_attrs (the (objs h a)))) \<noteq> None) anc") (auto simp: find_None_iff)
  moreover from this have "getattr (Some ''xmlns'') (Some (o_attrs (the (objs h c)))) \<noteq> None" by (auto simp: find_Some_iff)
  ultimately show ?thesis using x_object_getenv_seg [OF s(1), of "''xmlns''"] by auto
qed

lemma seg_parent_kept:
  assumes k: "kept q h h'" and s: "seg o_parent h p as r"
  shows "seg o_parent h' p as r"
proof -
  have "list_all (\<lambda>a. map_option o_parent (objs h' a) = map_option o_parent (objs h a)) as"
    unfolding list_all_iff
  proof
    fix a assume "a \<in> set as"
    then obtain ob where "objs h a = Some ob" using seg_alive [OF s] by blast
    then show "map_option o_parent (objs h' a) = map_option o_parent (objs h a)" using keptD [OF k] by (fastforce simp: keeps_def)
  qed
  then show ?thesis using s seg_cong by blast
qed

lemma has_ns_kept:
  assumes k: "kept q h h'" and n: "has_ns h p"
  shows "has_ns h' p"
proof -
  obtain anc a where s: "seg o_parent h (Some p) anc None" "a \<in> set anc"
    "getattr (Some ''xmlns'') (Some (o_attrs (the (objs h a)))) \<noteq> None" using n by (auto simp: has_ns_def)
  obtain ob where "objs h a = Some ob" using seg_alive [OF s(1,2)] by blast
  then have "getattr (Some ''xmlns'') (Some (o_attrs (the (objs h' a)))) \<noteq> None" using keptD [OF k] s(3) by (fastforce simp: keeps_def)
  then show ?thesis using seg_parent_kept [OF k s(1)] s(2) by (auto simp: has_ns_def)
qed

lemma has_ns_child: "has_ns h p \<Longrightarrow> objs h x = Some ob \<Longrightarrow> o_parent ob = Some p \<Longrightarrow> has_ns h x"
proof -
  assume "has_ns h p" and x: "objs h x = Some ob" "o_parent ob = Some p"
  then obtain anc where s: "seg o_parent h (Some p) anc None"
    "\<exists>a \<in> set anc. getattr (Some ''xmlns'') (Some (o_attrs (the (objs h a)))) \<noteq> None" by (auto simp: has_ns_def)
  then have "seg o_parent h (Some x) (x # anc) None" using x by simp
  then show ?thesis using s(2) unfolding has_ns_def by (meson list.set_intros(2))
qed

lemma family_links: "links_kept h h' \<Longrightarrow> family h p as \<Longrightarrow> family h' p as"
proof -
  assume l: "links_kept h h'" and f: "family h p as"
  then have k: "kids h p as" "nexts_ok h as" by (simp_all add: family_def)
  have "map_option o_parent (objs h' a) = Some (Some p)" if "a \<in> set as" for a
  proof -
    from f that have "map_option o_parent (objs h a) = Some (Some p)" by (simp add: family_def)
    then obtain ob where "objs h a = Some ob" "o_parent ob = Some p" by auto
    then show ?thesis using links_kept_get [OF l] by (fastforce simp: same_links_def)
  qed
  then show ?thesis using kids_links_kept [OF l k(1)] nexts_links_kept [OF l k(2) kids_alive [OF k(1)]] by (simp add: family_def)
qed

lemma heap_ok_links:
  assumes l: "links_kept h h'" and h: "heap_ok h" and b: "brk h' = brk h"
  shows "heap_ok h'"
  unfolding heap_ok_def
proof (intro conjI allI impI)
  have rel: "rel_option same_links (objs h a) (objs h' a)" for a using l by (simp add: links_kept_def)
  show "objs h' a = None" if "brk h' \<le> a" for a using rel [of a] h that b by (auto simp: heap_ok_def)
  show "q < brk h'" if "objs h' a = Some ob'" "o_parent ob' = Some q" for a ob' q
    using rel [of a] h that b by (auto simp: heap_ok_def option_rel_Some2 same_links_def)
qed

lemma kept_upd: "kept p h h1 \<Longrightarrow> objs h x = None \<Longrightarrow> objs h2 = (objs h1)(x \<mapsto> ob) \<Longrightarrow> brk h2 = brk h1 \<Longrightarrow> kept p h h2"
  unfolding kept_def by fastforce

section \<open>Opening\<close>

definition plain_name :: "string \<Rightarrow> bool" where
  "plain_name n \<longleftrightarrow> n \<noteq> [] \<and> CHR '':'' \<notin> set n \<and> LF \<notin> set n"

definition plain_atts :: "attr_list \<Rightarrow> bool" where
  "plain_atts as \<longleftrightarrow> list_all (\<lambda>kv. \<not> strncaseeq (fst kv) ''xmlns:'' 6) as"

lemma ns_loop_plain: "CHR '':'' \<notin> set n \<Longrightarrow> ns_loop acc n = (False, acc @ n, [])"
  by (induction n arbitrary: acc) auto

lemma fill_loop_plain: "plain_atts as \<Longrightarrow> fill_loop ns as t p2 = (t, p2)"
  by (induction ns as t p2 rule: fill_loop.induct) (auto simp: plain_atts_def)

lemma bus_fill_plain: "plain_atts as \<Longrightarrow> bus_fill_nsmap b as None = (as, b)"
  by (simp add: bus_fill_nsmap_def fill_loop_plain)

lemma open_step:
  assumes e: "plain_env env" and b: "open_at b p as" and n: "plain_name n" and ats: "plain_atts ats"
  shows "\<exists>b' ob. bus_objopen env n ats b = Some (0, ats, b') \<and> kept p (hp b) (hp b') \<and> family (hp b') p (as @ [brk (hp b)])
    \<and> open_at b' (brk (hp b)) [] \<and> objs (hp b') (brk (hp b)) = Some ob \<and> o_name ob = Some n \<and> o_attrs ob = put_attrs [] ats
    \<and> o_content ob = X_STRING_STATIC_INIT \<and> o_parent ob = Some p"
proof -
  let ?h = "hp b" and ?x = "brk (hp b)"
  obtain po where r: "r_obj b = Some p" "heap_ok ?h" "family ?h p as" "objs ?h p = Some po" "o_listeners po = []" "has_ns ?h p"
    using b by (auto simp: open_at_def)
  have k: "kids ?h p as" "nexts_ok ?h as" using r(3) by (simp_all add: family_def)
  have nm: "n \<noteq> []" "CHR '':'' \<notin> set n" "LF \<notin> set n" using n by (simp_all add: plain_name_def)
  obtain ns0 where ns0: "x_object_getenv ?h (Some p) ''xmlns'' = Some (Some ns0)" using has_ns_getenv [OF r(6)] by blast
  obtain ns where res: "bus_resolve b ats False n [] = Some (Some n, ns)"
    using nm ns0 r(1) by (cases "getattr (Some ''xmlns'') (Some ats)") (auto simp: bus_resolve_def cbuf_of_def)
  let ?s = "find (\<lambda>a. EQN (name_of ?h a) n) as"
  have s: "x_object_get_child ?h (Some p) (Some n) = Some ?s" by (rule x_object_get_child_kids [OF k(1)])
  have fnd: "x_object_find env ?h ?s (Some ats) = Some (None, ?h)"
  proof (cases ?s)
    case None
    then show ?thesis by (simp add: x_object_find_def match_loop.simps)
  next
    case (Some a)
    then obtain i where "i < length as" "a = as ! i" by (auto simp: find_Some_iff)
    then show ?thesis using match_loop_plain [OF e k(2) kids_alive [OF k(1)]] Some by (simp add: x_object_find_def)
  qed
  obtain xo h2 where new: "x_object_new_ns_match env ?h (Some n) (Some ns) (Some ats) True = Some (Some ?x, h2)" "is_new n xo"
    "objs h2 = (objs ?h)(?x \<mapsto> xo)" "brk h2 = ?x + 1"
    using new_object [OF e nm(3), of ?h "Some ns" "Some ats"] by blast
  have k2: "kept q ?h h2" for q by (rule kept_new [OF r(2)]) (simp_all add: new(3,4))
  have xp: "?x \<noteq> p" using heap_ok_less [OF r(2,4)] by simp
  have f2: "family h2 p as" by (rule family_kept [OF r(3) k2 xp])
  have ok2: "heap_ok h2" using r(2) new(2-4) unfolding heap_ok_def is_new_def by (auto intro: less_SucI)
  have xas: "?x \<notin> set (p # as)" using family_alive [OF r(3), of ?x] heap_ok_less [OF r(2), of ?x] by auto
  have up: "\<forall>a ob. objs h2 a = Some ob \<longrightarrow> o_parent ob \<noteq> Some ?x" using r(2) new(2,3) by (auto simp: heap_ok_def is_new_def)
  obtain h3 x3 where h3: "x_object_append_child env h2 (Some p) ?x = Some (0, h3)" "heap_ok h3" "family h3 p (as @ [?x])"
    "objs h3 ?x = Some x3" "o_name x3 = Some n" "o_attrs x3 = []" "o_content x3 = X_STRING_STATIC_INIT" "o_parent x3 = Some p"
    "o_sons x3 = None" "o_listeners x3 = []" "brk h3 = brk h2 + 1"
    "\<forall>a ob. a \<noteq> ?x \<longrightarrow> objs h2 a = Some ob \<longrightarrow> (\<exists>ob'. objs h3 a = Some ob' \<and> keeps p a ob ob')"
    using append_new [OF e ok2 f2, of po ?x xo n] r(4,5) new(2,3) xp xas up by auto
  let ?ob = "x3\<lparr>o_attrs := put_attrs [] ats, o_assigns := o_assigns x3 + 1\<rparr>"
  let ?h4 = "h3\<lparr>objs := (objs h3)(?x \<mapsto> ?ob)\<rparr>"
  have "bus_enter env ats b ?x h3 = Some (0, ats, b\<lparr>hp := ?h4, r_obj := Some ?x\<rparr>)"
    using h3(4,6) plain_slots(5) [OF e, of x3] by (simp add: bus_enter_def x_object_assign_def default_assign upd_def)
  then have run: "bus_objopen env n ats b = Some (0, ats, b\<lparr>hp := ?h4, r_obj := Some ?x\<rparr>)"
    using res r(1) s fnd new(1) h3(1) by (simp add: bus_objopen_def ns_loop_plain [OF nm(2)] bus_fill_plain [OF ats])
  have l: "links_kept h3 ?h4" by (rule links_kept_upd [OF h3(4)]) (simp_all add: same_links_def)
  have kp: "kept p ?h ?h4"
    unfolding kept_def
  proof (intro conjI allI impI)
    show "brk ?h \<le> brk ?h4" using new(4) h3(11) by simp
    fix a ob assume a: "objs ?h a = Some ob"
    then have "a \<noteq> ?x" using heap_ok_less [OF r(2)] by blast
    then show "\<exists>ob'. objs ?h4 a = Some ob' \<and> keeps p a ob ob'" using a h3(12) new(3) by simp
  qed
  have "family ?h4 ?x []" by (simp add: family_def kids_def nexts_ok_def h3(9))
  moreover have "heap_ok ?h4" by (rule heap_ok_links [OF l h3(2)]) simp
  moreover have "has_ns ?h4 ?x" by (rule has_ns_child [OF has_ns_kept [OF kp r(6)], of _ ?ob]) (simp_all add: h3(8))
  ultimately have "open_at (b\<lparr>hp := ?h4, r_obj := Some ?x\<rparr>) ?x []" by (simp add: open_at_def h3(10))
  then show ?thesis using run kp family_links [OF l h3(3)] h3(5,7,8) by (intro exI [of _ "b\<lparr>hp := ?h4, r_obj := Some ?x\<rparr>"] exI [of _ ?ob]) simp
qed

section \<open>Characters and closing\<close>

lemma chars_step:
  "objs (hp b) x = Some ob \<Longrightarrow> r_obj b = Some x \<Longrightarrow> reg (o_content ob) s \<Longrightarrow> length s + length cs \<le> reg_max \<Longrightarrow>
     \<exists>y. play_evs (bus_cb env) (map EChar cs) b = Some (b\<lparr>hp := (hp b)\<lparr>objs := (objs (hp b))(x \<mapsto> ob\<lparr>o_content := y\<rparr>)\<rparr>\<rparr>) \<and> reg y (s @ cs)"
proof (induction cs arbitrary: b ob s)
  case Nil
  then show ?case by (intro exI [of _ "o_content ob"]) (cases b, cases "hp b", simp add: fun_upd_idem)
next
  case (Cons c cs)
  obtain y where y: "x_string_putc (cjunk env) (o_content ob) c = Some y" "reg y (s @ [c])"
    using reg_putc [OF Cons.prems(3), of "cjunk env" c] Cons.prems(4) by auto
  let ?ob = "ob\<lparr>o_content := y\<rparr>"
  let ?b = "b\<lparr>hp := (hp b)\<lparr>objs := (objs (hp b))(x \<mapsto> ?ob)\<rparr>\<rparr>"
  have one: "play_ev (bus_cb env) (EChar c) b = Some ?b"
    using Cons.prems(1,2) y(1) by (simp add: bus_cb_def bus_putchar_def upd_def)
  have "objs (hp ?b) x = Some ?ob" "r_obj ?b = Some x" "reg (o_content ?ob) (s @ [c])" "length (s @ [c]) + length cs \<le> reg_max"
    using Cons.prems y(2) by simp_all
  from Cons.IH [OF this] show ?case by (simp only: list.map play_evs.simps one) (simp del: fun_upd_apply)
qed

lemma close_step:
  assumes n: "plain_name n" and x: "r_obj b = Some x" "objs (hp b) x = Some ob" "o_name ob = Some n" "o_parent ob = Some p"
    and e: "plain_env env" and ns: "has_ns (hp b) x"
  shows "bus_objclose env n b = Some (0, b\<lparr>r_obj := Some p\<rparr>)"
proof -
  obtain v where "x_object_getenv (hp b) (Some x) ''xmlns'' = Some (Some v)" using has_ns_getenv [OF ns] by blast
  then show ?thesis
    using n x plain_calls(3) [OF e x(2)]
    by (simp add: bus_objclose_def plain_name_def ns_loop_plain cbuf_of_def x_object_get_name_def x_object_get_parent_def
        x_object_lost_focus_def fld_def strcaseeq_def)
qed

section \<open>Trees of new objects\<close>

text \<open>
  \<open>tree_at h lo x t\<close>: \<open>x\<close> represents \<open>t\<close>, and the addresses in its subtree are not below \<open>lo\<close>.
\<close>

fun tree_at :: "heap \<Rightarrow> addr \<Rightarrow> addr \<Rightarrow> xml \<Rightarrow> bool" and trees_at :: "heap \<Rightarrow> addr \<Rightarrow> addr list \<Rightarrow> xml list \<Rightarrow> bool" where
  "tree_at h lo x (Elem n as c ks) \<longleftrightarrow> lo \<le> x \<and> (\<exists>ob. objs h x = Some ob \<and> obj_is ob n as c)
     \<and> (\<exists>xs. family h x xs \<and> trees_at h (Suc x) xs ks)"
| "trees_at h lo xs [] \<longleftrightarrow> xs = []"
| "trees_at h lo xs (t # ts) \<longleftrightarrow> (case xs of [] \<Rightarrow> False | a # as \<Rightarrow> tree_at h lo a t \<and> trees_at h lo as ts)"

lemma tree_at_mono:
  "tree_at h lo x t \<Longrightarrow> lo' \<le> lo \<Longrightarrow> tree_at h lo' x t"
  "trees_at h lo xs ts \<Longrightarrow> lo' \<le> lo \<Longrightarrow> trees_at h lo' xs ts"
  by (induction h lo x t and h lo xs ts arbitrary: lo' and lo' rule: tree_at_trees_at.induct) (auto split: list.splits)

definition same_above :: "addr \<Rightarrow> heap \<Rightarrow> heap \<Rightarrow> bool" where
  "same_above lo h h' \<longleftrightarrow> (\<forall>a ob. lo \<le> a \<longrightarrow> objs h a = Some ob \<longrightarrow>
       (\<exists>ob'. objs h' a = Some ob' \<and> o_name ob' = o_name ob \<and> o_attrs ob' = o_attrs ob \<and> o_content ob' = o_content ob))
     \<and> (\<forall>a as. lo \<le> a \<longrightarrow> family h a as \<longrightarrow> family h' a as)"

lemma same_above_mono: "same_above lo h h' \<Longrightarrow> lo \<le> lo' \<Longrightarrow> same_above lo' h h'"
  by (simp add: same_above_def)

lemma tree_at_same:
  "tree_at h lo x t \<Longrightarrow> same_above lo h h' \<Longrightarrow> tree_at h' lo x t"
  "trees_at h lo xs ts \<Longrightarrow> same_above lo h h' \<Longrightarrow> trees_at h' lo xs ts"
proof (induction h lo x t and h lo xs ts rule: tree_at_trees_at.induct)
  case (1 h lo x n as c ks)
  then obtain ob xs where t: "lo \<le> x" "objs h x = Some ob" "obj_is ob n as c" "family h x xs" "trees_at h (Suc x) xs ks" by auto
  have "same_above (Suc x) h h'" using same_above_mono [OF 1(3)] t(1) by simp
  then have "trees_at h' (Suc x) xs ks" by (rule 1(1) [OF t(5)])
  moreover have "family h' x xs" using 1(3) t(1,4) by (simp add: same_above_def)
  moreover obtain ob' where "objs h' x = Some ob'" "obj_is ob' n as c" using 1(3) t(1-3) unfolding same_above_def obj_is_def by metis
  ultimately show ?case using t(1) by auto
next
  case (3 h lo xs t ts)
  then show ?case by (cases xs) auto
qed simp

lemma same_above_kept: "kept q h h' \<Longrightarrow> q < lo \<Longrightarrow> same_above lo h h'"
  unfolding same_above_def
proof (intro conjI allI impI)
  assume k: "kept q h h'" and q: "q < lo"
  show "\<exists>ob'. objs h' a = Some ob' \<and> o_name ob' = o_name ob \<and> o_attrs ob' = o_attrs ob \<and> o_content ob' = o_content ob"
    if "objs h a = Some ob" for a ob using keptD [OF k that] by (auto simp: keeps_def)
  show "family h' a as" if "lo \<le> a" "family h a as" for a as using family_kept [OF that(2) k] that(1) q by simp
qed

lemma same_above_links:
  assumes "links_kept h h'" "\<And>a. a \<noteq> x \<Longrightarrow> objs h' a = objs h a" "x < lo"
  shows "same_above lo h h'"
  using family_links [OF assms(1)] assms(2,3) by (auto simp: same_above_def)

text \<open>Such a tree is one the serializer writes.\<close>

lemma tree_xml_at:
  "tree_at h lo x t \<Longrightarrow> q \<le> x \<Longrightarrow> xml_at h q x t"
  "trees_at h lo xs ts \<Longrightarrow> seg o_sibling h s xs None \<Longrightarrow> \<forall>a \<in> set xs. map_option o_parent (objs h a) = Some (Some par) \<Longrightarrow> q < lo \<Longrightarrow>
     xmls_at h q par s ts"
proof (induction h lo x t and h lo xs ts arbitrary: q and q s par rule: tree_at_trees_at.induct)
  case (1 h lo x n as c ks)
  then obtain ob xs where t: "objs h x = Some ob" "obj_is ob n as c" "family h x xs" "trees_at h (Suc x) xs ks" by auto
  have "xmls_at h q x (o_sons ob) ks"
    by (rule 1(1) [OF t(4)]) (use t(1,3) 1(3) in \<open>auto simp: family_def kids_def\<close>)
  then show ?case using t(1,2) by simp
next
  case (3 h lo xs t ts)
  then obtain a as where xs: "xs = a # as" "tree_at h lo a t" "trees_at h lo as ts" by (cases xs) auto
  obtain ob where ob: "s = Some a" "objs h a = Some ob" "seg o_sibling h (o_sibling ob) as None" "o_parent ob = Some par"
    using 3(4,5) xs(1) by (auto split: option.splits)
  have "lo \<le> a" using xs(2) by (cases t) simp
  then have "xml_at h q a t" using 3(1) [OF xs(1,2)] 3(6) by simp
  moreover have "xmls_at h q par (o_sibling ob) ts" by (rule 3(2) [OF xs(1,3) ob(3)]) (use 3(5,6) xs(1) in auto)
  ultimately show ?case using ob 3(6) \<open>lo \<le> a\<close> by simp
qed simp

section \<open>Rebuilding a tree\<close>

text \<open>What the session can store: plain names, plain keys without repetition, bounded contents.\<close>

fun storable :: "xml \<Rightarrow> bool" and storables :: "xml list \<Rightarrow> bool" where
  "storable (Elem n as c ks) \<longleftrightarrow> plain_name n \<and> plain_atts as \<and> distinct (map fst as) \<and> length c \<le> reg_max \<and> storables ks"
| "storables [] \<longleftrightarrow> True"
| "storables (t # ts) \<longleftrightarrow> storable t \<and> storables ts"

lemma plain_atts_put: "distinct (map fst as) \<Longrightarrow> plain_atts as \<Longrightarrow> plain_atts (put_attrs [] as)"
  by (simp add: put_attrs_rev plain_atts_def list_all_iff)

text \<open>The end of an element: its contents, then the way back to its parent.\<close>

lemma finish_element:
  assumes e: "plain_env env" and n: "plain_name n" and c: "length c \<le> reg_max"
    and b: "open_at b x xs" "objs (hp b) x = Some ob" "o_name ob = Some n" "o_content ob = X_STRING_STATIC_INIT" "o_parent ob = Some p"
  shows "\<exists>b' y. play_evs (bus_cb env) (map EChar c @ [EClose n]) b = Some b' \<and> r_obj b' = Some p
    \<and> hp b' = (hp b)\<lparr>objs := (objs (hp b))(x \<mapsto> ob\<lparr>o_content := y\<rparr>)\<rparr> \<and> reg y c"
proof -
  have r: "r_obj b = Some x" "has_ns (hp b) x" using b(1) by (simp_all add: open_at_def)
  have "reg (o_content ob) []" using b(4) reg_init by simp
  from chars_step [OF b(2) r(1) this, of c env] c obtain y where
    y: "play_evs (bus_cb env) (map EChar c) b = Some (b\<lparr>hp := (hp b)\<lparr>objs := (objs (hp b))(x \<mapsto> ob\<lparr>o_content := y\<rparr>)\<rparr>\<rparr>)" "reg y c" by auto
  let ?b = "b\<lparr>hp := (hp b)\<lparr>objs := (objs (hp b))(x \<mapsto> ob\<lparr>o_content := y\<rparr>)\<rparr>\<rparr>"
  have "kept x (hp ?b) (hp ?b)" by (simp add: kept_def keeps_def)
  obtain anc where s: "seg o_parent (hp b) (Some x) anc None"
    "\<exists>a \<in> set anc. getattr (Some ''xmlns'') (Some (o_attrs (the (objs (hp b) a)))) \<noteq> None" using r(2) by (auto simp: has_ns_def)
  have l: "links_kept (hp b) (hp ?b)" by (rule links_kept_upd [OF b(2)]) (simp_all add: same_links_def)
  have "seg o_parent (hp ?b) (Some x) anc None" using seg_links_kept [OF l _ s(1)] by (auto simp: same_links_def)
  moreover have "o_attrs (the (objs (hp ?b) a)) = o_attrs (the (objs (hp b) a))" for a using b(2) by simp
  ultimately have "has_ns (hp ?b) x" using s(2) unfolding has_ns_def by auto
  from close_step [OF n _ _ _ _ e this, of "ob\<lparr>o_content := y\<rparr>" p] r(1) b(3,5)
  have "play_ev (bus_cb env) (EClose n) ?b = Some (?b\<lparr>r_obj := Some p\<rparr>)" by (simp add: bus_cb_def)
  then show ?thesis using y by (intro exI [of _ "?b\<lparr>r_obj := Some p\<rparr>"] exI [of _ y]) (simp add: play_evs_append)
qed

lemma build:
  assumes e: "plain_env env"
  shows "storable t \<Longrightarrow> open_at b p as \<Longrightarrow> \<exists>b'. play_evs (bus_cb env) (xml_tree_ev t) b = Some b' \<and> kept p (hp b) (hp b')
      \<and> open_at b' p (as @ [brk (hp b)]) \<and> tree_at (hp b') (brk (hp b)) (brk (hp b)) t"
    "storables ts \<Longrightarrow> open_at b p as \<Longrightarrow> \<exists>b' xs. play_evs (bus_cb env) (xmls_tree_ev ts) b = Some b' \<and> kept p (hp b) (hp b')
      \<and> open_at b' p (as @ xs) \<and> trees_at (hp b') (brk (hp b)) xs ts"
proof (induction t and ts arbitrary: b p as and b p as rule: xml_tree_ev_xmls_tree_ev.induct)
  case (1 n ats c ks)
  let ?x = "brk (hp b)"
  have t: "plain_name n" "plain_atts (put_attrs [] ats)" "distinct (map fst ats)" "length c \<le> reg_max" "storables ks"
    using 1(2) plain_atts_put by simp_all
  have b0: "heap_ok (hp b)" "has_ns (hp b) p" "\<exists>po. objs (hp b) p = Some po \<and> o_listeners po = []" using 1(3) by (auto simp: open_at_def)
  obtain b1 o1 where s1: "bus_objopen env n (put_attrs [] ats) b = Some (0, put_attrs [] ats, b1)" "kept p (hp b) (hp b1)"
    "family (hp b1) p (as @ [?x])" "open_at b1 ?x []" "objs (hp b1) ?x = Some o1" "o_name o1 = Some n" "o_attrs o1 = put_attrs [] (put_attrs [] ats)"
    "o_content o1 = X_STRING_STATIC_INIT" "o_parent o1 = Some p"
    using open_step [OF e 1(3) t(1,2)] by blast
  have o1: "o_attrs o1 = ats" using s1(7) put_attrs_twice [OF t(3)] by simp
  obtain b2 xs where s2: "play_evs (bus_cb env) (xmls_tree_ev ks) b1 = Some b2" "kept ?x (hp b1) (hp b2)"
    "open_at b2 ?x xs" "trees_at (hp b2) (brk (hp b1)) xs ks" using 1(1) [OF t(5) s1(4)] by auto
  obtain o2 where o2: "objs (hp b2) ?x = Some o2" "o_name o2 = Some n" "o_attrs o2 = ats" "o_content o2 = X_STRING_STATIC_INIT" "o_parent o2 = Some p"
    using keptD [OF s2(2) s1(5)] s1(6,8,9) o1 by (auto simp: keeps_def)
  obtain b3 y where s3: "play_evs (bus_cb env) (map EChar c @ [EClose n]) b2 = Some b3" "r_obj b3 = Some p"
    "hp b3 = (hp b2)\<lparr>objs := (objs (hp b2))(?x \<mapsto> o2\<lparr>o_content := y\<rparr>)\<rparr>" "reg y c"
    using finish_element [OF e t(1,4) s2(3) o2(1,2,4,5)] by blast
  have l: "links_kept (hp b2) (hp b3)" by (rule links_kept_upd [OF o2(1)]) (use s3(3) in \<open>simp_all add: same_links_def\<close>)
  have ok1: "heap_ok (hp b1)" and ok2: "heap_ok (hp b2)" "family (hp b2) ?x xs" using s1(4) s2(3) by (simp_all add: open_at_def)
  have k2: "kept p (hp b) (hp b2)" by (rule kept_trans [OF s1(2) s2(2) b0(1)]) simp
  have new: "objs (hp b) ?x = None" using b0(1) by (simp add: heap_ok_def)
  have k3: "kept p (hp b) (hp b3)" by (rule kept_upd [OF k2 new]) (use s3(3) in simp_all)
  have "?x \<noteq> p" using b0(1,3) heap_ok_less by blast
  then have "family (hp b3) p (as @ [?x])" by (intro family_links [OF l] family_kept [OF s1(3) s2(2)])
  moreover have "heap_ok (hp b3)" by (rule heap_ok_links [OF l ok2(1)]) (simp add: s3(3))
  moreover have "\<exists>po. objs (hp b3) p = Some po \<and> o_listeners po = []" using keptD [OF k3] b0(3) by (fastforce simp: keeps_def)
  ultimately have "open_at b3 p (as @ [?x])" using s3(2) has_ns_kept [OF k3 b0(2)] by (simp add: open_at_def)
  moreover have "Suc ?x \<le> brk (hp b1)" using heap_ok_less [OF ok1 s1(5)] by simp
  then have "trees_at (hp b2) (Suc ?x) xs ks" by (rule tree_at_mono(2) [OF s2(4)])
  then have "trees_at (hp b3) (Suc ?x) xs ks" by (rule tree_at_same(2)) (rule same_above_links [OF l, of ?x], simp_all add: s3(3))
  then have "tree_at (hp b3) ?x ?x (Elem n ats c ks)"
    using s3(3,4) o2 family_links [OF l ok2(2)] by (auto simp: obj_is_def reg_def)
  ultimately show ?case using s1(1) s2(1) s3(1) k3 by (intro exI [of _ b3]) (simp add: bus_cb_def play_evs_append)
next
  case 2
  then show ?case by (intro exI [of _ b] exI [of _ "[]"]) (simp add: kept_def keeps_def)
next
  case (3 t ts)
  obtain b1 where s1: "play_evs (bus_cb env) (xml_tree_ev t) b = Some b1" "kept p (hp b) (hp b1)" "open_at b1 p (as @ [brk (hp b)])"
    "tree_at (hp b1) (brk (hp b)) (brk (hp b)) t" using 3(1) [OF _ 3(4)] 3(3) by auto
  obtain b2 xs where s2: "play_evs (bus_cb env) (xmls_tree_ev ts) b1 = Some b2" "kept p (hp b1) (hp b2)" "open_at b2 p ((as @ [brk (hp b)]) @ xs)"
    "trees_at (hp b2) (brk (hp b1)) xs ts" using 3(2) [OF _ s1(3)] 3(3) by auto
  have b: "heap_ok (hp b)" "p < brk (hp b)" using 3(4) heap_ok_less by (auto simp: open_at_def)
  have "kept p (hp b) (hp b2)" by (rule kept_trans [OF s1(2) s2(2) b(1)]) simp
  moreover have "tree_at (hp b2) (brk (hp b)) (brk (hp b)) t" by (rule tree_at_same(1) [OF s1(4) same_above_kept [OF s2(2) b(2)]])
  moreover have "trees_at (hp b2) (brk (hp b)) xs ts" by (rule tree_at_mono(2) [OF s2(4) kept_brk [OF s1(2)]])
  ultimately show ?case using s1(1) s2(1,3)
    by (intro exI [of _ b2] exI [of _ "brk (hp b) # xs"]) (simp add: play_evs_append)
qed

section \<open>The stream in pieces\<close>

text \<open>A transport that delivers the given pieces, one for each read.\<close>

fun deliver :: "string list \<Rightarrow> int \<times> string \<times> string list" where
  "deliver [] = (0, [], [])"
| "deliver (s # ss) = (int (length s), s, ss)"

lemma bus_read_loop_deliver:
  "pp_feed (cjunk env) (bus_cb env) p (concat ss) = Some p' \<Longrightarrow> list_all (\<lambda>s. s \<noteq> []) ss \<Longrightarrow>
     bus_read_loop env deliver p ss = Some (p', [])"
proof (induction ss arbitrary: p)
  case Nil
  then show ?case by (simp add: bus_read_loop.simps)
next
  case (Cons s ss)
  then obtain p1 where "pp_feed (cjunk env) (bus_cb env) p s = Some p1" "pp_feed (cjunk env) (bus_cb env) p1 (concat ss) = Some p'"
    by (auto simp: pp_feed_append bind_eq_Some_conv)
  then show ?case using Cons by (subst bus_read_loop.simps) simp
qed

lemma x_bus_tx_text:
  assumes t: "xml_at h x x t" and size: "(\<Sum>s \<leftarrow> xml_pieces t. length s + 33) < 4000000000"
  shows "x_bus_tx env (\<lambda>s w. w @ s) h x [] = Some (0, xml_str t)"
proof -
  obtain xs where xs: "x_string_clear (cjunk env) X_STRING_STATIC_INIT = Some xs" "xs_ok xs" "xs_str xs = []" "unat (capacity xs) = 32"
    by (rule x_string_clear_ok [OF xs_ok_init(1)])
  obtain xs1 where "x_parser_object_to_string (cjunk env) h x xs = Some xs1" "xs_str xs1 = xml_str t"
    using x_parser_object_to_string_run [OF t xs(2), of "cjunk env"] xs(3,4) size by auto
  then show ?thesis using xs(1) by (simp add: x_bus_tx_def)
qed

section \<open>Claims\<close>

text \<open>
  C1. Sending an object and receiving it. The bytes one session writes for an object whose
  subtree represents \<open>t\<close>, to a transport that takes all of them, cut into non-empty pieces in
  whatever way the network delivers them, make another session build the same tree from new
  objects. The tree becomes the last child of the object that is open there, which is the open
  object again at the end; every object the receiver had before keeps its name, attributes,
  content and place. This holds for a tree in which every element has an attribute; names and keys
  are of the characters that the parser takes for them; values are not empty and have no
  apostrophe and no zero byte; the content has no less-than sign; no name has a prefix, no key is
  one that declares a prefix (\<^verbatim>\<open>xmlns:\<close>), and the keys of an element differ; all of these are shorter
  than the bound of the registers, and the text shorter than 4,000,000,000 bytes. The receiver's
  classes have no callbacks, its parser is between two elements, and an object is open that has no
  listeners and a namespace on its way up.
\<close>

theorem bus_rebuilds_tree:
  assumes t: "xml_at h x x t" "xml_ok t" "all_attrs t" "storable t" "(\<Sum>s \<leftarrow> xml_pieces t. length s + 33) < 4000000000"
    and e: "plain_env env'" and p: "st Ctx_txt X_PP_INI s0 s1 s2 carry b p" and b: "open_at b q as"
  shows "\<exists>text. x_bus_tx env (\<lambda>s w. w @ s) h x [] = Some (0, text) \<and> (\<forall>ss. concat ss = text \<longrightarrow> list_all (\<lambda>s. s \<noteq> []) ss \<longrightarrow>
     (\<exists>p' y. bus_read_loop env' deliver p ss = Some (p', []) \<and> xml_at (hp (cbdata p')) y y t
        \<and> open_at (cbdata p') q (as @ [y]) \<and> kept q (hp b) (hp (cbdata p'))))"
proof (intro exI [of _ "xml_str t"] conjI allI impI)
  show "x_bus_tx env (\<lambda>s w. w @ s) h x [] = Some (0, xml_str t)" by (rule x_bus_tx_text [OF t(1,5)])
  fix ss assume ss: "concat ss = xml_str t" "list_all (\<lambda>s. s \<noteq> []) ss"
  obtain b' where b': "play_evs (bus_cb env') (xml_tree_ev t) b = Some b'" "kept q (hp b) (hp b')" "open_at b' q (as @ [brk (hp b)])"
    "tree_at (hp b') (brk (hp b)) (brk (hp b)) t" using build(1) [OF e t(4) b] by blast
  have "play_evs (bus_cb env') (fst (xml_ev carry t)) b = Some b'" using b'(1) xml_tree_ev_eq(1) [OF t(3)] by simp
  from run_xml(1) [OF t(2) p this, of "cjunk env'"] obtain p' where
    p': "pp_feed (cjunk env') (bus_cb env') p (concat ss) = Some p'" "cbdata p' = b'" using ss(1) by (auto simp: runs_def st_def)
  show "\<exists>p' y. bus_read_loop env' deliver p ss = Some (p', []) \<and> xml_at (hp (cbdata p')) y y t
        \<and> open_at (cbdata p') q (as @ [y]) \<and> kept q (hp b) (hp (cbdata p'))"
    using bus_read_loop_deliver [OF p'(1) ss(2)] p'(2) b'(2,3) tree_xml_at(1) [OF b'(4) order_refl] by blast
qed

text \<open>A receiver whose session object 0 is open and has no children yet.\<close>

definition demo_bus :: bus where
  "demo_bus = \<lparr>hp = \<lparr>objs = [0 \<mapsto> (new_xobject 0)\<lparr>o_name := Some ''bus'', o_attrs := [(''xmlns'', ''jabber:client'')]\<rparr>], brk = 1\<rparr>,
     self = 0, bstate = BUS_STATE_STREAMING, r_obj = Some 0, bus_ns = ht_empty\<rparr>"

lemma demo_bus_open: "open_at demo_bus 0 []"
proof -
  have "has_ns (hp demo_bus) 0"
    unfolding has_ns_def by (intro exI [of _ "[0]"]) (simp add: demo_bus_def new_xobject_def getattr_def)
  then show ?thesis by (simp add: open_at_def demo_bus_def heap_ok_def family_def kids_def nexts_ok_def new_xobject_def)
qed

lemma demo_env_plain: "plain_env demo_env"
  by (simp add: plain_env_def demo_env_def plain_class_def)

lemma demo_storable: "storable demo_xml"
  by (simp add: demo_xml_def plain_name_def plain_atts_def reg_max_def) code_simp

theorem bus_rebuilds_tree_witness:
  "\<exists>text. x_bus_tx demo_env (\<lambda>s w. w @ s) demo_dom 2 [] = Some (0, text) \<and> (\<forall>ss. concat ss = text \<longrightarrow> list_all (\<lambda>s. s \<noteq> []) ss \<longrightarrow>
     (\<exists>p' y. bus_read_loop demo_env deliver (pp_zero demo_bus) ss = Some (p', []) \<and> xml_at (hp (cbdata p')) y y demo_xml
        \<and> open_at (cbdata p') 0 ([] @ [y]) \<and> kept 0 (hp demo_bus) (hp (cbdata p'))))"
  by (rule bus_rebuilds_tree [OF demo_dom_xml demo_xml_ok demo_storable _ demo_env_plain pp_zero_st demo_bus_open])
    (simp add: demo_xml_def end_pieces_def)

text \<open>
  C37. An opening tag whose prefix no attribute and no earlier element declares has no defined
  result: the look-up yields a null namespace, which is searched for a hash sign. Any peer
  can send such a tag.
\<close>

theorem bus_undeclared_prefix:
  assumes "CHR '':'' \<notin> set pre" "pre \<noteq> []" "plain_atts as" "fst (ht_get pre (bus_ns b)) = None"
  shows "bus_objopen env (pre @ '':'' @ rest) as b = None"
proof -
  have "ns_loop acc (pre @ CHR '':'' # rest) = (True, acc @ pre, rest)" for acc
    using assms(1) by (induction pre arbitrary: acc) auto
  moreover have "fill_loop ns as (bus_ns b) p2 = (bus_ns b, p2)" for ns p2 by (rule fill_loop_plain [OF assms(3)])
  ultimately show ?thesis using assms(2,4) by (simp add: bus_objopen_def bus_fill_nsmap_def bus_resolve_def cbuf_of_def)
qed

theorem bus_undeclared_prefix_witness: "bus_objopen demo_env (''a'' @ '':'' @ ''b'') [(''id'', ''1'')] demo_bus = None"
  by (rule bus_undeclared_prefix) (simp_all add: plain_atts_def demo_bus_def ht_get_def ht_empty_def, code_simp+)

definition port_part :: "string option \<Rightarrow> string" where
  "port_part port = (case port of None \<Rightarrow> [] | Some s \<Rightarrow> CHR '':'' # s)"

lemma port_part_None: "port_part None = []"
  by (simp add: port_part_def)

lemma split_at_append: "c \<notin> set s \<Longrightarrow> split_at c (s @ c # r) = Some (s, r)"
  by (induction s) (auto simp: split_at_def)

lemma setattr_upd:
  "objs h a = Some ob \<Longrightarrow> x_object_setattr h a k (Some v) = Some (h\<lparr>objs := (objs h)(a \<mapsto> ob\<lparr>o_attrs := cell_put k v (o_attrs ob)\<rparr>)\<rparr>)"
  by (simp add: x_object_setattr_def upd_def setattr_put)

text \<open>
  C36. Committing the account address splits \<^verbatim>\<open>user@domain:port/resource\<close> into its attributes: the
  port is 5222 when there is none, and a host name that is not set already follows from the
  domain. No other attribute changes.
\<close>

theorem bus_jid_commit_splits:
  assumes ob: "objs h a = Some ob" and jid: "attr_map (o_attrs ob) ''jid'' = Some (user @ ''@'' @ dmn @ port_part port @ ''/'' @ res)"
    and parts: "CHR ''@'' \<notin> set user" "CHR ''/'' \<notin> set (dmn @ port_part port)" "CHR '':'' \<notin> set dmn"
  shows "\<exists>ob'. bus_jid_commit h a = Some (0, h\<lparr>objs := (objs h)(a \<mapsto> ob')\<rparr>) \<and> ob' = ob\<lparr>o_attrs := o_attrs ob'\<rparr>
    \<and> attr_map (o_attrs ob') = (attr_map (o_attrs ob))(''username'' \<mapsto> user, ''resource'' \<mapsto> res,
         ''servicename'' \<mapsto> (case port of None \<Rightarrow> ''5222'' | Some s \<Rightarrow> s), ''domain'' \<mapsto> dmn,
         ''hostname'' \<mapsto> (case attr_map (o_attrs ob) ''hostname'' of None \<Rightarrow> host_for dmn | Some v \<Rightarrow> v))"
proof -
  let ?jid = "user @ ''@'' @ dmn @ port_part port @ ''/'' @ res"
  have get: "x_object_getattr h a (Some ''jid'') = Some (Some ?jid)" using ob jid by (simp add: x_object_getattr_def attr_map_def)
  have s1: "split_at (CHR ''@'') ?jid = Some (user, (dmn @ port_part port) @ ''/'' @ res)" using split_at_append [OF parts(1)] by simp
  have s2: "split_at (CHR ''/'') ((dmn @ port_part port) @ ''/'' @ res) = Some (dmn @ port_part port, res)" using split_at_append [OF parts(2)] by simp
  have s3: "split_at (CHR '':'') (dmn @ port_part port) = (case port of None \<Rightarrow> None | Some s \<Rightarrow> Some (dmn, s))"
    using split_at_append [OF parts(3)] parts(3) by (auto simp: port_part_def split_at_def split: option.split)
  let ?svc = "case port of None \<Rightarrow> ''5222'' | Some s \<Rightarrow> s"
  let ?l = "cell_put ''domain'' dmn (cell_put ''servicename'' ?svc (cell_put ''resource'' res (cell_put ''username'' user (o_attrs ob))))"
  have host: "getattr (Some ''hostname'') (Some ?l) = attr_map (o_attrs ob) ''hostname''"
    unfolding attr_map_def [symmetric] by (simp add: xw_abs)
  let ?m = "case attr_map (o_attrs ob) ''hostname'' of None \<Rightarrow> cell_put ''hostname'' (host_for dmn) ?l | Some v \<Rightarrow> ?l"
  have "bus_jid_commit h a = Some (0, h\<lparr>objs := (objs h)(a \<mapsto> ob\<lparr>o_attrs := ?m\<rparr>)\<rparr>)"
    using get s1 s2 s3 host ob
    by (cases port; cases "attr_map (o_attrs ob) ''hostname''") (simp_all add: bus_jid_commit_def setattr_upd x_object_getattr_def port_part_None)
  moreover have "attr_map ?m = (attr_map (o_attrs ob))(''username'' \<mapsto> user, ''resource'' \<mapsto> res, ''servicename'' \<mapsto> ?svc, ''domain'' \<mapsto> dmn,
         ''hostname'' \<mapsto> (case attr_map (o_attrs ob) ''hostname'' of None \<Rightarrow> host_for dmn | Some v \<Rightarrow> v))"
    by (cases "attr_map (o_attrs ob) ''hostname''") (simp_all add: xw_abs fun_eq_iff)
  ultimately show ?thesis by (intro exI [of _ "ob\<lparr>o_attrs := ?m\<rparr>"]) simp
qed

definition jid_heap :: heap where
  "jid_heap = \<lparr>objs = [0 \<mapsto> (new_xobject 0)\<lparr>o_attrs := [(''jid'', ''me@gmail.com:53/home'')]\<rparr>], brk = 1\<rparr>"

theorem bus_jid_commit_splits_witness:
  "\<exists>ob'. bus_jid_commit jid_heap 0 = Some (0, jid_heap\<lparr>objs := (objs jid_heap)(0 \<mapsto> ob')\<rparr>) \<and> attr_map (o_attrs ob') ''username'' = Some ''me''
    \<and> attr_map (o_attrs ob') ''domain'' = Some ''gmail.com'' \<and> attr_map (o_attrs ob') ''servicename'' = Some ''53''
    \<and> attr_map (o_attrs ob') ''resource'' = Some ''home''"
proof -
  have "objs jid_heap 0 = Some ((new_xobject 0)\<lparr>o_attrs := [(''jid'', ''me@gmail.com:53/home'')]\<rparr>)" by (simp add: jid_heap_def)
  from bus_jid_commit_splits [OF this, of "''me''" "''gmail.com''" "Some ''53''" "''home''"] show ?thesis
    by (force simp: port_part_def xw_abs)
qed

end
