(* ===== verification/Core_Stream.thy ===== *)
theory Core_Stream
  imports Core_Stanzas Xw_Bus_Claims
begin

text \<open>The header of the stream, as the client writes it and as the parser reads it.\<close>

section \<open>The declaration in front of the header\<close>

lemma run_decl_open:
  assumes "st Ctx_txt X_PP_INI s0 s1 s2 as d p" "\<not> g2 p"
  shows "runs junk cb p ''<?'' (\<lambda>p'. p' = p\<lparr>g1 := CHR ''?'', stack := [Ctx_tag], r_putc := Ctx_idle\<rparr>)"
proof -
  have "\<not> name_start (CHR ''?'')" by code_simp
  then show ?thesis using assms
    by (simp add: pp_defs x_parser_ctx_txt_def x_parser_ctx_tag_def tag_ini_def x_parser_push_def X_INI_STACK_SIZE_def)
qed

lemma run_idle:
  "list_all (\<lambda>c. c \<noteq> g1 p) s \<Longrightarrow> r_putc p = Ctx_idle \<Longrightarrow> \<not> g2 p \<Longrightarrow> runs junk cb p s (\<lambda>p'. p' = p)"
  by (induction s) (auto simp: runs_Cons pp_putc_def x_parser_ctx_idle_def)

lemma run_decl:
  assumes s: "st Ctx_txt X_PP_INI s0 s1 s2 as d p" "\<not> g2 p"
  shows "runs junk cb p XML_DECL (st Ctx_txt X_PP_INI [] s1 s2 as d)"
proof -
  let ?p = "p\<lparr>g1 := CHR ''?'', stack := [Ctx_tag], r_putc := Ctx_idle\<rparr>"
  let ?mid = "''xml version='' @ [APOS] @ ''1.0'' @ [APOS]"
  have parts: "XML_DECL = ''<?'' @ ?mid @ ''?'' @ ''>''" by (simp add: XML_DECL_def)
  have mid: "list_all (\<lambda>c. c \<noteq> g1 ?p) ?mid" by (simp add: APOS_def)
  have neg: "\<not> negc (CHR ''?'')" by code_simp
  have q: "runs junk cb ?p ''?'' (st Ctx_tag X_PP_INI s0 s1 s2 as d)"
    using s(1) neg by (simp add: pp_defs x_parser_ctx_idle_def x_parser_pop_def)
  have gt: "runs junk cb p1 ''>'' (st Ctx_txt X_PP_INI [] s1 s2 as d)" if "st Ctx_tag X_PP_INI s0 s1 s2 as d p1" for p1
  proof -
    let ?p1 = "p1\<lparr>cr1 := X_PP_INI\<rparr>"
    have "reg (r0 ?p1) s0" using that by (simp add: st_def)
    then obtain x where "clear_r0 junk ?p1 = Some (?p1\<lparr>r0 := x\<rparr>)" "reg x []" using regs(1) by blast
    then show ?thesis using that by (simp add: pp_defs x_parser_ctx_tag_def tag_ini_def)
  qed
  show ?thesis unfolding parts
  proof (rule runs_seq [OF run_decl_open [OF s]])
    fix p1 assume p1: "p1 = ?p"
    show "runs junk cb p1 (?mid @ ''?'' @ ''>'') (st Ctx_txt X_PP_INI [] s1 s2 as d)"
    proof (rule runs_seq [OF run_idle])
      fix p2 assume "p2 = p1"
      then show "runs junk cb p2 (''?'' @ ''>'') (st Ctx_txt X_PP_INI [] s1 s2 as d)"
        using runs_seq [OF q gt] p1 by simp
    qed (use mid s p1 in simp_all)
  qed
qed

section \<open>The attributes\<close>

abbreviation stream_kv :: "string \<times> string \<Rightarrow> string \<times> string" where
  "stream_kv \<equiv> \<lambda>(k, v). (stream_key k, v)"

text \<open>An attribute that no other attribute is written as.\<close>

definition own_key :: "string \<Rightarrow> bool" where
  "own_key k \<longleftrightarrow> stream_key k = k \<and> k \<noteq> ''to'' \<and> k \<noteq> ''from''"

lemma own_key_only: "own_key k \<Longrightarrow> stream_key k' = k \<longleftrightarrow> k' = k"
  by (auto simp: own_key_def stream_key_def split: if_splits)

lemma cell_find_stream: "own_key k \<Longrightarrow> cell_find k (map stream_kv ps) = cell_find k ps"
  by (induction ps) (simp_all add: own_key_only split_beta)

lemma cell_put_stream: "own_key k \<Longrightarrow> map stream_kv (cell_put k v ps) = cell_put k v (map stream_kv ps)"
  using cell_find_Some [of k ps] own_key_only [of k k]
  by (auto simp: cell_put_def cell_find_stream map_update split_beta split: option.split)

lemma list_all_cell_put: "list_all P ps \<Longrightarrow> P (k, v) \<Longrightarrow> list_all P (cell_put k v ps)"
  by (auto simp: cell_put_def list_all_iff dest: cell_find_Some set_update_subset_insert [THEN subsetD] split: option.split)

definition STREAM_ATTS :: attr_list where
  "STREAM_ATTS = [(''xmlns'', ''jabber:client''), (''xmlns:stream'', ''http://etherx.jabber.org/streams''),
     (''version'', ''1.0''), (''xml:lang'', ''en''), (''xmlns:xml'', ''http://www.w3.org/XML/1998/namespace'')]"

lemma set_attrs_put:
  "objs h a = Some ob \<Longrightarrow> set_attrs h a (map (\<lambda>(k, v). (k, Some v)) kvs) =
     Some (h\<lparr>objs := (objs h)(a \<mapsto> ob\<lparr>o_attrs := foldl (\<lambda>ps (k, v). cell_put k v ps) (o_attrs ob) kvs\<rparr>)\<rparr>)"
proof (induction kvs arbitrary: h ob)
  case Nil
  then have "(objs h)(a \<mapsto> ob) = objs h" by auto
  then show ?case by simp
next
  case (Cons kv kvs)
  obtain k v where kv: "kv = (k, v)" by (cases kv)
  let ?ob = "ob\<lparr>o_attrs := cell_put k v (o_attrs ob)\<rparr>"
  have "objs (h\<lparr>objs := (objs h)(a \<mapsto> ?ob)\<rparr>) a = Some ?ob" by simp
  from Cons.IH [OF this] setattr_upd [OF Cons.prems, of k v] show ?case by (simp add: kv del: fun_upd_apply)
qed

lemma put_stream:
  assumes "list_all (\<lambda>kv. own_key (fst kv)) kvs"
  shows "map stream_kv (foldl (\<lambda>ps (k, v). cell_put k v ps) ps kvs) = foldl (\<lambda>ps (k, v). cell_put k v ps) (map stream_kv ps) kvs"
  using assms by (induction kvs arbitrary: ps) (auto simp: cell_put_stream)

lemma put_all_map:
  "distinct (map fst ps) \<Longrightarrow> distinct (map fst kvs) \<Longrightarrow> distinct (map fst (foldl (\<lambda>ps (k, v). cell_put k v ps) ps kvs))
     \<and> map_of (foldl (\<lambda>ps (k, v). cell_put k v ps) ps kvs) = map_of ps ++ map_of kvs"
proof (induction kvs arbitrary: ps)
  case (Cons kv kvs)
  obtain k v where kv: "kv = (k, v)" by (cases kv)
  have "k \<notin> dom (map_of kvs)" using Cons.prems(2) by (simp add: kv dom_map_of_conv_image_fst)
  then have "(map_of ps)(k \<mapsto> v) ++ map_of kvs = map_of ps ++ map_of (kv # kvs)"
    by (simp add: kv map_add_upd_left)
  then show ?case using Cons.IH [of "cell_put k v ps"] Cons.prems by (simp add: kv cell_put_distinct cell_put_map_of del: fun_upd_apply)
qed simp

section \<open>The header\<close>

lemma stream_atts_ok: "list_all (\<lambda>kv. own_key (fst kv)) STREAM_ATTS" "distinct (map fst STREAM_ATTS)"
  by code_simp+

text \<open>The two addresses appear under the names of RFC 6120.\<close>

lemma header_address:
  assumes d: "distinct (map fst (map stream_kv ps))" and m: "map_of bs = map_of (map stream_kv ps) ++ map_of STREAM_ATTS"
  shows "\<forall>v. map_of ps ''remote'' = Some v \<longrightarrow> map_of bs ''to'' = Some v" "\<forall>v. map_of ps ''local'' = Some v \<longrightarrow> map_of bs ''from'' = Some v"
proof -
  have key: "stream_key ''remote'' = ''to''" "stream_key ''local'' = ''from''" by code_simp+
  have "map_of (map stream_kv ps) (stream_key k) = Some v" if "map_of ps k = Some v" for k v
    using map_of_is_SomeI [OF d, of "stream_key k" v] map_of_SomeD [OF that] by force
  from this [of "''remote''"] this [of "''local''"]
  show "\<forall>v. map_of ps ''remote'' = Some v \<longrightarrow> map_of bs ''to'' = Some v" "\<forall>v. map_of ps ''local'' = Some v \<longrightarrow> map_of bs ''from'' = Some v"
    unfolding key m by (simp_all add: STREAM_ATTS_def map_add_def)
qed

lemma stream_text:
  assumes "objs h so = Some ob" "o_name ob = Some n"
  shows "stream_append h so parent = Some (XML_DECL @ ''<'' @ (n @ '':'' @ n)
       @ concat (map att_str (foldl (\<lambda>ps (k, v). cell_put k v ps) (map stream_kv (o_attrs ob)) STREAM_ATTS)) @ ''>'', 0,
     h\<lparr>objs := (objs h)(so \<mapsto> ob\<lparr>o_attrs := foldl (\<lambda>ps (k, v). cell_put k v ps) (o_attrs ob) STREAM_ATTS\<rparr>)\<rparr>)"
proof -
  let ?as = "foldl (\<lambda>ps (k, v). cell_put k v ps) (o_attrs ob) STREAM_ATTS"
  let ?h = "h\<lparr>objs := (objs h)(so \<mapsto> ob\<lparr>o_attrs := ?as\<rparr>)\<rparr>"
  have five: "[(''xmlns'', Some ''jabber:client''), (''xmlns:stream'', Some ''http://etherx.jabber.org/streams''),
        (''version'', Some ''1.0''), (''xml:lang'', Some ''en''), (''xmlns:xml'', Some ''http://www.w3.org/XML/1998/namespace'')] = map (\<lambda>(k, v). (k, Some v)) STREAM_ATTS"
    by (simp add: STREAM_ATTS_def)
  have "(\<lambda>(k, v). '' '' @ stream_key k @ ''='' @ [APOS] @ v @ [APOS]) = (\<lambda>kv. att_str (stream_kv kv))"
    by (auto simp: fun_eq_iff att_str_def APOS_def)
  then have "stream_publish ?h so = Some (XML_DECL @ ''<'' @ n @ '':'' @ n @ concat (map att_str (map stream_kv ?as)) @ ''>'')"
    using assms(2) by (simp add: stream_publish_def comp_def)
  then show ?thesis unfolding stream_append_def five set_attrs_put [OF assms(1)]
    by (simp add: put_stream [OF stream_atts_ok(1)] del: map_map)
qed

lemma list_all_put: "list_all P ps \<Longrightarrow> list_all P kvs \<Longrightarrow> list_all P (foldl (\<lambda>ps (k, v). cell_put k v ps) ps kvs)"
  by (induction kvs arbitrary: ps) (auto simp: list_all_cell_put)

lemma stream_chars:
  "name_start CHR ''t''" "key_char CHR ''o''" "name_start CHR ''f''" "key_char CHR ''r''" "key_char CHR ''m''"
  by code_simp+

lemma good_stream_kv: "good_attr kv \<Longrightarrow> good_attr (stream_kv kv)"
  using stream_chars by (cases kv) (simp add: good_attr_def good_name_def stream_key_def reg_max_def)

lemma stream_atts_good: "list_all good_attr STREAM_ATTS"
proof -
  have "list_all (\<lambda>kv. fst kv \<noteq> [] \<and> name_start (hd (fst kv)) \<and> list_all key_char (tl (fst kv)) \<and> snd kv \<noteq> [] \<and> NUL \<notin> set (snd kv) \<and> CHR 0x27 \<notin> set (snd kv)) STREAM_ATTS"
    by code_simp
  moreover have "list_all (\<lambda>kv. length (fst kv) < reg_max \<and> length (snd kv) < reg_max) STREAM_ATTS" by (simp add: STREAM_ATTS_def reg_max_def)
  ultimately show ?thesis by (auto simp: list_all_iff good_attr_def good_name_def readable_def)
qed

lemma stream_good: "list_all good_attr ps \<Longrightarrow> list_all good_attr (foldl (\<lambda>ps (k, v). cell_put k v ps) (map stream_kv ps) STREAM_ATTS)"
  by (rule list_all_put [OF _ stream_atts_good]) (use good_stream_kv in \<open>auto simp: list_all_iff\<close>)

text \<open>
  C15. The header of the stream: the text that the client writes when the stream object is
  appended is read by the parser of the program as one opening tag \<^verbatim>\<open>name:name\<close> and nothing else,
  whatever is in front of the tag. Its attributes are those of the object, with \<^verbatim>\<open>remote\<close> as \<^verbatim>\<open>to\<close>
  and \<^verbatim>\<open>local\<close> as \<^verbatim>\<open>from\<close>, and the namespaces, the version and the language of RFC 6120, which
  override attributes of the same name. It holds for attributes that can be written (values
  without quotes, since nothing is escaped) and of which no two are written under the same name.
\<close>

theorem stream_header_reported:
  assumes o: "objs h so = Some ob" "o_name ob = Some n" and n: "good_name name_char (n @ '':'' @ n)"
    and as: "list_all good_attr (o_attrs ob)" "distinct (map (stream_key \<circ> fst) (o_attrs ob))"
    and p: "st Ctx_txt X_PP_INI s0 s1 s2 carry d p" "\<not> g2 p"
  shows "\<exists>out h1 p' as'. stream_append h so parent = Some (out, 0, h1) \<and> pp_feed junk log_cb p out = Some p'
     \<and> cbdata p' = d @ [EOpen (n @ '':'' @ n) as'] \<and> st Ctx_txt X_PP_INI [] [] [] as' (cbdata p') p'
     \<and> distinct (map fst as') \<and> map_of as' = map_of (map stream_kv (o_attrs ob)) ++ map_of STREAM_ATTS
     \<and> (\<forall>v. map_of (o_attrs ob) ''remote'' = Some v \<longrightarrow> map_of as' ''to'' = Some v)
     \<and> (\<forall>v. map_of (o_attrs ob) ''local'' = Some v \<longrightarrow> map_of as' ''from'' = Some v)"
proof -
  let ?nn = "n @ '':'' @ n"
  let ?bs = "foldl (\<lambda>ps (k, v). cell_put k v ps) (map stream_kv (o_attrs ob)) STREAM_ATTS"
  let ?as = "put_attrs [] ?bs"
  have dist: "distinct (map fst (map stream_kv (o_attrs ob)))" using as(2) by (simp add: comp_def split_beta)
  have maps: "distinct (map fst ?bs)" "map_of ?bs = map_of (map stream_kv (o_attrs ob)) ++ map_of STREAM_ATTS"
    using put_all_map [OF dist stream_atts_ok(2)] by simp_all
  have rev: "?as = rev ?bs" using put_attrs_rev [of "[]" ?bs] maps(1) by simp
  have good: "list_all good_attr ?bs" by (rule stream_good [OF as(1)])
  have "map_of ?bs ''version'' = Some ''1.0''" unfolding maps(2) by (simp add: STREAM_ATTS_def map_add_def)
  then have ne: "?bs \<noteq> []" by (metis map_of.simps(1) option.distinct(1))
  have read: "readable ?nn" by (rule good_name_readable [OF n])
  have "runs junk log_cb p (XML_DECL @ (''<'' @ ?nn) @ (concat (map att_str ?bs) @ ''>'')) (st Ctx_txt X_PP_INI [] [] [] ?as (d @ [EOpen ?nn ?as]))"
  proof (rule runs_seq [OF run_decl [OF p]], rule runs_seq [OF run_open_name [OF n]], assumption)
    fix p1 p2 assume s: "st Ctx_tag X_PP_OBJ_OPENING ?nn s1 s2 carry d p2"
    show "runs junk log_cb p2 (concat (map att_str ?bs) @ ''>'') (st Ctx_txt X_PP_INI [] [] [] ?as (d @ [EOpen ?nn ?as]))"
    proof (rule run_tag_end [OF good s])
      fix u1 u2 p3 assume "st Ctx_tag X_PP_OBJ_OPENING ?nn u1 u2 (if ?bs = [] then carry else put_attrs [] ?bs) d p3"
      then have "st Ctx_tag X_PP_OBJ_OPENING ?nn u1 u2 ?as d p3" using ne by simp
      then show "runs junk log_cb p3 ''>'' (st Ctx_txt X_PP_INI [] [] [] ?as (d @ [EOpen ?nn ?as]))"
        by (rule run_open_gt [OF _ read]) (simp add: log_cb_def)
    qed simp
  qed
  then obtain p' where p': "pp_feed junk log_cb p (XML_DECL @ (''<'' @ ?nn) @ (concat (map att_str ?bs) @ ''>'')) = Some p'"
    "st Ctx_txt X_PP_INI [] [] [] ?as (d @ [EOpen ?nn ?as]) p'" by (auto simp: runs_def)
  have m: "map_of ?as = map_of ?bs" unfolding rev using maps(1) map_of_inject_set [of "rev ?bs" ?bs] by (simp add: rev_map [symmetric])
  have "distinct (map fst ?as)" unfolding rev using maps(1) by (simp add: rev_map [symmetric])
  moreover obtain h1 where "stream_append h so parent = Some (XML_DECL @ (''<'' @ ?nn) @ (concat (map att_str ?bs) @ ''>''), 0, h1)"
    unfolding stream_text [OF o] append.assoc by blast
  moreover have "cbdata p' = d @ [EOpen ?nn ?as]" "st Ctx_txt X_PP_INI [] [] [] ?as (cbdata p') p'" using p'(2) by (simp_all add: st_def)
  moreover note p'(1) m [unfolded maps(2)] header_address [OF dist m [unfolded maps(2)]]
  ultimately show ?thesis
    by (intro exI [of _ "XML_DECL @ (''<'' @ ?nn) @ (concat (map att_str ?bs) @ ''>'')"] exI [of _ h1] exI [of _ p'] exI [of _ ?as]) (intro conjI)
qed

definition stream_heap :: heap where
  "stream_heap = \<lparr>objs = [5 \<mapsto> (new_xobject 0)\<lparr>o_name := Some ''stream'', o_attrs := [(''local'', ''me''), (''remote'', ''x'')]\<rparr>], brk = 6\<rparr>"

lemma stream_heap_chars:
  "name_start CHR ''s''" "name_char CHR ''t''" "name_char CHR ''r''" "name_char CHR ''e''" "name_char CHR ''a''" "name_char CHR ''m''"
  "name_char CHR '':''" "name_char CHR ''s''" "name_start CHR ''l''" "key_char CHR ''c''" "key_char CHR ''a''" "key_char CHR ''l''"
  "name_start CHR ''r''" "key_char CHR ''e''" "key_char CHR ''t''" "NUL \<noteq> CHR ''m''" "NUL \<noteq> CHR ''e''" "NUL \<noteq> CHR ''x''"
  by code_simp+

theorem stream_header_reported_witness:
  "\<exists>out h1 p' as'. stream_append stream_heap 5 0 = Some (out, 0, h1) \<and> pp_feed (\<lambda>_. NUL) log_cb (pp_zero []) out = Some p'
     \<and> cbdata p' = [EOpen ''stream:stream'' as'] \<and> map_of as' ''to'' = Some ''x'' \<and> map_of as' ''from'' = Some ''me'' \<and> map_of as' ''version'' = Some ''1.0''"
proof -
  let ?ob = "(new_xobject 0)\<lparr>o_name := Some ''stream'', o_attrs := [(''local'', ''me''), (''remote'', ''x'')]\<rparr>"
  have o: "objs stream_heap 5 = Some ?ob" "o_name ?ob = Some ''stream''" by (simp_all add: stream_heap_def)
  have n: "good_name name_char (''stream'' @ '':'' @ ''stream'')" using stream_heap_chars by (simp add: good_name_def reg_max_def)
  have as: "list_all good_attr (o_attrs ?ob)"
    using stream_heap_chars stream_chars by (simp add: good_attr_def good_name_def readable_def reg_max_def)
  have keys: "map stream_kv (o_attrs ?ob) = [(''from'', ''me''), (''to'', ''x'')]" "distinct (map (stream_key \<circ> fst) (o_attrs ?ob))"
  proof -
    have "stream_key ''local'' = ''from''" "stream_key ''remote'' = ''to''" by code_simp+
    then show "map stream_kv (o_attrs ?ob) = [(''from'', ''me''), (''to'', ''x'')]" "distinct (map (stream_key \<circ> fst) (o_attrs ?ob))" by simp_all
  qed
  have g: "\<not> g2 (pp_zero [])" by (simp add: pp_zero_def)
  obtain out h1 p' as' where x: "stream_append stream_heap 5 0 = Some (out, 0, h1)" "pp_feed (\<lambda>_. NUL) log_cb (pp_zero []) out = Some p'"
    "cbdata p' = [] @ [EOpen (''stream'' @ '':'' @ ''stream'') as']" "map_of as' = map_of (map stream_kv (o_attrs ?ob)) ++ map_of STREAM_ATTS"
    using stream_header_reported [OF o n as keys(2) pp_zero_st g, of 0 "\<lambda>_. NUL"] by blast
  have m: "map_of as' = map_of [(''from'', ''me''), (''to'', ''x'')] ++ map_of STREAM_ATTS" using x(4) unfolding keys(1) .
  show ?thesis
    by (intro exI [of _ out] exI [of _ h1] exI [of _ p'] exI [of _ as']) (use x(1-3) in \<open>simp add: m STREAM_ATTS_def map_add_def\<close>)
qed

end
