(* ===== verification/Xw_Obj_Copy.thy ===== *)
theory Xw_Obj_Copy
  imports Xw_Bus_Claims
begin

text \<open>
  The recursive copy of an object: the copy is a tree of new objects that represents the same
  element as the original, except that the attributes of every element come in the reverse order.
\<close>

section \<open>One object\<close>

fun xml_copy :: "xml \<Rightarrow> xml" and xmls_copy :: "xml list \<Rightarrow> xml list" where
  "xml_copy (Elem n as c ks) = Elem n (put_attrs [] as) c (xmls_copy ks)"
| "xmls_copy [] = []"
| "xmls_copy (t # ts) = xml_copy t # xmls_copy ts"

fun small :: "xml \<Rightarrow> bool" and smalls :: "xml list \<Rightarrow> bool" where
  "small (Elem n as c ks) \<longleftrightarrow> length c < 4000000000 \<and> smalls ks"
| "smalls [] \<longleftrightarrow> True"
| "smalls (t # ts) \<longleftrightarrow> small t \<and> smalls ts"

text \<open>A heap that extends another one by new objects.\<close>

definition extends :: "heap \<Rightarrow> heap \<Rightarrow> bool" where
  "extends h0 h \<longleftrightarrow> heap_ok h \<and> brk h0 \<le> brk h \<and> (\<forall>a < brk h0. objs h a = objs h0 a)"

lemma extends_old: "extends h0 h \<Longrightarrow> heap_ok h0 \<Longrightarrow> objs h0 a = Some ob \<Longrightarrow> objs h a = Some ob"
  using heap_ok_less by (auto simp: extends_def)

lemma copy_object:
  assumes e: "plain_env env" and h: "heap_ok h" and x: "objs h x = Some ob" "obj_is ob n as c" and c: "length c < 4000000000"
  shows "\<exists>h' mo. x_object_copy env h x = Some (Some (brk h), h') \<and> objs h' = (objs h)(brk h \<mapsto> mo) \<and> brk h' = brk h + 1
     \<and> obj_is mo n (put_attrs [] as) c \<and> o_parent mo = None \<and> o_next mo = None \<and> o_sibling mo = None \<and> o_sons mo = None \<and> o_refs mo = 1"
proof -
  let ?a = "brk h"
  obtain xo h1 where new: "x_object_new_ns_match env h (Some ''$message'') None None True = Some (Some ?a, h1)" "is_new ''$message'' xo"
    "objs h1 = (objs h)(?a \<mapsto> xo)" "brk h1 = ?a + 1"
    using new_object [OF e message_name, of h None None] by blast
  have ne: "x \<noteq> ?a" using heap_ok_less [OF h x(1)] by simp
  have o1: "o_name ob = Some n" "o_attrs ob = as" "xs_ok (o_content ob)" "xs_str (o_content ob) = c" using x(2) by (simp_all add: obj_is_def)
  let ?x2 = "xo\<lparr>o_name := Some n\<rparr>" and ?x3 = "xo\<lparr>o_name := Some n, o_attrs := put_attrs [] as\<rparr>"
  let ?h2 = "h1\<lparr>objs := (objs h)(?a \<mapsto> ?x2)\<rparr>" and ?h3 = "h1\<lparr>objs := (objs h)(?a \<mapsto> ?x3)\<rparr>"
  have s2: "x_object_set_name h1 ?a n = Some ?h2" using new(3) by (simp add: x_object_set_name_def upd_def)
  have at2: "objs ?h2 ?a = Some ?x2" "o_attrs ?x2 = []" using new(2) by (simp_all add: is_new_def)
  have s3: "x_object_default_assign_cb ?h2 ?a as = Some ?h3" using default_assign [OF at2(1), of as] new(2) by (simp add: is_new_def)
  have block: "unat (pos (o_content ob)) \<le> length (xs_block (o_content ob))" using xs_ok_pos [OF o1(3)] o1(3) by (simp add: xs_ok_def)
  then have siz: "unat (pos (o_content ob)) = length c" using arg_cong [OF o1(4), of length] by (simp add: xs_str_def)
  obtain y where y: "x_string_write (cjunk env) X_STRING_STATIC_INIT (xs_block (o_content ob)) (unat (pos (o_content ob))) = Some y" "xs_ok y" "xs_str y = c"
  proof (rule x_string_write_ok [OF xs_ok_init(1) _ block, of "cjunk env"])
    show "unat (capacity X_STRING_STATIC_INIT) + unat (pos (o_content ob)) + 33 < 2 ^ 32" using siz c by (simp add: X_STRING_STATIC_INIT_def)
  qed (use that o1(4) xs_ok_init(2) in \<open>auto simp: xs_str_def\<close>)
  let ?mo = "?x3\<lparr>o_content := y\<rparr>" and ?h4 = "h1\<lparr>objs := (objs h)(?a \<mapsto> xo\<lparr>o_name := Some n, o_attrs := put_attrs [] as, o_content := y\<rparr>)\<rparr>"
  have "objs h1 x = Some ob" using new(3) x(1) ne by simp
  then have "x_object_copy env h x = Some (Some ?a, ?h4)"
    using new(1,2) s2 s3 o1(1,2) y(1) ne x(1)
    by (simp add: x_object_copy_def x_object_new_ns_def x_object_get_name_def fld_def upd_def is_new_def)
  moreover have "obj_is ?mo n (put_attrs [] as) c" using y(2,3) by (simp add: obj_is_def)
  ultimately show ?thesis using new(2,4) by (intro exI [of _ ?h4] exI [of _ ?mo]) (simp add: is_new_def)
qed

section \<open>The tree\<close>

lemma family_same:
  assumes f: "family h p as" and p: "map_option o_sons (objs h' p) = map_option o_sons (objs h p)" and m: "\<And>a. a \<in> set as \<Longrightarrow> objs h' a = objs h a"
  shows "family h' p as"
proof -
  obtain po where po: "objs h p = Some po" "seg o_sibling h (o_sons po) as None" "distinct (p # as)" "list_all (named h) as"
    using f by (auto simp: family_def kids_def)
  obtain po' where po': "objs h' p = Some po'" "o_sons po' = o_sons po" using p po(1) by (cases "objs h' p") auto
  have "seg o_sibling h' (o_sons po') as None" using po(2) po'(2) seg_cong [of o_sibling h' h as] m by (simp add: list_all_iff)
  then have "kids h' p as" using po po'(1) m by (auto simp: kids_def list_all_iff named_def)
  moreover have "nexts_ok h' as" using f m unfolding family_def nexts_ok_def by (metis nth_mem)
  ultimately show ?thesis using f m by (simp add: family_def)
qed

lemma family_empty: "objs h p = Some po \<Longrightarrow> o_sons po = None \<Longrightarrow> family h p []"
  by (simp add: family_def kids_def nexts_ok_def)

text \<open>Appending a copy below a new object keeps the copy.\<close>

lemma append_copy:
  assumes h: "heap_ok h" and f: "family h p as" and po: "objs h p = Some po" and x: "tree_at h x x t" "objs h x = Some xo" "o_next xo = None" "o_parent xo = None"
    and lo: "p < x" "\<forall>a \<in> set as. a < x" "\<forall>q. o_parent po = Some q \<longrightarrow> q < x"
  shows "\<exists>h1 po'. x_object_append_child_no_cb h (Some p) x = Some (0, h1) \<and> heap_ok h1 \<and> family h1 p (as @ [x]) \<and> brk h1 = brk h \<and> tree_at h1 x x t
    \<and> objs h1 p = Some po' \<and> keeps p p po po' \<and> (\<forall>a. a \<notin> set (p # x # as) \<longrightarrow> objs h1 a = objs h a)
    \<and> (\<forall>a ob. a \<noteq> x \<longrightarrow> objs h a = Some ob \<longrightarrow> (\<exists>ob'. objs h1 a = Some ob' \<and> keeps p a ob ob'))"
proof -
  obtain n ats c ks where t: "t = Elem n ats c ks" by (cases t)
  then have nm: "o_name xo = Some n" using x(1,2) by (auto simp: obj_is_def)
  have out: "x \<notin> set (p # as)" using lo by auto
  let ?xo = "xo\<lparr>o_parent := Some p, o_next := None, o_sibling := None, o_refs := o_refs xo + 1, o_bus := o_bus po\<rparr>"
  obtain h1 po' where s: "x_object_append_child_no_cb h (Some p) x = Some (0, h1)" "heap_ok h1" "family h1 p (as @ [x])" "brk h1 = brk h"
    "objs h1 x = Some ?xo" "\<And>a. a \<notin> set (p # x # as) \<Longrightarrow> objs h1 a = objs h a"
    and kp: "\<And>a ob. a \<noteq> x \<Longrightarrow> objs h a = Some ob \<Longrightarrow> \<exists>ob'. objs h1 a = Some ob' \<and> keeps p a ob ob'"
    using append_step [OF h f po x(2,3) nm out] by blast
  have "same_above x h h1"
    unfolding same_above_def
  proof (intro conjI allI impI)
    fix a ob assume a: "x \<le> a" "objs h a = Some ob"
    show "\<exists>ob'. objs h1 a = Some ob' \<and> o_name ob' = o_name ob \<and> o_attrs ob' = o_attrs ob \<and> o_content ob' = o_content ob"
      using kp [of a ob] a s(5) x(2) by (cases "a = x") (auto simp: keeps_def)
  next
    fix a bs assume a: "x \<le> a" "family h a bs"
    have "objs h1 b = objs h b" if "b \<in> set bs" for b
    proof (rule s(6))
      have "map_option o_parent (objs h b) = Some (Some a)" using a(2) that by (simp add: family_def)
      then obtain ob where ob: "objs h b = Some ob" "o_parent ob = Some a" by (cases "objs h b") auto
      show "b \<notin> set (p # x # as)" using ob a(1) lo po x(2,4) f by (auto simp: family_def)
    qed
    moreover have "map_option o_sons (objs h1 a) = map_option o_sons (objs h a)"
    proof (cases "a = x")
      case False
      then have "a \<notin> set (p # x # as)" using a(1) lo by auto
      then show ?thesis using s(6) by simp
    qed (use s(5) x(2) in simp)
    ultimately show "family h1 a bs" by (intro family_same [OF a(2)])
  qed
  with tree_at_same(1) [OF x(1)] have "tree_at h1 x x t" by blast
  moreover obtain po'' where "objs h1 p = Some po''" "keeps p p po po''" using kp [OF _ po] lo(1) by auto
  ultimately show ?thesis using s kp by blast
qed

definition copied :: "obj_env \<Rightarrow> heap \<Rightarrow> addr \<Rightarrow> xml \<Rightarrow> heap \<Rightarrow> heap \<Rightarrow> bool" where
  "copied env h0 x t h h' \<longleftrightarrow> full_copy env (Inl x) h = Some (Some (brk h), h') \<and> extends h0 h' \<and> brk h < brk h' \<and> (\<forall>a < brk h. objs h' a = objs h a)
     \<and> tree_at h' (brk h) (brk h) (xml_copy t)
     \<and> (\<exists>mo. objs h' (brk h) = Some mo \<and> o_parent mo = None \<and> o_next mo = None)"

definition copied_all :: "obj_env \<Rightarrow> heap \<Rightarrow> ptr \<Rightarrow> xml list \<Rightarrow> addr \<Rightarrow> addr list \<Rightarrow> heap \<Rightarrow> heap \<Rightarrow> bool" where
  "copied_all env h0 s ts m as h h' \<longleftrightarrow> full_copy env (Inr (m, s)) h = Some (Some m, h') \<and> extends h0 h' \<and> kept m h h'
     \<and> (\<forall>a < brk h. a \<notin> set (m # as) \<longrightarrow> objs h' a = objs h a) \<and> (\<exists>xs. family h' m (as @ xs) \<and> trees_at h' (brk h) xs (xmls_copy ts))"

lemma extends_again:
  assumes "extends h0 h" "heap_ok h'" "brk h \<le> brk h'" "\<And>a. a < brk h0 \<Longrightarrow> objs h' a = objs h a"
  shows "extends h0 h'"
  using assms by (simp add: extends_def)

lemma full_copy_tree:
  assumes e: "plain_env env" and h0: "heap_ok h0"
  shows "xml_at h0 q x t \<Longrightarrow> small t \<Longrightarrow> extends h0 h \<Longrightarrow> \<exists>h'. copied env h0 x t h h'"
    "xmls_at h0 q par s ts \<Longrightarrow> smalls ts \<Longrightarrow> extends h0 h \<Longrightarrow> brk h0 \<le> m \<Longrightarrow> family h m as \<Longrightarrow> objs h m = Some mo \<Longrightarrow> o_parent mo = None \<Longrightarrow>
      \<forall>a \<in> set as. m < a \<Longrightarrow> \<exists>h'. copied_all env h0 s ts m as h h'"
proof (induction t and ts arbitrary: q x h and q par s h m as mo rule: xml_copy_xmls_copy.induct)
  case (1 n ats c ks)
  obtain ob where ob: "objs h0 x = Some ob" "obj_is ob n ats c" "xmls_at h0 q x (o_sons ob) ks" using 1(2) by (auto split: option.splits)
  have ok: "heap_ok h" and x: "objs h x = Some ob" using 1(4) extends_old [OF 1(4) h0 ob(1)] by (simp_all add: extends_def)
  let ?m = "brk h"
  obtain h1 mo where c: "x_object_copy env h x = Some (Some ?m, h1)" "objs h1 = (objs h)(?m \<mapsto> mo)" "brk h1 = ?m + 1"
    "obj_is mo n (put_attrs [] ats) c" "o_parent mo = None" "o_next mo = None" "o_sons mo = None"
    using copy_object [OF e ok x ob(2)] 1(3) by auto
  have xm: "x < ?m" using heap_ok_less [OF ok x] .
  have ok1: "heap_ok h1"
    unfolding heap_ok_def
  proof (intro conjI allI impI)
    show "objs h1 a = None" if "brk h1 \<le> a" for a using that ok c(2,3) by (auto simp: heap_ok_def)
    show "p < brk h1" if "objs h1 a = Some o'" "o_parent o' = Some p" for a o' p
      using that ok c(2,3,5) by (cases "a = ?m") (auto simp: heap_ok_def intro: less_SucI)
  qed
  have ex1: "extends h0 h1" by (rule extends_again [OF 1(4) ok1]) (use 1(4) c(2,3) in \<open>auto simp: extends_def\<close>)
  have at1: "objs h1 ?m = Some mo" using c(2) by simp
  have "?m \<ge> brk h0" using 1(4) by (simp add: extends_def)
  from 1(1) [OF ob(3) _ ex1 this family_empty [OF at1 c(7)] at1 c(5)] 1(3) obtain h' xs where
    h': "full_copy env (Inr (?m, o_sons ob)) h1 = Some (Some ?m, h')" "extends h0 h'" "kept ?m h1 h'" "\<And>a. a < brk h1 \<Longrightarrow> a \<noteq> ?m \<Longrightarrow> objs h' a = objs h1 a"
    "family h' ?m xs" "trees_at h' (brk h1) xs (xmls_copy ks)" by (auto simp: copied_all_def)
  obtain mo' where mo': "objs h' ?m = Some mo'" "keeps ?m ?m mo mo'" using keptD [OF h'(3) at1] by blast
  have "x_object_get_child h1 (Some x) None = Some (o_sons ob)" using c(2) x xm by (simp add: x_object_get_child_def fld_def)
  then have "full_copy env (Inl x) h = Some (Some ?m, h')" using c(1) h'(1) by (simp add: full_copy.simps [of env "Inl x"])
  moreover have "tree_at h' ?m ?m (xml_copy (Elem n ats c ks))"
    using mo' c(4) h'(5,6) c(3) by (auto simp: obj_is_def keeps_def)
  moreover have "o_parent mo' = None" "o_next mo' = None" using mo'(2) c(5,6) by (simp_all add: keeps_def)
  moreover have "?m < brk h'" using kept_brk [OF h'(3)] c(3) by simp
  moreover have "\<forall>a < ?m. objs h' a = objs h a" using h'(4) c(2,3) by simp
  ultimately show ?case using h'(2) mo'(1) unfolding copied_def by blast
next
  case (2 q par s h m as mo)
  then have "full_copy env (Inr (m, s)) h = Some (Some m, h)" by (simp add: full_copy.simps [of env "Inr (m, None)"])
  moreover have "kept m h h" by (simp add: kept_def keeps_def)
  ultimately show ?case using 2(3,5) unfolding copied_all_def by (intro exI [of _ h] conjI exI [of _ "[]"]) simp_all
next
  case (3 t ts)
  obtain c ob where c: "s = Some c" "objs h0 c = Some ob" "xml_at h0 q c t" "xmls_at h0 q par (o_sibling ob) ts"
    using 3(3) by (auto split: option.splits)
  obtain h1 xo where h1: "full_copy env (Inl c) h = Some (Some (brk h), h1)" "extends h0 h1" "brk h < brk h1" "\<And>a. a < brk h \<Longrightarrow> objs h1 a = objs h a"
    "tree_at h1 (brk h) (brk h) (xml_copy t)" "objs h1 (brk h) = Some xo" "o_parent xo = None" "o_next xo = None"
    using 3(1) [OF c(3) _ 3(5)] 3(4) by (auto simp: copied_def)
  have ok: "heap_ok h" "heap_ok h1" using 3(5) h1(2) by (simp_all add: extends_def)
  have m: "m < brk h" using heap_ok_less [OF ok(1) 3(8)] .
  have as: "a < brk h" if "a \<in> set as" for a using family_alive [OF 3(7), of a] that heap_ok_less [OF ok(1)] by auto
  have f1: "family h1 m as" by (rule family_same [OF 3(7)]) (use h1(4) m as in simp_all)
  have m1: "objs h1 m = Some mo" using h1(4) [OF m] 3(8) by simp
  obtain h2 po where h2: "x_object_append_child_no_cb h1 (Some m) (brk h) = Some (0, h2)" "heap_ok h2" "family h2 m (as @ [brk h])" "brk h2 = brk h1"
    "tree_at h2 (brk h) (brk h) (xml_copy t)" "objs h2 m = Some po" "keeps m m mo po" "\<And>a. a \<notin> set (m # brk h # as) \<Longrightarrow> objs h2 a = objs h1 a"
    and kp: "\<And>a ob. a \<noteq> brk h \<Longrightarrow> objs h1 a = Some ob \<Longrightarrow> \<exists>ob'. objs h2 a = Some ob' \<and> keeps m a ob ob'"
    using append_copy [OF ok(2) f1 m1 h1(5,6,8,7) m] as 3(9) by auto
  have "objs h2 a = objs h1 a" if "a < brk h0" for a
    by (rule h2(8)) (use that 3(5,6,10) in \<open>auto simp: extends_def\<close>)
  then have ex2: "extends h0 h2" using extends_again [OF h1(2) h2(2)] h2(4) by simp
  have sib: "x_object_get_sibling h2 (Some c) = Some (o_sibling ob)"
    using extends_old [OF ex2 h0 c(2)] by (simp add: x_object_get_sibling_def fld_def)
  have par2: "o_parent po = None" using h2(7) 3(9) by (simp add: keeps_def)
  have as2: "\<forall>a \<in> set (as @ [brk h]). m < a" using 3(10) m by auto
  obtain h3 xs where h3: "full_copy env (Inr (m, o_sibling ob)) h2 = Some (Some m, h3)" "extends h0 h3" "kept m h2 h3"
    "\<And>a. a < brk h2 \<Longrightarrow> a \<notin> set (m # as @ [brk h]) \<Longrightarrow> objs h3 a = objs h2 a" "family h3 m ((as @ [brk h]) @ xs)" "trees_at h3 (brk h2) xs (xmls_copy ts)"
    using 3(2) [OF c(4) _ ex2 3(6) h2(3,6) par2 as2] 3(4) by (auto simp: copied_all_def)
  have k2: "kept m h h2"
    unfolding kept_def
  proof (intro conjI allI impI)
    show "brk h \<le> brk h2" using h1(3) h2(4) by simp
    fix a ob assume a: "objs h a = Some ob"
    have l: "a < brk h" by (rule heap_ok_less [OF ok(1) a])
    then have "objs h1 a = Some ob" "a \<noteq> brk h" using h1(4) a by simp_all
    then show "\<exists>ob'. objs h2 a = Some ob' \<and> keeps m a ob ob'" using kp by blast
  qed
  have a: "kept m h h3" by (rule kept_trans [OF k2 h3(3) ok(1)]) simp
  have b: "full_copy env (Inr (m, s)) h = Some (Some m, h3)"
    using c(1) h1(1) h2(1) sib h3(1) by (simp add: full_copy.simps [of env "Inr (m, Some c)"])
  have d: "\<forall>a < brk h. a \<notin> set (m # as) \<longrightarrow> objs h3 a = objs h a"
  proof (intro allI impI)
    fix a assume a: "a < brk h" "a \<notin> set (m # as)"
    then have "objs h3 a = objs h2 a" by (intro h3(4)) (use h1(3) h2(4) in auto)
    also have "\<dots> = objs h1 a" by (rule h2(8)) (use a in auto)
    finally show "objs h3 a = objs h a" using h1(4) [OF a(1)] by simp
  qed
  have "tree_at h3 (brk h) (brk h) (xml_copy t)" by (rule tree_at_same(1) [OF h2(5) same_above_kept [OF h3(3) m]])
  moreover have "trees_at h3 (brk h) xs (xmls_copy ts)" by (rule tree_at_mono(2) [OF h3(6)]) (use h1(3) h2(4) in simp)
  ultimately have tr: "trees_at h3 (brk h) (brk h # xs) (xmls_copy (t # ts))" by simp
  have fam: "family h3 m (as @ (brk h # xs))" using h3(5) by simp
  show ?case unfolding copied_all_def using a b d fam tr h3(2) by blast
qed

text \<open>
  C17. Copying an object with its subtree. Where the classes have no callbacks, the copy of an
  object that represents an element tree exists, is a fresh object without a parent, and
  represents the same tree, in objects of its own, with the attributes of every element in the
  reverse order; no object that existed before is changed.
\<close>

theorem x_object_full_copy_copies:
  assumes "plain_env env" "heap_ok h" "xml_at h q x t" "small t"
  shows "\<exists>h'. x_object_full_copy env h x = Some (Some (brk h), h') \<and> heap_ok h' \<and> tree_at h' (brk h) (brk h) (xml_copy t)
     \<and> map_option o_parent (objs h' (brk h)) = Some None \<and> (\<forall>a < brk h. objs h' a = objs h a)"
proof -
  have "extends h h" using assms(2) by (simp add: extends_def)
  then obtain h' where "copied env h x t h h'" using full_copy_tree(1) [OF assms(1-4)] by blast
  then show ?thesis unfolding copied_def extends_def by (intro exI [of _ h']) (auto simp: x_object_full_copy_def)
qed

lemma demo_dom_heap: "heap_ok demo_dom"
  by (auto simp: heap_ok_def demo_dom_def new_xobject_def split: if_splits)

theorem x_object_full_copy_copies_witness:
  "\<exists>h'. x_object_full_copy demo_env demo_dom 2 = Some (Some 4, h') \<and> heap_ok h'
     \<and> tree_at h' 4 4 (Elem ''iq'' [(''to'', ''me''), (''id'', ''1'')] ''hi'' [Elem ''q'' [(''x'', ''y'')] [] []])
     \<and> map_option o_parent (objs h' 4) = Some None \<and> objs h' 2 = objs demo_dom 2 \<and> objs h' 3 = objs demo_dom 3"
proof -
  have b: "brk demo_dom = 4" by (simp add: demo_dom_def)
  have s: "small demo_xml" by (simp add: demo_xml_def)
  have "xml_copy demo_xml = Elem ''iq'' [(''to'', ''me''), (''id'', ''1'')] ''hi'' [Elem ''q'' [(''x'', ''y'')] [] []]" by code_simp
  then show ?thesis using x_object_full_copy_copies [OF demo_env_plain demo_dom_heap demo_dom_xml s] unfolding b by auto
qed

end
