(* ===== verification/Auth_Sasl_Claims.thy ===== *)
theory Auth_Sasl_Claims
  imports Auth_Sasl Xw_Bus_Claims Xw_Obj_Events
begin

text \<open>What the two mechanisms send, against RFC 4616 and RFC 2831.\<close>

section \<open>PLAIN\<close>

definition rfc4616_message :: "string \<Rightarrow> string \<Rightarrow> string \<Rightarrow> string" where
  "rfc4616_message authzid authcid pw = authzid @ [NUL] @ authcid @ [NUL] @ pw"

lemma align_room: "n \<le> X_STR_MEMLEN_ALIGN n" "n < X_STR_MEMLEN_ALIGN n \<longleftrightarrow> n mod 32 \<noteq> 0"
  unfolding X_STR_MEMLEN_ALIGN_def by presburger+

lemma plain_hash:
  assumes n: "n = 2 * length u + length d + length p + 3"
  shows "xmpp_auth_get_plain_hash junk u p d =
    (if n mod 32 = 0 then None else Some (b64_string (bytes_of (rfc4616_message (u @ ''@'' @ d) u p))))"
proof -
  let ?A = "X_STR_MEMLEN_ALIGN n"
  let ?t = "mem_resize junk [] ?A"
  have len: "length ?t = ?A" by simp
  define t1 where "t1 = buf_put ?t 0 (u @ ''@'' @ d @ [NUL])"
  define t2 where "t2 = buf_put t1 (length u + length d + 2) (u @ [NUL])"
  have w1: "mem_write ?t 0 (u @ ''@'' @ d @ [NUL]) = Some t1" using align_room(1) [of n] n by (simp add: mem_write_Some t1_def)
  have l1: "length t1 = ?A" "take (length u + length d + 2) t1 = u @ ''@'' @ d @ [NUL]"
    using align_room(1) [of n] n by (simp_all add: t1_def buf_put_def)
  have w2: "mem_write t1 (length u + length d + 2) (u @ [NUL]) = Some t2" using align_room(1) [of n] n l1 by (simp add: mem_write_Some t2_def)
  let ?m = "u @ ''@'' @ d @ [NUL] @ u @ [NUL]"
  have "length u + length d + 2 + length (u @ [NUL]) = 2 * length u + length d + 3" by simp
  then have t2: "t2 = ?m @ drop (2 * length u + length d + 3) t1" unfolding t2_def buf_put_def l1(2) by (simp only: append.assoc)
  have "length ?m = 2 * length u + length d + 3" by simp
  then have "take (2 * length u + length d + 3) t2 = ?m" unfolding t2 by (metis append_eq_conv_conj)
  moreover have "length t2 = ?A" using mem_write_SomeD [OF w2] l1(1) by simp
  ultimately have l2: "length t2 = ?A" "take (2 * length u + length d + 3) t2 = ?m" by blast+
  show ?thesis
  proof (cases "n mod 32 = 0")
    case True
    then have "\<not> 2 * length u + length d + 3 + length (p @ [NUL]) \<le> length t2" using align_room(2) [of n] n l2 by simp
    then show ?thesis using True w1 w2 n by (simp add: xmpp_auth_get_plain_hash_def mem_write_def [of t2])
  next
    case False
    then have "n < ?A" using align_room(2) by simp
    then have "mem_write t2 (2 * length u + length d + 3) (p @ [NUL]) = Some (buf_put t2 (2 * length u + length d + 3) (p @ [NUL]))"
      using n l2 by (simp add: mem_write_Some)
    moreover have "n = length (?m @ p)" using n by simp
    then have "take n ((?m @ p) @ [NUL] @ drop (2 * length u + length d + 3 + length (p @ [NUL])) t2) = ?m @ p" by (metis append_eq_conv_conj)
    then have "take n (buf_put t2 (2 * length u + length d + 3) (p @ [NUL])) = rfc4616_message (u @ ''@'' @ d) u p"
      unfolding buf_put_def l2(2) rfc4616_message_def by (simp only: append.assoc)
    ultimately show ?thesis using False w1 w2 n by (simp add: xmpp_auth_get_plain_hash_def)
  qed
qed

section \<open>Searching\<close>

lemma strstr_found: "\<not> sublist pat (a @ butlast pat) \<Longrightarrow> pat \<noteq> [] \<Longrightarrow> strstr (a @ pat @ b) pat = Some (length a)"
proof (induction a)
  case Nil
  then show ?case by (cases pat) simp_all
next
  case (Cons c a)
  have "\<not> prefix pat (c # a @ pat @ b)"
  proof
    assume "prefix pat (c # a @ pat @ b)"
    moreover have "pat @ b = butlast pat @ last pat # b" using Cons.prems(2) by (metis append_butlast_last_id append.assoc append_Cons append_Nil)
    ultimately have "prefix pat ((c # a @ butlast pat) @ last pat # b)" by simp
    moreover have "prefix (c # a @ butlast pat) ((c # a @ butlast pat) @ last pat # b)" by simp
    moreover have "length pat \<le> length (c # a @ butlast pat)" by simp
    ultimately have "prefix pat (c # a @ butlast pat)" using prefix_length_prefix by blast
    then show False using Cons.prems(1) by (auto intro: prefix_imp_sublist)
  qed
  moreover have "\<not> sublist pat (a @ butlast pat)" using Cons.prems(1) by (auto simp: sublist_Cons_right)
  ultimately show ?case using Cons by simp
qed

lemma sublist_butlast: "last pat \<notin> set (butlast pat) \<Longrightarrow> pat \<noteq> [] \<Longrightarrow> \<not> sublist pat a \<Longrightarrow> \<not> sublist pat (a @ butlast pat)"
proof
  assume l: "last pat \<notin> set (butlast pat)" "pat \<noteq> []" "\<not> sublist pat a" and "sublist pat (a @ butlast pat)"
  then obtain x y where xy: "a @ butlast pat = (x @ pat) @ y" by (auto simp: sublist_def)
  obtain us where "a = (x @ pat) @ us \<and> us @ butlast pat = y \<or> a @ us = x @ pat \<and> butlast pat = us @ y"
    using xy append_eq_append_conv2 [of a "butlast pat" "x @ pat" y] by blast
  then show False
  proof
    assume "a = (x @ pat) @ us \<and> us @ butlast pat = y"
    then show False using l(3) by (auto simp: sublist_def)
  next
    assume us: "a @ us = x @ pat \<and> butlast pat = us @ y"
    show False
    proof (cases "us = []")
      case True
      then have "a = x @ pat @ []" using us by simp
      then show False using l(3) unfolding sublist_def by blast
    next
      case False
      then have "last us = last pat" using us l(2) by (metis last_appendR)
      then show False using us l(1) last_in_set [OF False] by simp
    qed
  qed
qed

lemma strstr_None: "\<not> sublist pat a \<Longrightarrow> strstr a pat = None"
proof (induction a)
  case (Cons c a)
  then show ?case by (auto simp: sublist_Cons_right)
qed (simp)

section \<open>Fields\<close>

definition clean :: "string \<Rightarrow> bool" where
  "clean s \<longleftrightarrow> s \<noteq> [] \<and> set s \<inter> (blanks \<union> {NUL, CHR '',''}) = {}"

lemma take_field_clean:
  assumes v: "clean v"
  shows "take_field (pre @ DQ # v @ DQ # post) (length pre) = Some (v, pre @ DQ # v @ NUL # post)"
proof -
  have v': "v \<noteq> []" "hd v \<notin> blanks" "\<forall>c \<in> set v. c \<noteq> DQ \<and> c \<noteq> CHR '',''" "\<forall>c \<in> set v. c \<noteq> NUL"
    using v by (cases v; auto simp: clean_def blanks_def)+
  have dq: "DQ \<in> blanks" by (simp add: blanks_def)
  have "takeWhile (\<lambda>c. c \<in> blanks) (DQ # v @ DQ # post) = [DQ]" using v'(1,2) dq by (cases v) simp_all
  moreover have "takeWhile (\<lambda>c. c \<noteq> DQ \<and> c \<noteq> CHR '','') (v @ DQ # post) = v" using v'(3) by (simp add: takeWhile_tail)
  moreover have "cstr v = v" using v'(4) by (simp add: cstr_def takeWhile_eq_all_conv)
  moreover have "(pre @ DQ # v @ DQ # post)[length pre + 1 + length v := NUL] = pre @ DQ # v @ NUL # post"
    by (simp add: list_update_append)
  ultimately show ?thesis by (simp add: take_field_def Let_def del: list_update.simps)
qed

section \<open>DIGEST-MD5\<close>

lemma raw_md5_digest: "length (md5_buf ctx) = 64 \<Longrightarrow> raw_md5 ctx bs = md5_digest bs"
  using md5.finish_updates [OF TrueI md5_rep_init, of ctx "[bs]"] by (simp add: raw_md5_def)

text \<open>The digest as hexadecimal digits, and the response value of RFC 2831 without a separate authorization identity.\<close>

definition hex_digest :: "u8 list \<Rightarrow> string" where
  "hex_digest bs = concat (map hex2 (md5_digest bs))"

definition rfc2831_value :: "string \<Rightarrow> string \<Rightarrow> string \<Rightarrow> string \<Rightarrow> string \<Rightarrow> string \<Rightarrow> string \<Rightarrow> string \<Rightarrow> string" where
  "rfc2831_value user realm pw nonce cnonce nc qop a2 =
     (let a1 = md5_digest (bytes_of (user @ '':'' @ realm @ '':'' @ pw)) @ bytes_of ('':'' @ nonce @ '':'' @ cnonce)
      in hex_digest (bytes_of (hex_digest a1 @ '':'' @ nonce @ '':'' @ nc @ '':'' @ cnonce @ '':'' @ qop @ '':'' @ hex_digest (bytes_of a2))))"

text \<open>With integrity or confidentiality, 32 zeros follow in the second hashed text.\<close>

definition layered :: "string \<Rightarrow> bool" where
  "layered qop \<longleftrightarrow> qop = ''auth-int'' \<or> qop = ''auth-conf''"

definition rfc2831_a2 :: "string \<Rightarrow> string \<Rightarrow> string" where
  "rfc2831_a2 qop uri = ''AUTHENTICATE:'' @ uri @ (if layered qop then '':'' @ replicate 32 (CHR ''0'') else [])"

definition rfc2831_response :: "string \<Rightarrow> string \<Rightarrow> string \<Rightarrow> string \<Rightarrow> string \<Rightarrow> string \<Rightarrow> string \<Rightarrow> string \<Rightarrow> string" where
  "rfc2831_response user realm pw nonce cnonce nc qop uri =
     rfc2831_value user realm pw nonce cnonce nc qop (rfc2831_a2 qop uri)"

lemma length_raw_md5: "length (raw_md5 ctx bs) = 16"
  by (simp add: raw_md5_def md5_finish_def md5_le_bytes_def Let_def)

lemma get_md5_hex: "length (md5_buf ctx) = 64 \<Longrightarrow> get_md5 ctx bs = hex_digest bs"
  by (simp add: get_md5_def hex_digest_def raw_md5_digest)

lemma get_HA1_hex:
  assumes "length (md5_buf c1) = 64" "length (md5_buf c2) = 64" "ms_realm ms = Some realm"
  shows "get_HA1 c1 c2 ms u p j =
    Some (hex_digest (md5_digest (bytes_of (u @ '':'' @ realm @ '':'' @ p)) @ bytes_of ('':'' @ ms_nonce ms @ '':'' @ ms_cnonce ms)))"
proof -
  let ?d = "raw_md5 c1 (bytes_of (u @ '':'' @ realm @ '':'' @ p))"
  let ?a = "?d @ bytes_of ('':'' @ ms_nonce ms @ '':'' @ ms_cnonce ms)"
  have "16 + length (ms_nonce ms) + length (ms_cnonce ms) + 2 = length ?a" by (simp add: length_raw_md5)
  moreover have "?d @ bytes_of ('':'' @ ms_nonce ms @ '':'' @ ms_cnonce ms @ '':'' @ j @ [NUL]) = ?a @ bytes_of ('':'' @ j @ [NUL])" by simp
  ultimately have "take (16 + length (ms_nonce ms) + length (ms_cnonce ms) + 2)
      (?d @ bytes_of ('':'' @ ms_nonce ms @ '':'' @ ms_cnonce ms @ '':'' @ j @ [NUL])) = ?a" by (metis append_eq_conv_conj)
  then show ?thesis unfolding get_HA1_def assms(3) Let_def Option.bind.simps get_md5_hex [OF assms(2)] by (simp only: raw_md5_digest [OF assms(1)])
qed

text \<open>A challenge as servers send it.\<close>

definition challenge :: "string \<Rightarrow> string \<Rightarrow> string \<Rightarrow> string \<Rightarrow> string" where
  "challenge realm nonce qop rest = ''realm='' @ quoted realm @ '',nonce='' @ quoted nonce @ '',qop='' @ quoted qop @ rest"

definition challenge_ok :: "string \<Rightarrow> string \<Rightarrow> string \<Rightarrow> string \<Rightarrow> bool" where
  "challenge_ok realm nonce qop rest \<longleftrightarrow> clean realm \<and> clean nonce \<and> clean qop \<and> NUL \<notin> set rest
     \<and> \<not> sublist ''nonce='' (''realm='' @ quoted realm @ '','') \<and> \<not> sublist ''qop='' (''realm='' @ quoted realm @ '',nonce='' @ quoted nonce @ '','')
     \<and> \<not> sublist ''rspauth'' (challenge realm nonce qop rest)"

lemma cstr_challenge: "challenge_ok realm nonce qop rest \<Longrightarrow> cstr (challenge realm nonce qop rest @ [NUL]) = challenge realm nonce qop rest"
proof -
  assume ok: "challenge_ok realm nonce qop rest"
  have "NUL \<notin> set (''realm=,nonce=,qop='')" "NUL \<noteq> DQ" by code_simp+
  then have "NUL \<notin> set (challenge realm nonce qop rest)" using ok by (auto simp: challenge_ok_def challenge_def quoted_def clean_def)
  then have "\<forall>c \<in> set (challenge realm nonce qop rest). c \<noteq> NUL" by auto
  then show ?thesis by (simp add: cstr_def takeWhile_tail)
qed

lemma challenge_parsed:
  assumes ok: "challenge_ok realm nonce qop rest"
  shows "md5_sess_new_from_string (Some (challenge realm nonce qop rest @ [NUL])) =
    Some (Some \<lparr>ms_state = 0, ms_realm = Some realm, ms_nonce = nonce, ms_cnonce = CNONCE, ms_qop = Some qop\<rparr>)"
proof -
  let ?c = "challenge realm nonce qop rest"
  have c: "clean realm" "clean nonce" "clean qop" "NUL \<notin> set rest" using ok by (simp_all add: challenge_ok_def)
  have cs: "cstr (?c @ [NUL]) = ?c" by (rule cstr_challenge [OF ok])
  have r: "strstr ?c ''realm='' = Some 0" by (simp add: challenge_def)
  have "strstr ((''realm='' @ quoted realm @ '','') @ ''nonce='' @ quoted nonce @ '',qop='' @ quoted qop @ rest) ''nonce='' = Some (length (''realm='' @ quoted realm @ '',''))"
    by (rule strstr_found [OF sublist_butlast]) (use ok in \<open>simp_all add: challenge_ok_def\<close>)
  then have n: "strstr ?c ''nonce='' = Some (9 + length realm)" by (simp add: challenge_def quoted_def)
  have "strstr ((''realm='' @ quoted realm @ '',nonce='' @ quoted nonce @ '','') @ ''qop='' @ quoted qop @ rest) ''qop='' = Some (length (''realm='' @ quoted realm @ '',nonce='' @ quoted nonce @ '',''))"
    by (rule strstr_found [OF sublist_butlast]) (use ok in \<open>simp_all add: challenge_ok_def\<close>)
  then have q: "strstr ?c ''qop='' = Some (18 + length realm + length nonce)" by (simp add: challenge_def quoted_def)
  let ?t2 = "'',qop='' @ DQ # qop @ DQ # rest @ [NUL]" and ?t3 = "rest @ [NUL]"
  let ?t1 = "'',nonce='' @ DQ # nonce @ DQ # ?t2"
  let ?p2 = "''realm='' @ DQ # realm @ NUL # '',nonce=''"
  let ?p3 = "?p2 @ DQ # nonce @ NUL # '',qop=''"
  have e1: "?c @ [NUL] = ''realm='' @ DQ # realm @ DQ # ?t1" by (simp add: challenge_def quoted_def)
  have e2: "''realm='' @ DQ # realm @ NUL # ?t1 = ?p2 @ DQ # nonce @ DQ # ?t2" by simp
  have e3: "?p2 @ DQ # nonce @ NUL # ?t2 = ?p3 @ DQ # qop @ DQ # ?t3" by simp
  have l: "length ''realm='' = 6" "length ?p2 = 9 + length realm + 6" "length ?p3 = 18 + length realm + length nonce + 4" by simp_all
  have f1: "take_field (?c @ [NUL]) 6 = Some (realm, ''realm='' @ DQ # realm @ NUL # ?t1)"
    using take_field_clean [OF c(1), of "''realm=''" ?t1] unfolding e1 l(1) .
  have f2: "take_field (''realm='' @ DQ # realm @ NUL # ?t1) (9 + length realm + 6) = Some (nonce, ?p2 @ DQ # nonce @ NUL # ?t2)"
    using take_field_clean [OF c(2), of ?p2 ?t2] unfolding e2 l(2) .
  obtain b where f3: "take_field (?p2 @ DQ # nonce @ NUL # ?t2) (18 + length realm + length nonce + 4) = Some (qop, b)"
    using take_field_clean [OF c(3), of ?p3 ?t3] unfolding e3 l(3) by blast
  show ?thesis
    unfolding md5_sess_new_from_string_def option.case cs r n q opt_field_def option.map add_0 f1 f2 f3 Option.bind.simps prod.case by (rule refl)
qed

lemma length_CNONCE: "length CNONCE = 20"
  by (simp add: CNONCE_def)

text \<open>
  C24. The DIGEST-MD5 response. The challenge is base64 text of the realm, the nonce and the quality
  of protection, in this order, each in quotes, not empty and without quotes, commas, blanks and
  zero bytes in it, and then anything else without a zero byte; the names of the two later fields
  do not occur before them, and \<^verbatim>\<open>rspauth\<close> does not occur. The user name, these three and the domain
  of the account together have less than 700 bytes. Then the account answers with the base64 text
  of a response for its name, the realm and nonce of the challenge, the fixed client nonce and the
  service of its domain. When the quality of protection is not \<^verbatim>\<open>auth-int\<close> or \<^verbatim>\<open>auth-conf\<close>, its digest
  value is the one that RFC 2831 defines; for these two, the value lacks the 32 zeros that the RFC
  puts behind the service. Nothing uninitialised on the stack or in the decoder shows in the text.
  (The session that is created is not kept.)
\<close>

theorem rspauth_rfc2831:
  assumes g: "length garbage = 4" "\<And>i. length (md5_buf (ctx i)) = 64" and ok: "challenge_ok realm nonce qop rest"
    and size: "length user + length realm + length nonce + length qop + length jiddomain < 700"
  shows "\<exists>resp. rspauth garbage ctx None (b64_string (bytes_of (challenge realm nonce qop rest))) user pw jid jiddomain =
      Some (b64_string (bytes_of (rsp_text user realm nonce CNONCE jiddomain resp)), None)
    \<and> resp = rfc2831_value user realm pw nonce CNONCE ''00000001'' qop (''AUTHENTICATE:xmpp/'' @ jiddomain)
    \<and> (\<not> layered qop \<longrightarrow> resp = rfc2831_response user realm pw nonce CNONCE ''00000001'' qop (''xmpp/'' @ jiddomain))"
proof -
  let ?c = "challenge realm nonce qop rest"
  have hex: "length (hex_digest bs) = 32" for bs
    by (simp add: hex_digest_def hex2_def length_concat comp_def sum_list_triv md5_digest_def md5_le_bytes_def)
  have byte: "(0 :: u8) = byte_of NUL" by code_simp
  have str: "map chr_of (fst (base64_decode garbage (bytes_of (b64_string (bytes_of ?c))))) = ?c @ [NUL]"
    by (simp add: decode_b64_string [OF g(1)] byte)
  have "\<not> sublist ''rspauth'' (cstr (?c @ [NUL]))" using ok by (simp add: cstr_challenge challenge_ok_def)
  then have "strstr (cstr (?c @ [NUL])) ''rspauth'' = None" by (rule strstr_None)
  then have run: "rspauth garbage ctx None (b64_string (bytes_of ?c)) user pw jid jiddomain =
      Some (b64_string (bytes_of (rsp_text user realm nonce CNONCE jiddomain
        (rfc2831_value user realm pw nonce CNONCE ''00000001'' qop (''AUTHENTICATE:xmpp/'' @ jiddomain)))), None)"
    unfolding rspauth_def str Let_def
    by (simp add: challenge_parsed [OF ok] get_HA1_hex [OF g(2) g(2)] get_HA2_def get_md5_hex [OF g(2)] rfc2831_value_def, use size in \<open>simp add: hex rsp_text_def quoted_def length_CNONCE\<close>)
  have eq: "rfc2831_response user realm pw nonce CNONCE ''00000001'' qop (''xmpp/'' @ jiddomain) =
      rfc2831_value user realm pw nonce CNONCE ''00000001'' qop (''AUTHENTICATE:xmpp/'' @ jiddomain)" if "\<not> layered qop"
    using that by (simp add: rfc2831_response_def rfc2831_a2_def)
  show ?thesis by (rule exI, rule conjI [OF run], rule conjI [OF refl], rule impI, rule eq [symmetric])
qed

lemma sample_challenge: "challenge_ok ''x.org'' ''OA6M='' ''auth'' '',charset=utf-8''"
  by code_simp

theorem rspauth_rfc2831_witness:
  "rspauth [1, 2, 3, 4] (\<lambda>_. \<lparr>md5_count = [7, 7], md5_abcd = [], md5_buf = replicate 64 1\<rparr>) None
      (b64_string (bytes_of (challenge ''x.org'' ''OA6M='' ''auth'' '',charset=utf-8''))) ''me'' ''secret'' ''me@x.org/home'' ''x.org'' =
    Some (b64_string (bytes_of (rsp_text ''me'' ''x.org'' ''OA6M='' CNONCE ''x.org''
      (rfc2831_response ''me'' ''x.org'' ''secret'' ''OA6M='' CNONCE ''00000001'' ''auth'' (''xmpp/'' @ ''x.org'')))), None)"
proof -
  have l: "\<not> layered ''auth''" by (simp add: layered_def)
  have g: "length [1, 2, 3, 4 :: u8] = 4" "\<And>i :: nat. length (md5_buf \<lparr>md5_count = [7, 7], md5_abcd = [], md5_buf = replicate 64 1\<rparr>) = 64"
    and n: "length ''me'' + length ''x.org'' + length ''OA6M='' + length ''auth'' + length ''x.org'' < 700" by simp_all
  note r = rspauth_rfc2831 [OF g sample_challenge n, of "''secret''" "''me@x.org/home''"]
  then obtain resp where v: "rspauth [1, 2, 3, 4] (\<lambda>_. \<lparr>md5_count = [7, 7], md5_abcd = [], md5_buf = replicate 64 1\<rparr>) None
      (b64_string (bytes_of (challenge ''x.org'' ''OA6M='' ''auth'' '',charset=utf-8''))) ''me'' ''secret'' ''me@x.org/home'' ''x.org'' =
    Some (b64_string (bytes_of (rsp_text ''me'' ''x.org'' ''OA6M='' CNONCE ''x.org'' resp)), None)"
    and w: "\<not> layered ''auth'' \<longrightarrow> resp = rfc2831_response ''me'' ''x.org'' ''secret'' ''OA6M='' CNONCE ''00000001'' ''auth'' (''xmpp/'' @ ''x.org'')"
    by (elim exE conjE) (rule that)
  show ?thesis unfolding v mp [OF w l] by (rule refl)
qed

section \<open>Sending PLAIN\<close>

lemma write_content_new:
  assumes x: "objs h a = Some ob" "o_content ob = X_STRING_STATIC_INIT" and l: "length s < 4000000000"
  shows "\<exists>c. write_content env h a s = Some (h\<lparr>objs := (objs h)(a \<mapsto> ob\<lparr>o_content := c\<rparr>)\<rparr>) \<and> xs_ok c \<and> xs_str c = s"
proof -
  have cap: "capacity X_STRING_STATIC_INIT = 0" by (simp add: X_STRING_STATIC_INIT_def)
  have fit: "unat (capacity X_STRING_STATIC_INIT) + length s + 33 < 2 ^ 32" using l unfolding cap by simp
  obtain c where "x_string_write (cjunk env) X_STRING_STATIC_INIT s (length s) = Some c" "xs_ok c" "xs_str c = xs_str X_STRING_STATIC_INIT @ take (length s) s"
    by (rule x_string_write_ok [OF xs_ok_init(1) fit, of s "cjunk env"]) auto
  then show ?thesis using x xs_ok_init(2) by (auto simp: write_content_def upd_def)
qed

text \<open>
  C25. PLAIN: when the mechanism is appended, one message \<^verbatim>\<open>auth\<close> is handed to the transmitter, with
  the namespace and the mechanism as its attributes and as its content the base64 text of the
  message of RFC 4616: the address \<^verbatim>\<open>user@domain\<close>, the user name and the password, separated by zero
  bytes. This holds unless the message is a multiple of 32 bytes long; then the terminator of
  the password is written behind the block.
\<close>

theorem auth_plain_sends:
  assumes e: "plain_env env" and h: "heap_ok h" and p: "objs h par = Some po" "slot env c_tx po = Some f"
    and v: "x_object_getenv h (Some me) ''username'' = Some (Some u)" "x_object_getenv h (Some me) ''pword'' = Some (Some pw)"
      "x_object_getenv h (Some me) ''domain'' = Some (Some d)" "x_object_getenv h (Some me) ''jid'' \<noteq> None" "x_object_getenv h (Some me) ''hostname'' \<noteq> None"
    and n: "n = 2 * length u + length d + length pw + 3" "n < 1000000000"
  shows "(n mod 32 = 0 \<longrightarrow> auth_plain_on_append env h me par = None)
    \<and> (n mod 32 \<noteq> 0 \<longrightarrow> (\<exists>ob. auth_plain_on_append env h me par =
          map_option (\<lambda>r. (0, snd r)) (f par (brk h) None \<lparr>objs = (objs h)(brk h \<mapsto> ob), brk = brk h + 1\<rparr>)
        \<and> o_name ob = Some ''auth'' \<and> o_parent ob = None \<and> o_sons ob = None
        \<and> attr_map (o_attrs ob) = [''xmlns'' \<mapsto> ''urn:ietf:params:xml:ns:xmpp-sasl'', ''mechanism'' \<mapsto> ''PLAIN'']
        \<and> (\<forall>g. length g = 4 \<longrightarrow> base64_decode g (bytes_of (xs_str (o_content ob))) = (bytes_of (rfc4616_message (u @ ''@'' @ d) u pw) @ [0], n))))"
proof -
  obtain j hn where j: "x_object_getenv h (Some me) ''jid'' = Some j" "x_object_getenv h (Some me) ''hostname'' = Some hn" using v(4,5) by blast
  note hash = plain_hash [OF n(1), of "cjunk env"]
  show ?thesis
  proof (cases "n mod 32 = 0")
    case True
    then show ?thesis using v j hash by (simp add: auth_plain_on_append_def)
  next
    case False
    define s where "s = b64_string (bytes_of (rfc4616_message (u @ ''@'' @ d) u pw))"
    have hs: "xmpp_auth_get_plain_hash (cjunk env) u pw d = Some s" using hash False by (simp only: s_def if_False)
    obtain xo h1 where new: "x_object_new_ns_match env h (Some ''$message'') None None True = Some (Some (brk h), h1)" "is_new ''$message'' xo"
      "objs h1 = (objs h)(brk h \<mapsto> xo)" "brk h1 = brk h + 1"
      using new_object [OF e message_name, of h None None] by blast
    let ?a = "brk h"
    let ?x1 = "xo\<lparr>o_name := Some ''auth'', o_attrs := cell_put ''mechanism'' ''PLAIN'' (cell_put ''xmlns'' ''urn:ietf:params:xml:ns:xmpp-sasl'' [])\<rparr>"
    let ?h4 = "h1\<lparr>objs := (objs h)(?a \<mapsto> ?x1)\<rparr>"
    have steps: "x_object_set_name h1 ?a ''auth'' \<bind> (\<lambda>h2. x_object_setattr h2 ?a ''xmlns'' (Some ''urn:ietf:params:xml:ns:xmpp-sasl'') \<bind>
        (\<lambda>h3. x_object_setattr h3 ?a ''mechanism'' (Some ''PLAIN'') \<bind> k)) = k ?h4" for k
      using new(2,3) by (simp add: x_object_set_name_def upd_def setattr_upd is_new_def)
    have len: "length s < 4000000000"
      using n by (simp add: s_def b64_string_def encode_is_ref length_b64_ref rfc4616_message_def)
    have "objs ?h4 ?a = Some ?x1" "o_content ?x1 = X_STRING_STATIC_INIT" using new(2) by (simp_all add: is_new_def)
    then obtain c where c: "write_content env ?h4 ?a s = Some (?h4\<lparr>objs := (objs ?h4)(?a \<mapsto> ?x1\<lparr>o_content := c\<rparr>)\<rparr>)" "xs_ok c" "xs_str c = s"
      using write_content_new [OF _ _ len] by blast
    let ?h5 = "h1\<lparr>objs := (objs h)(?a \<mapsto> ?x1\<lparr>o_content := c\<rparr>)\<rparr>"
    have wr: "write_content env ?h4 ?a s = Some ?h5" using c(1) by (simp del: fun_upd_apply)
    have h5: "?h5 = \<lparr>objs = (objs h)(?a \<mapsto> ?x1\<lparr>o_content := c\<rparr>), brk = ?a + 1\<rparr>" using new(4) by (cases h1) simp
    have "par \<noteq> ?a" using heap_ok_less [OF h p(1)] by simp
    then have p5: "objs ?h5 par = Some po" using p(1) by simp
    then have send: "x_object_send_down env ?h5 (Some par) ?a None = f par ?a None ?h5"
      using p(2) by (simp add: x_object_send_down_def tx_owner.simps del: fun_upd_apply)
    have "auth_plain_on_append env h me par = map_option (\<lambda>r. (0, snd r)) (f par ?a None ?h5)"
      using v j False by (simp add: auth_plain_on_append_def hs x_object_new_ns_def new(1) steps wr send del: fun_upd_apply)
        (cases "f par ?a None ?h5"; simp add: split_beta)
    moreover have "attr_map (o_attrs ?x1) = [''xmlns'' \<mapsto> ''urn:ietf:params:xml:ns:xmpp-sasl'', ''mechanism'' \<mapsto> ''PLAIN'']"
      by (simp add: xw_abs)
    moreover have "length (bytes_of (rfc4616_message (u @ ''@'' @ d) u pw)) = n" using n(1) by (simp add: rfc4616_message_def)
    ultimately show ?thesis using False new(2) c(3)
      unfolding h5 by (auto simp: is_new_def s_def decode_b64_string intro!: exI [of _ "?x1\<lparr>o_content := c\<rparr>"])
  qed
qed

definition plain_heap :: heap where
  "plain_heap = \<lparr>objs = [0 \<mapsto> (new_xobject 0)\<lparr>o_class := Some 0, o_attrs := [(''username'', ''me''), (''pword'', ''secret''), (''domain'', ''x.org'')]\<rparr>], brk = 1\<rparr>"

lemma plain_heap_env:
  "x_object_getenv plain_heap (Some 0) ''username'' = Some (Some ''me'')" "x_object_getenv plain_heap (Some 0) ''pword'' = Some (Some ''secret'')"
  "x_object_getenv plain_heap (Some 0) ''domain'' = Some (Some ''x.org'')" "x_object_getenv plain_heap (Some 0) ''jid'' = Some None"
  "x_object_getenv plain_heap (Some 0) ''hostname'' = Some None"
  by (simp_all add: x_object_getenv.simps plain_heap_def new_xobject_def x_object_getattr_def x_object_get_parent_def fld_def getattr_def)

lemma tx_env_plain: "plain_env tx_env"
  by (simp add: plain_env_def tx_env_def demo_env_def plain_class_def)

theorem auth_plain_sends_witness:
  "\<exists>ob. auth_plain_on_append tx_env plain_heap 0 0 = Some (0, \<lparr>objs = (objs plain_heap)(1 \<mapsto> ob), brk = 2\<rparr>)
     \<and> o_name ob = Some ''auth'' \<and> base64_decode [1, 2, 3, 4] (bytes_of (xs_str (o_content ob))) = (bytes_of (rfc4616_message (''me'' @ ''@'' @ ''x.org'') ''me'' ''secret'') @ [0], 18)"
proof -
  have h: "heap_ok plain_heap" "objs plain_heap 0 = Some ((new_xobject 0)\<lparr>o_class := Some 0, o_attrs := [(''username'', ''me''), (''pword'', ''secret''), (''domain'', ''x.org'')]\<rparr>)"
    by (simp_all add: heap_ok_def plain_heap_def new_xobject_def)
  have s: "slot tx_env c_tx ((new_xobject 0)\<lparr>o_class := Some 0, o_attrs := [(''username'', ''me''), (''pword'', ''secret''), (''domain'', ''x.org'')]\<rparr>) = Some (\<lambda>t msg ctx h. Some (int t, h))"
    by (simp add: slot_def tx_env_def demo_env_def)
  have n: "(18::nat) = 2 * length ''me'' + length ''x.org'' + length ''secret'' + 3" "(18::nat) < 1000000000" by simp_all
  have b: "brk plain_heap = 1" by (simp add: plain_heap_def)
  have r: "x_object_getenv plain_heap (Some 0) ''jid'' \<noteq> None" "x_object_getenv plain_heap (Some 0) ''hostname'' \<noteq> None"
    using plain_heap_env by simp_all
  from auth_plain_sends [OF tx_env_plain h s plain_heap_env(1-3) r n] obtain ob where
    ob: "auth_plain_on_append tx_env plain_heap 0 0 = Some (0, \<lparr>objs = (objs plain_heap)(1 \<mapsto> ob), brk = 2\<rparr>)" "o_name ob = Some ''auth''"
    "\<And>g. length g = 4 \<Longrightarrow> base64_decode g (bytes_of (xs_str (o_content ob))) = (bytes_of (rfc4616_message (''me'' @ ''@'' @ ''x.org'') ''me'' ''secret'') @ [0], 18)"
    unfolding b by (auto simp del: bytes_of_append bytes_of_Cons)
  show ?thesis using ob(1,2) ob(3) [of "[1, 2, 3, 4]"] by (intro exI [of _ ob]) simp
qed

end
