(* ===== verification/Core_Claims.thy ===== *)
theory Core_Claims
  imports Core_Stanzas Xw_Obj_Copy Auth_Sasl_Claims
begin

text \<open>What the stanza classes send.\<close>

section \<open>Attributes of one object\<close>

text \<open>The object \<open>a\<close> of the heap, with an attribute list that represents the map \<open>m\<close>.\<close>

definition has_attrs :: "heap \<Rightarrow> addr \<Rightarrow> xobject \<Rightarrow> (string \<Rightarrow> string option) \<Rightarrow> bool" where
  "has_attrs h a ob m \<longleftrightarrow> objs h a = Some ob \<and> distinct (map fst (o_attrs ob)) \<and> map_of (o_attrs ob) = m"

text \<open>The heap after only the attributes of \<open>a\<close> have changed.\<close>

definition attrs_changed :: "addr \<Rightarrow> heap \<Rightarrow> heap \<Rightarrow> bool" where
  "attrs_changed a h h' \<longleftrightarrow> brk h' = brk h \<and> (\<forall>b. b \<noteq> a \<longrightarrow> objs h' b = objs h b)
     \<and> (\<forall>ob. objs h a = Some ob \<longrightarrow> (\<exists>as. objs h' a = Some (ob\<lparr>o_attrs := as\<rparr>)))"

lemma attrs_changed_refl [simp]: "attrs_changed a h h"
proof -
  have "ob = ob\<lparr>o_attrs := o_attrs ob\<rparr>" for ob :: xobject by simp
  then show ?thesis unfolding attrs_changed_def by metis
qed

lemma attrs_changed_trans: "attrs_changed a h h1 \<Longrightarrow> attrs_changed a h1 h2 \<Longrightarrow> attrs_changed a h h2"
  unfolding attrs_changed_def by fastforce

lemma setattr_changes:
  assumes "has_attrs h a ob m"
  shows "\<exists>h' ob'. x_object_setattr h a k v = Some h' \<and> has_attrs h' a ob' (m(k := v)) \<and> attrs_changed a h h'"
proof -
  let ?as = "snd (setattr True k v (o_attrs ob))"
  have s: "x_object_setattr h a k v = Some (h\<lparr>objs := (objs h)(a \<mapsto> ob\<lparr>o_attrs := ?as\<rparr>)\<rparr>)"
    using assms by (simp add: has_attrs_def x_object_setattr_def upd_def)
  have "distinct (map fst ?as) \<and> map_of ?as = m(k := v)"
  proof (cases v)
    case None
    then show ?thesis using assms cell_del_distinct [of "o_attrs ob" k]
      by (auto simp: has_attrs_def setattr_def delattr_cell_del get_attr_cell_def split: option.split)
  next
    case (Some w)
    then show ?thesis using assms by (simp add: has_attrs_def setattr_put cell_put_map_of cell_put_distinct)
  qed
  then show ?thesis using s assms by (intro exI [of _ "h\<lparr>objs := (objs h)(a \<mapsto> ob\<lparr>o_attrs := ?as\<rparr>)\<rparr>"] exI [of _ "ob\<lparr>o_attrs := ?as\<rparr>"])
    (auto simp: has_attrs_def attrs_changed_def)
qed

lemma has_attrs_other: "attrs_changed a h h' \<Longrightarrow> b \<noteq> a \<Longrightarrow> x_object_getattr h' b k = x_object_getattr h b k"
  by (simp add: attrs_changed_def x_object_getattr_def)

lemma family_attrs_changed:
  assumes c: "attrs_changed a h h'" and f: "family h b bs" and a: "a \<notin> set bs" "objs h a \<noteq> None"
  shows "family h' b bs"
proof (rule family_same [OF f])
  obtain ob where ob: "objs h a = Some ob" using a(2) by blast
  then obtain as where "objs h' a = Some (ob\<lparr>o_attrs := as\<rparr>)" using c unfolding attrs_changed_def by blast
  then show "map_option o_sons (objs h' b) = map_option o_sons (objs h b)"
    using c ob by (cases "b = a") (simp_all add: attrs_changed_def)
  show "objs h' x = objs h x" if "x \<in> set bs" for x using c that a(1) unfolding attrs_changed_def by metis
qed

lemma same_above_attrs_changed:
  assumes c: "attrs_changed a h h'" and a: "objs h a = Some ob" "o_parent ob = None" and x: "a < x"
  shows "same_above x h h'"
  unfolding same_above_def
proof (intro conjI allI impI)
  fix b o' assume "x \<le> b" "objs h b = Some o'"
  then show "\<exists>o''. objs h' b = Some o'' \<and> o_name o'' = o_name o' \<and> o_attrs o'' = o_attrs o' \<and> o_content o'' = o_content o'"
    using c x by (auto simp: attrs_changed_def)
next
  fix b bs assume b: "x \<le> b" "family h b bs"
  have "a \<notin> set bs" using b(2) a by (auto simp: family_def)
  then show "family h' b bs" by (rule family_attrs_changed [OF c b(2)]) (simp add: a(1))
qed

lemma heap_ok_attrs_changed:
  assumes c: "attrs_changed a h h'" and h: "heap_ok h" and a: "objs h a \<noteq> None"
  shows "heap_ok h'"
  unfolding heap_ok_def
proof (intro conjI allI impI)
  obtain ob where ob: "objs h a = Some ob" using a by blast
  then obtain as where as: "objs h' a = Some (ob\<lparr>o_attrs := as\<rparr>)" using c unfolding attrs_changed_def by blast
  have b: "brk h' = brk h" using c by (simp add: attrs_changed_def)
  show "objs h' x = None" if "brk h' \<le> x" for x
    using that c h heap_ok_less [OF h ob] b by (simp add: attrs_changed_def heap_ok_def)
  show "p < brk h'" if "objs h' x = Some o'" "o_parent o' = Some p" for x o' p
  proof (cases "x = a")
    case True
    then have "o_parent ob = Some p" using that as by auto
    then show ?thesis using h ob b by (simp add: heap_ok_def)
  next
    case False
    then have "objs h x = Some o'" using that(1) c by (simp add: attrs_changed_def)
    then show ?thesis using that(2) h b unfolding heap_ok_def by metis
  qed
qed

section \<open>The answer to an iq\<close>

text \<open>The attributes of an answer, from those of the request as a map and the arguments of the call.\<close>

definition reply_id :: "attr_list option \<Rightarrow> string option \<Rightarrow> string option" where
  "reply_id ctx i = (case getattr (Some ''#id'') ctx of None \<Rightarrow> i | Some v \<Rightarrow> Some v)"

definition reply_type :: "attr_list option \<Rightarrow> string option" where
  "reply_type ctx = (case ctx of None \<Rightarrow> Some ''get'' | Some _ \<Rightarrow> getattr (Some ''#type'') ctx)"

definition reply_attrs :: "(string \<Rightarrow> string option) \<Rightarrow> attr_list option \<Rightarrow> string \<Rightarrow> string option" where
  "reply_attrs m ctx = Map.empty(''id'' := reply_id ctx (m ''id''), ''type'' := reply_type ctx, ''from'' := m ''to'', ''to'' := m ''from'')"

lemma iq_attrs:
  assumes a: "has_attrs h a ob m" and o: "objs h o1 = Some io" "o1 \<noteq> a"
  shows "\<exists>h' ob'. iq_tx_attrs h a o1 ctx = Some h' \<and> attrs_changed a h h'
     \<and> has_attrs h' a ob' (m(''id'' := reply_id ctx (attr_map (o_attrs io) ''id''), ''type'' := reply_type ctx))"
proof -
  let ?i = "attr_map (o_attrs io) ''id''"
  have i: "x_object_getattr h o1 (Some ''id'') = Some ?i" using o(1) by (simp add: x_object_getattr_def attr_map_def)
  obtain h1 ob1 where 1: "x_object_setattr h a ''id'' ?i = Some h1" "has_attrs h1 a ob1 (m(''id'' := ?i))" "attrs_changed a h h1"
    using setattr_changes [OF a] by blast
  obtain h2 ob2 where 2: "x_object_setattr h1 a ''type'' (reply_type ctx) = Some h2"
    "has_attrs h2 a ob2 (m(''id'' := ?i, ''type'' := reply_type ctx))" "attrs_changed a h1 h2"
    using setattr_changes [OF 1(2)] by blast
  note 12 = attrs_changed_trans [OF 1(3) 2(3)]
  show ?thesis
  proof (cases "getattr (Some ''#id'') ctx")
    case None
    then have "iq_tx_attrs h a o1 ctx = Some h2" using i 1(1) 2(1)
      by (cases ctx) (simp_all add: iq_tx_attrs_def reply_type_def)
    then show ?thesis using 2(2) 12 None by (auto simp: reply_id_def)
  next
    case (Some v)
    obtain h3 ob3 where 3: "x_object_setattr h2 a ''id'' (Some v) = Some h3"
      "has_attrs h3 a ob3 (m(''id'' := ?i, ''type'' := reply_type ctx, ''id'' := Some v))" "attrs_changed a h2 h3"
      using setattr_changes [OF 2(2)] by blast
    have "ctx \<noteq> None" using Some by (cases ctx) (simp_all add: getattr_def)
    then have "iq_tx_attrs h a o1 ctx = Some h3" using i 1(1) 2(1) 3(1) Some
      by (auto simp: iq_tx_attrs_def reply_type_def)
    moreover have "m(''id'' := ?i, ''type'' := reply_type ctx, ''id'' := Some v) = m(''id'' := reply_id ctx ?i, ''type'' := reply_type ctx)"
      using Some by (auto simp: reply_id_def)
    ultimately show ?thesis using 3(2) attrs_changed_trans [OF 12 3(3)] by auto
  qed
qed

lemma new_message_ok:
  assumes e: "plain_env env" and h: "heap_ok h"
  shows "\<exists>h' ob. new_message env h nm = Some (brk h, h') \<and> extends h h' \<and> brk h' = brk h + 1 \<and> has_attrs h' (brk h) ob Map.empty \<and> is_new nm ob"
proof -
  let ?a = "brk h"
  obtain xo h1 where new: "x_object_new_ns_match env h (Some ''$message'') None None True = Some (Some ?a, h1)" "is_new ''$message'' xo"
    "objs h1 = (objs h)(?a \<mapsto> xo)" "brk h1 = ?a + 1"
    using new_object [OF e message_name, of h None None] by blast
  let ?h = "h1\<lparr>objs := (objs h)(?a \<mapsto> xo\<lparr>o_name := Some nm\<rparr>)\<rparr>"
  have "new_message env h nm = Some (?a, ?h)" using new(1,3) by (simp add: new_message_def x_object_new_ns_def x_object_set_name_def upd_def)
  moreover have "heap_ok ?h"
    unfolding heap_ok_def
  proof (intro conjI allI impI)
    show "objs ?h a = None" if "brk ?h \<le> a" for a using that h new(4) by (auto simp: heap_ok_def)
    show "p < brk ?h" if "objs ?h a = Some o'" "o_parent o' = Some p" for a o' p
      using that h new(2,4) by (cases "a = ?a") (auto simp: heap_ok_def is_new_def intro: less_SucI)
  qed
  ultimately show ?thesis using new(2,4)
    by (intro exI [of _ ?h] exI [of _ "xo\<lparr>o_name := Some nm\<rparr>"]) (simp add: extends_def has_attrs_def is_new_def)
qed

text \<open>The answer before the addresses are set: its attributes, and the copy of the payload below it.\<close>

lemma iq_payload:
  assumes e: "plain_env env" and h: "heap_ok h" and t: "xml_at h q m t" "small t"
    and x: "extends h h2" "objs h2 (brk h) = Some ob" "is_new ''iq'' (ob\<lparr>o_attrs := []\<rparr>)" "brk h2 = brk h + 1"
  shows "\<exists>h' h3 ob3. x_object_full_copy env h2 m = Some (Some (brk h + 1), h') \<and> x_object_append_child_no_cb h' (Some (brk h)) (brk h + 1) = Some (0, h3)
     \<and> objs h3 (brk h) = Some ob3 \<and> obj_is ob3 ''iq'' (o_attrs ob) [] \<and> o_parent ob3 = None \<and> family h3 (brk h) [brk h + 1]
     \<and> tree_at h3 (brk h + 1) (brk h + 1) (xml_copy t) \<and> (\<forall>a < brk h. objs h3 a = objs h a)"
proof -
  let ?p = "brk h" and ?x = "brk h + 1"
  obtain h' where h': "full_copy env (Inl m) h2 = Some (Some ?x, h')" "extends h h'" "\<And>a. a < ?x \<Longrightarrow> objs h' a = objs h2 a"
    "tree_at h' ?x ?x (xml_copy t)" "\<exists>mo. objs h' ?x = Some mo \<and> o_parent mo = None \<and> o_next mo = None"
    using full_copy_tree(1) [OF e h t x(1)] unfolding copied_def x(4) by blast
  obtain mo where mo: "objs h' ?x = Some mo" "o_parent mo = None" "o_next mo = None" using h'(5) by blast
  have nw: "o_parent ob = None" "o_sons ob = None" "o_name ob = Some ''iq''" "o_content ob = X_STRING_STATIC_INIT" using x(3) by (simp_all add: is_new_def)
  have p: "objs h' ?p = Some ob" using h'(3) [of ?p] x(2) by simp
  have ok: "heap_ok h'" using h'(2) by (simp add: extends_def)
  obtain h3 ob3 where h3: "x_object_append_child_no_cb h' (Some ?p) ?x = Some (0, h3)" "family h3 ?p [?x]" "tree_at h3 ?x ?x (xml_copy t)"
    "objs h3 ?p = Some ob3" "keeps ?p ?p ob ob3" "\<And>a. a \<notin> {?p, ?x} \<Longrightarrow> objs h3 a = objs h' a"
    using append_copy [OF ok family_empty [OF p nw(2)] p h'(4) mo(1,3,2)] nw(1) by auto
  have "obj_is ob3 ''iq'' (o_attrs ob) []" "o_parent ob3 = None" using h3(5) nw xs_ok_init by (simp_all add: keeps_def obj_is_def)
  moreover have "objs h3 a = objs h a" if "a < ?p" for a
    using that h3(6) [of a] h'(2) by (simp add: extends_def)
  ultimately show ?thesis using h'(1) h3(1-4) by (auto simp: x_object_full_copy_def)
qed

lemma send_and_put_owner:
  "objs h par = Some po \<Longrightarrow> slot env c_tx po = Some f \<Longrightarrow>
     send_and_put env h (Some par) m = f par m None h \<bind> (\<lambda>(r, h'). x_object_ref_put env h' (Some m) None)"
  by (simp add: send_and_put_def x_object_send_down_def tx_owner.simps)

text \<open>
  The nearest transmitter: \<open>w\<close> is the first object from \<open>p\<close> upwards whose class has a callback that
  transmits, and \<open>f\<close> is that callback.
\<close>

definition nearest_tx :: "obj_env \<Rightarrow> heap \<Rightarrow> ptr \<Rightarrow> addr \<Rightarrow> (addr \<Rightarrow> addr \<Rightarrow> attr_list option \<Rightarrow> heap \<Rightarrow> (int \<times> heap) option) \<Rightarrow> bool" where
  "nearest_tx env h p w f \<longleftrightarrow> (\<exists>as. seg o_parent h p as None \<and> find (\<lambda>a. slot env c_tx (the (objs h a)) \<noteq> None) as = Some w)
     \<and> slot env c_tx (the (objs h w)) = Some f"

lemma seg_objs: "seg lnk h p as q \<Longrightarrow> list_all (\<lambda>a. objs h a \<noteq> None) as"
  by (induction as arbitrary: p) (auto split: option.splits)

lemma nearest_tx_send:
  assumes "nearest_tx env h p w f"
  shows "send_and_put env h p m = f w m None h \<bind> (\<lambda>(r, h'). x_object_ref_put env h' (Some m) None)"
proof -
  obtain as where s: "seg o_parent h p as None" "find (\<lambda>a. slot env c_tx (the (objs h a)) \<noteq> None) as = Some w"
    and f: "slot env c_tx (the (objs h w)) = Some f" using assms by (auto simp: nearest_tx_def)
  have "w \<in> set as" using s(2) by (auto simp: find_Some_iff)
  then obtain ob where "objs h w = Some ob" using seg_objs [OF s(1)] by (auto simp: list_all_iff)
  with f show ?thesis using tx_owner_seg [OF s(1), of env] s(2)
    by (simp add: send_and_put_def x_object_send_down_def)
qed

lemma nearest_tx_old:
  assumes "nearest_tx env h p w f" "heap_ok h" "\<forall>a < brk h. objs h' a = objs h a"
  shows "nearest_tx env h' p w f"
proof -
  obtain as where s: "seg o_parent h p as None" "find (\<lambda>a. slot env c_tx (the (objs h a)) \<noteq> None) as = Some w"
    using assms(1) by (auto simp: nearest_tx_def)
  have same: "objs h' a = objs h a" if "a \<in> set as" for a
    using seg_objs [OF s(1)] heap_ok_less [OF assms(2)] assms(3) that by (fastforce simp: list_all_iff)
  then have "seg o_parent h' p as None" using s(1) seg_cong [of o_parent h' h as] by (simp add: list_all_iff)
  moreover have "find (\<lambda>a. slot env c_tx (the (objs h' a)) \<noteq> None) as = find (\<lambda>a. slot env c_tx (the (objs h a)) \<noteq> None) as"
    by (rule find_cong) (simp_all add: same)
  moreover have "w \<in> set as" using s(2) by (auto simp: find_Some_iff)
  ultimately show ?thesis using assms(1) s(2) same by (auto simp: nearest_tx_def)
qed

text \<open>
  C14. The answer to an iq. Where the classes have no callbacks of their own but the one that
  transmits, the object of an iq that lies below a transmitter hands the nearest one exactly one
  message, a new object: an \<^verbatim>\<open>iq\<close> with a copy of the payload as its only child and at most four
  attributes. Its identifier is the \<^verbatim>\<open>#id\<close> that the caller gives, or else the one of the request, and
  is absent when neither has one; its type is the \<^verbatim>\<open>#type\<close> of the caller, absent when the caller
  gives attributes without it, and \<^verbatim>\<open>get\<close> when the caller gives no attributes at all; and the two
  addresses of the request are exchanged. Everything that existed before is unchanged when the
  message is handed over, and the reference on it is dropped afterwards.
\<close>

theorem iq_tx_replies:
  assumes e: "plain_env env" and h: "heap_ok h" and o: "objs h o1 = Some io"
    and p: "nearest_tx env h (o_parent io) w f" and t: "xml_at h q m t" "small t"
  shows "\<exists>h1 as. iq_tx env h o1 (Some m) ctx =
        map_option (Pair 0) (f w (brk h) None h1 \<bind> (\<lambda>(r, h2). x_object_ref_put env h2 (Some (brk h)) None))
     \<and> tree_at h1 (brk h) (brk h) (Elem ''iq'' as [] [xml_copy t])
     \<and> distinct (map fst as) \<and> map_of as = reply_attrs (attr_map (o_attrs io)) ctx
     \<and> (\<forall>a < brk h. objs h1 a = objs h a)"
proof -
  let ?p = "brk h" and ?x = "brk h + 1" and ?M = "attr_map (o_attrs io)"
  let ?m2 = "Map.empty(''id'' := reply_id ctx (?M ''id''), ''type'' := reply_type ctx)"
  have less: "o1 < ?p" using heap_ok_less [OF h] o by blast
  have mp: "m < ?p" and mn: "\<exists>mo n. objs h m = Some mo \<and> o_name mo = Some n"
    using t(1) heap_ok_less [OF h] by (cases t; auto simp: obj_is_def split: option.splits)+
  obtain h1 ob1 where 1: "new_message env h ''iq'' = Some (?p, h1)" "extends h h1" "brk h1 = ?x" "has_attrs h1 ?p ob1 Map.empty" "is_new ''iq'' ob1"
    using new_message_ok [OF e h] by blast
  have o1: "objs h1 o1 = Some io" "o1 \<noteq> ?p" using 1(2) o less by (auto simp: extends_def)
  obtain h2 ob2 where 2: "iq_tx_attrs h1 ?p o1 ctx = Some h2" "attrs_changed ?p h1 h2" "has_attrs h2 ?p ob2 ?m2"
    using iq_attrs [OF 1(4) o1] by blast
  obtain as2 where ob2: "ob2 = ob1\<lparr>o_attrs := as2\<rparr>" "objs h2 ?p = Some ob2"
    using 1(4) 2(2,3) by (auto simp: has_attrs_def attrs_changed_def)
  have ok2: "heap_ok h2" by (rule heap_ok_attrs_changed [OF 2(2)]) (use 1(2,4) in \<open>simp_all add: extends_def has_attrs_def\<close>)
  have b2: "brk h2 = ?x" using 2(2) 1(3) by (simp add: attrs_changed_def)
  have x2: "extends h h2" using ok2 b2 1(2) 2(2) by (auto simp: extends_def attrs_changed_def)
  have n2: "is_new ''iq'' (ob2\<lparr>o_attrs := []\<rparr>)" using ob2(1) 1(5) by (simp add: is_new_def)
  obtain h' h3 ob3 where 3: "x_object_full_copy env h2 m = Some (Some ?x, h')" "x_object_append_child_no_cb h' (Some ?p) ?x = Some (0, h3)"
    "objs h3 ?p = Some ob3" "obj_is ob3 ''iq'' (o_attrs ob2) []" "o_parent ob3 = None" "family h3 ?p [?x]"
    "tree_at h3 ?x ?x (xml_copy t)" "\<And>a. a < ?p \<Longrightarrow> objs h3 a = objs h a"
    using iq_payload [OF e h t x2 ob2(2) n2 b2] by blast
  have "has_attrs h3 ?p ob3 ?m2" using 2(3) 3(3,4) by (simp add: has_attrs_def obj_is_def)
  then obtain h4 ob4 where 4: "x_object_setattr h3 ?p ''from'' (?M ''to'') = Some h4" "has_attrs h4 ?p ob4 (?m2(''from'' := ?M ''to''))" "attrs_changed ?p h3 h4"
    using setattr_changes by blast
  obtain h5 ob5 where 5: "x_object_setattr h4 ?p ''to'' (?M ''from'') = Some h5" "has_attrs h5 ?p ob5 (?m2(''from'' := ?M ''to'', ''to'' := ?M ''from''))" "attrs_changed ?p h4 h5"
    using setattr_changes [OF 4(2)] by blast
  note 35 = attrs_changed_trans [OF 4(3) 5(3)]
  have old: "objs h3 a = objs h a \<and> objs h4 a = objs h a \<and> objs h5 a = objs h a" if "a < ?p" for a
    using that 3(8) 4(3) 35 by (auto simp: attrs_changed_def)
  obtain as5 where "objs h5 ?p = Some (ob3\<lparr>o_attrs := as5\<rparr>)" using 35 3(3) unfolding attrs_changed_def by blast
  then have ob5: "objs h5 ?p = Some ob5" "obj_is ob5 ''iq'' (o_attrs ob5) []" using 5(2) 3(4) by (auto simp: has_attrs_def obj_is_def)
  have "family h5 ?p [?x]" by (rule family_attrs_changed [OF 35 3(6)]) (use 3(3) in simp_all)
  moreover have "tree_at h5 ?x ?x (xml_copy t)" by (rule tree_at_same(1) [OF 3(7) same_above_attrs_changed [OF 35 3(3,5)]]) simp
  ultimately have tree: "tree_at h5 ?p ?p (Elem ''iq'' (o_attrs ob5) [] [xml_copy t])" using ob5 by (auto intro!: exI [of _ "[?x]"])
  obtain mo n where mo: "objs h m = Some mo" "o_name mo = Some n" using mn by blast
  have send: "send_and_put env h5 (o_parent io) ?p = f w ?p None h5 \<bind> (\<lambda>(r, h2). x_object_ref_put env h2 (Some ?p) None)"
    by (rule nearest_tx_send [OF nearest_tx_old [OF p h]]) (simp add: old)
  have get: "x_object_getattr h3 o1 (Some ''to'') = Some (?M ''to'')" "x_object_getattr h4 o1 (Some ''from'') = Some (?M ''from'')"
    "x_object_get_name h5 m = Some (Some n)" "x_object_get_parent h5 (Some o1) = Some (o_parent io)"
    using old less mp o mo by (simp_all add: x_object_getattr_def attr_map_def x_object_get_name_def x_object_get_parent_def fld_def)
  have "iq_tx env h o1 (Some m) ctx = map_option (Pair 0) (send_and_put env h5 (o_parent io) ?p)"
    using 1(1) 2(1) 3(1,2) 4(1) 5(1) get by (cases "send_and_put env h5 (o_parent io) ?p") (simp_all add: iq_tx_def)
  then have "iq_tx env h o1 (Some m) ctx = map_option (Pair 0) (f w ?p None h5 \<bind> (\<lambda>(r, h2). x_object_ref_put env h2 (Some ?p) None))"
    by (simp only: send)
  moreover have "distinct (map fst (o_attrs ob5)) \<and> map_of (o_attrs ob5) = reply_attrs ?M ctx" using 5(2) by (simp add: has_attrs_def reply_attrs_def)
  ultimately show ?thesis using tree old by blast
qed

text \<open>A request below an object that transmits, and an object to be sent as the answer.\<close>

definition iq_obj :: xobject where
  "iq_obj = (new_xobject 0)\<lparr>o_name := Some ''iq'', o_parent := Some 0, o_attrs := [(''id'', ''7''), (''from'', ''you''), (''to'', ''me'')]\<rparr>"

definition iq_parent :: xobject where
  "iq_parent = (new_xobject 0)\<lparr>o_name := Some ''stream'', o_class := Some 0, o_sons := Some 1\<rparr>"

definition iq_heap :: heap where
  "iq_heap = demo_dom\<lparr>objs := (objs demo_dom)(0 \<mapsto> iq_parent, 1 \<mapsto> iq_obj)\<rparr>"

lemma iq_heap_objs:
  "objs iq_heap 1 = Some iq_obj" "o_parent iq_obj = Some 0" "objs iq_heap 0 = Some iq_parent"
  "slot tx_env c_tx iq_parent = Some (\<lambda>t msg ctx h. Some (int t, h))" "brk iq_heap = 4" "small demo_xml"
  by (simp_all add: iq_heap_def iq_obj_def iq_parent_def slot_def tx_env_def demo_env_def demo_dom_def demo_xml_def)

lemma iq_heap_tx: "nearest_tx tx_env iq_heap (Some 0) 0 (\<lambda>t msg ctx h. Some (int t, h))"
  unfolding nearest_tx_def using iq_heap_objs(3,4)
  by (intro conjI exI [of _ "[0]"]) (simp_all add: iq_parent_def new_xobject_def)

lemma iq_heap_ok: "heap_ok iq_heap"
  by (auto simp: heap_ok_def iq_heap_def iq_obj_def iq_parent_def demo_dom_def new_xobject_def split: if_splits)

lemma iq_heap_xml: "xml_at iq_heap 2 2 demo_xml"
  using xs_of_ok [of "''hi''"] xs_ok_init
  by (simp add: demo_xml_def demo_dom_def iq_heap_def iq_obj_def iq_parent_def obj_is_def new_xobject_def)

theorem iq_tx_replies_witness:
  "\<exists>h1 as. iq_tx tx_env iq_heap 1 (Some 2) (Some [(''#type'', ''result'')]) = map_option (Pair 0) (x_object_ref_put tx_env h1 (Some 4) None)
     \<and> tree_at h1 4 4 (Elem ''iq'' as [] [xml_copy demo_xml])
     \<and> map_of as = [''id'' \<mapsto> ''7'', ''type'' \<mapsto> ''result'', ''from'' \<mapsto> ''me'', ''to'' \<mapsto> ''you''] \<and> objs h1 1 = objs iq_heap 1"
proof -
  note o = iq_heap_objs(1) and b = iq_heap_objs(5) and sm = iq_heap_objs(6)
  have p: "nearest_tx tx_env iq_heap (o_parent iq_obj) 0 (\<lambda>t msg ctx h. Some (int t, h))" using iq_heap_tx iq_heap_objs(2) by simp
  have r: "reply_attrs (attr_map (o_attrs iq_obj)) (Some [(''#type'', ''result'')]) = [''id'' \<mapsto> ''7'', ''type'' \<mapsto> ''result'', ''from'' \<mapsto> ''me'', ''to'' \<mapsto> ''you'']"
    by (simp add: iq_obj_def reply_attrs_def reply_id_def reply_type_def attr_map_def getattr_def)
  obtain h1 as where x: "iq_tx tx_env iq_heap 1 (Some 2) (Some [(''#type'', ''result'')]) = map_option (Pair 0) (Some (0, h1) \<bind> (\<lambda>(r, h2). x_object_ref_put tx_env h2 (Some 4) None))"
    "tree_at h1 4 4 (Elem ''iq'' as [] [xml_copy demo_xml])" "map_of as = [''id'' \<mapsto> ''7'', ''type'' \<mapsto> ''result'', ''from'' \<mapsto> ''me'', ''to'' \<mapsto> ''you'']"
    "\<forall>a < 4. objs h1 a = objs iq_heap a"
    using iq_tx_replies [OF tx_env_plain iq_heap_ok o p iq_heap_xml sm, of "Some [(''#type'', ''result'')]"]
    unfolding r b by (auto simp del: tree_at.simps)
  then show ?thesis by (intro exI [of _ h1] exI [of _ as]) (simp del: tree_at.simps)
qed

section \<open>Messages that wait for the features\<close>

text \<open>The results of the calls, in their order.\<close>

fun features_txs :: "obj_env \<Rightarrow> addr \<Rightarrow> addr list \<Rightarrow> heap \<times> slots \<Rightarrow> (int list \<times> heap \<times> slots) option" where
  "features_txs env o1 [] hs = Some ([], hs)"
| "features_txs env o1 (m # ms) hs = do { (r, hs1) \<leftarrow> features_tx env o1 m hs; (rs, hs2) \<leftarrow> features_txs env o1 ms hs1; Some (r # rs, hs2) }"

lemma features_txs_full: "sl o1 = Some c \<Longrightarrow> features_txs env o1 ms (h, sl) = Some (map (\<lambda>_. 0) ms, h, sl)"
  by (induction ms) (simp_all add: features_tx_def)

text \<open>
  C18. What is sent while the stream features are still open: a copy of the first message is
  kept, made when it is handed over, every further one is dropped, and the caller is told 0, as for
  success, for each of them. When the features end, exactly that copy is handed to the nearest
  transmitter above, its reference is dropped, and the slot is empty again. The classes have no
  callbacks of their own but the one that transmits.
\<close>

theorem features_first_message:
  assumes e: "plain_env env" and h: "heap_ok h" and o: "objs h o1 = Some fo"
    and p: "nearest_tx env h (o_parent fo) w f" and t: "xml_at h q m t" "small t" and s: "sl o1 = None"
  shows "\<exists>h1. features_txs env o1 (m # ms) (h, sl) = Some (0 # map (\<lambda>_. 0) ms, h1, sl(o1 \<mapsto> brk h))
     \<and> features_exit env o1 (h1, sl(o1 \<mapsto> brk h)) =
        map_option (\<lambda>h'. (h', sl(o1 := None))) (f w (brk h) None h1 \<bind> (\<lambda>(r, h2). x_object_ref_put env h2 (Some (brk h)) None))
     \<and> tree_at h1 (brk h) (brk h) (xml_copy t) \<and> (\<forall>a < brk h. objs h1 a = objs h a)"
proof -
  have "extends h h" using h by (simp add: extends_def)
  then obtain h1 where h1: "full_copy env (Inl m) h = Some (Some (brk h), h1)" "tree_at h1 (brk h) (brk h) (xml_copy t)" "\<forall>a < brk h. objs h1 a = objs h a"
    using full_copy_tree(1) [OF e h t] unfolding copied_def by blast
  have old: "objs h1 o1 = Some fo" using h1(3) heap_ok_less [OF h] o by simp
  have "features_txs env o1 (m # ms) (h, sl) = Some (0 # map (\<lambda>_. 0) ms, h1, sl(o1 \<mapsto> brk h))"
    using h1(1) s by (simp add: features_tx_def x_object_full_copy_def features_txs_full fun_upd_same del: fun_upd_apply)
  moreover have "x_object_get_parent h1 (Some o1) = Some (o_parent fo)" using old by (simp add: x_object_get_parent_def fld_def)
  then have "features_exit env o1 (h1, sl(o1 \<mapsto> brk h)) =
      map_option (\<lambda>h'. (h', sl(o1 := None))) (send_and_put env h1 (o_parent fo) (brk h))"
    by (cases "send_and_put env h1 (o_parent fo) (brk h)") (simp_all add: features_exit_def)
  ultimately show ?thesis using h1(2,3) nearest_tx_send [OF nearest_tx_old [OF p h h1(3)]] by auto
qed

text \<open>The features lie below an object that does not transmit, which lies below one that does.\<close>

definition features_heap :: heap where
  "features_heap = iq_heap\<lparr>objs := (objs iq_heap)(4 \<mapsto> (new_xobject 0)\<lparr>o_name := Some ''features'', o_parent := Some 1\<rparr>), brk := 5\<rparr>"

lemma features_heap_ok: "heap_ok features_heap"
  using iq_heap_ok by (fastforce simp: heap_ok_def features_heap_def iq_heap_objs(5) new_xobject_def intro: less_SucI split: if_splits)

lemma features_heap_xml: "xml_at features_heap 2 2 demo_xml"
  using xs_of_ok [of "''hi''"] xs_ok_init
  by (simp add: demo_xml_def demo_dom_def features_heap_def iq_heap_def iq_obj_def iq_parent_def obj_is_def new_xobject_def)

lemma features_heap_tx: "nearest_tx tx_env features_heap (Some 1) 0 (\<lambda>t msg ctx h. Some (int t, h))"
proof -
  have o: "objs features_heap 1 = Some iq_obj" "objs features_heap 0 = Some iq_parent" "slot tx_env c_tx iq_obj = None"
    using iq_heap_objs by (simp_all add: features_heap_def iq_obj_def slot_def new_xobject_def)
  show ?thesis unfolding nearest_tx_def
    by (intro conjI exI [of _ "[1, 0]"]) (use o iq_heap_objs(2,4) in \<open>simp_all add: iq_parent_def new_xobject_def\<close>)
qed

theorem features_first_message_witness:
  "\<exists>h1. features_txs tx_env 4 [2, 3] (features_heap, \<lambda>_. None) = Some ([0, 0], h1, [4 \<mapsto> 5])
     \<and> features_exit tx_env 4 (h1, [4 \<mapsto> 5]) = map_option (\<lambda>h'. (h', Map.empty)) (x_object_ref_put tx_env h1 (Some 5) None)
     \<and> tree_at h1 5 5 (xml_copy demo_xml)"
proof -
  let ?fo = "(new_xobject 0)\<lparr>o_name := Some ''features'', o_parent := Some 1\<rparr>"
  have o: "objs features_heap 4 = Some ?fo" and b: "brk features_heap = 5" by (simp_all add: features_heap_def)
  have p: "nearest_tx tx_env features_heap (o_parent ?fo) 0 (\<lambda>t msg ctx h. Some (int t, h))" using features_heap_tx by simp
  obtain h1 where x: "features_txs tx_env 4 [2, 3] (features_heap, \<lambda>_. None) = Some ([0, 0], h1, [4 \<mapsto> 5])"
    "features_exit tx_env 4 (h1, [4 \<mapsto> 5]) = map_option (\<lambda>h'. (h', Map.empty(4 := None))) (Some (0, h1) \<bind> (\<lambda>(r, h2). x_object_ref_put tx_env h2 (Some 5) None))"
    "tree_at h1 5 5 (xml_copy demo_xml)"
    using features_first_message [OF tx_env_plain features_heap_ok o p features_heap_xml iq_heap_objs(6), of "\<lambda>_. None" "[3]"] unfolding b by auto
  have "Map.empty(4 := None) = (Map.empty :: slots)" by auto
  then show ?thesis using x by (intro exI [of _ h1]) (simp del: fun_upd_apply)
qed

end
