(* ===== verification/Core_Bind.thy ===== *)
theory Core_Bind
  imports Core_Claims
begin

text \<open>The request that binds a resource.\<close>

section \<open>Small trees of new objects\<close>

lemma new_named_ok:
  assumes e: "plain_env env" and h: "heap_ok h" and nm: "LF \<notin> set nm"
  shows "\<exists>ob h'. new_named env h nm = Some (brk h, h') \<and> is_new nm ob \<and> objs h' = (objs h)(brk h \<mapsto> ob) \<and> brk h' = brk h + 1 \<and> heap_ok h'"
proof -
  obtain ob h' where n: "x_object_new_ns_match env h (Some nm) None None True = Some (Some (brk h), h')" "is_new nm ob"
    "objs h' = (objs h)(brk h \<mapsto> ob)" "brk h' = brk h + 1"
    using new_object [OF e nm, of h None None] by blast
  have "heap_ok h'"
    unfolding heap_ok_def
  proof (intro conjI allI impI)
    show "objs h' a = None" if "brk h' \<le> a" for a using that h n(3,4) by (auto simp: heap_ok_def)
    show "p < brk h'" if "objs h' a = Some o'" "o_parent o' = Some p" for a o' p
      using that h n(2-4) by (cases "a = brk h") (auto simp: heap_ok_def is_new_def intro: less_SucI)
  qed
  then show ?thesis using n by (auto simp: new_named_def x_object_new_ns_def)
qed

text \<open>Appending an object below one without children and listeners.\<close>

definition as_child :: "addr \<Rightarrow> xobject \<Rightarrow> xobject \<Rightarrow> xobject" where
  "as_child p po xo = xo\<lparr>o_parent := Some p, o_next := None, o_sibling := None, o_refs := o_refs xo + 1, o_bus := o_bus po\<rparr>"

definition with_child :: "addr \<Rightarrow> xobject \<Rightarrow> xobject" where
  "with_child x po = po\<lparr>o_sons := Some x, o_count := o_count po + 1, o_refs := o_refs po + 1, o_cr := o_cr po OR XOBJ_CR_DIRTY\<rparr>"

lemma child_fields [simp]:
  "o_parent (as_child p po xo) = Some p" "o_sibling (as_child p po xo) = None" "o_next (as_child p po xo) = None" "o_sons (as_child p po xo) = o_sons xo"
  "o_listeners (as_child p po xo) = o_listeners xo" "obj_is (as_child p po xo) n as c = obj_is xo n as c" "o_name (as_child p po xo) = o_name xo"
  "o_parent (with_child x po) = o_parent po" "o_sibling (with_child x po) = o_sibling po" "o_next (with_child x po) = o_next po"
  "o_sons (with_child x po) = Some x" "obj_is (with_child x po) n as c = obj_is po n as c" "o_listeners (with_child x po) = o_listeners po"
  "o_name (with_child x po) = o_name po"
  by (simp_all add: as_child_def with_child_def obj_is_def)

lemma append_only:
  assumes e: "plain_env env" and h: "heap_ok h" and p: "objs h p = Some po" "o_sons po = None" "o_listeners po = []"
    and x: "objs h x = Some xo" "o_next xo = None" "o_name xo = Some nm" "x \<noteq> p"
  shows "\<exists>h'. x_object_append_child env h (Some p) x = Some (0, h') \<and> objs h' = (objs h)(x \<mapsto> as_child p po xo, p \<mapsto> with_child x po)
     \<and> brk h' = brk h + 1 \<and> heap_ok h'"
proof -
  have out: "x \<notin> set [p]" using x(4) by simp
  obtain h1 where h1: "x_object_append_child_no_cb h (Some p) x = Some (0, h1)" "heap_ok h1" "family h1 p ([] @ [x])" "brk h1 = brk h"
    and at: "objs h1 x = Some (as_child p po xo)" "objs h1 p = Some (with_child x po)" and old: "\<And>a. a \<notin> {p, x} \<Longrightarrow> objs h1 a = objs h a"
    using append_step [OF h family_empty [OF p(1,2)] p(1) x(1-3) out] unfolding as_child_def with_child_def by auto
  have "\<exists>i. x_object_get_index h1 x = Some i"
    using at h1(3) index_loop_child [of h1 _ "[x]" x 0] by (auto simp: x_object_get_index_def x_object_get_parent_def fld_def family_def kids_def)
  then obtain i where i: "x_object_get_index h1 x = Some i" by blast
  have "child_event env h1 p x ''child-append'' i = Some (h1\<lparr>brk := brk h1 + 1\<rparr>)"
    by (rule child_event_quiet [OF e h1(2) at(2) _ at(1)]) (use p x in simp_all)
  moreover have "path_notify env n x h1 = Some h1" for n using e by (simp add: plain_env_def)
  ultimately have "x_object_append_child env h (Some p) x = Some (0, h1\<lparr>brk := brk h + 1\<rparr>)"
    using i at(1) h1(4) by (simp add: x_object_append_child_def h1(1) plain_calls [OF e at(1)] plain_calls [OF e at(2)] x_object_get_name_def fld_def)
  moreover have "objs h1 = (objs h)(x \<mapsto> as_child p po xo, p \<mapsto> with_child x po)" using at old x(4) by (auto simp: fun_eq_iff)
  moreover have "heap_ok (h1\<lparr>brk := brk h + 1\<rparr>)" using h1(2,4) unfolding heap_ok_def by (auto intro: less_SucI)
  ultimately show ?thesis by (intro exI [of _ "h1\<lparr>brk := brk h + 1\<rparr>"]) simp
qed

lemma getenv_extends:
  assumes g: "x_object_getenv h p k = Some v" and ext: "\<And>a ob. objs h a = Some ob \<Longrightarrow> objs h' a = Some ob"
  shows "x_object_getenv h' p k = Some v"
proof -
  let ?P = "\<lambda>h p k v. (\<forall>a ob. objs h a = Some ob \<longrightarrow> objs h' a = Some ob) \<longrightarrow> x_object_getenv h' p k = Some v"
  have "?P h p k v"
  proof (rule x_object_getenv.raw_induct [where P = ?P, OF _ g], rule impI)
    fix f h p k v
    assume IH: "\<And>p k b y. f p k b = Some y \<Longrightarrow> ?P p k b y" and step: "(case p of None \<Rightarrow> Some None
        | Some a \<Rightarrow> x_object_getattr h a (Some k) \<bind>
            (\<lambda>v. case v of None \<Rightarrow> x_object_get_parent h p \<bind> (\<lambda>q. f h q k) | Some s \<Rightarrow> Some (Some s))) = Some v"
      and e: "\<forall>a ob. objs h a = Some ob \<longrightarrow> objs h' a = Some ob"
    show "x_object_getenv h' p k = Some v"
    proof (cases p)
      case None
      then show ?thesis using step by (simp add: x_object_getenv.simps)
    next
      case p: (Some a)
      then obtain ob where ob: "objs h a = Some ob" using step by (auto simp: x_object_getattr_def bind_eq_Some_conv)
      then have o': "objs h' a = Some ob" using e by blast
      show ?thesis
      proof (cases "getattr (Some k) (Some (o_attrs ob))")
        case None
        then have "f h (o_parent ob) k = Some v" using step ob p by (simp add: x_object_getattr_def x_object_get_parent_def fld_def)
        then have "x_object_getenv h' (o_parent ob) k = Some v" using IH e by blast
        then show ?thesis using None o' p
          by (simp add: x_object_getenv.simps [of h' "Some a"] x_object_getattr_def x_object_get_parent_def fld_def)
      next
        case (Some s)
        moreover from this have "v = Some s" using step ob p by (simp add: x_object_getattr_def)
        ultimately show ?thesis using o' p by (simp add: x_object_getenv.simps [of h' "Some a"] x_object_getattr_def)
      qed
    qed
  qed
  then show ?thesis using ext by blast
qed

section \<open>The request\<close>

lemma bind_names: "LF \<notin> set ''bind''" "LF \<notin> set ''resource''" "LF \<notin> set ''iq''"
  by code_simp+

definition bind_request :: "string \<Rightarrow> xml" where
  "bind_request rs = Elem ''iq'' [(''id'', ''bind_1''), (''type'', ''set'')] [] [Elem ''bind'' [(''xmlns'', NS_BIND)] [] [Elem ''resource'' [] rs []]]"

text \<open>
  C16. Binding a resource: the first attributes that the object is given make it hand one message
  to the transmitter of the session, the request of RFC 6120 for the resource of the session:
  an \<^verbatim>\<open>iq\<close> of type \<^verbatim>\<open>set\<close> with a \<^verbatim>\<open>bind\<close> in its namespace and the resource below it. The
  object remembers that it has asked, and attributes that come later do not make it ask again.
  Nothing else that existed before has changed when the message is handed over.
\<close>

theorem bind_on_assign_requests:
  assumes e: "plain_env env" and h: "heap_ok h" and t: "objs h this = Some tob" "o_bus tob = Some bus"
    and b: "objs h bus = Some bo" "slot env c_tx bo = Some f" "bus \<noteq> this"
    and s: "\<not> bind_state_is (attr_map (o_attrs tob) ''$bind_state'') ''BIND_SENT''" "\<not> bind_state_is (attr_map (o_attrs tob) ''$bind_state'') ''BIND_OK''"
    and r: "x_object_getenv h (Some this) ''resource'' = Some (Some rs)" "length rs < 4000000000"
  shows "\<exists>h1 iq. bind_on_assign env h this as = f bus iq None h1 \<bind> (\<lambda>(r, h2). x_object_ref_put env h2 (Some iq) None)
     \<and> brk h \<le> iq \<and> xml_at h1 iq iq (bind_request rs)
     \<and> bind_on_assign env h1 this as' = Some h1 \<and> (\<forall>a < brk h. a \<noteq> this \<longrightarrow> objs h1 a = objs h a)"
proof -
  let ?a = "brk h"
  have less: "this < ?a" "bus < ?a" using heap_ok_less [OF h] t(1) b(1) by blast+
  obtain m0 h1 where 1: "new_named env h ''bind'' = Some (?a, h1)" "is_new ''bind'' m0" "objs h1 = (objs h)(?a \<mapsto> m0)" "brk h1 = ?a + 1" "heap_ok h1"
    using new_named_ok [OF e h bind_names(1)] by blast
  let ?m = "m0\<lparr>o_attrs := cell_put ''xmlns'' NS_BIND (o_attrs m0)\<rparr>"
  let ?h2 = "h1\<lparr>objs := (objs h)(?a \<mapsto> ?m)\<rparr>"
  have 2: "x_object_setattr h1 ?a ''xmlns'' (Some NS_BIND) = Some ?h2" using setattr_upd [of h1 ?a m0] 1(3) by simp
  have ok2: "heap_ok ?h2" using 1(2-5) by (auto simp: heap_ok_def is_new_def split: if_splits)
  obtain r0 h3 where 3: "new_named env ?h2 ''resource'' = Some (?a + 1, h3)" "is_new ''resource'' r0" "objs h3 = (objs ?h2)(?a + 1 \<mapsto> r0)" "brk h3 = ?a + 2" "heap_ok h3"
    using new_named_ok [OF e ok2 bind_names(2)] 1(4) by auto
  have env3: "x_object_getenv h3 (Some this) ''resource'' = Some (Some rs)"
  proof (rule getenv_extends [OF r(1)])
    fix x ob assume "objs h x = Some ob"
    then show "objs h3 x = Some ob" using heap_ok_less [OF h, of x ob] 3(3) by simp
  qed
  have r0: "objs h3 (?a + 1) = Some r0" "o_content r0 = X_STRING_STATIC_INIT" using 3(2,3) by (simp_all add: is_new_def)
  obtain c where c: "write_content env h3 (?a + 1) rs = Some (h3\<lparr>objs := (objs h3)(?a + 1 \<mapsto> r0\<lparr>o_content := c\<rparr>)\<rparr>)" "xs_ok c" "xs_str c = rs"
    using write_content_new [OF r0 r(2)] by blast
  let ?r = "r0\<lparr>o_content := c\<rparr>" and ?h4 = "h3\<lparr>objs := (objs h3)(?a + 1 \<mapsto> r0\<lparr>o_content := c\<rparr>)\<rparr>"
  have ok4: "heap_ok ?h4" using 3(2-5) by (auto simp: heap_ok_def is_new_def split: if_splits)
  have p4: "objs ?h4 ?a = Some ?m" "o_sons ?m = None" "o_listeners ?m = []" using 1(2) 3(3) by (simp_all add: is_new_def)
  have x4: "objs ?h4 (?a + 1) = Some ?r" "o_next ?r = None" "o_name ?r = Some ''resource''" "?a + 1 \<noteq> ?a" using 3(2) by (simp_all add: is_new_def)
  obtain h5 where 5: "x_object_append_child env ?h4 (Some ?a) (?a + 1) = Some (0, h5)"
    "objs h5 = (objs ?h4)(?a + 1 \<mapsto> as_child ?a ?m ?r, ?a \<mapsto> with_child (?a + 1) ?m)" "brk h5 = ?a + 3" "heap_ok h5"
    using append_only [OF e ok4 p4 x4] 3(4) by auto
  let ?m5 = "with_child (?a + 1) ?m" and ?r5 = "as_child ?a ?m ?r" and ?q = "?a + 3"
  have o5: "objs h5 = (objs h)(?a \<mapsto> ?m5, ?a + 1 \<mapsto> ?r5)" using 5(2) 3(3) by (auto simp: fun_eq_iff)
  obtain q0 h6 where 6: "new_named env h5 ''iq'' = Some (?q, h6)" "is_new ''iq'' q0" "objs h6 = (objs h5)(?q \<mapsto> q0)" "brk h6 = ?a + 4" "heap_ok h6"
    using new_named_ok [OF e 5(4) bind_names(3)] 5(3) by auto
  let ?i = "q0\<lparr>o_attrs := cell_put ''id'' ''bind_1'' (cell_put ''type'' ''set'' (o_attrs q0))\<rparr>"
  let ?h7 = "h6\<lparr>objs := (objs h5)(?q \<mapsto> ?i)\<rparr>"
  have 7: "set_attrs h6 ?q [(''type'', Some ''set''), (''id'', Some ''bind_1'')] = Some ?h7"
    using 6(3) by (simp add: setattr_upd)
  have ok7: "heap_ok ?h7" using 6(2-5) by (auto simp: heap_ok_def is_new_def split: if_splits)
  have p7: "objs ?h7 ?q = Some ?i" "o_sons ?i = None" "o_listeners ?i = []" using 6(2) by (simp_all add: is_new_def)
  have x7: "objs ?h7 ?a = Some ?m5" "o_next ?m5 = None" "o_name ?m5 = Some ''bind''" "?a \<noteq> ?q" using o5 1(2) by (simp_all add: is_new_def)
  obtain h8 where 8: "x_object_append_child env ?h7 (Some ?q) ?a = Some (0, h8)"
    "objs h8 = (objs ?h7)(?a \<mapsto> as_child ?q ?i ?m5, ?q \<mapsto> with_child ?a ?i)"
    using append_only [OF e ok7 p7 x7] by blast
  have o8: "objs h8 = (objs h)(?a \<mapsto> as_child ?q ?i ?m5, ?a + 1 \<mapsto> ?r5, ?q \<mapsto> with_child ?a ?i)"
    using 8(2) o5 by (auto simp: fun_eq_iff)
  let ?t = "tob\<lparr>o_attrs := cell_put ''$bind_state'' ''BIND_SENT'' (o_attrs tob)\<rparr>"
  let ?h9 = "h8\<lparr>objs := (objs h8)(this \<mapsto> ?t)\<rparr>"
  have "objs h8 this = Some tob" using o8 less t(1) by simp
  then have 9: "x_object_setattr h8 this ''$bind_state'' (Some ''BIND_SENT'') = Some ?h9" by (rule setattr_upd)
  have o9: "objs ?h9 = (objs h)(?a \<mapsto> as_child ?q ?i ?m5, ?a + 1 \<mapsto> ?r5, ?q \<mapsto> with_child ?a ?i, this \<mapsto> ?t)" by (simp add: o8)
  have bus9: "fld ?h9 this o_bus = Some (Some bus)" "objs ?h9 bus = Some bo" using o9 t(2) b(1,3) less by (simp_all add: fld_def)
  have val: "x_object_getattr h this (Some ''$bind_state'') = Some (attr_map (o_attrs tob) ''$bind_state'')"
    using t(1) by (simp add: x_object_getattr_def attr_map_def)
  have run: "bind_on_assign env h this as = send_and_put env ?h9 (Some bus) ?q"
    by (simp only: bind_on_assign_def val Option.bind.bind_lunit prod.case s simp_thms if_False 1(1) 2 3(1) env3 c(1) 5(1) 6(1) 7 8(1) 9 bus9(1))
  have "attr_map (o_attrs ?t) ''$bind_state'' = Some ''BIND_SENT''" by (simp add: xw_abs)
  then have again: "bind_on_assign env ?h9 this as' = Some ?h9"
    using o9 by (simp add: bind_on_assign_def x_object_getattr_def attr_map_def bind_state_is_def strcaseeq_def)
  have "obj_is ?i ''iq'' [(''id'', ''bind_1''), (''type'', ''set'')] []" "obj_is ?m ''bind'' [(''xmlns'', NS_BIND)] []" "obj_is ?r ''resource'' [] rs"
    using 1(2) 3(2) 6(2) c(2,3) xs_ok_init by (simp_all add: obj_is_def is_new_def cell_put_def)
  moreover have "o_sons ?r = None" "o_sons ?m = None" using 1(2) 3(2) by (simp_all add: is_new_def)
  ultimately have "xml_at ?h9 ?q ?q (bind_request rs)" unfolding bind_request_def
    using less by (simp add: o9)
  moreover have "\<forall>x < ?a. x \<noteq> this \<longrightarrow> objs ?h9 x = objs h x" by (simp add: o9)
  ultimately show ?thesis unfolding run send_and_put_owner [OF bus9(2) b(2)] using again by (intro exI [of _ ?h9] exI [of _ ?q]) simp
qed

definition bind_obj :: xobject where
  "bind_obj = (new_xobject 0)\<lparr>o_name := Some ''bind'', o_parent := Some 0, o_bus := Some 0\<rparr>"

definition bind_bus :: xobject where
  "bind_bus = (new_xobject 0)\<lparr>o_name := Some ''bus'', o_class := Some 0, o_sons := Some 1, o_attrs := [(''resource'', ''home'')]\<rparr>"

definition bind_heap :: heap where
  "bind_heap = \<lparr>objs = [0 \<mapsto> bind_bus, 1 \<mapsto> bind_obj], brk = 2\<rparr>"

lemma bind_heap_objs:
  "objs bind_heap 1 = Some bind_obj" "o_bus bind_obj = Some 0" "objs bind_heap 0 = Some bind_bus" "slot tx_env c_tx bind_bus = Some (\<lambda>t msg ctx h. Some (int t, h))"
  "attr_map (o_attrs bind_obj) ''$bind_state'' = None" "x_object_getenv bind_heap (Some 1) ''resource'' = Some (Some ''home'')" "brk bind_heap = 2"
  by (simp_all add: bind_heap_def bind_obj_def bind_bus_def new_xobject_def slot_def tx_env_def demo_env_def attr_map_def getattr_def
      x_object_getenv.simps x_object_getattr_def x_object_get_parent_def fld_def attr_list_init_def)

lemma bind_heap_ok: "heap_ok bind_heap"
  by (auto simp: heap_ok_def bind_heap_def bind_obj_def bind_bus_def new_xobject_def split: if_splits)

theorem bind_on_assign_requests_witness:
  "\<exists>h1 iq. bind_on_assign tx_env bind_heap 1 [] = x_object_ref_put tx_env h1 (Some iq) None \<and> 2 \<le> iq \<and> xml_at h1 iq iq (bind_request ''home'')
     \<and> bind_on_assign tx_env h1 1 [(''xmlns'', NS_BIND)] = Some h1 \<and> objs h1 0 = objs bind_heap 0"
proof -
  have s: "\<not> bind_state_is (attr_map (o_attrs bind_obj) ''$bind_state'') v" for v using bind_heap_objs(5) by (simp add: bind_state_is_def)
  have n: "(0 :: addr) \<noteq> 1" "length ''home'' < 4000000000" by simp_all
  obtain h1 iq where x: "bind_on_assign tx_env bind_heap 1 [] = Some (int 0, h1) \<bind> (\<lambda>(r, h2). x_object_ref_put tx_env h2 (Some iq) None)"
    "2 \<le> iq" "xml_at h1 iq iq (bind_request ''home'')" "bind_on_assign tx_env h1 1 [(''xmlns'', NS_BIND)] = Some h1"
    "\<forall>a < 2. a \<noteq> 1 \<longrightarrow> objs h1 a = objs bind_heap a"
    using bind_on_assign_requests [OF tx_env_plain bind_heap_ok bind_heap_objs(1-4) n(1) s s bind_heap_objs(6) n(2), of "[]" "[(''xmlns'', NS_BIND)]"]
    unfolding bind_heap_objs(7) by blast
  then show ?thesis by (intro exI [of _ h1] exI [of _ iq]) simp
qed

end
