(* ===== verification/Xw_Parser_Safe.thy ===== *)
theory Xw_Parser_Safe
  imports Xw_Serialize
begin

text \<open>
  What holds of the parser on arbitrary bytes: its registers, its stack of contexts and its
  phase stay well-formed, and the ways in which a byte can stop it.
\<close>

section \<open>Well-formed parsers\<close>

text \<open>After \<open>n\<close> characters a register has grown at most \<open>n\<close> times.\<close>

definition rb :: "nat \<Rightarrow> x_string \<Rightarrow> bool" where
  "rb n x \<longleftrightarrow> xs_ok x \<and> unat (capacity x) \<le> 32 + 34 * n"

lemma rb_mono: "rb m x \<Longrightarrow> m \<le> n \<Longrightarrow> rb n x"
  by (simp add: rb_def)

text \<open>The register holds a C string that can be read.\<close>

definition terminated :: "x_string \<Rightarrow> bool" where
  "terminated x \<longleftrightarrow> xs_read x \<noteq> None"

lemma rb_putc: "rb n x \<Longrightarrow> n < reg_max \<Longrightarrow> \<exists>x'. x_string_putc junk x c = Some x' \<and> rb (Suc n) x' \<and> terminated x'"
proof -
  assume r: "rb n x" "n < reg_max"
  then have fit: "unat (capacity x) + 1 + 33 < 2 ^ 32" by (simp add: rb_def reg_max_def)
  have ok: "xs_ok x" using r(1) by (simp add: rb_def)
  obtain x' where x': "x_string_write junk x [c] 1 = Some x'" "xs_ok x'" "unat (capacity x') \<le> unat (capacity x) + 1 + 33"
    "xs_str x' = xs_str x @ take 1 [c]" "xs_block x' ! unat (pos x') = NUL"
    by (rule x_string_write_ok [OF ok fit, of "[c]" junk]) auto
  then obtain b where "cbuf x' = Block b" "unat (pos x') < length b" by (cases "cbuf x'") (auto simp: xs_ok_def xs_str_def xs_block_def)
  moreover from this have "NUL \<in> set b" using x'(5) nth_mem [of "unat (pos x')" b] by (simp add: xs_block_def)
  ultimately have "terminated x'" by (simp add: terminated_def xs_read_def)
  then show ?thesis using r(1) x' by (auto simp: rb_def x_string_putc_write)
qed

lemma rb_clear: "rb n x \<Longrightarrow> \<exists>x'. x_string_clear junk x = Some x' \<and> rb m x'"
proof -
  assume "rb n x"
  then have "xs_ok x" by (simp add: rb_def)
  then obtain x' where "x_string_clear junk x = Some x'" "xs_ok x'" "unat (capacity x') = 32" by (rule x_string_clear_ok)
  then show ?thesis by (auto simp: rb_def)
qed

definition regs_ok :: "nat \<Rightarrow> 's pparser \<Rightarrow> bool" where
  "regs_ok n p \<longleftrightarrow> rb n (r0 p) \<and> rb n (r1 p) \<and> rb n (r2 p)"

text \<open>
  Only a suspended tag or attribute list is ever on the stack, and only while the idle context
  runs. The name of an opening tag and the key of an attribute are complete strings.
\<close>

definition pp_wf :: "nat \<Rightarrow> 's pparser \<Rightarrow> bool" where
  "pp_wf n p \<longleftrightarrow> regs_ok n p \<and> (case r_putc p of
       Ctx_txt \<Rightarrow> stack p = [] \<and> cr1 p = X_PP_INI
     | Ctx_tag \<Rightarrow> stack p = [] \<and> (cr1 p = X_PP_INI \<or> cr1 p = X_PP_OBJ_OPENING \<and> terminated (r0 p) \<or> cr1 p = X_PP_OBJ_CLOSING)
     | Ctx_attr \<Rightarrow> stack p = [] \<and> terminated (r0 p)
         \<and> (cr1 p \<in> {X_PP_KV_KEY, X_PP_KV_WANT_VAL, X_PP_KV_VAL, X_PP_KV_LAV} \<longrightarrow> terminated (r1 p))
     | Ctx_idle \<Rightarrow> stack p = [Ctx_attr] \<and> cr1 p = X_PP_KV_LAV \<and> terminated (r0 p) \<and> terminated (r1 p)
         \<or> stack p = [Ctx_tag] \<and> cr1 p = X_PP_INI)"

lemma pp_wf_stack: "pp_wf n p \<Longrightarrow> length (stack p) \<le> 1"
  by (auto simp: pp_wf_def split: ctx.splits)

section \<open>Steps that succeed\<close>

text \<open>\<open>run m Q\<close>: the computation yields a value, and \<open>Q\<close> holds of it.\<close>

definition run :: "'a option \<Rightarrow> ('a \<Rightarrow> bool) \<Rightarrow> bool" where
  "run m Q \<longleftrightarrow> (case m of None \<Rightarrow> False | Some a \<Rightarrow> Q a)"

lemma run_Some [simp]: "run (Some a) Q \<longleftrightarrow> Q a"
  by (simp add: run_def)

lemma run_bind: "run m (\<lambda>a. run (f a) Q) \<Longrightarrow> run (m \<bind> f) Q"
  by (cases m) (simp_all add: run_def)

lemma run_if: "run m Q \<Longrightarrow> run m' Q \<Longrightarrow> run (if b then m else m') Q"
  by simp

lemma run_ex: "run m Q \<longleftrightarrow> (\<exists>a. m = Some a \<and> Q a)"
  by (cases m) (simp_all add: run_def)

text \<open>The operations on the registers, on states with the registers of a well-formed one.\<close>

lemma run_clear:
  "regs_ok n p \<Longrightarrow> (\<And>x. rb n x \<Longrightarrow> Q (p\<lparr>r0 := x\<rparr>)) \<Longrightarrow> run (clear_r0 junk p) Q"
  "regs_ok n p \<Longrightarrow> (\<And>x. rb n x \<Longrightarrow> Q (p\<lparr>r1 := x\<rparr>)) \<Longrightarrow> run (clear_r1 junk p) Q"
  "regs_ok n p \<Longrightarrow> (\<And>x. rb n x \<Longrightarrow> Q (p\<lparr>r2 := x\<rparr>)) \<Longrightarrow> run (clear_r2 junk p) Q"
  using rb_clear [of n _ junk n] unfolding regs_ok_def clear_r0_def clear_r1_def clear_r2_def by fastforce+

lemma run_putc:
  "regs_ok n p \<Longrightarrow> n < reg_max \<Longrightarrow> (\<And>x. rb (Suc n) x \<Longrightarrow> terminated x \<Longrightarrow> Q (p\<lparr>r0 := x\<rparr>)) \<Longrightarrow> run (putc_r0 junk c p) Q"
  "regs_ok n p \<Longrightarrow> n < reg_max \<Longrightarrow> (\<And>x. rb (Suc n) x \<Longrightarrow> terminated x \<Longrightarrow> Q (p\<lparr>r1 := x\<rparr>)) \<Longrightarrow> run (putc_r1 junk c p) Q"
  "regs_ok n p \<Longrightarrow> n < reg_max \<Longrightarrow> (\<And>x. rb (Suc n) x \<Longrightarrow> terminated x \<Longrightarrow> Q (p\<lparr>r2 := x\<rparr>)) \<Longrightarrow> run (putc_r2 junk c p) Q"
  using rb_putc [of n _ junk c] unfolding regs_ok_def putc_r0_def putc_r1_def putc_r2_def by fastforce+

lemma run_clear_vals:
  assumes r: "regs_ok n p" and q: "\<And>x y. rb n x \<Longrightarrow> rb n y \<Longrightarrow> Q (p\<lparr>r1 := x, r2 := y, g1 := NUL, g2 := False\<rparr>)"
  shows "run (clear_vals junk p) Q"
  unfolding clear_vals_def
proof (rule run_bind, rule run_clear(2) [OF r], rule run_bind)
  fix x assume "rb n x"
  then have "regs_ok n (p\<lparr>r1 := x\<rparr>)" using r by (simp add: regs_ok_def)
  then show "run (clear_r2 junk (p\<lparr>r1 := x\<rparr>)) (\<lambda>a. run (Some (a\<lparr>g1 := NUL, g2 := False\<rparr>)) Q)"
    by (rule run_clear(3)) (use q [OF \<open>rb n x\<close>] in simp)
qed

text \<open>Callbacks that always return.\<close>

definition total_cb :: "'s pp_cb \<Rightarrow> bool" where
  "total_cb cb \<longleftrightarrow> (\<forall>f. xobjopen cb = Some f \<longrightarrow> (\<forall>n as d. f n as d \<noteq> None)) \<and> (\<forall>f. xputchar cb = Some f \<longrightarrow> (\<forall>c d. f c d \<noteq> None))
     \<and> (\<forall>f. xobjclose cb = Some f \<longrightarrow> (\<forall>n d. f n d \<noteq> None))"

definition same_control :: "'s pparser \<Rightarrow> 's pparser \<Rightarrow> bool" where
  "same_control p p' \<longleftrightarrow> r0 p' = r0 p \<and> r1 p' = r1 p \<and> r2 p' = r2 p \<and> r_putc p' = r_putc p \<and> stack p' = stack p \<and> cr1 p' = cr1 p"

lemma run_calls:
  assumes cb: "total_cb cb"
  shows "terminated (r0 p) \<Longrightarrow> (\<And>p'. same_control p p' \<Longrightarrow> Q p') \<Longrightarrow> run (call_open cb p) Q"
    "terminated (r0 p) \<Longrightarrow> (\<And>p'. same_control p p' \<Longrightarrow> Q p') \<Longrightarrow> run (call_close cb p) Q"
proof -
  assume r: "terminated (r0 p)" and q: "\<And>p'. same_control p p' \<Longrightarrow> Q p'"
  obtain name where name: "xs_read (r0 p) = Some name" using r by (auto simp: terminated_def)
  show "run (call_open cb p) Q"
  proof (cases "xobjopen cb")
    case None
    then show ?thesis using q [of p] by (simp add: call_open_def same_control_def)
  next
    case (Some f)
    then obtain a s where "f name (attrs p) (cbdata p) = Some (a, s)" using cb by (fastforce simp: total_cb_def)
    then show ?thesis using Some name q [of "p\<lparr>attrs := a, cbdata := s\<rparr>"] by (simp add: call_open_def same_control_def)
  qed
  show "run (call_close cb p) Q"
  proof (cases "xobjclose cb")
    case None
    then show ?thesis using q [of p] by (simp add: call_close_def same_control_def)
  next
    case (Some f)
    then obtain s where "f name (cbdata p) = Some s" using cb by (fastforce simp: total_cb_def)
    then show ?thesis using Some name q [of "p\<lparr>cbdata := s\<rparr>"] by (simp add: call_close_def same_control_def)
  qed
qed

lemma run_set_pair:
  "terminated (r1 p) \<Longrightarrow> terminated (r2 p) \<Longrightarrow> (\<And>p'. same_control p p' \<Longrightarrow> Q p') \<Longrightarrow> run (set_pair p) Q"
  by (auto simp: set_pair_def same_control_def terminated_def)

lemma same_control_regs: "same_control p p' \<Longrightarrow> regs_ok n p' \<longleftrightarrow> regs_ok n p"
  by (simp add: same_control_def regs_ok_def)

lemma rb_Suc [simp]: "rb n x \<Longrightarrow> rb (Suc n) x"
  by (simp add: rb_def)

lemmas wf_simps = pp_wf_def regs_ok_def x_parser_set_context_def same_control_def

section \<open>One character\<close>

abbreviation next_ok :: "nat \<Rightarrow> int \<times> 's pparser \<Rightarrow> bool" where
  "next_ok n \<equiv> \<lambda>r. pp_wf (Suc n) (snd r)"

text \<open>A byte that the tag context aborts on.\<close>

definition stray :: "char \<Rightarrow> bool" where
  "stray c \<longleftrightarrow> \<not> name_char c \<and> c \<noteq> CHR ''/'' \<and> c \<noteq> CHR ''>'' \<and> \<not> wsc c"

lemma tag_ini_ok:
  assumes p: "regs_ok n p" "n < reg_max" "stack p = []" "r_putc p = Ctx_tag" "cr1 p = X_PP_INI"
  shows "run (tag_ini junk p c) (next_ok n)"
proof -
  have "run (clear_r0 junk (p\<lparr>cr1 := X_PP_OBJ_OPENING\<rparr>) \<bind> (\<lambda>p1. putc_r0 junk c p1 \<bind> (\<lambda>p2. Some (0 :: int, p2)))) (next_ok n)"
    by (intro run_bind run_clear(1) [where n = n] run_putc(1) [where n = n]) (use p in \<open>simp_all add: wf_simps\<close>)
  moreover have "run (clear_r0 junk (p\<lparr>cr1 := X_PP_INI\<rparr>) \<bind> (\<lambda>p1. Some (0 :: int, x_parser_set_context p1 Ctx_txt))) (next_ok n)"
    by (intro run_bind run_clear(1) [where n = n]) (use p in \<open>simp_all add: wf_simps\<close>)
  moreover have "run (clear_vals junk p \<bind> (\<lambda>p1. Some (0 :: int, p1\<lparr>cr1 := X_PP_OBJ_CLOSING\<rparr>))) (next_ok n)"
    by (intro run_bind run_clear_vals [where n = n]) (use p in \<open>simp_all add: wf_simps\<close>)
  ultimately show ?thesis
    using p by (simp add: tag_ini_def x_parser_push_def X_INI_STACK_SIZE_def wf_simps)
qed

lemma tag_opening_ok:
  assumes p: "regs_ok n p" "n < reg_max" "stack p = []" "r_putc p = Ctx_tag" "cr1 p = X_PP_OBJ_OPENING"
    and cb: "total_cb cb" and r: "terminated (r0 p)" and c: "\<not> stray c"
  shows "run (tag_opening junk cb p c) (next_ok n)"
proof -
  have "run (putc_r0 junk c p \<bind> (\<lambda>p1. Some (0 :: int, p1))) (next_ok n)"
    by (intro run_bind run_putc(1) [where n = n]) (use p in \<open>simp_all add: wf_simps\<close>)
  moreover have "run (call_open cb p \<bind> (\<lambda>p1. clear_vals junk p1 \<bind> (\<lambda>p2. Some (0 :: int, p2\<lparr>cr1 := X_PP_OBJ_CLOSING\<rparr>)))) (next_ok n)"
    by (intro run_bind run_calls(1) [OF cb r] run_clear_vals [where n = n]) (use p in \<open>simp_all add: wf_simps\<close>)
  moreover have "run (call_open cb p \<bind> (\<lambda>p1. clear_r0 junk p1 \<bind> (\<lambda>p2. clear_vals junk p2 \<bind>
      (\<lambda>p3. Some (0 :: int, x_parser_set_context (p3\<lparr>cr1 := X_PP_INI, cr0 := cr0 p3 AND NOT PP_ATTR_F\<rparr>) Ctx_txt))))) (next_ok n)"
    by (intro run_bind run_calls(1) [OF cb r] run_clear(1) [where n = n] run_clear_vals [where n = n]) (use p in \<open>simp_all add: wf_simps\<close>)
  moreover have "run (clear_vals junk (p\<lparr>attrs := attr_list_clear (attrs p)\<rparr>) \<bind>
      (\<lambda>p1. Some (0 :: int, x_parser_set_context (p1\<lparr>cr0 := cr0 p1 OR PP_ATTR_F\<rparr>) Ctx_attr))) (next_ok n)"
    by (intro run_bind run_clear_vals [where n = n]) (use p r in \<open>simp_all add: wf_simps\<close>)
  ultimately show ?thesis using c by (auto simp: tag_opening_def stray_def)
qed

lemma tag_closing_ok:
  assumes p: "regs_ok n p" "n < reg_max" "stack p = []" "r_putc p = Ctx_tag" "cr1 p = X_PP_OBJ_CLOSING"
    and cb: "total_cb cb" and r: "c = CHR ''>'' \<Longrightarrow> terminated (r0 p)"
  shows "run (tag_closing junk cb p c) (next_ok n)"
proof -
  have "run (call_close cb p \<bind> (\<lambda>p1. clear_r0 junk (p1\<lparr>cr1 := X_PP_INI\<rparr>) \<bind> (\<lambda>p2. clear_vals junk p2 \<bind>
      (\<lambda>p3. Some (0 :: int, x_parser_set_context p3 Ctx_txt))))) (next_ok n)" if "c = CHR ''>''"
    by (intro run_bind run_calls(2) [OF cb r [OF that]] run_clear(1) [where n = n] run_clear_vals [where n = n]) (use p in \<open>simp_all add: wf_simps\<close>)
  moreover have "run (putc_r0 junk c p \<bind> (\<lambda>p1. Some (0 :: int, p1))) (next_ok n)"
    by (intro run_bind run_putc(1) [where n = n]) (use p in \<open>simp_all add: wf_simps\<close>)
  ultimately show ?thesis using p by (simp add: tag_closing_def wf_simps)
qed

lemma ret_to_tag_ok:
  assumes p: "regs_ok n p" "n < reg_max" "stack p = []" and cb: "total_cb cb" and r: "terminated (r0 p)" and c: "\<not> stray c"
  shows "run (ret_to_tag junk cb p c) (next_ok n)"
  unfolding ret_to_tag_def
proof (intro run_bind run_clear(2) [OF p(1)] run_clear(3) [where n = n])
  fix x y assume xy: "rb n x" "rb n y"
  let ?p = "x_parser_set_context (p\<lparr>r1 := x, r2 := y, cr1 := X_PP_OBJ_OPENING\<rparr>) Ctx_tag"
  have "run (tag_opening junk cb ?p c) (next_ok n)"
    by (rule tag_opening_ok) (use p cb r c xy in \<open>simp_all add: wf_simps\<close>)
  then show "run (x_parser_ctx_tag junk cb ?p c) (\<lambda>a. run (case a of (r, p3) \<Rightarrow> Some (0 :: int, p3)) (next_ok n))"
    by (auto simp: run_ex x_parser_ctx_tag_def x_parser_set_context_def)
qed (use p in \<open>simp_all add: regs_ok_def\<close>)

text \<open>The bytes that end the program, and those that lead to a string that does not end.\<close>

definition aborts :: "'s pparser \<Rightarrow> char \<Rightarrow> bool" where
  "aborts p c \<longleftrightarrow> stray c \<and> (r_putc p = Ctx_tag \<and> cr1 p = X_PP_OBJ_OPENING
     \<or> r_putc p = Ctx_attr \<and> cr1 p \<noteq> X_PP_KV_KEY \<and> (cr1 p = X_PP_KV_VAL \<longrightarrow> c \<noteq> CHR 0x27 \<and> c \<noteq> CHR 0x22)
       \<and> (cr1 p = X_PP_KV_WANT_VAL \<longrightarrow> c \<noteq> CHR ''=''))"

definition dangling :: "'s pparser \<Rightarrow> char \<Rightarrow> bool" where
  "dangling p c \<longleftrightarrow> r_putc p = Ctx_tag \<and> cr1 p = X_PP_OBJ_CLOSING \<and> c = CHR ''>'' \<and> \<not> terminated (r0 p)
     \<or> r_putc p = Ctx_attr \<and> cr1 p = X_PP_KV_LAV \<and> \<not> name_start c \<and> \<not> terminated (r2 p)"

lemma ctx_attr_ok:
  assumes p: "regs_ok n p" "n < reg_max" "stack p = []" "r_putc p = Ctx_attr" "terminated (r0 p)"
      "cr1 p \<in> {X_PP_KV_KEY, X_PP_KV_WANT_VAL, X_PP_KV_VAL, X_PP_KV_LAV} \<longrightarrow> terminated (r1 p)"
    and cb: "total_cb cb" and ok: "\<not> aborts p c" "\<not> dangling p c"
  shows "run (x_parser_ctx_attr junk cb p c) (next_ok n)"
proof -
  have put: "run (putc_r1 junk c p \<bind> (\<lambda>p1. Some (0 :: int, p1))) (next_ok n)"
    "run (putc_r1 junk c p \<bind> (\<lambda>p1. Some (0 :: int, p1\<lparr>cr1 := ph\<rparr>))) (next_ok n)" for ph
    by (intro run_bind run_putc(2) [where n = n]; use p in \<open>simp add: wf_simps\<close>)+
  have put2: "run (putc_r2 junk c p \<bind> (\<lambda>p1. Some (0 :: int, p1))) (next_ok n)"
    "terminated (r1 p) \<Longrightarrow> run (putc_r2 junk c p \<bind> (\<lambda>p1. Some (0 :: int, p1\<lparr>cr1 := ph\<rparr>))) (next_ok n)" for ph
    by (intro run_bind run_putc(3) [where n = n]; use p in \<open>simp add: wf_simps\<close>)+
  have pair: "run (set_pair p \<bind> (\<lambda>p1. clear_r1 junk p1 \<bind> (\<lambda>p2. clear_r2 junk p2 \<bind> (\<lambda>p3. Some (0 :: int, p3\<lparr>cr1 := X_PP_INI\<rparr>))))) (next_ok n)"
    if "terminated (r1 p)" "terminated (r2 p)"
    by (intro run_bind run_set_pair [OF that] run_clear(2,3) [where n = n]) (use p in \<open>simp_all add: wf_simps\<close>)
  have ret: "run (ret_to_tag junk cb p c) (next_ok n)" if "\<not> stray c" by (rule ret_to_tag_ok [OF p(1-3) cb p(5) that])
  have pair_ret: "run (set_pair p \<bind> (\<lambda>p1. ret_to_tag junk cb p1 c)) (next_ok n)"
    if "terminated (r1 p)" "terminated (r2 p)" "\<not> stray c"
    by (intro run_bind run_set_pair [OF that(1,2)] ret_to_tag_ok cb that) (use p in \<open>simp_all add: wf_simps\<close>)
  have quote: "run (x_parser_push (p\<lparr>g1 := c, cr1 := X_PP_KV_LAV\<rparr>) Ctx_attr \<bind> (\<lambda>p1. clear_r2 junk p1 \<bind>
      (\<lambda>p2. Some (0 :: int, x_parser_set_context (p2\<lparr>g2 := True\<rparr>) Ctx_idle)))) (next_ok n)" if "terminated (r1 p)"
    unfolding x_parser_push_def by (simp add: p(3) X_INI_STACK_SIZE_def, intro run_bind run_clear(3) [where n = n]) (use p that in \<open>simp_all add: wf_simps\<close>)
  have key: "run (clear_r1 junk (p\<lparr>attrs := snd (setattr True k None (attrs p))\<rparr>) \<bind> (\<lambda>p1. clear_r2 junk p1 \<bind> (\<lambda>p2. putc_r1 junk c p2 \<bind>
      (\<lambda>p3. Some (0 :: int, p3\<lparr>cr1 := X_PP_KV_KEY\<rparr>))))) (next_ok n)" for k
    by (intro run_bind run_clear(2,3) [where n = n] run_putc(2) [where n = n]) (use p in \<open>simp_all add: wf_simps\<close>)
  have stay: "pp_wf (Suc n) p" "terminated (r1 p) \<Longrightarrow> pp_wf (Suc n) (p\<lparr>cr1 := ph\<rparr>)" for ph using p by (simp_all add: wf_simps)
  have ns: "name_start c \<Longrightarrow> \<not> stray c" "wsc c \<Longrightarrow> \<not> stray c" "key_char c \<Longrightarrow> \<not> stray c"
    using name_start_char by (auto simp: stray_def)
  show ?thesis
  proof (cases "cr1 p")
    case X_PP_KV_LAV
    then have t: "terminated (r1 p)" "name_start c \<or> terminated (r2 p)" "name_start c \<or> \<not> stray c"
      using p(4,6) ok ns by (auto simp: dangling_def aborts_def)
    then show ?thesis using put2 pair pair_ret by (auto simp: x_parser_ctx_attr_def X_PP_KV_LAV)
  next
    case X_PP_KV_VAL
    then have t: "terminated (r1 p)" "c = CHR 0x27 \<or> c = CHR 0x22 \<or> \<not> stray c" using p(4,6) ok by (auto simp: aborts_def)
    then show ?thesis using quote put2(2) ret stay(1) by (auto simp: x_parser_ctx_attr_def X_PP_KV_VAL)
  next
    case X_PP_KV_WANT_VAL
    then have t: "terminated (r1 p)" "c = CHR ''='' \<or> \<not> stray c" using p(4,6) ok by (auto simp: aborts_def)
    then obtain k where k: "xs_read (r1 p) = Some k" by (auto simp: terminated_def)
    show ?thesis using t k key ret stay by (auto simp: x_parser_ctx_attr_def X_PP_KV_WANT_VAL)
  next
    case X_PP_KV_KEY
    then show ?thesis using p(6) put stay by (simp add: x_parser_ctx_attr_def)
  qed (use p(4) ok put ret stay in \<open>simp_all add: x_parser_ctx_attr_def aborts_def\<close>)
qed

lemma ctx_idle_ok:
  assumes p: "regs_ok n p" "n < reg_max" "r_putc p = Ctx_idle"
    "stack p = [Ctx_attr] \<and> cr1 p = X_PP_KV_LAV \<and> terminated (r0 p) \<and> terminated (r1 p) \<or> stack p = [Ctx_tag] \<and> cr1 p = X_PP_INI"
  shows "run (x_parser_ctx_idle junk p c) (next_ok n)"
proof -
  have "run (putc_r2 junk c p \<bind> (\<lambda>p1. Some (0 :: int, p1))) (next_ok n)"
    by (intro run_bind run_putc(3) [where n = n]) (use p in \<open>simp_all add: wf_simps\<close>)
  moreover have "run (x_parser_pop p \<bind> (\<lambda>(f, p1). Some (0 :: int, x_parser_set_context p1 f))) (next_ok n)"
    using p by (auto simp: x_parser_pop_def wf_simps)
  moreover have "pp_wf (Suc n) p" using p by (simp add: wf_simps)
  ultimately show ?thesis by (simp add: x_parser_ctx_idle_def)
qed

lemma ctx_txt_ok:
  assumes p: "regs_ok n p" "r_putc p = Ctx_txt" "stack p = []" "cr1 p = X_PP_INI" and cb: "total_cb cb"
  shows "run (x_parser_ctx_txt cb p c) (next_ok n)"
proof (cases "xputchar cb")
  case None
  then show ?thesis using p by (simp add: x_parser_ctx_txt_def wf_simps)
next
  case (Some f)
  then obtain d where "f c (cbdata p) = Some d" using cb by (fastforce simp: total_cb_def)
  then show ?thesis using p Some by (simp add: x_parser_ctx_txt_def wf_simps)
qed

lemma pp_putc_ok:
  assumes p: "pp_wf n p" "n < reg_max" and cb: "total_cb cb" and ok: "\<not> aborts p c" "\<not> dangling p c"
  shows "run (pp_putc junk cb p c) (next_ok n)"
proof -
  have regs: "regs_ok n p" using p(1) by (simp add: pp_wf_def)
  show ?thesis
  proof (cases "r_putc p")
    case Ctx_txt
    then show ?thesis using ctx_txt_ok [OF regs Ctx_txt _ _ cb, of c] p(1) by (simp add: pp_putc_def pp_wf_def)
  next
    case Ctx_tag
    then consider "cr1 p = X_PP_INI" | "cr1 p = X_PP_OBJ_OPENING" "terminated (r0 p)" | "cr1 p = X_PP_OBJ_CLOSING" using p(1) by (auto simp: pp_wf_def)
    then show ?thesis
    proof cases
      case 1
      then show ?thesis using tag_ini_ok [OF regs p(2) _ Ctx_tag 1] p(1) Ctx_tag by (simp add: pp_putc_def x_parser_ctx_tag_def pp_wf_def)
    next
      case 2
      then show ?thesis using tag_opening_ok [OF regs p(2) _ Ctx_tag 2(1) cb 2(2)] p(1) Ctx_tag ok
        by (simp add: pp_putc_def x_parser_ctx_tag_def pp_wf_def aborts_def)
    next
      case 3
      then show ?thesis using tag_closing_ok [OF regs p(2) _ Ctx_tag 3 cb] p(1) Ctx_tag ok
        by (simp add: pp_putc_def x_parser_ctx_tag_def pp_wf_def dangling_def)
    qed
  next
    case Ctx_attr
    then have a: "stack p = []" "terminated (r0 p)" "cr1 p \<in> {X_PP_KV_KEY, X_PP_KV_WANT_VAL, X_PP_KV_VAL, X_PP_KV_LAV} \<longrightarrow> terminated (r1 p)"
      using p(1) by (simp_all add: pp_wf_def)
    show ?thesis using ctx_attr_ok [OF regs p(2) a(1) Ctx_attr a(2,3) cb ok] by (simp add: pp_putc_def Ctx_attr)
  next
    case Ctx_idle
    then show ?thesis using ctx_idle_ok [OF regs p(2) Ctx_idle] p(1) by (simp add: pp_putc_def pp_wf_def)
  qed
qed

section \<open>Claim\<close>

text \<open>
  C21. Memory safety of the parser on arbitrary bytes, as preservation and progress: fed with
  any bytes, a well-formed parser whose callbacks return ends in a well-formed state: registers
  within their buffers, at most one suspended context, complete names and keys, and a phase
  that the running context knows. There are two exceptions, each after a part of the input: a byte that
  may not stand in an opening tag, on which the parser ends the program, and a name or value
  without a terminator, such as the name of an end tag that the stream starts with.
\<close>

theorem pp_feed_safe:
  assumes p: "pp_wf n p" "n + length s \<le> reg_max" and cb: "total_cb cb"
  shows "(\<exists>p'. pp_feed junk cb p s = Some p' \<and> pp_wf (n + length s) p')
    \<or> (\<exists>s1 c s2 p1. s = s1 @ c # s2 \<and> pp_feed junk cb p s1 = Some p1 \<and> (aborts p1 c \<or> dangling p1 c))"
  using p
proof (induction s arbitrary: n p)
  case Nil
  then show ?case by simp
next
  case (Cons c s)
  show ?case
  proof (cases "aborts p c \<or> dangling p c")
    case True
    then show ?thesis by (intro disjI2 exI [of _ "[]"]) auto
  next
    case False
    then obtain r p1 where p1: "pp_putc junk cb p c = Some (r, p1)" "pp_wf (Suc n) p1"
      using pp_putc_ok [OF Cons.prems(1) _ cb, of c junk] Cons.prems(2) by (auto simp: run_ex)
    then consider p' where "pp_feed junk cb p1 s = Some p'" "pp_wf (Suc n + length s) p'"
      | s1 c' s2 p2 where "s = s1 @ c' # s2" "pp_feed junk cb p1 s1 = Some p2" "aborts p2 c' \<or> dangling p2 c'"
      using Cons.IH [OF p1(2)] Cons.prems(2) by auto
    then show ?thesis
    proof cases
      case 1
      then show ?thesis using p1(1) by auto
    next
      case 2
      then have "pp_feed junk cb p (c # s1) = Some p2" "c # s = (c # s1) @ c' # s2" using p1(1) by simp_all
      then show ?thesis using 2(3) by blast
    qed
  qed
qed

lemma pp_zero_wf: "pp_wf 0 (pp_zero d)"
  using xs_ok_init(1) by (simp add: wf_simps pp_zero_def rb_def X_STRING_STATIC_INIT_def)

lemma log_cb_total: "total_cb log_cb"
  by (simp add: total_cb_def log_cb_def)

theorem pp_feed_safe_witness:
  "(\<exists>p'. pp_feed (\<lambda>_. NUL) log_cb (pp_zero []) ''<a/>x'' = Some p' \<and> pp_wf (0 + length ''<a/>x'') p')
    \<or> (\<exists>s1 c s2 p1. ''<a/>x'' = s1 @ c # s2 \<and> pp_feed (\<lambda>_. NUL) log_cb (pp_zero []) s1 = Some p1 \<and> (aborts p1 c \<or> dangling p1 c))"
  by (rule pp_feed_safe [OF pp_zero_wf _ log_cb_total]) (simp add: reg_max_def)

end
