(* ===== verification/Spec2Isabelle.thy ===== *)
theory Spec2Isabelle
  imports Crypt_Base64 Crypt_Crc32 Ice_Media Xw_Obj_Events Xw_Circbuf Xw_Queue_Threads Xw_Factory Xw_Paths Core_Stream Core_Bind Xw_Parser_Safe
begin

text \<open>
  This library models the agent of \<^verbatim>\<open>src/xmppbot\<close>, a bot for XMPP that also carries voice and video, and
  proves what makes its parts correct. The other directories of the repository are front ends,
  bindings and vendored libraries.

  \<^bold>\<open>The program.\<close> Everything is an object: \<^verbatim>\<open>xwlib\<close> keeps a tree of objects with attributes, contents,
  reference counts, listeners and followers, whose classes have callbacks. The session object
  (\<^verbatim>\<open>x_bus.c\<close>) feeds the bytes of the network to the push parser (\<^verbatim>\<open>x_parser.c\<close>), whose reports it
  turns into objects: an opening tag makes an object of the class that is registered for the name
  and the namespace (\<^verbatim>\<open>x_objfactory.c\<close>), appends it to the current one and assigns the attributes;
  a closing tag commits it. The classes of the stanzas (\<^verbatim>\<open>plugins/core\<close>, \<^verbatim>\<open>plugins/bind\<close>, the
  mechanisms of SASL) react in these callbacks, and answer by writing objects down the tree, where
  the session serializes them. Media goes another way: the codecs (\<^verbatim>\<open>plugins/video\<close>) cut frames into
  packets, the transport (\<^verbatim>\<open>plugins/sessions_api/ice_ctl.c\<close>) finds a pair of addresses by
  connectivity checks with the messages of \<^verbatim>\<open>plugins/ice/x_stun.c\<close>, which are signed by the digests of
  \<^verbatim>\<open>plugins/crypt\<close>, and sends each packet behind an RTP header over that pair.

  \<^bold>\<open>Conventions.\<close> A struct is a record, an enumeration a datatype, an integer whose width matters a
  word. Undefined behaviour of C (a read or write outside a block, a null pointer, the use of a
  value that was never set) and the end of the program by an assertion are the result \<open>None\<close>; an
  error that the code reports is a number or a null in the result, as in the code. Operations
  thread the state explicitly: the heap of objects, which maps addresses to records and has a
  next free address; the parser with the state of its application; the transport. What an
  uninitialised or grown block holds is a parameter (\<open>junk\<close>), so that a theorem holds whatever it
  is. Loops whose end depends on the heap are partial functions with the result \<open>None\<close> when they do
  not end, never fuel; each theorem about them states that there is a result. Trace output, which
  the build compiles in, is left out where it prints what the code reads anyway, and modelled where
  it reads more: in the receiver of VP8 (\<open>vpx_trace\<close>), whose claims ask for 13 bytes behind a packet
  in its block or have them from the block of the transport.

  \<^bold>\<open>Theories.\<close>

  \<^item> \<open>Xw_Prelude\<close>: words, C strings, blocks of memory, collections of rewrite rules. \<open>Xw_Bytes\<close>: byte
    order, 16 and 32-bit fields. \<open>Xw_Decimal\<close>: numbers as text.
  \<^item> \<open>Xw_String\<close> (\<^verbatim>\<open>xwlib/x_string.c\<close>): growing strings, with \<open>x_string_history\<close>, the refinement of
    the abstract string by any sequence of calls.
  \<^item> \<open>Xw_Store\<close>, \<open>Xw_Utils\<close> (\<^verbatim>\<open>xwlib/x_utils.c\<close>): the contract of a keyed store as the locale
    \<open>keyed_store\<close>, attribute lists and hash tables, and its two interpretations on them.
  \<^item> \<open>Xw_Fifo\<close>, \<open>Xw_Circbuf\<close> (\<^verbatim>\<open>xwlib/x_stuff.c\<close>), \<open>Xw_Queue\<close> (\<^verbatim>\<open>xwlib/x_queue.c\<close>): the contract of a
    queue as the locale \<open>fifo\<close>, the circular buffer and the message queue as its interpretations.
    \<open>Xw_Queue_Threads\<close>: the statements of the calls of any number of threads as an inductive step
    relation, with order, absence of null results and progress over all reachable states.
  \<^item> \<open>Xw_Ring\<close>, \<open>Xw_Factory\<close>, \<open>Xw_Paths\<close> (\<^verbatim>\<open>xwlib/x_objfactory.c\<close>): doubly linked lists, the registry of
    classes as a map, and the listeners of paths.
  \<^item> \<open>Xw_Obj\<close> (\<^verbatim>\<open>xwlib/x_obj.c\<close>): the object tree. \<open>Xw_Obj_Tree\<close>, \<open>Xw_Obj_Names\<close> and \<open>Xw_Obj_Remove\<close>
    relate the pointers to lists of children and chains of equal names; \<open>Xw_Obj_Claims\<close> and
    \<open>Xw_Obj_Events\<close> state what appending, unlinking, destroying, subscribing and writing promise;
    \<open>Xw_Obj_Copy\<close> is the recursive copy.
  \<^item> \<open>Xw_Parser\<close> (\<^verbatim>\<open>x_parser.c\<close>): the parser as a state machine over characters and the serializer.
    \<open>Xw_Parser_Proofs\<close> and \<open>Xw_Parser_Claims\<close> follow the text of an element tree through the
    machine, \<open>Xw_Serialize\<close> relates the serializer to that text and closes the round trip, and
    \<open>Xw_Parser_Safe\<close> is the invariant over arbitrary bytes, with the bytes that stop the program.
  \<^item> \<open>Xw_Bus\<close> (\<^verbatim>\<open>x_bus.c\<close>): the session. \<open>Xw_Bus_Proofs\<close> has one lemma for each report of the parser,
    \<open>Xw_Bus_Claims\<close> the composition: what one session writes for a tree becomes the same tree in
    the session that reads it, in whatever pieces the bytes arrive.
  \<^item> \<open>Core_Stanzas\<close> (\<^verbatim>\<open>plugins/core\<close>, \<^verbatim>\<open>plugins/bind/bind.c\<close>): the callbacks of the stanzas.
    \<open>Core_Stream\<close>: the header of the stream, written and read back. \<open>Core_Claims\<close>: the answer to an iq
    and the message that waits for the features. \<open>Core_Bind\<close>: the request for a resource.
  \<^item> \<open>Auth_Sasl\<close>, \<open>Auth_Sasl_Claims\<close> (\<^verbatim>\<open>plugins/auth_plain\<close>, \<^verbatim>\<open>plugins/auth_md5\<close>): the two mechanisms against
    RFC 4616 and RFC 2831.
  \<^item> \<open>Crypt_Base64\<close>, \<open>Crypt_Crc32\<close>, \<open>Crypt_Md5\<close>, \<open>Crypt_Sha1\<close> (\<^verbatim>\<open>plugins/crypt\<close>): codecs and digests.
    \<open>Crypt_Blocks\<close> has what block digests share, and the locale \<open>streaming_digest\<close> with its
    interpretations for MD5 and SHA-1. The reference definitions follow RFC 1321 and FIPS 180.
  \<^item> \<open>Ice_Hmac\<close>, \<open>Ice_Stun\<close>, \<open>Ice_Stun_Proofs\<close>, \<open>Ice_Stun_Claims\<close> (\<^verbatim>\<open>plugins/ice/x_stun.c\<close>): STUN messages,
    byte for byte, and their integrity.
  \<^item> \<open>Ice_Ctl\<close> (\<^verbatim>\<open>plugins/sessions_api/ice_ctl.c\<close>, \<^verbatim>\<open>payload_ctl.c\<close>): the media transport.
    \<open>Ice_Ctl_Claims\<close>: its events, writes of both kinds among them, as an inductive step relation and
    the invariant of the reachable states. \<open>Ice_Checks\<close>, \<open>Ice_Handshake\<close>: one transport checks another. \<open>Ice_Media\<close>: media from one
    to the other.
  \<^item> \<open>Media_Base\<close>, \<open>Media_Vp8\<close>, \<open>Media_Vp8_Claims\<close> (\<^verbatim>\<open>plugins/video/codec/xvpx\<close>), \<open>Media_Theora\<close>,
    \<open>Media_Theora_Claims\<close> (\<^verbatim>\<open>plugins/video/codec/xtheora\<close>): fragmentation and reassembly.
    \<open>Media_Channel\<close>: the locale \<open>packet_channel\<close>, what a stream of packets needs from the transport
    below it; \<open>Ice_Media\<close> interprets it on the transport, and both codecs run over it.

  \<^bold>\<open>Bounds.\<close> The registers of the parser are followed up to \<open>reg_max\<close> = 10^8 characters, and texts that
  are written at once up to 4 * 10^9 bytes, since capacities are 32-bit and the code does not test
  them. The response of DIGEST-MD5 is built in 1024 bytes, which limits the lengths of its parts.
  Numbers of packets and frames are 32-bit and followed below 2^31. STUN messages are
  built in blocks of 2048 bytes, user names of checks have up to 60 bytes. The table of pairs has
  256 entries and the table of applications 127, as in the code.

  \<^bold>\<open>Assumptions.\<close> The round trip through a session and the claims on stanzas assume that the classes
  that take part have no callbacks of their own except, where it is named, the one that transmits
  (\<open>plain_env\<close>): classes are arguments of the model, and a class could do anything. The operations
  themselves are modelled with all their calls of callbacks. The decoders of VP8 and Theora, the
  clock, the random numbers and the results of system calls are parameters. The writing callbacks
  of followers are functions of the heap and may change it; the claim on them (\<open>credited\<close>) names what
  they have to leave alone. Two operations of the object tree, naming an object and making a path,
  write one terminator behind their block on every call: they are modelled at the level of objects
  as if that byte belonged to no object, and at the level of the block as undefined
  (\<open>set_name_overruns\<close>, \<open>mkpath_overruns\<close>).

  \<^bold>\<open>Not modelled.\<close> Sockets, TLS, the event loop and its threads, timers, devices, and the loading of
  plugins are system or library calls. Locks are left out except in the message queue, whose
  interleavings are modelled. The negotiation of sessions (\<^verbatim>\<open>plugins/jingle\<close>) and the API below it
  (\<^verbatim>\<open>sessions.c\<close>, \<^verbatim>\<open>streams.c\<close>) translate between stanzas and objects, over threads and callbacks of
  classes that plugins register; the two callbacks of chat messages that open a session belong
  to them. The set-up of the codecs and the hand-over of images call the codec libraries. The
  transport of the older dialect, the stand-alone agent and the demonstrations repeat code that is
  modelled or are not built. Front ends, bindings and third-party code are left aside.
\<close>

end
